(* ===== verification/Go_Prelude.thy ===== *)
theory Go_Prelude
  imports Main
begin

text \<open>
  Shared vocabulary of the development: the parts of Go and of its standard library that
  several components use.  Signed 64-bit wrap-around, error values, contexts, byte strings
  (\<^verbatim>\<open>strings.HasPrefix\<close>, \<^verbatim>\<open>TrimLeft\<close>, \<^verbatim>\<open>Split\<close>, \<dots>), the oracle clock, and the
  generic facts on lists, maps and options that the component theories rely on.

  Conventions.  A Go \<^verbatim>\<open>string\<close> is a byte list (\<^typ>\<open>string\<close>).  An \<^verbatim>\<open>error\<close> result is
  an \<^verbatim>\<open>option\<close>: \<^term>\<open>None\<close> is \<^verbatim>\<open>nil\<close>.  A pointer that may be \<^verbatim>\<open>nil\<close> is an
  option, too.  Instants and durations are nanosecond counts (\<^typ>\<open>int\<close>).
\<close>

named_theorems go_simps \<open>unfolding rules of the model's non-recursive operations\<close>
named_theorems go_inv \<open>invariant preservation, one fact per operation\<close>

section \<open>Signed 64-bit integers\<close>

text \<open>Go's \<^verbatim>\<open>int64\<close> (and \<^verbatim>\<open>int\<close> on 64-bit targets) wraps around in two's complement.\<close>

definition int64_min :: int where
  "int64_min = - (2 ^ 63)"

definition int64_max :: int where
  "int64_max = 2 ^ 63 - 1"

definition in_int64 :: "int \<Rightarrow> bool" where
  "in_int64 x \<longleftrightarrow> int64_min \<le> x \<and> x \<le> int64_max"

definition wrap64 :: "int \<Rightarrow> int" where
  "wrap64 x = (x + 2 ^ 63) mod 2 ^ 64 - 2 ^ 63"

lemmas int64_defs = in_int64_def int64_min_def int64_max_def

lemma wrap64_range: "in_int64 (wrap64 x)"
proof -
  have "0 \<le> (x + 2 ^ 63) mod 2 ^ 64" and "(x + 2 ^ 63) mod 2 ^ 64 < (2 ^ 64 :: int)"
    by simp_all
  then show ?thesis by (simp add: wrap64_def int64_defs)
qed

lemma wrap64_id: "in_int64 x \<Longrightarrow> wrap64 x = x"
  by (simp add: wrap64_def int64_defs)

lemma wrap64_idem [simp]: "wrap64 (wrap64 x) = wrap64 x"
  by (rule wrap64_id) (rule wrap64_range)

text \<open>Go's \<^verbatim>\<open>/\<close> and \<^verbatim>\<open>%\<close> truncate towards zero.\<close>

definition tdiv :: "int \<Rightarrow> int \<Rightarrow> int" where
  "tdiv a b = sgn a * sgn b * (\<bar>a\<bar> div \<bar>b\<bar>)"

definition tmod :: "int \<Rightarrow> int \<Rightarrow> int" where
  "tmod a b = a - b * tdiv a b"

lemma tdiv_nonneg: "0 \<le> a \<Longrightarrow> 0 < b \<Longrightarrow> tdiv a b = a div b"
  by (cases "a = 0") (simp_all add: tdiv_def)

section \<open>Error values\<close>

text \<open>
  \<^verbatim>\<open>errors.New\<close> and \<^verbatim>\<open>fmt.Errorf\<close> without \<^verbatim>\<open>%w\<close> give \<^verbatim>\<open>ErrNew\<close>; \<^verbatim>\<open>fmt.Errorf("p%w", err)\<close>
  gives \<^verbatim>\<open>ErrWrapf p err\<close>.  A sentinel such as \<^verbatim>\<open>context.Canceled\<close> is the \<^verbatim>\<open>ErrNew\<close> value of
  its text.
\<close>

datatype goerr = ErrNew string | ErrWrapf string goerr

fun Error :: "goerr \<Rightarrow> string" where
  "Error (ErrNew s) = s"
| "Error (ErrWrapf p e) = p @ Error e"

text \<open>\<^verbatim>\<open>errors.Is\<close>: the target occurs in the \<^verbatim>\<open>Unwrap\<close> chain.\<close>

fun errors_Is :: "goerr \<Rightarrow> goerr \<Rightarrow> bool" where
  "errors_Is (ErrNew s) t \<longleftrightarrow> ErrNew s = t"
| "errors_Is (ErrWrapf p e) t \<longleftrightarrow> ErrWrapf p e = t \<or> errors_Is e t"

lemma errors_Is_refl [simp]: "errors_Is e e"
  by (cases e) simp_all

definition Canceled :: goerr where
  "Canceled = ErrNew ''context canceled''"

definition DeadlineExceeded :: goerr where
  "DeadlineExceeded = ErrNew ''context deadline exceeded''"

section \<open>Oracle time\<close>

text \<open>
  Everything the code reads from its environment (\<^verbatim>\<open>time.Now()\<close>, \<^verbatim>\<open>ctx.Err()\<close>, the answer of a
  network call) is read through an oracle indexed by a step counter (\<^verbatim>\<open>tick\<close>) that every such
  read advances, so two reads may differ and nothing is assumed about how they differ.
\<close>

type_synonym tick = nat
type_synonym clock = "tick \<Rightarrow> int"

record ctx =
  ctxErr :: "tick \<Rightarrow> goerr option"

text \<open>A context stays done once it is done, with the same error.\<close>

definition sticky_ctx :: "ctx \<Rightarrow> bool" where
  "sticky_ctx c \<longleftrightarrow> (\<forall>i j e. i \<le> j \<longrightarrow> ctxErr c i = Some e \<longrightarrow> ctxErr c j = Some e)"

definition Background :: ctx where
  "Background = \<lparr>ctxErr = (\<lambda>_. None)\<rparr>"

section \<open>Byte strings\<close>

definition HasPrefix :: "string \<Rightarrow> string \<Rightarrow> bool" where
  "HasPrefix s p \<longleftrightarrow> take (length p) s = p"

definition HasSuffix :: "string \<Rightarrow> string \<Rightarrow> bool" where
  "HasSuffix s p \<longleftrightarrow> length p \<le> length s \<and> drop (length s - length p) s = p"

definition TrimSuffix :: "string \<Rightarrow> string \<Rightarrow> string" where
  "TrimSuffix s p = (if HasSuffix s p then take (length s - length p) s else s)"

text \<open>\<^verbatim>\<open>strings.TrimLeft/TrimRight\<close> with a one-byte cutset.\<close>

definition TrimLeftC :: "string \<Rightarrow> char \<Rightarrow> string" where
  "TrimLeftC s c = dropWhile (\<lambda>x. x = c) s"

definition TrimRightC :: "string \<Rightarrow> char \<Rightarrow> string" where
  "TrimRightC s c = rev (dropWhile (\<lambda>x. x = c) (rev s))"

text \<open>ASCII white space, as \<^verbatim>\<open>strings.TrimSpace\<close> removes it from ASCII text.\<close>

definition is_space :: "char \<Rightarrow> bool" where
  "is_space c \<longleftrightarrow> of_char c \<in> {9, 10, 11, 12, 13, 32 :: nat}"

definition TrimSpace :: "string \<Rightarrow> string" where
  "TrimSpace s = rev (dropWhile is_space (rev (dropWhile is_space s)))"

text \<open>\<^verbatim>\<open>strings.ToLower\<close> and \<^verbatim>\<open>ToUpper\<close> on ASCII; bytes from 128 on are left alone.\<close>

definition lower_char :: "char \<Rightarrow> char" where
  "lower_char c = (let n = of_char c :: nat in if 65 \<le> n \<and> n \<le> 90 then char_of (n + 32) else c)"

definition upper_char :: "char \<Rightarrow> char" where
  "upper_char c = (let n = of_char c :: nat in if 97 \<le> n \<and> n \<le> 122 then char_of (n - 32) else c)"

definition ToLower :: "string \<Rightarrow> string" where
  "ToLower s = map lower_char s"

definition ToUpper :: "string \<Rightarrow> string" where
  "ToUpper s = map upper_char s"

text \<open>\<^verbatim>\<open>strings.Split(s, sep)\<close> for a one-byte separator: never empty.\<close>

fun SplitC :: "string \<Rightarrow> char \<Rightarrow> string list" where
  "SplitC [] c = [[]]"
| "SplitC (x # xs) c =
     (if x = c then [] # SplitC xs c
      else case SplitC xs c of [] \<Rightarrow> [[x]] | p # ps \<Rightarrow> (x # p) # ps)"

fun Join :: "string list \<Rightarrow> string \<Rightarrow> string" where
  "Join [] sep = []"
| "Join [s] sep = s"
| "Join (s # t # ss) sep = s @ sep @ Join (t # ss) sep"

text \<open>\<^verbatim>\<open>strings.Contains\<close>.\<close>

fun Contains :: "string \<Rightarrow> string \<Rightarrow> bool" where
  "Contains [] p \<longleftrightarrow> p = []"
| "Contains (x # xs) p \<longleftrightarrow> HasPrefix (x # xs) p \<or> Contains xs p"

lemma SplitC_not_Nil [simp]: "SplitC s c \<noteq> []"
  by (cases s) (auto split: list.split)

lemma Join_Cons: "ss \<noteq> [] \<Longrightarrow> Join (s # ss) sep = s @ sep @ Join ss sep"
  by (cases ss) simp_all

lemma Join_SplitC: "Join (SplitC s c) [c] = s"
proof (induction s)
  case Nil
  show ?case by simp
next
  case (Cons x xs)
  obtain p ps where ps: "SplitC xs c = p # ps" by (cases "SplitC xs c") auto
  with Cons.IH show ?case by (cases ps) (auto simp: Join_Cons)
qed

lemma SplitC_no_sep: "p \<in> set (SplitC s c) \<Longrightarrow> c \<notin> set p"
proof (induction s arbitrary: p)
  case Nil
  then show ?case by simp
next
  case (Cons x xs)
  obtain q qs where qs: "SplitC xs c = q # qs" by (cases "SplitC xs c") auto
  with Cons show ?case by (auto split: if_splits)
qed

lemma SplitC_single: "c \<notin> set s \<Longrightarrow> SplitC s c = [s]"
  by (induction s) auto

lemma SplitC_sep: "SplitC (s @ c # t) c = SplitC s c @ SplitC t c"
proof (induction s)
  case (Cons x s)
  obtain p ps where "SplitC s c = p # ps" by (cases "SplitC s c") auto
  with Cons show ?case by auto
qed simp

lemma HasPrefix_append [simp]: "HasPrefix (p @ s) p"
  by (simp add: HasPrefix_def)

lemma HasPrefix_iff: "HasPrefix s p \<longleftrightarrow> (\<exists>t. s = p @ t)"
  by (metis HasPrefix_append HasPrefix_def append_take_drop_id)

lemma HasSuffix_append [simp]: "HasSuffix (s @ p) p"
  by (simp add: HasSuffix_def)

lemma TrimSuffix_append [simp]: "TrimSuffix (s @ p) p = s"
  by (simp add: TrimSuffix_def)

lemma HasSuffix_iff: "HasSuffix s p \<longleftrightarrow> (\<exists>t. s = t @ p)"
  by (metis HasSuffix_append HasSuffix_def append_take_drop_id)

lemma HasPrefix_Nil [simp]: "HasPrefix s []"
  by (simp add: HasPrefix_def)

lemma Contains_iff: "Contains s p \<longleftrightarrow> (\<exists>u v. s = u @ p @ v)"
proof (induction s)
  case Nil
  show ?case by simp
next
  case (Cons x xs)
  have "(\<exists>u v. x # xs = u @ p @ v) \<longleftrightarrow> HasPrefix (x # xs) p \<or> (\<exists>u v. xs = u @ p @ v)"
  proof
    assume "\<exists>u v. x # xs = u @ p @ v"
    then obtain u v where "x # xs = u @ p @ v" by blast
    then show "HasPrefix (x # xs) p \<or> (\<exists>u v. xs = u @ p @ v)"
      by (cases u) (auto simp: HasPrefix_iff)
  next
    assume "HasPrefix (x # xs) p \<or> (\<exists>u v. xs = u @ p @ v)"
    then show "\<exists>u v. x # xs = u @ p @ v"
    proof
      assume "HasPrefix (x # xs) p"
      then obtain t where "x # xs = [] @ p @ t" by (auto simp: HasPrefix_iff)
      then show ?thesis by blast
    next
      assume "\<exists>u v. xs = u @ p @ v"
      then obtain u v where "x # xs = (x # u) @ p @ v" by auto
      then show ?thesis by blast
    qed
  qed
  with Cons.IH show ?case by simp
qed

text \<open>\<^verbatim>\<open>strconv.FormatInt(v, 10)\<close>, also what \<^verbatim>\<open>%d\<close> prints.\<close>

fun nat_digits :: "nat \<Rightarrow> string" where
  "nat_digits n =
     (if n < 10 then [char_of (48 + n)] else nat_digits (n div 10) @ [char_of (48 + n mod 10)])"

declare nat_digits.simps [simp del]

definition FormatInt :: "int \<Rightarrow> string" where
  "FormatInt v = (if v < 0 then CHR ''-'' # nat_digits (nat (- v)) else nat_digits (nat v))"

text \<open>
  The verb \<^verbatim>\<open>%q\<close> of \<^verbatim>\<open>fmt\<close> for a string: in double quotes, with the quote, the backslash and the control characters escaped.  Bytes above 127
  are kept, as for the text of printable runes.
\<close>

definition fmt_q_char :: "char \<Rightarrow> string" where
  "fmt_q_char c =
     (let n = of_char c :: nat; esc = (\<lambda>x. [CHR 0x5C, x]); hex = (\<lambda>k. ''0123456789abcdef'' ! k)
      in if c = CHR 0x22 \<or> c = CHR 0x5C then esc c
         else if 7 \<le> n \<and> n \<le> 13 then esc (''abtnvfr'' ! (n - 7))
         else if n < 32 \<or> n = 127 then esc (CHR ''x'') @ [hex (n div 16), hex (n mod 16)]
         else [c])"

definition fmt_q :: "string \<Rightarrow> string" where
  "fmt_q s = [CHR 0x22] @ concat (map fmt_q_char s) @ [CHR 0x22]"

section \<open>Generic facts\<close>

lemma map_le_upd_fold:
  "foldl (\<lambda>m (k, v). m(k \<mapsto> v)) m kvs = m ++ map_of (rev kvs)"
  by (induction kvs arbitrary: m) (auto simp: map_add_def fun_eq_iff split: option.splits)

lemma distinct_filter_map: "distinct (map f xs) \<Longrightarrow> distinct (map f (filter P xs))"
  by (induction xs) auto

end
