(* ===== verification/Http_Chain.thy ===== *)
theory Http_Chain
  imports Go_Prelude
begin

text \<open>
  \<^verbatim>\<open>net/http/context.go\<close> and \<^verbatim>\<open>net/http/chain.go\<close>: the middleware engine of the HTTP client.
  A middleware is what it does before and after \<^verbatim>\<open>ctx.Next()\<close>; the chain is run by the index
  discipline of the code (an \<^verbatim>\<open>int8\<close> that every \<^verbatim>\<open>Next\<close> loop advances), panics included.  The
  lemmas relate that to the onion the comments promise, and show where it stops being one.
\<close>

section \<open>Middlewares and contexts\<close>

text \<open>What a middleware does once its first part has run.\<close>

datatype ctl = CNext | CReturn | CAbort | CPanic string

text \<open>
  A middleware over the context data \<open>'b\<close>: the part before \<^verbatim>\<open>ctx.Next()\<close> and the part after it;
  the recovery middleware, with what it does to the data on a panic; the two combinators.
\<close>

datatype 'b Middleware =
  Handler "'b \<Rightarrow> 'b \<times> ctl" "'b \<Rightarrow> 'b \<times> ctl"
| Recovery "string \<Rightarrow> 'b \<Rightarrow> 'b"
| Compose "'b Middleware list"
| ConditionalMiddleware "'b \<Rightarrow> bool" "'b Middleware"

record 'b Context =
  payload :: 'b
  handlers :: "'b Middleware list"
  index :: int

definition wrap8 :: "int \<Rightarrow> int" where
  "wrap8 x = (x + 128) mod 256 - 128"

definition abortIndex :: int where
  "abortIndex = 63"

definition Abort :: "'b Context \<Rightarrow> 'b Context" where
  "Abort c = c\<lparr>index := abortIndex\<rparr>"

definition IsAborted :: "'b Context \<Rightarrow> bool" where
  "IsAborted c \<longleftrightarrow> index c \<ge> abortIndex"

definition incr :: "'b Context \<Rightarrow> 'b Context" where
  "incr c = c\<lparr>index := wrap8 (index c + 1)\<rparr>"

text \<open>
  \<^verbatim>\<open>Next\<close> with its loop, and the call of one middleware, in at most the given number of calls.
  The result is the panic, if one is unwinding, and the context; \<^term>\<open>None\<close> is not having returned.
\<close>

fun Next :: "nat \<Rightarrow> 'b Context \<Rightarrow> (string option \<times> 'b Context) option"
and next_loop :: "nat \<Rightarrow> 'b Context \<Rightarrow> (string option \<times> 'b Context) option"
and call :: "nat \<Rightarrow> 'b Middleware \<Rightarrow> 'b Context \<Rightarrow> (string option \<times> 'b Context) option" where
  "Next 0 c = None"
| "Next (Suc n) c = next_loop n (incr c)"
| "next_loop 0 c = None"
| "next_loop (Suc n) c =
     (if index c < wrap8 (int (length (handlers c))) then
        if index c < 0 then Some (Some ''index out of range'', c)
        else (case call n (handlers c ! nat (index c)) c of
                None \<Rightarrow> None
              | Some (Some p, c1) \<Rightarrow> Some (Some p, c1)
              | Some (None, c1) \<Rightarrow> next_loop n (incr c1))
      else Some (None, c))"
| "call 0 m c = None"
| "call (Suc n) (Handler before after) c =
     (case before (payload c) of
        (b, CPanic p) \<Rightarrow> Some (Some p, c\<lparr>payload := b\<rparr>)
      | (b, CReturn) \<Rightarrow> Some (None, c\<lparr>payload := b\<rparr>)
      | (b, CAbort) \<Rightarrow> Some (None, Abort (c\<lparr>payload := b\<rparr>))
      | (b, CNext) \<Rightarrow>
          (case Next n (c\<lparr>payload := b\<rparr>) of
             None \<Rightarrow> None
           | Some (Some p, c1) \<Rightarrow> Some (Some p, c1)
           | Some (None, c1) \<Rightarrow>
               (case after (payload c1) of
                  (b, CPanic p) \<Rightarrow> Some (Some p, c1\<lparr>payload := b\<rparr>)
                | (b, CAbort) \<Rightarrow> Some (None, Abort (c1\<lparr>payload := b\<rparr>))
                | (b, _) \<Rightarrow> Some (None, c1\<lparr>payload := b\<rparr>))))"
| "call (Suc n) (Recovery onPanic) c =
     (case Next n c of
        None \<Rightarrow> None
      | Some (Some p, c1) \<Rightarrow> Some (None, c1\<lparr>payload := onPanic p (payload c1)\<rparr>)
      | Some (None, c1) \<Rightarrow> Some (None, c1))"
| "call (Suc n) (Compose middlewares) c =
     (case Next n (c\<lparr>handlers := middlewares, index := - 1\<rparr>) of
        None \<Rightarrow> None
      | Some (Some p, c1) \<Rightarrow> Some (Some p, c1)
      | Some (None, c1) \<Rightarrow> Some (None, c1\<lparr>handlers := handlers c, index := index c\<rparr>))"
| "call (Suc n) (ConditionalMiddleware condition middleware) c =
     (if condition (payload c) then call n middleware c else Next n c)"

text \<open>\<^verbatim>\<open>middlewareChain.execute\<close>: the request itself is the last handler.\<close>

definition chain_execute ::
    "nat \<Rightarrow> 'b Middleware list \<Rightarrow> 'b Middleware \<Rightarrow> 'b \<Rightarrow> (string option \<times> 'b Context) option" where
  "chain_execute fuel middlewares doRequest b =
     Next fuel \<lparr>payload = b, handlers = middlewares @ [doRequest], index = - 1\<rparr>"

section \<open>The onion\<close>

text \<open>
  What the chain is meant to compute: each middleware wraps the rest.  One that returns without
  calling \<^verbatim>\<open>Next\<close> is simply followed by the rest; one that aborts ends the descent.  A composition
  runs its own onion to the end first, abort or not, and the rest follows.
\<close>

fun wrap :: "'b Middleware \<Rightarrow> ('b \<Rightarrow> 'b) \<Rightarrow> 'b \<Rightarrow> 'b"
and onion :: "'b Middleware list \<Rightarrow> 'b \<Rightarrow> 'b" where
  "wrap (Handler before after) rest b =
     (case before b of
        (b', CNext) \<Rightarrow> fst (after (rest b'))
      | (b', CReturn) \<Rightarrow> rest b'
      | (b', _) \<Rightarrow> b')"
| "wrap (Recovery onPanic) rest b = rest b"
| "wrap (Compose ms) rest b = rest (onion ms b)"
| "wrap (ConditionalMiddleware cond m) rest b = (if cond b then wrap m rest b else rest b)"
| "onion [] b = b"
| "onion (m # ms) b = wrap m (onion ms) b"

text \<open>Middlewares that do not panic, in compositions short enough for the index.\<close>

fun ctl_panics :: "ctl \<Rightarrow> bool" where
  "ctl_panics (CPanic _) = True"
| "ctl_panics _ = False"

primrec mw_ok :: "'b Middleware \<Rightarrow> bool" where
  "mw_ok (Handler before after) \<longleftrightarrow>
     (\<forall>b. \<not> ctl_panics (snd (before b))) \<and> (\<forall>b. \<not> ctl_panics (snd (after b)))"
| "mw_ok (Recovery onPanic) \<longleftrightarrow> True"
| "mw_ok (Compose ms) \<longleftrightarrow> length ms \<le> 63 \<and> list_all id (map mw_ok ms)"
| "mw_ok (ConditionalMiddleware cond m) \<longleftrightarrow> mw_ok m"

text \<open>How many calls a middleware or a chain can take.\<close>

primrec mw_fuel :: "'b Middleware \<Rightarrow> nat" where
  "mw_fuel (Handler before after) = 2"
| "mw_fuel (Recovery onPanic) = 2"
| "mw_fuel (Compose ms) = 3 + sum_list (map (\<lambda>n. Suc n) (map mw_fuel ms))"
| "mw_fuel (ConditionalMiddleware cond m) = 2 + mw_fuel m"

definition chain_fuel :: "'b Middleware list \<Rightarrow> nat" where
  "chain_fuel ms = 1 + sum_list (map (\<lambda>m. Suc (mw_fuel m)) ms)"

lemma chain_fuel_simps [simp]:
  "chain_fuel [] = 1" "chain_fuel (m # ms) = Suc (mw_fuel m) + chain_fuel ms"
  by (simp_all add: chain_fuel_def)

lemma mw_fuel_Compose: "mw_fuel (Compose ms) = 2 + chain_fuel ms"
  by (simp add: chain_fuel_def comp_def)

lemma mw_ok_Compose: "mw_ok (Compose ms) \<longleftrightarrow> length ms \<le> 63 \<and> (\<forall>m\<in>set ms. mw_ok m)"
  by (simp add: list_all_iff)

declare mw_fuel.simps(3) [simp del] mw_ok.simps(3) [simp del]

lemma wrap8_id: "- 128 \<le> x \<Longrightarrow> x < 128 \<Longrightarrow> wrap8 x = x"
  by (simp add: wrap8_def)

text \<open>The two invariants: of the loop from handler \<open>i\<close> on, and of the call of one middleware.\<close>

definition loop_ok :: "'b Middleware list \<Rightarrow> nat \<Rightarrow> bool" where
  "loop_ok hs i \<longleftrightarrow> (\<forall>b n. chain_fuel (drop i hs) \<le> n \<longrightarrow>
     (\<exists>j. next_loop n \<lparr>payload = b, handlers = hs, index = int i\<rparr> =
            Some (None, \<lparr>payload = onion (drop i hs) b, handlers = hs, index = j\<rparr>) \<and>
          int (length hs) \<le> j \<and> j \<le> 64 + int (length hs - i)))"

definition call_ok :: "'b Middleware \<Rightarrow> bool" where
  "call_ok m \<longleftrightarrow> (\<forall>hs i b n. length hs \<le> 63 \<longrightarrow> i < length hs \<longrightarrow> loop_ok hs (Suc i) \<longrightarrow>
     mw_fuel m + chain_fuel (drop (Suc i) hs) \<le> n \<longrightarrow>
     (\<exists>b' j. call n m \<lparr>payload = b, handlers = hs, index = int i\<rparr> =
               Some (None, \<lparr>payload = b', handlers = hs, index = j\<rparr>) \<and>
             (j = int i \<and> wrap m (onion (drop (Suc i) hs)) b = onion (drop (Suc i) hs) b' \<or>
              int (length hs) \<le> j + 1 \<and> j \<le> 64 + int (length hs - Suc i) \<and>
              b' = wrap m (onion (drop (Suc i) hs)) b)))"

lemma loop_okD:
  assumes "loop_ok hs i" "chain_fuel (drop i hs) \<le> n"
  obtains j where "next_loop n \<lparr>payload = b, handlers = hs, index = int i\<rparr> =
      Some (None, \<lparr>payload = onion (drop i hs) b, handlers = hs, index = j\<rparr>)"
    "int (length hs) \<le> j" "j \<le> 64 + int (length hs - i)"
  using assms unfolding loop_ok_def by blast

lemma Next_of_loop:
  assumes "loop_ok hs (Suc i)" "length hs \<le> 63" "i < length hs" "Suc (chain_fuel (drop (Suc i) hs)) \<le> n"
  obtains j where "Next n \<lparr>payload = b, handlers = hs, index = int i\<rparr> =
      Some (None, \<lparr>payload = onion (drop (Suc i) hs) b, handlers = hs, index = j\<rparr>)"
    "int (length hs) \<le> j" "j \<le> 64 + int (length hs - Suc i)"
proof -
  obtain k where n: "n = Suc k" "chain_fuel (drop (Suc i) hs) \<le> k" using assms(4) by (cases n) auto
  from loop_okD [OF assms(1) n(2), of b] that show ?thesis
    using assms(2,3) by (auto simp: n(1) incr_def wrap8_id add.commute)
qed

lemma call_ok_Handler:
  assumes "mw_ok (Handler before after)"
  shows "call_ok (Handler before after)"
  unfolding call_ok_def
proof (intro allI impI)
  fix hs :: "'a Middleware list" and i b n
  assume L: "length hs \<le> 63" "i < length hs" "loop_ok hs (Suc i)"
    and n: "mw_fuel (Handler before after) + chain_fuel (drop (Suc i) hs) \<le> n"
  let ?c = "\<lambda>b j. \<lparr>payload = b, handlers = hs, index = j\<rparr>"
  let ?rest = "drop (Suc i) hs"
  obtain k where k: "n = Suc k" "Suc (chain_fuel ?rest) \<le> k" using n by (cases n) auto
  obtain b1 ct where pre: "before b = (b1, ct)" by (cases "before b")
  show "\<exists>b' j. call n (Handler before after) (?c b (int i)) = Some (None, ?c b' j) \<and>
      (j = int i \<and> wrap (Handler before after) (onion ?rest) b = onion ?rest b' \<or>
       int (length hs) \<le> j + 1 \<and> j \<le> 64 + int (length hs - Suc i) \<and>
       b' = wrap (Handler before after) (onion ?rest) b)"
  proof (cases ct)
    case CNext
    obtain j where nx: "Next k (?c b1 (int i)) = Some (None, ?c (onion ?rest b1) j)"
      "int (length hs) \<le> j" "j \<le> 64 + int (length hs - Suc i)"
      using Next_of_loop [OF L(3,1,2) k(2)] by blast
    obtain b2 ct2 where post: "after (onion ?rest b1) = (b2, ct2)" by (cases "after (onion ?rest b1)")
    have "\<not> ctl_panics ct2" using assms post by (metis mw_ok.simps(1) snd_conv)
    then show ?thesis using pre CNext nx post L(1) k(1)
      by (cases ct2) (auto simp: Abort_def abortIndex_def)
  next
    case (CPanic p)
    with assms pre show ?thesis by (metis ctl_panics.simps(1) mw_ok.simps(1) snd_conv)
  qed (use pre k(1) L(1) in \<open>auto simp: Abort_def abortIndex_def\<close>)
qed

lemma call_ok_Recovery: "call_ok (Recovery f)"
  unfolding call_ok_def
proof (intro allI impI)
  fix hs :: "'a Middleware list" and i b n
  assume L: "length hs \<le> 63" "i < length hs" "loop_ok hs (Suc i)"
    and n: "mw_fuel (Recovery f) + chain_fuel (drop (Suc i) hs) \<le> n"
  obtain k where k: "n = Suc k" "Suc (chain_fuel (drop (Suc i) hs)) \<le> k" using n by (cases n) auto
  obtain j where "Next k \<lparr>payload = b, handlers = hs, index = int i\<rparr> =
      Some (None, \<lparr>payload = onion (drop (Suc i) hs) b, handlers = hs, index = j\<rparr>)"
    "int (length hs) \<le> j" "j \<le> 64 + int (length hs - Suc i)"
    using Next_of_loop [OF L(3,1,2) k(2)] by blast
  then show "\<exists>b' j. call n (Recovery f) \<lparr>payload = b, handlers = hs, index = int i\<rparr> =
        Some (None, \<lparr>payload = b', handlers = hs, index = j\<rparr>) \<and>
      (j = int i \<and> wrap (Recovery f) (onion (drop (Suc i) hs)) b = onion (drop (Suc i) hs) b' \<or>
       int (length hs) \<le> j + 1 \<and> j \<le> 64 + int (length hs - Suc i) \<and>
       b' = wrap (Recovery f) (onion (drop (Suc i) hs)) b)"
    by (auto simp: k(1))
qed

lemma call_ok_Conditional: "call_ok m \<Longrightarrow> call_ok (ConditionalMiddleware cond m)"
  unfolding call_ok_def
proof (intro allI impI)
  fix hs :: "'a Middleware list" and i b n
  assume m: "\<forall>hs i b n. length hs \<le> 63 \<longrightarrow> i < length hs \<longrightarrow> loop_ok hs (Suc i) \<longrightarrow>
     mw_fuel m + chain_fuel (drop (Suc i) hs) \<le> n \<longrightarrow>
     (\<exists>b' j. call n m \<lparr>payload = b, handlers = hs, index = int i\<rparr> =
               Some (None, \<lparr>payload = b', handlers = hs, index = j\<rparr>) \<and>
             (j = int i \<and> wrap m (onion (drop (Suc i) hs)) b = onion (drop (Suc i) hs) b' \<or>
              int (length hs) \<le> j + 1 \<and> j \<le> 64 + int (length hs - Suc i) \<and>
              b' = wrap m (onion (drop (Suc i) hs)) b))"
  assume L: "length hs \<le> 63" "i < length hs" "loop_ok hs (Suc i)"
    and n: "mw_fuel (ConditionalMiddleware cond m) + chain_fuel (drop (Suc i) hs) \<le> n"
  obtain k where k: "n = Suc k" "Suc (chain_fuel (drop (Suc i) hs)) \<le> k"
    "mw_fuel m + chain_fuel (drop (Suc i) hs) \<le> k" using n by (cases n) auto
  show "\<exists>b' j. call n (ConditionalMiddleware cond m) \<lparr>payload = b, handlers = hs, index = int i\<rparr> =
        Some (None, \<lparr>payload = b', handlers = hs, index = j\<rparr>) \<and>
      (j = int i \<and> wrap (ConditionalMiddleware cond m) (onion (drop (Suc i) hs)) b =
         onion (drop (Suc i) hs) b' \<or>
       int (length hs) \<le> j + 1 \<and> j \<le> 64 + int (length hs - Suc i) \<and>
       b' = wrap (ConditionalMiddleware cond m) (onion (drop (Suc i) hs)) b)"
  proof (cases "cond b")
    case True
    with m [rule_format, OF L k(3), of b] show ?thesis by (auto simp: k(1))
  next
    case False
    obtain j where "Next k \<lparr>payload = b, handlers = hs, index = int i\<rparr> =
        Some (None, \<lparr>payload = onion (drop (Suc i) hs) b, handlers = hs, index = j\<rparr>)"
      "int (length hs) \<le> j" "j \<le> 64 + int (length hs - Suc i)"
      using Next_of_loop [OF L(3,1,2) k(2)] by blast
    with False show ?thesis by (auto simp: k(1))
  qed
qed

text \<open>A chain of such middlewares, from any handler on.\<close>

lemma loop_ok_step:
  assumes "call_ok (hs ! i)" "length hs \<le> 63" "i < length hs" "loop_ok hs (Suc i)"
  shows "loop_ok hs i"
  unfolding loop_ok_def
proof (intro allI impI)
  fix b n
  let ?c = "\<lambda>b j. \<lparr>payload = b, handlers = hs, index = j\<rparr>"
  have d: "drop i hs = hs ! i # drop (Suc i) hs" using assms(3) by (simp add: Cons_nth_drop_Suc)
  assume "chain_fuel (drop i hs) \<le> n"
  then obtain k where k: "n = Suc k" "mw_fuel (hs ! i) + chain_fuel (drop (Suc i) hs) \<le> k"
    by (cases n) (auto simp: d)
  have k1: "chain_fuel (drop (Suc i) hs) \<le> k" "0 < k" using k(2) by (auto simp: chain_fuel_def)
  have L: "wrap8 (int (length hs)) = int (length hs)" using assms(2) by (simp add: wrap8_id)
  obtain b' j where e: "call k (hs ! i) (?c b (int i)) = Some (None, ?c b' j)"
    "j = int i \<and> wrap (hs ! i) (onion (drop (Suc i) hs)) b = onion (drop (Suc i) hs) b' \<or>
     int (length hs) \<le> j + 1 \<and> j \<le> 64 + int (length hs - Suc i) \<and>
     b' = wrap (hs ! i) (onion (drop (Suc i) hs)) b"
    using assms(1) [unfolded call_ok_def, rule_format, OF assms(2-4) k(2), of b] by blast
  have step: "next_loop n (?c b (int i)) = next_loop k (incr (?c b' j))"
    using assms(3) by (simp add: k(1) L e(1))
  from e(2) show "\<exists>j. next_loop n (?c b (int i)) = Some (None, ?c (onion (drop i hs) b) j) \<and>
      int (length hs) \<le> j \<and> j \<le> 64 + int (length hs - i)"
  proof
    assume a: "j = int i \<and> wrap (hs ! i) (onion (drop (Suc i) hs)) b = onion (drop (Suc i) hs) b'"
    then have "incr (?c b' j) = ?c b' (int (Suc i))" using assms(2,3) by (simp add: incr_def wrap8_id)
    moreover obtain j' where "next_loop k (?c b' (int (Suc i))) =
        Some (None, ?c (onion (drop (Suc i) hs) b') j')" "int (length hs) \<le> j'"
      "j' \<le> 64 + int (length hs - Suc i)"
      using loop_okD [OF assms(4) k1(1)] by blast
    ultimately show ?thesis unfolding step d using a by (intro exI [of _ j']) simp
  next
    assume a: "int (length hs) \<le> j + 1 \<and> j \<le> 64 + int (length hs - Suc i) \<and>
      b' = wrap (hs ! i) (onion (drop (Suc i) hs)) b"
    then have "incr (?c b' j) = ?c b' (j + 1)" using assms(2,3) by (simp add: incr_def wrap8_id)
    with a k1(2) assms(3) L show ?thesis unfolding step d by (cases k) auto
  qed
qed

lemma loop_ok_all:
  assumes "\<forall>m\<in>set hs. call_ok m" "length hs \<le> 63" "i \<le> length hs"
  shows "loop_ok hs i"
  using assms(3)
proof (induction rule: inc_induct)
  case base
  show ?case unfolding loop_ok_def
    using assms(2) by (auto simp: wrap8_id less_eq_Suc_le gr0_conv_Suc dest!: Suc_le_D)
next
  case (step i)
  with assms show ?case by (intro loop_ok_step [OF _ assms(2) step(2) step(3)]) simp
qed

lemma call_ok_Compose:
  assumes "\<forall>m\<in>set ms. call_ok m" "length ms \<le> 63"
  shows "call_ok (Compose ms)"
  unfolding call_ok_def
proof (intro allI impI)
  fix hs :: "'a Middleware list" and i b n
  assume n: "mw_fuel (Compose ms) + chain_fuel (drop (Suc i) hs) \<le> n"
  obtain k where k: "n = Suc (Suc k)" "chain_fuel ms \<le> k"
    using n that [of "n - 2"] by (simp add: mw_fuel_Compose)
  have l: "loop_ok ms 0" by (rule loop_ok_all [OF assms]) simp
  obtain j where "next_loop k \<lparr>payload = b, handlers = ms, index = int 0\<rparr> =
      Some (None, \<lparr>payload = onion (drop 0 ms) b, handlers = ms, index = j\<rparr>)"
    using loop_okD [OF l] k(2) by (metis drop_0)
  then show "\<exists>b' j. call n (Compose ms) \<lparr>payload = b, handlers = hs, index = int i\<rparr> =
        Some (None, \<lparr>payload = b', handlers = hs, index = j\<rparr>) \<and>
      (j = int i \<and> wrap (Compose ms) (onion (drop (Suc i) hs)) b = onion (drop (Suc i) hs) b' \<or>
       int (length hs) \<le> j + 1 \<and> j \<le> 64 + int (length hs - Suc i) \<and>
       b' = wrap (Compose ms) (onion (drop (Suc i) hs)) b)"
    by (simp add: k(1) incr_def wrap8_id)
qed

lemma mw_ok_call_ok: "mw_ok m \<Longrightarrow> call_ok m"
proof (induction m)
  case (Compose ms)
  then show ?case by (intro call_ok_Compose) (auto simp: mw_ok_Compose)
qed (auto simp: call_ok_Handler call_ok_Recovery call_ok_Conditional simp del: mw_ok.simps(1))

lemma chain_onion:
  assumes "length ms \<le> 62" "\<forall>m\<in>set (ms @ [req]). mw_ok m"
  shows "\<exists>j. chain_execute (chain_fuel (ms @ [req]) + 1) ms req b =
    Some (None, \<lparr>payload = onion (ms @ [req]) b, handlers = ms @ [req], index = j\<rparr>)"
proof -
  have l: "loop_ok (ms @ [req]) 0" using assms by (intro loop_ok_all) (auto simp: mw_ok_call_ok)
  obtain j where "next_loop (chain_fuel (ms @ [req])) \<lparr>payload = b, handlers = ms @ [req], index = int 0\<rparr> =
      Some (None, \<lparr>payload = onion (drop 0 (ms @ [req])) b, handlers = ms @ [req], index = j\<rparr>)"
    using loop_okD [OF l] by (metis drop_0 order_refl)
  then show ?thesis by (simp add: chain_execute_def incr_def wrap8_id)
qed

text \<open>
  C4. The chain is an onion: with at most 63 handlers (the request included) that do not panic, the
  index discipline of \<^verbatim>\<open>Next\<close> returns, without a panic of its own, and has computed exactly the
  nesting of the middlewares around the request; aborting ends the descent and the parts after
  \<^verbatim>\<open>Next\<close> run innermost first.
\<close>

theorem chain_is_onion:
  assumes "length ms \<le> 62" "\<forall>m\<in>set (ms @ [req]). mw_ok m"
  shows "\<exists>j. chain_execute (chain_fuel (ms @ [req]) + 1) ms req b =
    Some (None, \<lparr>payload = onion (ms @ [req]) b, handlers = ms @ [req], index = j\<rparr>)"
  using assms by (rule chain_onion)

section \<open>Where the chain is not an onion\<close>

text \<open>A middleware that only calls \<^verbatim>\<open>Next\<close>, and a request that only marks that it was sent.\<close>

definition pass_through :: "'b Middleware" where
  "pass_through = Handler (\<lambda>b. (b, CNext)) (\<lambda>b. (b, CReturn))"

definition sender :: "('b \<Rightarrow> 'b) \<Rightarrow> 'b Middleware" where
  "sender send = Handler (\<lambda>b. (send b, CReturn)) (\<lambda>b. (b, CReturn))"

theorem chain_is_onion_witness:
  "\<exists>j. chain_execute 11 [pass_through, pass_through] (sender Suc) 4 =
    Some (None, \<lparr>payload = 5, handlers = [pass_through, pass_through, sender Suc], index = j\<rparr>)"
  using chain_is_onion [of "[pass_through, pass_through]" "sender Suc" 4]
  by (simp add: pass_through_def sender_def)

text \<open>
  The recovery middleware does not end the chain: after a panic in a middleware the loop that
  called the recovery middleware goes on behind the middleware that panicked, so the request is
  still sent, without what that middleware was to do.
\<close>

theorem recovered_panic_still_sends:
  "\<exists>j. chain_execute 20 [Recovery onPanic, Handler (\<lambda>b. (b, CPanic p)) after] (sender send) b =
    Some (None, \<lparr>payload = send (onPanic p b),
      handlers = [Recovery onPanic, Handler (\<lambda>b. (b, CPanic p)) after, sender send], index = j\<rparr>)"
  by (simp add: chain_execute_def sender_def incr_def wrap8_def eval_nat_numeral)

text \<open>
  A composition forgets an abort: a composed middleware that aborts stops its siblings, but the
  composition restores the index it found, so the chain goes on and the request is sent.
\<close>

theorem compose_forgets_abort:
  "\<exists>j. chain_execute 20 [Compose [Handler (\<lambda>b. (f b, CAbort)) after, m]] (sender send) b =
    Some (None, \<lparr>payload = send (f b),
      handlers = [Compose [Handler (\<lambda>b. (f b, CAbort)) after, m], sender send], index = j\<rparr>)"
  by (simp add: chain_execute_def sender_def incr_def wrap8_def eval_nat_numeral Abort_def abortIndex_def)

text \<open>
  The index is an \<^verbatim>\<open>int8\<close> that every enclosing \<^verbatim>\<open>Next\<close> loop advances once more on the way out:
  64 middlewares that call \<^verbatim>\<open>Next\<close> around the request overflow it after the request has been
  sent, and the call ends in an index panic.
\<close>

theorem long_chain_panics:
  "map_option fst (chain_execute 300 (replicate 64 pass_through) (sender (\<lambda>b. b)) ()) =
   Some (Some ''index out of range'')"
  by code_simp

end
