(* ===== verification/Net_Http.thy ===== *)
theory Net_Http
  imports Http_Chain
begin

text \<open>
  \<^verbatim>\<open>net/http\<close>: the HTTP client built on the middleware engine: request and response data, the
  context operations, every built-in middleware, the request builder, the result parser and the
  two client adapters.  The wire libraries (fasthttp, resty), the JSON libraries and \<^verbatim>\<open>uuid\<close> are
  parameters; a tick is the oracle for what they answer.
\<close>

section \<open>Data\<close>

datatype 'v Body = BodyNil | BodyBytes string | BodyString string | BodyOther 'v

record 'v HRequest =
  Method :: string
  URL :: string
  Query :: "(string \<times> string list) list"
  ReqBody :: "'v Body"
  Headers :: "(string \<Rightarrow> string option) option"
  Timeout :: int

record ResponseStats =
  TotalTime :: int
  StartTime :: int
  EndTime :: int

record HResponse =
  StatusCode :: int
  Header :: "string \<Rightarrow> string list option"
  RespBody :: string
  StatsOf :: "ResponseStats option"

text \<open>Values middlewares pass each other, and values of log fields.\<close>

datatype anyval = AnyString string | AnyInt64 int | AnyDuration int | AnyLogConfig bool bool

datatype 'v logval =
    LogNil | LogStr string | LogInt int | LogBody "'v Body" | LogAny anyval
  | LogHeaders "(string \<Rightarrow> string option) option" | LogQuery "(string \<times> string list) list"
  | LogRespHeaders "string \<Rightarrow> string list option"

type_synonym 'v logmap = "string \<Rightarrow> 'v logval option"

datatype 'v log_event = LogDebug "'v logmap" | LogInfo "'v logmap" | LogError "'v logmap" | Notify "'v logmap"

text \<open>The data of a \<^verbatim>\<open>Context\<close>, with the oracle tick and the trace of what was logged.\<close>

record 'v hdata =
  hRequest :: "'v HRequest"
  hResponse :: "HResponse option"
  hError :: "goerr option"
  hErrors :: "goerr list"
  hvalues :: "string \<Rightarrow> anyval option"
  htick :: tick
  hsent :: "'v HRequest list"
  hlogs :: "'v log_event list"

text \<open>\<^verbatim>\<open>IClient\<close> and what else the middlewares call.\<close>

type_synonym 'v IClient = "'v HRequest \<Rightarrow> tick \<Rightarrow> HResponse option \<times> goerr option"

record 'v henv =
  client :: "'v IClient option"
  nowMs :: "tick \<Rightarrow> int"
  clockNs :: "tick \<Rightarrow> int"
  uuid :: "tick \<Rightarrow> string"
  requestID :: "string option"
  urlParse :: "string \<Rightarrow> goerr + string \<times> string"
  marshal :: "'v \<Rightarrow> string option"
  md5 :: "string \<Rightarrow> string"
  gjValid :: "string \<Rightarrow> bool"
  njValid :: "string \<Rightarrow> bool"
  gjGet :: "string \<Rightarrow> string \<Rightarrow> (int \<times> string) option"
  durString :: "int \<Rightarrow> string"
  logJson :: "'v logmap \<Rightarrow> string"

section \<open>Context operations\<close>

definition AddError :: "goerr option \<Rightarrow> 'v hdata \<Rightarrow> 'v hdata" where
  "AddError err c =
     (case err of
        None \<Rightarrow> c
      | Some e \<Rightarrow> c\<lparr>hErrors := hErrors c @ [e],
                     hError := (case hError c of None \<Rightarrow> Some e | Some e' \<Rightarrow> Some e')\<rparr>)"

definition SetVal :: "string \<Rightarrow> anyval \<Rightarrow> 'v hdata \<Rightarrow> 'v hdata" where
  "SetVal key value c = c\<lparr>hvalues := (hvalues c)(key \<mapsto> value)\<rparr>"

definition GetVal :: "string \<Rightarrow> 'v hdata \<Rightarrow> anyval option" where
  "GetVal key c = hvalues c key"

definition GetString :: "string \<Rightarrow> 'v hdata \<Rightarrow> string" where
  "GetString key c = (case GetVal key c of Some (AnyString s) \<Rightarrow> s | _ \<Rightarrow> [])"

definition GetInt64 :: "string \<Rightarrow> 'v hdata \<Rightarrow> int" where
  "GetInt64 key c = (case GetVal key c of Some (AnyInt64 i) \<Rightarrow> i | _ \<Rightarrow> 0)"

text \<open>\<^verbatim>\<open>resp, err := client.Do(ctx.Request); ctx.Response = resp; if err != nil \<dots>\<close>\<close>

definition send :: "'v IClient \<Rightarrow> 'v hdata \<Rightarrow> 'v hdata" where
  "send cl c =
     (case cl (hRequest c) (htick c) of (resp, err) \<Rightarrow>
        AddError err (c\<lparr>hResponse := resp, htick := htick c + 1,
                        hsent := hsent c @ [hRequest c]\<rparr>))"

definition RetryRequest :: "'v henv \<Rightarrow> 'v hdata \<Rightarrow> 'v hdata" where
  "RetryRequest env c =
     (case client env of
        None \<Rightarrow> AddError (Some (ErrNew ''HTTP client is nil, cannot retry'')) c
      | Some cl \<Rightarrow> send cl (c\<lparr>hError := None, hErrors := []\<rparr>))"

definition BuildLogMap :: "'v henv \<Rightarrow> 'v hdata \<Rightarrow> 'v logmap" where
  "BuildLogMap env c =
     (let r = hRequest c;
          m0 = [''Context ID'' \<mapsto> (case requestID env of None \<Rightarrow> LogNil | Some s \<Rightarrow> LogStr s)];
          m1 = m0(''Request URL'' \<mapsto> LogStr (URL r), ''Request Method'' \<mapsto> LogStr (Method r),
                  ''Request Headers'' \<mapsto> LogHeaders (Headers r), ''Request Query'' \<mapsto> LogQuery (Query r));
          m2 = (case ReqBody r of BodyNil \<Rightarrow> m1 | b \<Rightarrow> m1(''Request Body'' \<mapsto> LogBody b));
          m3 = (case hResponse c of
                  None \<Rightarrow> m2
                | Some p \<Rightarrow>
                    (let m = m2(''Response Status Code'' \<mapsto> LogInt (StatusCode p),
                                ''Response Headers'' \<mapsto> LogRespHeaders (Header p),
                                ''Response Body'' \<mapsto> LogStr (RespBody p))
                     in case StatsOf p of
                          None \<Rightarrow> m
                        | Some st \<Rightarrow> m(''Total Time'' \<mapsto> LogStr (durString env (TotalTime st)))));
          m4 = (case hError c of None \<Rightarrow> m3 | Some e \<Rightarrow> m3(''Request Error'' \<mapsto> LogStr (Error e)));
          m5 = (case GetVal ''request_duration'' c of None \<Rightarrow> m4 | Some v \<Rightarrow> m4(''Duration'' \<mapsto> LogAny v))
      in case GetVal ''trace_id'' c of None \<Rightarrow> m5 | Some v \<Rightarrow> m5(''Trace ID'' \<mapsto> LogAny v))"

section \<open>Middlewares\<close>

text \<open>The two common shapes: work before \<^verbatim>\<open>Next\<close> only, or after it only.\<close>

definition before_next :: "('v hdata \<Rightarrow> 'v hdata \<times> ctl) \<Rightarrow> 'v hdata Middleware" where
  "before_next f = Handler f (\<lambda>c. (c, CReturn))"

definition after_next :: "('v hdata \<Rightarrow> 'v hdata) \<Rightarrow> 'v hdata Middleware" where
  "after_next f = Handler (\<lambda>c. (c, CNext)) (\<lambda>c. (f c, CReturn))"

definition AbortWithError :: "goerr \<Rightarrow> 'v hdata \<Rightarrow> 'v hdata \<times> ctl" where
  "AbortWithError err c = (AddError (Some err) c, CAbort)"

definition doRequestMiddleware :: "'v henv \<Rightarrow> 'v hdata Middleware" where
  "doRequestMiddleware env =
     before_next (\<lambda>c. case client env of
        None \<Rightarrow> (AddError (Some (ErrNew ''HTTP client is nil'')) c, CReturn)
      | Some cl \<Rightarrow> (send cl c, CReturn))"

definition logConfigKey :: string where
  "logConfigKey = ''__log_config__''"

definition getLogConfig :: "'v hdata \<Rightarrow> (bool \<times> bool) option" where
  "getLogConfig c =
     (case GetVal logConfigKey c of Some (AnyLogConfig keep note) \<Rightarrow> Some (keep, note) | _ \<Rightarrow> None)"

definition write_log :: "'v log_event \<Rightarrow> 'v hdata \<Rightarrow> 'v hdata" where
  "write_log ev c = c\<lparr>hlogs := hlogs c @ [ev]\<rparr>"

definition RequestLogMiddleware :: "'v henv \<Rightarrow> 'v hdata Middleware" where
  "RequestLogMiddleware env =
     after_next (\<lambda>c. case getLogConfig c of
        None \<Rightarrow> c
      | Some (keepLog, sendErrorMsg) \<Rightarrow>
          if \<not> keepLog then c
          else (let logMap = BuildLogMap env c
                in if hError c \<noteq> None then
                     (let c1 = write_log (LogError logMap) c
                      in if sendErrorMsg then write_log (Notify logMap) c1 else c1)
                   else write_log (LogInfo logMap) c))"

definition RecoveryMiddleware :: "'v hdata Middleware" where
  "RecoveryMiddleware = Recovery (\<lambda>p. AddError (Some (ErrNew (''panic recovered: '' @ p))))"

text \<open>The start time travels from the first part to the second in a value of its own key.\<close>

definition TimingMiddleware :: "'v henv \<Rightarrow> string \<Rightarrow> 'v hdata Middleware" where
  "TimingMiddleware env slot =
     Handler (\<lambda>c. (SetVal slot (AnyDuration (clockNs env (htick c))) (c\<lparr>htick := htick c + 1\<rparr>), CNext))
       (\<lambda>c. let start = (case GetVal slot c of Some (AnyDuration t) \<Rightarrow> t | _ \<Rightarrow> 0);
                duration = clockNs env (htick c) - start;
                c1 = SetVal ''request_duration'' (AnyDuration duration) (c\<lparr>htick := htick c + 2\<rparr>);
                c2 = c1\<lparr>hResponse := map_option (\<lambda>r. r\<lparr>StatsOf := map_option (\<lambda>s. s\<lparr>TotalTime := duration,
                          EndTime := clockNs env (htick c + 1)\<rparr>) (StatsOf r)\<rparr>) (hResponse c1)\<rparr>
            in (c2, CReturn))"

definition local_int :: "string \<Rightarrow> 'v hdata \<Rightarrow> int" where
  "local_int slot c = (case GetVal slot c of Some (AnyDuration t) \<Rightarrow> t | _ \<Rightarrow> 0)"

definition LoggingMiddleware :: "'v henv \<Rightarrow> bool \<Rightarrow> string \<Rightarrow> 'v hdata Middleware" where
  "LoggingMiddleware env hasLogger slot =
     (let rid = (case requestID env of None \<Rightarrow> LogNil | Some s \<Rightarrow> LogStr s);
          common = (\<lambda>c phase. [''request_id'' \<mapsto> rid, ''method'' \<mapsto> LogStr (Method (hRequest c)),
                               ''url'' \<mapsto> LogStr (URL (hRequest c)), ''phase'' \<mapsto> LogStr phase])
      in Handler
           (\<lambda>c. let c1 = SetVal slot (AnyDuration (clockNs env (htick c))) (c\<lparr>htick := htick c + 1\<rparr>)
                in (if hasLogger then write_log (LogDebug (common c ''request_start'')) c1 else c1, CNext))
           (\<lambda>c. let duration = clockNs env (htick c) - local_int slot c;
                    c1 = c\<lparr>htick := htick c + 1\<rparr>;
                    f0 = (common c ''request_complete'')(''duration'' \<mapsto> LogStr (durString env duration));
                    f1 = (case hResponse c of
                            None \<Rightarrow> f0
                          | Some r \<Rightarrow> f0(''status_code'' \<mapsto> LogInt (StatusCode r),
                                        ''response_size'' \<mapsto> LogInt (int (length (RespBody r)))))
                in (case hError c of
                      Some e \<Rightarrow> (let f2 = f1(''error'' \<mapsto> LogStr (Error e))
                                 in if hasLogger then write_log (LogError f2) c1 else c1)
                    | None \<Rightarrow> if hasLogger then write_log (LogInfo f1) c1 else c1, CReturn)))"

definition set_header :: "string \<Rightarrow> string \<Rightarrow> 'v hdata \<Rightarrow> 'v hdata" where
  "set_header k v c =
     c\<lparr>hRequest := (hRequest c)\<lparr>Headers :=
        Some ((case Headers (hRequest c) of None \<Rightarrow> Map.empty | Some m \<Rightarrow> m)(k \<mapsto> v))\<rparr>\<rparr>"

definition TracingMiddleware :: "'v henv \<Rightarrow> string \<Rightarrow> 'v hdata Middleware" where
  "TracingMiddleware env slot =
     Handler
       (\<lambda>c. let (rid, c1) = (case requestID env of
                   Some s \<Rightarrow> (s, c)
                 | None \<Rightarrow> (uuid env (htick c), c\<lparr>htick := htick c + 1\<rparr>))
            in (SetVal slot (AnyString rid) (set_header ''X-Request-ID'' rid c1), CNext))
       (\<lambda>c. (SetVal ''trace_id'' (AnyString (GetString slot c)) c, CReturn))"

text \<open>
  The retry loop: a transport error or a 5xx answer is retried, but nothing that came with a 4xx.
  \<^verbatim>\<open>time.Sleep\<close> shows in the clock only.
\<close>

definition needRetry :: "'v hdata \<Rightarrow> bool" where
  "needRetry c \<longleftrightarrow>
     (hError c \<noteq> None \<or> (case hResponse c of None \<Rightarrow> False | Some r \<Rightarrow> StatusCode r \<ge> 500)) \<and>
     \<not> (case hResponse c of None \<Rightarrow> False | Some r \<Rightarrow> 400 \<le> StatusCode r \<and> StatusCode r < 500)"

fun retry_loop :: "'v henv \<Rightarrow> nat \<Rightarrow> 'v hdata \<Rightarrow> 'v hdata" where
  "retry_loop env 0 c = c"
| "retry_loop env (Suc k) c = (if needRetry c then retry_loop env k (RetryRequest env c) else c)"

definition RetryMiddleware :: "'v henv \<Rightarrow> int \<Rightarrow> 'v hdata Middleware" where
  "RetryMiddleware env maxRetries = after_next (retry_loop env (nat maxRetries))"

definition calculateSignature :: "'v henv \<Rightarrow> string \<Rightarrow> string \<Rightarrow> string \<Rightarrow> int \<Rightarrow> string" where
  "calculateSignature env secret signType nonce signTime =
     md5 env (FormatInt signTime @ secret @ signType @ nonce)"

definition auth_headers :: "'v henv \<Rightarrow> string \<Rightarrow> string \<Rightarrow> string \<Rightarrow> int \<Rightarrow> string \<Rightarrow> 'v hdata \<Rightarrow> 'v hdata" where
  "auth_headers env appID secret signType timestamp nonce c =
     set_header ''X-Nonce'' nonce
      (set_header ''X-SignTimestamp'' (FormatInt timestamp)
        (set_header ''X-Sign'' (calculateSignature env secret signType nonce timestamp)
          (set_header ''X-SignType'' signType (set_header ''X-Appid'' appID c))))"

definition AuthMiddleware :: "'v henv \<Rightarrow> string \<Rightarrow> string \<Rightarrow> string \<Rightarrow> 'v hdata Middleware" where
  "AuthMiddleware env appID secret signType =
     before_next (\<lambda>c. (auth_headers env appID secret signType (nowMs env (htick c))
        (uuid env (htick c + 1)) (c\<lparr>htick := htick c + 2\<rparr>), CNext))"

definition URLValidationMiddleware :: "'v henv \<Rightarrow> 'v hdata Middleware" where
  "URLValidationMiddleware env =
     before_next (\<lambda>c.
       if URL (hRequest c) = [] then AbortWithError (ErrNew ''URL cannot be empty'') c
       else case urlParse env (URL (hRequest c)) of
         Inl err \<Rightarrow> AbortWithError (ErrWrapf ''invalid URL format: '' err) c
       | Inr (scheme, host) \<Rightarrow>
           if scheme = [] then
             AbortWithError (ErrNew ''URL must have a scheme (http:// or https://)'') c
           else if host = [] then AbortWithError (ErrNew ''URL must have a host'') c
           else (c, CNext))"

definition bodySize :: "'v henv \<Rightarrow> 'v Body \<Rightarrow> int" where
  "bodySize env b =
     (case b of
        BodyNil \<Rightarrow> 0
      | BodyBytes s \<Rightarrow> int (length s)
      | BodyString s \<Rightarrow> int (length s)
      | BodyOther v \<Rightarrow> (case marshal env v of None \<Rightarrow> 0 | Some s \<Rightarrow> int (length s)))"

definition RequestSizeLimitMiddleware :: "'v henv \<Rightarrow> int \<Rightarrow> 'v hdata Middleware" where
  "RequestSizeLimitMiddleware env maxSize =
     before_next (\<lambda>c. case ReqBody (hRequest c) of
        BodyNil \<Rightarrow> (c, CNext)
      | b \<Rightarrow> if bodySize env b > maxSize then
               AbortWithError (ErrNew (''request body size '' @ FormatInt (bodySize env b) @
                 '' exceeds limit '' @ FormatInt maxSize)) c
             else (c, CNext))"

text \<open>The headers to add, in the order the map iteration yields them.\<close>

definition HeaderMiddleware :: "(string \<times> string) list \<Rightarrow> 'v hdata Middleware" where
  "HeaderMiddleware hs =
     before_next (\<lambda>c.
       let c1 = c\<lparr>hRequest := (hRequest c)\<lparr>Headers := Some (case Headers (hRequest c) of
                    None \<Rightarrow> Map.empty | Some m \<Rightarrow> m)\<rparr>\<rparr>
       in (foldl (\<lambda>c (k, v). set_header k v c) c1 hs, CNext))"

definition TimeoutMiddleware :: "int \<Rightarrow> 'v hdata Middleware" where
  "TimeoutMiddleware timeout =
     before_next (\<lambda>c. (c\<lparr>hRequest := (hRequest c)\<lparr>Timeout := timeout\<rparr>\<rparr>, CNext))"

definition StatusCodeCheckMiddleware :: "int list \<Rightarrow> 'v hdata Middleware" where
  "StatusCodeCheckMiddleware expectedCodes =
     after_next (\<lambda>c. case hResponse c of
        None \<Rightarrow> c
      | Some r \<Rightarrow>
          if expectedCodes = [] then
            if StatusCode r < 200 \<or> StatusCode r \<ge> 300 then
              AddError (Some (ErrNew (''unexpected status code: '' @ FormatInt (StatusCode r)))) c
            else c
          else if StatusCode r \<in> set expectedCodes then c
          else AddError (Some (ErrNew (''unexpected status code: '' @ FormatInt (StatusCode r) @
            '', expected: ['' @ Join (map FormatInt expectedCodes) '' '' @ '']''))) c)"

definition CodeCheckMiddleware :: "'v henv \<Rightarrow> int \<Rightarrow> string list \<Rightarrow> 'v hdata Middleware" where
  "CodeCheckMiddleware env expectedCode codeField =
     after_next (\<lambda>c. case hResponse c of
        None \<Rightarrow> c
      | Some r \<Rightarrow>
          if RespBody r = [] then c
          else (let field = (case codeField of [] \<Rightarrow> ''code'' | f # _ \<Rightarrow> f);
                    bad = (\<lambda>got. AddError (Some (ErrNew (''business code error, expect: '' @
                      FormatInt expectedCode @ '', got: '' @ got))) c)
                in case gjGet env (RespBody r) field of
                     None \<Rightarrow> bad ''<nil>''
                   | Some (i, shown) \<Rightarrow> if i \<noteq> expectedCode then bad shown else c))"

definition JSONValidationMiddleware :: "'v henv \<Rightarrow> 'v hdata Middleware" where
  "JSONValidationMiddleware env =
     after_next (\<lambda>c. case hResponse c of
        None \<Rightarrow> c
      | Some r \<Rightarrow>
          if RespBody r \<noteq> [] \<and> \<not> gjValid env (RespBody r) then
            AddError (Some (ErrNew ''response is not valid JSON'')) c
          else c)"

definition ResponseSizeCheckMiddleware :: "int \<Rightarrow> 'v hdata Middleware" where
  "ResponseSizeCheckMiddleware maxSize =
     after_next (\<lambda>c. case hResponse c of
        None \<Rightarrow> c
      | Some r \<Rightarrow>
          if int (length (RespBody r)) > maxSize then
            AddError (Some (ErrNew (''response body size '' @ FormatInt (int (length (RespBody r))) @
              '' exceeds limit '' @ FormatInt maxSize))) c
          else c)"

section \<open>Builder and result\<close>

record 'v RequestBuilder =
  rb_client :: "'v IClient option"
  rb_chain :: "'v hdata Middleware list"
  rb_keepLog :: bool
  rb_sendErrorMsg :: bool
  rb_timeout :: int

definition NewRequestBuilder :: "'v IClient option \<Rightarrow> 'v RequestBuilder" where
  "NewRequestBuilder cl =
     \<lparr>rb_client = cl, rb_chain = [], rb_keepLog = True, rb_sendErrorMsg = True, rb_timeout = 0\<rparr>"

definition Use :: "'v hdata Middleware list \<Rightarrow> 'v RequestBuilder \<Rightarrow> 'v RequestBuilder" where
  "Use ms rb = rb\<lparr>rb_chain := rb_chain rb @ ms\<rparr>"

definition NoSendErrorMsg :: "'v RequestBuilder \<Rightarrow> 'v RequestBuilder" where
  "NoSendErrorMsg rb = rb\<lparr>rb_sendErrorMsg := False\<rparr>"

definition NoKeepLog :: "'v RequestBuilder \<Rightarrow> 'v RequestBuilder" where
  "NoKeepLog rb = rb\<lparr>rb_keepLog := False\<rparr>"

definition SetTimeout :: "int \<Rightarrow> 'v RequestBuilder \<Rightarrow> 'v RequestBuilder" where
  "SetTimeout t rb = rb\<lparr>rb_timeout := t\<rparr>"

definition validHTTPMethods :: "string list" where
  "validHTTPMethods = [''GET'', ''POST'', ''PUT'', ''DELETE'', ''PATCH'', ''HEAD'', ''OPTIONS'']"

definition isValidHTTPMethod :: "string \<Rightarrow> bool" where
  "isValidHTTPMethod method \<longleftrightarrow> method \<in> set validHTTPMethods"

text \<open>
  \<^verbatim>\<open>Execute\<close>: the panic that escapes, if any, and the data of the result's context.  The fuel is
  enough for every chain that does not panic (see \<open>chain_is_onion\<close>).
\<close>

definition Execute ::
    "'v henv \<Rightarrow> 'v RequestBuilder \<Rightarrow> tick \<Rightarrow> string \<Rightarrow> string \<Rightarrow> (string \<times> string list) list
     \<Rightarrow> 'v Body \<Rightarrow> (string \<Rightarrow> string option) option \<Rightarrow> (string option \<times> 'v hdata) option" where
  "Execute env rb tick0 method url query body headers =
     (let req = \<lparr>Method = method, URL = url, Query = query, ReqBody = body, Headers = headers,
                 Timeout = rb_timeout rb\<rparr>;
          c0 = \<lparr>hRequest = req, hResponse = None, hError = None, hErrors = [], hvalues = Map.empty,
                htick = tick0, hsent = [], hlogs = []\<rparr>;
          c = SetVal logConfigKey (AnyLogConfig (rb_keepLog rb) (rb_sendErrorMsg rb)) c0
      in if url = [] then Some (None, c\<lparr>hError := Some (ErrNew ''URL cannot be empty'')\<rparr>)
         else if \<not> isValidHTTPMethod method then
           Some (None, c\<lparr>hError := Some (ErrNew (''invalid HTTP method: '' @ method))\<rparr>)
         else
           (let env' = env\<lparr>client := rb_client rb\<rparr>;
                chain = RequestLogMiddleware env' # rb_chain rb;
                final = doRequestMiddleware env'
            in map_option (\<lambda>(p, k). (p, payload k))
                 (chain_execute (chain_fuel (chain @ [final]) + 1) chain final c)))"

definition HasError :: "'v hdata \<Rightarrow> bool" where
  "HasError c \<longleftrightarrow> hError c \<noteq> None"

definition parseJSON :: "'v henv \<Rightarrow> (string \<Rightarrow> string \<Rightarrow> string option) \<Rightarrow> 'v hdata \<Rightarrow> string \<Rightarrow> goerr + string" where
  "parseJSON env gjPath c path =
     (case hError c of
        Some e \<Rightarrow> Inl e
      | None \<Rightarrow>
          (case hResponse c of
             None \<Rightarrow> Inl (ErrNew ''response is nil'')
           | Some r \<Rightarrow>
               if StatusCode r < 200 \<or> StatusCode r \<ge> 300 then
                 Inl (ErrNew (''response status code error: '' @ logJson env (BuildLogMap env c)))
               else if \<not> njValid env (RespBody r) then
                 Inl (ErrNew (''response is not json: '' @ logJson env (BuildLogMap env c)))
               else if path = [] then Inr (RespBody r)
               else (case gjPath (RespBody r) path of
                       None \<Rightarrow> Inl (ErrNew (''path not found: '' @ path @ '' , response: '' @
                         logJson env (BuildLogMap env c)))
                     | Some v \<Rightarrow> Inr v)))"

section \<open>Client adapters\<close>

text \<open>
  \<^verbatim>\<open>client_fasthttp.go\<close>.  What the adapter tells the fasthttp request, as the calls it makes; the
  library's answer, and whether the context ended first, come from the oracle.
\<close>

datatype fast_call =
    SetMethod string | SetRequestURI string | QueryArgsAdd string string | HeaderSet string string
  | SetContentType string | SetBody string | SetReqTimeout int

record fastResponse =
  fr_StatusCode :: int
  fr_Body :: string
  fr_Header :: "(string \<times> string) list"

record fasthttp_lib =
  fh_Do :: "fast_call list \<Rightarrow> tick \<Rightarrow> goerr option \<times> fastResponse"
  fh_ctxDone :: "tick \<Rightarrow> goerr option"
  fh_now :: "tick \<Rightarrow> int"
  fh_order :: "(string \<Rightarrow> string option) \<Rightarrow> (string \<times> string) list"

definition setupRequest :: "'v henv \<Rightarrow> fasthttp_lib \<Rightarrow> 'v HRequest \<Rightarrow> fast_call list" where
  "setupRequest env fh req =
     [SetMethod (Method req), SetRequestURI (URL req)] @
     concat (map (\<lambda>(key, values). map (QueryArgsAdd key) values) (Query req)) @
     (case Headers req of None \<Rightarrow> [] | Some m \<Rightarrow> map (\<lambda>(k, v). HeaderSet k v) (fh_order fh m)) @
     (case ReqBody req of
        BodyNil \<Rightarrow> []
      | BodyBytes s \<Rightarrow> [SetBody s]
      | BodyString s \<Rightarrow> [SetBody s]
      | BodyOther v \<Rightarrow> SetContentType ''application/json'' #
          (case marshal env v of None \<Rightarrow> [] | Some s \<Rightarrow> [SetBody s])) @
     (if Timeout req > 0 then [SetReqTimeout (Timeout req)] else [])"

definition buildResponse :: "int \<Rightarrow> int \<Rightarrow> fastResponse \<Rightarrow> goerr option \<Rightarrow> HResponse" where
  "buildResponse startTime endTime fastResp err =
     (let stats = \<lparr>TotalTime = endTime - startTime, StartTime = startTime, EndTime = endTime\<rparr>
      in if err = None then
           \<lparr>StatusCode = fr_StatusCode fastResp,
            Header = foldl (\<lambda>m (k, v). m(k \<mapsto> [v])) Map.empty (fr_Header fastResp),
            RespBody = fr_Body fastResp, StatsOf = Some stats\<rparr>
         else \<lparr>StatusCode = 0, Header = Map.empty, RespBody = [], StatsOf = Some stats\<rparr>)"

definition FastHTTPClient_Do :: "'v henv \<Rightarrow> fasthttp_lib \<Rightarrow> 'v IClient" where
  "FastHTTPClient_Do env fh req i =
     (if URL req = [] then (None, Some (ErrNew ''URL cannot be empty''))
      else (let start = fh_now fh i; endT = fh_now fh (i + 1)
            in case fh_ctxDone fh i of
                 Some e \<Rightarrow> (Some \<lparr>StatusCode = 0, Header = Map.empty, RespBody = [],
                    StatsOf = Some \<lparr>TotalTime = endT - start, StartTime = start, EndTime = endT\<rparr>\<rparr>, Some e)
               | None \<Rightarrow>
                   (case fh_Do fh (setupRequest env fh req) i of (err, fastResp) \<Rightarrow>
                      (Some (buildResponse start endT fastResp err), err))))"

text \<open>\<^verbatim>\<open>client_resty.go\<close>\<close>

record 'v resty_lib =
  rs_Execute :: "'v HRequest \<Rightarrow> tick \<Rightarrow> (int \<times> (string \<Rightarrow> string list option) \<times> string) option \<times> goerr option"
  rs_now :: "tick \<Rightarrow> int"

definition RestyClient_Do :: "'v resty_lib \<Rightarrow> 'v IClient" where
  "RestyClient_Do rs req i =
     (if URL req = [] then (None, Some (ErrNew ''URL cannot be empty''))
      else (let start = rs_now rs i; endT = rs_now rs (i + 1);
                stats = \<lparr>TotalTime = endT - start, StartTime = start, EndTime = endT\<rparr>;
                (restyResp, err) = rs_Execute rs req i
            in (Some (case restyResp of
                  None \<Rightarrow> \<lparr>StatusCode = 0, Header = Map.empty, RespBody = [], StatsOf = Some stats\<rparr>
                | Some (code, hdr, body) \<Rightarrow>
                    \<lparr>StatusCode = code, Header = hdr, RespBody = body, StatsOf = Some stats\<rparr>), err)))"

section \<open>The client contract\<close>

text \<open>What callers of \<^verbatim>\<open>IClient.Do\<close> rely on: no response without an error.\<close>

locale http_client =
  fixes Do :: "'v IClient"
  assumes answer_or_error: "Do req i = (None, err) \<Longrightarrow> err \<noteq> None"
begin

lemma send_answers:
  "hError (send Do c) = None \<Longrightarrow> hResponse (send Do c) \<noteq> None"
proof -
  obtain r e where "Do (hRequest c) (htick c) = (r, e)" by (cases "Do (hRequest c) (htick c)")
  with answer_or_error [of "hRequest c" "htick c" e]
  show "hError (send Do c) = None \<Longrightarrow> hResponse (send Do c) \<noteq> None"
    by (cases r) (auto simp: send_def AddError_def split: option.splits)
qed

lemma retry_answers:
  assumes "client env = Some Do" "hError c = None \<longrightarrow> hResponse c \<noteq> None"
  shows "hError (retry_loop env k c) = None \<longrightarrow> hResponse (retry_loop env k c) \<noteq> None"
  using assms(2)
proof (induction k arbitrary: c)
  case (Suc k)
  have "hError (RetryRequest env c) = None \<longrightarrow> hResponse (RetryRequest env c) \<noteq> None"
    using send_answers by (simp add: RetryRequest_def assms(1))
  with Suc show ?case by simp
qed simp

end

interpretation fasthttp: http_client "FastHTTPClient_Do env fh" for env :: "'v henv" and fh
  by unfold_locales (auto simp: FastHTTPClient_Do_def Let_def split: if_splits option.splits prod.splits)

interpretation resty: http_client "RestyClient_Do rs" for rs :: "'v resty_lib"
  by unfold_locales (auto simp: RestyClient_Do_def Let_def split: if_splits option.splits prod.splits)

section \<open>Running a request\<close>

definition startData :: "bool \<Rightarrow> bool \<Rightarrow> tick \<Rightarrow> 'v HRequest \<Rightarrow> 'v hdata" where
  "startData keep note i req =
     SetVal logConfigKey (AnyLogConfig keep note)
       \<lparr>hRequest = req, hResponse = None, hError = None, hErrors = [], hvalues = Map.empty,
        htick = i, hsent = [], hlogs = []\<rparr>"

lemma mw_ok_builtin [simp]:
  "mw_ok (after_next f)" "mw_ok (RequestLogMiddleware env)" "mw_ok (doRequestMiddleware env)"
  "mw_ok (RetryMiddleware env k)"
  by (auto simp: after_next_def RequestLogMiddleware_def doRequestMiddleware_def RetryMiddleware_def
      before_next_def split: option.split)

lemma Execute_runs:
  assumes "url \<noteq> []" "isValidHTTPMethod method" "length (rb_chain rb) \<le> 61"
    and "\<forall>m\<in>set (rb_chain rb). mw_ok m"
  shows "Execute env rb i method url q body hs =
    Some (None, onion (RequestLogMiddleware (env\<lparr>client := rb_client rb\<rparr>) # rb_chain rb @
        [doRequestMiddleware (env\<lparr>client := rb_client rb\<rparr>)])
      (startData (rb_keepLog rb) (rb_sendErrorMsg rb) i
        \<lparr>Method = method, URL = url, Query = q, ReqBody = body, Headers = hs, Timeout = rb_timeout rb\<rparr>))"
proof -
  let ?e = "env\<lparr>client := rb_client rb\<rparr>"
  have "length (RequestLogMiddleware ?e # rb_chain rb) \<le> 62"
    "\<forall>m\<in>set ((RequestLogMiddleware ?e # rb_chain rb) @ [doRequestMiddleware ?e]). mw_ok m"
    using assms(3,4) by auto
  from chain_onion [OF this] show ?thesis
    unfolding Execute_def Let_def startData_def using assms(1,2) by fastforce
qed

text \<open>The retry loop, unrolled: it repeats the request exactly while a retry is wanted and allowed.\<close>

lemma retry_loop_iter:
  "\<exists>j\<le>k. retry_loop env k c = (RetryRequest env ^^ j) c \<and>
     (\<forall>i<j. needRetry ((RetryRequest env ^^ i) c)) \<and>
     (j = k \<or> \<not> needRetry ((RetryRequest env ^^ j) c))"
proof (induction k arbitrary: c)
  case (Suc k)
  show ?case
  proof (cases "needRetry c")
    case True
    from Suc obtain j where j: "j \<le> k"
      "retry_loop env k (RetryRequest env c) = (RetryRequest env ^^ j) (RetryRequest env c)"
      "\<forall>i<j. needRetry ((RetryRequest env ^^ i) (RetryRequest env c))"
      "j = k \<or> \<not> needRetry ((RetryRequest env ^^ j) (RetryRequest env c))" by blast
    have "\<forall>i<Suc j. needRetry ((RetryRequest env ^^ i) c)"
      using j(3) True by (auto simp: less_Suc_eq_0_disj funpow_Suc_right simp del: funpow.simps)
    with j True show ?thesis
      by (intro exI [of _ "Suc j"]) (auto simp: funpow_Suc_right simp del: funpow.simps)
  next
    case False
    then show ?thesis by (intro exI [of _ 0]) simp
  qed
qed simp

lemma RetryRequest_send:
  assumes "client env = Some cl"
  shows "hRequest (RetryRequest env c) = hRequest c" "htick (RetryRequest env c) = htick c + 1"
    "hsent (RetryRequest env c) = hsent c @ [hRequest c]"
    "(hResponse (RetryRequest env c), hError (RetryRequest env c)) = cl (hRequest c) (htick c)"
    "hvalues (RetryRequest env c) = hvalues c" "hlogs (RetryRequest env c) = hlogs c"
  using assms by (auto simp: RetryRequest_def send_def AddError_def split: prod.split option.split)

lemma RetryRequest_iter:
  assumes "client env = Some cl"
  shows "hRequest ((RetryRequest env ^^ j) c) = hRequest c \<and> htick ((RetryRequest env ^^ j) c) = htick c + j \<and>
    hsent ((RetryRequest env ^^ j) c) = hsent c @ replicate j (hRequest c) \<and>
    hvalues ((RetryRequest env ^^ j) c) = hvalues c \<and> hlogs ((RetryRequest env ^^ j) c) = hlogs c \<and>
    (0 < j \<longrightarrow> (hResponse ((RetryRequest env ^^ j) c), hError ((RetryRequest env ^^ j) c)) =
       cl (hRequest c) (htick c + j - 1))"
proof (induction j)
  case (Suc j)
  then show ?case
    using RetryRequest_send [OF assms, of "(RetryRequest env ^^ j) c"]
    by (simp add: replicate_append_same flip: replicate_Suc)
qed simp

text \<open>What one answer of the client asks for.\<close>

definition retryable_answer :: "HResponse option \<times> goerr option \<Rightarrow> bool" where
  "retryable_answer a \<longleftrightarrow>
     (snd a \<noteq> None \<or> (case fst a of None \<Rightarrow> False | Some r \<Rightarrow> StatusCode r \<ge> 500)) \<and>
     \<not> (case fst a of None \<Rightarrow> False | Some r \<Rightarrow> 400 \<le> StatusCode r \<and> StatusCode r < 500)"

lemma needRetry_answer: "needRetry c = retryable_answer (hResponse c, hError c)"
  by (simp add: needRetry_def retryable_answer_def)

text \<open>The log lines of a finished request, by the flags of the builder.\<close>

definition request_log :: "'v henv \<Rightarrow> bool \<Rightarrow> bool \<Rightarrow> 'v hdata \<Rightarrow> 'v log_event list" where
  "request_log env keep note c =
     (if \<not> keep then []
      else if hError c = None then [LogInfo (BuildLogMap env c)]
      else LogError (BuildLogMap env c) # (if note then [Notify (BuildLogMap env c)] else []))"

lemma wrap_RequestLog:
  assumes "getLogConfig (rest c) = Some (keep, note)" "hlogs (rest c) = []"
  shows "wrap (RequestLogMiddleware env) rest c = (rest c)\<lparr>hlogs := request_log env keep note (rest c)\<rparr>"
  using assms
  by (auto simp: RequestLogMiddleware_def after_next_def request_log_def write_log_def Let_def)

lemma startData_fields [simp]:
  "hRequest (startData keep note i req) = req" "htick (startData keep note i req) = i"
  "hsent (startData keep note i req) = []" "hError (startData keep note i req) = None"
  "hlogs (startData keep note i req) = []"
  "getLogConfig (c\<lparr>hvalues := hvalues (startData keep note i req)\<rparr>) = Some (keep, note)"
  by (simp_all add: startData_def SetVal_def getLogConfig_def GetVal_def)

lemma getLogConfig_values: "hvalues c = hvalues d \<Longrightarrow> getLogConfig c = getLogConfig d"
  by (simp add: getLogConfig_def GetVal_def)

lemma startData_log: "hvalues c = hvalues (startData keep note i req) \<Longrightarrow> getLogConfig c = Some (keep, note)"
  by (simp add: startData_def SetVal_def getLogConfig_def GetVal_def)

lemma send_first:
  assumes "hError c = None"
  shows "hRequest (send cl c) = hRequest c" "htick (send cl c) = htick c + 1"
    "hsent (send cl c) = hsent c @ [hRequest c]" "hvalues (send cl c) = hvalues c"
    "hlogs (send cl c) = hlogs c"
    "(hResponse (send cl c), hError (send cl c)) = cl (hRequest c) (htick c)"
  using assms by (auto simp: send_def AddError_def split: prod.split option.split)

lemma onion_retry:
  assumes "client env = Some cl"
  shows "onion [RetryMiddleware env k, doRequestMiddleware env] c = retry_loop env (nat k) (send cl c)"
  using assms by (simp add: RetryMiddleware_def after_next_def doRequestMiddleware_def before_next_def)

text \<open>
  C37. A request with the retry middleware, from end to end: the same request is sent again while the
  answer is an error or a 5xx (never after a 4xx) and at most \<^verbatim>\<open>maxRetries\<close> more times; the result
  holds the response and the error of the last attempt, and exactly one log entry, with an error
  notification only if the attempt failed and both logging and notification are on.
\<close>

theorem Execute_with_retry:
  assumes "url \<noteq> []" "isValidHTTPMethod method" "rb_client rb = Some cl"
    and "rb_chain rb = [RetryMiddleware (env\<lparr>client := Some cl\<rparr>) maxRetries]"
    and "req = \<lparr>Method = method, URL = url, Query = q, ReqBody = body, Headers = hs, Timeout = rb_timeout rb\<rparr>"
  shows "\<exists>j c. Execute env rb i method url q body hs = Some (None, c) \<and> j \<le> nat maxRetries \<and>
    hsent c = replicate (Suc j) req \<and> (hResponse c, hError c) = cl req (i + j) \<and>
    (\<forall>k<j. retryable_answer (cl req (i + k))) \<and>
    (j = nat maxRetries \<or> \<not> retryable_answer (cl req (i + j))) \<and>
    hlogs c = request_log (env\<lparr>client := Some cl\<rparr>) (rb_keepLog rb) (rb_sendErrorMsg rb) (c\<lparr>hlogs := []\<rparr>)"
proof -
  let ?e = "env\<lparr>client := Some cl\<rparr>"
  define c0 where "c0 = startData (rb_keepLog rb) (rb_sendErrorMsg rb) i req"
  define c1 where "c1 = send cl c0"
  have c1: "hRequest c1 = req" "htick c1 = i + 1" "hsent c1 = [req]" "hlogs c1 = []"
    "(hResponse c1, hError c1) = cl req i" "hvalues c1 = hvalues c0"
    using send_first [of c0 cl] by (simp_all add: c1_def c0_def)
  obtain j where j: "j \<le> nat maxRetries" "retry_loop ?e (nat maxRetries) c1 = (RetryRequest ?e ^^ j) c1"
    "\<forall>k<j. needRetry ((RetryRequest ?e ^^ k) c1)"
    "j = nat maxRetries \<or> \<not> needRetry ((RetryRequest ?e ^^ j) c1)"
    using retry_loop_iter [of "nat maxRetries" ?e c1] by blast
  have it: "hRequest ((RetryRequest ?e ^^ k) c1) = req" "hsent ((RetryRequest ?e ^^ k) c1) = replicate (Suc k) req"
    "hvalues ((RetryRequest ?e ^^ k) c1) = hvalues c0" "hlogs ((RetryRequest ?e ^^ k) c1) = []"
    "(hResponse ((RetryRequest ?e ^^ k) c1), hError ((RetryRequest ?e ^^ k) c1)) = cl req (i + k)" for k
    using RetryRequest_iter [of ?e cl k c1] c1 by (cases k; simp)+
  let ?r = "(RetryRequest ?e ^^ j) c1"
  have log: "getLogConfig ?r = Some (rb_keepLog rb, rb_sendErrorMsg rb)"
    using it(3) [of j] by (simp add: startData_log c0_def)
  have rest: "onion [RetryMiddleware ?e maxRetries, doRequestMiddleware ?e] c0 = ?r"
    using j(2) unfolding c1_def by (simp add: onion_retry [of ?e cl] del: onion.simps)
  have "Execute env rb i method url q body hs =
      Some (None, ?r\<lparr>hlogs := request_log ?e (rb_keepLog rb) (rb_sendErrorMsg rb) ?r\<rparr>)"
    using Execute_runs [OF assms(1,2), of rb env i q body hs] assms(3-5) it(4) [of j] log rest
      wrap_RequestLog [of "onion [RetryMiddleware ?e maxRetries, doRequestMiddleware ?e]" c0]
    by (simp add: c0_def)
  moreover have "?r\<lparr>hlogs := []\<rparr> = ?r" using it(4) [of j] by simp
  ultimately show ?thesis
    using j(1,3,4) it(2,5)
    by (intro exI [of _ j] exI [of _ "?r\<lparr>hlogs := request_log ?e (rb_keepLog rb) (rb_sendErrorMsg rb) ?r\<rparr>"])
      (simp add: needRetry_answer)
qed

text \<open>A client that fails twice and then answers, for the witnesses.\<close>

definition demo_henv :: "unit henv" where
  "demo_henv = \<lparr>client = None, nowMs = int, clockNs = int, uuid = (\<lambda>_. ''u''), requestID = None,
     urlParse = (\<lambda>_. Inr (''http'', ''h'')), marshal = (\<lambda>_. None), md5 = (\<lambda>s. s),
     gjValid = (\<lambda>_. True), njValid = (\<lambda>_. True), gjGet = (\<lambda>_ _. None), durString = (\<lambda>_. []),
     logJson = (\<lambda>_. [])\<rparr>"

definition demo_client :: "unit IClient" where
  "demo_client req i = (Some \<lparr>StatusCode = (if i < 2 then 503 else 200), Header = Map.empty,
     RespBody = ''ok'', StatsOf = None\<rparr>, None)"

definition demo_builder :: "unit RequestBuilder" where
  "demo_builder = Use [RetryMiddleware (demo_henv\<lparr>client := Some demo_client\<rparr>) 5]
     (NewRequestBuilder (Some demo_client))"

theorem Execute_with_retry_witness:
  "\<exists>c. Execute demo_henv demo_builder 0 ''GET'' ''http://h'' [] BodyNil None = Some (None, c) \<and>
     length (hsent c) \<le> 6"
proof -
  have m: "isValidHTTPMethod ''GET''" by (simp add: isValidHTTPMethod_def validHTTPMethods_def)
  from Execute_with_retry [OF _ m _ _ refl, of "''http://h''" demo_builder demo_client demo_henv 5 0 "[]" BodyNil None]
  show ?thesis by (fastforce simp: demo_builder_def Use_def NewRequestBuilder_def)
qed

text \<open>
  Validation: an empty URL or a method outside the seven known ones is refused before the chain
  runs; no request is sent and nothing is logged.
\<close>

theorem Execute_rejects:
  assumes "url = [] \<or> \<not> isValidHTTPMethod method"
  shows "\<exists>c e. Execute env rb i method url q body hs = Some (None, c) \<and> hError c = Some e \<and>
    hsent c = [] \<and> hResponse c = None \<and> hlogs c = [] \<and> htick c = i"
  using assms by (auto simp: Execute_def Let_def SetVal_def)

theorem Execute_rejects_witness:
  "\<exists>c e. Execute demo_henv demo_builder 0 ''BREW'' ''http://h'' [] BodyNil None = Some (None, c) \<and>
     hError c = Some e \<and> hsent c = []"
  using Execute_rejects [of "''http://h''" "''BREW''" demo_henv demo_builder 0 "[]" BodyNil None]
  by (auto simp: isValidHTTPMethod_def validHTTPMethods_def)

end
