(* ===== verification/Float64.thy ===== *)
theory Float64
  imports Go_Prelude "HOL-Library.Log_Nat" Complex_Main
begin

text \<open>
  Go's \<^verbatim>\<open>float64\<close>: IEEE 754 binary64 with round-to-nearest-even, over exact rationals.
  A finite value is the rational it denotes (the sign of zero is not kept); arithmetic computes
  exactly and rounds to the binary64 grid, gradual underflow included, and overflows to an
  infinity.  The node scores and the latency averages of the node pool are computed with these
  operations.  The lemmas give what those computations need: rounding is monotone and odd, exact
  on small integers, and keeps bounds.
\<close>

section \<open>Rounding\<close>

text \<open>The binary exponent: \<open>2 powi flog2 x \<le> x < 2 powi (flog2 x + 1)\<close> for positive \<open>x\<close>.\<close>

definition flog2 :: "rat \<Rightarrow> int" where
  "flog2 x = (case quotient_of x of (n, d) \<Rightarrow>
     (let k = bitlen n - bitlen d in if 2 powi k \<le> x then k else k - 1))"

definition round_even :: "rat \<Rightarrow> int" where
  "round_even x =
     (let f = \<lfloor>x\<rfloor>; r = x - of_int f
      in if r < 1 / 2 then f else if 1 / 2 < r then f + 1 else if even f then f else f + 1)"

text \<open>The exponent of the unit in the last place of a binary64 number of magnitude \<open>x\<close>.\<close>

definition ulp_exp :: "rat \<Rightarrow> int" where
  "ulp_exp x = max (flog2 \<bar>x\<bar> - 52) (- 1074)"

definition fl :: "rat \<Rightarrow> rat" where
  "fl x = (if x = 0 then 0 else of_int (round_even (x / 2 powi ulp_exp x)) * 2 powi ulp_exp x)"

section \<open>Values and operations\<close>

datatype f64 = Fin rat | PInf | MInf | NaN

definition f_round :: "rat \<Rightarrow> f64" where
  "f_round x = (let y = fl x in
     if y \<ge> 2 ^ 1024 then PInf else if y \<le> - (2 ^ 1024) then MInf else Fin y)"

definition f_of_int :: "int \<Rightarrow> f64" where
  "f_of_int n = f_round (of_int n)"

fun f_neg :: "f64 \<Rightarrow> f64" where
  "f_neg (Fin x) = Fin (- x)"
| "f_neg PInf = MInf"
| "f_neg MInf = PInf"
| "f_neg NaN = NaN"

fun f_add :: "f64 \<Rightarrow> f64 \<Rightarrow> f64" where
  "f_add (Fin x) (Fin y) = f_round (x + y)"
| "f_add NaN _ = NaN"
| "f_add _ NaN = NaN"
| "f_add PInf MInf = NaN"
| "f_add MInf PInf = NaN"
| "f_add PInf _ = PInf"
| "f_add MInf _ = MInf"
| "f_add _ PInf = PInf"
| "f_add _ MInf = MInf"

definition f_sub :: "f64 \<Rightarrow> f64 \<Rightarrow> f64" where
  "f_sub a b = f_add a (f_neg b)"

definition inf_of_sign :: "rat \<Rightarrow> f64" where
  "inf_of_sign s = (if s = 0 then NaN else if 0 < s then PInf else MInf)"

text \<open>The sign of a value, 1 or -1 for the infinities.\<close>

fun f_sgn :: "f64 \<Rightarrow> rat" where
  "f_sgn (Fin x) = sgn x"
| "f_sgn PInf = 1"
| "f_sgn MInf = - 1"
| "f_sgn NaN = 0"

fun f_mul :: "f64 \<Rightarrow> f64 \<Rightarrow> f64" where
  "f_mul (Fin x) (Fin y) = f_round (x * y)"
| "f_mul NaN _ = NaN"
| "f_mul _ NaN = NaN"
| "f_mul a b = inf_of_sign (f_sgn a * f_sgn b)"

text \<open>Division; a zero divisor counts as positive zero.\<close>

fun f_div :: "f64 \<Rightarrow> f64 \<Rightarrow> f64" where
  "f_div (Fin x) (Fin y) = (if y = 0 then inf_of_sign x else f_round (x / y))"
| "f_div NaN _ = NaN"
| "f_div _ NaN = NaN"
| "f_div (Fin x) _ = Fin 0"
| "f_div a (Fin y) = (if y = 0 then a else inf_of_sign (f_sgn a * sgn y))"
| "f_div _ _ = NaN"

fun f_less :: "f64 \<Rightarrow> f64 \<Rightarrow> bool" where
  "f_less NaN _ = False"
| "f_less _ NaN = False"
| "f_less (Fin x) (Fin y) = (x < y)"
| "f_less MInf b = (b \<noteq> MInf)"
| "f_less a PInf = (a \<noteq> PInf)"
| "f_less _ _ = False"

definition f_le :: "f64 \<Rightarrow> f64 \<Rightarrow> bool" where
  "f_le a b \<longleftrightarrow> f_less a b \<or> (a = b \<and> a \<noteq> NaN)"

text \<open>
  Conversion to \<^verbatim>\<open>int64\<close> truncates towards zero.  Go leaves out-of-range conversions to the
  implementation; amd64 yields the smallest \<^verbatim>\<open>int64\<close>.
\<close>

fun f_to_int64 :: "f64 \<Rightarrow> int" where
  "f_to_int64 (Fin x) =
     (let n = (if 0 \<le> x then \<lfloor>x\<rfloor> else \<lceil>x\<rceil>) in if in_int64 n then n else int64_min)"
| "f_to_int64 _ = int64_min"

fun is_fin :: "f64 \<Rightarrow> bool" where
  "is_fin (Fin _) = True"
| "is_fin _ = False"

fun f_val :: "f64 \<Rightarrow> rat" where
  "f_val (Fin x) = x"
| "f_val _ = 0"

section \<open>Properties of rounding\<close>

lemma flog2_bounds:
  assumes "0 < x"
  shows "2 powi flog2 x \<le> x" and "x < 2 powi (flog2 x + 1)"
proof -
  obtain n d where nd: "quotient_of x = (n, d)" by (cases "quotient_of x")
  have d: "0 < d" using quotient_of_denom_pos [OF nd] .
  have x: "x = of_int n / of_int d" using quotient_of_div [OF nd] .
  with assms d have n: "0 < n" by (simp add: zero_less_divide_iff)
  define k where "k = bitlen n - bitlen d"
  have bn: "2 ^ nat (bitlen n - 1) \<le> n" "n < 2 ^ nat (bitlen n)" using bitlen_bounds [OF n] by auto
  have bd: "2 ^ nat (bitlen d - 1) \<le> d" "d < 2 ^ nat (bitlen d)" using bitlen_bounds [OF d] by auto
  have pn: "bitlen n \<ge> 1" and pd: "bitlen d \<ge> 1" using n d bn bd
    by (metis int_one_le_iff_zero_less less_le_not_le linorder_not_le nat_0_iff power_0)+
  have N: "(2::rat) powi (bitlen n - 1) \<le> of_int n" "of_int n < (2::rat) powi bitlen n"
    using pn of_int_le_iff [THEN iffD2, OF bn(1), where 'a1 = rat]
      of_int_less_iff [THEN iffD2, OF bn(2), where 'a1 = rat]
    by (simp_all add: power_int_def)
  have D: "(2::rat) powi (bitlen d - 1) \<le> of_int d" "of_int d < (2::rat) powi bitlen d"
    using pd of_int_le_iff [THEN iffD2, OF bd(1), where 'a1 = rat]
      of_int_less_iff [THEN iffD2, OF bd(2), where 'a1 = rat]
    by (simp_all add: power_int_def)
  have low: "2 powi (k - 1) \<le> x"
  proof -
    have "(2::rat) powi (k - 1) * of_int d \<le> 2 powi (k - 1) * 2 powi bitlen d"
      using D by (intro mult_left_mono) auto
    also have "\<dots> = 2 powi (bitlen n - 1)" by (simp add: k_def flip: power_int_add)
    also have "\<dots> \<le> of_int n" by (rule N)
    finally show ?thesis using d by (simp add: x field_simps)
  qed
  have up: "x < 2 powi (k + 1)"
  proof -
    have "(of_int n :: rat) < 2 powi bitlen n" by (rule N)
    also have "\<dots> = 2 powi (k + 1) * 2 powi (bitlen d - 1)" by (simp add: k_def flip: power_int_add)
    also have "\<dots> \<le> 2 powi (k + 1) * of_int d" using D by (intro mult_left_mono) auto
    finally show ?thesis using d by (simp add: x field_simps)
  qed
  show "2 powi flog2 x \<le> x" and "x < 2 powi (flog2 x + 1)"
    using low up by (auto simp: flog2_def nd k_def [symmetric] Let_def)
qed

text \<open>Monotonicity of \<^const>\<open>round_even\<close>, and its value on integers.\<close>

lemma round_even_int [simp]: "round_even (of_int n) = n"
  by (simp add: round_even_def)

lemma round_even_lower: "of_int n \<le> x \<Longrightarrow> n \<le> round_even x"
proof -
  assume "of_int n \<le> x"
  then have "n \<le> \<lfloor>x\<rfloor>" by (simp add: le_floor_iff)
  then show ?thesis by (simp add: round_even_def Let_def)
qed

lemma round_even_upper:
  assumes "x \<le> of_int n"
  shows "round_even x \<le> n"
proof (cases "x = of_int n")
  case False
  with assms have "\<lfloor>x\<rfloor> < n" by (simp add: floor_less_iff)
  then show ?thesis by (simp add: round_even_def Let_def)
qed simp

lemma round_even_mono:
  assumes "x \<le> y"
  shows "round_even x \<le> round_even y"
proof (cases "\<lfloor>x\<rfloor> = \<lfloor>y\<rfloor>")
  case True
  with assms show ?thesis by (auto simp: round_even_def Let_def)
next
  case False
  with floor_mono [OF assms] have "\<lfloor>x\<rfloor> + 1 \<le> \<lfloor>y\<rfloor>" by linarith
  moreover have "round_even x \<le> \<lfloor>x\<rfloor> + 1" by (simp add: round_even_def Let_def)
  moreover have "\<lfloor>y\<rfloor> \<le> round_even y" by (simp add: round_even_def Let_def)
  ultimately show ?thesis by linarith
qed

lemma round_even_minus: "round_even (- x) = - round_even x"
proof (cases "x = of_int \<lfloor>x\<rfloor>")
  case True
  then have "round_even (- x) = round_even (of_int (- \<lfloor>x\<rfloor>))" by simp
  also have "\<dots> = - round_even (of_int \<lfloor>x\<rfloor>)" by (simp only: round_even_int)
  finally show ?thesis using True by simp
next
  case False
  then have c: "\<lceil>x\<rceil> = \<lfloor>x\<rfloor> + 1" by (metis ceiling_altdef)
  have f: "\<lfloor>- x\<rfloor> = - \<lfloor>x\<rfloor> - 1" using c by (simp add: floor_minus)
  show ?thesis by (auto simp: round_even_def Let_def f)
qed

text \<open>Rounding to the grid: odd, monotone, exact on grid points.\<close>

lemma fl_0 [simp]: "fl 0 = 0"
  by (simp add: fl_def)

lemma fl_minus: "fl (- x) = - fl x"
  by (simp add: fl_def ulp_exp_def round_even_minus)

lemma flog2_mono:
  assumes "0 < x" "x \<le> y"
  shows "flog2 x \<le> flog2 y"
proof (rule ccontr)
  assume "\<not> flog2 x \<le> flog2 y"
  then have "(2::rat) powi (flog2 y + 1) \<le> 2 powi flog2 x" by (intro power_int_increasing) auto
  with flog2_bounds [of x] flog2_bounds [of y] assms show False by linarith
qed

text \<open>A grid point above (below) \<open>x\<close> bounds the rounding of \<open>x\<close>.\<close>

lemma powi_split:
  assumes "q \<le> j"
  shows "(2::rat) powi j = 2 powi q * 2 ^ nat (j - q)"
proof -
  have "(2::rat) powi (q + (j - q)) = 2 powi q * 2 powi (j - q)" by (rule power_int_add) simp
  with assms show ?thesis by (simp add: power_int_def [of 2 "j - q"])
qed

lemma fl_le_grid:
  assumes "0 < x" "x \<le> of_int k * 2 powi j" "ulp_exp x \<le> j"
  shows "fl x \<le> of_int k * 2 powi j"
proof -
  let ?q = "ulp_exp x"
  have e: "(2::rat) powi j = 2 powi ?q * 2 ^ nat (j - ?q)"
    using assms(3) by (rule powi_split)
  have "x / 2 powi ?q \<le> of_int (k * 2 ^ nat (j - ?q))"
    using assms(2) by (simp add: e field_simps)
  then have "round_even (x / 2 powi ?q) \<le> k * 2 ^ nat (j - ?q)" by (rule round_even_upper)
  then have "(of_int (round_even (x / 2 powi ?q)) :: rat) \<le> of_int (k * 2 ^ nat (j - ?q))"
    by (rule of_int_le_iff [THEN iffD2])
  then have "of_int (round_even (x / 2 powi ?q)) * 2 powi ?q
      \<le> of_int (k * 2 ^ nat (j - ?q)) * (2::rat) powi ?q"
    by (rule mult_right_mono) simp
  then show ?thesis using assms(1) by (simp add: fl_def e mult_ac)
qed

lemma fl_ge_grid:
  assumes "0 < x" "of_int k * 2 powi j \<le> x" "ulp_exp x \<le> j"
  shows "of_int k * 2 powi j \<le> fl x"
proof -
  let ?q = "ulp_exp x"
  have e: "(2::rat) powi j = 2 powi ?q * 2 ^ nat (j - ?q)"
    using assms(3) by (rule powi_split)
  have "of_int (k * 2 ^ nat (j - ?q)) \<le> x / 2 powi ?q"
    using assms(2) by (simp add: e field_simps)
  then have "k * 2 ^ nat (j - ?q) \<le> round_even (x / 2 powi ?q)" by (rule round_even_lower)
  then have "(of_int (k * 2 ^ nat (j - ?q)) :: rat) \<le> of_int (round_even (x / 2 powi ?q))"
    by (rule of_int_le_iff [THEN iffD2])
  then have "of_int (k * 2 ^ nat (j - ?q)) * (2::rat) powi ?q
      \<le> of_int (round_even (x / 2 powi ?q)) * 2 powi ?q"
    by (rule mult_right_mono) simp
  then show ?thesis using assms(1) by (simp add: fl_def e mult_ac)
qed

lemma fl_mono_pos:
  assumes "0 < x" "x \<le> y"
  shows "fl x \<le> fl y"
proof (cases "ulp_exp x = ulp_exp y")
  case True
  have "x / 2 powi ulp_exp x \<le> y / 2 powi ulp_exp x"
    using assms by (intro divide_right_mono) auto
  from round_even_mono [OF this] show ?thesis
    using assms True by (simp add: fl_def mult_right_mono)
next
  case False
  let ?e = "flog2 y"
  have "flog2 x \<le> ?e" using assms by (rule flog2_mono)
  with False have lt: "flog2 x < ?e" and q: "ulp_exp y = ?e - 52" and qx: "ulp_exp x \<le> ?e"
    using assms by (auto simp: ulp_exp_def)
  have "x < 2 powi (flog2 x + 1)" using flog2_bounds assms by auto
  also have "\<dots> \<le> 2 powi ?e" using lt by (intro power_int_increasing) auto
  finally have "fl x \<le> of_int 1 * 2 powi ?e"
    using assms qx by (intro fl_le_grid) auto
  moreover have "of_int 1 * 2 powi ?e \<le> fl y"
    using assms flog2_bounds [of y] q by (intro fl_ge_grid) auto
  ultimately show ?thesis by simp
qed

lemma fl_nonneg: "0 \<le> x \<Longrightarrow> 0 \<le> fl x"
proof (cases "x = 0")
  case False
  assume "0 \<le> x"
  with False show ?thesis using fl_ge_grid [of x 0 "ulp_exp x"] by simp
qed simp

lemma fl_mono:
  assumes "x \<le> y"
  shows "fl x \<le> fl y"
proof (cases "0 < x")
  case True
  with assms show ?thesis by (simp add: fl_mono_pos)
next
  case x: False
  show ?thesis
  proof (cases "y < 0")
    case True
    then have "fl (- y) \<le> fl (- x)" using assms by (intro fl_mono_pos) auto
    then show ?thesis by (simp add: fl_minus)
  next
    case False
    then have "0 \<le> fl y" by (simp add: fl_nonneg)
    moreover have "0 \<le> fl (- x)" using x by (simp add: fl_nonneg)
    ultimately show ?thesis by (simp add: fl_minus)
  qed
qed

text \<open>Integers below \<open>2 ^ 53\<close> and halves of them are exact.\<close>

lemma fl_int:
  assumes "\<bar>n\<bar> < 2 ^ 53"
  shows "fl (of_int n) = of_int n"
proof -
  have pos: "fl (of_int m) = of_int m" if "0 < m" "m < 2 ^ 53" for m :: int
  proof -
    have m: "(0::rat) < of_int m" "(of_int m :: rat) < 2 powi 53"
      using that of_int_less_iff [THEN iffD2, OF that(2), where 'a1 = rat]
      by (simp_all add: power_int_def)
    have "flog2 (of_int m) < 53"
    proof (rule ccontr)
      assume "\<not> flog2 (of_int m) < 53"
      then have "(2::rat) powi 53 \<le> 2 powi flog2 (of_int m)" by (intro power_int_increasing) auto
      with m flog2_bounds [OF m(1)] show False by linarith
    qed
    with m have q: "ulp_exp (of_int m) \<le> 0" by (simp add: ulp_exp_def)
    from fl_le_grid [of "of_int m" m 0] fl_ge_grid [of "of_int m" m 0] m q show ?thesis
      by (intro antisym) auto
  qed
  show ?thesis
  proof (cases "n = 0")
    case False
    with assms pos [of n] pos [of "- n"] show ?thesis
      by (cases "0 < n") (simp_all add: fl_minus)
  qed simp
qed

lemma fl_le_int: "x \<le> of_int n \<Longrightarrow> \<bar>n\<bar> < 2 ^ 53 \<Longrightarrow> fl x \<le> of_int n"
  using fl_mono [of x "of_int n"] by (simp add: fl_int)

lemma fl_ge_int: "of_int n \<le> x \<Longrightarrow> \<bar>n\<bar> < 2 ^ 53 \<Longrightarrow> of_int n \<le> fl x"
  using fl_mono [of "of_int n" x] by (simp add: fl_int)

lemma f_round_Fin: "\<bar>x\<bar> \<le> of_int n \<Longrightarrow> n < 2 ^ 53 \<Longrightarrow> f_round x = Fin (fl x)"
proof -
  assume a: "\<bar>x\<bar> \<le> of_int n" "n < 2 ^ 53"
  from a(1) have "(0::rat) \<le> of_int n" by linarith
  then have n: "\<bar>n\<bar> < 2 ^ 53" "\<bar>- n\<bar> < 2 ^ 53" using a(2) by simp_all
  have "fl x \<le> of_int n" "of_int (- n) \<le> fl x"
    using fl_le_int [OF _ n(1)] fl_ge_int [OF _ n(2)] a(1) by auto
  moreover have "(of_int n :: rat) < of_int (2 ^ 53)" using a(2) by (rule of_int_less_iff [THEN iffD2])
  moreover have "(2::rat) ^ 53 < 2 ^ 1024" by (rule power_strict_increasing) simp_all
  ultimately show ?thesis by (simp add: f_round_def Let_def)
qed

lemma f_of_int_small: "\<bar>n\<bar> < 2 ^ 53 \<Longrightarrow> f_of_int n = Fin (of_int n)"
  by (simp add: f_of_int_def f_round_Fin [of _ "\<bar>n\<bar>"] fl_int)

text \<open>The working rule for bounds: rounding stays between integers the grid contains.\<close>

lemma f_round_between:
  assumes "of_int l \<le> x" "x \<le> of_int u" "\<bar>l\<bar> < 2 ^ 53" "\<bar>u\<bar> < 2 ^ 53"
  obtains y where "f_round x = Fin y" "of_int l \<le> y" "y \<le> of_int u"
proof -
  have "\<bar>x\<bar> \<le> of_int (max \<bar>l\<bar> \<bar>u\<bar>)" using assms(1,2) by (simp add: abs_le_iff max_def) linarith
  then have "f_round x = Fin (fl x)"
    by (rule f_round_Fin) (use assms(3,4) in simp)
  with that [of "fl x"] assms fl_le_int [of x u] fl_ge_int [of l x] show thesis by blast
qed

lemma f_to_int64_between:
  assumes "of_int l \<le> y" "y \<le> of_int u" "0 \<le> l" "u < 2 ^ 53"
  shows "l \<le> f_to_int64 (Fin y) \<and> f_to_int64 (Fin y) \<le> u"
proof -
  have "(0::rat) \<le> of_int l" using assms(3) by simp
  with assms(1) have y: "0 \<le> y" by linarith
  have f: "l \<le> \<lfloor>y\<rfloor>" "\<lfloor>y\<rfloor> \<le> u" using assms(1,2) by (auto simp: le_floor_iff floor_le_iff)
  have "in_int64 k" if "l \<le> k" "k \<le> u" for k
    using that assms(3,4) by (simp add: int64_defs)
  with f have "in_int64 \<lfloor>y\<rfloor>" by blast
  with y f show ?thesis by (simp add: Let_def)
qed

lemma fl_half: "fl (1 / 2) = 1 / 2"
proof -
  have q: "quotient_of (1 / 2) = (1, 2)" by code_simp
  have b: "bitlen 1 = 1" "bitlen 2 = 2" by code_simp+
  have "flog2 (1 / 2) = - 1" by (simp add: flog2_def q b power_int_minus)
  then have u: "ulp_exp (1 / 2) = - 53" by (simp add: ulp_exp_def)
  have e: "(1 / 2 :: rat) / 2 powi - 53 = of_int (2 ^ 52)" by (simp add: power_int_minus)
  show ?thesis unfolding fl_def u e round_even_int by (simp add: power_int_minus)
qed

end
