(* ===== verification/Nodepool_Types.thy ===== *)
theory Nodepool_Types
  imports Float64
begin

text \<open>
  The data of \<^verbatim>\<open>provider/nodepool\<close>: \<^verbatim>\<open>types.go\<close> and \<^verbatim>\<open>options.go\<close>.  The type variable \<open>'a\<close>
  stands for Go's \<^verbatim>\<open>any\<close> (request and response payloads, node metadata), which the pool carries
  and never inspects.
\<close>

section \<open>Requests, responses, statuses\<close>

text \<open>\<^verbatim>\<open>NodeStatus\<close> is an \<^verbatim>\<open>int\<close>: a custom classifier may return a value that has no name.\<close>

datatype NodeStatus =
    NodeStatusSuccess
  | NodeStatusFail
  | NodeStatusBizError
  | NodeStatusOther int

record 'a Request =
  ReqData :: 'a

record 'a Response =
  Data :: 'a
  Latency :: int

definition ErrAllThrottled :: goerr where
  "ErrAllThrottled = ErrNew ''nodepool: all nodes throttled''"

text \<open>A \<^verbatim>\<open>ResponseClassifier\<close> is the function its \<^verbatim>\<open>Classify\<close> method computes.\<close>

type_synonym 'a ResponseClassifier =
  "ctx \<Rightarrow> string \<Rightarrow> 'a Response option \<Rightarrow> goerr option \<Rightarrow> NodeStatus"

definition DefaultClassifier_Classify :: "'a ResponseClassifier" where
  "DefaultClassifier_Classify c endpoint resp err =
     (if err \<noteq> None then NodeStatusFail else NodeStatusSuccess)"

section \<open>Node configuration and statistics\<close>

record RateLimitConfig =
  MaxConcurrent :: int
  PerSecond :: f64
  PerMinute :: f64
  Burst :: int

record 'a NodeConfig =
  Endpoint :: string
  Weight :: int
  Meta :: "string \<Rightarrow> 'a option"
  Classifier :: "'a ResponseClassifier option"
  RateLimit :: "RateLimitConfig option"

record NodeStats =
  st_Endpoint :: string
  st_TotalRequests :: int
  st_SuccessCount :: int
  st_FailCount :: int
  st_ConsecutiveFail :: int
  st_ConsecutiveSucc :: int
  st_AvgLatency :: int
  st_CircuitOpen :: bool

section \<open>Options\<close>

text \<open>\<^verbatim>\<open>StrategyType\<close> is an exported \<^verbatim>\<open>int\<close>; unnamed values select the default strategy.\<close>

datatype StrategyType = StrategyConservative | StrategyRace | StrategyOther int

record Options =
  Strategy :: StrategyType
  MaxRetries :: int
  RaceConcurrency :: int
  FailureThreshold :: int
  SuccessThreshold :: int
  CircuitOpenTime :: int
  HealthCheckPeriod :: int
  SortPeriod :: int
  EWMAAlpha :: f64
  WaitOnThrottle :: bool

definition Millisecond :: int where
  "Millisecond = 1000000"

definition Second :: int where
  "Second = 1000000000"

definition defaultOptions :: Options where
  "defaultOptions = \<lparr>
     Strategy = StrategyConservative,
     MaxRetries = 3,
     RaceConcurrency = 0,
     FailureThreshold = 5,
     SuccessThreshold = 3,
     CircuitOpenTime = 10 * Second,
     HealthCheckPeriod = 30 * Second,
     SortPeriod = 3 * Second,
     EWMAAlpha = f_round (3 / 10),
     WaitOnThrottle = False \<rparr>"

text \<open>A functional option is the update it performs.\<close>

type_synonym Option = "Options \<Rightarrow> Options"

definition WithStrategy :: "StrategyType \<Rightarrow> Option" where
  "WithStrategy s o1 = o1\<lparr>Strategy := s\<rparr>"

definition WithMaxRetries :: "int \<Rightarrow> Option" where
  "WithMaxRetries n o1 = (if n > 0 then o1\<lparr>MaxRetries := n\<rparr> else o1)"

definition WithRaceConcurrency :: "int \<Rightarrow> Option" where
  "WithRaceConcurrency n o1 = o1\<lparr>RaceConcurrency := n\<rparr>"

definition WithFailureThreshold :: "int \<Rightarrow> Option" where
  "WithFailureThreshold n o1 = (if n > 0 then o1\<lparr>FailureThreshold := n\<rparr> else o1)"

definition WithSuccessThreshold :: "int \<Rightarrow> Option" where
  "WithSuccessThreshold n o1 = (if n > 0 then o1\<lparr>SuccessThreshold := n\<rparr> else o1)"

definition WithCircuitOpenTime :: "int \<Rightarrow> Option" where
  "WithCircuitOpenTime d o1 = (if d > 0 then o1\<lparr>CircuitOpenTime := d\<rparr> else o1)"

definition WithHealthCheckPeriod :: "int \<Rightarrow> Option" where
  "WithHealthCheckPeriod d o1 = (if d > 0 then o1\<lparr>HealthCheckPeriod := d\<rparr> else o1)"

definition WithSortPeriod :: "int \<Rightarrow> Option" where
  "WithSortPeriod d o1 = (if d > 0 then o1\<lparr>SortPeriod := d\<rparr> else o1)"

definition WithEWMAAlpha :: "f64 \<Rightarrow> Option" where
  "WithEWMAAlpha alpha o1 =
     (if f_less (Fin 0) alpha \<and> f_le alpha (Fin 1) then o1\<lparr>EWMAAlpha := alpha\<rparr> else o1)"

definition WithWaitOnThrottle :: "bool \<Rightarrow> Option" where
  "WithWaitOnThrottle wait o1 = o1\<lparr>WaitOnThrottle := wait\<rparr>"

lemmas option_setters =
  WithStrategy_def WithMaxRetries_def WithRaceConcurrency_def WithFailureThreshold_def
  WithSuccessThreshold_def WithCircuitOpenTime_def WithHealthCheckPeriod_def WithSortPeriod_def
  WithEWMAAlpha_def WithWaitOnThrottle_def

text \<open>The options a caller passes to \<^verbatim>\<open>New\<close>, as the calls that make them.\<close>

datatype option_call =
    OStrategy StrategyType | OMaxRetries int | ORaceConcurrency int | OFailureThreshold int
  | OSuccessThreshold int | OCircuitOpenTime int | OHealthCheckPeriod int | OSortPeriod int
  | OEWMAAlpha f64 | OWaitOnThrottle bool

fun apply_option :: "option_call \<Rightarrow> Option" where
  "apply_option (OStrategy s) = WithStrategy s"
| "apply_option (OMaxRetries n) = WithMaxRetries n"
| "apply_option (ORaceConcurrency n) = WithRaceConcurrency n"
| "apply_option (OFailureThreshold n) = WithFailureThreshold n"
| "apply_option (OSuccessThreshold n) = WithSuccessThreshold n"
| "apply_option (OCircuitOpenTime d) = WithCircuitOpenTime d"
| "apply_option (OHealthCheckPeriod d) = WithHealthCheckPeriod d"
| "apply_option (OSortPeriod d) = WithSortPeriod d"
| "apply_option (OEWMAAlpha a) = WithEWMAAlpha a"
| "apply_option (OWaitOnThrottle b) = WithWaitOnThrottle b"

definition apply_options :: "option_call list \<Rightarrow> Options \<Rightarrow> Options" where
  "apply_options cs o1 = foldl (\<lambda>acc c. apply_option c acc) o1 cs"

text \<open>What every configuration built from the exported options guarantees.\<close>

definition valid_options :: "Options \<Rightarrow> bool" where
  "valid_options o1 \<longleftrightarrow>
     0 < MaxRetries o1 \<and> 0 < FailureThreshold o1 \<and> 0 < SuccessThreshold o1 \<and>
     0 < CircuitOpenTime o1 \<and> 0 < HealthCheckPeriod o1 \<and> 0 < SortPeriod o1 \<and>
     f_less (Fin 0) (EWMAAlpha o1) \<and> f_le (EWMAAlpha o1) (Fin 1)"

lemma f_round_three_tenths:
  "f_less (Fin 0) (f_round (3 / 10)) \<and> f_le (f_round (3 / 10)) (Fin 1)"
proof -
  have r: "f_round (3 / 10) = Fin (fl (3 / 10))" by (rule f_round_Fin [of _ 1]) simp_all
  have "fl (3 / 10) \<le> of_int 1" by (rule fl_le_int) simp_all
  moreover have "0 < fl (3 / 10)"
  proof -
    have "fl (1 * 2 powi - 2) \<le> fl (3 / 10)" by (rule fl_mono) (simp add: power_int_def power2_eq_square)
    moreover have "flog2 (2 powi - 2) \<le> - 2"
    proof (rule ccontr)
      assume "\<not> flog2 (2 powi - 2) \<le> - 2"
      then have "(2::rat) powi (- 1) \<le> 2 powi flog2 (2 powi - 2)"
        by (intro power_int_increasing) auto
      also have "\<dots> \<le> 2 powi - 2" by (rule flog2_bounds) simp
      finally show False by (simp add: power_int_def power2_eq_square)
    qed
    then have "of_int 1 * 2 powi - 2 \<le> fl (1 * 2 powi - 2)"
      by (intro fl_ge_grid) (simp_all add: ulp_exp_def)
    moreover have "(0::rat) < of_int 1 * 2 powi - 2" by simp
    ultimately show ?thesis by linarith
  qed
  ultimately show ?thesis by (auto simp: r f_le_def)
qed

lemma valid_defaultOptions: "valid_options defaultOptions"
  using f_round_three_tenths by (simp add: valid_options_def defaultOptions_def Second_def)

lemma valid_apply_option: "valid_options o1 \<Longrightarrow> valid_options (apply_option c o1)"
  by (cases c) (simp_all add: valid_options_def option_setters)

lemma valid_apply_options: "valid_options o1 \<Longrightarrow> valid_options (apply_options cs o1)"
  by (induction cs arbitrary: o1) (simp_all add: apply_options_def valid_apply_option)

end
