(* ===== verification/Nodepool_Node.thy ===== *)
theory Nodepool_Node
  imports Nodepool_Types
begin

text \<open>
  \<^verbatim>\<open>provider/nodepool/node.go\<close>: one endpoint with its health counters, its circuit breaker and its
  throttle.  Every method runs under the node's lock, so each is one state transformer; the
  instants it reads from \<^verbatim>\<open>time.Now()\<close> are arguments.

  The weighted semaphore (\<^verbatim>\<open>golang.org/x/sync\<close>) and the token bucket (\<^verbatim>\<open>golang.org/x/time/rate\<close>)
  are not part of the repository: their operations are the record \<open>throttle_lib\<close> that the
  definitions take as an argument.
\<close>

section \<open>State\<close>

datatype circuitState = circuitClosed | circuitOpen | circuitHalfOpen

record ('s, 'l) throttle_lib =
  NewWeighted :: "int \<Rightarrow> 's"
  sem_TryAcquire :: "'s \<Rightarrow> bool \<times> 's"
  sem_Acquire :: "ctx \<Rightarrow> tick \<Rightarrow> 's \<Rightarrow> goerr option \<times> 's"
  sem_Release :: "'s \<Rightarrow> 's"
  NewLimiter :: "f64 \<Rightarrow> int \<Rightarrow> 'l"
  lim_Allow :: "int \<Rightarrow> 'l \<Rightarrow> bool \<times> 'l"
  lim_Wait :: "ctx \<Rightarrow> tick \<Rightarrow> 'l \<Rightarrow> goerr option \<times> 'l"

record ('a, 's, 'l) node =
  config :: "'a NodeConfig"
  opts :: Options
  state :: circuitState
  openedAt :: int
  totalRequests :: int
  successCount :: int
  failCount :: int
  consecutiveFail :: int
  consecutiveSucc :: int
  avgLatency :: int
  score :: f64
  concSem :: "'s option"
  rateLimiter :: "'l option"
  minuteLimiter :: "'l option"

section \<open>Construction and throttling\<close>

text \<open>The burst of a token bucket: configured, else the rate rounded down, at least one.\<close>

definition burst_of :: "int \<Rightarrow> f64 \<Rightarrow> int" where
  "burst_of burst rate =
     (if burst \<le> 0 then (let b = f_to_int64 rate in if b \<le> 0 then 1 else b) else burst)"

definition initThrottler ::
    "('s, 'l) throttle_lib \<Rightarrow> ('a, 's, 'l) node \<Rightarrow> ('a, 's, 'l) node" where
  "initThrottler lib n =
     (case RateLimit (config n) of
        None \<Rightarrow> n
      | Some rl \<Rightarrow>
          (let n1 = (if MaxConcurrent rl > 0
                     then n\<lparr>concSem := Some (NewWeighted lib (MaxConcurrent rl))\<rparr> else n);
               n2 = (if f_less (Fin 0) (PerSecond rl)
                     then n1\<lparr>rateLimiter :=
                       Some (NewLimiter lib (PerSecond rl) (burst_of (Burst rl) (PerSecond rl)))\<rparr>
                     else n1);
               n3 = (if f_less (Fin 0) (PerMinute rl)
                     then (let perSec = f_div (PerMinute rl) (f_of_int 60)
                           in n2\<lparr>minuteLimiter :=
                                Some (NewLimiter lib perSec (burst_of (Burst rl) perSec))\<rparr>)
                     else n2)
           in n3))"

definition newNode ::
    "('s, 'l) throttle_lib \<Rightarrow> 'a NodeConfig \<Rightarrow> Options \<Rightarrow> ('a, 's, 'l) node" where
  "newNode lib cfg o1 =
     (let w = (if Weight cfg \<le> 0 then 1 else Weight cfg)
      in initThrottler lib
           \<lparr> config = cfg, opts = o1, state = circuitClosed, openedAt = 0,
             totalRequests = 0, successCount = 0, failCount = 0, consecutiveFail = 0,
             consecutiveSucc = 0, avgLatency = 0, score = f_of_int w,
             concSem = None, rateLimiter = None, minuteLimiter = None \<rparr>)"

definition Release :: "('s, 'l) throttle_lib \<Rightarrow> ('a, 's, 'l) node \<Rightarrow> ('a, 's, 'l) node" where
  "Release lib n =
     (case concSem n of None \<Rightarrow> n | Some s \<Rightarrow> n\<lparr>concSem := Some (sem_Release lib s)\<rparr>)"

text \<open>\<^verbatim>\<open>x != nil && !x.TryAcquire(1)\<close> and its kin: whether the step lets the request pass.\<close>

definition pass_sem ::
    "('s, 'l) throttle_lib \<Rightarrow> ('a, 's, 'l) node \<Rightarrow> bool \<times> ('a, 's, 'l) node" where
  "pass_sem lib n =
     (case concSem n of
        None \<Rightarrow> (True, n)
      | Some s \<Rightarrow> (case sem_TryAcquire lib s of (ok, s') \<Rightarrow> (ok, n\<lparr>concSem := Some s'\<rparr>)))"

definition pass_rate ::
    "('s, 'l) throttle_lib \<Rightarrow> int \<Rightarrow> ('a, 's, 'l) node \<Rightarrow> bool \<times> ('a, 's, 'l) node" where
  "pass_rate lib now n =
     (case rateLimiter n of
        None \<Rightarrow> (True, n)
      | Some l \<Rightarrow> (case lim_Allow lib now l of (ok, l') \<Rightarrow> (ok, n\<lparr>rateLimiter := Some l'\<rparr>)))"

definition pass_minute ::
    "('s, 'l) throttle_lib \<Rightarrow> int \<Rightarrow> ('a, 's, 'l) node \<Rightarrow> bool \<times> ('a, 's, 'l) node" where
  "pass_minute lib now n =
     (case minuteLimiter n of
        None \<Rightarrow> (True, n)
      | Some l \<Rightarrow> (case lim_Allow lib now l of (ok, l') \<Rightarrow> (ok, n\<lparr>minuteLimiter := Some l'\<rparr>)))"

definition TryAcquire ::
    "('s, 'l) throttle_lib \<Rightarrow> int \<Rightarrow> ('a, 's, 'l) node \<Rightarrow> bool \<times> ('a, 's, 'l) node" where
  "TryAcquire lib now n =
     (if concSem n = None \<and> rateLimiter n = None \<and> minuteLimiter n = None then (True, n)
      else case pass_sem lib n of (ok1, n1) \<Rightarrow>
        if \<not> ok1 then (False, n1)
        else case pass_rate lib now n1 of (ok2, n2) \<Rightarrow>
          if \<not> ok2 then (False, Release lib n2)
          else case pass_minute lib now n2 of (ok3, n3) \<Rightarrow>
            if \<not> ok3 then (False, Release lib n3) else (True, n3))"

definition wait_sem ::
    "('s, 'l) throttle_lib \<Rightarrow> ctx \<Rightarrow> tick \<Rightarrow> ('a, 's, 'l) node
     \<Rightarrow> goerr option \<times> ('a, 's, 'l) node" where
  "wait_sem lib c i n =
     (case concSem n of
        None \<Rightarrow> (None, n)
      | Some s \<Rightarrow> (case sem_Acquire lib c i s of (e, s') \<Rightarrow> (e, n\<lparr>concSem := Some s'\<rparr>)))"

definition wait_rate ::
    "('s, 'l) throttle_lib \<Rightarrow> ctx \<Rightarrow> tick \<Rightarrow> ('a, 's, 'l) node
     \<Rightarrow> goerr option \<times> ('a, 's, 'l) node" where
  "wait_rate lib c i n =
     (case rateLimiter n of
        None \<Rightarrow> (None, n)
      | Some l \<Rightarrow> (case lim_Wait lib c i l of (e, l') \<Rightarrow> (e, n\<lparr>rateLimiter := Some l'\<rparr>)))"

definition wait_minute ::
    "('s, 'l) throttle_lib \<Rightarrow> ctx \<Rightarrow> tick \<Rightarrow> ('a, 's, 'l) node
     \<Rightarrow> goerr option \<times> ('a, 's, 'l) node" where
  "wait_minute lib c i n =
     (case minuteLimiter n of
        None \<Rightarrow> (None, n)
      | Some l \<Rightarrow> (case lim_Wait lib c i l of (e, l') \<Rightarrow> (e, n\<lparr>minuteLimiter := Some l'\<rparr>)))"

definition Acquire ::
    "('s, 'l) throttle_lib \<Rightarrow> ctx \<Rightarrow> tick \<Rightarrow> ('a, 's, 'l) node
     \<Rightarrow> goerr option \<times> ('a, 's, 'l) node" where
  "Acquire lib c i n =
     (if concSem n = None \<and> rateLimiter n = None \<and> minuteLimiter n = None then (None, n)
      else case wait_sem lib c i n of (e1, n1) \<Rightarrow>
        if e1 \<noteq> None then (e1, n1)
        else case wait_rate lib c i n1 of (e2, n2) \<Rightarrow>
          if e2 \<noteq> None then (e2, Release lib n2)
          else case wait_minute lib c i n2 of (e3, n3) \<Rightarrow>
            if e3 \<noteq> None then (e3, Release lib n3) else (None, n3))"

section \<open>Health and circuit breaker\<close>

definition IsAvailable :: "int \<Rightarrow> ('a, 's, 'l) node \<Rightarrow> bool" where
  "IsAvailable now n =
     (case state n of
        circuitClosed \<Rightarrow> True
      | circuitHalfOpen \<Rightarrow> True
      | circuitOpen \<Rightarrow> now - openedAt n \<ge> CircuitOpenTime (opts n))"

definition Stats :: "('a, 's, 'l) node \<Rightarrow> NodeStats" where
  "Stats n = \<lparr>
     st_Endpoint = Endpoint (config n),
     st_TotalRequests = totalRequests n,
     st_SuccessCount = successCount n,
     st_FailCount = failCount n,
     st_ConsecutiveFail = consecutiveFail n,
     st_ConsecutiveSucc = consecutiveSucc n,
     st_AvgLatency = avgLatency n,
     st_CircuitOpen = (state n = circuitOpen) \<rparr>"

definition updateLatency :: "int \<Rightarrow> ('a, 's, 'l) node \<Rightarrow> ('a, 's, 'l) node" where
  "updateLatency d n =
     (if avgLatency n = 0 then n\<lparr>avgLatency := d\<rparr>
      else (let alpha = EWMAAlpha (opts n)
            in n\<lparr>avgLatency := f_to_int64
                   (f_add (f_mul (f_of_int (avgLatency n)) (f_sub (f_of_int 1) alpha))
                          (f_mul (f_of_int d) alpha))\<rparr>))"

definition recalcScore :: "('a, 's, 'l) node \<Rightarrow> ('a, 's, 'l) node" where
  "recalcScore n =
     (let w0 = f_of_int (Weight (config n));
          w = (if f_le w0 (Fin 0) then Fin 1 else w0);
          successRate = (if totalRequests n > 0
                         then f_div (f_of_int (successCount n)) (f_of_int (totalRequests n))
                         else Fin 0);
          lp0 = f_div (f_of_int Second) (f_of_int (avgLatency n));
          latencyPenalty = (if avgLatency n > 0 then (if f_less (Fin 10) lp0 then Fin 10 else lp0)
                            else Fin 0);
          failPenalty = f_mul (f_of_int (consecutiveFail n)) (Fin (1 / 2));
          s = f_sub (f_add (f_mul w successRate) latencyPenalty) failPenalty
      in n\<lparr>score := (if state n = circuitOpen then Fin (- 1) else s)\<rparr>)"

definition RecordSuccess :: "int \<Rightarrow> ('a, 's, 'l) node \<Rightarrow> ('a, 's, 'l) node" where
  "RecordSuccess latency n =
     (let n1 = n\<lparr>totalRequests := totalRequests n + 1, successCount := successCount n + 1,
                  consecutiveSucc := consecutiveSucc n + 1, consecutiveFail := 0\<rparr>;
          n2 = updateLatency latency n1;
          n3 = (case state n2 of
                  circuitHalfOpen \<Rightarrow>
                    (if consecutiveSucc n2 \<ge> SuccessThreshold (opts n2)
                     then n2\<lparr>state := circuitClosed\<rparr> else n2)
                | circuitOpen \<Rightarrow> n2\<lparr>state := circuitHalfOpen, consecutiveSucc := 1\<rparr>
                | circuitClosed \<Rightarrow> n2)
      in recalcScore n3)"

definition RecordFailure :: "int \<Rightarrow> int \<Rightarrow> ('a, 's, 'l) node \<Rightarrow> ('a, 's, 'l) node" where
  "RecordFailure latency now n =
     (let n1 = n\<lparr>totalRequests := totalRequests n + 1, failCount := failCount n + 1,
                  consecutiveFail := consecutiveFail n + 1, consecutiveSucc := 0\<rparr>;
          n2 = updateLatency latency n1;
          n3 = (if consecutiveFail n2 \<ge> FailureThreshold (opts n2)
                then n2\<lparr>state := circuitOpen, openedAt := now\<rparr> else n2)
      in recalcScore n3)"

definition RecordBizError :: "('a, 's, 'l) node \<Rightarrow> ('a, 's, 'l) node" where
  "RecordBizError n = n\<lparr>totalRequests := totalRequests n + 1\<rparr>"

definition tryTransitionToHalfOpen ::
    "int \<Rightarrow> ('a, 's, 'l) node \<Rightarrow> bool \<times> ('a, 's, 'l) node" where
  "tryTransitionToHalfOpen now n =
     (if state n = circuitOpen \<and> now - openedAt n \<ge> CircuitOpenTime (opts n)
      then (True, n\<lparr>state := circuitHalfOpen, consecutiveSucc := 0\<rparr>)
      else (state n \<noteq> circuitOpen, n))"

definition updateConfig :: "'a NodeConfig \<Rightarrow> ('a, 's, 'l) node \<Rightarrow> ('a, 's, 'l) node" where
  "updateConfig cfg n = n\<lparr>config := cfg\<rparr>"

section \<open>Which fields an operation leaves alone\<close>

text \<open>\<^const>\<open>updateLatency\<close> writes the average only, \<^const>\<open>recalcScore\<close> the score only.\<close>

lemma updateLatency_frame [simp]:
  "config (updateLatency d n) = config n" "opts (updateLatency d n) = opts n"
  "state (updateLatency d n) = state n" "openedAt (updateLatency d n) = openedAt n"
  "totalRequests (updateLatency d n) = totalRequests n"
  "successCount (updateLatency d n) = successCount n" "failCount (updateLatency d n) = failCount n"
  "consecutiveFail (updateLatency d n) = consecutiveFail n"
  "consecutiveSucc (updateLatency d n) = consecutiveSucc n"
  "concSem (updateLatency d n) = concSem n" "rateLimiter (updateLatency d n) = rateLimiter n"
  "minuteLimiter (updateLatency d n) = minuteLimiter n"
  by (simp_all add: updateLatency_def Let_def)

lemma recalcScore_frame [simp]:
  "config (recalcScore n) = config n" "opts (recalcScore n) = opts n"
  "state (recalcScore n) = state n" "openedAt (recalcScore n) = openedAt n"
  "totalRequests (recalcScore n) = totalRequests n"
  "successCount (recalcScore n) = successCount n" "failCount (recalcScore n) = failCount n"
  "consecutiveFail (recalcScore n) = consecutiveFail n"
  "consecutiveSucc (recalcScore n) = consecutiveSucc n" "avgLatency (recalcScore n) = avgLatency n"
  "concSem (recalcScore n) = concSem n" "rateLimiter (recalcScore n) = rateLimiter n"
  "minuteLimiter (recalcScore n) = minuteLimiter n"
  by (simp_all add: recalcScore_def Let_def)

lemma tryTransition_frame [simp]:
  "opts (snd (tryTransitionToHalfOpen now n)) = opts n"
  "config (snd (tryTransitionToHalfOpen now n)) = config n"
  by (simp_all add: tryTransitionToHalfOpen_def)

lemma initThrottler_frame [simp]:
  "config (initThrottler lib n) = config n" "opts (initThrottler lib n) = opts n"
  "state (initThrottler lib n) = state n" "openedAt (initThrottler lib n) = openedAt n"
  "totalRequests (initThrottler lib n) = totalRequests n"
  "successCount (initThrottler lib n) = successCount n"
  "failCount (initThrottler lib n) = failCount n"
  "consecutiveFail (initThrottler lib n) = consecutiveFail n"
  "consecutiveSucc (initThrottler lib n) = consecutiveSucc n"
  "avgLatency (initThrottler lib n) = avgLatency n" "score (initThrottler lib n) = score n"
  by (simp_all add: initThrottler_def Let_def split: option.split)

lemma newNode_fields [simp]:
  "config (newNode lib cfg o1) = cfg" "opts (newNode lib cfg o1) = o1"
  "state (newNode lib cfg o1) = circuitClosed" "openedAt (newNode lib cfg o1) = 0"
  "totalRequests (newNode lib cfg o1) = 0"
  "successCount (newNode lib cfg o1) = 0" "failCount (newNode lib cfg o1) = 0"
  "consecutiveFail (newNode lib cfg o1) = 0" "consecutiveSucc (newNode lib cfg o1) = 0"
  "avgLatency (newNode lib cfg o1) = 0"
  by (simp_all add: newNode_def Let_def)

section \<open>The event view of a node\<close>

text \<open>
  What happens to a node over its life, as a list of events: an outcome is recorded, or a caller
  asks to be let through (\<^const>\<open>tryTransitionToHalfOpen\<close>).  The abstract breaker of the next
  section is a function of that history alone.
\<close>

datatype node_event = ESuccess int | EFailure int int | EBizError | EProbe int

fun node_step :: "('a, 's, 'l) node \<Rightarrow> node_event \<Rightarrow> ('a, 's, 'l) node" where
  "node_step n (ESuccess lat) = RecordSuccess lat n"
| "node_step n (EFailure lat now) = RecordFailure lat now n"
| "node_step n EBizError = RecordBizError n"
| "node_step n (EProbe now) = snd (tryTransitionToHalfOpen now n)"

definition node_run :: "('a, 's, 'l) node \<Rightarrow> node_event list \<Rightarrow> ('a, 's, 'l) node" where
  "node_run n es = foldl node_step n es"

lemma node_run_simps [simp]:
  "node_run n [] = n"
  "node_run n (es @ [e]) = node_step (node_run n es) e"
  by (simp_all add: node_run_def)

lemma node_run_Cons [simp]: "node_run n (e # es) = node_run (node_step n e) es"
  by (simp add: node_run_def)

lemmas node_op_defs =
  RecordSuccess_def RecordFailure_def RecordBizError_def tryTransitionToHalfOpen_def Let_def

lemma node_step_frame [simp]:
  "opts (node_step n e) = opts n" "config (node_step n e) = config n"
  "concSem (node_step n e) = concSem n"
  by (cases e; auto simp: node_op_defs split: circuitState.split)+

lemma node_run_frame [simp]: "opts (node_run n es) = opts n" "config (node_run n es) = config n"
  by (induction es arbitrary: n) simp_all

section \<open>The breaker as a function of the history\<close>

text \<open>
  Histories are read newest event first.  \<open>trailing_failures\<close> counts the failures since the
  last success.  \<open>tripped\<close> is the instant since which the circuit is open: a failure trips it
  when it completes a run of at least \<open>thr\<close> failures, a success or a caller that comes
  \<open>wait\<close> later resets it.
\<close>

fun trailing_failures :: "node_event list \<Rightarrow> int" where
  "trailing_failures [] = 0"
| "trailing_failures (EFailure lat now # es) = trailing_failures es + 1"
| "trailing_failures (ESuccess lat # es) = 0"
| "trailing_failures (EBizError # es) = trailing_failures es"
| "trailing_failures (EProbe now # es) = trailing_failures es"

fun tripped :: "int \<Rightarrow> int \<Rightarrow> node_event list \<Rightarrow> int option" where
  "tripped thr wait [] = None"
| "tripped thr wait (EFailure lat now # es) =
     (if thr \<le> trailing_failures es + 1 then Some now else tripped thr wait es)"
| "tripped thr wait (ESuccess lat # es) = None"
| "tripped thr wait (EBizError # es) = tripped thr wait es"
| "tripped thr wait (EProbe now # es) =
     (case tripped thr wait es of
        None \<Rightarrow> None
      | Some t \<Rightarrow> if wait \<le> now - t then None else Some t)"

definition open_since :: "('a, 's, 'l) node \<Rightarrow> int option" where
  "open_since n = (if state n = circuitOpen then Some (openedAt n) else None)"

lemma consecutiveFail_history:
  "consecutiveFail n = 0 \<Longrightarrow> consecutiveFail (node_run n (rev es)) = trailing_failures es"
proof (induction es)
  case (Cons e es)
  then show ?case by (cases e) (simp_all add: node_op_defs split: circuitState.split)
qed simp

lemma open_since_step:
  assumes "consecutiveFail m = trailing_failures es"
    and "open_since m = tripped (FailureThreshold (opts m)) (CircuitOpenTime (opts m)) es"
  shows "open_since (node_step m e) =
    tripped (FailureThreshold (opts m)) (CircuitOpenTime (opts m)) (e # es)"
proof (cases e)
  case (EProbe now)
  show ?thesis
  proof (cases "state m = circuitOpen")
    case True
    with assms(2) have "tripped (FailureThreshold (opts m)) (CircuitOpenTime (opts m)) es
        = Some (openedAt m)"
      by (simp add: open_since_def)
    with True EProbe show ?thesis by (simp add: node_op_defs open_since_def)
  next
    case False
    with assms(2) have "tripped (FailureThreshold (opts m)) (CircuitOpenTime (opts m)) es = None"
      by (simp add: open_since_def)
    with False EProbe show ?thesis by (simp add: node_op_defs open_since_def)
  qed
qed (use assms in \<open>auto simp: node_op_defs open_since_def split: circuitState.split\<close>)

lemma open_since_history:
  assumes "consecutiveFail n = 0" "state n = circuitClosed"
  shows "open_since (node_run n (rev es)) =
    tripped (FailureThreshold (opts n)) (CircuitOpenTime (opts n)) es"
proof (induction es)
  case Nil
  show ?case using assms by (simp add: open_since_def)
next
  case (Cons e es)
  let ?m = "node_run n (rev es)"
  have "opts ?m = opts n" by simp
  with open_since_step [of ?m es e] consecutiveFail_history [OF assms(1), of es] Cons.IH
  show ?case by simp
qed

section \<open>Invariant\<close>

text \<open>
  The counters are consistent, at most one of the two streaks is running, and an open circuit has
  seen its threshold of consecutive failures.
\<close>

definition node_inv :: "('a, 's, 'l) node \<Rightarrow> bool" where
  "node_inv n \<longleftrightarrow>
     0 \<le> successCount n \<and> 0 \<le> failCount n \<and> successCount n + failCount n \<le> totalRequests n \<and>
     0 \<le> consecutiveFail n \<and> consecutiveFail n \<le> failCount n \<and>
     0 \<le> consecutiveSucc n \<and> consecutiveSucc n \<le> successCount n \<and>
     (consecutiveFail n = 0 \<or> consecutiveSucc n = 0) \<and>
     (state n = circuitOpen \<longrightarrow> FailureThreshold (opts n) \<le> consecutiveFail n \<and> score n = Fin (- 1))"

lemma newNode_inv [go_inv]: "node_inv (newNode lib cfg o1)"
  by (simp add: node_inv_def)

lemma recalcScore_open: "state n = circuitOpen \<Longrightarrow> score (recalcScore n) = Fin (- 1)"
  by (simp add: recalcScore_def Let_def)

lemma node_step_inv [go_inv]: "node_inv n \<Longrightarrow> node_inv (node_step n e)"
proof (cases e)
  case (EFailure lat now)
  assume "node_inv n"
  with EFailure show ?thesis
    by (auto simp: node_inv_def node_op_defs recalcScore_open)
qed (auto simp: node_inv_def node_op_defs split: circuitState.split)

lemma node_run_inv [go_inv]: "node_inv n \<Longrightarrow> node_inv (node_run n es)"
  by (induction es arbitrary: n) (simp_all add: node_step_inv)

section \<open>Recovery\<close>

lemma half_open_successes:
  assumes "state n = circuitHalfOpen" "consecutiveSucc n < SuccessThreshold (opts n)"
  shows "state (node_run n (replicate k (ESuccess lat))) =
    (if SuccessThreshold (opts n) \<le> consecutiveSucc n + int k then circuitClosed
     else circuitHalfOpen)"
  using assms
proof (induction k arbitrary: n)
  case 0
  then show ?case by simp
next
  case (Suc k)
  let ?m = "RecordSuccess lat n"
  have closed_stays: "state m = circuitClosed \<Longrightarrow>
      state (node_run m (replicate j (ESuccess lat))) = circuitClosed" for m :: "('a, 'b, 'c) node" and j
    by (induction j arbitrary: m) (simp_all add: RecordSuccess_def Let_def)
  show ?case
  proof (cases "SuccessThreshold (opts n) \<le> consecutiveSucc n + 1")
    case True
    with Suc.prems have "state ?m = circuitClosed" by (simp add: RecordSuccess_def Let_def)
    with closed_stays [of ?m k] True show ?thesis by simp
  next
    case False
    with Suc.prems have m: "state ?m = circuitHalfOpen" "consecutiveSucc ?m = consecutiveSucc n + 1"
      "opts ?m = opts n"
      by (simp_all add: RecordSuccess_def Let_def)
    with False Suc.IH [of ?m] show ?thesis by (simp add: algebra_simps)
  qed
qed

section \<open>Throttle slots\<close>

text \<open>
  The documented contract of \<^verbatim>\<open>semaphore.Weighted\<close> for weight one: \<open>held\<close> slots are taken out
  of \<open>cap\<close>; \<^verbatim>\<open>TryAcquire\<close> takes one exactly when one is free, \<^verbatim>\<open>Acquire\<close> takes one or fails and
  takes none, \<^verbatim>\<open>Release\<close> gives a taken one back.
\<close>

definition sem_contract :: "('s, 'l) throttle_lib \<Rightarrow> ('s \<Rightarrow> int) \<Rightarrow> ('s \<Rightarrow> int) \<Rightarrow> bool" where
  "sem_contract lib held cap \<longleftrightarrow>
     (\<forall>n. held (NewWeighted lib n) = 0 \<and> cap (NewWeighted lib n) = n) \<and>
     (\<forall>s. fst (sem_TryAcquire lib s) = (held s < cap s) \<and>
          cap (snd (sem_TryAcquire lib s)) = cap s \<and>
          held (snd (sem_TryAcquire lib s)) = (if held s < cap s then held s + 1 else held s)) \<and>
     (\<forall>c i s. cap (snd (sem_Acquire lib c i s)) = cap s \<and>
          held (snd (sem_Acquire lib c i s)) =
            (if fst (sem_Acquire lib c i s) = None then held s + 1 else held s)) \<and>
     (\<forall>s. cap (sem_Release lib s) = cap s \<and>
          held (sem_Release lib s) = (if 0 < held s then held s - 1 else held s))"

text \<open>Slots a node has handed out; a node without a semaphore hands out none.\<close>

definition slots :: "('s \<Rightarrow> int) \<Rightarrow> ('a, 's, 'l) node \<Rightarrow> int" where
  "slots held n = (case concSem n of None \<Rightarrow> 0 | Some s \<Rightarrow> held s)"

definition has_sem :: "('a, 's, 'l) node \<Rightarrow> int" where
  "has_sem n = (case concSem n of None \<Rightarrow> 0 | Some _ \<Rightarrow> 1)"

lemma sem_contractD:
  assumes "sem_contract lib held cap"
  shows "sem_TryAcquire lib s = (ok, s') \<Longrightarrow> held s' = (if ok then held s + 1 else held s)"
    and "sem_Acquire lib c i s = (e, s') \<Longrightarrow> held s' = (if e = None then held s + 1 else held s)"
    and "held (sem_Release lib s) = (if 0 < held s then held s - 1 else held s)"
proof -
  note k = assms [unfolded sem_contract_def]
  show "sem_TryAcquire lib s = (ok, s') \<Longrightarrow> held s' = (if ok then held s + 1 else held s)"
    using k by (metis fst_conv snd_conv)
  show "sem_Acquire lib c i s = (e, s') \<Longrightarrow> held s' = (if e = None then held s + 1 else held s)"
    using k by (metis fst_conv snd_conv)
  show "held (sem_Release lib s) = (if 0 < held s then held s - 1 else held s)"
    using k by blast
qed

lemma slots_cong: "concSem m = concSem n \<Longrightarrow> slots held m = slots held n"
  by (simp add: slots_def)

lemma has_sem_cong: "concSem m = concSem n \<Longrightarrow> has_sem m = has_sem n"
  by (simp add: has_sem_def)

lemma pass_concSem:
  "pass_rate lib now n = (ok, n') \<Longrightarrow> concSem n' = concSem n"
  "pass_minute lib now n = (ok, n') \<Longrightarrow> concSem n' = concSem n"
  "wait_rate lib c i n = (e, n') \<Longrightarrow> concSem n' = concSem n"
  "wait_minute lib c i n = (e, n') \<Longrightarrow> concSem n' = concSem n"
  by (auto simp: pass_rate_def pass_minute_def wait_rate_def wait_minute_def
      split: option.splits prod.splits)

lemma pass_sem_slots:
  assumes "sem_contract lib held cap" "pass_sem lib n = (ok, n')"
  shows "slots held n' = (if ok then slots held n + has_sem n else slots held n)"
    and "has_sem n' = has_sem n"
  using assms(2) sem_contractD(1) [OF assms(1)]
  by (auto simp: pass_sem_def slots_def has_sem_def split: option.splits prod.splits)

lemma wait_sem_slots:
  assumes "sem_contract lib held cap" "wait_sem lib c i n = (e, n')"
  shows "slots held n' = (if e = None then slots held n + has_sem n else slots held n)"
    and "has_sem n' = has_sem n"
  using assms(2) sem_contractD(2) [OF assms(1)]
  by (auto simp: wait_sem_def slots_def has_sem_def split: option.splits prod.splits)

lemma Release_slots:
  assumes "sem_contract lib held cap"
  shows "slots held (Release lib n) =
      (if 0 < slots held n then slots held n - has_sem n else slots held n)"
    and "has_sem (Release lib n) = has_sem n"
  using sem_contractD(3) [OF assms]
  by (auto simp: Release_def slots_def has_sem_def split: option.splits)

text \<open>Giving back the slot a passed semaphore step took restores the count.\<close>

lemma Release_after_pass:
  assumes "sem_contract lib held cap" "0 \<le> slots held n"
    and "slots held m = slots held n + has_sem n" "has_sem m = has_sem n"
  shows "slots held (Release lib m) = slots held n"
proof (cases "concSem n")
  case None
  with assms have "has_sem n = 0" "concSem m = None" by (auto simp: has_sem_def split: option.splits)
  with assms(3) show ?thesis by (simp add: Release_def)
next
  case (Some s)
  then have "has_sem n = 1" by (simp add: has_sem_def)
  with assms show ?thesis by (simp add: Release_slots(1) [OF assms(1)])
qed

lemma TryAcquire_slots:
  fixes n :: "('a, 's, 'l) node"
  assumes c: "sem_contract lib held cap" and p: "0 \<le> slots held n"
    and t: "TryAcquire lib now n = (ok, n')"
  shows "slots held n' = (if ok then slots held n + has_sem n else slots held n)"
    and "has_sem n' = has_sem n"
proof -
  obtain ok1 n1 where 1: "pass_sem lib n = (ok1, n1)" by (cases "pass_sem lib n")
  obtain ok2 n2 where 2: "pass_rate lib now n1 = (ok2, n2)" by (cases "pass_rate lib now n1")
  obtain ok3 n3 where 3: "pass_minute lib now n2 = (ok3, n3)" by (cases "pass_minute lib now n2")
  note s1 = pass_sem_slots [OF c 1]
  have c2: "concSem n2 = concSem n1" and c3: "concSem n3 = concSem n1"
    using pass_concSem(1) [OF 2] pass_concSem(2) [OF 3] by auto
  note eqs = slots_cong [OF c2] slots_cong [OF c3] has_sem_cong [OF c2] has_sem_cong [OF c3]
  have rel: "slots held (Release lib m) = slots held n" "has_sem (Release lib m) = has_sem n"
    if "concSem m = concSem n1" ok1 for m :: "('a, 's, 'l) node"
    using Release_after_pass [OF c p, of m] s1 that slots_cong [OF that(1)] has_sem_cong [OF that(1)]
      Release_slots(2) [OF c, of m]
    by auto
  show "slots held n' = (if ok then slots held n + has_sem n else slots held n)"
    and "has_sem n' = has_sem n"
    using t s1 rel [OF c2] rel [OF c3] eqs
    by (auto simp: TryAcquire_def 1 2 3 has_sem_def split: if_splits)
qed

lemma Acquire_slots:
  fixes n :: "('a, 's, 'l) node"
  assumes c: "sem_contract lib held cap" and p: "0 \<le> slots held n"
    and t: "Acquire lib cx i n = (e, n')"
  shows "slots held n' = (if e = None then slots held n + has_sem n else slots held n)"
    and "has_sem n' = has_sem n"
proof -
  obtain e1 n1 where 1: "wait_sem lib cx i n = (e1, n1)" by (cases "wait_sem lib cx i n")
  obtain e2 n2 where 2: "wait_rate lib cx i n1 = (e2, n2)" by (cases "wait_rate lib cx i n1")
  obtain e3 n3 where 3: "wait_minute lib cx i n2 = (e3, n3)" by (cases "wait_minute lib cx i n2")
  note s1 = wait_sem_slots [OF c 1]
  have c2: "concSem n2 = concSem n1" and c3: "concSem n3 = concSem n1"
    using pass_concSem(3) [OF 2] pass_concSem(4) [OF 3] by auto
  note eqs = slots_cong [OF c2] slots_cong [OF c3] has_sem_cong [OF c2] has_sem_cong [OF c3]
  have rel: "slots held (Release lib m) = slots held n" "has_sem (Release lib m) = has_sem n"
    if "concSem m = concSem n1" "e1 = None" for m :: "('a, 's, 'l) node"
    using Release_after_pass [OF c p, of m] s1 that slots_cong [OF that(1)] has_sem_cong [OF that(1)]
      Release_slots(2) [OF c, of m]
    by auto
  show "slots held n' = (if e = None then slots held n + has_sem n else slots held n)"
    and "has_sem n' = has_sem n"
    using t s1 rel [OF c2] rel [OF c3] eqs
    by (auto simp: Acquire_def 1 2 3 has_sem_def split: if_splits)
qed

section \<open>Scores and latencies stay in range\<close>

lemma successRate_between:
  assumes "node_inv n" "totalRequests n < 2 ^ 53"
  obtains r where "(if totalRequests n > 0
      then f_div (f_of_int (successCount n)) (f_of_int (totalRequests n)) else Fin 0) = Fin r"
    "0 \<le> r" "r \<le> 1"
proof (cases "totalRequests n > 0")
  case True
  have c: "0 \<le> successCount n" "successCount n \<le> totalRequests n"
    using assms(1) by (auto simp: node_inv_def)
  let ?x = "of_int (successCount n) / of_int (totalRequests n) :: rat"
  have "of_int 0 \<le> ?x" "?x \<le> of_int 1" using c True by simp_all
  then obtain r where "f_round ?x = Fin r" "of_int 0 \<le> r" "r \<le> of_int 1"
    by (rule f_round_between) simp_all
  with True c assms(2) show thesis
    by (intro that [of r]) (simp_all add: f_of_int_small)
qed (use that in simp)

lemma latencyPenalty_between:
  assumes "avgLatency n < 2 ^ 53"
  obtains p where "(if avgLatency n > 0 then
      (if f_less (Fin 10) (f_div (f_of_int Second) (f_of_int (avgLatency n))) then Fin 10
       else f_div (f_of_int Second) (f_of_int (avgLatency n))) else Fin 0) = Fin p"
    "0 \<le> p" "p \<le> 10"
proof (cases "avgLatency n > 0")
  case True
  let ?x = "of_int Second / of_int (avgLatency n) :: rat"
  have a: "(1::rat) \<le> of_int (avgLatency n)" using True by (metis of_int_1_le_iff zless_imp_add1_zle add_0)
  have "of_int 0 \<le> ?x" "?x \<le> of_int Second"
    using a by (simp_all add: Second_def divide_le_eq)
  then obtain p where p: "f_round ?x = Fin p" "of_int 0 \<le> p"
    by (rule f_round_between) (simp_all add: Second_def)
  have d: "f_div (f_of_int Second) (f_of_int (avgLatency n)) = Fin p"
    using True assms p by (simp add: f_of_int_small Second_def)
  show thesis
    by (rule that [of "if 10 < p then 10 else p"]) (use True d p in auto)
qed (use that in simp)

lemma recalcScore_between:
  assumes inv: "node_inv n" and lat: "avgLatency n < 2 ^ 53" and tot: "totalRequests n < 2 ^ 53"
    and wt: "\<bar>Weight (config n)\<bar> < 2 ^ 52"
  shows "\<exists>s. score (recalcScore n) = Fin s \<and>
    - of_int (consecutiveFail n) - 1 \<le> s \<and> s \<le> of_int (max 1 (Weight (config n))) + 10"
proof -
  let ?W = "max 1 (Weight (config n))" and ?c = "consecutiveFail n"
  have c: "0 \<le> ?c" "?c < 2 ^ 53" using inv tot by (auto simp: node_inv_def)
  have w: "(if f_le (f_of_int (Weight (config n))) (Fin 0) then Fin 1
      else f_of_int (Weight (config n))) = Fin (of_int ?W)"
    using wt by (auto simp: f_of_int_small f_le_def max_def)
  obtain r where r: "(if totalRequests n > 0
      then f_div (f_of_int (successCount n)) (f_of_int (totalRequests n)) else Fin 0) = Fin r"
    "0 \<le> r" "r \<le> 1" using successRate_between [OF inv tot] .
  obtain p where p: "(if avgLatency n > 0 then
      (if f_less (Fin 10) (f_div (f_of_int Second) (f_of_int (avgLatency n))) then Fin 10
       else f_div (f_of_int Second) (f_of_int (avgLatency n))) else Fin 0) = Fin p"
    "0 \<le> p" "p \<le> 10" using latencyPenalty_between [OF lat] .
  have W: "(0::rat) \<le> of_int ?W" "?W < 2 ^ 52" "1 \<le> ?W" using wt by auto
  have "of_int 0 \<le> of_int ?W * r" "of_int ?W * r \<le> of_int ?W"
    using W r mult_left_mono [of r 1 "of_int ?W :: rat"] by simp_all
  then obtain a where a: "f_round (of_int ?W * r) = Fin a" "of_int 0 \<le> a" "a \<le> of_int ?W"
    by (rule f_round_between) (use W in auto)
  have "of_int 0 \<le> a + p" "a + p \<le> of_int (?W + 10)" using a p by simp_all
  then obtain b where b: "f_round (a + p) = Fin b" "of_int 0 \<le> b" "b \<le> of_int (?W + 10)"
    by (rule f_round_between) (use W in auto)
  have "of_int 0 \<le> of_int ?c * (1 / 2 :: rat)" "of_int ?c * (1 / 2 :: rat) \<le> of_int ?c"
    using c by simp_all
  then obtain f where f: "f_round (of_int ?c * (1 / 2)) = Fin f" "of_int 0 \<le> f" "f \<le> of_int ?c"
    by (rule f_round_between) (use c in auto)
  have "of_int (- ?c) \<le> b - f" "b - f \<le> of_int (?W + 10)" using b f by simp_all
  then obtain s where s: "f_round (b - f) = Fin s" "of_int (- ?c) \<le> s" "s \<le> of_int (?W + 10)"
    by (rule f_round_between) (use W c in auto)
  have "score (recalcScore n) = (if state n = circuitOpen then Fin (- 1) else Fin s)"
    by (simp only: recalcScore_def Let_def w r p node.simps node.surjective)
       (use c in \<open>simp add: a b f(1) [simplified] s f_sub_def f_of_int_small\<close>)
  moreover have "(0::rat) \<le> of_int ?c" "(0::rat) \<le> of_int ?W + 10" using c W by simp_all
  ultimately show ?thesis using s by (cases "state n = circuitOpen") auto
qed

lemma updateLatency_between:
  assumes "0 \<le> avgLatency n" "0 \<le> d" "avgLatency n + d < 2 ^ 53"
    and "f_less (Fin 0) (EWMAAlpha (opts n))" "f_le (EWMAAlpha (opts n)) (Fin 1)"
  shows "0 \<le> avgLatency (updateLatency d n) \<and> avgLatency (updateLatency d n) \<le> avgLatency n + d"
proof (cases "avgLatency n = 0")
  case True
  with assms show ?thesis by (simp add: updateLatency_def)
next
  case False
  obtain al where al: "EWMAAlpha (opts n) = Fin al" "0 < al" "al \<le> 1"
    using assms(4,5) by (cases "EWMAAlpha (opts n)") (auto simp: f_le_def)
  let ?a = "avgLatency n"
  have "of_int 0 \<le> 1 - al" "1 - al \<le> of_int 1" using al by simp_all
  then obtain be where be: "f_round (1 - al) = Fin be" "of_int 0 \<le> be" "be \<le> of_int 1"
    by (rule f_round_between) simp_all
  have "of_int 0 \<le> of_int ?a * be" "of_int ?a * be \<le> of_int ?a"
    using assms(1) be mult_left_mono [of be 1 "of_int ?a"] by simp_all
  then obtain x where x: "f_round (of_int ?a * be) = Fin x" "of_int 0 \<le> x" "x \<le> of_int ?a"
    by (rule f_round_between) (use assms in auto)
  have "of_int 0 \<le> of_int d * al" "of_int d * al \<le> of_int d"
    using assms(2) al mult_left_mono [of al 1 "of_int d"] by simp_all
  then obtain y where y: "f_round (of_int d * al) = Fin y" "of_int 0 \<le> y" "y \<le> of_int d"
    by (rule f_round_between) (use assms in auto)
  have "of_int 0 \<le> x + y" "x + y \<le> of_int (?a + d)" using x y by simp_all
  then obtain z where z: "f_round (x + y) = Fin z" "of_int 0 \<le> z" "z \<le> of_int (?a + d)"
    by (rule f_round_between) (use assms in auto)
  have "avgLatency (updateLatency d n) = f_to_int64 (Fin z)"
    using False assms al be x y z
    by (simp add: updateLatency_def Let_def f_of_int_small f_sub_def del: f_to_int64.simps)
  with f_to_int64_between [OF z(2,3)] assms(3) show ?thesis by simp
qed

section \<open>Properties\<close>

text \<open>A concrete node for the witnesses: a counting semaphore, no token buckets.\<close>

definition demo_lib :: "(int \<times> int, unit) throttle_lib" where
  "demo_lib = \<lparr>
     NewWeighted = (\<lambda>n. (0, n)),
     sem_TryAcquire = (\<lambda>(h, c). if h < c then (True, (h + 1, c)) else (False, (h, c))),
     sem_Acquire = (\<lambda>cx i (h, c). if h < c then (None, (h + 1, c)) else (Some DeadlineExceeded, (h, c))),
     sem_Release = (\<lambda>(h, c). if 0 < h then (h - 1, c) else (h, c)),
     NewLimiter = (\<lambda>_ _. ()),
     lim_Allow = (\<lambda>_ _. (True, ())),
     lim_Wait = (\<lambda>_ _ _. (None, ())) \<rparr>"

definition demo_cfg :: "string \<Rightarrow> unit NodeConfig" where
  "demo_cfg e = \<lparr>Endpoint = e, Weight = 2, Meta = Map.empty, Classifier = None,
     RateLimit = Some \<lparr>MaxConcurrent = 1, PerSecond = Fin 0, PerMinute = Fin 0, Burst = 0\<rparr>\<rparr>"

definition demo_node :: "(unit, int \<times> int, unit) node" where
  "demo_node = newNode demo_lib (demo_cfg ''a'') defaultOptions"

text \<open>
  C3. The circuit breaker is a function of the node's history: after any sequence of recorded
  outcomes and admission checks a fresh node's circuit is open, and since when, exactly as the
  history says; it opens with the failure that completes \<^verbatim>\<open>FailureThreshold\<close> consecutive ones and
  closes to half-open on a success or on an admission check \<^verbatim>\<open>CircuitOpenTime\<close> later.
\<close>

theorem breaker_history:
  "open_since (node_run (newNode lib cfg o1) es) =
   tripped (FailureThreshold o1) (CircuitOpenTime o1) (rev es)"
  using open_since_history [of "newNode lib cfg o1" "rev es"] by simp

text \<open>
  Recovery: an open circuit that has waited \<^verbatim>\<open>CircuitOpenTime\<close> lets a request through as
  half-open, stays half-open for fewer than \<^verbatim>\<open>SuccessThreshold\<close> successes and is closed by the
  successes that reach it.
\<close>

theorem breaker_recovers:
  assumes "state n = circuitOpen" "CircuitOpenTime (opts n) \<le> now - openedAt n"
    and "0 < SuccessThreshold (opts n)"
  shows "state (node_run n (EProbe now # replicate k (ESuccess lat))) =
    (if SuccessThreshold (opts n) \<le> int k then circuitClosed else circuitHalfOpen)"
proof -
  let ?m = "node_step n (EProbe now)"
  have "state ?m = circuitHalfOpen" "consecutiveSucc ?m = 0"
    using assms by (simp_all add: tryTransitionToHalfOpen_def)
  with half_open_successes [of ?m k lat] assms(3) show ?thesis by simp
qed

theorem breaker_recovers_witness:
  "state (node_run (demo_node\<lparr>state := circuitOpen, openedAt := 0\<rparr>)
     (EProbe (11 * Second) # replicate 3 (ESuccess 5))) = circuitClosed"
  using breaker_recovers [of "demo_node\<lparr>state := circuitOpen, openedAt := 0\<rparr>" "11 * Second" 3 5]
  by (simp add: demo_node_def defaultOptions_def Second_def)

text \<open>
  A half-open circuit that was let through by the waiting time and fails once more opens again
  at once, at the instant of that failure: the failure streak is not forgotten by half-opening.
\<close>

theorem probe_failure_reopens:
  assumes "node_inv n" "state n = circuitOpen"
  shows "state (node_run n [EProbe now, EFailure lat t]) = circuitOpen \<and>
    openedAt (node_run n [EProbe now, EFailure lat t]) = t \<and>
    (IsAvailable t' (node_run n [EProbe now, EFailure lat t]) \<longleftrightarrow>
      CircuitOpenTime (opts n) \<le> t' - t)"
  using assms by (auto simp: node_inv_def node_op_defs IsAvailable_def split: circuitState.split)

theorem probe_failure_reopens_witness:
  "openedAt (node_run (demo_node\<lparr>state := circuitOpen, openedAt := 0, consecutiveFail := 5,
     failCount := 5, totalRequests := 5, score := Fin (- 1)\<rparr>) [EProbe 20, EFailure 1 30]) = 30"
  using probe_failure_reopens [of "demo_node\<lparr>state := circuitOpen, openedAt := 0,
      consecutiveFail := 5, failCount := 5, totalRequests := 5, score := Fin (- 1)\<rparr>" 20 1 30 0]
  by (simp add: node_inv_def demo_node_def defaultOptions_def)

text \<open>
  C36. The score is a finite float between minus the failure streak less one and weight plus ten,
  for weights and counters below the integer precision of \<^verbatim>\<open>float64\<close>; no infinity and no NaN can
  reach the sort of the nodes.
\<close>

theorem score_in_range:
  assumes "node_inv n" "avgLatency n < 2 ^ 53" "totalRequests n < 2 ^ 53"
    and "\<bar>Weight (config n)\<bar> < 2 ^ 52"
  shows "\<exists>s. score (recalcScore n) = Fin s \<and>
    - of_int (consecutiveFail n) - 1 \<le> s \<and> s \<le> of_int (max 1 (Weight (config n))) + 10"
  using assms by (rule recalcScore_between)

theorem score_in_range_witness:
  "\<exists>s. score (recalcScore demo_node) = Fin s \<and> - 1 \<le> s \<and> s \<le> 12"
  using score_in_range [of demo_node]
  by (simp add: demo_node_def newNode_inv demo_cfg_def)

text \<open>
  The latency average stays between zero and the sum of the previous average and the sample,
  for every smoothing factor the options admit.
\<close>

theorem latency_in_range:
  assumes "valid_options (opts n)" "0 \<le> avgLatency n" "0 \<le> d" "avgLatency n + d < 2 ^ 53"
  shows "0 \<le> avgLatency (updateLatency d n) \<and> avgLatency (updateLatency d n) \<le> avgLatency n + d"
  using assms by (intro updateLatency_between) (simp_all add: valid_options_def)

theorem latency_in_range_witness:
  "avgLatency (updateLatency 2000 (demo_node\<lparr>avgLatency := 1000\<rparr>)) \<le> 3000"
  using latency_in_range [of "demo_node\<lparr>avgLatency := 1000\<rparr>" 2000] valid_defaultOptions
  by (simp add: demo_node_def)

text \<open>
  Business errors do reach the score, although the comment on \<^verbatim>\<open>RecordBizError\<close> says they have
  no impact on node health: they count in the requests the success rate is taken over.  A node of
  weight two scores 2 after one success, but 1 when a business error came before that success.
\<close>

theorem biz_error_counts_in_score:
  "score (node_run (newNode lib (cfg\<lparr>Weight := 2\<rparr>) o1) [ESuccess 0]) = Fin 2 \<and>
   score (node_run (newNode lib (cfg\<lparr>Weight := 2\<rparr>) o1) [EBizError, ESuccess 0]) = Fin 1"
  by (simp add: node_run_def RecordSuccess_def RecordBizError_def updateLatency_def recalcScore_def
      Let_def f_of_int_small f_round_Fin [of _ 2] fl_half fl_int [of 1, simplified]
      fl_int [of 2, simplified] f_sub_def f_le_def)

end
