(* ===== verification/Nodepool_Strategy.thy ===== *)
theory Nodepool_Strategy
  imports Nodepool_Node "HOL-Library.Multiset"
begin

text \<open>
  \<^verbatim>\<open>provider/nodepool/strategy.go\<close>: how a request is dispatched over the nodes.  A strategy sees a
  node only through the methods it calls and the \<^verbatim>\<open>do\<close> callback, so it is modelled over a record
  of those operations on an arbitrary world \<open>'w\<close>: an operation may change the world in any way,
  which covers the clock, the network and whatever other goroutines do between two calls.

  The contracts of the callers are locales: \<open>node_slots\<close> (throttle slots are taken and given
  back) and \<open>do_counter\<close> (calls of \<^verbatim>\<open>do\<close> are counted).
\<close>

section \<open>The interface a strategy uses\<close>

type_synonym 'r outcome = "'r option \<times> NodeStatus \<times> goerr option"

record ('n, 'w, 'q, 'r) node_ops =
  op_IsAvailable :: "'n \<Rightarrow> 'w \<Rightarrow> bool \<times> 'w"
  op_TryAcquire :: "'n \<Rightarrow> 'w \<Rightarrow> bool \<times> 'w"
  op_Acquire :: "'n \<Rightarrow> 'w \<Rightarrow> goerr option \<times> 'w"
  op_Release :: "'n \<Rightarrow> 'w \<Rightarrow> 'w"
  op_CtxErr :: "'w \<Rightarrow> goerr option \<times> 'w"
  op_do :: "'n \<Rightarrow> 'q \<Rightarrow> 'w \<Rightarrow> 'r outcome \<times> 'w"

section \<open>The conservative strategy\<close>

record conservativeStrategy =
  maxRetries :: int
  cs_waitOnThrottle :: bool

definition newConservativeStrategy :: "int \<Rightarrow> bool \<Rightarrow> conservativeStrategy" where
  "newConservativeStrategy mr wait =
     \<lparr>maxRetries = (if mr \<le> 0 then 1 else mr), cs_waitOnThrottle = wait\<rparr>"

text \<open>
  One pass over the nodes.  The first component is \<open>Some\<close> of the outcome when the pass returns
  from \<^verbatim>\<open>Execute\<close>; otherwise \<^verbatim>\<open>anyAttempted\<close>, \<^verbatim>\<open>throttledNodes\<close> and \<^verbatim>\<open>lastErr\<close> carry on.
\<close>

fun cons_round ::
    "('n, 'w, 'q, 'r) node_ops \<Rightarrow> 'q \<Rightarrow> 'n list \<Rightarrow> bool \<Rightarrow> 'n list \<Rightarrow> goerr option \<Rightarrow> 'w
     \<Rightarrow> ('r outcome option \<times> bool \<times> 'n list \<times> goerr option) \<times> 'w" where
  "cons_round ops req [] anyAttempted throttled lastErr w =
     ((None, anyAttempted, throttled, lastErr), w)"
| "cons_round ops req (node # nodes) anyAttempted throttled lastErr w =
     (case op_IsAvailable ops node w of (av, w1) \<Rightarrow>
        if \<not> av then cons_round ops req nodes anyAttempted throttled lastErr w1
        else case op_TryAcquire ops node w1 of (ok, w2) \<Rightarrow>
          if \<not> ok then cons_round ops req nodes anyAttempted (throttled @ [node]) lastErr w2
          else case op_do ops node req w2 of ((resp, status, err), w3) \<Rightarrow>
            (let w4 = op_Release ops node w3
             in case status of
                  NodeStatusSuccess \<Rightarrow> ((Some (resp, status, None), True, throttled, lastErr), w4)
                | NodeStatusBizError \<Rightarrow> ((Some (resp, status, err), True, throttled, lastErr), w4)
                | NodeStatusFail \<Rightarrow> cons_round ops req nodes True throttled err w4
                | NodeStatusOther _ \<Rightarrow> cons_round ops req nodes True throttled lastErr w4))"

text \<open>The rounds; the number is how many are left.\<close>

fun cons_loop ::
    "('n, 'w, 'q, 'r) node_ops \<Rightarrow> bool \<Rightarrow> 'q \<Rightarrow> 'n list \<Rightarrow> nat \<Rightarrow> goerr option \<Rightarrow> 'w
     \<Rightarrow> 'r outcome \<times> 'w" where
  "cons_loop ops wait req nodes 0 lastErr w =
     ((None, NodeStatusFail,
       Some (ErrWrapf ''nodepool: exhausted retries: ''
         (case lastErr of None \<Rightarrow> ErrNew ''nodepool: all attempts failed'' | Some e \<Rightarrow> e))), w)"
| "cons_loop ops wait req nodes (Suc k) lastErr w =
     (case op_CtxErr ops w of
        (Some e, w1) \<Rightarrow> ((None, NodeStatusFail, Some e), w1)
      | (None, w1) \<Rightarrow>
          (case cons_round ops req nodes False [] lastErr w1 of
             ((Some out, _, _, _), w2) \<Rightarrow> (out, w2)
           | ((None, anyAttempted, throttled, lastErr2), w2) \<Rightarrow>
               if \<not> anyAttempted \<and> throttled \<noteq> [] then
                 if wait then
                   (let bestNode = hd throttled
                    in case op_Acquire ops bestNode w2 of
                         (Some e, w3) \<Rightarrow> cons_loop ops wait req nodes k (Some e) w3
                       | (None, w3) \<Rightarrow>
                           (case op_do ops bestNode req w3 of ((resp, status, err), w4) \<Rightarrow>
                              (let w5 = op_Release ops bestNode w4
                               in case status of
                                    NodeStatusSuccess \<Rightarrow> ((resp, status, None), w5)
                                  | NodeStatusBizError \<Rightarrow> ((resp, status, err), w5)
                                  | NodeStatusFail \<Rightarrow> cons_loop ops wait req nodes k err w5
                                  | NodeStatusOther _ \<Rightarrow>
                                      cons_loop ops wait req nodes k lastErr2 w5)))
                 else cons_loop ops wait req nodes k
                        (if lastErr2 = None then Some ErrAllThrottled else lastErr2) w2
               else cons_loop ops wait req nodes k lastErr2 w2))"

definition conservative_Execute ::
    "('n, 'w, 'q, 'r) node_ops \<Rightarrow> conservativeStrategy \<Rightarrow> 'n list \<Rightarrow> 'q \<Rightarrow> 'w
     \<Rightarrow> 'r outcome \<times> 'w" where
  "conservative_Execute ops s nodes req w =
     (if nodes = [] then ((None, NodeStatusFail, Some (ErrNew ''nodepool: no available nodes'')), w)
      else cons_loop ops (cs_waitOnThrottle s) req nodes (nat (maxRetries s + 1)) None w)"

section \<open>The race strategy\<close>

record raceStrategy =
  concurrency :: int
  rs_waitOnThrottle :: bool

definition newRaceStrategy :: "int \<Rightarrow> bool \<Rightarrow> raceStrategy" where
  "newRaceStrategy conc wait = \<lparr>concurrency = conc, rs_waitOnThrottle = wait\<rparr>"

text \<open>The first loop: available nodes are split into acquired and throttled ones.\<close>

fun race_scan ::
    "('n, 'w, 'q, 'r) node_ops \<Rightarrow> 'n list \<Rightarrow> 'n list \<Rightarrow> 'n list \<Rightarrow> 'w
     \<Rightarrow> ('n list \<times> 'n list) \<times> 'w" where
  "race_scan ops [] acquired throttled w = ((acquired, throttled), w)"
| "race_scan ops (n # nodes) acquired throttled w =
     (case op_IsAvailable ops n w of (av, w1) \<Rightarrow>
        if \<not> av then race_scan ops nodes acquired throttled w1
        else case op_TryAcquire ops n w1 of (ok, w2) \<Rightarrow>
          if \<not> ok then race_scan ops nodes acquired (throttled @ [n]) w2
          else race_scan ops nodes (acquired @ [n]) throttled w2)"

text \<open>
  The candidates' goroutines, in the order in which they finish.  A schedule entry says which node
  finishes next and whether its result reaches the channel: the \<^verbatim>\<open>select\<close> may take the
  \<^verbatim>\<open>ctx.Done()\<close> branch instead once the context is done.
\<close>

fun race_go ::
    "('n, 'w, 'q, 'r) node_ops \<Rightarrow> 'q \<Rightarrow> ('n \<times> bool) list \<Rightarrow> 'w \<Rightarrow> 'r outcome list \<times> 'w" where
  "race_go ops req [] w = ([], w)"
| "race_go ops req ((nd, delivered) # sched) w =
     (case op_do ops nd req w of (r, w1) \<Rightarrow>
        case race_go ops req sched (op_Release ops nd w1) of (rs, w2) \<Rightarrow>
          (if delivered then r # rs else rs, w2))"

text \<open>The receiving loop over the channel.\<close>

fun race_pick :: "nat \<Rightarrow> 'r outcome list \<Rightarrow> string list \<Rightarrow> 'r outcome" where
  "race_pick n [] errs =
     (None, NodeStatusFail,
      Some (ErrNew (''nodepool: all '' @ FormatInt (int n) @ '' race attempts failed: ''
                    @ Join errs ''; '')))"
| "race_pick n ((resp, status, err) # rs) errs =
     (case status of
        NodeStatusSuccess \<Rightarrow> (resp, status, None)
      | NodeStatusBizError \<Rightarrow> (resp, status, err)
      | NodeStatusFail \<Rightarrow>
          race_pick n rs (case err of None \<Rightarrow> errs | Some e \<Rightarrow> errs @ [Error e])
      | NodeStatusOther _ \<Rightarrow> race_pick n rs errs)"

fun release_all :: "('n, 'w, 'q, 'r) node_ops \<Rightarrow> 'n list \<Rightarrow> 'w \<Rightarrow> 'w" where
  "release_all ops [] w = w"
| "release_all ops (n # ns) w = release_all ops ns (op_Release ops n w)"

text \<open>How many of the acquired nodes are raced.\<close>

definition race_width :: "raceStrategy \<Rightarrow> nat \<Rightarrow> nat" where
  "race_width s n =
     (if concurrency s > 0 \<and> concurrency s < int n then nat (concurrency s) else n)"

definition race_Execute ::
    "('n, 'w, 'q, 'r) node_ops \<Rightarrow> raceStrategy \<Rightarrow> ('n list \<Rightarrow> ('n \<times> bool) list) \<Rightarrow> 'n list
     \<Rightarrow> 'q \<Rightarrow> 'w \<Rightarrow> 'r outcome \<times> 'w" where
  "race_Execute ops s sched nodes req w =
     (case race_scan ops nodes [] [] w of ((acquired, throttled), w1) \<Rightarrow>
        if acquired = [] then
          if throttled \<noteq> [] then
            if rs_waitOnThrottle s then
              (let bestNode = hd throttled
               in case op_Acquire ops bestNode w1 of
                    (Some e, w2) \<Rightarrow> ((None, NodeStatusFail, Some e), w2)
                  | (None, w2) \<Rightarrow>
                      (case op_do ops bestNode req w2 of (out, w3) \<Rightarrow>
                         (out, op_Release ops bestNode w3)))
            else ((None, NodeStatusFail, Some ErrAllThrottled), w1)
          else ((None, NodeStatusFail, Some (ErrNew ''nodepool: no available nodes'')), w1)
        else
          (let n = race_width s (length acquired);
               w2 = release_all ops (drop n acquired) w1;
               candidates = take n acquired
           in case race_go ops req (sched candidates) w2 of (rs, w3) \<Rightarrow>
                (race_pick n rs [], w3)))"

text \<open>A schedule runs every candidate once.\<close>

definition fair_sched :: "('n list \<Rightarrow> ('n \<times> bool) list) \<Rightarrow> bool" where
  "fair_sched sched \<longleftrightarrow> (\<forall>cs. mset (map fst (sched cs)) = mset cs)"

section \<open>Contract: throttle slots\<close>

text \<open>
  \<open>held n w\<close> is how many slots of node \<open>n\<close> are taken in world \<open>w\<close>; one acquisition takes
  \<open>cost n\<close> of them.  Only a successful acquisition takes slots, only \<^verbatim>\<open>Release\<close> gives them back.
\<close>

locale node_slots =
  fixes ops :: "('n, 'w, 'q, 'r) node_ops"
    and held :: "'n \<Rightarrow> 'w \<Rightarrow> int"
    and cost :: "'n \<Rightarrow> int"
    and wf :: "'w \<Rightarrow> bool"
  assumes held_nonneg: "wf w \<Longrightarrow> 0 \<le> held n w"
    and cost_nonneg: "0 \<le> cost n"
    and avail: "wf w \<Longrightarrow> op_IsAvailable ops n w = (b, w') \<Longrightarrow> wf w' \<and> held m w' = held m w"
    and ctxerr: "wf w \<Longrightarrow> op_CtxErr ops w = (e, w') \<Longrightarrow> wf w' \<and> held m w' = held m w"
    and docall: "wf w \<Longrightarrow> op_do ops n q w = (out, w') \<Longrightarrow> wf w' \<and> held m w' = held m w"
    and tryacq: "wf w \<Longrightarrow> op_TryAcquire ops n w = (ok, w') \<Longrightarrow>
      wf w' \<and> held m w' = held m w + (if ok \<and> m = n then cost n else 0)"
    and acquire: "wf w \<Longrightarrow> op_Acquire ops n w = (e, w') \<Longrightarrow>
      wf w' \<and> held m w' = held m w + (if e = None \<and> m = n then cost n else 0)"
    and release: "wf w \<Longrightarrow> cost n \<le> held n w \<Longrightarrow>
      wf (op_Release ops n w) \<and>
      held m (op_Release ops n w) = held m w - (if m = n then cost n else 0)"
begin

text \<open>Acquire, call, release: the bracket every attempt is.\<close>

lemma do_release:
  assumes "wf w" "cost n \<le> held n w" "op_do ops n q w = (out, w')"
  shows "wf (op_Release ops n w')"
    and "held m (op_Release ops n w') = held m w - (if m = n then cost n else 0)"
  using docall [OF assms(1,3)] release [of w' n] assms(2) by auto

lemma attempt:
  assumes "wf w" "op_TryAcquire ops n w = (True, w1)" "op_do ops n q w1 = (out, w2)"
  shows "wf (op_Release ops n w2) \<and> held m (op_Release ops n w2) = held m w"
proof -
  have 1: "wf w1" "held k w1 = held k w + (if k = n then cost n else 0)" for k
    using tryacq [OF assms(1,2)] by auto
  then have "cost n \<le> held n w1" using held_nonneg [OF assms(1), of n] by simp
  with do_release [OF 1(1) _ assms(3)] 1(2) show ?thesis by auto
qed

lemma attempt_wait:
  assumes "wf w" "op_Acquire ops n w = (None, w1)" "op_do ops n q w1 = (out, w2)"
  shows "wf (op_Release ops n w2) \<and> held m (op_Release ops n w2) = held m w"
proof -
  have 1: "wf w1" "held k w1 = held k w + (if k = n then cost n else 0)" for k
    using acquire [OF assms(1,2)] by auto
  then have "cost n \<le> held n w1" using held_nonneg [OF assms(1), of n] by simp
  with do_release [OF 1(1) _ assms(3)] 1(2) show ?thesis by auto
qed

lemma cons_round_slots:
  "wf w \<Longrightarrow> cons_round ops q ns a t l w = (res, w') \<Longrightarrow> wf w' \<and> held m w' = held m w"
proof (induction ns arbitrary: a t l w)
  case Nil
  then show ?case by simp
next
  case (Cons n ns)
  obtain av w1 where 1: "op_IsAvailable ops n w = (av, w1)" by (cases "op_IsAvailable ops n w")
  obtain ok w2 where 2: "op_TryAcquire ops n w1 = (ok, w2)" by (cases "op_TryAcquire ops n w1")
  obtain resp status err w3 where 3: "op_do ops n q w2 = ((resp, status, err), w3)"
    by (metis prod.exhaust)
  note a1 = avail [OF Cons.prems(1) 1, of m]
  have step: "wf w' \<and> held m w' = held m w"
    if "cons_round ops q ns a' t' l' v = (res, w')" "wf v \<and> held m v = held m w" for a' t' l' v
    using Cons.IH [OF _ that(1)] that(2) by simp
  consider "\<not> av" | "av" "\<not> ok" | "av" "ok" by blast
  then show ?case
  proof cases
    case 1
    with Cons.prems(2) \<open>op_IsAvailable ops n w = (av, w1)\<close> a1 step show ?thesis by auto
  next
    case 2
    with tryacq [of w1 n ok w2 m] a1 \<open>op_TryAcquire ops n w1 = (ok, w2)\<close>
    have "wf w2 \<and> held m w2 = held m w" by simp
    moreover from 2 Cons.prems(2) have "cons_round ops q ns a (t @ [n]) l w2 = (res, w')"
      using \<open>op_IsAvailable ops n w = (av, w1)\<close> \<open>op_TryAcquire ops n w1 = (ok, w2)\<close> by simp
    ultimately show ?thesis by (intro step)
  next
    case 3
    with attempt [of w1 n w2 q "(resp, status, err)" w3 m] a1 \<open>op_TryAcquire ops n w1 = (ok, w2)\<close>
      \<open>op_do ops n q w2 = ((resp, status, err), w3)\<close>
    have r: "wf (op_Release ops n w3) \<and> held m (op_Release ops n w3) = held m w" by simp
    from 3 Cons.prems(2) \<open>op_IsAvailable ops n w = (av, w1)\<close> \<open>op_TryAcquire ops n w1 = (ok, w2)\<close>
      \<open>op_do ops n q w2 = ((resp, status, err), w3)\<close>
    show ?thesis using r step by (cases status) (auto simp: Let_def)
  qed
qed

lemma cons_loop_slots:
  "wf w \<Longrightarrow> cons_loop ops wait q ns k l w = (out, w') \<Longrightarrow> wf w' \<and> held m w' = held m w"
proof (induction k arbitrary: l w)
  case 0
  then show ?case by simp
next
  case (Suc k)
  obtain ce w1 where 1: "op_CtxErr ops w = (ce, w1)" by (cases "op_CtxErr ops w")
  obtain res a t l2 w2 where 2: "cons_round ops q ns False [] l w1 = ((res, a, t, l2), w2)"
    by (metis prod.exhaust)
  obtain e w3 where 3: "op_Acquire ops (hd t) w2 = (e, w3)" by (cases "op_Acquire ops (hd t) w2")
  obtain resp status err w4 where 4: "op_do ops (hd t) q w3 = ((resp, status, err), w4)"
    by (metis prod.exhaust)
  have w1: "wf w1 \<and> held m w1 = held m w" using ctxerr [OF Suc.prems(1) 1] .
  with cons_round_slots [OF _ 2] have w2: "wf w2 \<and> held m w2 = held m w" by auto
  have w3: "wf w3 \<and> held m w3 = held m w" if "e \<noteq> None"
    using acquire [of w2 "hd t" e w3 m] w2 3 that by auto
  have w5: "wf (op_Release ops (hd t) w4) \<and> held m (op_Release ops (hd t) w4) = held m w"
    if "e = None"
    using attempt_wait [of w2 "hd t" w3 q "(resp, status, err)" w4 m] w2 3 4 that by auto
  have step: "wf w' \<and> held m w' = held m w"
    if "cons_loop ops wait q ns k l' v = (out, w')" "wf v \<and> held m v = held m w" for l' v
    using Suc.IH [OF _ that(1)] that(2) by simp
  show ?case
  proof (cases "ce = None \<and> res = None \<and> \<not> a \<and> t \<noteq> [] \<and> wait \<and> e = None")
    case True
    with Suc.prems(2) w5 step show ?thesis by (cases status) (auto simp: 1 2 3 4 Let_def)
  next
    case False
    have "cons_loop ops wait q ns (Suc k) l w =
      (case ce of Some x \<Rightarrow> ((None, NodeStatusFail, Some x), w1)
       | None \<Rightarrow> (case res of Some o2 \<Rightarrow> (o2, w2)
         | None \<Rightarrow> (if \<not> a \<and> t \<noteq> [] then
             (if wait then cons_loop ops wait q ns k e w3
              else cons_loop ops wait q ns k (if l2 = None then Some ErrAllThrottled else l2) w2)
             else cons_loop ops wait q ns k l2 w2)))"
      using False by (auto simp: 1 2 3 4 Let_def split: option.splits)
    with Suc.prems(2) w1 w2 w3 False step show ?thesis
      by (auto split: option.splits if_splits)
  qed
qed

lemma conservative_slots:
  "wf w \<Longrightarrow> conservative_Execute ops s ns q w = (out, w') \<Longrightarrow> wf w' \<and> held m w' = held m w"
  using cons_loop_slots by (auto simp: conservative_Execute_def split: if_splits)

text \<open>The race takes slots of several nodes at once, possibly of one node twice.\<close>

definition taken :: "'n list \<Rightarrow> 'n \<Rightarrow> int" where
  "taken ns m = cost m * int (count_list ns m)"

lemma taken_simps [simp]:
  "taken [] m = 0" "taken (n # ns) m = taken ns m + (if m = n then cost n else 0)"
  by (simp_all add: taken_def algebra_simps)

lemma taken_append [simp]: "taken (xs @ ys) m = taken xs m + taken ys m"
  by (induction xs) simp_all

lemma taken_nonneg: "0 \<le> taken ns m"
  by (simp add: taken_def cost_nonneg)

lemma taken_mset: "mset xs = mset ys \<Longrightarrow> taken xs m = taken ys m"
  by (metis taken_def count_mset)

lemma race_scan_slots:
  "wf w \<Longrightarrow> race_scan ops ns acq thr w = ((acq', thr'), w') \<Longrightarrow>
   wf w' \<and> held m w' + taken acq m = held m w + taken acq' m"
proof (induction ns arbitrary: acq thr w)
  case Nil
  then show ?case by simp
next
  case (Cons n ns)
  obtain av w1 where 1: "op_IsAvailable ops n w = (av, w1)" by (cases "op_IsAvailable ops n w")
  obtain ok w2 where 2: "op_TryAcquire ops n w1 = (ok, w2)" by (cases "op_TryAcquire ops n w1")
  have w1: "wf w1 \<and> held m w1 = held m w" using avail [OF Cons.prems(1) 1] .
  then have w2: "wf w2 \<and> held m w2 = held m w + (if ok \<and> m = n then cost n else 0)"
    using tryacq [of w1 n ok w2 m] 2 by auto
  show ?case
  proof (cases "av \<and> ok")
    case True
    with Cons.prems(2) have "race_scan ops ns (acq @ [n]) thr w2 = ((acq', thr'), w')"
      by (simp add: 1 2)
    with Cons.IH w2 True show ?thesis by fastforce
  next
    case False
    then have "race_scan ops ns acq (if av then thr @ [n] else thr) (if av then w2 else w1)
        = ((acq', thr'), w')"
      using Cons.prems(2) by (auto simp: 1 2)
    from Cons.IH [OF _ this] w1 w2 False show ?thesis by (auto split: if_splits)
  qed
qed

lemma release_all_slots:
  "wf w \<Longrightarrow> (\<And>m. taken ns m \<le> held m w) \<Longrightarrow>
   wf (release_all ops ns w) \<and> held m (release_all ops ns w) = held m w - taken ns m"
proof (induction ns arbitrary: w)
  case Nil
  then show ?case by simp
next
  case (Cons n ns)
  have "cost n \<le> held n w" using Cons.prems(2) [of n] taken_nonneg [of ns n] by simp
  then have r: "wf (op_Release ops n w)"
    "held k (op_Release ops n w) = held k w - (if k = n then cost n else 0)" for k
    using release [OF Cons.prems(1)] by auto
  have "taken ns k \<le> held k (op_Release ops n w)" for k
    using Cons.prems(2) [of k] by (auto simp: r(2) split: if_splits)
  from Cons.IH [OF r(1) this] r(2) show ?case by auto
qed

lemma race_go_slots:
  "wf w \<Longrightarrow> (\<And>m. taken (map fst sched) m \<le> held m w) \<Longrightarrow> race_go ops q sched w = (rs, w') \<Longrightarrow>
   wf w' \<and> held m w' = held m w - taken (map fst sched) m"
proof (induction sched arbitrary: w rs)
  case Nil
  then show ?case by simp
next
  case (Cons e sched)
  obtain nd d where e: "e = (nd, d)" by (cases e)
  obtain r w1 where 1: "op_do ops nd q w = (r, w1)" by (cases "op_do ops nd q w")
  obtain rs2 w2 where 2: "race_go ops q sched (op_Release ops nd w1) = (rs2, w2)"
    by (cases "race_go ops q sched (op_Release ops nd w1)")
  have "cost nd \<le> held nd w"
    using Cons.prems(2) [of nd] taken_nonneg [of "map fst sched" nd] by (simp add: e)
  note r = do_release [OF Cons.prems(1) this 1]
  have "taken (map fst sched) k \<le> held k (op_Release ops nd w1)" for k
    using Cons.prems(2) [of k] by (auto simp: r(2) e split: if_splits)
  moreover have "w2 = w'" using Cons.prems(3) by (simp add: e 1 2)
  ultimately show ?case using Cons.IH [OF r(1), of rs2] 2 r(2) by (auto simp: e)
qed

lemma race_slots:
  assumes wf: "wf w" and fair: "fair_sched sched"
    and ex: "race_Execute ops s sched ns q w = (out, w')"
  shows "wf w' \<and> held m w' = held m w"
proof -
  obtain acq thr w1 where 1: "race_scan ops ns [] [] w = ((acq, thr), w1)" by (metis prod.exhaust)
  have w1: "wf w1" "held k w1 = held k w + taken acq k" for k
    using race_scan_slots [OF wf 1] by auto
  show ?thesis
  proof (cases "acq = []")
    case True
    obtain e w2 where 2: "op_Acquire ops (hd thr) w1 = (e, w2)" by (cases "op_Acquire ops (hd thr) w1")
    obtain o3 w3 where 3: "op_do ops (hd thr) q w2 = (o3, w3)" by (cases "op_do ops (hd thr) q w2")
    have "wf w2 \<and> held m w2 = held m w" if "e \<noteq> None"
      using acquire [OF w1(1) 2, of m] that True by (simp add: w1(2))
    moreover have "wf (op_Release ops (hd thr) w3) \<and> held m (op_Release ops (hd thr) w3) = held m w"
      if "e = None"
      using attempt_wait [OF w1(1) _ 3, of m] 2 that True by (simp add: w1(2))
    ultimately show ?thesis using ex True w1
      by (auto simp: race_Execute_def 1 2 3 Let_def split: if_splits option.splits)
  next
    case False
    define n where "n = race_width s (length acq)"
    define w2 where "w2 = release_all ops (drop n acq) w1"
    have acq: "taken acq k = taken (take n acq) k + taken (drop n acq) k" for k
      by (metis append_take_drop_id taken_append)
    have "taken (drop n acq) k \<le> held k w1" for k
      using held_nonneg [OF wf, of k] taken_nonneg [of "take n acq" k] by (simp add: w1(2) acq)
    from release_all_slots [OF w1(1) this]
    have w2: "wf w2" "held k w2 = held k w + taken (take n acq) k" for k
      by (simp_all add: w2_def w1(2) acq)
    have f: "taken (map fst (sched (take n acq))) k = taken (take n acq) k" for k
      using fair by (intro taken_mset) (simp add: fair_sched_def)
    obtain rs w3 where 3: "race_go ops q (sched (take n acq)) w2 = (rs, w3)"
      by (cases "race_go ops q (sched (take n acq)) w2")
    have "taken (map fst (sched (take n acq))) k \<le> held k w2" for k
      using held_nonneg [OF wf, of k] by (simp add: f w2(2))
    from race_go_slots [OF w2(1) this 3] f w2(2)
    have "wf w3 \<and> held m w3 = held m w" by simp
    moreover have "w' = w3"
      using ex False 3 by (simp add: race_Execute_def 1 Let_def n_def [symmetric] w2_def [symmetric])
    ultimately show ?thesis by simp
  qed
qed

end

section \<open>Contract: relations every operation respects\<close>

text \<open>
  A reflexive and transitive relation between worlds that every operation respects is respected by
  a whole \<^verbatim>\<open>Execute\<close>: invariants of the nodes, fields nobody writes, the advance of time.
\<close>

locale ops_respect =
  fixes ops :: "('n, 'w, 'q, 'r) node_ops"
    and R :: "'w \<Rightarrow> 'w \<Rightarrow> bool"
  assumes R_refl: "R w w"
    and R_trans: "R w1 w2 \<Longrightarrow> R w2 w3 \<Longrightarrow> R w1 w3"
    and r_avail: "op_IsAvailable ops n w = (b, w') \<Longrightarrow> R w w'"
    and r_ctxerr: "op_CtxErr ops w = (e, w') \<Longrightarrow> R w w'"
    and r_try: "op_TryAcquire ops n w = (ok, w') \<Longrightarrow> R w w'"
    and r_acquire: "op_Acquire ops n w = (e, w') \<Longrightarrow> R w w'"
    and r_release: "R w (op_Release ops n w)"
    and r_do: "op_do ops n q w = (out, w') \<Longrightarrow> R w w'"
begin

lemma r_do_release: "op_do ops n q w = (out, w') \<Longrightarrow> R w (op_Release ops n w')"
  by (rule R_trans [OF r_do r_release])

lemma cons_round_R: "cons_round ops q ns a t l w = (res, w') \<Longrightarrow> R w w'"
proof (induction ns arbitrary: a t l w)
  case Nil
  then show ?case by (simp add: R_refl)
next
  case (Cons n ns)
  obtain av w1 where 1: "op_IsAvailable ops n w = (av, w1)" by (cases "op_IsAvailable ops n w")
  obtain ok w2 where 2: "op_TryAcquire ops n w1 = (ok, w2)" by (cases "op_TryAcquire ops n w1")
  obtain resp status err w3 where 3: "op_do ops n q w2 = ((resp, status, err), w3)"
    by (metis prod.exhaust)
  let ?w4 = "op_Release ops n w3"
  have Rs: "R w w1" "R w w2" "R w ?w4"
    using r_avail [OF 1] r_try [OF 2] r_do_release [OF 3] by (blast intro: R_trans)+
  have "w' = ?w4 \<or> (\<exists>v a' t' l'. v \<in> {w1, w2, ?w4} \<and> cons_round ops q ns a' t' l' v = (res, w'))"
    using Cons.prems by (cases status) (auto simp: 1 2 3 Let_def split: if_splits)
  with Rs show ?case by (auto intro: R_trans Cons.IH)
qed

lemma cons_loop_R: "cons_loop ops wait q ns k l w = (out, w') \<Longrightarrow> R w w'"
proof (induction k arbitrary: l w)
  case 0
  then show ?case by (simp add: R_refl)
next
  case (Suc k)
  obtain ce w1 where 1: "op_CtxErr ops w = (ce, w1)" by (cases "op_CtxErr ops w")
  obtain res a t l2 w2 where 2: "cons_round ops q ns False [] l w1 = ((res, a, t, l2), w2)"
    by (metis prod.exhaust)
  obtain e w3 where 3: "op_Acquire ops (hd t) w2 = (e, w3)" by (cases "op_Acquire ops (hd t) w2")
  obtain resp status err w4 where 4: "op_do ops (hd t) q w3 = ((resp, status, err), w4)"
    by (metis prod.exhaust)
  let ?w5 = "op_Release ops (hd t) w4"
  have Rs: "R w w1" "R w w2" "R w w3" "R w ?w5"
    using r_ctxerr [OF 1] cons_round_R [OF 2] r_acquire [OF 3] r_do_release [OF 4]
    by (blast intro: R_trans)+
  have "w' \<in> {w1, w2, ?w5} \<or> (\<exists>v l'. v \<in> {w2, w3, ?w5} \<and> cons_loop ops wait q ns k l' v = (out, w'))"
  proof (cases "ce = None \<and> res = None \<and> \<not> a \<and> t \<noteq> [] \<and> wait")
    case True
    with Suc.prems show ?thesis by (cases e; cases status) (auto simp: 1 2 3 4 Let_def)
  next
    case False
    with Suc.prems show ?thesis by (cases ce; cases res) (auto simp: 1 2 split: if_splits)
  qed
  with Rs show ?case by (auto intro: R_trans Suc.IH)
qed

lemma conservative_R: "conservative_Execute ops s ns q w = (out, w') \<Longrightarrow> R w w'"
  using cons_loop_R R_refl by (auto simp: conservative_Execute_def split: if_splits)

lemma race_scan_R: "race_scan ops ns acq thr w = (res, w') \<Longrightarrow> R w w'"
proof (induction ns arbitrary: acq thr w)
  case (Cons n ns)
  obtain av w1 where 1: "op_IsAvailable ops n w = (av, w1)" by (cases "op_IsAvailable ops n w")
  obtain ok w2 where 2: "op_TryAcquire ops n w1 = (ok, w2)" by (cases "op_TryAcquire ops n w1")
  from Cons.prems r_avail [OF 1] r_try [OF 2] show ?case
    by (auto simp: 1 2 split: if_splits intro: R_trans dest!: Cons.IH)
qed (simp add: R_refl)

lemma release_all_R: "R w (release_all ops ns w)"
  by (induction ns arbitrary: w) (auto intro: R_refl R_trans r_release)

lemma race_go_R: "race_go ops q sched w = (rs, w') \<Longrightarrow> R w w'"
proof (induction sched arbitrary: w rs)
  case (Cons e sched)
  obtain nd d where e: "e = (nd, d)" by (cases e)
  obtain r w1 where 1: "op_do ops nd q w = (r, w1)" by (cases "op_do ops nd q w")
  from Cons.prems Cons.IH [of "op_Release ops nd w1"] r_do_release [OF 1] show ?case
    by (auto simp: e 1 split: prod.splits intro: R_trans)
qed (simp add: R_refl)

lemma race_R:
  assumes "race_Execute ops s sched ns q w = (out, w')"
  shows "R w w'"
proof -
  obtain acq thr w1 where 1: "race_scan ops ns [] [] w = ((acq, thr), w1)" by (metis prod.exhaust)
  obtain e w2 where 2: "op_Acquire ops (hd thr) w1 = (e, w2)" by (cases "op_Acquire ops (hd thr) w1")
  obtain o3 w3 where 3: "op_do ops (hd thr) q w2 = (o3, w3)" by (cases "op_do ops (hd thr) q w2")
  define n where "n = race_width s (length acq)"
  obtain rs w4 where 4: "race_go ops q (sched (take n acq)) (release_all ops (drop n acq) w1) = (rs, w4)"
    by (cases "race_go ops q (sched (take n acq)) (release_all ops (drop n acq) w1)")
  have "R w w1" "R w w2" "R w (op_Release ops (hd thr) w3)" "R w w4"
    using race_scan_R [OF 1] r_acquire [OF 2] r_do_release [OF 3]
      R_trans [OF release_all_R race_go_R [OF 4]]
    by (blast intro: R_trans)+
  moreover have "w' \<in> {w1, w2, op_Release ops (hd thr) w3, w4}"
    using assms by (auto simp: race_Execute_def 1 2 3 4 Let_def n_def [symmetric]
        split: if_splits option.splits)
  ultimately show ?thesis by auto
qed

end

section \<open>Contract: calls of the callback\<close>

text \<open>\<open>calls w\<close> counts the calls of \<^verbatim>\<open>do\<close>; nothing else changes the count.\<close>

locale do_counter =
  fixes ops :: "('n, 'w, 'q, 'r) node_ops"
    and calls :: "'w \<Rightarrow> nat"
  assumes c_avail: "op_IsAvailable ops n w = (b, w') \<Longrightarrow> calls w' = calls w"
    and c_ctxerr: "op_CtxErr ops w = (e, w') \<Longrightarrow> calls w' = calls w"
    and c_try: "op_TryAcquire ops n w = (ok, w') \<Longrightarrow> calls w' = calls w"
    and c_acquire: "op_Acquire ops n w = (e, w') \<Longrightarrow> calls w' = calls w"
    and c_release: "calls (op_Release ops n w) = calls w"
    and c_do: "op_do ops n q w = (out, w') \<Longrightarrow> calls w' = Suc (calls w)"
begin

lemma cons_round_calls:
  "cons_round ops q ns a t l w = ((res, a', t', l'), w') \<Longrightarrow>
   calls w \<le> calls w' \<and> calls w' \<le> calls w + length ns \<and> (a \<longrightarrow> a') \<and>
   (\<not> a' \<longrightarrow> calls w' = calls w) \<and> (ns = [] \<longrightarrow> t' = t)"
proof (induction ns arbitrary: a t l w)
  case Nil
  then show ?case by simp
next
  case (Cons n ns)
  obtain av w1 where 1: "op_IsAvailable ops n w = (av, w1)" by (cases "op_IsAvailable ops n w")
  obtain ok w2 where 2: "op_TryAcquire ops n w1 = (ok, w2)" by (cases "op_TryAcquire ops n w1")
  obtain resp status err w3 where 3: "op_do ops n q w2 = ((resp, status, err), w3)"
    by (metis prod.exhaust)
  note cs = c_avail [OF 1] c_try [OF 2] c_do [OF 3] c_release [of n w3]
  show ?case
  proof (cases "av \<and> ok")
    case True
    with Cons.prems cs show ?thesis
      by (cases status) (auto simp: 1 2 3 Let_def dest!: Cons.IH)
  next
    case False
    with Cons.prems cs show ?thesis by (auto simp: 1 2 split: if_splits dest!: Cons.IH)
  qed
qed

lemma cons_loop_calls:
  assumes "ns \<noteq> []"
  shows "cons_loop ops wait q ns k l w = (out, w') \<Longrightarrow> calls w' \<le> calls w + k * length ns"
proof (induction k arbitrary: l w)
  case 0
  then show ?case by simp
next
  case (Suc k)
  obtain ce w1 where 1: "op_CtxErr ops w = (ce, w1)" by (cases "op_CtxErr ops w")
  obtain res a t l2 w2 where 2: "cons_round ops q ns False [] l w1 = ((res, a, t, l2), w2)"
    by (metis prod.exhaust)
  obtain e w3 where 3: "op_Acquire ops (hd t) w2 = (e, w3)" by (cases "op_Acquire ops (hd t) w2")
  obtain resp status err w4 where 4: "op_do ops (hd t) q w3 = ((resp, status, err), w4)"
    by (metis prod.exhaust)
  note cs = c_ctxerr [OF 1] c_acquire [OF 3] c_do [OF 4] c_release [of "hd t" w4]
    cons_round_calls [OF 2]
  have len: "1 \<le> length ns" using assms by (cases ns) auto
  have step: "calls w' \<le> calls w + Suc k * length ns"
    if "cons_loop ops wait q ns k l' v = (out, w')" "calls v \<le> calls w + length ns" for l' v
    using Suc.IH [OF that(1)] that(2) by simp
  have direct: "w' = v \<Longrightarrow> calls v \<le> calls w + length ns \<Longrightarrow> calls w' \<le> calls w + Suc k * length ns"
    for v by simp
  show ?case
  proof (cases "ce = None \<and> res = None \<and> \<not> a \<and> t \<noteq> [] \<and> wait")
    case True
    then have w4: "calls (op_Release ops (hd t) w4) \<le> calls w + length ns" "calls w3 \<le> calls w + length ns"
      using cs len by auto
    have "\<exists>v l'. calls v \<le> calls w + length ns \<and>
        (w' = v \<or> cons_loop ops wait q ns k l' v = (out, w'))"
    proof (cases e)
      case None
      with True Suc.prems show ?thesis
        by (intro exI [of _ "op_Release ops (hd t) w4"], cases status)
           (use w4 in \<open>auto simp: 1 2 3 4 Let_def\<close>)
    next
      case (Some x)
      with True Suc.prems w4 show ?thesis
        by (intro exI [of _ w3]) (auto simp: 1 2 3 Let_def)
    qed
    then show ?thesis using step direct by blast
  next
    case False
    have "calls w1 \<le> calls w + length ns" "calls w2 \<le> calls w + length ns" using cs by auto
    moreover have "w' = w1 \<or> w' = w2 \<or> (\<exists>l'. cons_loop ops wait q ns k l' w2 = (out, w'))"
      using False Suc.prems by (cases ce; cases res) (auto simp: 1 2 split: if_splits)
    ultimately show ?thesis using step direct by blast
  qed
qed

lemma conservative_calls:
  "conservative_Execute ops s ns q w = (out, w') \<Longrightarrow>
   calls w' \<le> calls w + nat (maxRetries s + 1) * length ns"
  using cons_loop_calls by (auto simp: conservative_Execute_def split: if_splits)

end

section \<open>Contract: the log of answers\<close>

text \<open>
  \<open>log w\<close> is the list of the outcomes \<^verbatim>\<open>do\<close> has returned.  An outcome is final (success or
  business error) or retryable.
\<close>

definition retryable :: "'r outcome \<Rightarrow> bool" where
  "retryable out \<longleftrightarrow> fst (snd out) \<noteq> NodeStatusSuccess \<and> fst (snd out) \<noteq> NodeStatusBizError"

text \<open>What \<^verbatim>\<open>Execute\<close> hands to its caller for a final outcome.\<close>

definition deliver :: "'r outcome \<Rightarrow> 'r outcome" where
  "deliver out = (case out of (resp, status, err) \<Rightarrow>
     (resp, status, if status = NodeStatusSuccess then None else err))"

text \<open>
  The answers \<open>ss\<close> of one \<^verbatim>\<open>Execute\<close> explain its result: either all were retryable and the
  result is a failure without response, or only the last was final and it is the result.
\<close>

definition explains :: "'r outcome list \<Rightarrow> 'r outcome \<Rightarrow> bool" where
  "explains ss out \<longleftrightarrow>
     ((\<forall>x\<in>set ss. retryable x) \<and> fst out = None \<and> fst (snd out) = NodeStatusFail) \<or>
     (\<exists>pre x. ss = pre @ [x] \<and> (\<forall>y\<in>set pre. retryable y) \<and> \<not> retryable x \<and> out = deliver x)"

lemma explains_append: "\<forall>x\<in>set xs. retryable x \<Longrightarrow> explains ys out \<Longrightarrow> explains (xs @ ys) out"
  unfolding explains_def by (auto simp: append_assoc [symmetric] simp del: append_assoc)

lemma explains_final: "\<forall>x\<in>set xs. retryable x \<Longrightarrow> \<not> retryable y \<Longrightarrow> explains (xs @ [y]) (deliver y)"
  by (auto simp: explains_def)

lemma explains_none: "explains [] (None, NodeStatusFail, e)"
  by (simp add: explains_def)

locale do_log =
  fixes ops :: "('n, 'w, 'q, 'r) node_ops"
    and log :: "'w \<Rightarrow> 'r outcome list"
  assumes l_avail: "op_IsAvailable ops n w = (b, w') \<Longrightarrow> log w' = log w"
    and l_ctxerr: "op_CtxErr ops w = (e, w') \<Longrightarrow> log w' = log w"
    and l_try: "op_TryAcquire ops n w = (ok, w') \<Longrightarrow> log w' = log w"
    and l_acquire: "op_Acquire ops n w = (e, w') \<Longrightarrow> log w' = log w"
    and l_release: "log (op_Release ops n w) = log w"
    and l_do: "op_do ops n q w = (out, w') \<Longrightarrow> log w' = log w @ [out]"
begin

text \<open>A log gives a counter.\<close>

sublocale do_counter ops "\<lambda>w. length (log w)"
  by unfold_locales (simp_all add: l_avail l_ctxerr l_try l_acquire l_release l_do)

lemma cons_round_log:
  "cons_round ops q ns a t l w = ((res, a', t', l'), w') \<Longrightarrow>
   \<exists>ss. log w' = log w @ ss \<and>
     (case res of None \<Rightarrow> \<forall>x\<in>set ss. retryable x
      | Some out \<Rightarrow> \<exists>pre x. ss = pre @ [x] \<and> (\<forall>y\<in>set pre. retryable y) \<and> \<not> retryable x \<and>
          out = deliver x)"
proof (induction ns arbitrary: a t l w)
  case Nil
  then show ?case by auto
next
  case (Cons n ns)
  obtain av w1 where 1: "op_IsAvailable ops n w = (av, w1)" by (cases "op_IsAvailable ops n w")
  obtain ok w2 where 2: "op_TryAcquire ops n w1 = (ok, w2)" by (cases "op_TryAcquire ops n w1")
  obtain resp status err w3 where 3: "op_do ops n q w2 = ((resp, status, err), w3)"
    by (metis prod.exhaust)
  let ?x = "(resp, status, err)"
  note ls = l_avail [OF 1] l_try [OF 2] l_do [OF 3] l_release [of n w3]
  show ?case
  proof (cases "av \<and> ok")
    case False
    with Cons.prems ls show ?thesis by (auto simp: 1 2 split: if_splits dest!: Cons.IH)
  next
    case True
    show ?thesis
    proof (cases "retryable ?x")
      case retry: True
      then obtain l2 where
        "cons_round ops q ns True t l2 (op_Release ops n w3) = ((res, a', t', l'), w')"
        using Cons.prems True by (cases status) (auto simp: 1 2 3 Let_def retryable_def)
      from Cons.IH [OF this] obtain ss where ss: "log w' = log w @ ?x # ss"
        and out: "case res of None \<Rightarrow> \<forall>x\<in>set ss. retryable x
          | Some out \<Rightarrow> \<exists>pre x. ss = pre @ [x] \<and> (\<forall>y\<in>set pre. retryable y) \<and> \<not> retryable x \<and>
              out = deliver x"
        using ls by auto
      show ?thesis
      proof (cases res)
        case None
        with ss out retry show ?thesis by (intro exI [of _ "?x # ss"]) auto
      next
        case (Some o2)
        with out obtain pre y where "ss = pre @ [y]" "\<forall>z\<in>set pre. retryable z" "\<not> retryable y"
          "o2 = deliver y" by auto
        with ss retry Some show ?thesis
          by (intro exI [of _ "?x # ss"]) (auto intro!: exI [of _ "?x # pre"])
      qed
    next
      case False
      with Cons.prems True have "res = Some (deliver ?x)" "w' = op_Release ops n w3"
        by (cases status; auto simp: 1 2 3 Let_def retryable_def deliver_def)+
      with ls False show ?thesis by (intro exI [of _ "[?x]"]) auto
    qed
  qed
qed

lemma cons_loop_log:
  "cons_loop ops wait q ns k l w = (out, w') \<Longrightarrow> \<exists>ss. log w' = log w @ ss \<and> explains ss out"
proof (induction k arbitrary: l w)
  case 0
  then show ?case by (intro exI [of _ "[]"]) (auto simp: explains_none)
next
  case (Suc k)
  obtain ce w1 where 1: "op_CtxErr ops w = (ce, w1)" by (cases "op_CtxErr ops w")
  obtain res a t l2 w2 where 2: "cons_round ops q ns False [] l w1 = ((res, a, t, l2), w2)"
    by (metis prod.exhaust)
  obtain e w3 where 3: "op_Acquire ops (hd t) w2 = (e, w3)" by (cases "op_Acquire ops (hd t) w2")
  obtain resp status err w4 where 4: "op_do ops (hd t) q w3 = ((resp, status, err), w4)"
    by (metis prod.exhaust)
  let ?x = "(resp, status, err)" and ?w5 = "op_Release ops (hd t) w4"
  note ls = l_ctxerr [OF 1] l_acquire [OF 3] l_do [OF 4] l_release [of "hd t" w4]
  obtain ss where ss: "log w2 = log w @ ss" and res: "case res of None \<Rightarrow> \<forall>x\<in>set ss. retryable x
      | Some out \<Rightarrow> \<exists>pre x. ss = pre @ [x] \<and> (\<forall>y\<in>set pre. retryable y) \<and> \<not> retryable x \<and>
          out = deliver x"
    using cons_round_log [OF 2] ls by auto
  have again: ?case if "cons_loop ops wait q ns k l' v = (out, w')" "log v = log w @ xs"
    "\<forall>x\<in>set xs. retryable x" for l' v xs
    using Suc.IH [OF that(1)] that(2,3) by (auto intro: explains_append)
  show ?case
  proof (cases "ce = None \<and> res = None")
    case False
    show ?thesis
    proof (cases ce)
      case (Some x)
      with Suc.prems ls show ?thesis by (auto simp: 1 explains_none)
    next
      case None
      with False obtain o2 where o2: "res = Some o2" by auto
      with None Suc.prems have "out = o2" "w' = w2" by (simp_all add: 1 2)
      with ss res o2 explains_final show ?thesis by auto
    qed
  next
    case True
    with res have retry: "\<forall>x\<in>set ss. retryable x" by simp
    consider (plain) l' where "cons_loop ops wait q ns k l' w2 = (out, w')"
      | (failed) x where "e = Some x" "cons_loop ops wait q ns k e w3 = (out, w')"
      | (called) "e = None" "\<not> a" "t \<noteq> []" "wait"
      using Suc.prems True by (cases e) (auto simp: 1 2 3 Let_def split: if_splits)
    then show ?thesis
    proof cases
      case plain
      then show ?thesis using again ss retry by blast
    next
      case failed
      then show ?thesis using again [of e w3 ss] ss retry ls by simp
    next
      case called
      show ?thesis
      proof (cases "retryable ?x")
        case True': True
        then obtain l' where "cons_loop ops wait q ns k l' ?w5 = (out, w')"
          using Suc.prems True called by (cases status) (auto simp: 1 2 3 4 Let_def retryable_def)
        then show ?thesis by (rule again [of _ _ "ss @ [?x]"]) (use ss retry True' ls in auto)
      next
        case False
        then have "out = deliver ?x" "w' = ?w5"
          using Suc.prems True called
          by (cases status; auto simp: 1 2 3 4 Let_def retryable_def deliver_def)+
        with explains_final [OF retry False] ss ls show ?thesis
          by (intro exI [of _ "ss @ [?x]"]) simp
      qed
    qed
  qed
qed

lemma conservative_log:
  "conservative_Execute ops s ns q w = (out, w') \<Longrightarrow> \<exists>ss. log w' = log w @ ss \<and> explains ss out"
  using cons_loop_log
  by (auto simp: conservative_Execute_def explains_none split: if_splits)

text \<open>The race: the first final answer that reaches the channel wins.\<close>

lemma race_scan_log: "race_scan ops ns acq thr w = (res, w') \<Longrightarrow> log w' = log w"
proof (induction ns arbitrary: acq thr w)
  case (Cons n ns)
  obtain av w1 where 1: "op_IsAvailable ops n w = (av, w1)" by (cases "op_IsAvailable ops n w")
  obtain ok w2 where 2: "op_TryAcquire ops n w1 = (ok, w2)" by (cases "op_TryAcquire ops n w1")
  from Cons.prems l_avail [OF 1] l_try [OF 2] show ?case
    by (auto simp: 1 2 split: if_splits dest!: Cons.IH)
qed simp

lemma release_all_log: "log (release_all ops ns w) = log w"
  by (induction ns arbitrary: w) (simp_all add: l_release)

lemma race_go_log:
  "race_go ops q sched w = (rs, w') \<Longrightarrow> \<forall>e\<in>set sched. snd e \<Longrightarrow>
   log w' = log w @ rs \<and> length rs = length sched"
proof (induction sched arbitrary: w rs)
  case Nil
  then show ?case by simp
next
  case (Cons e sched)
  obtain nd d where e: "e = (nd, d)" by (cases e)
  obtain r w1 where 1: "op_do ops nd q w = (r, w1)" by (cases "op_do ops nd q w")
  obtain rs2 w2 where 2: "race_go ops q sched (op_Release ops nd w1) = (rs2, w2)"
    by (cases "race_go ops q sched (op_Release ops nd w1)")
  have "w2 = w'" using Cons.prems(1) by (simp add: e 1 2)
  with Cons.IH [of "op_Release ops nd w1" rs2] 2 Cons.prems l_do [OF 1] l_release [of nd w1]
  show ?case by (auto simp: e 1)
qed

end

lemma race_pick_first:
  "race_pick n rs errs =
     (case find (\<lambda>x. \<not> retryable x) rs of
        Some x \<Rightarrow> deliver x
      | None \<Rightarrow> race_pick n [] (errs @ [Error e. (_, NodeStatusFail, Some e) \<leftarrow> rs]))"
proof (induction n rs errs rule: race_pick.induct)
  case (1 n errs)
  show ?case by simp
next
  case (2 n resp status err rs errs)
  then show ?case
    by (cases status; cases err) (auto simp: retryable_def deliver_def split: option.splits)
qed

section \<open>Recording what a strategy does\<close>

text \<open>
  Any node operations, with a log of the acquisitions, releases and calls a strategy makes.  The
  log satisfies both contracts whatever the operations are, so the lemmas of the locales hold for
  every implementation of the nodes.
\<close>

datatype ('n, 'r) op_event = EvAcquired 'n | EvReleased 'n | EvDo 'n "'r outcome"

definition traced ::
    "('n, 'w, 'q, 'r) node_ops \<Rightarrow> ('n, 'w \<times> ('n, 'r) op_event list, 'q, 'r) node_ops" where
  "traced ops = \<lparr>
     op_IsAvailable = (\<lambda>n (w, tr). case op_IsAvailable ops n w of (b, w') \<Rightarrow> (b, (w', tr))),
     op_TryAcquire = (\<lambda>n (w, tr). case op_TryAcquire ops n w of (ok, w') \<Rightarrow>
       (ok, (w', if ok then tr @ [EvAcquired n] else tr))),
     op_Acquire = (\<lambda>n (w, tr). case op_Acquire ops n w of (e, w') \<Rightarrow>
       (e, (w', if e = None then tr @ [EvAcquired n] else tr))),
     op_Release = (\<lambda>n (w, tr). (op_Release ops n w, tr @ [EvReleased n])),
     op_CtxErr = (\<lambda>(w, tr). case op_CtxErr ops w of (e, w') \<Rightarrow> (e, (w', tr))),
     op_do = (\<lambda>n q (w, tr). case op_do ops n q w of (out, w') \<Rightarrow> (out, (w', tr @ [EvDo n out]))) \<rparr>"

text \<open>Acquisitions of a node that are not released yet.\<close>

definition outstanding :: "('n, 'r) op_event list \<Rightarrow> 'n \<Rightarrow> int" where
  "outstanding tr n = int (count_list tr (EvAcquired n)) - int (count_list tr (EvReleased n))"

definition answers :: "('n, 'r) op_event list \<Rightarrow> 'r outcome list" where
  "answers tr = [out. EvDo n out \<leftarrow> tr]"

lemma outstanding_simps [simp]:
  "outstanding [] m = 0"
  "outstanding (tr @ [EvAcquired n]) m = outstanding tr m + (if m = n then 1 else 0)"
  "outstanding (tr @ [EvReleased n]) m = outstanding tr m - (if m = n then 1 else 0)"
  "outstanding (tr @ [EvDo n out]) m = outstanding tr m"
  by (simp_all add: outstanding_def)

interpretation traced_slots: node_slots "traced ops" "\<lambda>n p. outstanding (snd p) n" "\<lambda>_. 1"
  "\<lambda>p. \<forall>n. 0 \<le> outstanding (snd p) n" for ops :: "('n, 'w, 'q, 'r) node_ops"
  by unfold_locales
     (auto simp: traced_def split: prod.splits if_splits intro!: add_nonneg_nonneg)

interpretation traced_log: do_log "traced ops" "\<lambda>p. answers (snd p)"
  for ops :: "('n, 'w, 'q, 'r) node_ops"
  by unfold_locales (auto simp: traced_def answers_def split: prod.splits if_splits)

section \<open>Properties\<close>

text \<open>
  C2. Whatever the nodes do, one run of the conservative strategy gives back every throttle slot it
  took, calls \<^verbatim>\<open>do\<close> at most \<^verbatim>\<open>maxRetries+1\<close> times per node, and its result is explained by the
  answers it got: every answer but the last is retryable, a success or business error ends the run
  at once and is returned, and without one the result is a failure.
\<close>

theorem conservative_run:
  assumes "conservative_Execute (traced ops) s nodes req (w, []) = (out, (w', tr))"
  shows "(\<forall>n. outstanding tr n = 0) \<and>
    length (answers tr) \<le> nat (maxRetries s + 1) * length nodes \<and>
    explains (answers tr) out"
  using traced_slots.conservative_slots [OF _ assms]
    traced_log.conservative_calls [OF assms] traced_log.conservative_log [OF assms]
  by (auto simp: answers_def)

text \<open>A node world for the witnesses: every node is up, node 0 fails, any other answers.\<close>

definition demo_ops :: "(nat, nat, unit, string) node_ops" where
  "demo_ops = \<lparr>
     op_IsAvailable = (\<lambda>_ w. (True, w)),
     op_TryAcquire = (\<lambda>_ w. (True, w)),
     op_Acquire = (\<lambda>_ w. (None, w)),
     op_Release = (\<lambda>_ w. w),
     op_CtxErr = (\<lambda>w. (None, w)),
     op_do = (\<lambda>n _ w. if n = 0 then ((None, NodeStatusFail, Some (ErrNew ''down'')), Suc w)
                      else ((Some ''pong'', NodeStatusSuccess, None), Suc w)) \<rparr>"

theorem conservative_run_witness:
  "length (answers (snd (snd (conservative_Execute (traced demo_ops)
     (newConservativeStrategy 3 False) [0, 2] () (0, []))))) \<le> 8"
proof -
  obtain out w' tr where e: "conservative_Execute (traced demo_ops)
     (newConservativeStrategy 3 False) [0, 2] () (0, []) = (out, (w', tr))"
    by (metis prod.exhaust)
  from conservative_run [OF e] show ?thesis unfolding e by (simp add: newConservativeStrategy_def)
qed

text \<open>
  The race strategy, whatever the nodes do and in whatever order its goroutines finish, gives
  back every throttle slot, also those of the nodes it acquired and did not race.
\<close>

theorem race_releases_all:
  assumes "fair_sched sched"
    and "race_Execute (traced ops) s sched nodes req (w, []) = (out, (w', tr))"
  shows "outstanding tr n = 0"
  using traced_slots.race_slots [OF _ assms, of n] by simp

theorem race_releases_all_witness:
  "outstanding (snd (snd (race_Execute (traced demo_ops) (newRaceStrategy 1 False)
     (\<lambda>cs. map (\<lambda>n. (n, True)) (rev cs)) [0, 2] () (0, [])))) 2 = 0"
proof -
  have f: "fair_sched (\<lambda>cs. map (\<lambda>n. (n, True)) (rev cs))"
    by (simp add: fair_sched_def comp_def)
  obtain out w' tr where e: "race_Execute (traced demo_ops) (newRaceStrategy 1 False)
     (\<lambda>cs. map (\<lambda>n. (n, True)) (rev cs)) [0, 2] () (0, []) = (out, (w', tr))"
    by (metis prod.exhaust)
  from race_releases_all [OF f e, of 2] show ?thesis by (simp add: e)
qed

text \<open>
  C11. When the nodes the race acquires all report back, the race returns the first final answer
  that arrived, no matter how many failures arrived before it, and fails only when every raced node
  failed; it races every acquired node, or \<^verbatim>\<open>concurrency\<close> of them when that is positive and smaller.
\<close>

theorem race_first_final_wins:
  assumes "fair_sched sched" and all: "\<forall>cs. \<forall>e\<in>set (sched cs). snd e"
    and scan: "race_scan (traced ops) nodes [] [] (w, []) = ((acquired, throttled), w1)"
    and acq: "acquired \<noteq> []"
    and ex: "race_Execute (traced ops) s sched nodes req (w, []) = (out, (w', tr))"
  shows "length (answers tr) = race_width s (length acquired) \<and>
    out = (case find (\<lambda>x. \<not> retryable x) (answers tr) of
      Some x \<Rightarrow> deliver x
    | None \<Rightarrow> race_pick (race_width s (length acquired)) []
        [Error e. (_, NodeStatusFail, Some e) \<leftarrow> answers tr])"
proof (rule conjI)
  define n where "n = race_width s (length acquired)"
  define cs where "cs = take n acquired"
  define w2 where "w2 = release_all (traced ops) (drop n acquired) w1"
  obtain rs w3 where go: "race_go (traced ops) req (sched cs) w2 = (rs, w3)"
    by (cases "race_go (traced ops) req (sched cs) w2")
  have out: "out = race_pick n rs []" and w3: "w3 = (w', tr)"
    using ex acq go
    by (simp_all add: race_Execute_def scan Let_def n_def [symmetric] cs_def [symmetric]
        w2_def [symmetric])
  have "answers (snd w2) = []"
    using traced_log.race_scan_log [OF scan] traced_log.release_all_log [of ops "drop n acquired" w1]
    by (simp add: w2_def answers_def)
  with traced_log.race_go_log [OF go] all have ans: "answers tr = rs" "length rs = length (sched cs)"
    by (auto simp: w3)
  have "length (sched cs) = length cs"
    using assms(1) by (metis fair_sched_def length_map size_mset)
  also have "\<dots> = n" by (auto simp: cs_def n_def race_width_def)
  finally show "length (answers tr) = race_width s (length acquired)" by (simp add: ans n_def)
  show "out = (case find (\<lambda>x. \<not> retryable x) (answers tr) of
      Some x \<Rightarrow> deliver x
    | None \<Rightarrow> race_pick (race_width s (length acquired)) []
        [Error e. (_, NodeStatusFail, Some e) \<leftarrow> answers tr])"
    unfolding ans(1) out n_def [symmetric]
    by (subst race_pick_first) (simp split: option.split)
qed

theorem race_first_final_wins_witness:
  "fst (race_Execute (traced demo_ops) (newRaceStrategy 0 False) (map (\<lambda>n. (n, True))) [0, 2] ()
     (0, [])) = (Some ''pong'', NodeStatusSuccess, None)"
proof -
  have f: "fair_sched (map (\<lambda>n. (n, True)))" by (simp add: fair_sched_def comp_def)
  have scan: "race_scan (traced demo_ops) [0, 2] [] [] (0, []) =
      (([0, 2], []), (0, [EvAcquired 0, EvAcquired 2]))"
    by (simp add: traced_def demo_ops_def)
  obtain out w' tr where e: "race_Execute (traced demo_ops) (newRaceStrategy 0 False)
      (map (\<lambda>n. (n, True))) [0, 2] () (0, []) = (out, (w', tr))"
    by (metis prod.exhaust)
  have "answers tr =
      [(None, NodeStatusFail, Some (ErrNew ''down'')), (Some ''pong'', NodeStatusSuccess, None)]"
    using e by (auto simp: race_Execute_def traced_def demo_ops_def newRaceStrategy_def race_width_def
        answers_def)
  with race_first_final_wins [OF f _ scan _ e] show ?thesis
    by (simp add: e retryable_def deliver_def)
qed

end
