(* ===== verification/Nodepool_Pool.thy ===== *)
theory Nodepool_Pool
  imports Nodepool_Strategy
begin

text \<open>
  \<^verbatim>\<open>provider/nodepool/pool.go\<close>: the pool of nodes.  Nodes are shared objects (the slice \<^verbatim>\<open>nodes\<close> and the
  map \<^verbatim>\<open>nodeMap\<close> point to the same ones, and requests in flight keep pointers), so they live in a
  store \<open>heap\<close> and the pool holds addresses.  Requests run over the store and the oracle tick;
  the pool's membership operations run under its lock.
\<close>

section \<open>State\<close>

type_synonym addr = nat

text \<open>A \<^verbatim>\<open>Transport\<close> is the function its \<^verbatim>\<open>Execute\<close> computes; the tick is the oracle for its answer.\<close>

type_synonym 'a Transport =
  "ctx \<Rightarrow> string \<Rightarrow> 'a Request \<Rightarrow> tick \<Rightarrow> 'a Response option \<times> goerr option"

datatype StrategyImpl = Conservative conservativeStrategy | Race raceStrategy

record ('a, 's, 'l) pool =
  p_opts :: Options
  p_transport :: "'a Transport"
  p_classifier :: "'a ResponseClassifier"
  p_strategy :: StrategyImpl
  nodes :: "addr list"
  nodeMap :: "string \<Rightarrow> addr option"
  heap :: "addr \<Rightarrow> ('a, 's, 'l) node"
  fresh :: addr
  stopped :: bool

text \<open>The environment: the throttle library and the clock.\<close>

record ('s, 'l) penv =
  lib :: "('s, 'l) throttle_lib"
  now :: clock

type_synonym ('a, 's, 'l) world = "(addr \<Rightarrow> ('a, 's, 'l) node) \<times> tick"

section \<open>Construction and membership\<close>

text \<open>\<^verbatim>\<open>n := newNode(cfg, opts); p.nodes = append(p.nodes, n); p.nodeMap[cfg.Endpoint] = n\<close>\<close>

definition appendNode ::
    "('s, 'l) penv \<Rightarrow> 'a NodeConfig \<Rightarrow> ('a, 's, 'l) pool \<Rightarrow> ('a, 's, 'l) pool" where
  "appendNode env cfg p =
     p\<lparr>nodes := nodes p @ [fresh p],
       nodeMap := (nodeMap p)(Endpoint cfg \<mapsto> fresh p),
       heap := (heap p)(fresh p := newNode (lib env) cfg (p_opts p)),
       fresh := Suc (fresh p)\<rparr>"

definition strategy_of :: "Options \<Rightarrow> StrategyImpl" where
  "strategy_of o1 =
     (case Strategy o1 of
        StrategyConservative \<Rightarrow> Conservative (newConservativeStrategy (MaxRetries o1) (WaitOnThrottle o1))
      | StrategyRace \<Rightarrow> Race (newRaceStrategy (RaceConcurrency o1) (WaitOnThrottle o1))
      | StrategyOther _ \<Rightarrow> Conservative (newConservativeStrategy (MaxRetries o1) (WaitOnThrottle o1)))"

text \<open>The pool before its nodes; unallocated addresses of the store hold an arbitrary node.\<close>

definition emptyPool ::
    "'a Transport \<Rightarrow> 'a ResponseClassifier \<Rightarrow> Options \<Rightarrow> ('a, 's, 'l) node
     \<Rightarrow> ('a, 's, 'l) pool" where
  "emptyPool tr cls o1 dummy =
     \<lparr> p_opts = o1, p_transport = tr, p_classifier = cls, p_strategy = strategy_of o1,
       nodes = [], nodeMap = Map.empty, heap = (\<lambda>_. dummy), fresh = 0, stopped = False \<rparr>"

definition New ::
    "('s, 'l) penv \<Rightarrow> 'a Transport option \<Rightarrow> 'a ResponseClassifier option \<Rightarrow> 'a NodeConfig list
     \<Rightarrow> option_call list \<Rightarrow> goerr + ('a, 's, 'l) pool" where
  "New env transport classifier configs os =
     (case transport of
        None \<Rightarrow> Inl (ErrNew ''nodepool: transport is required'')
      | Some tr \<Rightarrow>
          if configs = [] then Inl (ErrNew ''nodepool: at least one node config is required'')
          else
            (let o1 = apply_options os defaultOptions;
                 cls = (case classifier of None \<Rightarrow> DefaultClassifier_Classify | Some c \<Rightarrow> c);
                 p0 = emptyPool tr cls o1 (newNode (lib env) (hd configs) o1)
             in Inr (foldl (\<lambda>p cfg. appendNode env cfg p) p0 configs)))"

definition Close :: "('a, 's, 'l) pool \<Rightarrow> ('a, 's, 'l) pool" where
  "Close p = p\<lparr>stopped := True\<rparr>"

definition updateNodeAt ::
    "addr \<Rightarrow> 'a NodeConfig \<Rightarrow> ('a, 's, 'l) pool \<Rightarrow> ('a, 's, 'l) pool" where
  "updateNodeAt a cfg p = p\<lparr>heap := (heap p)(a := updateConfig cfg (heap p a))\<rparr>"

definition AddNode ::
    "('s, 'l) penv \<Rightarrow> 'a NodeConfig \<Rightarrow> ('a, 's, 'l) pool \<Rightarrow> ('a, 's, 'l) pool" where
  "AddNode env cfg p =
     (case nodeMap p (Endpoint cfg) of
        Some existing \<Rightarrow> updateNodeAt existing cfg p
      | None \<Rightarrow> appendNode env cfg p)"

definition endpoint_at :: "('a, 's, 'l) pool \<Rightarrow> addr \<Rightarrow> string" where
  "endpoint_at p a = Endpoint (config (heap p a))"

definition RemoveNode :: "string \<Rightarrow> ('a, 's, 'l) pool \<Rightarrow> ('a, 's, 'l) pool" where
  "RemoveNode endpoint p =
     (case nodeMap p endpoint of
        None \<Rightarrow> p
      | Some _ \<Rightarrow>
          (let p1 = p\<lparr>nodeMap := (nodeMap p)(endpoint := None)\<rparr>
           in p1\<lparr>nodes := filter (\<lambda>a. endpoint_at p1 a \<noteq> endpoint) (nodes p1)\<rparr>))"

text \<open>The last loop of \<^verbatim>\<open>UpdateNodes\<close>: keep the nodes that are still configured.\<close>

fun sweep ::
    "(addr \<Rightarrow> string) \<Rightarrow> string set \<Rightarrow> addr list \<Rightarrow> addr list \<Rightarrow> (string \<Rightarrow> addr option)
     \<Rightarrow> addr list \<times> (string \<Rightarrow> addr option)" where
  "sweep ep keep [] filtered m = (filtered, m)"
| "sweep ep keep (n # ns) filtered m =
     (if ep n \<in> keep then sweep ep keep ns (filtered @ [n]) m
      else sweep ep keep ns filtered (m(ep n := None)))"

definition UpdateNodes ::
    "('s, 'l) penv \<Rightarrow> 'a NodeConfig list \<Rightarrow> ('a, 's, 'l) pool \<Rightarrow> ('a, 's, 'l) pool" where
  "UpdateNodes env configs p =
     (let newMap = set (map Endpoint configs);
          p1 = foldl (\<lambda>p cfg. AddNode env cfg p) p configs;
          (filtered, m) = sweep (endpoint_at p1) newMap (nodes p1) [] (nodeMap p1)
      in p1\<lparr>nodes := filtered, nodeMap := m\<rparr>)"

definition pool_NodeStats :: "('a, 's, 'l) pool \<Rightarrow> NodeStats list" where
  "pool_NodeStats p = map (\<lambda>a. Stats (heap p a)) (nodes p)"

definition NodeCount :: "('a, 's, 'l) pool \<Rightarrow> int" where
  "NodeCount p = int (length (nodes p))"

text \<open>\<^verbatim>\<open>sort.SliceStable\<close>: a stable sort by the given \<^verbatim>\<open>less\<close>.\<close>

fun insert_stable :: "('x \<Rightarrow> 'x \<Rightarrow> bool) \<Rightarrow> 'x \<Rightarrow> 'x list \<Rightarrow> 'x list" where
  "insert_stable lt x [] = [x]"
| "insert_stable lt x (y # ys) =
     (if lt y x then y # insert_stable lt x ys else x # y # ys)"

definition SliceStable :: "('x \<Rightarrow> 'x \<Rightarrow> bool) \<Rightarrow> 'x list \<Rightarrow> 'x list" where
  "SliceStable lt xs = foldr (insert_stable lt) xs []"

definition resortNodes :: "('a, 's, 'l) pool \<Rightarrow> ('a, 's, 'l) pool" where
  "resortNodes p =
     p\<lparr>nodes := SliceStable (\<lambda>a b. f_less (score (heap p b)) (score (heap p a))) (nodes p)\<rparr>"

section \<open>Requests\<close>

text \<open>\<^verbatim>\<open>doOnNode\<close>: admission, transport call, classification, health record.\<close>

definition record_outcome ::
    "NodeStatus \<Rightarrow> int \<Rightarrow> int \<Rightarrow> ('a, 's, 'l) node \<Rightarrow> ('a, 's, 'l) node" where
  "record_outcome status latency t n =
     (case status of
        NodeStatusSuccess \<Rightarrow> RecordSuccess latency n
      | NodeStatusFail \<Rightarrow> RecordFailure latency t n
      | NodeStatusBizError \<Rightarrow> RecordBizError n
      | NodeStatusOther _ \<Rightarrow> n)"

definition doOnNode ::
    "('s, 'l) penv \<Rightarrow> 'a Transport \<Rightarrow> 'a ResponseClassifier \<Rightarrow> ctx \<Rightarrow> addr \<Rightarrow> 'a Request
     \<Rightarrow> ('a, 's, 'l) world \<Rightarrow> 'a Response outcome \<times> ('a, 's, 'l) world" where
  "doOnNode env transport pcls c a req w =
     (case w of (h, i) \<Rightarrow>
        (case tryTransitionToHalfOpen (now env i) (h a) of (ok, n1) \<Rightarrow>
           if \<not> ok then
             ((None, NodeStatusFail,
               Some (ErrNew (''nodepool: node '' @ Endpoint (config n1) @ '' circuit open''))),
              (h(a := n1), i + 1))
           else
             (let start = now env (i + 1);
                  (resp0, err) = transport c (Endpoint (config n1)) req (i + 2);
                  latency = now env (i + 3) - start;
                  resp = map_option (\<lambda>r. r\<lparr>Latency := latency\<rparr>) resp0;
                  classifier = (case Classifier (config n1) of None \<Rightarrow> pcls | Some k \<Rightarrow> k);
                  status = classifier c (Endpoint (config n1)) resp err;
                  n2 = record_outcome status latency (now env (i + 4)) n1
              in ((resp, status, err), (h(a := n2), i + 5)))))"

definition pool_ops ::
    "('s, 'l) penv \<Rightarrow> 'a Transport \<Rightarrow> 'a ResponseClassifier \<Rightarrow> ctx
     \<Rightarrow> (addr, ('a, 's, 'l) world, 'a Request, 'a Response) node_ops" where
  "pool_ops env transport pcls c = \<lparr>
     op_IsAvailable = (\<lambda>a (h, i). (IsAvailable (now env i) (h a), (h, i + 1))),
     op_TryAcquire = (\<lambda>a (h, i). case TryAcquire (lib env) (now env i) (h a) of (ok, n) \<Rightarrow>
       (ok, (h(a := n), i + 1))),
     op_Acquire = (\<lambda>a (h, i). case Acquire (lib env) c i (h a) of (e, n) \<Rightarrow>
       (e, (h(a := n), i + 1))),
     op_Release = (\<lambda>a (h, i). (h(a := Release (lib env) (h a)), i)),
     op_CtxErr = (\<lambda>(h, i). (ctxErr c i, (h, i + 1))),
     op_do = doOnNode env transport pcls c \<rparr>"

text \<open>
  \<^verbatim>\<open>doWithStatus\<close> snapshots the node list and runs the strategy on it.  The schedule is the order in
  which the goroutines of a race finish.
\<close>

definition doWithStatus ::
    "('s, 'l) penv \<Rightarrow> (addr list \<Rightarrow> (addr \<times> bool) list) \<Rightarrow> ('a, 's, 'l) pool \<Rightarrow> ctx
     \<Rightarrow> 'a Request \<Rightarrow> ('a, 's, 'l) world \<Rightarrow> 'a Response outcome \<times> ('a, 's, 'l) world" where
  "doWithStatus env sched p c req w =
     (let ops = pool_ops env (p_transport p) (p_classifier p) c
      in case p_strategy p of
           Conservative s \<Rightarrow> conservative_Execute ops s (nodes p) req w
         | Race s \<Rightarrow> race_Execute ops s sched (nodes p) req w)"

definition Do ::
    "('s, 'l) penv \<Rightarrow> (addr list \<Rightarrow> (addr \<times> bool) list) \<Rightarrow> ('a, 's, 'l) pool \<Rightarrow> ctx
     \<Rightarrow> 'a Request \<Rightarrow> ('a, 's, 'l) world
     \<Rightarrow> ('a Response option \<times> goerr option) \<times> ('a, 's, 'l) world" where
  "Do env sched p c req w =
     (case doWithStatus env sched p c req w of ((resp, _, err), w') \<Rightarrow> ((resp, err), w'))"

text \<open>
  \<^verbatim>\<open>DoMulti\<close>: one goroutine per request, run in some order; each writes its own slot.
\<close>

fun multi_go ::
    "('q \<Rightarrow> 'w \<Rightarrow> ('r option \<times> goerr option) \<times> 'w) \<Rightarrow> 'q list \<Rightarrow> nat list
     \<Rightarrow> 'r option list \<Rightarrow> goerr option list \<Rightarrow> 'w \<Rightarrow> ('r option list \<times> goerr option list) \<times> 'w" where
  "multi_go dofn reqs [] responses errs w = ((responses, errs), w)"
| "multi_go dofn reqs (i # order) responses errs w =
     (case dofn (reqs ! i) w of ((resp, err), w') \<Rightarrow>
        multi_go dofn reqs order (responses[i := resp]) (errs[i := err]) w')"

definition DoMulti ::
    "('s, 'l) penv \<Rightarrow> (addr list \<Rightarrow> (addr \<times> bool) list) \<Rightarrow> ('a, 's, 'l) pool \<Rightarrow> ctx
     \<Rightarrow> 'a Request list \<Rightarrow> nat list \<Rightarrow> ('a, 's, 'l) world
     \<Rightarrow> ('a Response option list \<times> goerr option list) \<times> ('a, 's, 'l) world" where
  "DoMulti env sched p c reqs order w =
     multi_go (Do env sched p c) reqs order
       (replicate (length reqs) None) (replicate (length reqs) None) w"

section \<open>Retrying until every request is settled\<close>

text \<open>\<^verbatim>\<open>time.Duration(round) * 500 * time.Millisecond\<close>, capped at five seconds.\<close>

definition backoff :: "int \<Rightarrow> int" where
  "backoff rnd =
     (let b = wrap64 (wrap64 (rnd * 500) * Millisecond)
      in if b > 5 * Second then 5 * Second else b)"

text \<open>One round: the pending requests run in some order; the failed ones stay pending.\<close>

fun complete_round ::
    "('q \<Rightarrow> 'w \<Rightarrow> 'r outcome \<times> 'w) \<Rightarrow> 'q list \<Rightarrow> nat list \<Rightarrow> nat list
     \<Rightarrow> 'r option list \<Rightarrow> goerr option list \<Rightarrow> 'w
     \<Rightarrow> (nat list \<times> 'r option list \<times> goerr option list) \<times> 'w" where
  "complete_round dofn reqs [] nextPending responses errs w = ((nextPending, responses, errs), w)"
| "complete_round dofn reqs (i # order) nextPending responses errs w =
     (case dofn (reqs ! i) w of ((resp, status, err), w') \<Rightarrow>
        (case status of
           NodeStatusSuccess \<Rightarrow>
             complete_round dofn reqs order nextPending (responses[i := resp]) errs w'
         | NodeStatusBizError \<Rightarrow>
             complete_round dofn reqs order nextPending (responses[i := resp]) (errs[i := err]) w'
         | _ \<Rightarrow> complete_round dofn reqs order (nextPending @ [i]) responses errs w'))"

definition fail_all :: "nat list \<Rightarrow> goerr option \<Rightarrow> goerr option list \<Rightarrow> goerr option list" where
  "fail_all pending e errs = foldl (\<lambda>es i. es[i := e]) errs pending"

text \<open>
  The loop, with a bound on the rounds; \<open>ctxerr\<close> reads \<^verbatim>\<open>ctx.Err()\<close> before a round; \<open>pause\<close> is the
  \<^verbatim>\<open>select\<close> on \<^verbatim>\<open>time.After(backoff)\<close> and \<^verbatim>\<open>ctx.Done()\<close> before every round but the first.
  \<open>order\<close> gives the order in which the goroutines of a round finish.  \<^term>\<open>None\<close>: still running.
\<close>

fun complete_loop ::
    "('w \<Rightarrow> goerr option \<times> 'w) \<Rightarrow> (int \<Rightarrow> 'w \<Rightarrow> goerr option \<times> 'w) \<Rightarrow> (int \<Rightarrow> nat list \<Rightarrow> nat list)
     \<Rightarrow> ('q \<Rightarrow> 'w \<Rightarrow> 'r outcome \<times> 'w) \<Rightarrow> 'q list \<Rightarrow> nat \<Rightarrow> int \<Rightarrow> nat list \<Rightarrow> 'r option list \<Rightarrow> goerr option list \<Rightarrow> 'w
     \<Rightarrow> (('r option list \<times> goerr option list) \<times> 'w) option" where
  "complete_loop ctxerr pause order dofn reqs 0 rnd pending responses errs w = None"
| "complete_loop ctxerr pause order dofn reqs (Suc k) rnd pending responses errs w =
     (if pending = [] then Some ((responses, errs), w)
      else case ctxerr w of
        (Some e, w1) \<Rightarrow> Some ((responses, fail_all pending (Some e) errs), w1)
      | (None, w1) \<Rightarrow>
          (case (if rnd > 0 then pause (backoff rnd) w1 else (None, w1)) of
             (Some e, w2) \<Rightarrow> Some ((responses, fail_all pending (Some e) errs), w2)
           | (None, w2) \<Rightarrow>
               (case complete_round dofn reqs (order rnd pending) [] responses errs w2 of
                  ((nextPending, responses', errs'), w3) \<Rightarrow>
                    complete_loop ctxerr pause order dofn reqs k (rnd + 1) nextPending
                      responses' errs' w3)))"

text \<open>
  The pause ends with the timer or with the context, whichever the tick says; how long it lasts
  shows in the clock only.
\<close>

definition DoUntilComplete ::
    "nat \<Rightarrow> ('s, 'l) penv \<Rightarrow> (addr list \<Rightarrow> (addr \<times> bool) list) \<Rightarrow> (int \<Rightarrow> nat list \<Rightarrow> nat list)
     \<Rightarrow> ('a, 's, 'l) pool \<Rightarrow> ctx \<Rightarrow> 'a Request list \<Rightarrow> ('a, 's, 'l) world
     \<Rightarrow> (('a Response option list \<times> goerr option list) \<times> ('a, 's, 'l) world) option" where
  "DoUntilComplete fuel env sched order p c reqs w =
     complete_loop (\<lambda>(h, i). (ctxErr c i, (h, i + 1))) (\<lambda>d (h, i). (ctxErr c i, (h, i + 1))) order
       (doWithStatus env sched p c) reqs fuel 0 [0..<length reqs]
       (replicate (length reqs) None) (replicate (length reqs) None) w"

section \<open>The membership invariant\<close>

text \<open>
  Addresses in use are distinct and allocated; the map points at nodes of the slice that carry the
  endpoint, and every endpoint of the slice is mapped.  Two nodes of the slice may share an endpoint
  (when \<^verbatim>\<open>New\<close> is given duplicates); the map then knows the last one.
\<close>

definition pool_inv :: "('a, 's, 'l) pool \<Rightarrow> bool" where
  "pool_inv p \<longleftrightarrow>
     distinct (nodes p) \<and> (\<forall>a\<in>set (nodes p). a < fresh p) \<and>
     (\<forall>e a. nodeMap p e = Some a \<longrightarrow> a \<in> set (nodes p) \<and> endpoint_at p a = e) \<and>
     (\<forall>a\<in>set (nodes p). nodeMap p (endpoint_at p a) \<noteq> None)"

lemma pool_invD:
  assumes "pool_inv p"
  shows "nodeMap p e = Some a \<Longrightarrow> a \<in> set (nodes p)"
    and "nodeMap p e = Some a \<Longrightarrow> endpoint_at p a = e"
    and "a \<in> set (nodes p) \<Longrightarrow> a < fresh p"
    and "a \<in> set (nodes p) \<Longrightarrow> \<exists>b. nodeMap p (endpoint_at p a) = Some b"
  using assms by (auto simp: pool_inv_def)

lemma pool_inv_dom: "pool_inv p \<Longrightarrow> dom (nodeMap p) = endpoint_at p ` set (nodes p)"
  by (fastforce simp: pool_inv_def dom_def)

lemma endpoint_at_append:
  "endpoint_at (appendNode env cfg p) a = (if a = fresh p then Endpoint cfg else endpoint_at p a)"
  by (simp add: endpoint_at_def appendNode_def)

lemma endpoint_at_update:
  "endpoint_at (updateNodeAt b cfg p) a = (if a = b then Endpoint cfg else endpoint_at p a)"
  by (simp add: endpoint_at_def updateNodeAt_def updateConfig_def)

lemma appendNode_fields [simp]:
  "nodes (appendNode env cfg p) = nodes p @ [fresh p]"
  "nodeMap (appendNode env cfg p) = (nodeMap p)(Endpoint cfg \<mapsto> fresh p)"
  "fresh (appendNode env cfg p) = Suc (fresh p)"
  "p_opts (appendNode env cfg p) = p_opts p"
  "p_strategy (appendNode env cfg p) = p_strategy p"
  by (simp_all add: appendNode_def)

lemma updateNodeAt_fields [simp]:
  "nodes (updateNodeAt a cfg p) = nodes p" "nodeMap (updateNodeAt a cfg p) = nodeMap p"
  "fresh (updateNodeAt a cfg p) = fresh p"
  by (simp_all add: updateNodeAt_def)

lemma appendNode_inv [go_inv]: "pool_inv p \<Longrightarrow> pool_inv (appendNode env cfg p)"
  unfolding pool_inv_def
  by (auto simp: endpoint_at_append dest: less_imp_neq split: if_splits)

lemma updateNodeAt_inv:
  "pool_inv p \<Longrightarrow> nodeMap p (Endpoint cfg) = Some a \<Longrightarrow> pool_inv (updateNodeAt a cfg p)"
  unfolding pool_inv_def by (auto simp: endpoint_at_update split: if_splits) metis

lemma AddNode_inv [go_inv]: "pool_inv p \<Longrightarrow> pool_inv (AddNode env cfg p)"
  by (simp add: AddNode_def appendNode_inv updateNodeAt_inv split: option.split)

lemma RemoveNode_inv [go_inv]: "pool_inv p \<Longrightarrow> pool_inv (RemoveNode e p)"
  unfolding pool_inv_def by (auto simp: RemoveNode_def endpoint_at_def Let_def split: option.split)

lemma foldl_inv: "(\<And>p x. I p \<Longrightarrow> I (f p x)) \<Longrightarrow> I p \<Longrightarrow> I (foldl f p xs)"
  by (induction xs arbitrary: p) auto

lemma emptyPool_inv: "pool_inv (emptyPool tr cls o1 d)"
  by (simp add: pool_inv_def emptyPool_def)

lemma New_inv [go_inv]: "New env tr cls cfgs os = Inr p \<Longrightarrow> pool_inv p"
  by (auto simp: New_def Let_def split: option.splits if_splits
      intro: foldl_inv [where I = pool_inv] appendNode_inv emptyPool_inv)

text \<open>\<^const>\<open>sweep\<close> filters the slice and drops the map entries of what it filters out.\<close>

lemma sweep_eq:
  "sweep ep keep ns fs m =
     (fs @ filter (\<lambda>a. ep a \<in> keep) ns,
      (\<lambda>e. if e \<in> ep ` set ns \<and> e \<notin> keep then None else m e))"
  by (induction ns arbitrary: fs m) (auto simp: fun_eq_iff)

lemma UpdateNodes_inv [go_inv]: "pool_inv p \<Longrightarrow> pool_inv (UpdateNodes env cfgs p)"
proof -
  assume "pool_inv p"
  then have 1: "pool_inv (foldl (\<lambda>p cfg. AddNode env cfg p) p cfgs)"
    by (auto intro: foldl_inv [where I = pool_inv] AddNode_inv)
  have *: "pool_inv (q\<lparr>nodes := fst r, nodeMap := snd r\<rparr>)"
    if "pool_inv q" "r = sweep (endpoint_at q) keep (nodes q) [] (nodeMap q)" for q r keep
    using that unfolding pool_inv_def
    by (auto simp: sweep_eq endpoint_at_def split: if_splits)
  from * [OF 1 refl] show ?thesis by (simp add: UpdateNodes_def Let_def split_beta)
qed

section \<open>What synchronising the node list does\<close>

lemma AddNode_endpoints:
  "pool_inv p \<Longrightarrow>
   endpoint_at (AddNode env cfg p) ` set (nodes (AddNode env cfg p)) =
   insert (Endpoint cfg) (endpoint_at p ` set (nodes p))"
proof (cases "nodeMap p (Endpoint cfg)")
  case None
  assume inv: "pool_inv p"
  have "fresh p \<notin> set (nodes p)" using pool_invD(3) [OF inv] by blast
  then show ?thesis using None by (auto simp: AddNode_def endpoint_at_append image_iff)
next
  case (Some a)
  assume inv: "pool_inv p"
  from pool_invD(1,2) [OF inv Some] Some show ?thesis
    by (auto simp: AddNode_def endpoint_at_update image_iff)
qed

text \<open>The configuration a node ends up with, and which nodes keep their health record.\<close>

lemma AddNode_lookup:
  assumes "pool_inv p"
  obtains a where "nodeMap (AddNode env cfg p) (Endpoint cfg) = Some a"
    "config (heap (AddNode env cfg p) a) = cfg"
  using assms by (cases "nodeMap p (Endpoint cfg)")
    (auto simp: AddNode_def appendNode_def updateNodeAt_def updateConfig_def)

lemma AddNode_other:
  assumes "pool_inv p" "e \<noteq> Endpoint cfg" "nodeMap p e = Some a"
  shows "nodeMap (AddNode env cfg p) e = Some a \<and> heap (AddNode env cfg p) a = heap p a"
proof -
  have "a \<noteq> fresh p" using pool_invD(1,3) [OF assms(1)] assms(3) by blast
  moreover have "nodeMap p (Endpoint cfg) \<noteq> Some a" using pool_invD(2) [OF assms(1)] assms(2,3) by blast
  ultimately show ?thesis using assms
    by (auto simp: AddNode_def appendNode_def updateNodeAt_def split: option.split)
qed

lemma AddNode_other_config:
  assumes "pool_inv p" "e \<noteq> Endpoint cfg" "nodeMap p e = Some a" "config (heap p a) = k"
  shows "\<exists>b. nodeMap (AddNode env cfg p) e = Some b \<and> config (heap (AddNode env cfg p) b) = k"
  using AddNode_other [OF assms(1-3)] assms(4) by auto

lemma AddNodes_lookup:
  assumes "pool_inv p"
    and "map_of (rev (map (\<lambda>c. (Endpoint c, c)) cfgs)) e = Some cfg
      \<or> e \<notin> Endpoint ` set cfgs \<and> (\<exists>a. nodeMap p e = Some a \<and> config (heap p a) = cfg)"
  shows "\<exists>a. nodeMap (foldl (\<lambda>p cfg. AddNode env cfg p) p cfgs) e = Some a \<and>
    config (heap (foldl (\<lambda>p cfg. AddNode env cfg p) p cfgs) a) = cfg"
  using assms
proof (induction cfgs rule: rev_induct)
  case Nil
  then show ?case by simp
next
  case (snoc c cs)
  let ?q = "foldl (\<lambda>p cfg. AddNode env cfg p) p cs"
  have q: "pool_inv ?q" using snoc.prems(1) by (auto intro: foldl_inv [where I = pool_inv] AddNode_inv)
  show ?case
  proof (cases "e = Endpoint c")
    case True
    with snoc.prems(2) have "cfg = c" by auto
    with AddNode_lookup [OF q, of env c] True show ?thesis by auto
  next
    case False
    with snoc obtain a where "nodeMap ?q e = Some a" "config (heap ?q a) = cfg" by auto
    with AddNode_other_config [OF q False] show ?thesis by simp
  qed
qed

lemma AddNodes_endpoints:
  "pool_inv p \<Longrightarrow>
   endpoint_at (foldl (\<lambda>p cfg. AddNode env cfg p) p cfgs) `
     set (nodes (foldl (\<lambda>p cfg. AddNode env cfg p) p cfgs)) =
   Endpoint ` set cfgs \<union> endpoint_at p ` set (nodes p)"
proof (induction cfgs arbitrary: p)
  case (Cons c cs)
  from Cons.IH [OF AddNode_inv [OF Cons.prems]] AddNode_endpoints [OF Cons.prems] show ?case by auto
qed simp

section \<open>Requests respect the nodes' invariants\<close>

text \<open>Throttling touches the throttle fields only.\<close>

definition same_health :: "('a, 's, 'l) node \<Rightarrow> ('a, 's, 'l) node \<Rightarrow> bool" where
  "same_health m n \<longleftrightarrow> n = m\<lparr>concSem := concSem n, rateLimiter := rateLimiter n,
     minuteLimiter := minuteLimiter n\<rparr>"

lemma same_healthI:
  "same_health n n" "same_health n (n\<lparr>concSem := x\<rparr>)" "same_health n (n\<lparr>rateLimiter := y\<rparr>)"
  "same_health n (n\<lparr>minuteLimiter := y\<rparr>)"
  by (simp_all add: same_health_def)

lemma same_healthE:
  assumes "same_health m n"
  obtains x y z where "n = m\<lparr>concSem := x, rateLimiter := y, minuteLimiter := z\<rparr>"
  using assms unfolding same_health_def by blast

lemma same_health_upd:
  "same_health m (m\<lparr>concSem := x, rateLimiter := y, minuteLimiter := z\<rparr>)"
  by (simp add: same_health_def)

lemma same_health_trans: "same_health a b \<Longrightarrow> same_health b c \<Longrightarrow> same_health a c"
  by (elim same_healthE) (simp add: same_health_upd)

lemma same_health_steps:
  "same_health n (snd (pass_sem l n))" "same_health n (snd (pass_rate l t n))"
  "same_health n (snd (pass_minute l t n))" "same_health n (snd (wait_sem l c i n))"
  "same_health n (snd (wait_rate l c i n))" "same_health n (snd (wait_minute l c i n))"
  "same_health n (Release l n)"
  by (auto simp: pass_sem_def pass_rate_def pass_minute_def wait_sem_def wait_rate_def
      wait_minute_def Release_def same_healthI split: option.split prod.split)

lemma TryAcquire_health: "same_health n (snd (TryAcquire l t n))"
proof -
  obtain ok1 n1 where 1: "pass_sem l n = (ok1, n1)" by (cases "pass_sem l n")
  obtain ok2 n2 where 2: "pass_rate l t n1 = (ok2, n2)" by (cases "pass_rate l t n1")
  obtain ok3 n3 where 3: "pass_minute l t n2 = (ok3, n3)" by (cases "pass_minute l t n2")
  have "same_health n n1" "same_health n1 n2" "same_health n2 n3"
    using same_health_steps(1) [of n l] same_health_steps(2) [of n1 l t]
      same_health_steps(3) [of n2 l t] by (simp_all add: 1 2 3)
  then have "same_health n n1" "same_health n n2" "same_health n n3"
    "same_health n (Release l n2)" "same_health n (Release l n3)"
    by (blast intro: same_health_steps(7) same_health_trans)+
  then show ?thesis by (simp add: TryAcquire_def 1 2 3 same_healthI(1))
qed

lemma Acquire_health: "same_health n (snd (Acquire l c i n))"
proof -
  obtain e1 n1 where 1: "wait_sem l c i n = (e1, n1)" by (cases "wait_sem l c i n")
  obtain e2 n2 where 2: "wait_rate l c i n1 = (e2, n2)" by (cases "wait_rate l c i n1")
  obtain e3 n3 where 3: "wait_minute l c i n2 = (e3, n3)" by (cases "wait_minute l c i n2")
  have "same_health n n1" "same_health n1 n2" "same_health n2 n3"
    using same_health_steps(4) [of n l c i] same_health_steps(5) [of n1 l c i]
      same_health_steps(6) [of n2 l c i] by (simp_all add: 1 2 3)
  then have "same_health n n1" "same_health n n2" "same_health n n3"
    "same_health n (Release l n2)" "same_health n (Release l n3)"
    by (blast intro: same_health_steps(7) same_health_trans)+
  then show ?thesis by (simp add: Acquire_def 1 2 3 same_healthI(1))
qed

text \<open>What any step of a request may do to one node.\<close>

definition node_le :: "('a, 's, 'l) node \<Rightarrow> ('a, 's, 'l) node \<Rightarrow> bool" where
  "node_le m n \<longleftrightarrow> config n = config m \<and> opts n = opts m \<and> (node_inv m \<longrightarrow> node_inv n)"

lemma node_le_refl [simp]: "node_le n n"
  by (simp add: node_le_def)

lemma node_inv_throttle:
  "node_inv (m\<lparr>concSem := x, rateLimiter := y, minuteLimiter := z\<rparr>) = node_inv m"
  by (simp add: node_inv_def)

lemma same_health_le: "same_health m n \<Longrightarrow> node_le m n"
  by (elim same_healthE) (simp add: node_le_def node_inv_throttle)

lemma node_step_le: "node_le n (node_step n e)"
  by (simp add: node_le_def node_step_inv)

lemma record_outcome_le: "node_le n (record_outcome st lat t n)"
  using node_step_le [of n "ESuccess lat"] node_step_le [of n "EFailure lat t"]
    node_step_le [of n EBizError]
  by (simp add: record_outcome_def split: NodeStatus.split)

lemma node_le_trans: "node_le a b \<Longrightarrow> node_le b c \<Longrightarrow> node_le a c"
  by (auto simp: node_le_def)

definition world_le :: "('a, 's, 'l) world \<Rightarrow> ('a, 's, 'l) world \<Rightarrow> bool" where
  "world_le w w' \<longleftrightarrow> (\<forall>a. node_le (fst w a) (fst w' a)) \<and> snd w \<le> snd w'"

lemma world_le_upd: "node_le (h a) n \<Longrightarrow> i \<le> j \<Longrightarrow> world_le (h, i) (h(a := n), j)"
  by (simp add: world_le_def)

lemma doOnNode_le: "doOnNode env tr cls c a q w = (out, w') \<Longrightarrow> world_le w w'"
proof -
  assume d: "doOnNode env tr cls c a q w = (out, w')"
  obtain h i where w: "w = (h, i)" by (cases w)
  obtain ok n1 where 1: "tryTransitionToHalfOpen (now env i) (h a) = (ok, n1)"
    by (cases "tryTransitionToHalfOpen (now env i) (h a)")
  have n1: "node_le (h a) n1" using node_step_le [of "h a" "EProbe (now env i)"] by (simp add: 1)
  show ?thesis
    using d n1 node_le_trans [OF n1 record_outcome_le]
    by (auto simp: doOnNode_def w 1 Let_def world_le_def split: if_splits prod.splits)
qed

interpretation pool_respect: ops_respect "pool_ops env tr cls c" world_le
  for env :: "('s, 'l) penv" and tr :: "'a Transport" and cls :: "'a ResponseClassifier" and c :: ctx
proof unfold_locales
  show "world_le w1 w2 \<Longrightarrow> world_le w2 w3 \<Longrightarrow> world_le w1 w3"
    for w1 w2 w3 :: "('a, 's, 'l) world"
    by (auto simp: world_le_def intro: node_le_trans le_trans)
  show "op_TryAcquire (pool_ops env tr cls c) n w = (ok, w') \<Longrightarrow> world_le w w'" for n w ok w'
    using TryAcquire_health [of "fst w n" "lib env" "now env (snd w)"]
    by (auto simp: pool_ops_def split: prod.splits intro!: world_le_upd same_health_le)
  show "op_Acquire (pool_ops env tr cls c) n w = (e, w') \<Longrightarrow> world_le w w'" for n w e w'
    using Acquire_health [of "fst w n" "lib env" c "snd w"]
    by (auto simp: pool_ops_def split: prod.splits intro!: world_le_upd same_health_le)
  show "world_le w (op_Release (pool_ops env tr cls c) n w)" for n w
    by (auto simp: pool_ops_def split: prod.splits
        intro!: world_le_upd same_health_le same_health_steps(7))
qed (auto simp: pool_ops_def world_le_def split: prod.splits dest: doOnNode_le)

lemma doWithStatus_le:
  "doWithStatus env sched p c q w = (out, w') \<Longrightarrow> world_le w w'"
  by (auto simp: doWithStatus_def Let_def split: StrategyImpl.splits
      dest: pool_respect.conservative_R pool_respect.race_R)

section \<open>Requests give their slots back\<close>

text \<open>With a semaphore that keeps its contract, the pool's operations keep the slot contract.\<close>

definition slots_wf :: "('s \<Rightarrow> int) \<Rightarrow> (addr \<Rightarrow> int) \<Rightarrow> ('a, 's, 'l) world \<Rightarrow> bool" where
  "slots_wf held cost w \<longleftrightarrow> (\<forall>a. has_sem (fst w a) = cost a \<and> 0 \<le> slots held (fst w a))"

lemma doOnNode_concSem: "doOnNode env tr cls c a q w = (out, w') \<Longrightarrow> concSem (fst w' b) = concSem (fst w b)"
proof -
  assume d: "doOnNode env tr cls c a q w = (out, w')"
  obtain h i where w: "w = (h, i)" by (cases w)
  obtain ok n1 where 1: "tryTransitionToHalfOpen (now env i) (h a) = (ok, n1)"
    by (cases "tryTransitionToHalfOpen (now env i) (h a)")
  have n1: "concSem n1 = concSem (h a)"
    using node_step_frame(3) [of "h a" "EProbe (now env i)"] by (simp add: 1)
  have ro: "concSem (record_outcome st lat t n1) = concSem n1" for st lat t
    using node_step_frame(3) [of n1 "ESuccess lat"] node_step_frame(3) [of n1 "EFailure lat t"]
      node_step_frame(3) [of n1 EBizError]
    by (simp add: record_outcome_def split: NodeStatus.split)
  show ?thesis using d n1 ro by (auto simp: doOnNode_def w 1 Let_def split: if_splits prod.splits)
qed

lemma no_sem_slots: "has_sem n = 0 \<and> slots held n = 0 \<or> has_sem n = 1"
  by (simp add: has_sem_def slots_def split: option.split)

lemma pool_node_slots:
  assumes "sem_contract (lib env) held cap" "\<And>a. 0 \<le> cost a"
  shows "node_slots (pool_ops env tr cls c) (\<lambda>a w. slots held (fst w a)) cost (slots_wf held cost)"
proof unfold_locales
  show "op_TryAcquire (pool_ops env tr cls c) n w = (ok, w') \<Longrightarrow>
      slots_wf held cost w' \<and> slots held (fst w' m) =
        slots held (fst w m) + (if ok \<and> m = n then cost n else 0)"
    if "slots_wf held cost w" for n w ok w' m
    using that TryAcquire_slots [OF assms(1), of "fst w n" "now env (snd w)" ok] assms(2) [of n]
    by (auto simp: pool_ops_def slots_wf_def split: prod.splits)
  show "op_Acquire (pool_ops env tr cls c) n w = (e, w') \<Longrightarrow>
      slots_wf held cost w' \<and> slots held (fst w' m) =
        slots held (fst w m) + (if e = None \<and> m = n then cost n else 0)"
    if "slots_wf held cost w" for n w e w' m
    using that Acquire_slots [OF assms(1), of "fst w n" c "snd w" e] assms(2) [of n]
    by (auto simp: pool_ops_def slots_wf_def split: prod.splits)
  show "slots_wf held cost (op_Release (pool_ops env tr cls c) n w) \<and>
      slots held (fst (op_Release (pool_ops env tr cls c) n w) m) =
        slots held (fst w m) - (if m = n then cost n else 0)"
    if "slots_wf held cost w" "cost n \<le> slots held (fst w n)" for n w m
    using that Release_slots [OF assms(1), of "fst w n"] no_sem_slots [of "fst w n" held] assms(2) [of n]
    by (auto simp: pool_ops_def slots_wf_def split: prod.splits if_splits)
qed (auto simp: slots_wf_def assms(2) pool_ops_def slots_def has_sem_def doOnNode_concSem
      split: prod.splits)

lemma doWithStatus_slots:
  assumes "sem_contract (lib env) held cap" "fair_sched sched" "\<And>a. 0 \<le> slots held (fst w a)"
    and "doWithStatus env sched p c q w = (out, w')"
  shows "slots held (fst w' a) = slots held (fst w a)"
proof -
  let ?cost = "\<lambda>a. has_sem (fst w a)"
  have cost: "0 \<le> ?cost b" for b by (simp add: has_sem_def split: option.split)
  have wf: "slots_wf held ?cost w" using assms(3) by (simp add: slots_wf_def)
  note ns = pool_node_slots [OF assms(1), where cost = ?cost, OF cost]
  show ?thesis
    using assms(4) node_slots.conservative_slots [OF ns wf] node_slots.race_slots [OF ns wf assms(2)]
    by (auto simp: doWithStatus_def Let_def split: StrategyImpl.splits)
qed

section \<open>Reachable pools\<close>

text \<open>
  Every interleaving of the pool's operations: membership changes and the background sort run
  under the pool's lock, and each method of a node is atomic, on any node of the store (a request
  keeps the node pointers of its snapshot even after the node has been removed).
\<close>

inductive pool_step :: "('s, 'l) penv \<Rightarrow> ('a, 's, 'l) pool \<Rightarrow> ('a, 's, 'l) pool \<Rightarrow> bool"
  for env :: "('s, 'l) penv" where
  step_add: "pool_step env p (AddNode env cfg p)"
| step_remove: "pool_step env p (RemoveNode e p)"
| step_update: "pool_step env p (UpdateNodes env cfgs p)"
| step_resort: "\<not> stopped p \<Longrightarrow> pool_step env p (resortNodes p)"
| step_close: "pool_step env p (Close p)"
| step_node: "pool_step env p (p\<lparr>heap := (heap p)(a := node_step (heap p a) ev)\<rparr>)"
| step_try: "pool_step env p (p\<lparr>heap := (heap p)(a := snd (TryAcquire (lib env) t (heap p a)))\<rparr>)"
| step_acquire: "pool_step env p (p\<lparr>heap := (heap p)(a := snd (Acquire (lib env) c i (heap p a)))\<rparr>)"
| step_release: "pool_step env p (p\<lparr>heap := (heap p)(a := Release (lib env) (heap p a))\<rparr>)"

inductive pool_reachable :: "('s, 'l) penv \<Rightarrow> ('a, 's, 'l) pool \<Rightarrow> bool"
  for env :: "('s, 'l) penv" where
  reach_new: "New env tr cls cfgs os = Inr p \<Longrightarrow> pool_reachable env p"
| reach_step: "pool_reachable env p \<Longrightarrow> pool_step env p p' \<Longrightarrow> pool_reachable env p'"

definition nodes_ok :: "('a, 's, 'l) pool \<Rightarrow> bool" where
  "nodes_ok p \<longleftrightarrow> valid_options (p_opts p) \<and>
     (\<forall>a. node_inv (heap p a) \<and> opts (heap p a) = p_opts p)"

lemma appendNode_ok: "nodes_ok p \<Longrightarrow> nodes_ok (appendNode env cfg p)"
  by (simp add: nodes_ok_def appendNode_def newNode_inv)

lemma node_inv_config: "node_inv (n\<lparr>config := c\<rparr>) = node_inv n"
  by (simp add: node_inv_def)

lemma updateNodeAt_ok: "nodes_ok p \<Longrightarrow> nodes_ok (updateNodeAt a cfg p)"
  by (simp add: nodes_ok_def updateNodeAt_def updateConfig_def node_inv_config)

lemma AddNode_ok [go_inv]: "nodes_ok p \<Longrightarrow> nodes_ok (AddNode env cfg p)"
  by (simp add: AddNode_def appendNode_ok updateNodeAt_ok split: option.split)

lemma members_ok: "nodes_ok (p\<lparr>nodes := ns, nodeMap := m\<rparr>) = nodes_ok p"
  "nodes_ok (p\<lparr>nodeMap := m, nodes := ns\<rparr>) = nodes_ok p"
  "nodes_ok (p\<lparr>nodes := ns\<rparr>) = nodes_ok p" "nodes_ok (p\<lparr>stopped := b\<rparr>) = nodes_ok p"
  "nodes_ok (p\<lparr>nodeMap := m\<rparr>) = nodes_ok p"
  by (simp_all add: nodes_ok_def)

lemma UpdateNodes_ok [go_inv]: "nodes_ok p \<Longrightarrow> nodes_ok (UpdateNodes env cfgs p)"
  using foldl_inv [where I = nodes_ok and f = "\<lambda>p cfg. AddNode env cfg p", OF AddNode_ok]
  by (auto simp: UpdateNodes_def Let_def split_beta members_ok)

lemma emptyPool_ok:
  "valid_options o1 \<Longrightarrow> nodes_ok (emptyPool tr cls o1 (newNode l cfg o1))"
  by (simp add: nodes_ok_def emptyPool_def newNode_inv)

lemma New_ok: "New env tr cls cfgs os = Inr p \<Longrightarrow> nodes_ok p"
  by (auto simp: New_def Let_def split: option.splits if_splits
      intro!: foldl_inv [where I = nodes_ok] appendNode_ok emptyPool_ok
        valid_apply_options valid_defaultOptions)

text \<open>A step of a node that keeps its configuration, options and invariant keeps the pool's.\<close>

lemma heap_step_ok:
  assumes "node_le (heap p a) n" "nodes_ok p" "pool_inv p"
  shows "nodes_ok (p\<lparr>heap := (heap p)(a := n)\<rparr>) \<and> pool_inv (p\<lparr>heap := (heap p)(a := n)\<rparr>)"
  using assms by (auto simp: nodes_ok_def pool_inv_def endpoint_at_def node_le_def)

lemma insert_stable_mset [simp]: "mset (insert_stable lt x xs) = add_mset x (mset xs)"
  by (induction xs) auto

lemma SliceStable_mset [simp]: "mset (SliceStable lt xs) = mset xs"
  by (induction xs) (simp_all add: SliceStable_def)

lemma SliceStable_members [simp]:
  "set (SliceStable lt xs) = set xs" "distinct (SliceStable lt xs) = distinct xs"
  using mset_eq_setD [OF SliceStable_mset [of lt xs]]
    mset_eq_imp_distinct_iff [OF SliceStable_mset [of lt xs]] by simp_all

lemma resortNodes_inv [go_inv]: "pool_inv p \<Longrightarrow> pool_inv (resortNodes p)"
  by (simp add: pool_inv_def endpoint_at_def resortNodes_def)

lemma pool_step_ok: "pool_step env p p' \<Longrightarrow> pool_inv p \<and> nodes_ok p \<Longrightarrow> pool_inv p' \<and> nodes_ok p'"
proof (induction rule: pool_step.induct)
  case (step_remove p e)
  then show ?case by (auto simp: RemoveNode_inv) (simp add: RemoveNode_def Let_def members_ok split: option.split)
next
  case (step_resort p)
  then show ?case by (auto simp: resortNodes_inv) (simp add: resortNodes_def members_ok)
next
  case (step_close p)
  then show ?case by (simp add: Close_def members_ok) (simp add: pool_inv_def endpoint_at_def)
qed (auto simp: go_inv node_step_le heap_step_ok same_health_le TryAcquire_health Acquire_health
    same_health_steps(7))

text \<open>
  C1. Whatever sequence of membership changes, sorts and node operations has run, from however many
  concurrent requests, the slice and the map of the pool agree, every node runs under the pool's
  options, which are the validated ones, and every node satisfies the breaker's invariant.
\<close>

theorem pool_reachable_inv:
  assumes "pool_reachable env p"
  shows "pool_inv p \<and> nodes_ok p"
  using assms by (induction rule: pool_reachable.induct) (auto simp: New_inv New_ok pool_step_ok)

section \<open>Synchronising the node list\<close>

lemma UpdateNodes_eq:
  "UpdateNodes env cfgs p =
     (let q = foldl (\<lambda>p cfg. AddNode env cfg p) p cfgs
      in q\<lparr>nodes := filter (\<lambda>a. endpoint_at q a \<in> Endpoint ` set cfgs) (nodes q),
           nodeMap := (\<lambda>e. if e \<in> endpoint_at q ` set (nodes q) \<and> e \<notin> Endpoint ` set cfgs
             then None else nodeMap q e)\<rparr>)"
  by (simp add: UpdateNodes_def Let_def sweep_eq)

text \<open>Adding under an endpoint the map knows keeps the node and changes its configuration only.\<close>

lemma AddNode_keeps:
  assumes "pool_inv p" "nodeMap p e = Some a"
  shows "nodeMap (AddNode env cfg p) e = Some a \<and>
    (\<exists>k. heap (AddNode env cfg p) a = (heap p a)\<lparr>config := k\<rparr>)"
proof (cases "e = Endpoint cfg")
  case True
  with assms show ?thesis by (auto simp: AddNode_def updateNodeAt_def updateConfig_def)
next
  case False
  from AddNode_other [OF assms(1) False assms(2)] show ?thesis
    by (auto intro: exI [of _ "config (heap p a)"])
qed

lemma AddNodes_keep:
  assumes "pool_inv p" "nodeMap p e = Some a"
  shows "nodeMap (foldl (\<lambda>p cfg. AddNode env cfg p) p cfgs) e = Some a \<and>
    (\<exists>k. heap (foldl (\<lambda>p cfg. AddNode env cfg p) p cfgs) a = (heap p a)\<lparr>config := k\<rparr>)"
  using assms
proof (induction cfgs arbitrary: p)
  case Nil
  then show ?case by (auto intro: exI [of _ "config (heap p a)"])
next
  case (Cons c cs)
  from AddNode_keeps [OF Cons.prems, of env c] obtain k
    where "nodeMap (AddNode env c p) e = Some a" "heap (AddNode env c p) a = (heap p a)\<lparr>config := k\<rparr>"
    by blast
  with Cons.IH [OF AddNode_inv [OF Cons.prems(1)], of env c] show ?case by auto
qed

text \<open>
  C12. \<^verbatim>\<open>UpdateNodes\<close> leaves exactly the configured endpoints, in the slice and in the map; each
  runs under the last configuration given for it; and a node that was there before is the same
  object, with its health record, counters and breaker state untouched.
\<close>

theorem UpdateNodes_sync:
  assumes "pool_inv p" and "p' = UpdateNodes env cfgs p"
  shows "endpoint_at p' ` set (nodes p') = Endpoint ` set cfgs \<and>
    dom (nodeMap p') = Endpoint ` set cfgs \<and>
    (\<forall>e cfg. map_of (rev (map (\<lambda>c. (Endpoint c, c)) cfgs)) e = Some cfg \<longrightarrow>
       (\<exists>a. nodeMap p' e = Some a \<and> config (heap p' a) = cfg)) \<and>
    (\<forall>e a. nodeMap p e = Some a \<and> e \<in> Endpoint ` set cfgs \<longrightarrow>
       nodeMap p' e = Some a \<and> (\<exists>k. heap p' a = (heap p a)\<lparr>config := k\<rparr>))"
proof -
  let ?q = "foldl (\<lambda>p cfg. AddNode env cfg p) p cfgs"
  have eps: "endpoint_at ?q ` set (nodes ?q) = Endpoint ` set cfgs \<union> endpoint_at p ` set (nodes p)"
    by (rule AddNodes_endpoints [OF assms(1)])
  have p': "endpoint_at p' = endpoint_at ?q" "heap p' = heap ?q"
    "nodes p' = filter (\<lambda>a. endpoint_at ?q a \<in> Endpoint ` set cfgs) (nodes ?q)"
    by (simp_all add: assms(2) UpdateNodes_eq Let_def endpoint_at_def fun_eq_iff)
  have m: "nodeMap p' e = nodeMap ?q e" if "e \<in> Endpoint ` set cfgs" for e
    using that by (simp add: assms(2) UpdateNodes_eq Let_def)
  have img: "f ` (set xs \<inter> {a. f a \<in> K}) = f ` set xs \<inter> K" for f :: "addr \<Rightarrow> string" and xs K by blast
  have 1: "endpoint_at p' ` set (nodes p') = Endpoint ` set cfgs"
    using img [of "endpoint_at ?q" "nodes ?q"] eps by (auto simp: p' Int_def conj_commute)
  have 2: "dom (nodeMap p') = Endpoint ` set cfgs"
    using pool_inv_dom [OF UpdateNodes_inv [OF assms(1)]] 1 by (simp add: assms(2))
  have 3: "\<exists>a. nodeMap p' e = Some a \<and> config (heap p' a) = cfg"
    if "map_of (rev (map (\<lambda>c. (Endpoint c, c)) cfgs)) e = Some cfg" for e cfg
  proof -
    from map_of_SomeD [OF that] have "e \<in> Endpoint ` set cfgs" by auto
    with AddNodes_lookup [OF assms(1), of cfgs e cfg env] that m show ?thesis by (auto simp: p')
  qed
  show ?thesis using 1 2 3 AddNodes_keep [OF assms(1)] m by (auto simp: p')
qed

section \<open>The background sort\<close>

text \<open>Sorting by a strict weak order given by a key.\<close>

lemma insert_stable_sorted:
  "sorted (map key xs) \<Longrightarrow>
   sorted (map key (insert_stable (\<lambda>a b. key a < (key b :: 'k :: linorder)) x xs))"
proof (induction xs)
  case (Cons y ys)
  have "set (insert_stable (\<lambda>a b. key a < key b) x ys) = insert x (set ys)"
    using insert_stable_mset [of _ x ys] by (metis set_mset_add_mset_insert set_mset_mset)
  with Cons show ?case by auto
qed simp

lemma SliceStable_sorted:
  "sorted (map key (SliceStable (\<lambda>a b. key a < (key b :: 'k :: linorder)) xs))"
  by (induction xs) (simp_all add: SliceStable_def insert_stable_sorted)

lemma insert_stable_filter:
  "filter (\<lambda>y. key y = k) (insert_stable (\<lambda>a b. key a < (key b :: 'k :: linorder)) x xs) =
   filter (\<lambda>y. key y = k) (x # xs)"
  by (induction xs) auto

lemma SliceStable_filter:
  "filter (\<lambda>y. key y = k) (SliceStable (\<lambda>a b. key a < (key b :: 'k :: linorder)) xs) =
   filter (\<lambda>y. key y = k) xs"
  by (induction xs) (simp_all add: SliceStable_def insert_stable_filter)

lemma insert_stable_cong:
  "(\<And>a b. a \<in> insert x (set xs) \<Longrightarrow> b \<in> insert x (set xs) \<Longrightarrow> lt a b = lt' a b) \<Longrightarrow>
   insert_stable lt x xs = insert_stable lt' x xs"
  by (induction xs) auto

lemma SliceStable_cong:
  "(\<And>a b. a \<in> set xs \<Longrightarrow> b \<in> set xs \<Longrightarrow> lt a b = lt' a b) \<Longrightarrow>
   SliceStable lt xs = SliceStable lt' xs"
proof (induction xs)
  case (Cons x xs)
  then have "SliceStable lt xs = SliceStable lt' xs" by simp
  moreover have "insert_stable lt x (SliceStable lt' xs) = insert_stable lt' x (SliceStable lt' xs)"
    using Cons.prems by (intro insert_stable_cong) auto
  ultimately show ?case by (simp add: SliceStable_def)
qed (simp add: SliceStable_def)

text \<open>
  The background sort permutes the nodes, leaves them by descending score, and is stable: nodes
  of equal score keep their order.  It is stated for finite scores, which is what the score
  computation produces.
\<close>

theorem resortNodes_sorts:
  assumes "\<forall>a\<in>set (nodes p). score (heap p a) = Fin (s a)"
  shows "mset (nodes (resortNodes p)) = mset (nodes p) \<and>
    sorted (map (\<lambda>a. - s a) (nodes (resortNodes p))) \<and>
    (\<forall>k. filter (\<lambda>a. s a = k) (nodes (resortNodes p)) = filter (\<lambda>a. s a = k) (nodes p)) \<and>
    heap (resortNodes p) = heap p \<and> nodeMap (resortNodes p) = nodeMap p"
proof -
  have eq: "nodes (resortNodes p) = SliceStable (\<lambda>a b. - s a < - s b) (nodes p)"
    using assms by (auto simp: resortNodes_def intro!: SliceStable_cong)
  have "filter (\<lambda>a. s a = k) (nodes (resortNodes p)) = filter (\<lambda>a. s a = k) (nodes p)" for k
    using SliceStable_filter [of "\<lambda>a. - s a" "- k" "nodes p"] by (simp add: eq)
  with SliceStable_sorted [of "\<lambda>a. - s a" "nodes p"] show ?thesis
    by (simp add: eq) (simp add: resortNodes_def)
qed

section \<open>Several requests at once\<close>

lemma Do_le: "Do env sched p c q w = (out, w') \<Longrightarrow> world_le w w'"
  by (auto simp: Do_def split: prod.splits dest: doWithStatus_le)

lemma world_le_refl [simp]: "world_le w w"
  by (simp add: world_le_def)

lemma world_le_trans: "world_le a b \<Longrightarrow> world_le b c \<Longrightarrow> world_le a c"
  by (rule pool_respect.R_trans)

text \<open>Slots outside the order are not written; a slot of the order holds its own call's result.\<close>

lemma multi_go_slots:
  assumes "\<And>q w out w'. dofn q w = (out, w') \<Longrightarrow> world_le w w'"
    and "multi_go dofn reqs order rs es w = ((rs', es'), w')" "distinct order"
    and "\<forall>i\<in>set order. i < length rs \<and> i < length es"
  shows "length rs' = length rs \<and> length es' = length es \<and> world_le w w' \<and>
    (\<forall>i. i \<notin> set order \<longrightarrow> rs' ! i = rs ! i \<and> es' ! i = es ! i) \<and>
    (\<forall>i\<in>set order. \<exists>w1 w2. world_le w w1 \<and>
       dofn (reqs ! i) w1 = ((rs' ! i, es' ! i), w2) \<and> world_le w2 w')"
  using assms(2-4)
proof (induction order arbitrary: rs es w)
  case (Cons i order)
  obtain r e w1 where d: "dofn (reqs ! i) w = ((r, e), w1)" by (metis prod.exhaust)
  have le: "world_le w w1" using assms(1) [OF d] .
  from Cons.prems have "multi_go dofn reqs order (rs[i := r]) (es[i := e]) w1 = ((rs', es'), w')"
    by (simp add: d)
  note IH = Cons.IH [OF this]
  have i: "i \<notin> set order" "i < length rs" "i < length es" using Cons.prems by auto
  from IH Cons.prems have *: "length rs' = length rs" "length es' = length es" "world_le w1 w'"
    "\<forall>j. j \<notin> set order \<longrightarrow> rs' ! j = rs[i := r] ! j \<and> es' ! j = es[i := e] ! j"
    "\<forall>j\<in>set order. \<exists>u v. world_le w1 u \<and> dofn (reqs ! j) u = ((rs' ! j, es' ! j), v) \<and> world_le v w'"
    by auto
  have "rs' ! i = r" "es' ! i = e" using *(4) i by auto
  then have "\<exists>u v. world_le w u \<and> dofn (reqs ! i) u = ((rs' ! i, es' ! i), v) \<and> world_le v w'"
    using d *(3) by (intro exI [of _ w] exI [of _ w1]) simp
  moreover have "\<exists>u v. world_le w u \<and> dofn (reqs ! j) u = ((rs' ! j, es' ! j), v) \<and> world_le v w'"
    if "j \<in> set order" for j using *(5) that world_le_trans [OF le] by blast
  moreover have "world_le w w'" by (rule world_le_trans [OF le *(3)])
  ultimately show ?case using * i by auto
qed simp

text \<open>
  \<^verbatim>\<open>DoMulti\<close>, in whatever order its goroutines run: slot \<open>i\<close> of the two result slices holds
  exactly the response and the error that \<^verbatim>\<open>Do\<close> returned for request \<open>i\<close>, and no request is
  dropped or answered twice.
\<close>

theorem DoMulti_slots:
  assumes "mset order = mset [0..<length reqs]"
    and "DoMulti env sched p c reqs order w = ((rs, es), w')"
  shows "length rs = length reqs \<and> length es = length reqs \<and>
    (\<forall>i<length reqs. \<exists>w1 w2. world_le w w1 \<and>
       Do env sched p c (reqs ! i) w1 = ((rs ! i, es ! i), w2) \<and> world_le w2 w')"
proof -
  have o: "set order = {..<length reqs}" "distinct order"
    unfolding mset_eq_setD [OF assms(1)] mset_eq_imp_distinct_iff [OF assms(1)]
    by (simp_all add: atLeast0LessThan)
  have bnd: "\<forall>i\<in>set order. i < length (replicate (length reqs) (None :: 'a Response option)) \<and>
      i < length (replicate (length reqs) (None :: goerr option))"
    using o(1) by simp
  have le: "Do env sched p c q v = (out, v') \<Longrightarrow> world_le v v'" for q v out v' by (rule Do_le)
  have "multi_go (Do env sched p c) reqs order (replicate (length reqs) None)
      (replicate (length reqs) None) w = ((rs, es), w')"
    using assms(2) unfolding DoMulti_def .
  note multi_go_slots [where dofn = "Do env sched p c", OF le this o(2) bnd]
  then show ?thesis unfolding o(1) by simp
qed

section \<open>Retrying until complete\<close>

text \<open>What a settled slot holds: the answer of a call that succeeded or failed for business reasons.\<close>

definition settled ::
    "('q \<Rightarrow> 'w \<Rightarrow> 'r outcome \<times> 'w) \<Rightarrow> 'q \<Rightarrow> 'r option \<Rightarrow> goerr option \<Rightarrow> bool" where
  "settled dofn q r e \<longleftrightarrow> (\<exists>w st err w'. dofn q w = ((r, st, err), w') \<and>
     (st = NodeStatusSuccess \<and> e = None \<or> st = NodeStatusBizError \<and> e = err))"

text \<open>The loop's invariant: a slot is pending and blank, or settled.\<close>

definition complete_inv ::
    "('q \<Rightarrow> 'w \<Rightarrow> 'r outcome \<times> 'w) \<Rightarrow> 'q list \<Rightarrow> nat set \<Rightarrow> 'r option list \<Rightarrow> goerr option list \<Rightarrow> bool" where
  "complete_inv dofn reqs P rs es \<longleftrightarrow>
     length rs = length reqs \<and> length es = length reqs \<and> P \<subseteq> {..<length reqs} \<and>
     (\<forall>i<length reqs. if i \<in> P then rs ! i = None \<and> es ! i = None
                      else settled dofn (reqs ! i) (rs ! i) (es ! i))"

lemma complete_inv_settle:
  assumes "complete_inv dofn reqs P rs es" "i \<in> P" "settled dofn (reqs ! i) r e"
  shows "complete_inv dofn reqs (P - {i}) (rs[i := r]) (es[i := e])"
  using assms by (auto simp: complete_inv_def nth_list_update)

lemma complete_round_inv:
  assumes "complete_round dofn reqs order np rs es w = ((np', rs', es'), w')"
    and "complete_inv dofn reqs (set np \<union> set order) rs es" "distinct (np @ order)"
  shows "complete_inv dofn reqs (set np') rs' es' \<and> distinct np' \<and> set np' \<subseteq> set np \<union> set order"
  using assms
proof (induction order arbitrary: np rs es w)
  case (Cons i order)
  obtain r st e w1 where d: "dofn (reqs ! i) w = ((r, st, e), w1)" by (metis prod.exhaust)
  have P: "set np \<union> set (i # order) - {i} = set np \<union> set order"
    "set np \<union> set (i # order) = set (np @ [i]) \<union> set order" using Cons.prems(3) by auto
  have blank: "es[i := None] = es"
    using Cons.prems(2) by (auto simp: complete_inv_def intro: list_update_same_conv [THEN iffD2])
  note keep = complete_inv_settle [OF Cons.prems(2), of i, unfolded P(1)]
  show ?case
  proof (cases st)
    case NodeStatusSuccess
    then have "complete_inv dofn reqs (set np \<union> set order) (rs[i := r]) es"
      using keep [of r None] d blank by (auto simp: settled_def)
    with Cons.IH [of np "rs[i := r]" es w1] Cons.prems show ?thesis
      by (auto simp: d NodeStatusSuccess)
  next
    case NodeStatusBizError
    then have "complete_inv dofn reqs (set np \<union> set order) (rs[i := r]) (es[i := e])"
      using keep [of r e] d by (auto simp: settled_def)
    with Cons.IH [of np "rs[i := r]" "es[i := e]" w1] Cons.prems show ?thesis
      by (auto simp: d NodeStatusBizError)
  qed (use Cons.IH [of "np @ [i]" rs es w1] Cons.prems in \<open>simp_all add: d Un_commute\<close>)
qed simp

lemma fail_all_nth:
  "i < length es \<Longrightarrow> fail_all ps e es ! i = (if i \<in> set ps then e else es ! i)"
  "length (fail_all ps e es) = length es"
  unfolding fail_all_def by (induction ps arbitrary: es) auto

definition fair_order :: "(int \<Rightarrow> nat list \<Rightarrow> nat list) \<Rightarrow> bool" where
  "fair_order order \<longleftrightarrow> (\<forall>k ps. mset (order k ps) = mset ps)"

text \<open>The result of the loop: every slot settled, or blank with the context's error.\<close>

definition complete_post ::
    "('w \<Rightarrow> goerr option \<times> 'w) \<Rightarrow> (int \<Rightarrow> 'w \<Rightarrow> goerr option \<times> 'w)
     \<Rightarrow> ('q \<Rightarrow> 'w \<Rightarrow> 'r outcome \<times> 'w) \<Rightarrow> 'q list \<Rightarrow> 'r option list \<Rightarrow> goerr option list \<Rightarrow> bool" where
  "complete_post ctxerr pause dofn reqs rs es \<longleftrightarrow>
     length rs = length reqs \<and> length es = length reqs \<and>
     (\<exists>cerr. (\<exists>w d. fst (ctxerr w) = Some cerr \<or> fst (pause d w) = Some cerr) \<and>
        (\<forall>i<length reqs. settled dofn (reqs ! i) (rs ! i) (es ! i) \<or>
                          rs ! i = None \<and> es ! i = Some cerr)
      \<or> (\<forall>i<length reqs. settled dofn (reqs ! i) (rs ! i) (es ! i)))"

lemma complete_post_fail:
  assumes "complete_inv dofn reqs (set ps) rs es"
    and "fst (ctxerr w) = Some e \<or> fst (pause d w) = Some e"
  shows "complete_post ctxerr pause dofn reqs rs (fail_all ps (Some e) es)"
  using assms unfolding complete_post_def complete_inv_def
  by (auto simp: fail_all_nth intro!: exI [of _ e])

lemma complete_loop_post:
  assumes "fair_order order"
    and "complete_loop ctxerr pause order dofn reqs k rnd ps rs es w = Some ((rs', es'), w')"
    and "complete_inv dofn reqs (set ps) rs es" "distinct ps"
  shows "complete_post ctxerr pause dofn reqs rs' es'"
  using assms(2-4)
proof (induction k arbitrary: rnd ps rs es w)
  case (Suc k)
  show ?case
  proof (cases "ps = []")
    case True
    with Suc.prems show ?thesis by (auto simp: complete_post_def complete_inv_def)
  next
    case False
    obtain e1 w1 where 1: "ctxerr w = (e1, w1)" by (cases "ctxerr w")
    obtain e2 w2 where 2: "(if rnd > 0 then pause (backoff rnd) w1 else (None, w1)) = (e2, w2)"
      by (cases "if rnd > 0 then pause (backoff rnd) w1 else (None, w1)")
    obtain np rs1 es1 w3 where 3:
      "complete_round dofn reqs (order rnd ps) [] rs es w2 = ((np, rs1, es1), w3)"
      by (metis prod.exhaust)
    have o: "set (order rnd ps) = set ps" "distinct (order rnd ps)"
      using assms(1) Suc.prems(3) mset_eq_setD mset_eq_imp_distinct_iff
      unfolding fair_order_def by blast+
    consider (c) e where "e1 = Some e" | (p) e where "e1 = None" "e2 = Some e"
      | (r) "e1 = None" "e2 = None" by (cases e1; cases e2) auto
    then show ?thesis
    proof cases
      case c
      with Suc.prems False 1 show ?thesis by (auto intro: complete_post_fail [of _ _ _ _ _ _ w])
    next
      case p
      then have "fst (pause (backoff rnd) w1) = Some e" using 2 by (auto split: if_splits)
      with p Suc.prems False 1 2 show ?thesis
        by (auto intro: complete_post_fail [of _ _ _ _ _ _ w1 _ _ "backoff rnd"])
    next
      case r
      from complete_round_inv [OF 3] Suc.prems o
      have "complete_inv dofn reqs (set np) rs1 es1" "distinct np" by auto
      with Suc.IH [of "rnd + 1" np rs1 es1 w3] Suc.prems(1) False 1 2 3 r show ?thesis
        by (simp split: if_splits)
    qed
  qed
qed simp

text \<open>Every round uses up at least one tick, so a context that ends bounds the rounds.\<close>

lemma complete_round_le:
  assumes "\<And>q w out w'. dofn q w = (out, w') \<Longrightarrow> world_le w w'"
  shows "complete_round dofn reqs order np rs es w = (x, w') \<Longrightarrow> world_le w w'"
proof (induction order arbitrary: np rs es w)
  case (Cons i order)
  obtain r st e w1 where d: "dofn (reqs ! i) w = ((r, st, e), w1)" by (metis prod.exhaust)
  from assms [OF d] have le: "world_le w w1" .
  have "world_le w1 w'" using Cons by (cases st) (auto simp: d)
  with le show ?case by (rule world_le_trans)
qed simp

lemma complete_loop_returns:
  fixes w :: "('a, 's, 'l) world"
  assumes le: "\<And>q (w :: ('a, 's, 'l) world) out w'. dofn q w = (out, w') \<Longrightarrow> world_le w w'"
    and dead: "\<And>j. T \<le> j \<Longrightarrow> ctxErr c j \<noteq> None"
  shows "T \<le> snd w + k \<Longrightarrow>
    \<exists>y. complete_loop (\<lambda>(h, i). (ctxErr c i, (h, i + 1))) (\<lambda>d (h, i). (ctxErr c i, (h, i + 1)))
      order dofn reqs (Suc k) rnd ps rs es w = Some y"
proof (induction k arbitrary: rnd ps rs es w)
  case 0
  with dead [of "snd w"] show ?case by (auto split: prod.split)
next
  case (Suc k)
  obtain h i where w: "w = (h, i)" by (cases w)
  show ?case
  proof (cases "ps = [] \<or> ctxErr c i \<noteq> None \<or> (rnd > 0 \<and> ctxErr c (i + 1) \<noteq> None)")
    case True
    then show ?thesis by (auto simp: w split: option.split)
  next
    case False
    define w2 where "w2 = (h, if rnd > 0 then i + 2 else i + 1)"
    obtain np rs1 es1 w3 where 3:
      "complete_round dofn reqs (order rnd ps) [] rs es w2 = ((np, rs1, es1), w3)"
      by (metis prod.exhaust)
    have "world_le w2 w3" using complete_round_le [where dofn = dofn, OF le 3] .
    then have "T \<le> snd w3 + k" using Suc.prems by (auto simp: world_le_def w w2_def split: if_splits)
    from Suc.IH [OF this, of "rnd + 1" np rs1 es1] False 3 show ?thesis
      by (auto simp: w w2_def simp del: complete_loop.simps(2)
          simp: complete_loop.simps(2) [of _ _ _ _ _ "Suc k"] split: if_splits)
  qed
qed

text \<open>
  C9. \<^verbatim>\<open>DoUntilComplete\<close> under a context that ends at tick \<open>T\<close> returns (the rounds are bounded by
  the ticks left), and each request is then settled by an attempt that succeeded or failed for
  business reasons, its response and error being that attempt's, or else it has no response and
  carries the context's error.
\<close>

theorem DoUntilComplete_settles:
  fixes w :: "('a, 's, 'l) world"
  assumes "fair_order order" "\<forall>j\<ge>T. ctxErr c j \<noteq> None"
  shows "\<exists>rs es w'. DoUntilComplete (T + 1) env sched order p c reqs w = Some ((rs, es), w') \<and>
    length rs = length reqs \<and> length es = length reqs \<and>
    (\<exists>j. \<forall>i<length reqs. settled (doWithStatus env sched p c) (reqs ! i) (rs ! i) (es ! i) \<or>
      rs ! i = None \<and> es ! i = ctxErr c j \<and> ctxErr c j \<noteq> None)"
proof -
  let ?c = "\<lambda>(h :: addr \<Rightarrow> ('a, 's, 'l) node, i). (ctxErr c i, (h, i + 1))"
  have "\<exists>y. DoUntilComplete (T + 1) env sched order p c reqs w = Some y"
    unfolding DoUntilComplete_def using assms(2)
    by (intro complete_loop_returns [where T = T, unfolded Suc_eq_plus1]) (auto dest: doWithStatus_le)
  then obtain rs es w' where r: "DoUntilComplete (T + 1) env sched order p c reqs w = Some ((rs, es), w')"
    by (metis prod.exhaust)
  have "complete_inv (doWithStatus env sched p c) reqs (set [0..<length reqs])
      (replicate (length reqs) None) (replicate (length reqs) None)"
    by (auto simp: complete_inv_def)
  from complete_loop_post [OF assms(1) r [unfolded DoUntilComplete_def] this]
  have post: "complete_post ?c (\<lambda>_. ?c) (doWithStatus env sched p c) reqs rs es" by simp
  have err: "\<exists>j. ctxErr c j = Some e" if "fst (?c u) = Some e" for u e
    using that by (cases u) auto
  from post consider (all) "\<forall>i<length reqs. settled (doWithStatus env sched p c) (reqs ! i) (rs ! i) (es ! i)"
    | (dead) e u where "fst (?c u) = Some e"
      "\<forall>i<length reqs. settled (doWithStatus env sched p c) (reqs ! i) (rs ! i) (es ! i) \<or>
        rs ! i = None \<and> es ! i = Some e"
    unfolding complete_post_def by blast
  then have "\<exists>j. \<forall>i<length reqs. settled (doWithStatus env sched p c) (reqs ! i) (rs ! i) (es ! i) \<or>
      rs ! i = None \<and> es ! i = ctxErr c j \<and> ctxErr c j \<noteq> None"
  proof cases
    case dead
    from err [OF dead(1)] obtain j where "ctxErr c j = Some e" ..
    with dead(2) show ?thesis by (intro exI [of _ j]) simp
  qed simp
  with r post show ?thesis unfolding complete_post_def by blast
qed


section \<open>A concrete pool\<close>

text \<open>Two nodes, of which the first is down.\<close>

definition demo_env :: "(int \<times> int, unit) penv" where
  "demo_env = \<lparr>lib = demo_lib, now = (\<lambda>i. int i)\<rparr>"

definition demo_transport :: "unit Transport" where
  "demo_transport = (\<lambda>c e q i. if e = ''a'' then (None, Some (ErrNew ''down''))
     else (Some \<lparr>Data = (), Latency = 0\<rparr>, None))"

definition demo_pool :: "(unit, int \<times> int, unit) pool" where
  "demo_pool = foldl (\<lambda>p cfg. appendNode demo_env cfg p)
     (emptyPool demo_transport DefaultClassifier_Classify defaultOptions
       (newNode demo_lib (demo_cfg ''a'') defaultOptions))
     [demo_cfg ''a'', demo_cfg ''b'']"

lemma demo_pool_New:
  "New demo_env (Some demo_transport) None [demo_cfg ''a'', demo_cfg ''b''] [] = Inr demo_pool"
  by (simp add: New_def demo_pool_def demo_env_def apply_options_def)

theorem pool_reachable_inv_witness:
  "pool_inv (RemoveNode ''a'' demo_pool) \<and> nodes_ok (RemoveNode ''a'' demo_pool)"
  by (rule pool_reachable_inv [OF reach_step [OF reach_new [OF demo_pool_New] step_remove]])

theorem UpdateNodes_sync_witness:
  "dom (nodeMap (UpdateNodes demo_env [demo_cfg ''b'', demo_cfg ''c''] demo_pool)) = {''b'', ''c''}"
  using UpdateNodes_sync [OF New_inv [OF demo_pool_New] refl, of demo_env "[demo_cfg ''b'', demo_cfg ''c'']"]
  by (simp add: demo_cfg_def)

lemma demo_pool_nodes: "nodes demo_pool = [0, 1]"
  by (simp add: demo_pool_def emptyPool_def)

lemma demo_pool_score: "score (heap demo_pool a) = Fin 2"
  by (simp add: demo_pool_def emptyPool_def appendNode_def demo_env_def demo_cfg_def newNode_def
      initThrottler_def f_of_int_small Let_def)

theorem resortNodes_sorts_witness:
  "mset (nodes (resortNodes demo_pool)) = {#0, 1#}"
  using resortNodes_sorts [of demo_pool "\<lambda>_. 2"] by (simp add: demo_pool_score demo_pool_nodes)

theorem DoMulti_slots_witness:
  "\<exists>rs es w'. DoMulti demo_env (\<lambda>_. []) demo_pool Background
     [\<lparr>ReqData = ()\<rparr>, \<lparr>ReqData = ()\<rparr>] [1, 0] (heap demo_pool, 0) = ((rs, es), w') \<and> length rs = 2"
proof -
  obtain rs es w' where d: "DoMulti demo_env (\<lambda>_. []) demo_pool Background
     [\<lparr>ReqData = ()\<rparr>, \<lparr>ReqData = ()\<rparr>] [1, 0] (heap demo_pool, 0) = ((rs, es), w')"
    by (metis prod.exhaust)
  from DoMulti_slots [OF _ d] have "length rs = 2" by (simp add: upt_rec)
  with d show ?thesis by blast
qed

theorem DoUntilComplete_settles_witness:
  "\<exists>y. DoUntilComplete 4 demo_env (\<lambda>_. []) (\<lambda>_ ps. rev ps) demo_pool
     \<lparr>ctxErr = (\<lambda>i. if 3 \<le> i then Some DeadlineExceeded else None)\<rparr>
     [\<lparr>ReqData = ()\<rparr>] (heap demo_pool, 0) = Some y"
  using DoUntilComplete_settles [of "\<lambda>_ ps. rev ps" 3
      "\<lparr>ctxErr = (\<lambda>i. if 3 \<le> i then Some DeadlineExceeded else None)\<rparr>" demo_env "\<lambda>_. []" demo_pool
      "[\<lparr>ReqData = ()\<rparr>]" "(heap demo_pool, 0)"]
  by (auto simp: fair_order_def)

lemma demo_lib_contract: "sem_contract demo_lib fst snd"
  by (auto simp: sem_contract_def demo_lib_def)


end
