(* ===== verification/Http_Transport.thy ===== *)
theory Http_Transport
  imports Net_Http Nodepool_Pool
begin

text \<open>
  \<^verbatim>\<open>provider/nodepool/httpTransport\<close>: the HTTP transport of the node pool and its status-code
  classifier.  The transport builds the URL and the headers of a request and runs it through the
  HTTP client of \<open>Net_Http\<close>; the classifier turns the answer into the pool's node status.
\<close>

section \<open>Requests and responses\<close>

record 'v HTTPRequest =
  hr_Method :: string
  hr_Path :: string
  hr_Query :: "(string \<times> string list) list"
  hr_Body :: "'v Body"
  hr_Headers :: "string \<Rightarrow> string option"

definition GetMethod :: "'v HTTPRequest \<Rightarrow> string" where
  "GetMethod r = (if hr_Method r = [] then ''GET'' else hr_Method r)"

record HTTPResponse =
  hp_StatusCode :: int
  hp_Header :: "string \<Rightarrow> string list option"
  hp_Body :: string

text \<open>What \<^verbatim>\<open>Request.Data\<close> and \<^verbatim>\<open>Response.Data\<close> hold; other values by the name of their type.\<close>

datatype 'v pdata = DataRequest "'v HTTPRequest" | DataResponse HTTPResponse | DataOther string

section \<open>Options\<close>

record 'v TOptions =
  to_client :: "'v IClient option"
  to_headers :: "string \<Rightarrow> string option"
  to_nodeHeaders :: "string \<Rightarrow> (string \<Rightarrow> string option) option"
  to_middlewares :: "'v hdata Middleware list"
  to_keepLog :: bool
  to_sendErrorMsg :: bool
  to_timeout :: int

definition transport_defaultOptions :: "'v IClient \<Rightarrow> 'v TOptions" where
  "transport_defaultOptions defaultClient =
     \<lparr>to_client = Some defaultClient, to_headers = Map.empty, to_nodeHeaders = Map.empty,
      to_middlewares = [], to_keepLog = True, to_sendErrorMsg = True, to_timeout = 0\<rparr>"

definition WithClient :: "'v IClient option \<Rightarrow> 'v TOptions \<Rightarrow> 'v TOptions" where
  "WithClient cl o1 = (case cl of None \<Rightarrow> o1 | Some _ \<Rightarrow> o1\<lparr>to_client := cl\<rparr>)"

definition WithDefaultHeaders :: "(string \<Rightarrow> string option) option \<Rightarrow> 'v TOptions \<Rightarrow> 'v TOptions" where
  "WithDefaultHeaders hs o1 = (case hs of None \<Rightarrow> o1 | Some m \<Rightarrow> o1\<lparr>to_headers := m\<rparr>)"

definition WithNodeHeaders ::
    "string \<Rightarrow> (string \<Rightarrow> string option) option \<Rightarrow> 'v TOptions \<Rightarrow> 'v TOptions" where
  "WithNodeHeaders endpoint hs o1 =
     (case hs of
        None \<Rightarrow> o1
      | Some m \<Rightarrow> if endpoint \<noteq> [] then o1\<lparr>to_nodeHeaders := (to_nodeHeaders o1)(endpoint \<mapsto> m)\<rparr> else o1)"

definition WithMiddleware :: "'v hdata Middleware list \<Rightarrow> 'v TOptions \<Rightarrow> 'v TOptions" where
  "WithMiddleware ms o1 = o1\<lparr>to_middlewares := to_middlewares o1 @ ms\<rparr>"

definition WithKeepLog :: "bool \<Rightarrow> 'v TOptions \<Rightarrow> 'v TOptions" where
  "WithKeepLog keep o1 = o1\<lparr>to_keepLog := keep\<rparr>"

definition WithSendErrorMsg :: "bool \<Rightarrow> 'v TOptions \<Rightarrow> 'v TOptions" where
  "WithSendErrorMsg note o1 = o1\<lparr>to_sendErrorMsg := note\<rparr>"

definition WithTimeout :: "int \<Rightarrow> 'v TOptions \<Rightarrow> 'v TOptions" where
  "WithTimeout d o1 = (if d \<ge> 0 then o1\<lparr>to_timeout := d\<rparr> else o1)"

definition transport_New :: "'v IClient \<Rightarrow> ('v TOptions \<Rightarrow> 'v TOptions) list \<Rightarrow> 'v TOptions" where
  "transport_New defaultClient os = foldl (\<lambda>o1 fn. fn o1) (transport_defaultOptions defaultClient) os"

section \<open>The transport\<close>

definition buildURL :: "string \<Rightarrow> string \<Rightarrow> string" where
  "buildURL endpoint path =
     (if path = [] then endpoint
      else if HasPrefix path ''http://'' \<or> HasPrefix path ''https://'' then path
      else TrimRightC endpoint CHR ''/'' @ ''/'' @ TrimLeftC path CHR ''/'')"

definition mergeHeaders ::
    "'v TOptions \<Rightarrow> string \<Rightarrow> (string \<Rightarrow> string option) \<Rightarrow> string \<Rightarrow> string option" where
  "mergeHeaders o1 endpoint reqHeaders =
     (let merged = Map.empty ++ to_headers o1;
          merged = (case to_nodeHeaders o1 endpoint of None \<Rightarrow> merged | Some nodeH \<Rightarrow> merged ++ nodeH)
      in merged ++ reqHeaders)"

definition buildHTTPResponse :: "HResponse option \<Rightarrow> HTTPResponse" where
  "buildHTTPResponse raw =
     (case raw of
        None \<Rightarrow> \<lparr>hp_StatusCode = 0, hp_Header = Map.empty, hp_Body = []\<rparr>
      | Some r \<Rightarrow> \<lparr>hp_StatusCode = StatusCode r, hp_Header = Header r, hp_Body = RespBody r\<rparr>)"

definition buildNodepoolResponse :: "'v hdata \<Rightarrow> 'v pdata Response option \<times> goerr option" where
  "buildNodepoolResponse result =
     (if HasError result then
        (Some \<lparr>Data = DataResponse (buildHTTPResponse (hResponse result)), Latency = 0\<rparr>, hError result)
      else (Some \<lparr>Data = DataResponse (buildHTTPResponse (hResponse result)), Latency = 0\<rparr>, None))"

definition transport_builder :: "'v TOptions \<Rightarrow> 'v RequestBuilder" where
  "transport_builder o1 =
     (let b0 = NewRequestBuilder (to_client o1);
          b1 = (if \<not> to_keepLog o1 then NoKeepLog b0 else b0);
          b2 = (if \<not> to_sendErrorMsg o1 then NoSendErrorMsg b1 else b1);
          b3 = (if to_timeout o1 > 0 then SetTimeout (to_timeout o1) b2 else b2)
      in if to_middlewares o1 \<noteq> [] then Use (to_middlewares o1) b3 else b3)"

text \<open>
  \<^term>\<open>None\<close>: the chain panicked or did not return.  Of the message for a payload of the wrong type
  the ASCII part is kept.
\<close>

definition transport_Execute ::
    "'v henv \<Rightarrow> 'v TOptions \<Rightarrow> string \<Rightarrow> 'v pdata Request \<Rightarrow> tick
     \<Rightarrow> ('v pdata Response option \<times> goerr option) option" where
  "transport_Execute env o1 endpoint req i =
     (case ReqData req of
        DataRequest httpReq \<Rightarrow>
          (case Execute env (transport_builder o1) i (GetMethod httpReq)
                  (buildURL endpoint (hr_Path httpReq)) (hr_Query httpReq) (hr_Body httpReq)
                  (Some (mergeHeaders o1 endpoint (hr_Headers httpReq))) of
             Some (None, result) \<Rightarrow> Some (buildNodepoolResponse result)
           | _ \<Rightarrow> None)
      | DataResponse _ \<Rightarrow>
          Some (None, Some (ErrNew ''httpTransport: req.Data: *httpTransport.HTTPResponse''))
      | DataOther t \<Rightarrow> Some (None, Some (ErrNew (''httpTransport: req.Data: '' @ t))))"

section \<open>The classifier\<close>

type_synonym ClassifyFunc = "int \<Rightarrow> string \<Rightarrow> goerr option \<Rightarrow> NodeStatus"

record HClassifier =
  failCodes :: "int set"
  bizErrCodes :: "int set"
  customClassify :: "ClassifyFunc option"

text \<open>\<^verbatim>\<open>ClassifierOption\<close>s, by the constructor that made them.\<close>

datatype ClassifierOption =
  WithFailCodes "int list" | WithBizErrCodes "int list" | WithCustomClassify ClassifyFunc

fun apply_classifier_option :: "HClassifier \<Rightarrow> ClassifierOption \<Rightarrow> HClassifier" where
  "apply_classifier_option c (WithFailCodes codes) =
     foldl (\<lambda>c code. c\<lparr>failCodes := insert code (failCodes c), bizErrCodes := bizErrCodes c - {code}\<rparr>) c codes"
| "apply_classifier_option c (WithBizErrCodes codes) =
     foldl (\<lambda>c code. c\<lparr>bizErrCodes := insert code (bizErrCodes c), failCodes := failCodes c - {code}\<rparr>) c codes"
| "apply_classifier_option c (WithCustomClassify fn) = c\<lparr>customClassify := Some fn\<rparr>"

definition NewClassifier :: "ClassifierOption list \<Rightarrow> HClassifier" where
  "NewClassifier os =
     foldl apply_classifier_option \<lparr>failCodes = {429}, bizErrCodes = {}, customClassify = None\<rparr> os"

definition Classify :: "HClassifier \<Rightarrow> 'v pdata ResponseClassifier" where
  "Classify c = (\<lambda>_ _ resp err.
     if err \<noteq> None \<and> resp = None then NodeStatusFail
     else
       (let (statusCode, body) = (case resp of
               Some r \<Rightarrow> (case Data r of DataResponse h \<Rightarrow> (hp_StatusCode h, hp_Body h) | _ \<Rightarrow> (0, []))
             | None \<Rightarrow> (0, []))
        in if err \<noteq> None then
             (case customClassify c of Some f \<Rightarrow> f statusCode body err | None \<Rightarrow> NodeStatusFail)
           else case customClassify c of
             Some f \<Rightarrow> f statusCode body None
           | None \<Rightarrow>
               if statusCode \<in> failCodes c then NodeStatusFail
               else if statusCode \<in> bizErrCodes c then NodeStatusBizError
               else if statusCode \<ge> 500 then NodeStatusFail
               else if statusCode \<ge> 400 then NodeStatusBizError
               else NodeStatusSuccess))"

section \<open>URLs and headers\<close>

lemma TrimRightC_slashes:
  "(e = [] \<or> last e \<noteq> c) \<Longrightarrow> TrimRightC (e @ replicate k c) c = e"
  by (cases e rule: rev_cases) (auto simp: TrimRightC_def dropWhile_append)

lemma TrimLeftC_slashes:
  "(p = [] \<or> hd p \<noteq> c) \<Longrightarrow> TrimLeftC (replicate k c @ p) c = p"
  by (cases p) (auto simp: TrimLeftC_def dropWhile_append)

text \<open>
  URL joining: an absolute path is used alone, an empty path means the endpoint itself, and
  otherwise endpoint and path are joined by exactly one slash, however many either side brings.
\<close>

theorem buildURL_joins:
  assumes "e = [] \<or> last e \<noteq> CHR ''/''" "p = [] \<or> hd p \<noteq> CHR ''/''"
    and "replicate m CHR ''/'' @ p \<noteq> []"
    and "\<not> HasPrefix (replicate m CHR ''/'' @ p) ''http://''" "\<not> HasPrefix (replicate m CHR ''/'' @ p) ''https://''"
  shows "buildURL (e @ replicate k CHR ''/'') (replicate m CHR ''/'' @ p) = e @ ''/'' @ p \<and>
    buildURL endpoint [] = endpoint \<and> buildURL endpoint (''https://'' @ x) = ''https://'' @ x"
proof -
  have "buildURL (e @ replicate k CHR ''/'') (replicate m CHR ''/'' @ p) = e @ ''/'' @ p"
    unfolding buildURL_def TrimRightC_slashes [OF assms(1)] TrimLeftC_slashes [OF assms(2)]
    using assms(3-5) by (simp only: if_False simp_thms)
  then show ?thesis by (simp add: buildURL_def HasPrefix_def)
qed

theorem buildURL_joins_witness:
  "buildURL ''http://h//'' ''/v1'' = ''http://h/v1''"
  using buildURL_joins [of "''http://h''" "''v1''" 1 2 "[]" "[]"]
  by (simp add: HasPrefix_def numeral_2_eq_2)

text \<open>
  Header precedence: a header of the request wins over one of the node, which wins over a
  default one; a header none of them sets is absent.
\<close>

theorem mergeHeaders_priority:
  "mergeHeaders o1 endpoint reqHeaders k =
     (case reqHeaders k of
        Some v \<Rightarrow> Some v
      | None \<Rightarrow>
          (case Option.bind (to_nodeHeaders o1 endpoint) (\<lambda>m. m k) of
             Some v \<Rightarrow> Some v
           | None \<Rightarrow> to_headers o1 k))"
  by (auto simp: mergeHeaders_def Let_def map_add_def split: option.split)

section \<open>Classification\<close>

text \<open>The last option that mentions a code decides about it; 429 starts out as a failure.\<close>

fun code_mark :: "int \<Rightarrow> ClassifierOption list \<Rightarrow> NodeStatus option" where
  "code_mark code [] = (if code = 429 then Some NodeStatusFail else None)"
| "code_mark code (WithFailCodes codes # os) =
     (if code \<in> set codes then Some NodeStatusFail else code_mark code os)"
| "code_mark code (WithBizErrCodes codes # os) =
     (if code \<in> set codes then Some NodeStatusBizError else code_mark code os)"
| "code_mark code (WithCustomClassify f # os) = code_mark code os"

definition status_default :: "int \<Rightarrow> NodeStatus" where
  "status_default code =
     (if code \<ge> 500 then NodeStatusFail else if code \<ge> 400 then NodeStatusBizError else NodeStatusSuccess)"

lemma mark_codes:
  "failCodes (foldl (\<lambda>c code. c\<lparr>failCodes := insert code (failCodes c),
     bizErrCodes := bizErrCodes c - {code}\<rparr>) c codes) = failCodes c \<union> set codes"
  "bizErrCodes (foldl (\<lambda>c code. c\<lparr>failCodes := insert code (failCodes c),
     bizErrCodes := bizErrCodes c - {code}\<rparr>) c codes) = bizErrCodes c - set codes"
  "customClassify (foldl (\<lambda>c code. c\<lparr>failCodes := insert code (failCodes c),
     bizErrCodes := bizErrCodes c - {code}\<rparr>) c codes) = customClassify c"
  "bizErrCodes (foldl (\<lambda>c code. c\<lparr>bizErrCodes := insert code (bizErrCodes c),
     failCodes := failCodes c - {code}\<rparr>) c codes) = bizErrCodes c \<union> set codes"
  "failCodes (foldl (\<lambda>c code. c\<lparr>bizErrCodes := insert code (bizErrCodes c),
     failCodes := failCodes c - {code}\<rparr>) c codes) = failCodes c - set codes"
  "customClassify (foldl (\<lambda>c code. c\<lparr>bizErrCodes := insert code (bizErrCodes c),
     failCodes := failCodes c - {code}\<rparr>) c codes) = customClassify c"
  by (induction codes arbitrary: c) auto

lemma NewClassifier_snoc: "NewClassifier (os @ [x]) = apply_classifier_option (NewClassifier os) x"
  by (simp add: NewClassifier_def)

lemma NewClassifier_codes:
  "code \<in> failCodes (NewClassifier os) \<longleftrightarrow> code_mark code (rev os) = Some NodeStatusFail"
  "code \<in> bizErrCodes (NewClassifier os) \<longleftrightarrow> code_mark code (rev os) = Some NodeStatusBizError"
proof (induction os rule: rev_induct)
  case Nil
  show "code \<in> failCodes (NewClassifier []) \<longleftrightarrow> code_mark code (rev []) = Some NodeStatusFail"
    "code \<in> bizErrCodes (NewClassifier []) \<longleftrightarrow> code_mark code (rev []) = Some NodeStatusBizError"
    by (simp_all add: NewClassifier_def)
next
  case (snoc x os)
  show "code \<in> failCodes (NewClassifier (os @ [x])) \<longleftrightarrow> code_mark code (rev (os @ [x])) = Some NodeStatusFail"
    "code \<in> bizErrCodes (NewClassifier (os @ [x])) \<longleftrightarrow> code_mark code (rev (os @ [x])) = Some NodeStatusBizError"
    using snoc by (cases x; auto simp: NewClassifier_snoc mark_codes)+
qed

fun custom_of :: "ClassifierOption list \<Rightarrow> ClassifyFunc option" where
  "custom_of [] = None"
| "custom_of (WithCustomClassify f # os) = Some f"
| "custom_of (_ # os) = custom_of os"

lemma NewClassifier_custom: "customClassify (NewClassifier os) = custom_of (rev os)"
proof (induction os rule: rev_induct)
  case (snoc x os)
  then show ?case by (cases x) (auto simp: NewClassifier_snoc mark_codes)
qed (simp add: NewClassifier_def)

lemma code_mark_cases:
  "code_mark code os = None \<or> code_mark code os = Some NodeStatusFail \<or>
   code_mark code os = Some NodeStatusBizError"
  by (induction code os rule: code_mark.induct) auto

text \<open>The contract the pool needs of a classifier, and what it gives the pool.\<close>

locale response_classifier =
  fixes classify :: "'a ResponseClassifier"
  assumes no_answer_fails: "classify c e None (Some err) = NodeStatusFail"
begin

lemma doOnNode_no_answer:
  assumes "tryTransitionToHalfOpen (now env i) (h a) = (True, n1)"
    and "Classifier (config n1) = None"
    and "transport c (Endpoint (config n1)) req (i + 2) = (None, Some err)"
  shows "doOnNode env transport classify c a req (h, i) =
    ((None, NodeStatusFail, Some err),
     (h(a := RecordFailure (now env (i + 3) - now env (i + 1)) (now env (i + 4)) n1), i + 5))"
  using assms by (simp add: doOnNode_def no_answer_fails record_outcome_def)

end

interpretation default_classifier: response_classifier "DefaultClassifier_Classify"
  by unfold_locales (simp add: DefaultClassifier_Classify_def)

interpretation http_classifier: response_classifier "Classify (NewClassifier os)" for os
  by unfold_locales (simp add: Classify_def)

text \<open>A transport whose middlewares do not panic always returns, with a response.\<close>

lemma transport_builder_fields:
  "rb_client (transport_builder o1) = to_client o1"
  "rb_chain (transport_builder o1) = to_middlewares o1"
  "rb_keepLog (transport_builder o1) = to_keepLog o1"
  "rb_sendErrorMsg (transport_builder o1) = to_sendErrorMsg o1"
  by (auto simp: transport_builder_def Let_def NewRequestBuilder_def NoKeepLog_def NoSendErrorMsg_def
      SetTimeout_def Use_def)

lemma Execute_returns:
  assumes "length (rb_chain rb) \<le> 61" "\<forall>m\<in>set (rb_chain rb). mw_ok m"
  shows "\<exists>c. Execute env rb i method url q body hs = Some (None, c)"
proof (cases "url = [] \<or> \<not> isValidHTTPMethod method")
  case True
  then show ?thesis by (auto simp: Execute_def Let_def)
next
  case False
  with Execute_runs assms show ?thesis by blast
qed

text \<open>
  From answer to node status: a transport with panic-free middlewares always returns a response,
  also when the request failed.  A custom function therefore decides about every answer, transport
  errors included; without one, an error is a node failure, a code marked by an option has the
  meaning of the last option that names it (429 is a failure from the start), and any other code is
  a failure from 500 on, a business error from 400 on and a success below.
\<close>

theorem transport_classified:
  assumes "length (to_middlewares o1) \<le> 61" "\<forall>m\<in>set (to_middlewares o1). mw_ok m"
  shows "\<exists>h err. transport_Execute env o1 endpoint \<lparr>ReqData = DataRequest r\<rparr> i =
      Some (Some \<lparr>Data = DataResponse h, Latency = 0\<rparr>, err) \<and>
    Classify (NewClassifier os) ctx endpoint (Some \<lparr>Data = DataResponse h, Latency = lat\<rparr>) err =
      (case custom_of (rev os) of
         Some f \<Rightarrow> f (hp_StatusCode h) (hp_Body h) err
       | None \<Rightarrow>
           if err \<noteq> None then NodeStatusFail
           else (case code_mark (hp_StatusCode h) (rev os) of
                   Some st \<Rightarrow> st
                 | None \<Rightarrow> status_default (hp_StatusCode h)))"
proof -
  obtain c where c: "Execute env (transport_builder o1) i (GetMethod r) (buildURL endpoint (hr_Path r))
      (hr_Query r) (hr_Body r) (Some (mergeHeaders o1 endpoint (hr_Headers r))) = Some (None, c)"
    using Execute_returns [of "transport_builder o1"] assms by (simp add: transport_builder_fields) blast
  let ?h = "buildHTTPResponse (hResponse c)"
  have "transport_Execute env o1 endpoint \<lparr>ReqData = DataRequest r\<rparr> i =
      Some (Some \<lparr>Data = DataResponse ?h, Latency = 0\<rparr>, hError c)"
    by (simp add: transport_Execute_def c buildNodepoolResponse_def HasError_def)
  moreover have "Classify (NewClassifier os) ctx endpoint (Some \<lparr>Data = DataResponse ?h, Latency = lat\<rparr>) (hError c) =
      (case custom_of (rev os) of
         Some f \<Rightarrow> f (hp_StatusCode ?h) (hp_Body ?h) (hError c)
       | None \<Rightarrow>
           if hError c \<noteq> None then NodeStatusFail
           else (case code_mark (hp_StatusCode ?h) (rev os) of
                   Some st \<Rightarrow> st
                 | None \<Rightarrow> status_default (hp_StatusCode ?h)))"
    using code_mark_cases [of "hp_StatusCode ?h" "rev os"]
    by (auto simp: Classify_def NewClassifier_custom NewClassifier_codes status_default_def split: option.split)
  ultimately show ?thesis by blast
qed

theorem transport_classified_witness:
  "\<exists>h err. transport_Execute demo_henv (transport_New demo_client []) ''http://h''
      \<lparr>ReqData = DataRequest \<lparr>hr_Method = [], hr_Path = ''/x'', hr_Query = [], hr_Body = BodyNil,
         hr_Headers = Map.empty\<rparr>\<rparr> 0 = Some (Some \<lparr>Data = DataResponse h, Latency = 0\<rparr>, err)"
  using transport_classified [of "transport_New demo_client []" demo_henv "''http://h''"
      "\<lparr>hr_Method = [], hr_Path = ''/x'', hr_Query = [], hr_Body = BodyNil, hr_Headers = Map.empty\<rparr>" 0
      "[]" Background 0]
  by (simp add: transport_New_def transport_defaultOptions_def) blast

end
