(* ===== verification/Request_Pool.thy ===== *)
theory Request_Pool
  imports Net_Http Float64 "HOL-Library.AList" "HOL-Library.Multiset"
begin

text \<open>
  \<^verbatim>\<open>provider/requestPool/server.go\<close>: a pool of HTTP endpoints (points), each with a queue of its own
  and worker goroutines that also serve the pool's queue.  A failed request travels to another
  point until it succeeds or has used up its retries; a caller waits for its group of requests.
  Every message is in one place at a time: a queue, the hands of a worker, or the group's results.
\<close>

section \<open>State\<close>

record 'v PRequest =
  q_Method :: string
  q_Path :: string
  q_Body :: "'v Body"
  q_Params :: "(string \<times> string list) list"
  q_Headers :: "(string \<times> string) list"
  q_Result :: "'v hdata option"
  q_Error :: "goerr option"
  q_RetryNum :: int
  requestID :: string
  groupID :: string
  q_errorNum :: int
  groupNum :: nat
  errorUrls :: "string set"

record PointConfig =
  pc_Url :: string
  pc_Headers :: "(string \<Rightarrow> string option) option"

record 'v Point =
  p_Url :: string
  p_Headers :: "(string \<Rightarrow> string option) option"
  p_routines :: "nat list"
  p_requestChan :: "'v PRequest list"
  requestNum :: int
  requestTime :: int
  avgTime :: int
  successNum :: int
  p_errorNum :: int
  successStreak :: int
  failureStreak :: int
  lastAdjustTime :: "int option"
  failureCount :: int
  backoffTime :: "int option"
  needClose :: bool
  inHand :: "'v PRequest list"

text \<open>
  The pool: points by id (a removed point lives on until its workers are gone), the ids in
  \<^verbatim>\<open>pointManage\<close>, the sorted ids, the queue, and per open group its results and whether its
  channel has been closed.
\<close>

record 'v RPool =
  rp_isRpc :: bool
  rp_requestChan :: "'v PRequest list"
  point :: "string \<Rightarrow> 'v Point"
  pointIds :: "string list"
  pointManage :: "string list"
  pointSort :: "string list"
  resultMap :: "string \<Rightarrow> (string \<times> 'v PRequest) list option"
  notifyChan :: "string \<Rightarrow> bool option"
  nextGid :: nat
  lost :: "'v PRequest list"

definition DefaultConcurrency :: nat where "DefaultConcurrency = 10"
definition MaxRetryAttempts :: int where "MaxRetryAttempts = 3"
definition MaxConcurrency :: nat where "MaxConcurrency = 200"
definition SuccessThreshold :: int where "SuccessThreshold = 5"
definition FailureThreshold :: int where "FailureThreshold = 3"
definition MaxFailureCount :: int where "MaxFailureCount = 5"
definition SecondNs :: int where "SecondNs = 1000000000"
definition CooldownPeriod :: int where "CooldownPeriod = SecondNs"
definition ChanCap :: nat where "ChanCap = 10000"

definition set_point :: "string \<Rightarrow> 'v Point \<Rightarrow> 'v RPool \<Rightarrow> 'v RPool" where
  "set_point pid p st = st\<lparr>point := (point st)(pid := p)\<rparr>"

section \<open>Construction\<close>

definition newPoint :: "PointConfig \<Rightarrow> 'v Point" where
  "newPoint cfg = \<lparr>p_Url = pc_Url cfg, p_Headers = pc_Headers cfg, p_routines = [], p_requestChan = [],
     requestNum = 0, requestTime = 0, avgTime = 0, successNum = 0, p_errorNum = 0, successStreak = 0,
     failureStreak = 0, lastAdjustTime = None, failureCount = 0, backoffTime = None,
     needClose = False, inHand = []\<rparr>"

text \<open>\<^verbatim>\<open>AddGoroutine\<close>: the new worker registers itself under a fresh id.\<close>

definition AddGoroutine :: "string \<Rightarrow> 'v RPool \<Rightarrow> 'v RPool" where
  "AddGoroutine pid st =
     (let p = point st pid
      in (set_point pid (p\<lparr>p_routines := p_routines p @ [nextGid st]\<rparr>) st)\<lparr>nextGid := Suc (nextGid st)\<rparr>)"

definition addPoint :: "string \<Rightarrow> PointConfig \<Rightarrow> 'v RPool \<Rightarrow> 'v RPool" where
  "addPoint pid cfg st =
     (set_point pid (newPoint cfg) st)\<lparr>pointIds := pointIds st @ [pid], pointManage := pointManage st @ [pid]\<rparr>"

definition startPoint :: "string \<Rightarrow> 'v RPool \<Rightarrow> 'v RPool" where
  "startPoint pid st = (AddGoroutine pid ^^ DefaultConcurrency) st"

text \<open>The ids the \<^verbatim>\<open>uuid\<close> library hands out come with the configurations.\<close>

definition NewPool :: "bool \<Rightarrow> (string \<times> PointConfig) list \<Rightarrow> 'v Point \<Rightarrow> goerr + 'v RPool" where
  "NewPool isRpc points dummy =
     (if points = [] then Inl (ErrNew ''Pool is empty'')
      else (let st0 = \<lparr>rp_isRpc = isRpc, rp_requestChan = [], point = (\<lambda>_. dummy), pointIds = [],
                       pointManage = [], pointSort = [], resultMap = Map.empty, notifyChan = Map.empty,
                       nextGid = 0, lost = []\<rparr>;
                st1 = foldl (\<lambda>st (pid, cfg). addPoint pid cfg st) st0 points
            in Inr (foldl (\<lambda>st pid. startPoint pid st) st1 (pointManage st1))))"

definition Point_Close :: "string \<Rightarrow> 'v RPool \<Rightarrow> 'v RPool" where
  "Point_Close pid st = set_point pid ((point st pid)\<lparr>needClose := True\<rparr>) st"

text \<open>
  \<^verbatim>\<open>UpdatePoints\<close>: the new configurations (one per URL, the last given) edit or add a point; points
  of URLs that are gone are closed and removed.
\<close>

definition point_of_url :: "'v RPool \<Rightarrow> string \<Rightarrow> string option" where
  "point_of_url st url =
     (case filter (\<lambda>pid. p_Url (point st pid) = url) (pointManage st) of
        [] \<Rightarrow> None | pids \<Rightarrow> Some (last pids))"

definition updatePoint :: "'v RPool \<Rightarrow> 'v RPool \<Rightarrow> string \<times> PointConfig \<Rightarrow> 'v RPool" where
  "updatePoint old st pc =
     (case point_of_url old (pc_Url (snd pc)) of
        Some pid \<Rightarrow> set_point pid ((point st pid)\<lparr>p_Headers := pc_Headers (snd pc), needClose := False\<rparr>) st
      | None \<Rightarrow> startPoint (fst pc) (addPoint (fst pc) (snd pc) st))"

definition dropPoint :: "string \<Rightarrow> 'v RPool \<Rightarrow> 'v RPool" where
  "dropPoint pid st =
     (let st1 = Point_Close pid st in st1\<lparr>pointManage := filter (\<lambda>x. x \<noteq> pid) (pointManage st1)\<rparr>)"

fun first_by :: "('x \<Rightarrow> 'k) \<Rightarrow> 'x list \<Rightarrow> 'x list" where
  "first_by f [] = []"
| "first_by f (x # xs) = x # filter (\<lambda>y. f y \<noteq> f x) (first_by f xs)"

definition UpdatePoints :: "(string \<times> PointConfig) list \<Rightarrow> 'v RPool \<Rightarrow> 'v RPool" where
  "UpdatePoints configs st =
     (if configs = [] then st
      else (let urls = map (pc_Url \<circ> snd) configs;
                newConfigs = first_by (pc_Url \<circ> snd) (rev configs);
                st1 = foldl (updatePoint st) st newConfigs;
                olds = remdups (map (\<lambda>pid. p_Url (point st pid)) (pointManage st));
                gone = filter (\<lambda>u. u \<notin> set urls) olds
            in foldl (\<lambda>st1 u. case point_of_url st u of None \<Rightarrow> st1 | Some pid \<Rightarrow> dropPoint pid st1) st1 gone))"

section \<open>Handling a request\<close>

definition saveAndNotify :: "'v PRequest \<Rightarrow> 'v RPool \<Rightarrow> 'v RPool" where
  "saveAndNotify req st =
     (case resultMap st (groupID req) of
        None \<Rightarrow> st
      | Some rs \<Rightarrow>
          (let rs' = AList.update (requestID req) req rs;
               st1 = st\<lparr>resultMap := (resultMap st)(groupID req \<mapsto> rs')\<rparr>
           in if notifyChan st (groupID req) \<noteq> None \<and> length rs' = groupNum req
              then st1\<lparr>notifyChan := (notifyChan st1)(groupID req \<mapsto> True)\<rparr> else st1))"

text \<open>Where a request may be redirected: the first sorted point that can take it.\<close>

definition can_take :: "'v RPool \<Rightarrow> string \<Rightarrow> 'v PRequest \<Rightarrow> string \<Rightarrow> bool" where
  "can_take st cur req pid \<longleftrightarrow>
     pid \<noteq> cur \<and> pid \<notin> errorUrls req \<and>
     length (p_requestChan (point st pid)) < length (p_routines (point st pid)) \<and>
     \<not> needClose (point st pid) \<and> length (p_requestChan (point st pid)) < ChanCap"

definition enqueue_point :: "string \<Rightarrow> 'v PRequest \<Rightarrow> 'v RPool \<Rightarrow> 'v RPool" where
  "enqueue_point pid req st =
     set_point pid ((point st pid)\<lparr>p_requestChan := p_requestChan (point st pid) @ [req]\<rparr>) st"

definition redirectRequest :: "string \<Rightarrow> 'v PRequest \<Rightarrow> 'v RPool \<Rightarrow> 'v RPool" where
  "redirectRequest cur req st =
     (case find (can_take st cur req) (pointSort st) of
        Some pid \<Rightarrow> enqueue_point pid req st
      | None \<Rightarrow>
          (let req1 = req\<lparr>errorUrls := {}\<rparr>
           in if needClose (point st cur) then st\<lparr>rp_requestChan := rp_requestChan st @ [req1]\<rparr>
              else enqueue_point cur req1 st))"

text \<open>\<open>gid\<close> is the worker that handled the request; its channel is closed when it must stop.\<close>

definition adjustGoroutine :: "string \<Rightarrow> nat \<Rightarrow> bool \<Rightarrow> int \<Rightarrow> 'v RPool \<Rightarrow> 'v RPool" where
  "adjustGoroutine pid gid success now st =
     (let p = point st pid
      in if (case lastAdjustTime p of None \<Rightarrow> False | Some t \<Rightarrow> now - t < CooldownPeriod) then st
         else if success then
           if successStreak p \<ge> SuccessThreshold \<and> length (p_routines p) < MaxConcurrency then
             (let st1 = AddGoroutine pid st
              in set_point pid ((point st1 pid)\<lparr>successStreak := 0, lastAdjustTime := Some now\<rparr>) st1)
           else st
         else
           if failureStreak p \<ge> FailureThreshold \<and> length (p_routines p) > 1 then
             set_point pid (p\<lparr>p_routines := filter (\<lambda>g. g \<noteq> gid) (p_routines p), failureStreak := 0,
                              lastAdjustTime := Some now\<rparr>) st
           else st)"

definition record_success :: "int \<Rightarrow> 'v Point \<Rightarrow> 'v Point" where
  "record_success exec p =
     p\<lparr>requestNum := requestNum p + 1, successNum := successNum p + 1,
       requestTime := requestTime p + exec,
       avgTime := tdiv (requestTime p + exec) (requestNum p + 1),
       successStreak := successStreak p + 1, failureStreak := 0\<rparr>"

definition record_failure :: "int \<Rightarrow> 'v Point \<Rightarrow> 'v Point" where
  "record_failure now p =
     (let p1 = p\<lparr>failureCount := failureCount p + 1\<rparr>;
          p2 = (if failureCount p1 \<ge> MaxFailureCount
                then p1\<lparr>backoffTime := Some (now + SecondNs), failureCount := 0\<rparr> else p1)
      in p2\<lparr>requestNum := requestNum p2 + 1, p_errorNum := p_errorNum p2 + 1,
            failureStreak := failureStreak p2 + 1, successStreak := 0\<rparr>)"

definition handleSuccessRequest ::
    "string \<Rightarrow> nat \<Rightarrow> 'v PRequest \<Rightarrow> int \<Rightarrow> 'v hdata \<Rightarrow> int \<Rightarrow> 'v RPool \<Rightarrow> 'v RPool" where
  "handleSuccessRequest pid gid req exec result now st =
     (let req1 = req\<lparr>q_Result := Some result, q_Error := None\<rparr>;
          st1 = set_point pid (record_success exec (point st pid)) st
      in adjustGoroutine pid gid True now (saveAndNotify req1 st1))"

definition may_retry :: "'v PRequest \<Rightarrow> bool" where
  "may_retry req \<longleftrightarrow> \<not> (q_RetryNum req > 0 \<and> q_errorNum req > q_RetryNum req)"

definition handleErrorRequest ::
    "string \<Rightarrow> nat \<Rightarrow> 'v PRequest \<Rightarrow> goerr \<Rightarrow> int \<Rightarrow> 'v RPool \<Rightarrow> 'v RPool" where
  "handleErrorRequest pid gid req err now st =
     (let req1 = req\<lparr>q_errorNum := q_errorNum req + 1, q_Error := Some err,
                     errorUrls := insert pid (errorUrls req)\<rparr>;
          st1 = set_point pid (record_failure now (point st pid)) st;
          st2 = (if may_retry req1 then redirectRequest pid req1 st1 else saveAndNotify req1 st1)
      in adjustGoroutine pid gid False now st2)"

section \<open>One attempt\<close>

text \<open>\<^verbatim>\<open>cleanManual\<close> blanks the control bytes.\<close>

definition cleanManual :: "string \<Rightarrow> string" where
  "cleanManual data = map (\<lambda>b. if of_char b \<ge> (32 :: nat) then b else CHR '' '') data"

definition CheckJson :: "'v henv \<Rightarrow> HResponse \<Rightarrow> goerr option" where
  "CheckJson env t =
     (if StatusCode t < 200 \<or> StatusCode t \<ge> 300 then
        Some (ErrNew (''Response Status not success: '' @ FormatInt (StatusCode t)))
      else if \<not> njValid env (cleanManual (RespBody t)) then Some (ErrNew ''Response is not json'')
      else None)"

text \<open>The queries the code makes of the JSON library.\<close>

record gjson_lib =
  gj_Exists :: "string \<Rightarrow> string \<Rightarrow> bool"
  gj_IsNull :: "string \<Rightarrow> string \<Rightarrow> bool"
  gj_Int :: "string \<Rightarrow> string \<Rightarrow> int"
  gj_Str :: "string \<Rightarrow> string \<Rightarrow> string"
  gj_Whole :: "string \<Rightarrow> string"

definition RetryCheckFunc :: "gjson_lib \<Rightarrow> bool \<Rightarrow> string \<Rightarrow> HResponse \<Rightarrow> goerr option" where
  "RetryCheckFunc gj isRpc url t =
     (let b = RespBody t; message = gj_Str gj b ''error.message'';
          nodeErr = Some (ErrNew (''node error: '' @ message))
      in if isRpc then
           if \<not> gj_Exists gj b ''result'' \<and> \<not> gj_Exists gj b ''error'' then
             Some (ErrNew (''not jsonrpc response:'' @ gj_Whole gj b))
           else if gj_Exists gj b ''result'' \<and> gj_IsNull gj b ''result'' then
             if Contains url ''put.com'' then None
             else Some (ErrNew (''result is null:'' @ gj_Whole gj b))
           else if gj_Exists gj b ''error.code'' then
             (let code = gj_Int gj b ''error.code''
              in if code = -28 then nodeErr
                 else if code = -32090 then nodeErr
                 else if code = -32001 \<and> message = ''Exceeded the quota usage'' then nodeErr
                 else if Contains (ToLower message) ''limit'' \<or> Contains (ToLower message) ''exceeded''
                 then nodeErr else None)
           else None
         else None)"

text \<open>
  \<^verbatim>\<open>DoRequest\<close>: the headers of the request are written into the point's own header map (the code
  assigns the map, it does not copy it); writing into a nil map panics.
\<close>

datatype 'r attempt = Panicked | Attempt 'r

definition DoHeaders :: "'v Point \<Rightarrow> 'v PRequest \<Rightarrow> 'v Point option" where
  "DoHeaders p req =
     (case p_Headers p of
        None \<Rightarrow> if q_Headers req = [] then Some p else None
      | Some m \<Rightarrow> Some (p\<lparr>p_Headers := Some (foldl (\<lambda>m (k, v). m(k \<mapsto> v)) m (q_Headers req))\<rparr>))"

definition DoTimeout :: "'v Point \<Rightarrow> 'v PRequest \<Rightarrow> int" where
  "DoTimeout p req =
     (let lastErrIsTimeout = (case q_Error req of None \<Rightarrow> False | Some e \<Rightarrow> errors_Is e DeadlineExceeded)
      in if \<not> lastErrIsTimeout \<and> avgTime p > 0 \<and> successNum p > 0
         then avgTime p + 5 * SecondNs else 60 * SecondNs)"

fun first_error :: "('x \<Rightarrow> goerr option) list \<Rightarrow> 'x \<Rightarrow> goerr option" where
  "first_error [] x = None"
| "first_error (f # fs) x = (case f x of Some e \<Rightarrow> Some e | None \<Rightarrow> first_error fs x)"

text \<open>The retry functions see the point, the request and the response.\<close>

type_synonym 'v ReTryFunc = "'v Point \<times> 'v PRequest \<times> HResponse \<Rightarrow> goerr option"

definition DoRequest ::
    "'v henv \<Rightarrow> gjson_lib \<Rightarrow> 'v ReTryFunc list \<Rightarrow> bool \<Rightarrow> 'v Point \<Rightarrow> 'v PRequest \<Rightarrow> tick
     \<Rightarrow> ('v Point \<times> (goerr + int \<times> 'v hdata)) attempt" where
  "DoRequest env gj retryFunc isRpc p req i =
     (case DoHeaders p req of
        None \<Rightarrow> Panicked
      | Some p1 \<Rightarrow>
          (let rb = SetTimeout (DoTimeout p1 req) (NoKeepLog (NewRequestBuilder (client env)))
           in case Execute env rb i (q_Method req) (p_Url p1 @ q_Path req) (q_Params req) (q_Body req) (p_Headers p1) of
                Some (None, res) \<Rightarrow>
                  (case hError res of
                     Some e \<Rightarrow> Attempt (p1, Inl (ErrWrapf (''url:'' @ p_Url p1 @ '': '') e))
                   | None \<Rightarrow>
                       (case hResponse res of
                          None \<Rightarrow> Panicked
                        | Some t \<Rightarrow>
                            (case CheckJson env t of
                               Some e \<Rightarrow> Attempt (p1, Inl (ErrWrapf (''url:'' @ p_Url p1 @ '': '') e))
                             | None \<Rightarrow>
                                 (case RetryCheckFunc gj isRpc (p_Url p1) t of
                                    Some e \<Rightarrow> Attempt (p1, Inl (ErrWrapf (''url:'' @ p_Url p1 @ '': '') e))
                                  | None \<Rightarrow>
                                      (case first_error retryFunc (p1, req, t) of
                                         Some e \<Rightarrow> Attempt (p1, Inl e)
                                       | None \<Rightarrow>
                                           (case StatsOf t of
                                              None \<Rightarrow> Panicked
                                            | Some ss \<Rightarrow> Attempt (p1, Inr (TotalTime ss, res))))))))
              | _ \<Rightarrow> Panicked))"

text \<open>
  The end of a worker's turn with a request it holds: a request whose group is gone is dropped; a
  panic ends the worker (\<^verbatim>\<open>SafeGo\<close> recovers) and the request with it.
\<close>

definition handleRequest ::
    "'v henv \<Rightarrow> gjson_lib \<Rightarrow> 'v ReTryFunc list \<Rightarrow> string \<Rightarrow> nat \<Rightarrow> 'v PRequest \<Rightarrow> tick \<Rightarrow> int \<Rightarrow> 'v RPool \<Rightarrow> 'v RPool" where
  "handleRequest env gj retryFunc pid gid req i now st =
     (case resultMap st (groupID req) of
        None \<Rightarrow> st
      | Some _ \<Rightarrow>
          (case DoRequest env gj retryFunc (rp_isRpc st) (point st pid) req i of
             Panicked \<Rightarrow>
               (set_point pid ((point st pid)\<lparr>p_routines :=
                   filter (\<lambda>g. g \<noteq> gid) (p_routines (point st pid))\<rparr>) st)\<lparr>lost := lost st @ [req]\<rparr>
           | Attempt (p1, Inl e) \<Rightarrow> handleErrorRequest pid gid req e now (set_point pid p1 st)
           | Attempt (p1, Inr (exec, res)) \<Rightarrow>
               handleSuccessRequest pid gid req exec res now (set_point pid p1 st)))"

definition handleRequestWithBackoff ::
    "'v henv \<Rightarrow> gjson_lib \<Rightarrow> 'v ReTryFunc list \<Rightarrow> string \<Rightarrow> nat \<Rightarrow> 'v PRequest \<Rightarrow> tick \<Rightarrow> int \<Rightarrow> 'v RPool \<Rightarrow> 'v RPool" where
  "handleRequestWithBackoff env gj retryFunc pid gid req i now st =
     (if (case backoffTime (point st pid) of None \<Rightarrow> False | Some t \<Rightarrow> now < t)
      then redirectRequest pid req st
      else handleRequest env gj retryFunc pid gid req i now st)"

section \<open>Scores and groups\<close>

definition calculateScore :: "'v Point \<Rightarrow> f64" where
  "calculateScore p =
     (let n = int (length (p_routines p));
          routinesScore = (if length (p_routines p) > DefaultConcurrency
                           then f_div (f_of_int n) (f_of_int (int MaxConcurrency)) else Fin 0);
          successRateScore = (if requestNum p > 0
                              then f_div (f_of_int (successNum p)) (f_of_int (requestNum p)) else Fin 0);
          failureStreakPenalty = f_div (f_of_int (failureStreak p)) (f_of_int n)
      in f_sub (f_add routinesScore successRateScore) failureStreakPenalty)"

text \<open>The messages of a group, and opening, reading and closing it.\<close>

definition groupMessage :: "string \<Rightarrow> nat \<Rightarrow> nat \<Rightarrow> string \<times> 'v PRequest \<Rightarrow> 'v PRequest" where
  "groupMessage gid msgLen rpcLen idv =
     (snd idv)\<lparr>requestID := fst idv, groupID := gid, groupNum := msgLen, errorUrls := {},
       q_RetryNum := (if q_RetryNum (snd idv) = 0 then int rpcLen * MaxRetryAttempts else q_RetryNum (snd idv))\<rparr>"

definition openGroup :: "string \<Rightarrow> (string \<times> 'v PRequest) list \<Rightarrow> 'v RPool \<Rightarrow> 'v RPool" where
  "openGroup gid requests st =
     st\<lparr>resultMap := (resultMap st)(gid \<mapsto> []), notifyChan := (notifyChan st)(gid \<mapsto> False),
        rp_requestChan := rp_requestChan st @
          map (groupMessage gid (length requests) (length (pointManage st))) requests\<rparr>"

definition closeGroup :: "string \<Rightarrow> 'v RPool \<Rightarrow> 'v RPool" where
  "closeGroup gid st =
     st\<lparr>notifyChan := (notifyChan st)(gid := None), resultMap := (resultMap st)(gid := None)\<rparr>"

definition groupResult :: "(string \<times> 'v PRequest) list \<Rightarrow> (string \<times> 'v PRequest) list \<times> goerr option" where
  "groupResult response =
     (response, case find (\<lambda>(_, v). q_Error v \<noteq> None) response of None \<Rightarrow> None | Some (_, v) \<Rightarrow> q_Error v)"

text \<open>A single request is a group of one; \<open>rid\<close> is its new id and \<open>multi\<close> the answer of \<^verbatim>\<open>RequestMulti\<close> (no map: \<^verbatim>\<open>nil\<close>).\<close>

definition Pool_Request :: "string \<Rightarrow> ((string \<times> 'v PRequest) list \<Rightarrow> (string \<times> 'v PRequest) list \<times> goerr option) \<Rightarrow> 'v PRequest \<Rightarrow> 'v PRequest option \<times> goerr option" where
  "Pool_Request rid multi req =
     (case multi [(rid, req)] of
        (_, Some e) \<Rightarrow> (None, Some e)
      | (results, None) \<Rightarrow>
          (case map_of results rid of
             None \<Rightarrow> (None, Some (ErrNew (''request result not found for request ID: '' @ rid)))
           | Some result \<Rightarrow> (Some result, q_Error result)))"

lemma Pool_Request_result:
  "Pool_Request rid (\<lambda>_. groupResult [(rid, r)]) req = (if q_Error r = None then (Some r, None) else (None, q_Error r))"
  by (auto simp: Pool_Request_def groupResult_def)

section \<open>Where the messages are\<close>

text \<open>The request ids of group \<open>g\<close> among some messages, at a point, and anywhere outside the results.\<close>

definition ids :: "string \<Rightarrow> 'v PRequest list \<Rightarrow> string multiset" where
  "ids g ms = image_mset requestID (filter_mset (\<lambda>m. groupID m = g) (mset ms))"

definition held :: "string \<Rightarrow> 'v Point \<Rightarrow> string multiset" where
  "held g p = ids g (p_requestChan p) + ids g (inHand p)"

definition pending :: "string \<Rightarrow> 'v RPool \<Rightarrow> string multiset" where
  "pending g st = ids g (rp_requestChan st) + ids g (lost st) +
     (\<Sum>pid\<leftarrow>pointIds st. held g (point st pid))"

lemma ids_simps [simp]:
  "ids g [] = {#}" "ids g (ms @ ns) = ids g ms + ids g ns"
  "ids g (m # ms) = (if groupID m = g then {#requestID m#} else {#}) + ids g ms"
  by (simp_all add: ids_def)

lemma ids_remove1: "m \<in> set ms \<Longrightarrow> ids g (remove1 m ms) + ids g [m] = ids g ms"
  by (induction ms) auto

lemma ids_empty: "(\<And>m. m \<in> set ms \<Longrightarrow> groupID m \<noteq> g) \<Longrightarrow> ids g ms = {#}"
  by (induction ms) auto

text \<open>The group and the id of a message decide where it counts.\<close>

lemma ids_cong: "groupID m = groupID n \<Longrightarrow> requestID m = requestID n \<Longrightarrow> ids g [m] = ids g [n]"
  by simp

lemma held_sum_upd:
  assumes "distinct pids" "pid \<in> set pids"
  shows "(\<Sum>x\<leftarrow>pids. held g ((f(pid := p)) x)) + held g (f pid) = (\<Sum>x\<leftarrow>pids. held g (f x)) + held g p"
  using assms
proof (induction pids)
  case (Cons a pids)
  have same: "(\<Sum>x\<leftarrow>pids. held g ((f(pid := p)) x)) = (\<Sum>x\<leftarrow>pids. held g (f x))" if "pid \<notin> set pids"
    using that by (intro arg_cong [where f = sum_list] map_cong) auto
  from Cons same show ?case by (cases "a = pid") (auto simp: ac_simps)
qed simp

lemma held_sum_notin:
  "pid \<notin> set pids \<Longrightarrow> (\<Sum>x\<leftarrow>pids. held g ((f(pid := p)) x)) = (\<Sum>x\<leftarrow>pids. held g (f x))"
  by (intro arg_cong [where f = sum_list] map_cong) auto

lemma set_point_fields [simp]:
  "point (set_point pid p st) = (point st)(pid := p)" "pointIds (set_point pid p st) = pointIds st"
  "rp_requestChan (set_point pid p st) = rp_requestChan st" "lost (set_point pid p st) = lost st"
  "resultMap (set_point pid p st) = resultMap st" "notifyChan (set_point pid p st) = notifyChan st"
  "pointSort (set_point pid p st) = pointSort st" "pointManage (set_point pid p st) = pointManage st"
  "nextGid (set_point pid p st) = nextGid st" "rp_isRpc (set_point pid p st) = rp_isRpc st"
  by (simp_all add: set_point_def)

lemma pending_set_point:
  assumes "distinct (pointIds st)" "pid \<in> set (pointIds st)"
  shows "pending g (set_point pid p st) + held g (point st pid) = pending g st + held g p"
  using held_sum_upd [OF assms, of g "point st" p] by (simp add: pending_def ac_simps)

lemma pending_set_same:
  assumes "distinct (pointIds st)" "held g p = held g (point st pid)"
  shows "pending g (set_point pid p st) = pending g st"
proof (cases "pid \<in> set (pointIds st)")
  case True
  from pending_set_point [OF assms(1) True, of g p] assms(2) show ?thesis by simp
next
  case False
  then show ?thesis using held_sum_notin [OF False, of g "point st" p] by (simp add: pending_def)
qed

section \<open>The invariant\<close>

text \<open>
  \<open>G g\<close> are the request ids the group \<open>g\<close> was opened with; \<open>fly\<close> are messages between two places.
  What is pending and what has results make up the group, and the channel of the group is closed
  exactly when all results are there.
\<close>

definition group_inv :: "(string \<Rightarrow> string list) \<Rightarrow> 'v PRequest list \<Rightarrow> 'v RPool \<Rightarrow> bool" where
  "group_inv G fly st \<longleftrightarrow> (\<forall>g rs. resultMap st g = Some rs \<longrightarrow>
     distinct (G g) \<and> G g \<noteq> [] \<and>
     pending g st + ids g fly + mset (map fst rs) = mset (G g) \<and>
     notifyChan st g = Some (length rs = length (G g)))"

text \<open>What holds of every message: its group's size, and its retry budget.\<close>

definition msg_ok :: "(string \<Rightarrow> string list) \<Rightarrow> 'v PRequest \<Rightarrow> bool" where
  "msg_ok G m \<longleftrightarrow> groupNum m = length (G (groupID m)) \<and>
     (q_RetryNum m > 0 \<longrightarrow> q_errorNum m \<le> q_RetryNum m)"

definition messages :: "'v RPool \<Rightarrow> 'v PRequest set" where
  "messages st = set (rp_requestChan st) \<union> set (lost st) \<union>
     (\<Union>pid\<in>set (pointIds st). set (p_requestChan (point st pid)) \<union> set (inHand (point st pid)))"

definition point_inv :: "'v Point \<Rightarrow> bool" where
  "point_inv p \<longleftrightarrow> requestNum p = successNum p + p_errorNum p \<and> 0 \<le> successNum p \<and> 0 \<le> p_errorNum p \<and>
     0 \<le> failureCount p \<and> failureCount p < MaxFailureCount \<and> length (p_routines p) \<le> MaxConcurrency \<and>
     0 \<le> successStreak p \<and> 0 \<le> failureStreak p \<and> (successStreak p = 0 \<or> failureStreak p = 0)"

definition shape_inv :: "'v RPool \<Rightarrow> bool" where
  "shape_inv st \<longleftrightarrow> distinct (pointIds st) \<and> set (pointManage st) \<subseteq> set (pointIds st) \<and>
     set (pointSort st) \<subseteq> set (pointIds st) \<and> (\<forall>pid\<in>set (pointIds st). point_inv (point st pid))"

definition msgs_inv :: "(string \<Rightarrow> string list) \<Rightarrow> 'v RPool \<Rightarrow> bool" where
  "msgs_inv G st \<longleftrightarrow> (\<forall>m\<in>messages st. resultMap st (groupID m) \<noteq> None \<longrightarrow> msg_ok G m)"

definition results_inv :: "'v RPool \<Rightarrow> bool" where
  "results_inv st \<longleftrightarrow> (\<forall>g rs k v. resultMap st g = Some rs \<longrightarrow> (k, v) \<in> set rs \<longrightarrow>
     requestID v = k \<and> groupID v = g \<and> (q_RetryNum v > 0 \<longrightarrow> q_errorNum v \<le> q_RetryNum v + 1))"

definition rp_inv :: "(string \<Rightarrow> string list) \<Rightarrow> 'v PRequest list \<Rightarrow> 'v RPool \<Rightarrow> bool" where
  "rp_inv G fly st \<longleftrightarrow> shape_inv st \<and> group_inv G fly st \<and> msgs_inv G st \<and> results_inv st"

lemma shape_invD:
  "shape_inv st \<Longrightarrow> distinct (pointIds st)"
  "shape_inv st \<Longrightarrow> pid \<in> set (pointIds st) \<Longrightarrow> point_inv (point st pid)"
  "shape_inv st \<Longrightarrow> pid \<in> set (pointSort st) \<Longrightarrow> pid \<in> set (pointIds st)"
  "shape_inv st \<Longrightarrow> pid \<in> set (pointManage st) \<Longrightarrow> pid \<in> set (pointIds st)"
  by (auto simp: shape_inv_def)

text \<open>
  Every operation changes a point or moves a message.  The rule for both: the pending ids of open
  groups change as the floating messages do, and no message appears that was not one or floating.
\<close>

lemma rp_inv_move:
  assumes "rp_inv G fly st" "shape_inv st'"
    "\<And>g. resultMap st g \<noteq> None \<Longrightarrow> pending g st' + ids g fly' = pending g st + ids g fly"
    "messages st' \<subseteq> messages st \<union> M"
    "\<And>m. m \<in> M \<Longrightarrow> resultMap st (groupID m) \<noteq> None \<Longrightarrow> msg_ok G m"
    "resultMap st' = resultMap st" "notifyChan st' = notifyChan st"
  shows "rp_inv G fly' st'"
proof -
  have "group_inv G fly' st'"
    using assms(1,3,6,7) unfolding rp_inv_def group_inv_def by auto
  moreover have "msgs_inv G st'" using assms(1,4,5,6) unfolding rp_inv_def msgs_inv_def by auto
  ultimately show ?thesis using assms(1,2,6) by (simp add: rp_inv_def results_inv_def)
qed

lemma shape_set_point:
  "shape_inv st \<Longrightarrow> point_inv p \<Longrightarrow> shape_inv (set_point pid p st)"
  by (auto simp: shape_inv_def)

lemma messages_set_point:
  "messages (set_point pid p st) \<subseteq> messages st \<union> (set (p_requestChan p) \<union> set (inHand p))"
  by (auto simp: messages_def split: if_splits)

lemma messages_point:
  "pid \<in> set (pointIds st) \<Longrightarrow> set (p_requestChan (point st pid)) \<union> set (inHand (point st pid)) \<subseteq> messages st"
  by (auto simp: messages_def)

lemma rp_inv_set_point:
  assumes "rp_inv G fly st" "point_inv p" "pid \<in> set (pointIds st)"
    "p_requestChan p = p_requestChan (point st pid)" "inHand p = inHand (point st pid)"
  shows "rp_inv G fly (set_point pid p st)"
proof (rule rp_inv_move [OF assms(1), where M = "{}"])
  have sh: "shape_inv st" using assms(1) by (simp add: rp_inv_def)
  show "shape_inv (set_point pid p st)" using sh assms(2) by (rule shape_set_point)
  show "pending g (set_point pid p st) + ids g fly = pending g st + ids g fly" for g
    using pending_set_same [of st g p pid] shape_invD(1) [OF sh] assms(4,5) by (simp add: held_def)
  show "messages (set_point pid p st) \<subseteq> messages st \<union> {}"
    using messages_set_point [of pid p st] messages_point [OF assms(3)] assms(4,5) by auto
qed simp_all

section \<open>Each operation keeps the invariant\<close>

lemma rp_inv_shape: "rp_inv G fly st \<Longrightarrow> shape_inv st"
  by (simp add: rp_inv_def)

lemma AddGoroutine_fields [simp]:
  "resultMap (AddGoroutine pid st) = resultMap st" "notifyChan (AddGoroutine pid st) = notifyChan st"
  "pointIds (AddGoroutine pid st) = pointIds st" "pointManage (AddGoroutine pid st) = pointManage st"
  "pointSort (AddGoroutine pid st) = pointSort st" "rp_requestChan (AddGoroutine pid st) = rp_requestChan st"
  "lost (AddGoroutine pid st) = lost st" "rp_isRpc (AddGoroutine pid st) = rp_isRpc st"
  "point (AddGoroutine pid st) = (point st)(pid := (point st pid)\<lparr>p_routines := p_routines (point st pid) @ [nextGid st]\<rparr>)"
  by (simp_all add: AddGoroutine_def Let_def)

text \<open>The worker counter is not part of the invariant.\<close>

lemma rp_inv_nextGid: "rp_inv G fly (st\<lparr>nextGid := k\<rparr>) = rp_inv G fly st"
  by (simp add: rp_inv_def shape_inv_def group_inv_def msgs_inv_def results_inv_def messages_def pending_def)

lemma AddGoroutine_inv:
  assumes "rp_inv G fly st" "pid \<in> set (pointIds st)" "length (p_routines (point st pid)) < MaxConcurrency"
  shows "rp_inv G fly (AddGoroutine pid st)"
proof -
  have "point_inv (point st pid)" using assms(1,2) rp_inv_shape shape_invD(2) by blast
  then show ?thesis unfolding AddGoroutine_def Let_def rp_inv_nextGid
    using assms(3) by (intro rp_inv_set_point [OF assms(1) _ assms(2)]) (simp_all add: point_inv_def)
qed

lemma length_filter_mono: "length xs \<le> n \<Longrightarrow> length (filter P xs) \<le> n"
  using length_filter_le [of P xs] by linarith

lemma adjustGoroutine_inv:
  assumes "rp_inv G fly st" "pid \<in> set (pointIds st)"
  shows "rp_inv G fly (adjustGoroutine pid gid ok now st)"
proof -
  let ?p = "point st pid"
  have p: "point_inv ?p" using assms rp_inv_shape shape_invD(2) by blast
  have add: "rp_inv G fly (set_point pid ((point (AddGoroutine pid st) pid)\<lparr>successStreak := 0, lastAdjustTime := Some now\<rparr>)
      (AddGoroutine pid st))" if "length (p_routines ?p) < MaxConcurrency"
    using AddGoroutine_inv [OF assms that] p that assms(2)
    by (intro rp_inv_set_point) (auto simp: point_inv_def)
  have del: "rp_inv G fly (set_point pid (?p\<lparr>p_routines := filter (\<lambda>g. g \<noteq> gid) (p_routines ?p),
      failureStreak := 0, lastAdjustTime := Some now\<rparr>) st)"
    using p assms(2)
    by (intro rp_inv_set_point [OF assms(1)]) (auto simp: point_inv_def intro: length_filter_mono)
  show ?thesis using assms(1) add del
    by (auto simp: adjustGoroutine_def Let_def split: option.split)
qed

lemma enqueue_point_inv:
  assumes "rp_inv G [req] st" "pid \<in> set (pointIds st)" "resultMap st (groupID req) \<noteq> None \<longrightarrow> msg_ok G req"
    and "groupID req' = groupID req" "requestID req' = requestID req" "msg_ok G req' = msg_ok G req"
  shows "rp_inv G [] (enqueue_point pid req' st)"
proof (rule rp_inv_move [OF assms(1), where M = "{req'}"])
  let ?p = "(point st pid)\<lparr>p_requestChan := p_requestChan (point st pid) @ [req']\<rparr>"
  have sh: "shape_inv st" using assms(1) by (rule rp_inv_shape)
  have p: "point_inv (point st pid)" using sh assms(2) by (rule shape_invD(2))
  show "shape_inv (enqueue_point pid req' st)" unfolding enqueue_point_def
    using p by (intro shape_set_point [OF sh]) (simp add: point_inv_def)
  show "pending g (enqueue_point pid req' st) + ids g [] = pending g st + ids g [req]" for g
    using pending_set_point [OF shape_invD(1) [OF sh] assms(2), of g ?p] assms(4,5)
    by (auto simp: enqueue_point_def held_def ac_simps)
  show "messages (enqueue_point pid req' st) \<subseteq> messages st \<union> {req'}"
    using messages_set_point [of pid ?p st] messages_point [OF assms(2)] by (auto simp: enqueue_point_def)
  show "m \<in> {req'} \<Longrightarrow> resultMap st (groupID m) \<noteq> None \<Longrightarrow> msg_ok G m" for m using assms(3,4,6) by auto
qed (simp_all add: enqueue_point_def)

lemma redirectRequest_inv:
  assumes "rp_inv G [req] st" "cur \<in> set (pointIds st)" "resultMap st (groupID req) \<noteq> None \<longrightarrow> msg_ok G req"
  shows "rp_inv G [] (redirectRequest cur req st)"
proof (cases "find (can_take st cur req) (pointSort st)")
  case (Some pid)
  then have "pid \<in> set (pointIds st)"
    using shape_invD(3) [OF rp_inv_shape [OF assms(1)]] by (metis find_Some_iff nth_mem)
  with enqueue_point_inv [OF assms(1) _ assms(3)] Some show ?thesis by (simp add: redirectRequest_def)
next
  case None
  let ?r = "req\<lparr>errorUrls := {}\<rparr>"
  have ok: "msg_ok G ?r = msg_ok G req" by (simp add: msg_ok_def)
  have "rp_inv G [] (st\<lparr>rp_requestChan := rp_requestChan st @ [?r]\<rparr>)"
    using rp_inv_shape [OF assms(1)] ok assms(3)
    by (intro rp_inv_move [OF assms(1), where M = "{?r}"]) (auto simp: shape_inv_def pending_def messages_def ac_simps)
  moreover have "rp_inv G [] (enqueue_point cur ?r st)"
    by (rule enqueue_point_inv [OF assms]) (simp_all add: ok)
  ultimately show ?thesis using None by (simp add: redirectRequest_def Let_def)
qed

lemma update_new: "k \<notin> fst ` set al \<Longrightarrow> AList.update k v al = al @ [(k, v)]"
  by (induction al) auto

lemma saveAndNotify_fields [simp]:
  "pointIds (saveAndNotify req st) = pointIds st" "point (saveAndNotify req st) = point st"
  "rp_requestChan (saveAndNotify req st) = rp_requestChan st" "lost (saveAndNotify req st) = lost st"
  "pointManage (saveAndNotify req st) = pointManage st" "pointSort (saveAndNotify req st) = pointSort st"
  by (auto simp: saveAndNotify_def Let_def split: option.split)

lemma group_invD:
  assumes "rp_inv G fly st" "resultMap st g = Some rs"
  shows "distinct (G g)" "G g \<noteq> []" "pending g st + ids g fly + mset (map fst rs) = mset (G g)"
    "notifyChan st g = Some (length rs = length (G g))"
  using assms unfolding rp_inv_def group_inv_def by blast+

lemma saveAndNotify_open:
  assumes "rp_inv G [req] st" "resultMap st (groupID req) = Some rs"
    and "groupNum req = length (G (groupID req))"
  shows "requestID req \<notin> fst ` set rs" "length rs < length (G (groupID req))"
    "resultMap (saveAndNotify req st) = (resultMap st)(groupID req \<mapsto> rs @ [(requestID req, req)])"
    "notifyChan (saveAndNotify req st) =
       (notifyChan st)(groupID req \<mapsto> (Suc (length rs) = length (G (groupID req))))"
proof -
  let ?g = "groupID req"
  have g: "distinct (G ?g)" "pending ?g st + {#requestID req#} + mset (map fst rs) = mset (G ?g)"
    "notifyChan st ?g = Some (length rs = length (G ?g))"
    using group_invD [OF assms(1,2)] by simp_all
  have "mset (G ?g) = mset (pend @ map fst rs @ [requestID req])" if "mset pend = pending ?g st" for pend
    using g(2) that by (simp add: ac_simps)
  moreover obtain pend where "mset pend = pending ?g st" using ex_mset by blast
  ultimately have "distinct (pend @ map fst rs @ [requestID req])"
    using g(1) mset_eq_imp_distinct_iff by metis
  then show new: "requestID req \<notin> fst ` set rs" by simp
  show l: "length rs < length (G ?g)" using arg_cong [OF g(2), where f = size] by simp
  show "resultMap (saveAndNotify req st) = (resultMap st)(?g \<mapsto> rs @ [(requestID req, req)])"
    by (simp add: saveAndNotify_def assms(2) update_new [OF new] Let_def)
  show "notifyChan (saveAndNotify req st) = (notifyChan st)(?g \<mapsto> (Suc (length rs) = length (G ?g)))"
    using g(3) l by (auto simp: saveAndNotify_def assms(2,3) update_new [OF new] Let_def fun_eq_iff)
qed

lemma saveAndNotify_inv:
  assumes "rp_inv G [req] st"
    and "resultMap st (groupID req) \<noteq> None \<longrightarrow> groupNum req = length (G (groupID req))"
    and "resultMap st (groupID req) \<noteq> None \<longrightarrow> q_RetryNum req > 0 \<longrightarrow> q_errorNum req \<le> q_RetryNum req + 1"
  shows "rp_inv G [] (saveAndNotify req st)"
proof (cases "resultMap st (groupID req)")
  case None
  have "rp_inv G [] st"
    using rp_inv_shape [OF assms(1)] None
    by (intro rp_inv_move [OF assms(1), where M = "{}"]) (auto simp del: ids_simps(3) intro: ids_empty)
  with None show ?thesis by (simp add: saveAndNotify_def)
next
  case (Some rs)
  with assms(2) have num: "groupNum req = length (G (groupID req))" by simp
  note o = saveAndNotify_open [OF assms(1) Some num]
  have pend: "pending g (saveAndNotify req st) = pending g st" for g by (simp add: pending_def)
  have "group_inv G [] (saveAndNotify req st)"
    unfolding group_inv_def
  proof (intro allI impI)
    fix g rs'
    assume r: "resultMap (saveAndNotify req st) g = Some rs'"
    show "distinct (G g) \<and> G g \<noteq> [] \<and>
        pending g (saveAndNotify req st) + ids g [] + mset (map fst rs') = mset (G g) \<and>
        notifyChan (saveAndNotify req st) g = Some (length rs' = length (G g))"
    proof (cases "g = groupID req")
      case True
      with r o(3) have "rs' = rs @ [(requestID req, req)]" by simp
      with True group_invD [OF assms(1) Some] o(4) show ?thesis by (simp add: pend)
    next
      case False
      with r o(3) have "resultMap st g = Some rs'" by simp
      with False group_invD [OF assms(1) this] o(4) show ?thesis by (simp add: pend)
    qed
  qed
  moreover have "results_inv (saveAndNotify req st)"
    using assms(1,3) Some unfolding rp_inv_def results_inv_def o(3)
    by (auto split: if_splits)
  moreover have "msgs_inv G (saveAndNotify req st)"
    using assms(1) Some unfolding rp_inv_def msgs_inv_def o(3) by (auto simp: messages_def split: if_splits)
  moreover have "shape_inv (saveAndNotify req st)" using rp_inv_shape [OF assms(1)] by (simp add: shape_inv_def)
  ultimately show ?thesis by (simp add: rp_inv_def)
qed

lemma record_point_inv:
  "point_inv p \<Longrightarrow> point_inv (record_success t p)" "point_inv p \<Longrightarrow> point_inv (record_failure now p)"
  by (auto simp: point_inv_def record_success_def record_failure_def Let_def MaxFailureCount_def)

lemma record_point_queues [simp]:
  "p_requestChan (record_success t p) = p_requestChan p" "inHand (record_success t p) = inHand p"
  "p_requestChan (record_failure now p) = p_requestChan p" "inHand (record_failure now p) = inHand p"
  by (simp_all add: record_success_def record_failure_def Let_def)

text \<open>The id and the group of the message are what the invariant sees of it.\<close>

lemma rp_inv_fly_cong:
  "groupID m = groupID n \<Longrightarrow> requestID m = requestID n \<Longrightarrow> rp_inv G [m] st = rp_inv G [n] st"
  by (simp add: rp_inv_def group_inv_def)

lemma handleSuccessRequest_inv:
  assumes "rp_inv G [req] st" "pid \<in> set (pointIds st)" "resultMap st (groupID req) \<noteq> None \<longrightarrow> msg_ok G req"
  shows "rp_inv G [] (handleSuccessRequest pid gid req exec res now st)"
proof -
  let ?r = "req\<lparr>q_Result := Some res, q_Error := None\<rparr>"
  let ?s = "set_point pid (record_success exec (point st pid)) st"
  have "rp_inv G [req] ?s"
    using shape_invD(2) [OF rp_inv_shape [OF assms(1)] assms(2)]
    by (intro rp_inv_set_point [OF assms(1)]) (auto simp: record_point_inv assms(2))
  then have "rp_inv G [?r] ?s" by (simp cong: rp_inv_fly_cong add: rp_inv_fly_cong [of ?r req])
  moreover have "resultMap ?s (groupID ?r) \<noteq> None \<longrightarrow> groupNum ?r = length (G (groupID ?r))"
    using assms(3) by (simp add: msg_ok_def)
  moreover have "resultMap ?s (groupID ?r) \<noteq> None \<longrightarrow> q_RetryNum ?r > 0 \<longrightarrow> q_errorNum ?r \<le> q_RetryNum ?r + 1"
    using assms(3) by (auto simp: msg_ok_def)
  ultimately have "rp_inv G [] (saveAndNotify ?r ?s)" by (rule saveAndNotify_inv)
  then show ?thesis unfolding handleSuccessRequest_def Let_def
    by (rule adjustGoroutine_inv) (simp add: assms(2))
qed

lemma handleErrorRequest_inv:
  assumes "rp_inv G [req] st" "pid \<in> set (pointIds st)" "resultMap st (groupID req) \<noteq> None \<longrightarrow> msg_ok G req"
  shows "rp_inv G [] (handleErrorRequest pid gid req err now st)"
proof -
  let ?r = "req\<lparr>q_errorNum := q_errorNum req + 1, q_Error := Some err, errorUrls := insert pid (errorUrls req)\<rparr>"
  let ?s = "set_point pid (record_failure now (point st pid)) st"
  have "rp_inv G [req] ?s"
    using shape_invD(2) [OF rp_inv_shape [OF assms(1)] assms(2)]
    by (intro rp_inv_set_point [OF assms(1)]) (auto simp: record_point_inv assms(2))
  then have fly: "rp_inv G [?r] ?s" by (simp add: rp_inv_fly_cong [of ?r req])
  have "rp_inv G [] (redirectRequest pid ?r ?s)" if "may_retry ?r"
    using assms(2,3) that by (intro redirectRequest_inv [OF fly]) (auto simp: msg_ok_def may_retry_def)
  moreover have "rp_inv G [] (saveAndNotify ?r ?s)"
    using assms(3) by (intro saveAndNotify_inv [OF fly]) (auto simp: msg_ok_def)
  ultimately have "rp_inv G [] (if may_retry ?r then redirectRequest pid ?r ?s else saveAndNotify ?r ?s)" by simp
  moreover have "pid \<in> set (pointIds (if may_retry ?r then redirectRequest pid ?r ?s else saveAndNotify ?r ?s))"
    using assms(2) by (simp add: redirectRequest_def enqueue_point_def Let_def split: option.split)
  ultimately show ?thesis unfolding handleErrorRequest_def Let_def by (rule adjustGoroutine_inv)
qed

lemma lost_inv:
  assumes "rp_inv G [req] st" "resultMap st (groupID req) \<noteq> None \<longrightarrow> msg_ok G req"
  shows "rp_inv G [] (st\<lparr>lost := lost st @ [req]\<rparr>)"
  using rp_inv_shape [OF assms(1)] assms(2)
  by (intro rp_inv_move [OF assms(1), where M = "{req}"]) (auto simp: shape_inv_def pending_def messages_def ac_simps)

lemma drop_inv:
  assumes "rp_inv G [req] st" "resultMap st (groupID req) = None"
  shows "rp_inv G [] st"
  using rp_inv_shape [OF assms(1)] assms(2)
  by (intro rp_inv_move [OF assms(1), where M = "{}"]) (auto simp del: ids_simps(3) intro: ids_empty)

lemma DoRequest_point:
  assumes "DoRequest env gj rf rpc p req i = Attempt (p1, x)"
  shows "\<exists>h. p1 = p\<lparr>p_Headers := h\<rparr>"
proof -
  have "\<exists>h. p1 = p\<lparr>p_Headers := h\<rparr>" if "DoHeaders p req = Some p1"
    using that by (auto simp: DoHeaders_def split: option.splits if_splits intro: exI [of _ None])
  moreover have "DoHeaders p req = Some p1"
    using assms by (auto simp: DoRequest_def Let_def split: option.splits prod.splits)
  ultimately show ?thesis by blast
qed

lemma handleRequest_inv:
  assumes "rp_inv G [req] st" "pid \<in> set (pointIds st)" "resultMap st (groupID req) \<noteq> None \<longrightarrow> msg_ok G req"
  shows "rp_inv G [] (handleRequest env gj rf pid gid req i now st)"
proof (cases "resultMap st (groupID req)")
  case None
  with drop_inv [OF assms(1)] show ?thesis by (simp add: handleRequest_def)
next
  case (Some rs)
  have p: "point_inv (point st pid)" using rp_inv_shape [OF assms(1)] assms(2) by (rule shape_invD(2))
  have hdr: "rp_inv G [req] (set_point pid ((point st pid)\<lparr>p_Headers := h\<rparr>) st)" for h
    using p by (intro rp_inv_set_point [OF assms(1)]) (auto simp: point_inv_def assms(2))
  have gone: "rp_inv G [req] (set_point pid ((point st pid)\<lparr>p_routines := filter (\<lambda>g. g \<noteq> gid) (p_routines (point st pid))\<rparr>) st)"
    using p by (intro rp_inv_set_point [OF assms(1)]) (auto simp: point_inv_def assms(2) intro: length_filter_mono)
  show ?thesis
  proof (cases "DoRequest env gj rf (rp_isRpc st) (point st pid) req i")
    case Panicked
    with Some lost_inv [OF gone] assms(3) show ?thesis by (simp add: handleRequest_def)
  next
    case (Attempt r)
    obtain p1 x where r: "r = (p1, x)" by (cases r)
    from DoRequest_point [OF Attempt [unfolded r]] obtain h where h: "p1 = (point st pid)\<lparr>p_Headers := h\<rparr>" ..
    have "rp_inv G [] (handleErrorRequest pid gid req e now (set_point pid p1 st))" for e
      using hdr [of h] assms(2,3) by (intro handleErrorRequest_inv) (simp_all add: h)
    moreover have "rp_inv G [] (handleSuccessRequest pid gid req t res now (set_point pid p1 st))" for t res
      using hdr [of h] assms(2,3) by (intro handleSuccessRequest_inv) (simp_all add: h)
    ultimately show ?thesis using Attempt Some r
      by (auto simp: handleRequest_def split: sum.split)
  qed
qed

lemma handleRequestWithBackoff_inv:
  assumes "rp_inv G [req] st" "pid \<in> set (pointIds st)" "resultMap st (groupID req) \<noteq> None \<longrightarrow> msg_ok G req"
  shows "rp_inv G [] (handleRequestWithBackoff env gj rf pid gid req i now st)"
  using handleRequest_inv [OF assms] redirectRequest_inv [OF assms]
  by (simp add: handleRequestWithBackoff_def)

section \<open>Points come and go\<close>

lemma addPoint_inv:
  assumes "rp_inv G [] st" "pid \<notin> set (pointIds st)"
  shows "rp_inv G [] (addPoint pid cfg st)"
proof (rule rp_inv_move [OF assms(1), where M = "{}"])
  have sh: "shape_inv st" using assms(1) by (rule rp_inv_shape)
  show "shape_inv (addPoint pid cfg st)"
    using sh assms(2)
    by (auto simp: shape_inv_def addPoint_def newPoint_def point_inv_def MaxFailureCount_def)
  show "pending g (addPoint pid cfg st) + ids g [] = pending g st + ids g []" for g
    using held_sum_notin [OF assms(2), of g "point st"]
    by (simp add: pending_def addPoint_def held_def newPoint_def)
  show "messages (addPoint pid cfg st) \<subseteq> messages st \<union> {}"
    using assms(2) by (auto simp: messages_def addPoint_def newPoint_def split: if_splits)
qed (simp_all add: addPoint_def)

lemma addPoint_fields [simp]:
  "pointIds (addPoint pid cfg st) = pointIds st @ [pid]"
  "p_routines (point (addPoint pid cfg st) pid) = []"
  by (simp_all add: addPoint_def newPoint_def)

lemma AddGoroutines_inv:
  assumes "rp_inv G [] st" "pid \<in> set (pointIds st)" "length (p_routines (point st pid)) + k \<le> MaxConcurrency"
  shows "rp_inv G [] ((AddGoroutine pid ^^ k) st) \<and> pointIds ((AddGoroutine pid ^^ k) st) = pointIds st \<and>
    length (p_routines (point ((AddGoroutine pid ^^ k) st) pid)) = length (p_routines (point st pid)) + k \<and>
    (\<forall>q. q \<noteq> pid \<longrightarrow> point ((AddGoroutine pid ^^ k) st) q = point st q) \<and>
    pointManage ((AddGoroutine pid ^^ k) st) = pointManage st"
  using assms(3)
proof (induction k)
  case (Suc k)
  then show ?case using AddGoroutine_inv [of G "[]" "(AddGoroutine pid ^^ k) st" pid] assms(2) by auto
qed (simp add: assms(1))

lemma startPoint_inv:
  assumes "rp_inv G [] st" "pid \<in> set (pointIds st)" "p_routines (point st pid) = []"
  shows "rp_inv G [] (startPoint pid st) \<and> pointIds (startPoint pid st) = pointIds st \<and>
    (\<forall>q. q \<noteq> pid \<longrightarrow> point (startPoint pid st) q = point st q)"
  using AddGoroutines_inv [OF assms(1,2), of DefaultConcurrency] assms(3)
  by (simp add: startPoint_def DefaultConcurrency_def MaxConcurrency_def)

lemma point_of_url_in: "point_of_url st u = Some pid \<Longrightarrow> pid \<in> set (pointManage st)"
proof -
  assume "point_of_url st u = Some pid"
  then have "pid \<in> set (filter (\<lambda>pid. p_Url (point st pid) = u) (pointManage st))"
    by (auto simp: point_of_url_def simp del: set_filter split: list.splits)
  then show ?thesis by simp
qed

lemma updatePoint_inv:
  assumes "rp_inv G [] st" "set (pointManage old) \<subseteq> set (pointIds st)" "fst pc \<notin> set (pointIds st)"
  shows "rp_inv G [] (updatePoint old st pc) \<and> set (pointIds (updatePoint old st pc)) \<subseteq> insert (fst pc) (set (pointIds st)) \<and>
    set (pointIds st) \<subseteq> set (pointIds (updatePoint old st pc))"
proof (cases "point_of_url old (pc_Url (snd pc))")
  case None
  with startPoint_inv [OF addPoint_inv [OF assms(1,3)], of "fst pc" "snd pc"] show ?thesis
    by (auto simp: updatePoint_def)
next
  case (Some pid)
  then have pid: "pid \<in> set (pointIds st)" using point_of_url_in assms(2) by blast
  have "point_inv (point st pid)" using rp_inv_shape [OF assms(1)] pid by (rule shape_invD(2))
  with Some pid rp_inv_set_point [OF assms(1) _ pid] show ?thesis
    by (auto simp: updatePoint_def point_inv_def)
qed

lemma updatePoints_inv:
  assumes "rp_inv G [] st" "set (pointManage old) \<subseteq> set (pointIds st)"
    "distinct (map fst cfgs)" "fst ` set cfgs \<inter> set (pointIds st) = {}"
  shows "rp_inv G [] (foldl (updatePoint old) st cfgs) \<and>
    set (pointIds st) \<subseteq> set (pointIds (foldl (updatePoint old) st cfgs))"
  using assms
proof (induction cfgs arbitrary: st)
  case (Cons pc cfgs)
  have pc: "fst pc \<notin> set (pointIds st)" using Cons.prems(4) by auto
  note u = updatePoint_inv [OF Cons.prems(1,2) pc]
  have fresh: "fst ` set cfgs \<inter> set (pointIds (updatePoint old st pc)) = {}"
  proof -
    have 1: "fst pc \<notin> fst ` set cfgs" "fst ` set cfgs \<inter> set (pointIds st) = {}" using Cons.prems(3,4) by auto
    have "set (pointIds (updatePoint old st pc)) \<subseteq> insert (fst pc) (set (pointIds st))" using u by blast
    with 1 show ?thesis by (simp add: disjoint_iff subset_eq) metis
  qed
  have sub: "set (pointManage old) \<subseteq> set (pointIds (updatePoint old st pc))" using u Cons.prems(2) by blast
  from Cons.IH [OF _ sub _ fresh] u Cons.prems(3) show ?case by auto
qed simp

lemma dropPoint_inv:
  assumes "rp_inv G [] st" "pid \<in> set (pointIds st)"
  shows "rp_inv G [] (dropPoint pid st) \<and> pointIds (dropPoint pid st) = pointIds st"
proof -
  have p: "point_inv (point st pid)" using rp_inv_shape [OF assms(1)] assms(2) by (rule shape_invD(2))
  have 1: "rp_inv G [] (Point_Close pid st)" unfolding Point_Close_def
    using p by (intro rp_inv_set_point [OF assms(1)]) (auto simp: point_inv_def assms(2))
  have "rp_inv G [] ((Point_Close pid st)\<lparr>pointManage := filter (\<lambda>x. x \<noteq> pid) (pointManage (Point_Close pid st))\<rparr>)"
    using rp_inv_shape [OF 1]
    by (intro rp_inv_move [OF 1, where M = "{}"]) (auto simp: shape_inv_def pending_def messages_def)
  then show ?thesis by (simp add: dropPoint_def Let_def Point_Close_def)
qed

lemma first_by_set: "set (first_by f xs) \<subseteq> set xs"
  by (induction xs) auto

lemma first_by_distinct: "distinct (map h xs) \<Longrightarrow> distinct (map h (first_by f xs))"
proof (induction xs)
  case (Cons x xs)
  have "h x \<notin> h ` set (first_by f xs)" using Cons.prems first_by_set [of f xs] by auto
  with Cons show ?case by (auto simp: distinct_filter_map)
qed simp

lemma UpdatePoints_inv:
  assumes "rp_inv G [] st" "distinct (map fst cfgs)" "fst ` set cfgs \<inter> set (pointIds st) = {}"
  shows "rp_inv G [] (UpdatePoints cfgs st)"
proof -
  let ?new = "first_by (pc_Url \<circ> snd) (rev cfgs)"
  let ?st1 = "foldl (updatePoint st) st ?new"
  have sub: "set (pointManage st) \<subseteq> set (pointIds st)" using rp_inv_shape [OF assms(1)] by (simp add: shape_inv_def)
  have "distinct (map fst ?new)" using assms(2) by (intro first_by_distinct) (simp flip: rev_map)
  moreover have "fst ` set ?new \<inter> set (pointIds st) = {}"
    using first_by_set [of "pc_Url \<circ> snd" "rev cfgs"] assms(3) by fastforce
  ultimately have 1: "rp_inv G [] ?st1" "set (pointIds st) \<subseteq> set (pointIds ?st1)"
    using updatePoints_inv [OF assms(1) sub] by auto
  have drop: "rp_inv G [] (foldl (\<lambda>s u. case point_of_url st u of None \<Rightarrow> s | Some pid \<Rightarrow> dropPoint pid s) s us)"
    if "rp_inv G [] s" "set (pointIds st) \<subseteq> set (pointIds s)" for s us
    using that
  proof (induction us arbitrary: s)
    case (Cons u us)
    show ?case
    proof (cases "point_of_url st u")
      case (Some pid)
      then have "pid \<in> set (pointIds s)" using point_of_url_in sub Cons.prems(2) by blast
      with dropPoint_inv [OF Cons.prems(1)] Cons.IH Cons.prems(2) Some show ?thesis by auto
    qed (use Cons in auto)
  qed simp
  show ?thesis using assms(1) drop [OF 1] by (simp add: UpdatePoints_def Let_def)
qed

section \<open>Every interleaving\<close>

text \<open>What a worker of a point does before and after handling: receive, drain, let go.\<close>

definition take_own :: "string \<Rightarrow> 'v RPool \<Rightarrow> 'v RPool" where
  "take_own pid st =
     (case p_requestChan (point st pid) of
        [] \<Rightarrow> st
      | req # rest \<Rightarrow> set_point pid ((point st pid)\<lparr>p_requestChan := rest, inHand := inHand (point st pid) @ [req]\<rparr>) st)"

definition take_pool :: "string \<Rightarrow> 'v RPool \<Rightarrow> 'v RPool" where
  "take_pool pid st =
     (case rp_requestChan st of
        [] \<Rightarrow> st
      | req # rest \<Rightarrow>
          set_point pid ((point st pid)\<lparr>inHand := inHand (point st pid) @ [req]\<rparr>) (st\<lparr>rp_requestChan := rest\<rparr>))"

definition drain :: "string \<Rightarrow> 'v RPool \<Rightarrow> 'v RPool" where
  "drain pid st =
     (case p_requestChan (point st pid) of
        [] \<Rightarrow> st
      | req # rest \<Rightarrow>
          (set_point pid ((point st pid)\<lparr>p_requestChan := rest\<rparr>) st)\<lparr>rp_requestChan := rp_requestChan st @ [req]\<rparr>)"

definition let_go :: "string \<Rightarrow> 'v PRequest \<Rightarrow> 'v RPool \<Rightarrow> 'v RPool" where
  "let_go pid req st = set_point pid ((point st pid)\<lparr>inHand := remove1 req (inHand (point st pid))\<rparr>) st"

lemma point_change_inv:
  assumes "rp_inv G fly st" "pid \<in> set (pointIds st)" "point_inv p"
    "\<And>g. held g p + ids g fly' = held g (point st pid) + ids g fly"
    "set (p_requestChan p) \<union> set (inHand p) \<subseteq> set (p_requestChan (point st pid)) \<union> set (inHand (point st pid)) \<union> M"
    "\<And>m. m \<in> M \<Longrightarrow> resultMap st (groupID m) \<noteq> None \<Longrightarrow> msg_ok G m"
  shows "rp_inv G fly' (set_point pid p st)"
proof (rule rp_inv_move [OF assms(1), where M = M])
  have sh: "shape_inv st" using assms(1) by (rule rp_inv_shape)
  show "shape_inv (set_point pid p st)" using sh assms(3) by (rule shape_set_point)
  show "pending g (set_point pid p st) + ids g fly' = pending g st + ids g fly" for g
  proof -
    have "pending g (set_point pid p st) + held g (point st pid) + ids g fly' =
        (pending g st + held g p) + ids g fly'"
      using pending_set_point [OF shape_invD(1) [OF sh] assms(2), of g p] by simp
    also have "\<dots> = pending g st + (held g p + ids g fly')" by (simp add: ac_simps)
    also have "\<dots> = (pending g st + ids g fly) + held g (point st pid)" by (simp add: assms(4) ac_simps)
    finally show ?thesis by (simp add: ac_simps)
  qed
  show "messages (set_point pid p st) \<subseteq> messages st \<union> M"
    using messages_set_point [of pid p st] messages_point [OF assms(2)] assms(5) by blast
qed (use assms(6) in simp_all)

lemma in_messages:
  "pid \<in> set (pointIds st) \<Longrightarrow> m \<in> set (p_requestChan (point st pid)) \<union> set (inHand (point st pid)) \<Longrightarrow>
   rp_inv G fly st \<Longrightarrow> resultMap st (groupID m) \<noteq> None \<Longrightarrow> msg_ok G m"
  using messages_point [of pid st] unfolding rp_inv_def msgs_inv_def by blast

lemma take_own_inv: "rp_inv G [] st \<Longrightarrow> pid \<in> set (pointIds st) \<Longrightarrow> rp_inv G [] (take_own pid st)"
proof (cases "p_requestChan (point st pid)")
  case (Cons req rest)
  assume inv: "rp_inv G [] st" and pid: "pid \<in> set (pointIds st)"
  have "point_inv (point st pid)" using rp_inv_shape [OF inv] pid by (rule shape_invD(2))
  then have "rp_inv G [] (set_point pid ((point st pid)\<lparr>p_requestChan := rest, inHand := inHand (point st pid) @ [req]\<rparr>) st)"
    using Cons by (intro point_change_inv [OF inv pid, where M = "{}"]) (auto simp: point_inv_def held_def ac_simps)
  then show ?thesis by (simp add: take_own_def Cons)
qed (simp add: take_own_def)

lemma take_pool_inv: "rp_inv G [] st \<Longrightarrow> pid \<in> set (pointIds st) \<Longrightarrow> rp_inv G [] (take_pool pid st)"
proof (cases "rp_requestChan st")
  case (Cons req rest)
  assume inv: "rp_inv G [] st" and pid: "pid \<in> set (pointIds st)"
  let ?s = "st\<lparr>rp_requestChan := rest\<rparr>"
  have p: "point_inv (point st pid)" using rp_inv_shape [OF inv] pid by (rule shape_invD(2))
  have ok: "resultMap st (groupID req) \<noteq> None \<Longrightarrow> msg_ok G req"
    using inv Cons by (auto simp: rp_inv_def msgs_inv_def messages_def)
  have 1: "rp_inv G [req] ?s"
    using rp_inv_shape [OF inv] Cons
    by (intro rp_inv_move [OF inv, where M = "{}"]) (auto simp: shape_inv_def pending_def messages_def ac_simps)
  have "rp_inv G [] (set_point pid ((point st pid)\<lparr>inHand := inHand (point st pid) @ [req]\<rparr>) ?s)"
    using p ok pid by (intro point_change_inv [OF 1, where M = "{req}"]) (auto simp: point_inv_def held_def ac_simps)
  then show ?thesis by (simp add: take_pool_def Cons)
qed (simp add: take_pool_def)

lemma drain_inv: "rp_inv G [] st \<Longrightarrow> pid \<in> set (pointIds st) \<Longrightarrow> rp_inv G [] (drain pid st)"
proof (cases "p_requestChan (point st pid)")
  case (Cons req rest)
  assume inv: "rp_inv G [] st" and pid: "pid \<in> set (pointIds st)"
  have p: "point_inv (point st pid)" using rp_inv_shape [OF inv] pid by (rule shape_invD(2))
  let ?s = "set_point pid ((point st pid)\<lparr>p_requestChan := rest\<rparr>) st"
  have ok: "resultMap st (groupID req) \<noteq> None \<Longrightarrow> msg_ok G req" using in_messages [OF pid _ inv, of req] Cons by simp
  have 1: "rp_inv G [req] ?s"
    using p Cons by (intro point_change_inv [OF inv pid, where M = "{}"]) (auto simp: point_inv_def held_def ac_simps)
  have "rp_inv G [] (?s\<lparr>rp_requestChan := rp_requestChan ?s @ [req]\<rparr>)"
    using rp_inv_shape [OF 1] ok
    by (intro rp_inv_move [OF 1, where M = "{req}"]) (auto simp: shape_inv_def pending_def messages_def ac_simps)
  then show ?thesis by (simp add: drain_def Cons)
qed (simp add: drain_def)

lemma let_go_inv:
  assumes "rp_inv G [] st" "pid \<in> set (pointIds st)" "req \<in> set (inHand (point st pid))"
  shows "rp_inv G [req] (let_go pid req st)"
proof -
  have p: "point_inv (point st pid)" using rp_inv_shape [OF assms(1)] assms(2) by (rule shape_invD(2))
  have "ids g (remove1 req (inHand (point st pid))) + ids g [req] = ids g (inHand (point st pid))" for g
    by (rule ids_remove1 [OF assms(3)])
  then show ?thesis unfolding let_go_def
    using p set_remove1_subset [of req "inHand (point st pid)"]
    by (intro point_change_inv [OF assms(1,2), where M = "{}"])
      (auto simp: point_inv_def held_def add.assoc simp del: ids_simps(3))
qed

lemma ids_groupMessages:
  "ids h (map (groupMessage g n k) requests) = (if h = g then mset (map fst requests) else {#})"
  by (induction requests) (auto simp: groupMessage_def)

lemma openGroup_inv:
  assumes "rp_inv G [] st" "resultMap st g = None" "\<forall>m\<in>messages st. groupID m \<noteq> g"
    "requests \<noteq> []" "distinct (map fst requests)" "\<forall>r\<in>set requests. q_errorNum (snd r) = 0"
  shows "rp_inv (G(g := map fst requests)) [] (openGroup g requests st)"
proof -
  let ?msgs = "map (groupMessage g (length requests) (length (pointManage st))) requests"
  let ?G = "G(g := map fst requests)"
  note m = ids_groupMessages [of _ g "length requests" "length (pointManage st)" requests]
  have none: "pending g st = {#}"
  proof -
    have "held g (point st pid) = {#}" if "pid \<in> set (pointIds st)" for pid
      using assms(3) messages_point [OF that] by (auto simp: held_def intro!: ids_empty)
    then have "(\<Sum>pid\<leftarrow>pointIds st. held g (point st pid)) = {#}" by (simp cong: map_cong)
    moreover have "ids g (rp_requestChan st) = {#}" "ids g (lost st) = {#}"
      using assms(3) by (auto simp: messages_def intro!: ids_empty)
    ultimately show ?thesis by (simp add: pending_def)
  qed
  have pend: "pending h (openGroup g requests st) = pending h st + ids h ?msgs" for h
    by (simp add: pending_def openGroup_def ac_simps)
  have "group_inv ?G [] (openGroup g requests st)"
    unfolding group_inv_def pend m using assms(1,4,5) none
    by (auto simp: openGroup_def rp_inv_def group_inv_def)
  moreover have "msgs_inv ?G (openGroup g requests st)"
  proof -
    have "msg_ok ?G x" if "x \<in> set ?msgs" for x
      using that assms(6) by (auto simp: groupMessage_def msg_ok_def)
    moreover have "msg_ok ?G x" if "x \<in> messages st" "resultMap st (groupID x) \<noteq> None" for x
      using that assms(1,3) by (auto simp: rp_inv_def msgs_inv_def msg_ok_def)
    moreover have "messages (openGroup g requests st) = messages st \<union> set ?msgs"
      by (auto simp: messages_def openGroup_def)
    moreover have "resultMap (openGroup g requests st) = (resultMap st)(g \<mapsto> [])" by (simp add: openGroup_def)
    ultimately show ?thesis using assms(3) unfolding msgs_inv_def by auto
  qed
  ultimately show ?thesis using assms(1)
    by (auto simp: rp_inv_def shape_inv_def openGroup_def results_inv_def)
qed

lemma closeGroup_inv: "rp_inv G [] st \<Longrightarrow> rp_inv G [] (closeGroup g st)"
  by (auto simp: rp_inv_def shape_inv_def group_inv_def msgs_inv_def results_inv_def closeGroup_def
      messages_def pending_def split: if_splits)

lemma resort_inv:
  "rp_inv G [] st \<Longrightarrow> set ps \<subseteq> set (pointManage st) \<Longrightarrow> rp_inv G [] (st\<lparr>pointSort := ps\<rparr>)"
  by (auto simp: rp_inv_def shape_inv_def group_inv_def msgs_inv_def results_inv_def messages_def pending_def)

lemma addPoints_inv:
  assumes "rp_inv G [] st" "distinct (map fst points)" "fst ` set points \<inter> set (pointIds st) = {}"
    "\<forall>pid\<in>set (pointIds st). p_routines (point st pid) = []" "pointManage st = pointIds st"
  shows "rp_inv G [] (foldl (\<lambda>st (pid, cfg). addPoint pid cfg st) st points) \<and>
    (\<forall>pid\<in>set (pointIds (foldl (\<lambda>st (pid, cfg). addPoint pid cfg st) st points)).
       p_routines (point (foldl (\<lambda>st (pid, cfg). addPoint pid cfg st) st points) pid) = []) \<and>
    pointManage (foldl (\<lambda>st (pid, cfg). addPoint pid cfg st) st points) =
    pointIds (foldl (\<lambda>st (pid, cfg). addPoint pid cfg st) st points)"
  using assms
proof (induction points arbitrary: st)
  case (Cons pc points)
  obtain pid cfg where pc: "pc = (pid, cfg)" by (cases pc)
  have 1: "rp_inv G [] (addPoint pid cfg st)" using Cons.prems by (intro addPoint_inv) (auto simp: pc)
  have 2: "fst ` set points \<inter> set (pointIds (addPoint pid cfg st)) = {}" using Cons.prems(2,3) by (auto simp: pc)
  have 3: "\<forall>q\<in>set (pointIds (addPoint pid cfg st)). p_routines (point (addPoint pid cfg st) q) = []"
    "pointManage (addPoint pid cfg st) = pointIds (addPoint pid cfg st)"
    using Cons.prems(4,5) by (auto simp: addPoint_def newPoint_def)
  from Cons.IH [OF 1 _ 2 3] Cons.prems(2) show ?case by (simp add: pc)
qed simp

lemma startPoints_inv:
  assumes "rp_inv G [] st" "distinct pids" "set pids \<subseteq> set (pointIds st)" "\<forall>pid\<in>set pids. p_routines (point st pid) = []"
  shows "rp_inv G [] (foldl (\<lambda>st pid. startPoint pid st) st pids)"
  using assms
proof (induction pids arbitrary: st)
  case (Cons pid pids)
  have s: "rp_inv G [] (startPoint pid st)" "pointIds (startPoint pid st) = pointIds st"
    "\<forall>q. q \<noteq> pid \<longrightarrow> point (startPoint pid st) q = point st q"
    using startPoint_inv [OF Cons.prems(1), of pid] Cons.prems(3,4) by auto
  have "\<forall>q\<in>set pids. p_routines (point (startPoint pid st) q) = []" using s(3) Cons.prems(2,4) by auto
  with Cons.IH [OF s(1)] s(2) Cons.prems(2,3) show ?case by simp
qed simp

lemma NewPool_inv:
  assumes "NewPool isRpc points dummy = Inr st" "distinct (map fst points)"
  shows "rp_inv G [] st"
proof -
  let ?s0 = "\<lparr>rp_isRpc = isRpc, rp_requestChan = [], point = (\<lambda>_. dummy), pointIds = [],
    pointManage = [], pointSort = [], resultMap = Map.empty, notifyChan = Map.empty, nextGid = 0, lost = []\<rparr>"
  let ?s1 = "foldl (\<lambda>st (pid, cfg). addPoint pid cfg st) ?s0 points"
  have "rp_inv G [] ?s0"
    by (simp add: rp_inv_def shape_inv_def group_inv_def msgs_inv_def results_inv_def messages_def)
  from addPoints_inv [OF this assms(2)]
  have 1: "rp_inv G [] ?s1" "\<forall>pid\<in>set (pointIds ?s1). p_routines (point ?s1 pid) = []"
    "pointManage ?s1 = pointIds ?s1" by simp_all
  have "rp_inv G [] (foldl (\<lambda>st pid. startPoint pid st) ?s1 (pointManage ?s1))"
    using 1 shape_invD(1) [OF rp_inv_shape [OF 1(1)]] by (intro startPoints_inv) auto
  with assms(1) show ?thesis by (auto simp: NewPool_def Let_def split: if_splits)
qed

text \<open>
  The reachable pools, with the ids every group was opened with.  Workers of any point receive from
  either queue, drain a closing point, or finish a request they hold, in any order; callers open and
  close groups (when their channel is closed, or because their context ended); the point list is
  sorted again or replaced.  The ids of groups and points are fresh, as \<^verbatim>\<open>uuid\<close> makes them.
\<close>

inductive rp_reach ::
    "'v henv \<Rightarrow> gjson_lib \<Rightarrow> 'v ReTryFunc list \<Rightarrow> (string \<Rightarrow> string list) \<Rightarrow> 'v RPool \<Rightarrow> bool"
  for env :: "'v henv" and gj :: gjson_lib and rf :: "'v ReTryFunc list" where
  rp_new: "NewPool isRpc points dummy = Inr st \<Longrightarrow> distinct (map fst points) \<Longrightarrow> rp_reach env gj rf G st"
| rp_open: "rp_reach env gj rf G st \<Longrightarrow> resultMap st g = None \<Longrightarrow> \<forall>m\<in>messages st. groupID m \<noteq> g \<Longrightarrow>
    requests \<noteq> [] \<Longrightarrow> distinct (map fst requests) \<Longrightarrow> \<forall>r\<in>set requests. q_errorNum (snd r) = 0 \<Longrightarrow>
    rp_reach env gj rf (G(g := map fst requests)) (openGroup g requests st)"
| rp_close: "rp_reach env gj rf G st \<Longrightarrow> rp_reach env gj rf G (closeGroup g st)"
| rp_own: "rp_reach env gj rf G st \<Longrightarrow> pid \<in> set (pointIds st) \<Longrightarrow> rp_reach env gj rf G (take_own pid st)"
| rp_pool: "rp_reach env gj rf G st \<Longrightarrow> pid \<in> set (pointIds st) \<Longrightarrow> rp_reach env gj rf G (take_pool pid st)"
| rp_drain: "rp_reach env gj rf G st \<Longrightarrow> pid \<in> set (pointIds st) \<Longrightarrow> needClose (point st pid) \<Longrightarrow>
    rp_reach env gj rf G (drain pid st)"
| rp_handle: "rp_reach env gj rf G st \<Longrightarrow> pid \<in> set (pointIds st) \<Longrightarrow> req \<in> set (inHand (point st pid)) \<Longrightarrow>
    rp_reach env gj rf G (handleRequestWithBackoff env gj rf pid gid req i now (let_go pid req st))"
| rp_sort: "rp_reach env gj rf G st \<Longrightarrow> mset ps = mset (filter (\<lambda>pid. \<not> needClose (point st pid)) (pointManage st)) \<Longrightarrow>
    rp_reach env gj rf G (st\<lparr>pointSort := ps\<rparr>)"
| rp_update: "rp_reach env gj rf G st \<Longrightarrow> distinct (map fst cfgs) \<Longrightarrow> fst ` set cfgs \<inter> set (pointIds st) = {} \<Longrightarrow>
    rp_reach env gj rf G (UpdatePoints cfgs st)"

lemma rp_reach_inv: "rp_reach env gj rf G st \<Longrightarrow> rp_inv G [] st"
proof (induction rule: rp_reach.induct)
  case (rp_handle G st pid req gid i now)
  have "resultMap (let_go pid req st) (groupID req) \<noteq> None \<longrightarrow> msg_ok G req"
    using in_messages [OF rp_handle(2) _ rp_handle(4)] rp_handle(3) by (simp add: let_go_def)
  moreover have "pid \<in> set (pointIds (let_go pid req st))" using rp_handle(2) by (simp add: let_go_def)
  ultimately show ?case using let_go_inv [OF rp_handle(4,2,3)] by (intro handleRequestWithBackoff_inv)
next
  case (rp_sort G st ps)
  have "set ps \<subseteq> set (pointManage st)" using mset_eq_setD [OF rp_sort(2)] by auto
  then show ?case by (rule resort_inv [OF rp_sort(3)])
next
  case (rp_open G st g requests)
  then show ?case by (intro openGroup_inv)
qed (auto intro: NewPool_inv closeGroup_inv take_own_inv take_pool_inv drain_inv UpdatePoints_inv)

section \<open>Properties\<close>


text \<open>
  Retries are bounded: a request with a positive retry number is never tried again once it has
  failed more often than that; whatever a group holds as a result has failed at most one time more
  than its retry number, and belongs to the group under its own id.
\<close>

theorem retries_bounded:
  assumes "rp_reach env gj rf G st" "resultMap st g = Some rs"
  shows "(\<forall>m\<in>messages st. groupID m = g \<and> q_RetryNum m > 0 \<longrightarrow> q_errorNum m \<le> q_RetryNum m) \<and>
    (\<forall>(k, v)\<in>set rs. requestID v = k \<and> groupID v = g \<and>
       (q_RetryNum v > 0 \<longrightarrow> q_errorNum v \<le> q_RetryNum v + 1))"
  using rp_reach_inv [OF assms(1)] assms(2)
  by (fastforce simp: rp_inv_def msgs_inv_def results_inv_def msg_ok_def)

text \<open>
  The counters of every point are consistent: requests are successes plus errors, at most one of
  the two streaks runs, the failure count stays below the backoff limit and the workers within
  \<^verbatim>\<open>MaxConcurrency\<close>.
\<close>

theorem point_counters:
  assumes "rp_reach env gj rf G st" "pid \<in> set (pointIds st)"
  shows "requestNum (point st pid) = successNum (point st pid) + p_errorNum (point st pid) \<and>
    (successStreak (point st pid) = 0 \<or> failureStreak (point st pid) = 0) \<and>
    0 \<le> failureCount (point st pid) \<and> failureCount (point st pid) < 5 \<and>
    length (p_routines (point st pid)) \<le> 200"
  using shape_invD(2) [OF rp_inv_shape [OF rp_reach_inv [OF assms(1)]] assms(2)]
  by (simp add: point_inv_def MaxFailureCount_def MaxConcurrency_def)

text \<open>With the fasthttp client, the attempt itself cannot panic.\<close>

lemma fasthttp_stats:
  "FastHTTPClient_Do env fh req i = (Some r, err) \<Longrightarrow> StatsOf r \<noteq> None"
  by (auto simp: FastHTTPClient_Do_def buildResponse_def Let_def split: if_splits option.splits prod.splits)

lemma Execute_plain:
  assumes "url \<noteq> []" "isValidHTTPMethod method" "rb_client rb = Some cl" "rb_chain rb = []" "\<not> rb_keepLog rb"
  shows "\<exists>req c. Execute env rb i method url q body hs = Some (None, c) \<and> (hResponse c, hError c) = cl req i"
proof -
  let ?req = "\<lparr>Method = method, URL = url, Query = q, ReqBody = body, Headers = hs, Timeout = rb_timeout rb\<rparr>"
  let ?c0 = "startData (rb_keepLog rb) (rb_sendErrorMsg rb) i ?req"
  let ?e = "env\<lparr>client := Some cl\<rparr>"
  have rest: "onion [doRequestMiddleware ?e] ?c0 = send cl ?c0"
    by (simp add: doRequestMiddleware_def before_next_def)
  have s: "(hResponse (send cl ?c0), hError (send cl ?c0)) = cl ?req i" "hlogs (send cl ?c0) = []"
    "hvalues (send cl ?c0) = hvalues ?c0" using send_first [of ?c0 cl] by simp_all
  have "Execute env rb i method url q body hs = Some (None, (send cl ?c0)\<lparr>hlogs := request_log ?e False (rb_sendErrorMsg rb) (send cl ?c0)\<rparr>)"
    using Execute_runs [OF assms(1,2), of rb env i q body hs] assms(3-5) rest s startData_log [OF s(3)]
      wrap_RequestLog [of "onion [doRequestMiddleware ?e]" ?c0 False "rb_sendErrorMsg rb" ?e] by simp
  with s(1) show ?thesis by (intro exI [of _ ?req]) auto
qed

text \<open>
  A worker dies on a request exactly when the request has headers and its point was configured
  without: the code then writes into a nil map.  In every other case an attempt over the fasthttp
  client ends in an error or in a result; nothing else in it can panic.
\<close>

theorem DoRequest_panics_iff:
  assumes "client env = Some (FastHTTPClient_Do env' fh)" "p_Url p \<noteq> []" "isValidHTTPMethod (q_Method req)"
  shows "DoRequest env gj rf isRpc p req i = Panicked \<longleftrightarrow> p_Headers p = None \<and> q_Headers req \<noteq> []"
proof (cases "DoHeaders p req")
  case None
  then show ?thesis by (auto simp: DoRequest_def DoHeaders_def split: option.splits if_splits)
next
  case (Some p1)
  let ?cl = "FastHTTPClient_Do env' fh"
  let ?rb = "SetTimeout (DoTimeout p1 req) (NoKeepLog (NewRequestBuilder (client env)))"
  have url: "p_Url p1 @ q_Path req \<noteq> []" using Some assms(2)
    by (auto simp: DoHeaders_def split: option.splits if_splits)
  obtain r c where x: "Execute env ?rb i (q_Method req) (p_Url p1 @ q_Path req) (q_Params req) (q_Body req) (p_Headers p1) =
      Some (None, c)" "(hResponse c, hError c) = ?cl r i"
    using Execute_plain [OF url assms(3), of ?rb ?cl env i "q_Params req" "q_Body req" "p_Headers p1"] assms(1)
    by (auto simp: SetTimeout_def NoKeepLog_def NewRequestBuilder_def)
  have A: "hResponse c \<noteq> None" if "hError c = None"
    using fasthttp.answer_or_error [of env' fh r i "hError c"] x(2) [symmetric] that by (cases "hResponse c") auto
  have B: "StatsOf t \<noteq> None" if "hResponse c = Some t" for t
    using fasthttp_stats [of env' fh r i t "hError c"] x(2) that by simp
  have "DoRequest env gj rf isRpc p req i \<noteq> Panicked"
    using Some x(1) A B by (cases "hError c"; cases "hResponse c") (auto simp: DoRequest_def Let_def split: option.splits)
  moreover have "\<not> (p_Headers p = None \<and> q_Headers req \<noteq> [])"
    using Some by (auto simp: DoHeaders_def split: option.splits if_splits)
  ultimately show ?thesis by simp
qed

text \<open>
  Headers of one request stay with the point: after an attempt the point's own headers contain
  them, and the next request of that point, whoever made it, is sent with them.
\<close>

theorem request_headers_leak:
  assumes "p_Headers p = Some m" "q_Headers req = [(k, v)]" "q_Headers other = []"
  shows "\<exists>p1. DoHeaders p req = Some p1 \<and> DoHeaders p1 other = Some p1 \<and> p_Headers p1 = Some (m(k \<mapsto> v))"
  using assms by (simp add: DoHeaders_def)

section \<open>A concrete pool\<close>

definition demo_req :: "unit PRequest" where
  "demo_req = \<lparr>q_Method = ''GET'', q_Path = [], q_Body = BodyNil, q_Params = [], q_Headers = [(''T'', ''1'')],
     q_Result = None, q_Error = None, q_RetryNum = 0, requestID = [], groupID = [], q_errorNum = 0,
     groupNum = 0, errorUrls = {}\<rparr>"

definition demo_points :: "(string \<times> PointConfig) list" where
  "demo_points = [(''p'', \<lparr>pc_Url = ''http://p'', pc_Headers = None\<rparr>)]"

definition demo_rpool :: "unit RPool" where
  "demo_rpool = projr (NewPool False demo_points (newPoint (snd (hd demo_points))))"

definition demo_gj :: gjson_lib where
  "demo_gj = \<lparr>gj_Exists = (\<lambda>_ _. True), gj_IsNull = (\<lambda>_ _. False), gj_Int = (\<lambda>_ _. 0),
     gj_Str = (\<lambda>_ _. []), gj_Whole = (\<lambda>s. s)\<rparr>"

lemma demo_rpool_new: "NewPool False demo_points (newPoint (snd (hd demo_points))) = Inr demo_rpool"
  by (simp add: demo_rpool_def NewPool_def demo_points_def Let_def)

lemma AddGoroutine_messages: "messages (AddGoroutine pid st) = messages st"
proof -
  have "p_requestChan (point (AddGoroutine pid st) q) = p_requestChan (point st q)"
    "inHand (point (AddGoroutine pid st) q) = inHand (point st q)" for q by simp_all
  then show ?thesis unfolding messages_def by (simp del: AddGoroutine_fields(9))
qed

lemma startPoint_frame:
  "pointIds (startPoint pid st) = pointIds st" "resultMap (startPoint pid st) = resultMap st"
  "messages (startPoint pid st) = messages st"
proof -
  have "pointIds ((AddGoroutine pid ^^ k) st) = pointIds st \<and> resultMap ((AddGoroutine pid ^^ k) st) = resultMap st \<and>
    messages ((AddGoroutine pid ^^ k) st) = messages st" for k
    by (induction k) (simp_all add: AddGoroutine_messages)
  then show "pointIds (startPoint pid st) = pointIds st" "resultMap (startPoint pid st) = resultMap st"
    "messages (startPoint pid st) = messages st" by (simp_all add: startPoint_def)
qed

lemma demo_rpool_ids: "pointIds demo_rpool = [''p'']" "resultMap demo_rpool = Map.empty"
  "messages demo_rpool = {}"
  unfolding demo_rpool_def NewPool_def demo_points_def Let_def
  by (simp_all add: addPoint_def startPoint_frame) (simp add: messages_def newPoint_def)

lemma demo_reach: "rp_reach demo_henv demo_gj [] (\<lambda>_. []) demo_rpool"
  using demo_rpool_new by (rule rp_new) (simp add: demo_points_def)

lemma demo_reach_open:
  "rp_reach demo_henv demo_gj [] ((\<lambda>_. [])(''g'' := [''r''])) (openGroup ''g'' [(''r'', demo_req)] demo_rpool)"
  using rp_open [OF demo_reach, of "''g''" "[(''r'', demo_req)]"] by (simp add: demo_rpool_ids demo_req_def)


definition demo_retry :: "unit PRequest" where
  "demo_retry = demo_req\<lparr>q_RetryNum := 2\<rparr>"

lemma demo_reach_retry:
  "rp_reach demo_henv demo_gj [] ((\<lambda>_. [])(''g'' := [''r''])) (openGroup ''g'' [(''r'', demo_retry)] demo_rpool)"
  using rp_open [OF demo_reach, of "''g''" "[(''r'', demo_retry)]"]
  by (simp add: demo_rpool_ids demo_req_def demo_retry_def)

theorem retries_bounded_witness:
  "q_errorNum (groupMessage ''g'' 1 (length (pointManage demo_rpool)) (''r'', demo_retry)) \<le> 2"
proof -
  let ?m = "groupMessage ''g'' 1 (length (pointManage demo_rpool)) (''r'', demo_retry)"
  have "?m \<in> messages (openGroup ''g'' [(''r'', demo_retry)] demo_rpool)"
    by (simp add: messages_def openGroup_def)
  moreover have "groupID ?m = ''g''" "q_RetryNum ?m = 2"
    by (simp_all add: groupMessage_def demo_retry_def)
  ultimately show ?thesis
    using bspec [OF conjunct1 [OF retries_bounded [OF demo_reach_retry, of "''g''" "[]"]], of ?m]
    by (simp add: openGroup_def)
qed

theorem point_counters_witness:
  "length (p_routines (point demo_rpool ''p'')) \<le> 200"
  using point_counters [OF demo_reach, of "''p''"] by (simp add: demo_rpool_ids)

definition demo_fh :: fasthttp_lib where
  "demo_fh = \<lparr>fh_Do = (\<lambda>_ _. (None, \<lparr>fr_StatusCode = 200, fr_Body = ''{}'', fr_Header = []\<rparr>)),
     fh_ctxDone = (\<lambda>_. None), fh_now = int, fh_order = (\<lambda>_. [])\<rparr>"

theorem DoRequest_panics_iff_witness:
  "DoRequest (demo_henv\<lparr>client := Some (FastHTTPClient_Do demo_henv demo_fh)\<rparr>) demo_gj [] False
     (newPoint \<lparr>pc_Url = ''http://p'', pc_Headers = None\<rparr>) demo_req 0 = Panicked"
  using DoRequest_panics_iff [of "demo_henv\<lparr>client := Some (FastHTTPClient_Do demo_henv demo_fh)\<rparr>" demo_henv demo_fh
      "newPoint \<lparr>pc_Url = ''http://p'', pc_Headers = None\<rparr>" demo_req demo_gj "[]" False 0]
  by (simp add: newPoint_def demo_req_def isValidHTTPMethod_def validHTTPMethods_def)

theorem request_headers_leak_witness:
  "\<exists>p1. DoHeaders (newPoint \<lparr>pc_Url = ''http://p'', pc_Headers = Some Map.empty\<rparr>) demo_req = Some p1 \<and>
     p_Headers p1 = Some [''T'' \<mapsto> ''1'']"
  using request_headers_leak [of "newPoint \<lparr>pc_Url = ''http://p'', pc_Headers = Some Map.empty\<rparr>" Map.empty
      demo_req "''T''" "''1''" "demo_req\<lparr>q_Headers := []\<rparr>"]
  by (auto simp: newPoint_def demo_req_def)

end
