(* ===== verification/Dlock.thy ===== *)
theory Dlock
  imports Go_Prelude
begin

text \<open>
  The locks of \<^verbatim>\<open>dlock\<close>: the interface \<^verbatim>\<open>Mutex\<close> with its memory, Redis (redsync) and etcd
  implementations.  redsync and the etcd client are parameters.

  A client is a number; client \<open>c\<close> uses its own \<^verbatim>\<open>Mutex\<close> value for key \<open>k\<close>, as the package asks.  What
  the interface promises is the locale \<^verbatim>\<open>mutex_contract\<close>: a lock is granted only while its key is
  free and makes it taken, and a release by the owner frees it.  From that alone it follows that
  clients which release only what they have locked exclude each other.
\<close>

definition ErrLockFailed :: goerr where
  "ErrLockFailed = ErrNew ''dlock: failed to acquire lock''"

section \<open>The memory lock\<close>

record memoryLock =
  full :: bool
  refs :: int

type_synonym MemoryProvider = "string \<rightharpoonup> memoryLock"

definition NewMemoryProvider :: MemoryProvider where
  "NewMemoryProvider = Map.empty"

definition memory_NewMutex :: "string \<Rightarrow> MemoryProvider \<Rightarrow> MemoryProvider" where
  "memory_NewMutex key p =
     (let lk = (case p key of None \<Rightarrow> \<lparr>full = False, refs = 0\<rparr> | Some lk \<Rightarrow> lk)
      in p(key \<mapsto> lk\<lparr>refs := refs lk + 1\<rparr>))"

definition getLock :: "string \<Rightarrow> MemoryProvider \<Rightarrow> memoryLock option" where
  "getLock key p = p key"

text \<open>\<^verbatim>\<open>release\<close> is declared in the source and called nowhere.\<close>

definition release :: "string \<Rightarrow> MemoryProvider \<Rightarrow> MemoryProvider" where
  "release key p =
     (case p key of
        None \<Rightarrow> p
      | Some lk \<Rightarrow> let lk1 = lk\<lparr>refs := refs lk - 1\<rparr> in if refs lk1 \<le> 0 then p(key := None) else p(key \<mapsto> lk1))"

text \<open>
  The surroundings of a \<^verbatim>\<open>Lock\<close> call: the error of its context, if it is done, and which case
  \<^verbatim>\<open>select\<close> takes when both are ready.  A call that has to wait has no result (\<^term>\<open>None\<close>).
\<close>

record select_env =
  ctxdone :: "goerr option"
  prefer_ctx :: bool

definition memory_Lock :: "select_env \<Rightarrow> string \<Rightarrow> MemoryProvider \<Rightarrow> (goerr option \<times> MemoryProvider) option" where
  "memory_Lock env key p =
     (case getLock key p of
        None \<Rightarrow> Some (Some ErrLockFailed, p)
      | Some lk \<Rightarrow>
          if \<not> full lk \<and> (ctxdone env = None \<or> \<not> prefer_ctx env) then Some (None, p(key \<mapsto> lk\<lparr>full := True\<rparr>))
          else map_option (\<lambda>err. (Some err, p)) (ctxdone env))"

definition memory_TryLock :: "string \<Rightarrow> MemoryProvider \<Rightarrow> goerr option \<times> MemoryProvider" where
  "memory_TryLock key p =
     (case getLock key p of
        None \<Rightarrow> (Some ErrLockFailed, p)
      | Some lk \<Rightarrow> if full lk then (Some ErrLockFailed, p) else (None, p(key \<mapsto> lk\<lparr>full := True\<rparr>)))"

definition memory_Unlock :: "string \<Rightarrow> MemoryProvider \<Rightarrow> goerr option \<times> MemoryProvider" where
  "memory_Unlock key p =
     (case getLock key p of
        None \<Rightarrow> (None, p)
      | Some lk \<Rightarrow> (None, if full lk then p(key \<mapsto> lk\<lparr>full := False\<rparr>) else p))"

section \<open>The Redis lock\<close>

record redisProviderConfig =
  expiry :: int
  tries :: int
  retryDelay :: int
  rKeyPrefix :: string

definition defaultRedisConfig :: redisProviderConfig where
  "defaultRedisConfig = \<lparr>expiry = 8 * 10 ^ 9, tries = 32, retryDelay = 500 * 10 ^ 6, rKeyPrefix = ''dlock:''\<rparr>"

datatype RedisOption = WithRedisExpiry int | WithRedisTries int | WithRedisRetryDelay int | WithRedisKeyPrefix string

fun apply_redis_option :: "RedisOption \<Rightarrow> redisProviderConfig \<Rightarrow> redisProviderConfig" where
  "apply_redis_option (WithRedisExpiry d) c = c\<lparr>expiry := d\<rparr>"
| "apply_redis_option (WithRedisTries n) c = c\<lparr>tries := n\<rparr>"
| "apply_redis_option (WithRedisRetryDelay d) c = c\<lparr>retryDelay := d\<rparr>"
| "apply_redis_option (WithRedisKeyPrefix p) c = c\<lparr>rKeyPrefix := p\<rparr>"

definition NewRedisProvider :: "RedisOption list \<Rightarrow> redisProviderConfig" where
  "NewRedisProvider opts = foldl (\<lambda>c f. apply_redis_option f c) defaultRedisConfig opts"

text \<open>redsync: the mutex value of a client is given by the client, the name and the settings.\<close>

record ('e, 'w) redsync =
  LockContext :: "nat \<Rightarrow> string \<Rightarrow> redisProviderConfig \<Rightarrow> 'e \<Rightarrow> 'w \<Rightarrow> goerr option \<times> 'w"
  TryLockContext :: "nat \<Rightarrow> string \<Rightarrow> redisProviderConfig \<Rightarrow> 'e \<Rightarrow> 'w \<Rightarrow> goerr option \<times> 'w"
  UnlockContext :: "nat \<Rightarrow> string \<Rightarrow> redisProviderConfig \<Rightarrow> 'e \<Rightarrow> 'w \<Rightarrow> (bool \<times> goerr option) \<times> 'w"
  ErrFailed :: goerr
  ErrLockAlreadyExpired :: goerr

definition redis_name :: "redisProviderConfig \<Rightarrow> string \<Rightarrow> string" where
  "redis_name cfg key = rKeyPrefix cfg @ key"

definition lock_failure :: "('e, 'w) redsync \<Rightarrow> goerr option \<Rightarrow> goerr option" where
  "lock_failure lib r =
     (case r of None \<Rightarrow> None | Some err \<Rightarrow> if errors_Is err (ErrFailed lib) then Some ErrLockFailed else Some err)"

definition redis_Lock :: "('e, 'w) redsync \<Rightarrow> redisProviderConfig \<Rightarrow> 'e \<Rightarrow> nat \<Rightarrow> string \<Rightarrow> 'w \<Rightarrow> goerr option \<times> 'w" where
  "redis_Lock lib cfg env c key w =
     (case LockContext lib c (redis_name cfg key) cfg env w of (r, w1) \<Rightarrow> (lock_failure lib r, w1))"

definition redis_TryLock :: "('e, 'w) redsync \<Rightarrow> redisProviderConfig \<Rightarrow> 'e \<Rightarrow> nat \<Rightarrow> string \<Rightarrow> 'w \<Rightarrow> goerr option \<times> 'w" where
  "redis_TryLock lib cfg env c key w =
     (case TryLockContext lib c (redis_name cfg key) cfg env w of (r, w1) \<Rightarrow> (lock_failure lib r, w1))"

definition redis_Unlock :: "('e, 'w) redsync \<Rightarrow> redisProviderConfig \<Rightarrow> 'e \<Rightarrow> nat \<Rightarrow> string \<Rightarrow> 'w \<Rightarrow> goerr option \<times> 'w" where
  "redis_Unlock lib cfg env c key w =
     (case UnlockContext lib c (redis_name cfg key) cfg env w of
        ((_, err), w1) \<Rightarrow>
          (case err of
             None \<Rightarrow> (None, w1)
           | Some e \<Rightarrow> if errors_Is e (ErrLockAlreadyExpired lib) then (None, w1) else (Some e, w1)))"

section \<open>The etcd lock\<close>

record etcdProviderConfig =
  ttl :: int
  eKeyPrefix :: string

definition defaultEtcdConfig :: etcdProviderConfig where
  "defaultEtcdConfig = \<lparr>ttl = 10, eKeyPrefix = ''/dlock/''\<rparr>"

datatype EtcdOption = WithEtcdTTL int | WithEtcdKeyPrefix string

fun apply_etcd_option :: "EtcdOption \<Rightarrow> etcdProviderConfig \<Rightarrow> etcdProviderConfig" where
  "apply_etcd_option (WithEtcdTTL t) c = c\<lparr>ttl := t\<rparr>"
| "apply_etcd_option (WithEtcdKeyPrefix p) c = c\<lparr>eKeyPrefix := p\<rparr>"

definition NewEtcdProvider :: "EtcdOption list \<Rightarrow> etcdProviderConfig" where
  "NewEtcdProvider opts = foldl (\<lambda>c f. apply_etcd_option f c) defaultEtcdConfig opts"

text \<open>The client library: sessions \<open>'n\<close> and the mutexes made from a session and a key.\<close>

record ('e, 'n, 'w) etcd_lib =
  NewSession :: "int \<Rightarrow> 'e \<Rightarrow> 'w \<Rightarrow> (goerr + 'n) \<times> 'w"
  etLock :: "'n \<Rightarrow> string \<Rightarrow> 'e \<Rightarrow> 'w \<Rightarrow> goerr option \<times> 'w"
  etTryLock :: "'n \<Rightarrow> string \<Rightarrow> 'e \<Rightarrow> 'w \<Rightarrow> goerr option \<times> 'w"
  etUnlock :: "'n \<Rightarrow> string \<Rightarrow> 'e \<Rightarrow> 'w \<Rightarrow> goerr option \<times> 'w"
  sessClose :: "'n \<Rightarrow> 'w \<Rightarrow> 'w"
  ErrLocked :: goerr

record 'n etcdMutex =
  pfx :: string
  em_ttl :: int
  session :: "'n option"
  em_mu :: "('n \<times> string) option"

definition etcd_NewMutex :: "etcdProviderConfig \<Rightarrow> string \<Rightarrow> 'n etcdMutex" where
  "etcd_NewMutex cfg key = \<lparr>pfx = eKeyPrefix cfg @ key, em_ttl = ttl cfg, session = None, em_mu = None\<rparr>"

definition etcd_Lock :: "('e, 'n, 'w) etcd_lib \<Rightarrow> 'e \<Rightarrow> 'n etcdMutex \<times> 'w \<Rightarrow> goerr option \<times> 'n etcdMutex \<times> 'w" where
  "etcd_Lock lib env mw =
     (case mw of (m, w) \<Rightarrow>
        (case NewSession lib (em_ttl m) env w of
           (Inl err, w1) \<Rightarrow> (Some err, (m, w1))
         | (Inr ss, w1) \<Rightarrow>
             (case etLock lib ss (pfx m) env w1 of
                (Some err, w2) \<Rightarrow> (Some err, (m, sessClose lib ss w2))
              | (None, w2) \<Rightarrow> (None, (m\<lparr>session := Some ss, em_mu := Some (ss, pfx m)\<rparr>, w2)))))"

definition etcd_TryLock :: "('e, 'n, 'w) etcd_lib \<Rightarrow> 'e \<Rightarrow> 'n etcdMutex \<times> 'w \<Rightarrow> goerr option \<times> 'n etcdMutex \<times> 'w" where
  "etcd_TryLock lib env mw =
     (case mw of (m, w) \<Rightarrow>
        (case NewSession lib (em_ttl m) env w of
           (Inl err, w1) \<Rightarrow> (Some err, (m, w1))
         | (Inr ss, w1) \<Rightarrow>
             (case etTryLock lib ss (pfx m) env w1 of
                (Some err, w2) \<Rightarrow>
                  (Some (if errors_Is err (ErrLocked lib) then ErrLockFailed else err), (m, sessClose lib ss w2))
              | (None, w2) \<Rightarrow> (None, (m\<lparr>session := Some ss, em_mu := Some (ss, pfx m)\<rparr>, w2)))))"

definition etcd_Unlock :: "('e, 'n, 'w) etcd_lib \<Rightarrow> 'e \<Rightarrow> 'n etcdMutex \<times> 'w \<Rightarrow> goerr option \<times> 'n etcdMutex \<times> 'w" where
  "etcd_Unlock lib env mw =
     (case mw of (m, w) \<Rightarrow>
        (case em_mu m of
           None \<Rightarrow> (None, (m, w))
         | Some (ss, key) \<Rightarrow>
             (case etUnlock lib ss key env w of
                (err, w1) \<Rightarrow>
                  (err, (m\<lparr>em_mu := None, session := None\<rparr>,
                         case session m of None \<Rightarrow> w1 | Some s \<Rightarrow> sessClose lib s w1)))))"

text \<open>Every client keeps its mutex value of a key in a store.\<close>

type_synonym ('n, 'w) etcd_state = "(nat \<times> string \<Rightarrow> 'n etcdMutex) \<times> 'w"

definition on_mutex :: "('n etcdMutex \<times> 'w \<Rightarrow> goerr option \<times> 'n etcdMutex \<times> 'w) \<Rightarrow> nat \<Rightarrow> string \<Rightarrow>
    ('n, 'w) etcd_state \<Rightarrow> goerr option \<times> ('n, 'w) etcd_state" where
  "on_mutex f c key st = (case f (fst st (c, key), snd st) of (err, m, w) \<Rightarrow> (err, ((fst st)((c, key) := m), w)))"

definition etcd_new :: "etcdProviderConfig \<Rightarrow> nat \<Rightarrow> string \<Rightarrow> ('n, 'w) etcd_state \<Rightarrow> ('n, 'w) etcd_state" where
  "etcd_new cfg c key st = ((fst st)((c, key) := etcd_NewMutex cfg key), snd st)"

section \<open>The contract\<close>

text \<open>
  The operations of \<^verbatim>\<open>Mutex\<close> on a state \<open>'s\<close> for the libraries and settings \<open>x\<close> that are as
  documented.  \<open>taken\<close> says that a key is locked by somebody, \<open>owns\<close> that the mutex value of a client is
  the one that locked it.
\<close>

definition grant_spec :: "goerr option \<Rightarrow> nat \<Rightarrow> string \<Rightarrow> (string \<Rightarrow> bool) \<Rightarrow> (nat \<Rightarrow> string \<Rightarrow> bool) \<Rightarrow>
    (string \<Rightarrow> bool) \<Rightarrow> (nat \<Rightarrow> string \<Rightarrow> bool) \<Rightarrow> bool" where
  "grant_spec err c k T W T' W' \<longleftrightarrow> (err = None \<longrightarrow> \<not> T k \<and> T' k \<and> W' c k) \<and>
     (\<forall>j. T j \<longrightarrow> T' j) \<and> (\<forall>d j. T j \<longrightarrow> W d j \<longrightarrow> W' d j)"

definition free_spec :: "goerr option \<Rightarrow> string \<Rightarrow> (string \<Rightarrow> bool) \<Rightarrow> (nat \<Rightarrow> string \<Rightarrow> bool) \<Rightarrow>
    (string \<Rightarrow> bool) \<Rightarrow> (nat \<Rightarrow> string \<Rightarrow> bool) \<Rightarrow> bool" where
  "free_spec err k T W T' W' \<longleftrightarrow> (err = None \<longrightarrow> \<not> T' k) \<and>
     (\<forall>j. j \<noteq> k \<longrightarrow> T j \<longrightarrow> T' j) \<and> (\<forall>d j. j \<noteq> k \<longrightarrow> T j \<longrightarrow> W d j \<longrightarrow> W' d j)"

locale mutex_contract =
  fixes ok :: "'x \<Rightarrow> bool"
    and new :: "'x \<Rightarrow> nat \<Rightarrow> string \<Rightarrow> 's \<Rightarrow> 's"
    and lock :: "'x \<Rightarrow> 'e \<Rightarrow> nat \<Rightarrow> string \<Rightarrow> 's \<Rightarrow> (goerr option \<times> 's) option"
    and trylock :: "'x \<Rightarrow> 'e \<Rightarrow> nat \<Rightarrow> string \<Rightarrow> 's \<Rightarrow> goerr option \<times> 's"
    and unlock :: "'x \<Rightarrow> 'e \<Rightarrow> nat \<Rightarrow> string \<Rightarrow> 's \<Rightarrow> goerr option \<times> 's"
    and inv :: "'x \<Rightarrow> 's \<Rightarrow> bool"
    and taken :: "'x \<Rightarrow> 's \<Rightarrow> string \<Rightarrow> bool"
    and owns :: "'x \<Rightarrow> 's \<Rightarrow> nat \<Rightarrow> string \<Rightarrow> bool"
  assumes new: "ok x \<Longrightarrow> inv x s \<Longrightarrow> s' = new x c k s \<Longrightarrow>
      inv x s' \<and> (\<forall>k'. taken x s k' \<longrightarrow> taken x s' k') \<and>
      (\<forall>c' k'. (c', k') \<noteq> (c, k) \<longrightarrow> owns x s c' k' \<longrightarrow> owns x s' c' k')"
    and lock: "ok x \<Longrightarrow> inv x s \<Longrightarrow> lock x env c k s = Some (err, s') \<Longrightarrow>
      inv x s' \<and> grant_spec err c k (taken x s) (owns x s) (taken x s') (owns x s')"
    and trylock: "ok x \<Longrightarrow> inv x s \<Longrightarrow> trylock x env c k s = (err, s') \<Longrightarrow>
      inv x s' \<and> grant_spec err c k (taken x s) (owns x s) (taken x s') (owns x s')"
    and unlock: "ok x \<Longrightarrow> inv x s \<Longrightarrow> taken x s k \<Longrightarrow> owns x s c k \<Longrightarrow> unlock x env c k s = (err, s') \<Longrightarrow>
      inv x s' \<and> free_spec err k (taken x s) (owns x s) (taken x s') (owns x s')"

text \<open>
  The calls of several clients in any order.  \<open>In\<close> are the pairs of a client and a key the client has
  locked and not released; a client makes the mutex values it uses, releases only what it has locked, and does not lock it again.
\<close>

inductive lock_run :: "('x \<Rightarrow> nat \<Rightarrow> string \<Rightarrow> 's \<Rightarrow> 's) \<Rightarrow>
    ('x \<Rightarrow> 'e \<Rightarrow> nat \<Rightarrow> string \<Rightarrow> 's \<Rightarrow> (goerr option \<times> 's) option) \<Rightarrow>
    ('x \<Rightarrow> 'e \<Rightarrow> nat \<Rightarrow> string \<Rightarrow> 's \<Rightarrow> goerr option \<times> 's) \<Rightarrow> ('x \<Rightarrow> 'e \<Rightarrow> nat \<Rightarrow> string \<Rightarrow> 's \<Rightarrow> goerr option \<times> 's) \<Rightarrow>
    'x \<Rightarrow> 's \<Rightarrow> (nat \<times> string) set \<Rightarrow> 's \<Rightarrow> bool"
  for new lock trylock unlock x s0 where
  lr_start: "lock_run new lock trylock unlock x s0 {} s0"
| lr_new: "lock_run new lock trylock unlock x s0 In s \<Longrightarrow> (c, k) \<notin> In \<Longrightarrow> s' = new x c k s \<Longrightarrow>
    lock_run new lock trylock unlock x s0 In s'"
| lr_lock: "lock_run new lock trylock unlock x s0 In s \<Longrightarrow> (c, k) \<notin> In \<Longrightarrow> lock x env c k s = Some (err, s') \<Longrightarrow>
    In' = (if err = None then insert (c, k) In else In) \<Longrightarrow> lock_run new lock trylock unlock x s0 In' s'"
| lr_trylock: "lock_run new lock trylock unlock x s0 In s \<Longrightarrow> (c, k) \<notin> In \<Longrightarrow> trylock x env c k s = (err, s') \<Longrightarrow>
    In' = (if err = None then insert (c, k) In else In) \<Longrightarrow> lock_run new lock trylock unlock x s0 In' s'"
| lr_unlock: "lock_run new lock trylock unlock x s0 In s \<Longrightarrow> (c, k) \<in> In \<Longrightarrow> unlock x env c k s = (err, s') \<Longrightarrow>
    lock_run new lock trylock unlock x s0 (In - {(c, k)}) s'"

text \<open>No two clients are inside the same key.\<close>

definition exclusive :: "(nat \<times> string) set \<Rightarrow> bool" where
  "exclusive In \<longleftrightarrow> (\<forall>c d k. (c, k) \<in> In \<longrightarrow> (d, k) \<in> In \<longrightarrow> c = d)"

context mutex_contract
begin

lemma enter:
  assumes ex: "exclusive In" and mem: "\<And>d j. (d, j) \<in> In \<Longrightarrow> taken x s j \<and> owns x s d j"
    and step: "grant_spec err c k (taken x s) (owns x s) (taken x s') (owns x s')"
    and In': "In' = (if err = None then insert (c, k) In else In)"
  shows "exclusive In' \<and> (\<forall>(d, j)\<in>In'. taken x s' j \<and> owns x s' d j)"
proof -
  have "(d, j) \<in> In \<Longrightarrow> taken x s' j \<and> owns x s' d j" for d j
    using mem [of d j] step unfolding grant_spec_def by blast
  moreover have "err = None \<Longrightarrow> (d, k) \<notin> In" for d using mem [of d k] step unfolding grant_spec_def by blast
  ultimately show ?thesis using ex step unfolding In' exclusive_def grant_spec_def by (auto split: if_splits)
qed

lemma run_inv:
  assumes "ok x" "inv x s0" "lock_run new lock trylock unlock x s0 In s"
  shows "inv x s \<and> exclusive In \<and> (\<forall>(c, k)\<in>In. taken x s k \<and> owns x s c k)"
  using assms(3)
proof induction
  case lr_start
  then show ?case using assms(2) by (simp add: exclusive_def)
next
  case (lr_new In s c k s')
  note step = new [OF assms(1) conjunct1 [OF lr_new.IH] lr_new.hyps(3)]
  show ?case using step lr_new.IH lr_new.hyps(2) by fast
next
  case (lr_lock In s c k env err s' In')
  note step = lock [OF assms(1) conjunct1 [OF lr_lock.IH] lr_lock.hyps(3)]
  show ?case using step enter [of In x s err c k s' In', OF _ _ _ lr_lock.hyps(4)] lr_lock.IH by blast
next
  case (lr_trylock In s c k env err s' In')
  note step = trylock [OF assms(1) conjunct1 [OF lr_trylock.IH] lr_trylock.hyps(3)]
  show ?case using step enter [of In x s err c k s' In', OF _ _ _ lr_trylock.hyps(4)] lr_trylock.IH by blast
next
  case (lr_unlock In s c k env err s')
  then have own: "taken x s k" "owns x s c k" by auto
  note step = unlock [OF assms(1) conjunct1 [OF lr_unlock.IH] own lr_unlock.hyps(3)]
  have ne: "k' \<noteq> k" if "(c', k') \<in> In - {(c, k)}" for c' k'
    using that lr_unlock.IH lr_unlock.hyps(2) by (auto simp: exclusive_def)
  have "taken x s' k' \<and> owns x s' c' k'" if "(c', k') \<in> In - {(c, k)}" for c' k'
    using ne [OF that] step that lr_unlock.IH unfolding free_spec_def by blast
  moreover have "exclusive (In - {(c, k)})" using lr_unlock.IH by (auto simp: exclusive_def)
  ultimately show ?case using step by blast
qed

end

section \<open>The memory lock has the contract\<close>

definition memory_taken :: "MemoryProvider \<Rightarrow> string \<Rightarrow> bool" where
  "memory_taken p k \<longleftrightarrow> (\<exists>lk. p k = Some lk \<and> full lk)"

lemma memory_taken_upd [simp]:
  "memory_taken (p(k \<mapsto> lk)) k' = (if k' = k then full lk else memory_taken p k')"
  by (simp add: memory_taken_def)

interpretation memory_lock: mutex_contract "\<lambda>_. True" "\<lambda>_ _. memory_NewMutex" "\<lambda>_ env _. memory_Lock env"
  "\<lambda>_ _ _. memory_TryLock" "\<lambda>_ _ _. memory_Unlock" "\<lambda>_ _. True" "\<lambda>_. memory_taken" "\<lambda>_ _ _ _. True"
  by unfold_locales (auto simp: memory_NewMutex_def memory_Lock_def memory_TryLock_def memory_Unlock_def getLock_def
      grant_spec_def free_spec_def memory_taken_def split: option.splits if_splits)

section \<open>The Redis lock has the contract\<close>

text \<open>
  What is relied on of redsync while leases are not exceeded: \<open>holder\<close> is the mutex value that holds a
  name; a lock is granted only for a free name, a failed one changes nothing, and only the holder's
  release frees the name.  An expired lease is reported as such only to a value that no longer holds.
\<close>

definition redsync_ok :: "('e, 'w) redsync \<Rightarrow> redisProviderConfig \<Rightarrow> ('w \<Rightarrow> string \<Rightarrow> nat option) \<Rightarrow> bool" where
  "redsync_ok lib cfg holder \<longleftrightarrow>
     (\<forall>c n env w err w1. LockContext lib c n cfg env w = (err, w1) \<or> TryLockContext lib c n cfg env w = (err, w1) \<longrightarrow>
        (case err of None \<Rightarrow> holder w n = None \<and> holder w1 = (holder w)(n \<mapsto> c) | Some _ \<Rightarrow> holder w1 = holder w)) \<and>
     (\<forall>c n env w b err w1. UnlockContext lib c n cfg env w = ((b, err), w1) \<and> holder w n = Some c \<longrightarrow>
        (case err of None \<Rightarrow> holder w1 = (holder w)(n := None)
         | Some e \<Rightarrow> \<not> errors_Is e (ErrLockAlreadyExpired lib) \<and> holder w1 = holder w))"

lemma lock_failure_None [simp]: "lock_failure lib r = None \<longleftrightarrow> r = None"
  by (simp add: lock_failure_def split: option.splits)

definition redis_taken :: "redisProviderConfig \<Rightarrow> ('w \<Rightarrow> string \<Rightarrow> nat option) \<Rightarrow> 'w \<Rightarrow> string \<Rightarrow> bool" where
  "redis_taken cfg holder w k \<longleftrightarrow> holder w (redis_name cfg k) \<noteq> None"

definition redis_owns :: "redisProviderConfig \<Rightarrow> ('w \<Rightarrow> string \<Rightarrow> nat option) \<Rightarrow> 'w \<Rightarrow> nat \<Rightarrow> string \<Rightarrow> bool" where
  "redis_owns cfg holder w c k \<longleftrightarrow> holder w (redis_name cfg k) = Some c"

lemma redis_name_inj [simp]: "redis_name cfg j = redis_name cfg k \<longleftrightarrow> j = k"
  by (simp add: redis_name_def)

lemma redis_grant:
  assumes "case r of None \<Rightarrow> holder w (redis_name cfg k) = None \<and> holder w1 = (holder w)(redis_name cfg k \<mapsto> c)
      | Some _ \<Rightarrow> holder w1 = holder w"
  shows "grant_spec (lock_failure lib r) c k (redis_taken cfg holder w) (redis_owns cfg holder w)
    (redis_taken cfg holder w1) (redis_owns cfg holder w1)"
  using assms by (cases r) (auto simp: grant_spec_def redis_taken_def redis_owns_def)

lemma redis_Lock_grant:
  assumes "redsync_ok lib cfg holder" "redis_Lock lib cfg env c k w = (err, w1)"
  shows "grant_spec err c k (redis_taken cfg holder w) (redis_owns cfg holder w) (redis_taken cfg holder w1) (redis_owns cfg holder w1)"
proof -
  obtain r where r: "LockContext lib c (redis_name cfg k) cfg env w = (r, w1)" and err: "err = lock_failure lib r"
    using assms(2) by (auto simp: redis_Lock_def split: prod.splits)
  show ?thesis unfolding err
    by (rule redis_grant) (rule conjunct1 [OF assms(1) [unfolded redsync_ok_def], rule_format, OF disjI1 [OF r]])
qed

lemma redis_TryLock_grant:
  assumes "redsync_ok lib cfg holder" "redis_TryLock lib cfg env c k w = (err, w1)"
  shows "grant_spec err c k (redis_taken cfg holder w) (redis_owns cfg holder w) (redis_taken cfg holder w1) (redis_owns cfg holder w1)"
proof -
  obtain r where r: "TryLockContext lib c (redis_name cfg k) cfg env w = (r, w1)" and err: "err = lock_failure lib r"
    using assms(2) by (auto simp: redis_TryLock_def split: prod.splits)
  show ?thesis unfolding err
    by (rule redis_grant) (rule conjunct1 [OF assms(1) [unfolded redsync_ok_def], rule_format, OF disjI2 [OF r]])
qed

lemma redis_Unlock_free:
  assumes "redsync_ok lib cfg holder" "redis_owns cfg holder w c k" "redis_Unlock lib cfg env c k w = (err, w1)"
  shows "free_spec err k (redis_taken cfg holder w) (redis_owns cfg holder w) (redis_taken cfg holder w1) (redis_owns cfg holder w1)"
proof -
  obtain b r where r: "UnlockContext lib c (redis_name cfg k) cfg env w = ((b, r), w1)"
    and err: "err = (case r of None \<Rightarrow> None | Some e \<Rightarrow> if errors_Is e (ErrLockAlreadyExpired lib) then None else Some e)"
    using assms(3) by (auto simp: redis_Unlock_def split: prod.splits option.splits if_splits)
  have "case r of None \<Rightarrow> holder w1 = (holder w)(redis_name cfg k := None)
     | Some e \<Rightarrow> \<not> errors_Is e (ErrLockAlreadyExpired lib) \<and> holder w1 = holder w"
    using conjunct2 [OF assms(1) [unfolded redsync_ok_def], rule_format, OF conjI [OF r]] assms(2)
    by (simp add: redis_owns_def)
  then show ?thesis unfolding err by (cases r) (auto simp: free_spec_def redis_taken_def redis_owns_def)
qed

interpretation redis_lock: mutex_contract "\<lambda>(lib, cfg, holder). redsync_ok lib cfg holder" "\<lambda>_ _ _ w. w"
  "\<lambda>(lib, cfg, holder) env c k w. Some (redis_Lock lib cfg env c k w)"
  "\<lambda>(lib, cfg, holder). redis_TryLock lib cfg" "\<lambda>(lib, cfg, holder). redis_Unlock lib cfg" "\<lambda>_ _. True"
  "\<lambda>(lib, cfg, holder). redis_taken cfg holder" "\<lambda>(lib, cfg, holder). redis_owns cfg holder"
  by unfold_locales (auto intro: redis_Lock_grant redis_TryLock_grant redis_Unlock_free)

section \<open>The etcd lock has the contract\<close>

text \<open>
  What is relied on of etcd while sessions live: \<open>holder\<close> is the session that holds a key, \<open>used\<close> are
  the sessions made so far; a session is new, a lock is granted only for a free key, a failed lock
  changes nothing, and releasing or closing a session frees nothing but what it holds.
\<close>

definition etcd_ok :: "('e, 'n, 'w) etcd_lib \<Rightarrow> ('w \<Rightarrow> string \<Rightarrow> 'n option) \<Rightarrow> ('w \<Rightarrow> 'n set) \<Rightarrow> bool" where
  "etcd_ok lib holder used \<longleftrightarrow>
     (\<forall>t env w res w1. NewSession lib t env w = (res, w1) \<longrightarrow> holder w1 = holder w \<and> used w \<subseteq> used w1 \<and>
        (\<forall>ss. res = Inr ss \<longrightarrow> ss \<notin> used w \<and> ss \<in> used w1)) \<and>
     (\<forall>ss p env w err w1. etLock lib ss p env w = (err, w1) \<or> etTryLock lib ss p env w = (err, w1) \<longrightarrow> used w1 = used w \<and>
        (case err of None \<Rightarrow> holder w p = None \<and> holder w1 = (holder w)(p \<mapsto> ss) | Some _ \<Rightarrow> holder w1 = holder w)) \<and>
     (\<forall>ss p env w err w1. etUnlock lib ss p env w = (err, w1) \<longrightarrow> used w1 = used w \<and>
        (\<forall>q. holder w1 q = holder w q \<or> q = p \<and> holder w q = Some ss \<and> holder w1 q = None) \<and>
        (err = None \<longrightarrow> holder w p = Some ss \<longrightarrow> holder w1 p = None)) \<and>
     (\<forall>ss w. used (sessClose lib ss w) = used w \<and>
        (\<forall>q. holder (sessClose lib ss w) q = holder w q \<or> holder w q = Some ss \<and> holder (sessClose lib ss w) q = None))"

lemmas etcd_laws = etcd_ok_def [THEN iffD1]
lemmas etcd_session = etcd_laws [THEN conjunct1, rule_format]
lemmas etcd_grant = etcd_laws [THEN conjunct2, THEN conjunct1, rule_format]
lemmas etcd_free = etcd_laws [THEN conjunct2, THEN conjunct2, THEN conjunct1, rule_format]
lemmas etcd_close = etcd_laws [THEN conjunct2, THEN conjunct2, THEN conjunct2, rule_format]

definition etcd_inv :: "etcdProviderConfig \<Rightarrow> ('w \<Rightarrow> string \<Rightarrow> 'n option) \<Rightarrow> ('w \<Rightarrow> 'n set) \<Rightarrow> ('n, 'w) etcd_state \<Rightarrow> bool" where
  "etcd_inv cfg holder used st \<longleftrightarrow>
     (\<forall>c k. pfx (fst st (c, k)) = eKeyPrefix cfg @ k) \<and>
     (\<forall>c k ss p. em_mu (fst st (c, k)) = Some (ss, p) \<longrightarrow> p = eKeyPrefix cfg @ k \<and> session (fst st (c, k)) = Some ss \<and>
        ss \<in> used (snd st) \<and> (\<forall>q. holder (snd st) q = Some ss \<longrightarrow> q = p)) \<and>
     (\<forall>q ss. holder (snd st) q = Some ss \<longrightarrow> ss \<in> used (snd st))"

definition etcd_taken :: "etcdProviderConfig \<Rightarrow> ('w \<Rightarrow> string \<Rightarrow> 'n option) \<Rightarrow> ('n, 'w) etcd_state \<Rightarrow> string \<Rightarrow> bool" where
  "etcd_taken cfg holder st k \<longleftrightarrow> holder (snd st) (eKeyPrefix cfg @ k) \<noteq> None"

definition etcd_owns :: "etcdProviderConfig \<Rightarrow> ('w \<Rightarrow> string \<Rightarrow> 'n option) \<Rightarrow> ('n, 'w) etcd_state \<Rightarrow> nat \<Rightarrow> string \<Rightarrow> bool" where
  "etcd_owns cfg holder st c k \<longleftrightarrow>
     (\<exists>ss. em_mu (fst st (c, k)) = Some (ss, eKeyPrefix cfg @ k) \<and> holder (snd st) (eKeyPrefix cfg @ k) = Some ss)"

lemma etcd_invD:
  assumes "etcd_inv cfg holder used st"
  shows "pfx (fst st (c, k)) = eKeyPrefix cfg @ k"
    and "em_mu (fst st (c, k)) = Some (ss, p) \<Longrightarrow> p = eKeyPrefix cfg @ k \<and> session (fst st (c, k)) = Some ss \<and>
        ss \<in> used (snd st) \<and> (\<forall>q. holder (snd st) q = Some ss \<longrightarrow> q = p)"
    and "holder (snd st) q = Some ss \<Longrightarrow> ss \<in> used (snd st)"
  using assms unfolding etcd_inv_def by blast+

lemmas etcd_view = etcd_inv_def etcd_taken_def etcd_owns_def

text \<open>A failed lock leaves the mutex value and the holders alone, a granted one has a session of its own.\<close>

lemma etcd_lock_cases:
  assumes ok: "etcd_ok lib holder used" and inv: "etcd_inv cfg holder used (ms, w)"
    and eq: "etcd_Lock lib env (ms (c, k), w) = (err, (m', w')) \<or> etcd_TryLock lib env (ms (c, k), w) = (err, (m', w'))"
  shows "err \<noteq> None \<and> m' = ms (c, k) \<and> holder w' = holder w \<and> used w \<subseteq> used w' \<or>
    err = None \<and> (\<exists>ss. ss \<notin> used w \<and> insert ss (used w) \<subseteq> used w' \<and>
      m' = (ms (c, k))\<lparr>session := Some ss, em_mu := Some (ss, eKeyPrefix cfg @ k)\<rparr> \<and>
      holder w (eKeyPrefix cfg @ k) = None \<and> holder w' = (holder w)(eKeyPrefix cfg @ k \<mapsto> ss))"
proof -
  have pfx: "pfx (ms (c, k)) = eKeyPrefix cfg @ k" using inv by (simp add: etcd_inv_def)
  obtain res w1 where new: "NewSession lib (em_ttl (ms (c, k))) env w = (res, w1)" by force
  note n = etcd_session [OF ok new]
  show ?thesis
  proof (cases res)
    case (Inl e)
    with eq new n show ?thesis by (auto simp: etcd_Lock_def etcd_TryLock_def)
  next
    case (Inr ss)
    obtain r w2 where r: "etLock lib ss (pfx (ms (c, k))) env w1 = (r, w2) \<or> etTryLock lib ss (pfx (ms (c, k))) env w1 = (r, w2)"
      and res: "(case r of None \<Rightarrow> err = None \<and> m' = (ms (c, k))\<lparr>session := Some ss, em_mu := Some (ss, pfx (ms (c, k)))\<rparr> \<and> w' = w2
        | Some _ \<Rightarrow> err \<noteq> None \<and> m' = ms (c, k) \<and> w' = sessClose lib ss w2)"
      using eq new Inr by (fastforce simp: etcd_Lock_def etcd_TryLock_def split: prod.splits option.splits)
    note g = etcd_grant [OF ok r]
    show ?thesis
    proof (cases r)
      case None
      then show ?thesis using res g n Inr pfx by auto
    next
      case (Some e)
      have "holder w2 = holder w" "used w2 = used w1" using g n Some by auto
      moreover have "holder w q \<noteq> Some ss" for q using inv n Inr by (auto simp: etcd_inv_def)
      ultimately have "holder w' = holder w" "used w' = used w1"
        using res Some etcd_close [OF ok, of ss w2] by (auto simp: fun_eq_iff)
      then show ?thesis using res Some n by auto
    qed
  qed
qed

lemma etcd_lock_step:
  assumes ok: "etcd_ok lib holder used" and inv: "etcd_inv cfg holder used st"
    and eq: "on_mutex (etcd_Lock lib env) c k st = (err, st') \<or> on_mutex (etcd_TryLock lib env) c k st = (err, st')"
  shows "etcd_inv cfg holder used st' \<and> grant_spec err c k (etcd_taken cfg holder st) (etcd_owns cfg holder st)
    (etcd_taken cfg holder st') (etcd_owns cfg holder st')"
proof -
  obtain ms w where st: "st = (ms, w)" by (cases st)
  obtain m' w' where st': "st' = (ms((c, k) := m'), w')"
    and eq': "etcd_Lock lib env (ms (c, k), w) = (err, (m', w')) \<or> etcd_TryLock lib env (ms (c, k), w) = (err, (m', w'))"
    using eq by (auto simp: on_mutex_def st split: prod.splits)
  show ?thesis
    using etcd_lock_cases [OF ok inv [unfolded st] eq']
  proof (elim disjE conjE exE)
    assume "err \<noteq> None" "m' = ms (c, k)" "holder w' = holder w" "used w \<subseteq> used w'"
    then show ?thesis using inv unfolding st st' by (fastforce simp: etcd_view grant_spec_def)
  next
    fix ss assume new: "err = None" "ss \<notin> used w" "insert ss (used w) \<subseteq> used w'"
      "m' = (ms (c, k))\<lparr>session := Some ss, em_mu := Some (ss, eKeyPrefix cfg @ k)\<rparr>"
      "holder w (eKeyPrefix cfg @ k) = None" "holder w' = (holder w)(eKeyPrefix cfg @ k \<mapsto> ss)"
    note old = etcd_invD [OF inv [unfolded st], simplified]
    have mu: "p = eKeyPrefix cfg @ j \<and> session ((ms((c, k) := m')) (d, j)) = Some n \<and> n \<in> used w' \<and>
        (\<forall>q. holder w' q = Some n \<longrightarrow> q = p)" if "em_mu ((ms((c, k) := m')) (d, j)) = Some (n, p)" for d j n p
    proof (cases "(d, j) = (c, k)")
      case True
      then show ?thesis using that new(3,4,6) old(3) new(2) by auto
    next
      case False
      have "em_mu (ms (d, j)) = Some (n, p)" using that by (simp only: fun_upd_other [OF False])
      note o = old(2) [OF this]
      then have "n \<noteq> ss" using new(2) by blast
      then show ?thesis using o new(3,6) False by auto
    qed
    have "pfx ((ms((c, k) := m')) (d, j)) = eKeyPrefix cfg @ j" for d j using old(1) new(4) by simp
    moreover have "n \<in> used w'" if "holder w' q = Some n" for q n
      using that new(3,6) old(3) by (auto split: if_splits)
    ultimately have "etcd_inv cfg holder used st'" unfolding etcd_inv_def st' fst_conv snd_conv using mu by blast
    moreover have "grant_spec err c k (etcd_taken cfg holder st) (etcd_owns cfg holder st)
      (etcd_taken cfg holder st') (etcd_owns cfg holder st')"
      using new unfolding st st' by (auto simp: etcd_taken_def etcd_owns_def grant_spec_def)
    ultimately show ?thesis ..
  qed
qed

lemma etcd_unlock_step:
  assumes ok: "etcd_ok lib holder used" and inv: "etcd_inv cfg holder used st" and own: "etcd_owns cfg holder st c k"
    and eq: "on_mutex (etcd_Unlock lib env) c k st = (err, st')"
  shows "etcd_inv cfg holder used st' \<and> free_spec err k (etcd_taken cfg holder st) (etcd_owns cfg holder st)
    (etcd_taken cfg holder st') (etcd_owns cfg holder st')"
proof -
  let ?p = "eKeyPrefix cfg @ k"
  obtain ms w where st: "st = (ms, w)" by (cases st)
  obtain ss where ss: "em_mu (ms (c, k)) = Some (ss, ?p)" "holder w ?p = Some ss" using own by (auto simp: etcd_owns_def st)
  note mu_inv = etcd_invD(2) [OF inv [unfolded st], unfolded fst_conv snd_conv]
  have inv_ss: "session (ms (c, k)) = Some ss" "\<And>q. holder w q = Some ss \<Longrightarrow> q = ?p"
    using mu_inv [OF ss(1)] by blast+
  obtain w1 where u: "etUnlock lib ss ?p env w = (err, w1)"
    and st': "st' = (ms((c, k) := (ms (c, k))\<lparr>em_mu := None, session := None\<rparr>), sessClose lib ss w1)"
    using eq ss(1) inv_ss(1) by (auto simp: on_mutex_def st etcd_Unlock_def split: prod.splits)
  note f = etcd_free [OF ok u] and cl = etcd_close [OF ok, of ss w1]
  have used: "used (sessClose lib ss w1) = used w" using f cl by simp
  have rest: "holder (sessClose lib ss w1) q = holder w q" if "q \<noteq> ?p" for q
    using f cl inv_ss(2) that by (metis (no_types, lifting))
  have free: "err = None \<Longrightarrow> holder (sessClose lib ss w1) ?p = None" using f cl ss(2) by (metis option.distinct(1))
  have p: "holder (sessClose lib ss w1) ?p \<in> {None, Some ss}" using f cl ss(2) by (metis insert_iff)
  note old = etcd_invD [OF inv [unfolded st], simplified]
  have prev: "holder w q = Some n" if "holder (sessClose lib ss w1) q = Some n" for q n
    using that rest [of q] p ss(2) by (cases "q = ?p") auto
  have mu: "q = eKeyPrefix cfg @ j \<and> session ((ms((c, k) := (ms (c, k))\<lparr>em_mu := None, session := None\<rparr>)) (d, j)) = Some n \<and>
      n \<in> used w \<and> (\<forall>q'. holder (sessClose lib ss w1) q' = Some n \<longrightarrow> q' = q)"
    if "em_mu ((ms((c, k) := (ms (c, k))\<lparr>em_mu := None, session := None\<rparr>)) (d, j)) = Some (n, q)" for d j n q
    using that old(2) [of d j n q] prev by (auto split: if_splits)
  have "pfx ((ms((c, k) := (ms (c, k))\<lparr>em_mu := None, session := None\<rparr>)) (d, j)) = eKeyPrefix cfg @ j" for d j
    using old(1) by simp
  moreover have "n \<in> used w" if "holder (sessClose lib ss w1) q = Some n" for q n using old(3) [OF prev [OF that]] .
  ultimately have "etcd_inv cfg holder used st'" unfolding etcd_inv_def st' fst_conv snd_conv used using mu by blast
  moreover have "free_spec err k (etcd_taken cfg holder st) (etcd_owns cfg holder st) (etcd_taken cfg holder st') (etcd_owns cfg holder st')"
    using free unfolding st st' by (auto simp: etcd_taken_def etcd_owns_def free_spec_def rest)
  ultimately show ?thesis ..
qed

lemma etcd_new_step:
  assumes inv: "etcd_inv cfg holder used st"
  shows "etcd_inv cfg holder used (etcd_new cfg c k st) \<and>
    (\<forall>j. etcd_taken cfg holder st j \<longrightarrow> etcd_taken cfg holder (etcd_new cfg c k st) j) \<and>
    (\<forall>c' k'. (c', k') \<noteq> (c, k) \<longrightarrow> etcd_owns cfg holder st c' k' \<longrightarrow> etcd_owns cfg holder (etcd_new cfg c k st) c' k')"
proof -
  note old = etcd_invD [OF inv]
  let ?ms = "(fst st)((c, k) := etcd_NewMutex cfg k)"
  have "em_mu (?ms (d, j)) = Some (n, q) \<Longrightarrow> em_mu (fst st (d, j)) = Some (n, q) \<and> (d, j) \<noteq> (c, k)" for d j n q
    by (auto simp: etcd_NewMutex_def split: if_splits)
  then have "em_mu (?ms (d, j)) = Some (n, q) \<Longrightarrow> q = eKeyPrefix cfg @ j \<and> session (?ms (d, j)) = Some n \<and>
      n \<in> used (snd st) \<and> (\<forall>q'. holder (snd st) q' = Some n \<longrightarrow> q' = q)" for d j n q
    using old(2) [of d j n q] fun_upd_other [of "(d, j)" "(c, k)" "fst st" "etcd_NewMutex cfg k"] by metis
  moreover have "pfx (?ms (d, j)) = eKeyPrefix cfg @ j" for d j using old(1) by (simp add: etcd_NewMutex_def)
  ultimately have "etcd_inv cfg holder used (etcd_new cfg c k st)"
    unfolding etcd_inv_def etcd_new_def fst_conv snd_conv using old(3) by blast
  then show ?thesis by (auto simp: etcd_taken_def etcd_owns_def etcd_new_def fun_eq_iff)
qed

interpretation etcd_lock: mutex_contract "\<lambda>(lib, cfg, holder, used). etcd_ok lib holder used"
  "\<lambda>(lib, cfg, holder, used). etcd_new cfg"
  "\<lambda>(lib, cfg, holder, used) env c k st. Some (on_mutex (etcd_Lock lib env) c k st)"
  "\<lambda>(lib, cfg, holder, used) env. on_mutex (etcd_TryLock lib env)"
  "\<lambda>(lib, cfg, holder, used) env. on_mutex (etcd_Unlock lib env)"
  "\<lambda>(lib, cfg, holder, used). etcd_inv cfg holder used"
  "\<lambda>(lib, cfg, holder, used). etcd_taken cfg holder" "\<lambda>(lib, cfg, holder, used). etcd_owns cfg holder"
  by unfold_locales (auto split: prod.splits dest: etcd_lock_step etcd_unlock_step etcd_new_step)

section \<open>Properties\<close>

text \<open>
  C38. Mutual exclusion of the memory locks: from a new provider, however the calls of any number of
  clients interleave, with whatever contexts, no two clients are inside the same key, as long as a
  client releases only what it has locked.
\<close>

theorem memory_exclusion:
  assumes "lock_run (\<lambda>_ _. memory_NewMutex) (\<lambda>_ env _. memory_Lock env) (\<lambda>_ _ _. memory_TryLock) (\<lambda>_ _ _. memory_Unlock)
    () NewMemoryProvider In p"
  shows "exclusive In \<and> (\<forall>(c, k)\<in>In. fst (memory_TryLock k p) = Some ErrLockFailed)"
proof -
  have inv: "exclusive In" "\<forall>(c, k)\<in>In. memory_taken p k" using memory_lock.run_inv [OF _ _ assms] by auto
  have "memory_taken p k \<Longrightarrow> fst (memory_TryLock k p) = Some ErrLockFailed" for k
    by (auto simp: memory_TryLock_def memory_taken_def getLock_def)
  with inv show ?thesis by blast
qed

text \<open>
  Mutual exclusion of the etcd locks, over any client library whose sessions are as documented:
  every lock uses a session of its own, a failed lock leaves no session behind that could hold the
  key, and no two clients are inside the same key.
\<close>

theorem etcd_exclusion:
  assumes "etcd_ok lib holder used" and free: "holder w0 = Map.empty"
    and "lock_run (\<lambda>_. etcd_new cfg) (\<lambda>_ env c k st. Some (on_mutex (etcd_Lock lib env) c k st))
      (\<lambda>_ env. on_mutex (etcd_TryLock lib env)) (\<lambda>_ env. on_mutex (etcd_Unlock lib env)) ()
      (\<lambda>(c, k). etcd_NewMutex cfg k, w0) In st"
  shows "exclusive In \<and> (\<forall>(c, k)\<in>In. \<exists>ss. em_mu (fst st (c, k)) = Some (ss, eKeyPrefix cfg @ k) \<and>
    holder (snd st) (eKeyPrefix cfg @ k) = Some ss)"
proof -
  let ?x = "(lib, cfg, holder, used)"
  let ?s0 = "(\<lambda>(c :: nat, k). etcd_NewMutex cfg k, w0)"
  have run: "lock_run (\<lambda>(lib, cfg, holder, used). etcd_new cfg)
      (\<lambda>(lib, cfg, holder, used) env c k st. Some (on_mutex (etcd_Lock lib env) c k st))
      (\<lambda>(lib, cfg, holder, used) env. on_mutex (etcd_TryLock lib env))
      (\<lambda>(lib, cfg, holder, used) env. on_mutex (etcd_Unlock lib env)) ?x ?s0 In st"
    using assms(3)
  proof induction
    case lr_start
    show ?case by (rule lock_run.lr_start)
  next
    case (lr_new In s c k s')
    show ?case by (rule lock_run.lr_new [OF lr_new.IH lr_new.hyps(2)]) (use lr_new in simp)
  next
    case (lr_lock In s c k env err s' In')
    show ?case by (rule lock_run.lr_lock [OF lr_lock.IH lr_lock.hyps(2) _ lr_lock.hyps(4)]) (use lr_lock in simp)
  next
    case (lr_trylock In s c k env err s' In')
    show ?case by (rule lock_run.lr_trylock [OF lr_trylock.IH lr_trylock.hyps(2) _ lr_trylock.hyps(4)]) (use lr_trylock in simp)
  next
    case (lr_unlock In s c k env err s')
    show ?case by (rule lock_run.lr_unlock [OF lr_unlock.IH lr_unlock.hyps(2)]) (use lr_unlock in simp)
  qed
  have "etcd_inv cfg holder used ?s0" using free by (simp add: etcd_inv_def etcd_NewMutex_def)
  then have "exclusive In \<and> (\<forall>(c, k)\<in>In. etcd_taken cfg holder st k \<and> etcd_owns cfg holder st c k)"
    using etcd_lock.run_inv [OF _ _ run] assms(1) by simp
  then show ?thesis unfolding etcd_owns_def by blast
qed

text \<open>
  The memory lock does not know its owner: an \<^verbatim>\<open>Unlock\<close> through any mutex value of the key frees it
  while another client is inside, and the next \<^verbatim>\<open>TryLock\<close> is granted; the same call is without effect
  on an etcd lock.
\<close>

theorem unlock_of_a_stranger:
  assumes "memory_taken p k" "em_mu m = None"
  shows "fst (memory_Unlock k p) = None \<and> fst (memory_TryLock k (snd (memory_Unlock k p))) = None \<and>
    etcd_Unlock lib env (m, w) = (None, (m, w))"
  using assms by (auto simp: memory_Unlock_def memory_TryLock_def getLock_def memory_taken_def etcd_Unlock_def)

section \<open>Witnesses\<close>

definition demo_provider :: MemoryProvider where
  "demo_provider = [''k'' \<mapsto> \<lparr>full = True, refs = 1\<rparr>]"

lemma demo_memory_run:
  "lock_run (\<lambda>_ _. memory_NewMutex) (\<lambda>_ env _. memory_Lock env) (\<lambda>_ _ _. memory_TryLock) (\<lambda>_ _ _. memory_Unlock)
    () NewMemoryProvider {(0, ''k'')} demo_provider"
proof -
  have "lock_run (\<lambda>_ _. memory_NewMutex) (\<lambda>_ env _. memory_Lock env) (\<lambda>_ _ _. memory_TryLock) (\<lambda>_ _ _. memory_Unlock)
    () NewMemoryProvider {} [''k'' \<mapsto> \<lparr>full = False, refs = 1\<rparr>]"
    by (rule lr_new [OF lr_start, of 0 "''k''"]) (simp_all add: memory_NewMutex_def NewMemoryProvider_def)
  then show ?thesis
    by (rule lr_lock [where c = 0 and k = "''k''" and env = "\<lparr>ctxdone = None, prefer_ctx = False\<rparr>" and err = None])
      (simp_all add: memory_Lock_def getLock_def demo_provider_def)
qed

theorem memory_exclusion_witness:
  "fst (memory_TryLock ''k'' demo_provider) = Some ErrLockFailed"
  using memory_exclusion [OF demo_memory_run] by simp

definition demo_etcd :: "(unit, nat, nat \<times> (string \<rightharpoonup> nat)) etcd_lib" where
  "demo_etcd = \<lparr>NewSession = (\<lambda>_ _ (n, h). (Inr n, (Suc n, h))),
     etLock = (\<lambda>ss p _ (n, h). if h p = None then (None, (n, h(p \<mapsto> ss))) else (Some Canceled, (n, h))),
     etTryLock = (\<lambda>ss p _ (n, h). if h p = None then (None, (n, h(p \<mapsto> ss))) else (Some (ErrNew ''locked''), (n, h))),
     etUnlock = (\<lambda>ss p _ (n, h). (None, (n, if h p = Some ss then h(p := None) else h))),
     sessClose = (\<lambda>ss (n, h). (n, \<lambda>q. if h q = Some ss then None else h q)), ErrLocked = ErrNew ''locked''\<rparr>"

lemma demo_etcd_ok: "etcd_ok demo_etcd snd (\<lambda>w. {..<fst w})"
  by (auto simp: etcd_ok_def demo_etcd_def split: option.splits if_splits)

lemma demo_etcd_run:
  "lock_run (\<lambda>_. etcd_new defaultEtcdConfig) (\<lambda>_ env c k st. Some (on_mutex (etcd_Lock demo_etcd env) c k st))
     (\<lambda>_ env. on_mutex (etcd_TryLock demo_etcd env)) (\<lambda>_ env. on_mutex (etcd_Unlock demo_etcd env)) ()
     (\<lambda>(c, k). etcd_NewMutex defaultEtcdConfig k, (0, Map.empty)) {(1, ''k'')}
     (snd (on_mutex (etcd_TryLock demo_etcd ()) 1 ''k'' (\<lambda>(c, k). etcd_NewMutex defaultEtcdConfig k, (0, Map.empty))))"
  by (rule lr_trylock [OF lr_start, where c = 1 and k = "''k''" and env = "()" and err = None])
    (simp_all add: on_mutex_def etcd_TryLock_def demo_etcd_def etcd_NewMutex_def prod_eq_iff)

theorem etcd_exclusion_witness:
  "\<exists>ss. snd (snd (snd (on_mutex (etcd_TryLock demo_etcd ()) 1 ''k''
     (\<lambda>(c, k). etcd_NewMutex defaultEtcdConfig k, (0, Map.empty))))) (''/dlock/'' @ ''k'') = Some ss"
  using etcd_exclusion [OF demo_etcd_ok _ demo_etcd_run] by (auto simp: defaultEtcdConfig_def)

theorem unlock_of_a_stranger_witness:
  "fst (memory_TryLock ''k'' (snd (memory_Unlock ''k'' demo_provider))) = None"
  using unlock_of_a_stranger [of demo_provider "''k''" "etcd_NewMutex defaultEtcdConfig ''k''" demo_etcd "()" "(0, Map.empty)"]
  by (simp add: memory_taken_def demo_provider_def etcd_NewMutex_def)

end
