(* ===== verification/Single_Run.thy ===== *)
theory Single_Run
  imports Go_Prelude
begin

text \<open>
  \<^verbatim>\<open>common/utils/singleRun.go\<close>: at most one run per key, with waiting, time limits, nested calls
  through the context and recovery of panics.

  A call of \<^verbatim>\<open>SingleRun\<close> is cut where it gives up the lock of its entry: entering, waking up, and
  finishing.  Each part runs under the lock, so a program is a sequence of such parts of its
  goroutines in any order (\<^verbatim>\<open>sr_step\<close>).  A goroutine is the stack of its calls that have not returned.
\<close>

section \<open>The context and the entries\<close>

text \<open>A context as far as \<^verbatim>\<open>SingleRun\<close> reads it: the value under \<^verbatim>\<open>heldLocksKey\<close>, if there is one.\<close>

record hctx =
  heldLocks :: "(string \<rightharpoonup> bool) option"

definition getHeldLocks :: "hctx option \<Rightarrow> (string \<rightharpoonup> bool) option" where
  "getHeldLocks ctx = (case ctx of None \<Rightarrow> None | Some c \<Rightarrow> heldLocks c)"

definition withHeldLock :: "hctx option \<Rightarrow> string \<Rightarrow> hctx" where
  "withHeldLock ctx key =
     (let oldLocks = (case getHeldLocks ctx of None \<Rightarrow> Map.empty | Some m \<Rightarrow> m)
      in \<lparr>heldLocks = Some (oldLocks(key \<mapsto> True))\<rparr>)"

record RunInfo =
  IsRunning :: bool
  StartTime :: int
  RunCount :: int

definition ErrRunning :: goerr where
  "ErrRunning = ErrNew ''process is running''"

definition MustWait :: int where "MustWait = -1"

definition NoWait :: int where "NoWait = 0"

type_synonym Manager = "string \<rightharpoonup> RunInfo"

definition getEntry :: "string \<Rightarrow> Manager \<Rightarrow> RunInfo \<times> Manager" where
  "getEntry key m =
     (case m key of
        Some e \<Rightarrow> (e, m)
      | None \<Rightarrow> let e = \<lparr>IsRunning = False, StartTime = 0, RunCount = 0\<rparr> in (e, m(key \<mapsto> e)))"

definition is_running :: "Manager \<Rightarrow> string \<Rightarrow> bool" where
  "is_running m key \<longleftrightarrow> (\<exists>e. m key = Some e \<and> IsRunning e)"

section \<open>The parts of a call\<close>

definition start_run :: "int \<Rightarrow> RunInfo \<Rightarrow> RunInfo" where
  "start_run now e = e\<lparr>IsRunning := True, StartTime := now, RunCount := wrap64 (RunCount e + 1)\<rparr>"

text \<open>
  A call goes on as a nested run, is refused with the state of the entry, waits, or starts to run;
  a run gets the context that holds the key.
\<close>

datatype entered = Nested hctx | Refused RunInfo | Parked | Started hctx

definition SingleRun_lock :: "hctx option \<Rightarrow> string \<Rightarrow> int \<Rightarrow> int \<Rightarrow> Manager \<Rightarrow> entered \<times> Manager" where
  "SingleRun_lock ctx key waitTime now m =
     (case getEntry key m of (e, m1) \<Rightarrow>
        if IsRunning e then
          if waitTime = NoWait then (Refused e, m1) else (Parked, m1)
        else (Started (withHeldLock ctx key), m1(key \<mapsto> start_run now e)))"

definition SingleRun_enter :: "hctx option \<Rightarrow> string \<Rightarrow> int \<Rightarrow> int \<Rightarrow> Manager \<Rightarrow> entered \<times> Manager" where
  "SingleRun_enter ctx key waitTime now m =
     (case getHeldLocks ctx of
        Some heldMap \<Rightarrow>
          if heldMap key = Some True then (Nested (withHeldLock ctx key), m)
          else SingleRun_lock ctx key waitTime now m
      | None \<Rightarrow> SingleRun_lock ctx key waitTime now m)"

text \<open>A waiter that is woken up looks at its entry again; \<open>timedOut\<close> is the flag its timer sets.\<close>

definition SingleRun_wake :: "hctx option \<Rightarrow> string \<Rightarrow> int \<Rightarrow> bool \<Rightarrow> int \<Rightarrow> Manager \<Rightarrow> entered \<times> Manager" where
  "SingleRun_wake ctx key waitTime timedOut now m =
     (case getEntry key m of (e, m1) \<Rightarrow>
        if waitTime < 0 then
          if IsRunning e then (Parked, m1)
          else (Started (withHeldLock ctx key), m1(key \<mapsto> start_run now e))
        else
          if IsRunning e \<and> \<not> timedOut then (Parked, m1)
          else if timedOut then (Refused e, m1)
          else (Started (withHeldLock ctx key), m1(key \<mapsto> start_run now e)))"

text \<open>How the function of a run ends.  The text of a recovered panic includes the stack, a parameter.\<close>

datatype run_outcome = Returns "goerr option" | Panics string

definition panic_error :: "string \<Rightarrow> string \<Rightarrow> string \<Rightarrow> goerr" where
  "panic_error stack key r = ErrNew (''SingleRun panic [key='' @ key @ '']: '' @ r @ [CHR 0x0A] @ ''Stack: '' @ stack)"

definition SingleRun_finish :: "string \<Rightarrow> string \<Rightarrow> run_outcome \<Rightarrow> Manager \<Rightarrow> (RunInfo \<times> goerr option) \<times> Manager" where
  "SingleRun_finish stack key out m =
     (case getEntry key m of (e, m1) \<Rightarrow>
        ((e, case out of Returns err \<Rightarrow> err | Panics r \<Rightarrow> Some (panic_error stack key r)),
         m1(key \<mapsto> e\<lparr>IsRunning := False\<rparr>)))"

section \<open>Goroutines\<close>

datatype phase = Waiting bool | Running

record frame =
  fkey :: string
  fwait :: int
  fnested :: bool
  fphase :: phase
  fctx :: hctx

text \<open>The context in which the innermost function of a stack runs, above the goroutine's own context.\<close>

fun cur :: "hctx option \<Rightarrow> frame list \<Rightarrow> hctx option" where
  "cur r [] = r"
| "cur r (f # fs) = Some (fctx f)"

definition top_running :: "frame list \<Rightarrow> bool" where
  "top_running fs \<longleftrightarrow> (case fs of [] \<Rightarrow> True | f # _ \<Rightarrow> fphase f = Running)"

text \<open>A panic leaves the nested calls, which do not recover, up to the run that recovers it.\<close>

definition unwind :: "frame list \<Rightarrow> frame list" where
  "unwind fs = dropWhile fnested fs"

record sys =
  mgr :: Manager
  stacks :: "nat \<Rightarrow> frame list"
  root :: "nat \<Rightarrow> hctx option"

definition push :: "nat \<Rightarrow> frame list \<Rightarrow> entered \<Rightarrow> string \<Rightarrow> int \<Rightarrow> Manager \<Rightarrow> sys \<Rightarrow> sys" where
  "push t fs res key w m s =
     s\<lparr>mgr := m, stacks := (stacks s)(t :=
        (case res of
           Nested c \<Rightarrow> \<lparr>fkey = key, fwait = w, fnested = True, fphase = Running, fctx = c\<rparr> # fs
         | Refused _ \<Rightarrow> fs
         | Parked \<Rightarrow> \<lparr>fkey = key, fwait = w, fnested = False, fphase = Waiting False, fctx = \<lparr>heldLocks = None\<rparr>\<rparr> # fs
         | Started c \<Rightarrow> \<lparr>fkey = key, fwait = w, fnested = False, fphase = Running, fctx = c\<rparr> # fs))\<rparr>"

text \<open>
  The steps of goroutine \<open>t\<close>: its innermost function calls \<^verbatim>\<open>SingleRun\<close>; a waiter is woken up (also for
  no reason) and goes on waiting or leaves; its timer fires; its innermost function returns or panics.
\<close>

inductive sr_step :: "sys \<Rightarrow> sys \<Rightarrow> bool" where
  sr_call: "top_running (stacks s t) \<Longrightarrow>
    SingleRun_enter (cur (root s t) (stacks s t)) key w now (mgr s) = (res, m) \<Longrightarrow>
    sr_step s (push t (stacks s t) res key w m s)"
| sr_wake: "stacks s t = f # fs \<Longrightarrow> fphase f = Waiting timedOut \<Longrightarrow>
    SingleRun_wake (cur (root s t) fs) (fkey f) (fwait f) timedOut now (mgr s) = (res, m) \<Longrightarrow> res \<noteq> Parked \<Longrightarrow>
    sr_step s (push t fs res (fkey f) (fwait f) m s)"
| sr_timer: "stacks s t = f # fs \<Longrightarrow> fphase f = Waiting False \<Longrightarrow> fwait f > 0 \<Longrightarrow>
    sr_step s (s\<lparr>stacks := (stacks s)(t := f\<lparr>fphase := Waiting True\<rparr> # fs)\<rparr>)"
| sr_return_nested: "stacks s t = f # fs \<Longrightarrow> fphase f = Running \<Longrightarrow> fnested f \<Longrightarrow>
    sr_step s (s\<lparr>stacks := (stacks s)(t := fs)\<rparr>)"
| sr_return: "stacks s t = f # fs \<Longrightarrow> fphase f = Running \<Longrightarrow> \<not> fnested f \<Longrightarrow>
    SingleRun_finish stk (fkey f) (Returns err) (mgr s) = (r, m) \<Longrightarrow>
    sr_step s (s\<lparr>mgr := m, stacks := (stacks s)(t := fs)\<rparr>)"
| sr_panic: "top_running (stacks s t) \<Longrightarrow> unwind (stacks s t) = f # fs \<Longrightarrow>
    SingleRun_finish stk (fkey f) (Panics txt) (mgr s) = (r, m) \<Longrightarrow>
    sr_step s (s\<lparr>mgr := m, stacks := (stacks s)(t := fs)\<rparr>)"

text \<open>A program starts with goroutines whose contexts hold no key.\<close>

inductive sr_reach :: "sys \<Rightarrow> bool" where
  sr_init: "mgr s = Map.empty \<Longrightarrow> (\<And>t. stacks s t = []) \<Longrightarrow> (\<And>t. getHeldLocks (root s t) = None) \<Longrightarrow> sr_reach s"
| sr_next: "sr_reach s \<Longrightarrow> sr_step s s' \<Longrightarrow> sr_reach s'"

section \<open>Invariant\<close>

definition ctx_held :: "hctx option \<Rightarrow> string \<Rightarrow> bool" where
  "ctx_held ctx k \<longleftrightarrow> (\<exists>m. getHeldLocks ctx = Some m \<and> m k = Some True)"

definition own :: "frame \<Rightarrow> bool" where
  "own f \<longleftrightarrow> fphase f = Running \<and> \<not> fnested f"

text \<open>The keys a goroutine runs, outermost runs only.\<close>

definition runs :: "frame list \<Rightarrow> string list" where
  "runs fs = map fkey (filter own fs)"

fun stack_ok :: "hctx option \<Rightarrow> frame list \<Rightarrow> bool" where
  "stack_ok r [] \<longleftrightarrow> True"
| "stack_ok r (f # fs) \<longleftrightarrow> stack_ok r fs \<and> top_running fs \<and>
     (case fphase f of
        Waiting _ \<Rightarrow> \<not> ctx_held (cur r fs) (fkey f) \<and> \<not> fnested f \<and> fwait f \<noteq> 0
      | Running \<Rightarrow> fctx f = withHeldLock (cur r fs) (fkey f) \<and> (fnested f \<longleftrightarrow> ctx_held (cur r fs) (fkey f)))"

lemma ctx_held_with [simp]: "ctx_held (Some (withHeldLock c key)) k \<longleftrightarrow> k = key \<or> ctx_held c k"
  by (auto simp: ctx_held_def withHeldLock_def getHeldLocks_def Let_def split: option.splits)

lemma ctx_held_iff_runs:
  "stack_ok r fs \<Longrightarrow> top_running fs \<Longrightarrow> ctx_held (cur r fs) k \<longleftrightarrow> ctx_held r k \<or> k \<in> set (runs fs)"
proof (induction fs)
  case Nil
  show ?case by (simp add: runs_def)
next
  case (Cons f fs)
  then have run: "fphase f = Running" by (simp add: top_running_def)
  with Cons show ?case by (auto simp: runs_def own_def)
qed

lemma runs_distinct: "stack_ok r fs \<Longrightarrow> distinct (runs fs)"
proof (induction fs)
  case Nil
  show ?case by (simp add: runs_def)
next
  case (Cons f fs)
  then have "own f \<Longrightarrow> fkey f \<notin> set (runs fs)"
    using ctx_held_iff_runs [of r fs "fkey f"] by (auto simp: own_def split: phase.splits)
  with Cons show ?case by (auto simp: runs_def)
qed

definition sr_inv :: "sys \<Rightarrow> bool" where
  "sr_inv s \<longleftrightarrow> (\<forall>t. getHeldLocks (root s t) = None) \<and> (\<forall>t. stack_ok (root s t) (stacks s t)) \<and>
     (\<forall>k. is_running (mgr s) k \<longleftrightarrow> (\<exists>t. k \<in> set (runs (stacks s t)))) \<and>
     (\<forall>t t' k. k \<in> set (runs (stacks s t)) \<longrightarrow> k \<in> set (runs (stacks s t')) \<longrightarrow> t = t')"

lemma sr_invD:
  assumes "sr_inv s"
  shows "getHeldLocks (root s t) = None" "stack_ok (root s t) (stacks s t)"
    "is_running (mgr s) k \<longleftrightarrow> (\<exists>t. k \<in> set (runs (stacks s t)))"
    "k \<in> set (runs (stacks s t)) \<Longrightarrow> k \<in> set (runs (stacks s t')) \<Longrightarrow> t = t'"
  using assms by (simp_all add: sr_inv_def)

lemma sr_inv_update:
  "sr_inv (s\<lparr>mgr := m, stacks := S\<rparr>) \<longleftrightarrow> (\<forall>t. getHeldLocks (root s t) = None) \<and> (\<forall>t. stack_ok (root s t) (S t)) \<and>
     (\<forall>k. is_running m k \<longleftrightarrow> (\<exists>t. k \<in> set (runs (S t)))) \<and>
     (\<forall>t t' k. k \<in> set (runs (S t)) \<longrightarrow> k \<in> set (runs (S t')) \<longrightarrow> t = t')"
  by (simp add: sr_inv_def)

text \<open>A step changes one stack; its runs stay, gain a key that was not running, or lose one.\<close>

lemma inv_same:
  assumes "sr_inv s" "stack_ok (root s t) fs" "set (runs fs) = set (runs (stacks s t))"
    "\<And>k. is_running m k = is_running (mgr s) k"
  shows "sr_inv (s\<lparr>mgr := m, stacks := (stacks s)(t := fs)\<rparr>)"
proof -
  have "set (runs (((stacks s)(t := fs)) u)) = set (runs (stacks s u))" for u using assms(3) by simp
  then show ?thesis using assms sr_invD [OF assms(1)] by (simp add: sr_inv_def)
qed

lemma inv_add:
  assumes inv: "sr_inv s" and fs: "stack_ok (root s t) fs" "set (runs fs) = insert k (set (runs (stacks s t)))"
    and m: "\<not> is_running (mgr s) k" "\<And>j. is_running m j \<longleftrightarrow> j = k \<or> is_running (mgr s) j"
  shows "sr_inv (s\<lparr>mgr := m, stacks := (stacks s)(t := fs)\<rparr>)"
proof -
  have runs: "j \<in> set (runs (((stacks s)(t := fs)) u)) \<longleftrightarrow> u = t \<and> j = k \<or> j \<in> set (runs (stacks s u))" for j u
    using fs(2) by auto
  have "k \<notin> set (runs (stacks s u))" for u using m(1) sr_invD(3) [OF inv] by blast
  then have "\<forall>u u' j. j \<in> set (runs (((stacks s)(t := fs)) u)) \<longrightarrow> j \<in> set (runs (((stacks s)(t := fs)) u')) \<longrightarrow> u = u'"
    unfolding runs using sr_invD(4) [OF inv] by blast
  moreover have "\<forall>j. is_running m j \<longleftrightarrow> (\<exists>u. j \<in> set (runs (((stacks s)(t := fs)) u)))"
    unfolding runs m(2) sr_invD(3) [OF inv] by blast
  moreover have "\<forall>u. stack_ok (root s u) (((stacks s)(t := fs)) u)" using sr_invD(2) [OF inv] fs(1) by simp
  ultimately show ?thesis unfolding sr_inv_update using sr_invD(1) [OF inv] by blast
qed

lemma inv_remove:
  assumes inv: "sr_inv s" and fs: "stack_ok (root s t) fs" "set (runs fs) = set (runs (stacks s t)) - {k}"
    and k: "k \<in> set (runs (stacks s t))" and m: "\<And>j. is_running m j \<longleftrightarrow> j \<noteq> k \<and> is_running (mgr s) j"
  shows "sr_inv (s\<lparr>mgr := m, stacks := (stacks s)(t := fs)\<rparr>)"
proof -
  have only: "k \<in> set (runs (stacks s u)) \<longleftrightarrow> u = t" for u using k sr_invD(4) [OF inv] by blast
  have runs: "j \<in> set (runs (((stacks s)(t := fs)) u)) \<longleftrightarrow> j \<noteq> k \<and> j \<in> set (runs (stacks s u))" for j u
    using fs(2) only [of u] by auto
  have "\<forall>j. is_running m j \<longleftrightarrow> (\<exists>u. j \<in> set (runs (((stacks s)(t := fs)) u)))"
    unfolding runs m sr_invD(3) [OF inv] by blast
  moreover have "\<forall>u u' j. j \<in> set (runs (((stacks s)(t := fs)) u)) \<longrightarrow> j \<in> set (runs (((stacks s)(t := fs)) u')) \<longrightarrow> u = u'"
    unfolding runs using sr_invD(4) [OF inv] by blast
  moreover have "\<forall>u. stack_ok (root s u) (((stacks s)(t := fs)) u)" using sr_invD(2) [OF inv] fs(1) by simp
  ultimately show ?thesis unfolding sr_inv_update using sr_invD(1) [OF inv] by blast
qed

lemma getEntry_facts:
  assumes "getEntry key m = (e, m1)"
  shows "IsRunning e = is_running m key" "is_running m1 k = is_running m k" "m1 key = Some e"
  using assms by (auto simp: getEntry_def is_running_def Let_def split: option.splits if_splits)

lemma is_running_upd [simp]: "is_running (m(k \<mapsto> e)) j \<longleftrightarrow> (if j = k then IsRunning e else is_running m j)"
  by (simp add: is_running_def)

lemma start_run_running [simp]: "IsRunning (start_run now e)"
  by (simp add: start_run_def)

text \<open>What entering and waking up give.\<close>

lemma enter_cases:
  assumes "SingleRun_enter ctx key w now m = (res, m')"
  shows "ctx_held ctx key \<and> res = Nested (withHeldLock ctx key) \<and> m' = m \<or>
    \<not> ctx_held ctx key \<and>
    (is_running m key \<and> (\<forall>j. is_running m' j = is_running m j) \<and>
       ((\<exists>e. res = Refused e \<and> IsRunning e) \<and> w = 0 \<or> res = Parked \<and> w \<noteq> 0) \<or>
     \<not> is_running m key \<and> res = Started (withHeldLock ctx key) \<and> (\<forall>j. is_running m' j \<longleftrightarrow> j = key \<or> is_running m j))"
proof -
  obtain e m1 where g: "getEntry key m = (e, m1)" by force
  note f = getEntry_facts [OF g]
  show ?thesis
  proof (cases "ctx_held ctx key")
    case True
    then show ?thesis using assms by (auto simp: SingleRun_enter_def ctx_held_def)
  next
    case False
    then have "SingleRun_lock ctx key w now m = (res, m')"
      using assms by (auto simp: SingleRun_enter_def ctx_held_def split: option.splits if_splits)
    then have "(if is_running m key then (if w = 0 then Refused e else Parked, m1)
      else (Started (withHeldLock ctx key), m1(key \<mapsto> start_run now e))) = (res, m')"
      unfolding f(1) [symmetric] by (auto simp: SingleRun_lock_def g NoWait_def)
    then have "if is_running m key then res = (if w = 0 then Refused e else Parked) \<and> m' = m1
      else res = Started (withHeldLock ctx key) \<and> m' = m1(key \<mapsto> start_run now e)" by (simp split: if_splits)
    then show ?thesis using False f(1) by (cases "is_running m key"; cases "w = 0") (simp_all add: f(2))
  qed
qed

lemma wake_cases:
  assumes "SingleRun_wake ctx key w timedOut now m = (res, m')" "res \<noteq> Parked"
  shows "\<not> is_running m key \<and> res = Started (withHeldLock ctx key) \<and> (\<forall>j. is_running m' j \<longleftrightarrow> j = key \<or> is_running m j) \<or>
    timedOut \<and> 0 \<le> w \<and> (\<exists>e. res = Refused e \<and> IsRunning e = is_running m key) \<and> (\<forall>j. is_running m' j = is_running m j)"
proof -
  obtain e m1 where g: "getEntry key m = (e, m1)" by force
  note f = getEntry_facts [OF g]
  have res: "(if is_running m key \<and> (w < 0 \<or> \<not> timedOut) then (Parked, m1)
      else if 0 \<le> w \<and> timedOut then (Refused e, m1)
      else (Started (withHeldLock ctx key), m1(key \<mapsto> start_run now e))) = (res, m')"
    unfolding f(1) [symmetric] using assms(1) by (auto simp: SingleRun_wake_def g split: if_splits)
  show ?thesis
  proof (cases "0 \<le> w \<and> timedOut")
    case True
    then have "res = Refused e" "m' = m1" using res by auto
    then show ?thesis using True f(1) f(2) by simp
  next
    case False
    then have "res = Started (withHeldLock ctx key)" "m' = m1(key \<mapsto> start_run now e)" "\<not> is_running m key"
      using res assms(2) by (auto split: if_splits)
    then show ?thesis using f(2) by simp
  qed
qed

lemma finish_facts:
  assumes "SingleRun_finish stk key out m = (r, m')"
  shows "is_running m' j \<longleftrightarrow> j \<noteq> key \<and> is_running m j"
proof -
  obtain e m1 where g: "getEntry key m = (e, m1)" by force
  have "m' = m1(key \<mapsto> e\<lparr>IsRunning := False\<rparr>)" using assms by (simp add: SingleRun_finish_def g)
  then show ?thesis using getEntry_facts(2) [OF g] by simp
qed

lemma runs_Cons: "runs (f # fs) = (if own f then [fkey f] else []) @ runs fs"
  by (simp add: runs_def)

lemma stack_ok_tl: "stack_ok r (f # fs) \<Longrightarrow> stack_ok r fs \<and> top_running fs"
  by simp

lemma unwind_facts:
  assumes "stack_ok r fs" "top_running fs" "unwind fs = f # fs'"
  shows "stack_ok r (f # fs') \<and> own f \<and> set (runs fs) = insert (fkey f) (set (runs fs'))"
  using assms
proof (induction fs)
  case Nil
  then show ?case by (simp add: unwind_def)
next
  case (Cons g gs)
  show ?case
  proof (cases "fnested g")
    case True
    then have "\<not> own g" "unwind gs = f # fs'" using Cons.prems(3) by (simp_all add: own_def unwind_def)
    then show ?thesis using Cons.IH stack_ok_tl [OF Cons.prems(1)] by (simp add: runs_Cons)
  next
    case False
    then have "f = g" "fs' = gs" "own g" using Cons.prems(2,3) by (auto simp: unwind_def own_def top_running_def)
    then show ?thesis using Cons.prems(1) by (simp add: runs_Cons)
  qed
qed

lemma sr_step_inv:
  assumes "sr_step s s'" "sr_inv s"
  shows "sr_inv s'"
  using assms
proof cases
  case (sr_call t key w now res m)
  let ?c = "cur (root s t) (stacks s t)"
  note ok = sr_invD(2) [OF assms(2), of t]
  from enter_cases [OF sr_call(3)] show ?thesis
  proof (elim disjE conjE exE)
    assume "ctx_held ?c key" "res = Nested (withHeldLock ?c key)" "m = mgr s"
    then show ?thesis unfolding sr_call(1) push_def
      by (intro inv_same [OF assms(2)]) (use ok sr_call(2) in \<open>simp_all add: runs_Cons own_def\<close>)
  next
    fix e assume "res = Refused e" "\<forall>j. is_running m j = is_running (mgr s) j"
    then show ?thesis unfolding sr_call(1) push_def by (intro inv_same [OF assms(2)]) (use ok in simp_all)
  next
    assume "\<not> ctx_held ?c key" "res = Parked" "w \<noteq> 0" "\<forall>j. is_running m j = is_running (mgr s) j"
    then show ?thesis unfolding sr_call(1) push_def
      by (intro inv_same [OF assms(2)]) (use ok sr_call(2) in \<open>simp_all add: runs_Cons own_def\<close>)
  next
    assume "\<not> ctx_held ?c key" "\<not> is_running (mgr s) key" "res = Started (withHeldLock ?c key)"
      "\<forall>j. is_running m j \<longleftrightarrow> j = key \<or> is_running (mgr s) j"
    then show ?thesis unfolding sr_call(1) push_def
      by (intro inv_add [OF assms(2), of _ _ key]) (use ok sr_call(2) in \<open>simp_all add: runs_Cons own_def\<close>)
  qed
next
  case (sr_wake t f fs timedOut now res m)
  let ?c = "cur (root s t) fs"
  have ok: "stack_ok (root s t) (f # fs)" using sr_invD(2) [OF assms(2), of t] sr_wake(2) by simp
  have same: "runs (f # fs) = runs fs" using sr_wake(3) by (simp add: runs_Cons own_def)
  from wake_cases [OF sr_wake(4,5)] show ?thesis
  proof (elim disjE conjE exE)
    assume "\<not> is_running (mgr s) (fkey f)" "res = Started (withHeldLock ?c (fkey f))"
      "\<forall>j. is_running m j \<longleftrightarrow> j = fkey f \<or> is_running (mgr s) j"
    then show ?thesis unfolding sr_wake(1) push_def
      by (intro inv_add [OF assms(2), of _ _ "fkey f"]) (use ok sr_wake(2,3) same in \<open>simp_all add: runs_Cons own_def\<close>)
  next
    fix e assume "res = Refused e" "\<forall>j. is_running m j = is_running (mgr s) j"
    then show ?thesis unfolding sr_wake(1) push_def
      by (intro inv_same [OF assms(2)]) (use ok same sr_wake(2) in simp_all)
  qed
next
  case (sr_timer t f fs)
  have "sr_inv (s\<lparr>mgr := mgr s, stacks := (stacks s)(t := f\<lparr>fphase := Waiting True\<rparr> # fs)\<rparr>)"
    using sr_invD(2) [OF assms(2), of t] sr_timer(2,3)
    by (intro inv_same [OF assms(2)]) (simp_all add: runs_Cons own_def)
  then show ?thesis using sr_timer(1) by simp
next
  case (sr_return_nested t f fs)
  have "sr_inv (s\<lparr>mgr := mgr s, stacks := (stacks s)(t := fs)\<rparr>)"
    using sr_invD(2) [OF assms(2), of t] sr_return_nested(2,4)
    by (intro inv_same [OF assms(2)]) (simp_all add: runs_Cons own_def)
  then show ?thesis using sr_return_nested(1) by simp
next
  case (sr_return t f fs stk err r m)
  note ok = sr_invD(2) [OF assms(2), of t, unfolded sr_return(2)]
  show ?thesis unfolding sr_return(1)
    by (rule inv_remove [OF assms(2), of _ _ "fkey f"])
      (use ok runs_distinct [OF ok] sr_return(2-4) finish_facts [OF sr_return(5)] in \<open>simp_all add: runs_Cons own_def\<close>)
next
  case (sr_panic t f fs stk tx r m)
  note u = unwind_facts [OF sr_invD(2) [OF assms(2), of t] sr_panic(2,3)]
  have "fkey f \<notin> set (runs fs)" using runs_distinct [of "root s t" "f # fs"] u by (simp add: runs_Cons)
  then show ?thesis unfolding sr_panic(1)
    by (intro inv_remove [OF assms(2), of _ _ "fkey f"])
      (use u stack_ok_tl [OF conjunct1 [OF u]] finish_facts [OF sr_panic(4)] in simp_all)
qed

lemma sr_reach_inv: "sr_reach s \<Longrightarrow> sr_inv s"
proof (induction rule: sr_reach.induct)
  case (sr_init s)
  then show ?case by (simp add: sr_inv_def is_running_def runs_def)
next
  case (sr_next s s')
  then show ?case by (simp add: sr_step_inv)
qed

lemma ctx_held_root: "getHeldLocks r = None \<Longrightarrow> \<not> ctx_held r k"
  by (simp add: ctx_held_def)

lemma running_in_runs:
  assumes "stack_ok r fs" "getHeldLocks r = None" "f \<in> set fs" "fphase f = Running"
  shows "fkey f \<in> set (runs fs)"
  using assms
proof (induction fs)
  case (Cons g gs)
  show ?case
  proof (cases "f \<in> set gs")
    case True
    then show ?thesis using Cons by (simp add: runs_Cons)
  next
    case False
    then have [simp]: "g = f" using Cons.prems(3) by simp
    show ?thesis
      using Cons.prems ctx_held_iff_runs [of r gs "fkey f"] ctx_held_root [OF Cons.prems(2)] by (auto simp: runs_Cons own_def)
  qed
qed simp

lemma unwind_recovers:
  assumes "stack_ok r fs" "getHeldLocks r = None" "top_running fs" "fs \<noteq> []"
  shows "\<exists>f fs'. unwind fs = f # fs'"
proof -
  obtain g gs where fs: "fs = g # gs" using assms(4) by (cases fs) auto
  then have "fkey g \<in> set (runs fs)" using assms by (intro running_in_runs) (auto simp: top_running_def)
  then obtain f where "f \<in> set fs" "\<not> fnested f" by (auto simp: runs_def own_def)
  then have "unwind fs \<noteq> []" by (auto simp: unwind_def dropWhile_eq_Nil_conv)
  then show ?thesis by (cases "unwind fs") auto
qed

lemma all_running: "stack_ok r fs \<Longrightarrow> top_running fs \<Longrightarrow> f \<in> set fs \<Longrightarrow> fphase f = Running"
  by (induction fs) (auto simp: top_running_def)

lemma waiting_not_run:
  assumes "stack_ok r fs" "f \<in> set fs" "fphase f = Waiting b"
  shows "fkey f \<notin> set (runs fs)"
proof -
  obtain g gs where fs: "fs = g # gs" using assms(2) by (cases fs) auto
  then have "f = g" using assms all_running [of r gs f] by auto
  then show ?thesis using assms fs ctx_held_iff_runs [of r gs "fkey f"] by (simp add: runs_Cons own_def)
qed

section \<open>Properties\<close>


text \<open>
  No wake-up is lost: a waiter whose key is not running, or whose time is up, leaves its wait when
  it looks again; while it has to wait on, another goroutine is running its key.
\<close>

theorem single_run_progress:
  assumes "sr_reach s" "stacks s t = f # fs" "fphase f = Waiting b"
  shows "(\<not> is_running (mgr s) (fkey f) \<or> b \<and> 0 < fwait f \<longrightarrow>
      fst (SingleRun_wake (cur (root s t) fs) (fkey f) (fwait f) b now (mgr s)) \<noteq> Parked) \<and>
    (is_running (mgr s) (fkey f) \<longrightarrow> (\<exists>u. u \<noteq> t \<and> fkey f \<in> set (runs (stacks s u))))"
proof -
  note inv = sr_reach_inv [OF assms(1)]
  obtain e m1 where g: "getEntry (fkey f) (mgr s) = (e, m1)" by force
  have "fkey f \<notin> set (runs (stacks s t))"
    using sr_invD(2) [OF inv, of t] ctx_held_iff_runs [of "root s t" fs "fkey f"] assms(2,3)
    by (auto simp: runs_Cons own_def)
  then have "is_running (mgr s) (fkey f) \<longrightarrow> (\<exists>u. u \<noteq> t \<and> fkey f \<in> set (runs (stacks s u)))"
    using sr_invD(3) [OF inv] by metis
  moreover have "\<not> is_running (mgr s) (fkey f) \<or> b \<and> 0 < fwait f \<longrightarrow>
      fst (SingleRun_wake (cur (root s t) fs) (fkey f) (fwait f) b now (mgr s)) \<noteq> Parked"
    using getEntry_facts(1) [OF g] by (auto simp: SingleRun_wake_def g)
  ultimately show ?thesis by blast
qed

text \<open>
  A panic in a function, also in a nested call that does not recover itself, is recovered by the run
  around it: it becomes an error that names the key, and the key is free again.
\<close>

theorem single_run_recovers:
  assumes "sr_reach s" "top_running (stacks s t)" "stacks s t \<noteq> []"
  shows "\<exists>f fs. unwind (stacks s t) = f # fs \<and>
    (\<exists>info m. SingleRun_finish stk (fkey f) (Panics r) (mgr s) = ((info, Some (panic_error stk (fkey f) r)), m) \<and>
       IsRunning info \<and> \<not> is_running m (fkey f))"
proof -
  note inv = sr_reach_inv [OF assms(1)]
  obtain f fs where u: "unwind (stacks s t) = f # fs"
    using unwind_recovers [OF sr_invD(2,1) [OF inv, of t] assms(2,3)] by blast
  have "fkey f \<in> set (runs (stacks s t))" using unwind_facts [OF sr_invD(2) [OF inv] assms(2) u] by simp
  then have run: "is_running (mgr s) (fkey f)" using sr_invD(3) [OF inv] by blast
  obtain e m1 where g: "getEntry (fkey f) (mgr s) = (e, m1)" by force
  show ?thesis using u run getEntry_facts(1) [OF g] by (simp add: SingleRun_finish_def g)
qed

text \<open>
  A waiter with a time limit whose timer fires after the run it waits for has ended, and before it
  looks again, is told that the process is running although nothing runs.
\<close>

theorem timeout_after_the_run:
  assumes "\<not> is_running m key" "0 < waitTime"
  shows "\<exists>e m'. SingleRun_wake ctx key waitTime True now m = (Refused e, m') \<and> \<not> IsRunning e"
proof -
  obtain e m1 where g: "getEntry key m = (e, m1)" by force
  show ?thesis using assms getEntry_facts(1) [OF g] by (simp add: SingleRun_wake_def g)
qed

section \<open>Witnesses\<close>

definition demo_sys :: sys where
  "demo_sys = \<lparr>mgr = Map.empty, stacks = (\<lambda>_. []), root = (\<lambda>_. None)\<rparr>"

definition demo_info :: RunInfo where
  "demo_info = \<lparr>IsRunning = True, StartTime = 7, RunCount = 1\<rparr>"

definition demo_frame :: frame where
  "demo_frame = \<lparr>fkey = ''k'', fwait = 0, fnested = False, fphase = Running, fctx = \<lparr>heldLocks = Some [''k'' \<mapsto> True]\<rparr>\<rparr>"

definition sr_demo_run :: sys where
  "sr_demo_run = demo_sys\<lparr>mgr := [''k'' \<mapsto> demo_info], stacks := (\<lambda>_. [])(0 := [demo_frame])\<rparr>"

lemma sr_demo_reach: "sr_reach sr_demo_run"
proof -
  have start: "sr_reach demo_sys" by (rule sr_init) (simp_all add: demo_sys_def getHeldLocks_def)
  have "SingleRun_enter (cur (root demo_sys 0) (stacks demo_sys 0)) ''k'' NoWait 7 (mgr demo_sys) =
      (Started \<lparr>heldLocks = Some [''k'' \<mapsto> True]\<rparr>, [''k'' \<mapsto> demo_info])"
    by (simp add: demo_sys_def SingleRun_enter_def SingleRun_lock_def getHeldLocks_def getEntry_def withHeldLock_def
        start_run_def demo_info_def wrap64_id int64_defs Let_def)
  from sr_call [OF _ this] have "sr_step demo_sys sr_demo_run"
    by (simp add: demo_sys_def sr_demo_run_def demo_frame_def push_def top_running_def NoWait_def)
  with start show ?thesis by (rule sr_next)
qed

definition demo_wait :: sys where
  "demo_wait = push 1 [] Parked ''k'' MustWait [''k'' \<mapsto> demo_info] sr_demo_run"

lemma sr_demo_reach_wait: "sr_reach demo_wait"
proof -
  have "SingleRun_enter (cur (root sr_demo_run 1) (stacks sr_demo_run 1)) ''k'' MustWait 8 (mgr sr_demo_run) =
      (Parked, [''k'' \<mapsto> demo_info])"
    by (simp add: sr_demo_run_def demo_sys_def SingleRun_enter_def SingleRun_lock_def getHeldLocks_def getEntry_def
        demo_info_def NoWait_def MustWait_def)
  from sr_call [OF _ this] have "sr_step sr_demo_run demo_wait"
    by (simp add: demo_wait_def sr_demo_run_def top_running_def)
  with sr_demo_reach show ?thesis by (rule sr_next)
qed


theorem single_run_progress_witness:
  "\<exists>u. u \<noteq> 1 \<and> ''k'' \<in> set (runs (stacks demo_wait u))"
  using single_run_progress [OF sr_demo_reach_wait, of 1 _ "[]" False 9]
  by (simp add: demo_wait_def push_def is_running_def demo_info_def)

theorem single_run_recovers_witness:
  "\<exists>info m. SingleRun_finish [] ''k'' (Panics ''x'') (mgr sr_demo_run) = ((info, Some (panic_error [] ''k'' ''x'')), m) \<and>
     \<not> is_running m ''k''"
  using single_run_recovers [OF sr_demo_reach, of 0 "[]" "''x''"]
  by (auto simp: sr_demo_run_def top_running_def unwind_def demo_frame_def)

theorem timeout_after_the_run_witness:
  "\<exists>e m'. SingleRun_wake None ''k'' 5 True 9 Map.empty = (Refused e, m') \<and> \<not> IsRunning e"
  using timeout_after_the_run [of Map.empty "''k''" 5] by (simp add: is_running_def)

end
