(* ===== verification/Text_Encoding.thy ===== *)
theory Text_Encoding
  imports Go_Prelude
begin

text \<open>
  The encodings of Go's standard library that the utilities use: \<^verbatim>\<open>encoding/hex\<close>,
  \<^verbatim>\<open>encoding/base64\<close> (\<^verbatim>\<open>StdEncoding\<close>) and the decimal conversions of \<^verbatim>\<open>strconv\<close>, with the round
  trips between the two directions of each.
\<close>

section \<open>Hexadecimal\<close>

definition hex_digit :: "nat \<Rightarrow> char" where
  "hex_digit n = ''0123456789abcdef'' ! n"

definition hex_value :: "char \<Rightarrow> nat option" where
  "hex_value c =
     (let n = of_char c in
      if 48 \<le> n \<and> n \<le> 57 then Some (n - 48)
      else if 97 \<le> n \<and> n \<le> 102 then Some (n - 87)
      else if 65 \<le> n \<and> n \<le> 70 then Some (n - 55) else None)"

fun hex_EncodeToString :: "string \<Rightarrow> string" where
  "hex_EncodeToString [] = []"
| "hex_EncodeToString (c # cs) = hex_digit (of_char c div 16) # hex_digit (of_char c mod 16) # hex_EncodeToString cs"

fun hex_DecodeString :: "string \<Rightarrow> string option" where
  "hex_DecodeString [] = Some []"
| "hex_DecodeString [c] = None"
| "hex_DecodeString (c # d # cs) =
     (case (hex_value c, hex_value d) of
        (Some a, Some b) \<Rightarrow> map_option (\<lambda>r. char_of (16 * a + b) # r) (hex_DecodeString cs)
      | _ \<Rightarrow> None)"

lemma hex_value_digit: "n < 16 \<Longrightarrow> hex_value (hex_digit n) = Some n"
proof -
  have "\<forall>n\<in>set [0..<16]. hex_value (hex_digit n) = Some n" by code_simp
  then show "n < 16 \<Longrightarrow> hex_value (hex_digit n) = Some n" by simp
qed

lemma hex_roundtrip: "hex_DecodeString (hex_EncodeToString s) = Some s"
proof (induction s)
  case (Cons c s)
  have "of_char c div 16 < (16 :: nat)" using nat_of_char_less_256 [of c] by (simp add: less_mult_imp_div_less)
  then show ?case using Cons by (simp add: hex_value_digit)
qed simp

section \<open>Base64\<close>

text \<open>The alphabet: upper case, lower case, decimal digits, plus and slash.\<close>

definition b64_digit :: "nat \<Rightarrow> char" where
  "b64_digit n =
     char_of (if n < 26 then n + 65 else if n < 52 then n + 71 else if n < 62 then n - 4 else if n = 62 then 43 else 47)"

definition b64_value :: "char \<Rightarrow> nat option" where
  "b64_value c =
     (let n = of_char c in
      if 65 \<le> n \<and> n \<le> 90 then Some (n - 65)
      else if 97 \<le> n \<and> n \<le> 122 then Some (n - 71)
      else if 48 \<le> n \<and> n \<le> 57 then Some (n + 4)
      else if n = 43 then Some 62 else if n = 47 then Some 63 else None)"

fun base64_EncodeToString :: "string \<Rightarrow> string" where
  "base64_EncodeToString [] = []"
| "base64_EncodeToString [a] =
     [b64_digit (of_char a div 4), b64_digit (of_char a mod 4 * 16), CHR ''='', CHR ''='']"
| "base64_EncodeToString [a, b] =
     [b64_digit (of_char a div 4), b64_digit (of_char a mod 4 * 16 + of_char b div 16),
      b64_digit (of_char b mod 16 * 4), CHR ''='']"
| "base64_EncodeToString (a # b # c # s) =
     b64_digit (of_char a div 4) # b64_digit (of_char a mod 4 * 16 + of_char b div 16) #
     b64_digit (of_char b mod 16 * 4 + of_char c div 64) # b64_digit (of_char c mod 64) # base64_EncodeToString s"

text \<open>
  Decoding skips carriage returns and line feeds, takes four digits at a time and allows padding in the
  last group only; the unused bits of the last digit are not checked.
\<close>

fun b64_quads :: "string \<Rightarrow> string option" where
  "b64_quads [] = Some []"
| "b64_quads (p # q # r # s # rest) =
     (case (b64_value p, b64_value q) of
        (Some a, Some b) \<Rightarrow>
          if r = CHR ''='' then
            if s = CHR ''='' \<and> rest = [] then Some [char_of (a * 4 + b div 16)] else None
          else (case b64_value r of
             None \<Rightarrow> None
           | Some c \<Rightarrow>
               if s = CHR ''='' then
                 if rest = [] then Some [char_of (a * 4 + b div 16), char_of (b mod 16 * 16 + c div 4)] else None
               else (case b64_value s of
                  None \<Rightarrow> None
                | Some d \<Rightarrow>
                    map_option (\<lambda>t. char_of (a * 4 + b div 16) # char_of (b mod 16 * 16 + c div 4) # char_of (c mod 4 * 64 + d) # t)
                      (b64_quads rest)))
      | _ \<Rightarrow> None)"
| "b64_quads _ = None"

definition base64_DecodeString :: "string \<Rightarrow> string option" where
  "base64_DecodeString s = b64_quads (filter (\<lambda>c. of_char c \<notin> {10, 13 :: nat}) s)"

lemma b64_digit_props:
  assumes "n < 64"
  shows "b64_value (b64_digit n) = Some n" "b64_digit n \<noteq> CHR ''=''" "of_char (b64_digit n) \<noteq> (10 :: nat)"
    "of_char (b64_digit n) \<noteq> (13 :: nat)"
proof -
  have ord: "of_char (b64_digit n) = (if n < 26 then n + 65 else if n < 52 then n + 71 else if n < 62 then n - 4 else if n = 62 then 43 else 47)"
    using assms by (simp add: b64_digit_def)
  show "b64_value (b64_digit n) = Some n" using assms by (auto simp: b64_value_def Let_def ord)
  have "of_char (b64_digit n) \<noteq> (61 :: nat)" using assms by (auto simp: ord)
  then show "b64_digit n \<noteq> CHR ''=''" by auto
  show "of_char (b64_digit n) \<noteq> (10 :: nat)" "of_char (b64_digit n) \<noteq> (13 :: nat)" using assms by (auto simp: ord)
qed

text \<open>Splitting three bytes into four digits and putting them together again.\<close>

lemma sixbit:
  fixes a b c :: nat
  assumes "a < 256" "b < 256" "c < 256"
  shows "a div 4 < 64" "a mod 4 * 16 < 64" "a mod 4 * 16 + b div 16 < 64" "b mod 16 * 4 < 64" "b mod 16 * 4 + c div 64 < 64"
    "a div 4 * 4 + a mod 4 * 16 div 16 = a" "a div 4 * 4 + (a mod 4 * 16 + b div 16) div 16 = a"
    "(a mod 4 * 16 + b div 16) mod 16 * 16 + b mod 16 * 4 div 4 = b"
    "(a mod 4 * 16 + b div 16) mod 16 * 16 + (b mod 16 * 4 + c div 64) div 4 = b"
    "(b mod 16 * 4 + c div 64) mod 4 * 64 + c mod 64 = c"
proof -
  have d: "a div 4 < 64" "b div 16 < 16" "c div 64 < 4" using assms by (simp_all add: less_mult_imp_div_less)
  have m: "a mod 4 < 4" "b mod 16 < 16" by simp_all
  show "a div 4 < 64" "a mod 4 * 16 < 64" "a mod 4 * 16 + b div 16 < 64" "b mod 16 * 4 < 64" "b mod 16 * 4 + c div 64 < 64"
    using d m by linarith+
  have s: "(x * 16 + y) div 16 = x" "(x * 16 + y) mod 16 = y" if "y < 16" for x y :: nat using that by simp_all
  have t: "(x * 4 + y) div 4 = x" "(x * 4 + y) mod 4 = y" if "y < 4" for x y :: nat using that by simp_all
  show "a div 4 * 4 + a mod 4 * 16 div 16 = a" "a div 4 * 4 + (a mod 4 * 16 + b div 16) div 16 = a"
    using s(1) [OF d(2)] by simp_all
  show "(a mod 4 * 16 + b div 16) mod 16 * 16 + b mod 16 * 4 div 4 = b"
    "(a mod 4 * 16 + b div 16) mod 16 * 16 + (b mod 16 * 4 + c div 64) div 4 = b"
    unfolding s(2) [OF d(2)] t(1) [OF d(3)] by simp_all
  show "(b mod 16 * 4 + c div 64) mod 4 * 64 + c mod 64 = c" unfolding t(2) [OF d(3)] by simp
qed

lemma base64_quads_roundtrip: "b64_quads (base64_EncodeToString s) = Some s"
proof (induction s rule: base64_EncodeToString.induct)
  case (2 a)
  note x = sixbit [of "of_char a" 0 0, OF nat_of_char_less_256]
  show ?case by (simp add: b64_digit_props x del: mult_div_mod_eq)
next
  case (3 a b)
  note x = sixbit [of "of_char a" "of_char b" 0, OF nat_of_char_less_256 nat_of_char_less_256]
  show ?case
    by (simp only: base64_EncodeToString.simps b64_quads.simps b64_digit_props x char_of_char option.case prod.case if_False)
      simp
next
  case (4 a b c s)
  note x = sixbit [OF nat_of_char_less_256 [of a] nat_of_char_less_256 [of b] nat_of_char_less_256 [of c]]
  have "of_char c mod 64 < (64 :: nat)" by simp
  then show ?case
    by (simp only: base64_EncodeToString.simps b64_quads.simps b64_digit_props x char_of_char option.case prod.case if_False 4 option.map)
qed simp

lemma base64_no_newline: "filter (\<lambda>c. of_char c \<notin> {10, 13 :: nat}) (base64_EncodeToString s) = base64_EncodeToString s"
proof (induction s rule: base64_EncodeToString.induct)
  case (2 a)
  show ?case using sixbit [of "of_char a" 0 0] by (simp add: b64_digit_props)
next
  case (3 a b)
  show ?case using sixbit [of "of_char a" "of_char b" 0] by (simp add: b64_digit_props)
next
  case (4 a b c s)
  show ?case using sixbit [of "of_char a" "of_char b" "of_char c"] 4 by (simp add: b64_digit_props)
qed simp

lemma base64_roundtrip: "base64_DecodeString (base64_EncodeToString s) = Some s"
  unfolding base64_DecodeString_def base64_no_newline by (rule base64_quads_roundtrip)

section \<open>Decimal numbers\<close>

text \<open>The two reasons for which \<^verbatim>\<open>strconv\<close> refuses a number.\<close>

datatype numerr = ErrSyntax | ErrRange

definition digit_value :: "char \<Rightarrow> nat option" where
  "digit_value c = (let n = of_char c in if 48 \<le> n \<and> n \<le> 57 then Some (n - 48) else None)"

text \<open>Reading digits up to the largest value \<open>mx\<close>; the first character that is wrong decides.\<close>

fun read_digits :: "nat \<Rightarrow> nat \<Rightarrow> string \<Rightarrow> numerr + nat" where
  "read_digits mx n [] = Inr n"
| "read_digits mx n (c # cs) =
     (case digit_value c of
        None \<Rightarrow> Inl ErrSyntax
      | Some d \<Rightarrow> if n * 10 + d > mx then Inl ErrRange else read_digits mx (n * 10 + d) cs)"

definition ParseUint :: "string \<Rightarrow> nat \<Rightarrow> numerr + nat" where
  "ParseUint s bits = (if s = [] then Inl ErrSyntax else read_digits (2 ^ bits - 1) 0 s)"

definition ParseInt :: "string \<Rightarrow> nat \<Rightarrow> numerr + int" where
  "ParseInt s bits =
     (case s of
        [] \<Rightarrow> Inl ErrSyntax
      | c # cs \<Rightarrow>
          let neg = (c = CHR ''-''); rest = (if c = CHR ''-'' \<or> c = CHR ''+'' then cs else s)
          in case ParseUint rest bits of
               Inl e \<Rightarrow> Inl e
             | Inr un \<Rightarrow>
                 if \<not> neg \<and> un \<ge> 2 ^ (bits - 1) then Inl ErrRange
                 else if neg \<and> un > 2 ^ (bits - 1) then Inl ErrRange
                 else Inr (if neg then - int un else int un))"

lemma read_digits_append:
  "read_digits mx n (xs @ ys) = (case read_digits mx n xs of Inl e \<Rightarrow> Inl e | Inr m \<Rightarrow> read_digits mx m ys)"
  by (induction xs arbitrary: n) (auto split: option.splits)

lemma digit_value_digit: "d < 10 \<Longrightarrow> digit_value (char_of (48 + d)) = Some d"
  by (simp add: digit_value_def Let_def)

lemma read_nat_digits: "m \<le> mx \<Longrightarrow> read_digits mx 0 (nat_digits m) = Inr m"
proof (induction m rule: nat_digits.induct)
  case (1 m)
  show ?case
  proof (cases "m < 10")
    case True
    then show ?thesis using 1 by (subst nat_digits.simps) (simp add: digit_value_digit)
  next
    case False
    then have "read_digits mx 0 (nat_digits (m div 10)) = Inr (m div 10)" using 1 by (simp add: div_le_dividend order_trans)
    moreover have "m div 10 * 10 + m mod 10 = m" by simp
    ultimately show ?thesis
      using False 1(2) by (subst nat_digits.simps) (simp add: read_digits_append digit_value_digit)
  qed
qed

lemma nat_digits_ne [simp]: "nat_digits n \<noteq> []"
  by (subst nat_digits.simps) simp

lemma hd_nat_digits: "\<exists>d < 10 :: nat. hd (nat_digits n) = char_of (48 + d)"
proof (induction n rule: nat_digits.induct)
  case (1 n)
  show ?case
  proof (cases "n < 10")
    case True
    then show ?thesis by (subst nat_digits.simps) auto
  next
    case False
    then show ?thesis using 1 by (subst nat_digits.simps) (simp add: hd_append)
  qed
qed

lemma nat_digits_no_sign: "hd (nat_digits n) \<noteq> CHR ''-''" "hd (nat_digits n) \<noteq> CHR ''+''"
proof -
  obtain d :: nat where d: "d < 10" "hd (nat_digits n) = char_of (48 + d)" using hd_nat_digits by blast
  then have "of_char (hd (nat_digits n)) = 48 + d" by simp
  then show "hd (nat_digits n) \<noteq> CHR ''-''" "hd (nat_digits n) \<noteq> CHR ''+''" by auto
qed

lemma ParseUint_digits: "v < 2 ^ bits \<Longrightarrow> ParseUint (nat_digits v) bits = Inr v"
  by (simp add: ParseUint_def read_nat_digits)

text \<open>What is printed is read back, for every width.\<close>

lemma ParseInt_FormatInt:
  assumes "0 < bits" "- (2 ^ (bits - 1)) \<le> v" "v < 2 ^ (bits - 1)"
  shows "ParseInt (FormatInt v) bits = Inr v"
proof -
  have pow: "(2 :: int) ^ (bits - 1) = int (2 ^ (bits - 1))" "(2 :: nat) ^ (bits - 1) < 2 ^ bits" using assms(1) by simp_all
  show ?thesis
  proof (cases "v < 0")
    case True
    then have le: "nat (- v) \<le> 2 ^ (bits - 1)" using assms(2) by (simp add: nat_le_iff pow(1))
    then have "ParseUint (nat_digits (nat (- v))) bits = Inr (nat (- v))" using pow(2) by (intro ParseUint_digits) linarith
    then show ?thesis using True le by (simp add: FormatInt_def ParseInt_def)
  next
    case False
    then have less: "nat v < 2 ^ (bits - 1)" using assms(3) by (simp add: nat_less_iff pow(1))
    then have u: "ParseUint (nat_digits (nat v)) bits = Inr (nat v)" using pow(2) by (intro ParseUint_digits) linarith
    obtain c cs where cs: "nat_digits (nat v) = c # cs" by (cases "nat_digits (nat v)") auto
    have "c \<noteq> CHR ''-''" "c \<noteq> CHR ''+''" using nat_digits_no_sign [of "nat v"] by (simp_all add: cs)
    then show ?thesis using False less u by (simp add: FormatInt_def ParseInt_def cs)
  qed
qed

end
