(* ===== verification/Encry.thy ===== *)
theory Encry
  imports Text_Encoding
begin

text \<open>
  \<^verbatim>\<open>common/utils/encry.go\<close>: the helpers around hashing, encryption, password hashes and tokens.  The
  primitives (dongle, \<^verbatim>\<open>crypto\<close>, bcrypt, scrypt, JWT) are parameters; what the file adds, and what is
  modelled, are its checks, the text encodings, the layout of a scrypt hash, the choice of key formats
  and the claims it fills in.  Random bytes are read from an oracle indexed by a tick.
\<close>

section \<open>The libraries\<close>

datatype aes_mode = CBC | GCM

record aes_cipher =
  aesMode :: aes_mode
  aesKey :: string
  aesIV :: string
  aesNonce :: string

record jwt_times =
  IssuedAt :: int
  NotBefore :: int
  ExpiresAt :: int

record jwt_claims =
  UserID :: string
  Username :: string
  Roles :: "string list"
  Extra :: "string \<rightharpoonup> string"
  Registered :: jwt_times

datatype rsa_parse = NotRSA | IsRSA string

record enc_lib =
  hash_hex :: "string \<Rightarrow> string \<Rightarrow> string"
  hmac_sha256 :: "string \<Rightarrow> string \<Rightarrow> string"
  aes_encrypt :: "aes_cipher \<Rightarrow> string \<Rightarrow> goerr + string"
  aes_decrypt :: "aes_cipher \<Rightarrow> string \<Rightarrow> goerr + string"
  rand_bytes :: "tick \<Rightarrow> nat \<Rightarrow> goerr + string"
  pem_decode :: "string \<Rightarrow> (string \<times> string) option"
  x509_parse :: "string \<Rightarrow> string \<Rightarrow> goerr + rsa_parse"
  rsa_public :: "string \<Rightarrow> string"
  oaep_encrypt :: "string \<Rightarrow> string \<Rightarrow> goerr + string"
  oaep_decrypt :: "string \<Rightarrow> string \<Rightarrow> goerr + string"
  bcrypt_generate :: "string \<Rightarrow> goerr + string"
  bcrypt_compare :: "string \<Rightarrow> string \<Rightarrow> goerr option"
  scrypt_Key :: "string \<Rightarrow> string \<Rightarrow> goerr + string"
  jwt_sign :: "jwt_claims \<Rightarrow> string \<Rightarrow> goerr + string"
  jwt_parse :: "string \<Rightarrow> string \<Rightarrow> goerr + (jwt_claims \<times> bool)"

section \<open>Hashes\<close>

definition SHA256Sum :: "enc_lib \<Rightarrow> string \<Rightarrow> string" where
  "SHA256Sum lib d = hash_hex lib ''sha256'' d"

definition SHA256SumString :: "enc_lib \<Rightarrow> string \<Rightarrow> string" where
  "SHA256SumString lib d = hash_hex lib ''sha256'' d"

definition MD5Sum :: "enc_lib \<Rightarrow> string \<Rightarrow> string" where
  "MD5Sum lib d = hash_hex lib ''md5'' d"

definition SHA1Sum :: "enc_lib \<Rightarrow> string \<Rightarrow> string" where
  "SHA1Sum lib d = hash_hex lib ''sha1'' d"

definition SHA512Sum :: "enc_lib \<Rightarrow> string \<Rightarrow> string" where
  "SHA512Sum lib d = hash_hex lib ''sha512'' d"

section \<open>AES\<close>

definition aes_key_size :: "nat \<Rightarrow> bool" where
  "aes_key_size n \<longleftrightarrow> n \<in> {16, 24, 32}"

definition NewAESHelper :: "string \<Rightarrow> string \<Rightarrow> goerr + aes_cipher" where
  "NewAESHelper key iv =
     (if \<not> aes_key_size (length key) then Inl (ErrNew ''AES key must be 16, 24, or 32 bytes'')
      else if length iv \<noteq> 16 then Inl (ErrNew ''AES IV must be 16 bytes'')
      else Inr \<lparr>aesMode = CBC, aesKey = key, aesIV = iv, aesNonce = []\<rparr>)"

definition NewAESHelperGCM :: "string \<Rightarrow> goerr + aes_cipher" where
  "NewAESHelperGCM key =
     (if \<not> aes_key_size (length key) then Inl (ErrNew ''AES key must be 16, 24, or 32 bytes'')
      else Inr \<lparr>aesMode = GCM, aesKey = key, aesIV = [], aesNonce = []\<rparr>)"

definition EncryptBase64 :: "enc_lib \<Rightarrow> aes_cipher \<Rightarrow> string \<Rightarrow> goerr + string" where
  "EncryptBase64 lib c plainText =
     (case aes_encrypt lib c plainText of Inl e \<Rightarrow> Inl e | Inr d \<Rightarrow> Inr (base64_EncodeToString d))"

definition EncryptHex :: "enc_lib \<Rightarrow> aes_cipher \<Rightarrow> string \<Rightarrow> goerr + string" where
  "EncryptHex lib c plainText =
     (case aes_encrypt lib c plainText of Inl e \<Rightarrow> Inl e | Inr d \<Rightarrow> Inr (hex_EncodeToString d))"

text \<open>dongle reports text that it cannot decode as an error of its own, a parameter.\<close>

definition DecryptBase64 :: "enc_lib \<Rightarrow> goerr \<Rightarrow> aes_cipher \<Rightarrow> string \<Rightarrow> goerr + string" where
  "DecryptBase64 lib bad c cipherText =
     (case base64_DecodeString cipherText of None \<Rightarrow> Inl bad | Some d \<Rightarrow> aes_decrypt lib c d)"

definition DecryptHex :: "enc_lib \<Rightarrow> goerr \<Rightarrow> aes_cipher \<Rightarrow> string \<Rightarrow> goerr + string" where
  "DecryptHex lib bad c cipherText =
     (case hex_DecodeString cipherText of None \<Rightarrow> Inl bad | Some d \<Rightarrow> aes_decrypt lib c d)"

definition GenerateRandomBytes :: "enc_lib \<Rightarrow> tick \<Rightarrow> int \<Rightarrow> goerr + string" where
  "GenerateRandomBytes lib i len =
     (if len < 0 then Inl (ErrNew ''length must be non-negative'') else rand_bytes lib i (nat len))"

definition GenerateAESKey :: "enc_lib \<Rightarrow> tick \<Rightarrow> int \<Rightarrow> goerr + string" where
  "GenerateAESKey lib i keySize =
     (if keySize \<noteq> 16 \<and> keySize \<noteq> 24 \<and> keySize \<noteq> 32 then Inl (ErrNew ''AES key size must be 16, 24, or 32 bytes'')
      else GenerateRandomBytes lib i keySize)"

definition GenerateIV :: "enc_lib \<Rightarrow> tick \<Rightarrow> goerr + string" where
  "GenerateIV lib i = GenerateRandomBytes lib i 16"

definition GenerateAESNonceGCM :: "enc_lib \<Rightarrow> tick \<Rightarrow> goerr + string" where
  "GenerateAESNonceGCM lib i = GenerateRandomBytes lib i 12"

definition gcm_cipher :: "string \<Rightarrow> string \<Rightarrow> aes_cipher" where
  "gcm_cipher key nonce = \<lparr>aesMode = GCM, aesKey = key, aesIV = [], aesNonce = nonce\<rparr>"

definition EncryptGCM :: "enc_lib \<Rightarrow> tick \<Rightarrow> string \<Rightarrow> string \<Rightarrow> goerr + string \<times> string" where
  "EncryptGCM lib i key plainText =
     (case GenerateAESNonceGCM lib i of
        Inl e \<Rightarrow> Inl e
      | Inr nonce \<Rightarrow>
          (case aes_encrypt lib (gcm_cipher key nonce) plainText of
             Inl e \<Rightarrow> Inl e
           | Inr d \<Rightarrow> Inr (hex_EncodeToString d, nonce)))"

definition DecryptGCM :: "enc_lib \<Rightarrow> goerr \<Rightarrow> string \<Rightarrow> string \<Rightarrow> string \<Rightarrow> goerr + string" where
  "DecryptGCM lib bad key nonce cipherTextHex = DecryptHex lib bad (gcm_cipher key nonce) cipherTextHex"

section \<open>RSA\<close>

record RSAHelper =
  privateKey :: "string option"
  publicKey :: "string option"

text \<open>\<^verbatim>\<open>x509_parse\<close> gets the name of the parser the block type selects.\<close>

definition parse_private :: "enc_lib \<Rightarrow> string \<Rightarrow> goerr + RSAHelper" where
  "parse_private lib pem =
     (case pem_decode lib pem of
        None \<Rightarrow> Inl (ErrNew ''failed to decode private key PEM'')
      | Some (ty, der) \<Rightarrow>
          let use = (\<lambda>parsed. case parsed of
                NotRSA \<Rightarrow> Inl (ErrNew ''provided key is not an RSA private key'')
              | IsRSA k \<Rightarrow> Inr \<lparr>privateKey = Some k, publicKey = Some (rsa_public lib k)\<rparr>)
          in if ty = ''RSA PRIVATE KEY'' then
               (case x509_parse lib ''PKCS1PrivateKey'' der of
                  Inl e \<Rightarrow> Inl (ErrWrapf ''failed to parse PKCS#1 private key: '' e) | Inr p \<Rightarrow> use p)
             else if ty = ''PRIVATE KEY'' then
               (case x509_parse lib ''PKCS8PrivateKey'' der of
                  Inl e \<Rightarrow> Inl (ErrWrapf ''failed to parse PKCS#8 private key: '' e) | Inr p \<Rightarrow> use p)
             else Inl (ErrNew (''unsupported private key type: '' @ ty)))"

definition parse_public :: "enc_lib \<Rightarrow> string \<Rightarrow> goerr + RSAHelper" where
  "parse_public lib pem =
     (case pem_decode lib pem of
        None \<Rightarrow> Inl (ErrNew ''failed to decode public key PEM'')
      | Some (ty, der) \<Rightarrow>
          let use = (\<lambda>parsed. case parsed of
                NotRSA \<Rightarrow> Inl (ErrNew ''provided key is not an RSA public key'')
              | IsRSA k \<Rightarrow> Inr \<lparr>privateKey = None, publicKey = Some k\<rparr>)
          in if ty = ''PUBLIC KEY'' then
               (case x509_parse lib ''PKIXPublicKey'' der of
                  Inl e \<Rightarrow> Inl (ErrWrapf ''failed to parse PKIX public key: '' e) | Inr p \<Rightarrow> use p)
             else if ty = ''RSA PUBLIC KEY'' then
               (case x509_parse lib ''PKCS1PublicKey'' der of
                  Inl e \<Rightarrow> Inl (ErrWrapf ''failed to parse RSAPublicKey: '' e) | Inr p \<Rightarrow> use p)
             else Inl (ErrNew (''unsupported public key type: '' @ ty)))"

definition NewRSAHelper :: "enc_lib \<Rightarrow> string \<Rightarrow> string \<Rightarrow> goerr + RSAHelper" where
  "NewRSAHelper lib privateKeyPEM publicKeyPEM =
     (if privateKeyPEM \<noteq> [] then parse_private lib privateKeyPEM
      else if publicKeyPEM \<noteq> [] then parse_public lib publicKeyPEM
      else Inl (ErrNew ''at least one key must be provided''))"

definition rsa_Encrypt :: "enc_lib \<Rightarrow> RSAHelper \<Rightarrow> string \<Rightarrow> goerr + string" where
  "rsa_Encrypt lib r plaintext =
     (case publicKey r of
        None \<Rightarrow> Inl (ErrNew ''public key not available for encryption'')
      | Some k \<Rightarrow> oaep_encrypt lib k plaintext)"

definition rsa_Decrypt :: "enc_lib \<Rightarrow> RSAHelper \<Rightarrow> string \<Rightarrow> goerr + string" where
  "rsa_Decrypt lib r ciphertext =
     (case privateKey r of
        None \<Rightarrow> Inl (ErrNew ''private key not available for decryption'')
      | Some k \<Rightarrow> oaep_decrypt lib k ciphertext)"

section \<open>Message authentication\<close>

definition HMAC256 :: "enc_lib \<Rightarrow> string \<Rightarrow> string \<Rightarrow> string" where
  "HMAC256 lib key d = hmac_sha256 lib key d"

definition HMAC256Hex :: "enc_lib \<Rightarrow> string \<Rightarrow> string \<Rightarrow> string" where
  "HMAC256Hex lib key d = hex_EncodeToString (hmac_sha256 lib key d)"

definition HMAC256Base64 :: "enc_lib \<Rightarrow> string \<Rightarrow> string \<Rightarrow> string" where
  "HMAC256Base64 lib key d = base64_EncodeToString (hmac_sha256 lib key d)"

definition VerifyHMAC256 :: "enc_lib \<Rightarrow> string \<Rightarrow> string \<Rightarrow> string \<Rightarrow> bool" where
  "VerifyHMAC256 lib key d expectedMAC \<longleftrightarrow> hmac_sha256 lib key d = expectedMAC"

section \<open>Passwords\<close>

definition HashPassword :: "enc_lib \<Rightarrow> string \<Rightarrow> goerr + string" where
  "HashPassword lib password = bcrypt_generate lib password"

definition VerifyPassword :: "enc_lib \<Rightarrow> string \<Rightarrow> string \<Rightarrow> bool" where
  "VerifyPassword lib hashedPassword password \<longleftrightarrow> bcrypt_compare lib hashedPassword password = None"

text \<open>\<^verbatim>\<open>copy(out[:32], salt)\<close> into 32 zero bytes: a longer salt is cut, a shorter one padded.\<close>

definition copy32 :: "string \<Rightarrow> string" where
  "copy32 s = take 32 (s @ replicate 32 (char_of (0 :: nat)))"

definition ScryptHash :: "enc_lib \<Rightarrow> tick \<Rightarrow> string \<Rightarrow> string option \<Rightarrow> goerr + string" where
  "ScryptHash lib i password salt =
     (case (case salt of None \<Rightarrow> rand_bytes lib i 32 | Some s \<Rightarrow> Inr s) of
        Inl e \<Rightarrow> Inl e
      | Inr s \<Rightarrow>
          (case scrypt_Key lib password s of
             Inl e \<Rightarrow> Inl e
           | Inr hash \<Rightarrow> Inr (base64_EncodeToString (copy32 s @ copy32 hash))))"

definition ScryptVerify :: "enc_lib \<Rightarrow> string \<Rightarrow> string \<Rightarrow> bool" where
  "ScryptVerify lib hashedPassword password =
     (case base64_DecodeString hashedPassword of
        None \<Rightarrow> False
      | Some decoded \<Rightarrow>
          length decoded = 64 \<and>
          (case scrypt_Key lib password (take 32 decoded) of
             Inl e \<Rightarrow> False
           | Inr got \<Rightarrow> drop 32 decoded = got))"

section \<open>Tokens\<close>

definition GenerateJWT :: "enc_lib \<Rightarrow> int \<Rightarrow> jwt_claims \<Rightarrow> string \<Rightarrow> int \<Rightarrow> goerr + string" where
  "GenerateJWT lib now claims secretKey expiration =
     jwt_sign lib (claims\<lparr>Registered := \<lparr>IssuedAt = now, NotBefore = now, ExpiresAt = now + expiration\<rparr>\<rparr>) secretKey"

text \<open>\<^verbatim>\<open>jwt_parse\<close> accepts HMAC signatures only, as the key function of the code asks.\<close>

definition VerifyJWT :: "enc_lib \<Rightarrow> string \<Rightarrow> string \<Rightarrow> goerr + jwt_claims" where
  "VerifyJWT lib tokenString secretKey =
     (case jwt_parse lib tokenString secretKey of
        Inl e \<Rightarrow> Inl e
      | Inr (claims, valid) \<Rightarrow> if valid then Inr claims else Inl (ErrNew ''invalid token''))"

section \<open>Text\<close>

definition Base64Encode :: "string \<Rightarrow> string" where
  "Base64Encode d = base64_EncodeToString d"

definition Base64Decode :: "string \<Rightarrow> string option" where
  "Base64Decode d = base64_DecodeString d"

definition HexEncode :: "string \<Rightarrow> string" where
  "HexEncode d = hex_EncodeToString d"

definition HexDecode :: "string \<Rightarrow> string option" where
  "HexDecode d = hex_DecodeString d"

definition ConstantTimeCompare :: "string \<Rightarrow> string \<Rightarrow> bool" where
  "ConstantTimeCompare a b \<longleftrightarrow> a = b"

section \<open>Properties\<close>

lemma copy32_length [simp]: "length (copy32 s) = 32"
  by (simp add: copy32_def)

lemma copy32_id: "length s = 32 \<Longrightarrow> copy32 s = s"
  by (simp add: copy32_def)

text \<open>Text forms lose nothing: decryption of the text gives back what decryption of the bytes gives.\<close>

lemma Decrypt_Encrypt:
  assumes "\<And>p d. aes_encrypt lib c p = Inr d \<Longrightarrow> aes_decrypt lib c d = Inr p"
  shows "EncryptBase64 lib c p = Inr t \<Longrightarrow> DecryptBase64 lib bad c t = Inr p"
    and "EncryptHex lib c p = Inr t \<Longrightarrow> DecryptHex lib bad c t = Inr p"
  using assms
  by (auto simp: EncryptBase64_def DecryptBase64_def EncryptHex_def DecryptHex_def base64_roundtrip hex_roundtrip split: sum.splits)

lemma Decrypt_EncryptGCM:
  assumes "\<And>c p d. aes_encrypt lib c p = Inr d \<Longrightarrow> aes_decrypt lib c d = Inr p" "EncryptGCM lib i key p = Inr (t, nonce)"
  shows "DecryptGCM lib bad key nonce t = Inr p"
  using assms by (auto simp: EncryptGCM_def DecryptGCM_def DecryptHex_def hex_roundtrip split: sum.splits)

text \<open>
  A password verifies against its own scrypt hash exactly when the salt that is stored gives the
  same key: always for a salt of 32 bytes, given or generated; a salt of another length is cut or padded
  in the stored hash, and the password then fails unless the two salts have the same key.
\<close>

theorem ScryptHash_verifies:
  assumes key: "\<And>p s k. scrypt_Key lib p s = Inr k \<Longrightarrow> length k = 32"
    and hash: "ScryptHash lib i password salt = Inr h"
    and s: "(case salt of None \<Rightarrow> rand_bytes lib i 32 | Some x \<Rightarrow> Inr x) = Inr s"
  shows "(ScryptVerify lib h password \<longleftrightarrow> scrypt_Key lib password (copy32 s) = scrypt_Key lib password s) \<and>
    (length s = 32 \<longrightarrow> ScryptVerify lib h password)"
proof -
  obtain k where k: "scrypt_Key lib password s = Inr k" and h: "h = base64_EncodeToString (copy32 s @ copy32 k)"
    using hash s by (auto simp: ScryptHash_def split: sum.splits)
  have "copy32 k = k" using key [OF k] by (rule copy32_id)
  then have v: "ScryptVerify lib h password \<longleftrightarrow> scrypt_Key lib password (copy32 s) = Inr k"
    using key by (auto simp: h ScryptVerify_def base64_roundtrip split: sum.splits)
  then show ?thesis using k copy32_id by auto
qed

section \<open>Witnesses\<close>

definition demo_enc :: enc_lib where
  "demo_enc = \<lparr>hash_hex = (\<lambda>_ d. d), hmac_sha256 = (\<lambda>k d. k @ d), aes_encrypt = (\<lambda>_ d. Inr d), aes_decrypt = (\<lambda>_ d. Inr d),
     rand_bytes = (\<lambda>_ n. Inr (replicate n CHR ''r'')), pem_decode = (\<lambda>_. None), x509_parse = (\<lambda>_ _. Inr NotRSA),
     rsa_public = id, oaep_encrypt = (\<lambda>_ d. Inr d), oaep_decrypt = (\<lambda>_ d. Inr d), bcrypt_generate = Inr,
     bcrypt_compare = (\<lambda>_ _. None), scrypt_Key = (\<lambda>p s. Inr (copy32 (p @ s))), jwt_sign = (\<lambda>_ _. Inr []),
     jwt_parse = (\<lambda>_ _. Inl Canceled)\<rparr>"

lemma demo_enc_simps:
  "scrypt_Key demo_enc p s = Inr (copy32 (p @ s))" "rand_bytes demo_enc i n = Inr (replicate n CHR ''r'')"
  by (simp_all add: demo_enc_def)

theorem ScryptHash_verifies_witness:
  "\<exists>h. ScryptHash demo_enc 0 ''pw'' None = Inr h \<and> ScryptVerify demo_enc h ''pw''"
proof -
  obtain h where h: "ScryptHash demo_enc 0 ''pw'' None = Inr h" by (simp add: ScryptHash_def demo_enc_simps)
  have "ScryptVerify demo_enc h ''pw''"
    using ScryptHash_verifies [OF _ h, of "replicate 32 CHR ''r''"] by (auto simp: demo_enc_simps)
  with h show ?thesis by blast
qed

end
