(* ===== verification/Cache.thy ===== *)
theory Cache
  imports Go_Prelude
begin

text \<open>
  The cache library (\<^verbatim>\<open>cache/cache.go\<close>, \<^verbatim>\<open>codec.go\<close>, \<^verbatim>\<open>memory.go\<close>, \<^verbatim>\<open>redis.go\<close>, \<^verbatim>\<open>twolevel.go\<close>):
  the interface \<^verbatim>\<open>Cache[T]\<close> as a record of methods, and its three implementations.  The in-process
  cache (otter), the Redis client, the codec and \<^verbatim>\<open>singleflight\<close> are parameters.

  A cache may lose an entry at any moment (eviction, expiry), and a failed write may or may not have
  reached the server.  So the contract of the interface speaks of the set of values that a key may
  still answer with: reads answer from that set, a successful write or load leaves one value, a
  failed write adds one, a successful delete leaves none.  The contract is the locale
  \<^verbatim>\<open>cache_contract\<close>; it is proved for the memory and the Redis cache, and for the two-level cache over
  any two caches that have it.
\<close>

section \<open>The interface\<close>

definition ErrNotFound :: goerr where
  "ErrNotFound = ErrNew ''cache: not found''"

datatype CacheOption = WithTTL int

record options =
  TTL :: int

fun apply_cache_option :: "CacheOption \<Rightarrow> options \<Rightarrow> options" where
  "apply_cache_option (WithTTL d) o1 = o1\<lparr>TTL := d\<rparr>"

definition applyOptions :: "CacheOption list \<Rightarrow> options" where
  "applyOptions opts = foldl (\<lambda>o1 fn. apply_cache_option fn o1) \<lparr>TTL = 0\<rparr> opts"

text \<open>
  A loader reads the origin, whose state \<open>'w\<close> it may change.  A method takes and returns the state
  \<open>'s\<close> of the cache.
\<close>

type_synonym ('v, 'w) LoaderFunc = "string \<Rightarrow> 'w \<Rightarrow> ('v \<times> goerr option) \<times> 'w"

record ('s, 'v, 'w) Cache =
  cGet :: "string \<Rightarrow> 's \<Rightarrow> ('v \<times> goerr option) \<times> 's"
  cSet :: "string \<Rightarrow> 'v \<Rightarrow> CacheOption list \<Rightarrow> 's \<Rightarrow> goerr option \<times> 's"
  cDelete :: "string \<Rightarrow> 's \<Rightarrow> goerr option \<times> 's"
  cGetOrLoad :: "string \<Rightarrow> ('v, 'w) LoaderFunc \<Rightarrow> 's \<times> 'w \<Rightarrow> ('v \<times> goerr option) \<times> 's \<times> 'w"
  cClose :: "'s \<Rightarrow> goerr option \<times> 's"

text \<open>
  \<^verbatim>\<open>singleflight.Group.Do\<close>: a caller that finds a flight of the key waits for it and shares its
  answer, any other caller runs the function.  The parameter \<open>sf\<close> says which flight is joined.
\<close>

type_synonym ('s, 'v, 'w) flights = "string \<Rightarrow> 's \<times> 'w \<Rightarrow> ((goerr + 'v) \<times> 's \<times> 'w) option"

definition sf_Do :: "('s, 'v, 'w) flights \<Rightarrow> string \<Rightarrow>
    ('s \<times> 'w \<Rightarrow> (goerr + 'v) \<times> 's \<times> 'w) \<Rightarrow> 's \<times> 'w \<Rightarrow> (goerr + 'v) \<times> 's \<times> 'w" where
  "sf_Do sf key fn sw = (case sf key sw of Some answer \<Rightarrow> answer | None \<Rightarrow> fn sw)"

text \<open>Calls that come one at a time never find a flight.\<close>

definition sf_alone :: "('s, 'v, 'w) flights \<Rightarrow> bool" where
  "sf_alone sf \<longleftrightarrow> (\<forall>key sw. sf key sw = None)"

section \<open>The memory cache\<close>

record ('o, 'v, 'w) otter =
  otNew :: "int \<Rightarrow> int option \<Rightarrow> goerr + 'o"
  GetIfPresent :: "string \<Rightarrow> 'o \<Rightarrow> 'v option \<times> 'o"
  otSet :: "string \<Rightarrow> 'v \<Rightarrow> 'o \<Rightarrow> 'o"
  SetExpiresAfter :: "string \<Rightarrow> int \<Rightarrow> 'o \<Rightarrow> 'o"
  Invalidate :: "string \<Rightarrow> 'o \<Rightarrow> 'o"
  otGet :: "string \<Rightarrow> ('v, 'w) LoaderFunc \<Rightarrow> 'o \<times> 'w \<Rightarrow> ('v \<times> goerr option) \<times> 'o \<times> 'w"
  StopAllGoroutines :: "'o \<Rightarrow> 'o"

record MemoryConfig =
  MaxSize :: int
  mDefaultTTL :: int

definition memory_Get :: "('o, 'v, 'w) otter \<Rightarrow> 'v \<Rightarrow> string \<Rightarrow> 'o \<Rightarrow> ('v \<times> goerr option) \<times> 'o" where
  "memory_Get lib zero key o1 =
     (case GetIfPresent lib key o1 of
        (None, o2) \<Rightarrow> ((zero, Some ErrNotFound), o2)
      | (Some v, o2) \<Rightarrow> ((v, None), o2))"

definition memory_Set :: "('o, 'v, 'w) otter \<Rightarrow> string \<Rightarrow> 'v \<Rightarrow> CacheOption list \<Rightarrow> 'o \<Rightarrow> goerr option \<times> 'o" where
  "memory_Set lib key value opts o1 =
     (let o2 = otSet lib key value o1;
          ttl = TTL (applyOptions opts)
      in (None, if ttl > 0 then SetExpiresAfter lib key ttl o2 else o2))"

definition memory_Delete :: "('o, 'v, 'w) otter \<Rightarrow> string \<Rightarrow> 'o \<Rightarrow> goerr option \<times> 'o" where
  "memory_Delete lib key o1 = (None, Invalidate lib key o1)"

definition memory_GetOrLoad :: "('o, 'v, 'w) otter \<Rightarrow> string \<Rightarrow> ('v, 'w) LoaderFunc \<Rightarrow> 'o \<times> 'w \<Rightarrow>
    ('v \<times> goerr option) \<times> 'o \<times> 'w" where
  "memory_GetOrLoad lib key loader ow = otGet lib key loader ow"

definition memory_Close :: "('o, 'v, 'w) otter \<Rightarrow> 'o \<Rightarrow> goerr option \<times> 'o" where
  "memory_Close lib o1 = (None, StopAllGoroutines lib o1)"

definition memoryCache :: "('o, 'v, 'w) otter \<Rightarrow> 'v \<Rightarrow> ('o, 'v, 'w) Cache" where
  "memoryCache lib zero =
     \<lparr>cGet = memory_Get lib zero, cSet = memory_Set lib, cDelete = memory_Delete lib,
      cGetOrLoad = memory_GetOrLoad lib, cClose = memory_Close lib\<rparr>"

definition NewMemory :: "('o, 'v, 'w) otter \<Rightarrow> 'v \<Rightarrow> MemoryConfig \<Rightarrow> goerr + ('o, 'v, 'w) Cache \<times> 'o" where
  "NewMemory lib zero cfg =
     (if MaxSize cfg \<le> 0 then Inl (ErrNew ''cache: MaxSize must be positive'')
      else case otNew lib (MaxSize cfg) (if mDefaultTTL cfg > 0 then Some (mDefaultTTL cfg) else None) of
        Inl err \<Rightarrow> Inl (ErrWrapf ''cache: failed to create otter cache: '' err)
      | Inr c \<Rightarrow> Inr (memoryCache lib zero, c))"

section \<open>The Redis cache\<close>

record 'v Codec =
  Marshal :: "'v \<Rightarrow> goerr + string"
  Unmarshal :: "string \<Rightarrow> goerr + 'v"

record 'r redis_client =
  rdGet :: "string \<Rightarrow> 'r \<Rightarrow> (goerr + string) \<times> 'r"
  rdSet :: "string \<Rightarrow> string \<Rightarrow> int \<Rightarrow> 'r \<Rightarrow> goerr option \<times> 'r"
  rdDel :: "string \<Rightarrow> 'r \<Rightarrow> goerr option \<times> 'r"

definition redis_Nil :: goerr where
  "redis_Nil = ErrNew ''redis: nil''"

record ('r, 'v) RedisConfig =
  Client :: "'r redis_client option"
  Prefix :: string
  DefaultTTL :: int
  rCodec :: "'v Codec option"

record ('r, 'v, 'w) redisCache =
  client :: "'r redis_client"
  prefix :: string
  defaultTTL :: int
  codec :: "'v Codec"
  sf :: "('r, 'v, 'w) flights"

definition redis_key :: "('r, 'v, 'w) redisCache \<Rightarrow> string \<Rightarrow> string" where
  "redis_key c k = (if prefix c = [] then k else prefix c @ '':'' @ k)"

definition redis_ttl :: "('r, 'v, 'w) redisCache \<Rightarrow> CacheOption list \<Rightarrow> int" where
  "redis_ttl c opts = (let o1 = applyOptions opts in if TTL o1 > 0 then TTL o1 else defaultTTL c)"

definition redis_Get :: "('r, 'v, 'w) redisCache \<Rightarrow> 'v \<Rightarrow> string \<Rightarrow> 'r \<Rightarrow> ('v \<times> goerr option) \<times> 'r" where
  "redis_Get c zero key r =
     (case rdGet (client c) (redis_key c key) r of
        (Inl err, r1) \<Rightarrow>
          if err = redis_Nil then ((zero, Some ErrNotFound), r1)
          else ((zero, Some (ErrWrapf ''cache: redis get: '' err)), r1)
      | (Inr data, r1) \<Rightarrow>
          (case Unmarshal (codec c) data of
             Inl err \<Rightarrow> ((zero, Some (ErrWrapf ''cache: unmarshal: '' err)), r1)
           | Inr v \<Rightarrow> ((v, None), r1)))"

definition redis_Set :: "('r, 'v, 'w) redisCache \<Rightarrow> string \<Rightarrow> 'v \<Rightarrow> CacheOption list \<Rightarrow> 'r \<Rightarrow> goerr option \<times> 'r" where
  "redis_Set c key value opts r =
     (case Marshal (codec c) value of
        Inl err \<Rightarrow> (Some (ErrWrapf ''cache: marshal: '' err), r)
      | Inr data \<Rightarrow>
          (case rdSet (client c) (redis_key c key) data (redis_ttl c opts) r of
             (Some err, r1) \<Rightarrow> (Some (ErrWrapf ''cache: redis set: '' err), r1)
           | (None, r1) \<Rightarrow> (None, r1)))"

definition redis_Delete :: "('r, 'v, 'w) redisCache \<Rightarrow> string \<Rightarrow> 'r \<Rightarrow> goerr option \<times> 'r" where
  "redis_Delete c key r =
     (case rdDel (client c) (redis_key c key) r of
        (Some err, r1) \<Rightarrow> (Some (ErrWrapf ''cache: redis del: '' err), r1)
      | (None, r1) \<Rightarrow> (None, r1))"

text \<open>The function that a miss gives to \<^verbatim>\<open>singleflight\<close>; \<open>result.(T)\<close> holds because a value comes with no error.\<close>

definition redis_load :: "('r, 'v, 'w) redisCache \<Rightarrow> string \<Rightarrow> ('v, 'w) LoaderFunc \<Rightarrow> 'r \<times> 'w \<Rightarrow>
    (goerr + 'v) \<times> 'r \<times> 'w" where
  "redis_load c key loader rw =
     (case loader key (snd rw) of
        ((val, Some err), w1) \<Rightarrow> (Inl err, (fst rw, w1))
      | ((val, None), w1) \<Rightarrow>
          (case redis_Set c key val [] (fst rw) of
             (Some setErr, r1) \<Rightarrow> (Inl (ErrWrapf ''cache: loader succeeded but set failed: '' setErr), (r1, w1))
           | (None, r1) \<Rightarrow> (Inr val, (r1, w1))))"

definition redis_GetOrLoad :: "('r, 'v, 'w) redisCache \<Rightarrow> 'v \<Rightarrow> string \<Rightarrow> ('v, 'w) LoaderFunc \<Rightarrow> 'r \<times> 'w \<Rightarrow>
    ('v \<times> goerr option) \<times> 'r \<times> 'w" where
  "redis_GetOrLoad c zero key loader rw =
     (case redis_Get c zero key (fst rw) of
        ((v, None), r1) \<Rightarrow> ((v, None), (r1, snd rw))
      | ((v, Some err), r1) \<Rightarrow>
          if err \<noteq> ErrNotFound then ((zero, Some err), (r1, snd rw))
          else case sf_Do (sf c) key (redis_load c key loader) (r1, snd rw) of
            (Inl err, rw2) \<Rightarrow> ((zero, Some err), rw2)
          | (Inr result, rw2) \<Rightarrow> ((result, None), rw2))"

definition redis_Cache :: "('r, 'v, 'w) redisCache \<Rightarrow> 'v \<Rightarrow> ('r, 'v, 'w) Cache" where
  "redis_Cache c zero =
     \<lparr>cGet = redis_Get c zero, cSet = redis_Set c, cDelete = redis_Delete c,
      cGetOrLoad = redis_GetOrLoad c zero, cClose = (\<lambda>r. (None, r))\<rparr>"

text \<open>\<^verbatim>\<open>JsonCodec\<close> (json-iterator) is a parameter; \<open>flights\<close> is the fresh \<^verbatim>\<open>singleflight.Group\<close>.\<close>

definition NewRedis :: "'v Codec \<Rightarrow> ('r, 'v, 'w) flights \<Rightarrow> ('r, 'v) RedisConfig \<Rightarrow> goerr + ('r, 'v, 'w) redisCache" where
  "NewRedis JsonCodec flights cfg =
     (case Client cfg of
        None \<Rightarrow> Inl (ErrNew ''cache: Redis Client must not be nil'')
      | Some cl \<Rightarrow>
          if DefaultTTL cfg \<le> 0 then Inl (ErrNew ''cache: Redis DefaultTTL must be positive'')
          else Inr \<lparr>client = cl, prefix = Prefix cfg, defaultTTL = DefaultTTL cfg,
                 codec = (case rCodec cfg of None \<Rightarrow> JsonCodec | Some cd \<Rightarrow> cd), sf = flights\<rparr>)"

section \<open>The two-level cache\<close>

text \<open>
  \<^verbatim>\<open>Get\<close> up to the local write: what is answered, and the value to write into the local cache.
  Between the two parts other callers may run.
\<close>

definition twolevel_lookup :: "('l, 'v, 'w) Cache \<Rightarrow> ('r, 'v, 'w) Cache \<Rightarrow> string \<Rightarrow> 'l \<times> 'r \<Rightarrow>
    ('v \<times> goerr option) \<times> 'v option \<times> 'l \<times> 'r" where
  "twolevel_lookup local remote key lr =
     (case cGet local key (fst lr) of
        ((v, None), l1) \<Rightarrow> ((v, None), None, (l1, snd lr))
      | ((v, Some err), l1) \<Rightarrow>
          if \<not> errors_Is err ErrNotFound then ((v, Some err), None, (l1, snd lr))
          else case cGet remote key (snd lr) of
            ((v, None), r1) \<Rightarrow> ((v, None), Some v, (l1, r1))
          | ((v, Some err), r1) \<Rightarrow> ((v, Some err), None, (l1, r1)))"

definition twolevel_backfill :: "('l, 'v, 'w) Cache \<Rightarrow> string \<Rightarrow> 'v option \<Rightarrow> 'l \<times> 'r \<Rightarrow> 'l \<times> 'r" where
  "twolevel_backfill local key vo lr =
     (case vo of None \<Rightarrow> lr | Some v \<Rightarrow> (snd (cSet local key v [] (fst lr)), snd lr))"

definition twolevel_Get :: "('l, 'v, 'w) Cache \<Rightarrow> ('r, 'v, 'w) Cache \<Rightarrow> string \<Rightarrow> 'l \<times> 'r \<Rightarrow>
    ('v \<times> goerr option) \<times> 'l \<times> 'r" where
  "twolevel_Get local remote key lr =
     (case twolevel_lookup local remote key lr of
        (answer, vo, lr1) \<Rightarrow> (answer, twolevel_backfill local key vo lr1))"

definition twolevel_Set :: "('l, 'v, 'w) Cache \<Rightarrow> ('r, 'v, 'w) Cache \<Rightarrow> string \<Rightarrow> 'v \<Rightarrow> CacheOption list \<Rightarrow> 'l \<times> 'r \<Rightarrow>
    goerr option \<times> 'l \<times> 'r" where
  "twolevel_Set local remote key value opts lr =
     (case cSet remote key value opts (snd lr) of
        (Some err, r1) \<Rightarrow> (Some err, (fst lr, r1))
      | (None, r1) \<Rightarrow> (None, (snd (cSet local key value opts (fst lr)), r1)))"

definition twolevel_Delete :: "('l, 'v, 'w) Cache \<Rightarrow> ('r, 'v, 'w) Cache \<Rightarrow> string \<Rightarrow> 'l \<times> 'r \<Rightarrow>
    goerr option \<times> 'l \<times> 'r" where
  "twolevel_Delete local remote key lr =
     (case cDelete remote key (snd lr) of
        (remoteErr, r1) \<Rightarrow> (remoteErr, (snd (cDelete local key (fst lr)), r1)))"

definition twolevel_load :: "('r, 'v, 'w) Cache \<Rightarrow> string \<Rightarrow> ('v, 'w) LoaderFunc \<Rightarrow> ('l \<times> 'r) \<times> 'w \<Rightarrow>
    (goerr + 'v) \<times> ('l \<times> 'r) \<times> 'w" where
  "twolevel_load remote key loader lrw =
     (case lrw of ((l, r), w) \<Rightarrow>
        (case cGet remote key r of
           ((val, None), r1) \<Rightarrow> (Inr val, ((l, r1), w))
         | ((val, Some err), r1) \<Rightarrow>
             if \<not> errors_Is err ErrNotFound then (Inl err, ((l, r1), w))
             else case loader key w of
               ((val, Some err), w1) \<Rightarrow> (Inl err, ((l, r1), w1))
             | ((val, None), w1) \<Rightarrow>
                 (case cSet remote key val [] r1 of
                    (Some setErr, r2) \<Rightarrow>
                      (Inl (ErrWrapf ''cache: loader succeeded but remote set failed: '' setErr), ((l, r2), w1))
                  | (None, r2) \<Rightarrow> (Inr val, ((l, r2), w1)))))"

definition twolevel_GetOrLoad :: "('l, 'v, 'w) Cache \<Rightarrow> ('r, 'v, 'w) Cache \<Rightarrow> ('l \<times> 'r, 'v, 'w) flights \<Rightarrow> 'v \<Rightarrow>
    string \<Rightarrow> ('v, 'w) LoaderFunc \<Rightarrow> ('l \<times> 'r) \<times> 'w \<Rightarrow> ('v \<times> goerr option) \<times> ('l \<times> 'r) \<times> 'w" where
  "twolevel_GetOrLoad local remote flights zero key loader lrw =
     (case lrw of ((l, r), w) \<Rightarrow>
        (case cGet local key l of
           ((v, None), l1) \<Rightarrow> ((v, None), ((l1, r), w))
         | ((v, Some err), l1) \<Rightarrow>
             (case sf_Do flights key (twolevel_load remote key loader) ((l1, r), w) of
                (Inl err, lrw2) \<Rightarrow> ((zero, Some err), lrw2)
              | (Inr result, ((l2, r2), w2)) \<Rightarrow>
                  ((result, None), ((snd (cSet local key result [] l2), r2), w2)))))"

definition twolevel_Close :: "('l, 'v, 'w) Cache \<Rightarrow> 'l \<times> 'r \<Rightarrow> goerr option \<times> 'l \<times> 'r" where
  "twolevel_Close local lr = (case cClose local (fst lr) of (err, l1) \<Rightarrow> (err, (l1, snd lr)))"

definition twoLevelCache :: "('l, 'v, 'w) Cache \<Rightarrow> ('r, 'v, 'w) Cache \<Rightarrow> ('l \<times> 'r, 'v, 'w) flights \<Rightarrow> 'v \<Rightarrow>
    ('l \<times> 'r, 'v, 'w) Cache" where
  "twoLevelCache local remote flights zero =
     \<lparr>cGet = twolevel_Get local remote, cSet = twolevel_Set local remote, cDelete = twolevel_Delete local remote,
      cGetOrLoad = twolevel_GetOrLoad local remote flights zero, cClose = twolevel_Close local\<rparr>"

record ('r, 'v) TwoLevelConfig =
  Local :: MemoryConfig
  Remote :: "('r, 'v) RedisConfig"

text \<open>The result carries the fresh state of the local cache; a local cache that is not used is closed.\<close>

definition NewTwoLevel :: "('o, 'v, 'w) otter \<Rightarrow> 'v Codec \<Rightarrow> ('r, 'v, 'w) flights \<Rightarrow> ('o \<times> 'r, 'v, 'w) flights \<Rightarrow> 'v \<Rightarrow>
    ('r, 'v) TwoLevelConfig \<Rightarrow> (goerr \<times> 'o option) + (('o \<times> 'r, 'v, 'w) Cache \<times> 'o)" where
  "NewTwoLevel lib JsonCodec rflights flights zero cfg =
     (case NewMemory lib zero (Local cfg) of
        Inl err \<Rightarrow> Inl (ErrWrapf ''cache: create local cache: '' err, None)
      | Inr (local, o1) \<Rightarrow>
          (case NewRedis JsonCodec rflights (Remote cfg) of
             Inl err \<Rightarrow> Inl (ErrWrapf ''cache: create remote cache: '' err, Some (snd (cClose local o1)))
           | Inr c \<Rightarrow> Inr (twoLevelCache local (redis_Cache c zero) flights zero, o1)))"

section \<open>The contract of a cache\<close>

text \<open>
  \<open>H key\<close> are the values that \<open>key\<close> may still answer with.  A write that reports success leaves its
  value only, one that reports an error may have happened or not.
\<close>

definition written :: "string \<Rightarrow> 'v \<Rightarrow> goerr option \<Rightarrow> (string \<Rightarrow> 'v set) \<Rightarrow> string \<Rightarrow> 'v set" where
  "written k v err H = H(k := if err = None then {v} else insert v (H k))"

definition deleted :: "string \<Rightarrow> goerr option \<Rightarrow> (string \<Rightarrow> 'v set) \<Rightarrow> string \<Rightarrow> 'v set" where
  "deleted k err H = H(k := if err = None then {} else H k)"

text \<open>
  What \<^verbatim>\<open>GetOrLoad\<close> may do: answer from the cache or fail without a call of the loader, or call it
  once, pass its error on or write its value and answer with it.
\<close>

definition load_spec :: "('v, 'w) LoaderFunc \<Rightarrow> string \<Rightarrow> (string \<Rightarrow> 'v set) \<Rightarrow> (string \<Rightarrow> 'v set) \<Rightarrow> 'w \<Rightarrow> 'w \<Rightarrow>
    'v \<Rightarrow> goerr option \<Rightarrow> bool" where
  "load_spec loader k H H' w w' v err \<longleftrightarrow>
     w' = w \<and> H' \<le> H \<and> (err = None \<longrightarrow> v \<in> H k) \<or>
     (\<exists>u e. loader k w = ((u, Some e), w') \<and> err = Some e \<and> H' \<le> H) \<or>
     (\<exists>u. loader k w = ((u, None), w') \<and> H' \<le> written k u err H \<and> (err = None \<longrightarrow> v = u))"

text \<open>
  The caches \<open>C x\<close> of a constructor \<open>C\<close>, for the libraries and settings \<open>x\<close> that are as documented.
\<close>

locale cache_contract =
  fixes ok :: "'x \<Rightarrow> bool"
    and C :: "'x \<Rightarrow> ('s, 'v, 'w) Cache"
    and holds :: "'x \<Rightarrow> 's \<Rightarrow> string \<Rightarrow> 'v set"
  assumes get: "ok x \<Longrightarrow> cGet (C x) k s = ((v, err), s') \<Longrightarrow>
      holds x s' \<le> holds x s \<and> (err = None \<longrightarrow> v \<in> holds x s k)"
    and set: "ok x \<Longrightarrow> cSet (C x) k v os s = (err, s') \<Longrightarrow> holds x s' \<le> written k v err (holds x s)"
    and del: "ok x \<Longrightarrow> cDelete (C x) k s = (err, s') \<Longrightarrow> holds x s' \<le> deleted k err (holds x s)"
    and load: "ok x \<Longrightarrow> cGetOrLoad (C x) k loader (s, w) = ((v, err), (s', w')) \<Longrightarrow>
      load_spec loader k (holds x s) (holds x s') w w' v err"

text \<open>
  A client that makes calls one after the other, and the events it sees: every call with its answer,
  and for \<^verbatim>\<open>GetOrLoad\<close> what the loader answered if it was called.
\<close>

datatype 'v cop = OGet string | OSet string 'v "CacheOption list" | ODelete string | OLoad string "'v \<times> goerr option"

datatype 'v cevent =
    EGet string 'v "goerr option"
  | ESet string 'v "goerr option"
  | EDelete string "goerr option"
  | ELoad string "('v \<times> goerr option) option" 'v "goerr option"

type_synonym ('s, 'v) logged_cache = "('s, 'v, ('v \<times> goerr option) list) Cache"

fun call :: "('s, 'v) logged_cache \<Rightarrow> 'v cop \<Rightarrow> 's \<Rightarrow> 'v cevent \<times> 's" where
  "call c (OGet k) s = (case cGet c k s of ((v, err), s1) \<Rightarrow> (EGet k v err, s1))"
| "call c (OSet k v os) s = (case cSet c k v os s of (err, s1) \<Rightarrow> (ESet k v err, s1))"
| "call c (ODelete k) s = (case cDelete c k s of (err, s1) \<Rightarrow> (EDelete k err, s1))"
| "call c (OLoad k origin) s =
     (case cGetOrLoad c k (\<lambda>_ w. (origin, w @ [origin])) (s, []) of
        ((v, err), (s1, w1)) \<Rightarrow> (ELoad k (if w1 = [] then None else Some (last w1)) v err, s1))"

fun calls :: "('s, 'v) logged_cache \<Rightarrow> 'v cop list \<Rightarrow> 's \<Rightarrow> 'v cevent list \<times> 's" where
  "calls c [] s = ([], s)"
| "calls c (op # ops) s =
     (case call c op s of (ev, s1) \<Rightarrow> case calls c ops s1 of (evs, s2) \<Rightarrow> (ev # evs, s2))"

text \<open>The specification: which events a key-value map that may lose entries can show, and what is left after them.\<close>

fun event_ok :: "(string \<Rightarrow> 'v set) \<Rightarrow> 'v cevent \<Rightarrow> bool" where
  "event_ok H (EGet k v err) \<longleftrightarrow> err = None \<longrightarrow> v \<in> H k"
| "event_ok H (ESet k v err) \<longleftrightarrow> True"
| "event_ok H (EDelete k err) \<longleftrightarrow> True"
| "event_ok H (ELoad k None v err) \<longleftrightarrow> err = None \<longrightarrow> v \<in> H k"
| "event_ok H (ELoad k (Some (u, Some e)) v err) \<longleftrightarrow> err = Some e"
| "event_ok H (ELoad k (Some (u, None)) v err) \<longleftrightarrow> err = None \<longrightarrow> v = u"

fun after_event :: "(string \<Rightarrow> 'v set) \<Rightarrow> 'v cevent \<Rightarrow> string \<Rightarrow> 'v set" where
  "after_event H (ESet k v err) = written k v err H"
| "after_event H (EDelete k err) = deleted k err H"
| "after_event H (ELoad k (Some (u, None)) v err) = written k u err H"
| "after_event H ev = H"

fun events_ok :: "(string \<Rightarrow> 'v set) \<Rightarrow> 'v cevent list \<Rightarrow> bool" where
  "events_ok H [] \<longleftrightarrow> True"
| "events_ok H (ev # evs) \<longleftrightarrow> event_ok H ev \<and> events_ok (after_event H ev) evs"

lemma written_mono: "H \<le> H' \<Longrightarrow> written k v err H \<le> written k v err H'"
  by (auto simp: written_def le_fun_def)

lemma deleted_mono: "H \<le> H' \<Longrightarrow> deleted k err H \<le> deleted k err H'"
  by (auto simp: deleted_def le_fun_def)

lemma after_event_mono: "H \<le> H' \<Longrightarrow> after_event H ev \<le> after_event H' ev"
  by (cases "(H, ev)" rule: after_event.cases) (auto simp: written_mono deleted_mono)

lemma event_ok_mono: "event_ok H ev \<Longrightarrow> H \<le> H' \<Longrightarrow> event_ok H' ev"
  by (cases "(H, ev)" rule: event_ok.cases) (auto simp: le_fun_def)

lemma event_ok_load:
  assumes "load_spec (\<lambda>_ w. (origin, w @ [origin])) k H H' [] w' v err"
  shows "event_ok H (ELoad k (if w' = [] then None else Some (last w')) v err) \<and>
    H' \<le> after_event H (ELoad k (if w' = [] then None else Some (last w')) v err)"
proof -
  obtain u e where origin: "origin = (u, e)" by force
  from assms show ?thesis
    by (cases e) (auto simp: load_spec_def origin)
qed

locale cache_client = cache_contract ok C holds
  for ok :: "'x \<Rightarrow> bool" and C :: "'x \<Rightarrow> ('s, 'v) logged_cache" and holds :: "'x \<Rightarrow> 's \<Rightarrow> string \<Rightarrow> 'v set"
begin

lemma call_ok:
  assumes "ok x" "call (C x) op s = (ev, s')"
  shows "event_ok (holds x s) ev" "holds x s' \<le> after_event (holds x s) ev"
proof -
  have "event_ok (holds x s) ev \<and> holds x s' \<le> after_event (holds x s) ev"
  proof (cases op)
    case (OGet k)
    with assms get [OF assms(1), of k s] show ?thesis by (auto split: prod.splits)
  next
    case (OSet k v os)
    with assms set [OF assms(1), of k v os s] show ?thesis by (auto split: prod.splits)
  next
    case (ODelete k)
    with assms del [OF assms(1), of k s] show ?thesis by (auto split: prod.splits)
  next
    case (OLoad k origin)
    then obtain v err w' where eq: "cGetOrLoad (C x) k (\<lambda>_ w. (origin, w @ [origin])) (s, []) = ((v, err), (s', w'))"
      and ev: "ev = ELoad k (if w' = [] then None else Some (last w')) v err"
      using assms(2) by (auto split: prod.splits)
    show ?thesis using event_ok_load [OF load [OF assms(1) eq]] unfolding ev .
  qed
  then show "event_ok (holds x s) ev" "holds x s' \<le> after_event (holds x s) ev" by simp_all
qed

lemma calls_ok:
  assumes "ok x" "calls (C x) ops s = (evs, s')" "holds x s \<le> H"
  shows "events_ok H evs"
  using assms(2,3)
proof (induction ops arbitrary: s evs H)
  case Nil
  then show ?case by simp
next
  case (Cons op ops)
  obtain ev s1 evs1 where 1: "call (C x) op s = (ev, s1)" "calls (C x) ops s1 = (evs1, s')" "evs = ev # evs1"
    using Cons.prems(1) by (auto split: prod.splits)
  have "event_ok H ev" using call_ok(1) [OF assms(1) 1(1)] Cons.prems(2) by (rule event_ok_mono)
  moreover have "holds x s1 \<le> after_event H ev"
    using call_ok(2) [OF assms(1) 1(1)] after_event_mono [OF Cons.prems(2)] by (rule order_trans)
  ultimately show ?case using Cons.IH [OF 1(2)] 1(3) by simp
qed

end

section \<open>The memory cache has the contract\<close>

text \<open>
  What is relied on of otter: \<open>entries\<close> are its live entries; a call may lose entries, \<^verbatim>\<open>Set\<close> adds its
  own, \<^verbatim>\<open>Invalidate\<close> removes its own, and \<^verbatim>\<open>Get\<close> answers from the entries or calls the loader once
  and keeps its value.
\<close>

definition otter_ok :: "('o, 'v, 'w) otter \<Rightarrow> ('o \<Rightarrow> string \<Rightarrow> 'v option) \<Rightarrow> bool" where
  "otter_ok lib entries \<longleftrightarrow>
     (\<forall>m t o1. otNew lib m t = Inr o1 \<longrightarrow> entries o1 = Map.empty) \<and>
     (\<forall>k o1 r o2. GetIfPresent lib k o1 = (r, o2) \<longrightarrow>
        entries o2 \<subseteq>\<^sub>m entries o1 \<and> (\<forall>v. r = Some v \<longrightarrow> entries o1 k = Some v)) \<and>
     (\<forall>k v o1. entries (otSet lib k v o1) \<subseteq>\<^sub>m (entries o1)(k \<mapsto> v)) \<and>
     (\<forall>k d o1. entries (SetExpiresAfter lib k d o1) \<subseteq>\<^sub>m entries o1) \<and>
     (\<forall>k o1. entries (Invalidate lib k o1) \<subseteq>\<^sub>m (entries o1)(k := None)) \<and>
     (\<forall>k loader o1 w v err o2 w'. otGet lib k loader (o1, w) = ((v, err), (o2, w')) \<longrightarrow>
        w' = w \<and> err = None \<and> entries o1 k = Some v \<and> entries o2 \<subseteq>\<^sub>m entries o1 \<or>
        (\<exists>u e. loader k w = ((u, Some e), w') \<and> err = Some e \<and> entries o2 \<subseteq>\<^sub>m entries o1) \<or>
        loader k w = ((v, None), w') \<and> err = None \<and> entries o2 \<subseteq>\<^sub>m (entries o1)(k \<mapsto> v))"

definition memory_holds :: "('o \<Rightarrow> string \<Rightarrow> 'v option) \<Rightarrow> 'o \<Rightarrow> string \<Rightarrow> 'v set" where
  "memory_holds entries o1 k = set_option (entries o1 k)"

lemma memory_holds_mono: "entries o2 \<subseteq>\<^sub>m M \<Longrightarrow> (\<And>j. set_option (M j) \<subseteq> H j) \<Longrightarrow> memory_holds entries o2 \<le> H"
  by (force simp: memory_holds_def map_le_def le_fun_def dom_def)

lemma otter_okD:
  assumes "otter_ok lib entries"
  shows "otNew lib m t = Inr o1 \<Longrightarrow> entries o1 = Map.empty"
    and "GetIfPresent lib k o1 = (r, o2) \<Longrightarrow> entries o2 \<subseteq>\<^sub>m entries o1"
    and "GetIfPresent lib k o1 = (Some v, o2) \<Longrightarrow> entries o1 k = Some v"
    and "entries (otSet lib k v o1) \<subseteq>\<^sub>m (entries o1)(k \<mapsto> v)"
    and "entries (SetExpiresAfter lib k d o1) \<subseteq>\<^sub>m entries o1"
    and "entries (Invalidate lib k o1) \<subseteq>\<^sub>m (entries o1)(k := None)"
    and "otGet lib k loader (o1, w) = ((v, err), (o2, w')) \<Longrightarrow>
        w' = w \<and> err = None \<and> entries o1 k = Some v \<and> entries o2 \<subseteq>\<^sub>m entries o1 \<or>
        (\<exists>u e. loader k w = ((u, Some e), w') \<and> err = Some e \<and> entries o2 \<subseteq>\<^sub>m entries o1) \<or>
        loader k w = ((v, None), w') \<and> err = None \<and> entries o2 \<subseteq>\<^sub>m (entries o1)(k \<mapsto> v)"
proof -
  note laws = assms [unfolded otter_ok_def]
  show "otNew lib m t = Inr o1 \<Longrightarrow> entries o1 = Map.empty" using conjunct1 [OF laws] by blast
  note laws = conjunct2 [OF laws]
  show "GetIfPresent lib k o1 = (r, o2) \<Longrightarrow> entries o2 \<subseteq>\<^sub>m entries o1"
    "GetIfPresent lib k o1 = (Some v, o2) \<Longrightarrow> entries o1 k = Some v" using conjunct1 [OF laws] by blast+
  note laws = conjunct2 [OF laws]
  show "entries (otSet lib k v o1) \<subseteq>\<^sub>m (entries o1)(k \<mapsto> v)" using conjunct1 [OF laws] by blast
  note laws = conjunct2 [OF laws]
  show "entries (SetExpiresAfter lib k d o1) \<subseteq>\<^sub>m entries o1" using conjunct1 [OF laws] by blast
  note laws = conjunct2 [OF laws]
  show "entries (Invalidate lib k o1) \<subseteq>\<^sub>m (entries o1)(k := None)" using conjunct1 [OF laws] by blast
  note laws = conjunct2 [OF laws]
  show "otGet lib k loader (o1, w) = ((v, err), (o2, w')) \<Longrightarrow>
        w' = w \<and> err = None \<and> entries o1 k = Some v \<and> entries o2 \<subseteq>\<^sub>m entries o1 \<or>
        (\<exists>u e. loader k w = ((u, Some e), w') \<and> err = Some e \<and> entries o2 \<subseteq>\<^sub>m entries o1) \<or>
        loader k w = ((v, None), w') \<and> err = None \<and> entries o2 \<subseteq>\<^sub>m (entries o1)(k \<mapsto> v)"
    by (rule laws [rule_format])
qed

lemma memory_shrink: "entries o2 \<subseteq>\<^sub>m entries o1 \<Longrightarrow> memory_holds entries o2 \<le> memory_holds entries o1"
  by (erule memory_holds_mono) (simp add: memory_holds_def)

lemma memory_update:
  "entries o2 \<subseteq>\<^sub>m (entries o1)(k \<mapsto> v) \<Longrightarrow> memory_holds entries o2 \<le> written k v None (memory_holds entries o1)"
  by (erule memory_holds_mono) (simp add: memory_holds_def written_def)

lemma memory_get:
  assumes ok: "otter_ok lib entries" and eq: "memory_Get lib zero k o1 = ((v, err), o2)"
  shows "memory_holds entries o2 \<le> memory_holds entries o1 \<and> (err = None \<longrightarrow> v \<in> memory_holds entries o1 k)"
proof -
  obtain r where r: "GetIfPresent lib k o1 = (r, o2)" and ans: "(v, err) = (case r of None \<Rightarrow> (zero, Some ErrNotFound) | Some u \<Rightarrow> (u, None))"
    using eq by (auto simp: memory_Get_def split: prod.splits option.splits)
  show ?thesis
  proof (cases r)
    case None
    with ans show ?thesis using memory_shrink [of entries, OF otter_okD(2) [OF ok r]] by simp
  next
    case (Some u)
    with r have "entries o1 k = Some u" by (intro otter_okD(3) [OF ok]) simp
    with Some ans show ?thesis
      using memory_shrink [of entries, OF otter_okD(2) [OF ok r]] by (simp add: memory_holds_def [of entries o1 k])
  qed
qed

lemma memory_set:
  assumes ok: "otter_ok lib entries" and eq: "memory_Set lib k v os o1 = (err, o2)"
  shows "memory_holds entries o2 \<le> written k v err (memory_holds entries o1)"
proof -
  have "entries o2 \<subseteq>\<^sub>m entries (otSet lib k v o1)" "err = None"
    using eq otter_okD(5) [OF ok, of k "TTL (applyOptions os)" "otSet lib k v o1"]
    by (auto simp: memory_Set_def Let_def split: if_splits)
  then show ?thesis
    using memory_update [of entries, OF map_le_trans [OF _ otter_okD(4) [OF ok]]] by simp
qed

lemma memory_del:
  assumes ok: "otter_ok lib entries" and eq: "memory_Delete lib k o1 = (err, o2)"
  shows "memory_holds entries o2 \<le> deleted k err (memory_holds entries o1)"
proof -
  have "entries o2 \<subseteq>\<^sub>m (entries o1)(k := None)" "err = None"
    using eq otter_okD(6) [OF ok, of k o1] by (auto simp: memory_Delete_def)
  then show ?thesis by - (erule memory_holds_mono, simp add: deleted_def memory_holds_def)
qed

lemma memory_load:
  assumes ok: "otter_ok lib entries" and eq: "memory_GetOrLoad lib k loader (o1, w) = ((v, err), (o2, w'))"
  shows "load_spec loader k (memory_holds entries o1) (memory_holds entries o2) w w' v err"
  using otter_okD(7) [OF ok eq [unfolded memory_GetOrLoad_def]]
proof (elim disjE exE conjE)
  assume "w' = w" "err = None" "entries o1 k = Some v" "entries o2 \<subseteq>\<^sub>m entries o1"
  then show ?thesis by (simp add: load_spec_def memory_shrink memory_holds_def [of _ _ k])
next
  fix u e assume "loader k w = ((u, Some e), w')" "err = Some e" "entries o2 \<subseteq>\<^sub>m entries o1"
  then show ?thesis by (simp add: load_spec_def memory_shrink)
next
  assume "loader k w = ((v, None), w')" "err = None" "entries o2 \<subseteq>\<^sub>m (entries o1)(k \<mapsto> v)"
  then show ?thesis by (simp add: load_spec_def memory_update)
qed

interpretation memory_cache: cache_contract "\<lambda>(lib, entries, zero). otter_ok lib entries"
  "\<lambda>(lib, entries, zero). memoryCache lib zero" "\<lambda>(lib, entries, zero). memory_holds entries"
  by unfold_locales (auto simp: memoryCache_def dest: memory_get memory_set memory_del memory_load)

section \<open>The Redis cache has the contract\<close>

text \<open>
  What is relied on of the server and its client: \<open>stored\<close> are the byte strings a key may still have
  (no other program writes the keys); a call that reports success has happened, one that reports an
  error may have happened.
\<close>

definition redis_ok :: "'r redis_client \<Rightarrow> ('r \<Rightarrow> string \<Rightarrow> string set) \<Rightarrow> bool" where
  "redis_ok cl stored \<longleftrightarrow>
     (\<forall>k r res r1. rdGet cl k r = (res, r1) \<longrightarrow> stored r1 \<le> stored r \<and> (\<forall>d. res = Inr d \<longrightarrow> d \<in> stored r k)) \<and>
     (\<forall>k d t r err r1. rdSet cl k d t r = (err, r1) \<longrightarrow> stored r1 \<le> written k d err (stored r)) \<and>
     (\<forall>k r err r1. rdDel cl k r = (err, r1) \<longrightarrow> stored r1 \<le> deleted k err (stored r))"

definition codec_ok :: "'v Codec \<Rightarrow> bool" where
  "codec_ok cd \<longleftrightarrow> (\<forall>v d. Marshal cd v = Inr d \<longrightarrow> Unmarshal cd d = Inr v)"

definition redis_holds :: "('r, 'v, 'w) redisCache \<Rightarrow> ('r \<Rightarrow> string \<Rightarrow> string set) \<Rightarrow> 'r \<Rightarrow> string \<Rightarrow> 'v set" where
  "redis_holds c stored r k = {v. \<exists>d\<in>stored r (redis_key c k). Unmarshal (codec c) d = Inr v}"

definition redis_cache_ok :: "('r, 'v, 'w) redisCache \<Rightarrow> ('r \<Rightarrow> string \<Rightarrow> string set) \<Rightarrow> bool" where
  "redis_cache_ok c stored \<longleftrightarrow> redis_ok (client c) stored \<and> codec_ok (codec c) \<and> sf_alone (sf c)"

lemma redis_key_inj: "redis_key c j = redis_key c k \<longleftrightarrow> j = k"
  by (auto simp: redis_key_def split: if_splits)

lemma redis_shrink: "stored r1 \<le> stored r \<Longrightarrow> redis_holds c stored r1 \<le> redis_holds c stored r"
  by (force simp: redis_holds_def le_fun_def)

lemma redis_get:
  assumes ok: "redis_cache_ok c stored" and eq: "redis_Get c zero k r = ((v, err), r1)"
  shows "redis_holds c stored r1 \<le> redis_holds c stored r \<and> (err = None \<longrightarrow> v \<in> redis_holds c stored r k)"
proof -
  obtain res where res: "rdGet (client c) (redis_key c k) r = (res, r1)"
    using eq by (auto simp: redis_Get_def split: prod.splits sum.splits if_splits)
  with ok have "stored r1 \<le> stored r" "\<And>d. res = Inr d \<Longrightarrow> d \<in> stored r (redis_key c k)"
    by (auto simp: redis_cache_ok_def redis_ok_def)
  with eq res show ?thesis
    by (auto simp: redis_Get_def redis_holds_def [of c stored r k] intro: redis_shrink split: sum.splits if_splits)
qed

lemma redis_set:
  assumes ok: "redis_cache_ok c stored" and eq: "redis_Set c k v os r = (err, r1)"
  shows "redis_holds c stored r1 \<le> written k v err (redis_holds c stored r)"
proof (cases "Marshal (codec c) v")
  case (Inl e)
  with eq show ?thesis by (auto simp: redis_Set_def written_def le_fun_def)
next
  case (Inr d)
  obtain e where e: "rdSet (client c) (redis_key c k) d (redis_ttl c os) r = (e, r1)" "(err = None) = (e = None)"
    using eq Inr by (auto simp: redis_Set_def split: prod.splits option.splits)
  have "stored r1 \<le> written (redis_key c k) d e (stored r)" using ok e(1) by (auto simp: redis_cache_ok_def redis_ok_def)
  then have le: "stored r1 (redis_key c j) \<subseteq> (if j = k then (if err = None then {d} else insert d (stored r (redis_key c k)))
      else stored r (redis_key c j))" for j
    using e(2) le_funD [of "stored r1" _ "redis_key c j"] by (fastforce simp: written_def redis_key_inj)
  have "Unmarshal (codec c) d = Inr v" using ok Inr by (auto simp: redis_cache_ok_def codec_ok_def)
  show ?thesis
  proof (rule le_funI)
    fix j show "redis_holds c stored r1 j \<subseteq> written k v err (redis_holds c stored r) j"
      using le [of j] \<open>Unmarshal (codec c) d = Inr v\<close>
      by (cases "j = k"; cases err) (auto simp: written_def redis_holds_def)
  qed
qed

lemma redis_del:
  assumes ok: "redis_cache_ok c stored" and eq: "redis_Delete c k r = (err, r1)"
  shows "redis_holds c stored r1 \<le> deleted k err (redis_holds c stored r)"
proof -
  obtain e where e: "rdDel (client c) (redis_key c k) r = (e, r1)" "(err = None) = (e = None)"
    using eq by (auto simp: redis_Delete_def split: prod.splits option.splits)
  have "stored r1 \<le> deleted (redis_key c k) e (stored r)" using ok e(1) by (auto simp: redis_cache_ok_def redis_ok_def)
  then have "stored r1 (redis_key c j) \<subseteq> (if j = k \<and> err = None then {} else stored r (redis_key c j))" for j
    using e(2) le_funD [of "stored r1" _ "redis_key c j"] by (fastforce simp: deleted_def redis_key_inj)
  then have le: "stored r1 (redis_key c j) \<subseteq> (if j = k \<and> err = None then {} else stored r (redis_key c j))" for j .
  show ?thesis
  proof (rule le_funI)
    fix j show "redis_holds c stored r1 j \<subseteq> deleted k err (redis_holds c stored r) j"
      using le [of j] by (cases "j = k"; cases err) (auto simp: deleted_def redis_holds_def)
  qed
qed

lemma redis_GetOrLoad_ok:
  assumes ok: "redis_cache_ok c stored" and eq: "redis_GetOrLoad c zero k loader (r, w) = ((v, err), (r1, w'))"
  shows "load_spec loader k (redis_holds c stored r) (redis_holds c stored r1) w w' v err"
proof -
  obtain v0 err0 r0 where get: "redis_Get c zero k r = ((v0, err0), r0)" by (metis prod.exhaust)
  note g = redis_get [OF ok get]
  have alone: "sf_Do (sf c) k f sw = f sw" for f sw using ok by (cases sw) (simp add: redis_cache_ok_def sf_alone_def sf_Do_def)
  show ?thesis
  proof (cases "err0 = Some ErrNotFound")
    case False
    with eq get g show ?thesis by (auto simp: redis_GetOrLoad_def load_spec_def split: option.splits)
  next
    case True
    obtain u e w1 where ld: "loader k w = ((u, e), w1)" by (metis prod.exhaust)
    show ?thesis
    proof (cases e)
      case (Some e')
      with True eq get g ld show ?thesis by (auto simp: redis_GetOrLoad_def redis_load_def alone load_spec_def)
    next
      case None
      obtain se r2 where st: "redis_Set c k u [] r0 = (se, r2)" by force
      have "redis_holds c stored r2 \<le> written k u se (redis_holds c stored r)"
        using redis_set [OF ok st] written_mono [OF conjunct1 [OF g]] by (rule order_trans)
      then show ?thesis
        using True eq get ld None st
        by (cases se) (auto simp: redis_GetOrLoad_def redis_load_def alone load_spec_def written_def)
    qed
  qed
qed

interpretation redis_cache: cache_contract "\<lambda>(c, stored, zero). redis_cache_ok c stored"
  "\<lambda>(c, stored, zero). redis_Cache c zero" "\<lambda>(c, stored, zero). redis_holds c stored"
  by unfold_locales (auto simp: redis_Cache_def dest: redis_get redis_set redis_del redis_GetOrLoad_ok)

section \<open>The two-level cache over any two caches\<close>

text \<open>
  The two-level cache ignores the errors of its local cache, so it relies on local writes and
  deletes that do not fail; with that, it has the contract whenever both levels have it.
\<close>

definition two_holds :: "('a \<Rightarrow> 'l \<Rightarrow> string \<Rightarrow> 'v set) \<Rightarrow> ('b \<Rightarrow> 'r \<Rightarrow> string \<Rightarrow> 'v set) \<Rightarrow> 'a \<Rightarrow> 'b \<Rightarrow> 'l \<times> 'r \<Rightarrow>
    string \<Rightarrow> 'v set" where
  "two_holds hl hr a b lr k = hl a (fst lr) k \<union> hr b (snd lr) k"

lemma two_holds_mono:
  "hl a l' \<le> H \<Longrightarrow> hr b r' \<le> H \<Longrightarrow> two_holds hl hr a b (l', r') \<le> H"
  by (auto simp: two_holds_def le_fun_def)

lemma two_holds_shrink:
  "hl a l' \<le> hl a l \<Longrightarrow> hr b r' \<le> hr b r \<Longrightarrow> two_holds hl hr a b (l', r') \<le> two_holds hl hr a b (l, r)"
  by (rule two_holds_mono) (auto simp: two_holds_def le_fun_def)

lemma two_holds_sides: "hl a l \<le> two_holds hl hr a b (l, r)" "hr b r \<le> two_holds hl hr a b (l, r)"
  by (auto simp: two_holds_def le_fun_def)

lemma written_member: "v \<in> H k \<Longrightarrow> written k v None H \<le> H"
  by (auto simp: written_def le_fun_def)

lemma written_unwritten: "H \<le> written k v (Some e) H"
  by (auto simp: written_def le_fun_def)

locale two_caches =
  L: cache_contract okL CL holdsL + R: cache_contract okR CR holdsR
  for okL :: "'a \<Rightarrow> bool" and CL :: "'a \<Rightarrow> ('l, 'v, 'w) Cache" and holdsL :: "'a \<Rightarrow> 'l \<Rightarrow> string \<Rightarrow> 'v set"
    and okR :: "'b \<Rightarrow> bool" and CR :: "'b \<Rightarrow> ('r, 'v, 'w) Cache" and holdsR :: "'b \<Rightarrow> 'r \<Rightarrow> string \<Rightarrow> 'v set" +
  assumes local_set: "okL a \<Longrightarrow> fst (cSet (CL a) k v os l) = None"
    and local_delete: "okL a \<Longrightarrow> fst (cDelete (CL a) k l) = None"
begin

lemma local_write:
  "okL a \<Longrightarrow> holdsL a (snd (cSet (CL a) k v os l)) \<le> written k v None (holdsL a l)"
  using L.set [of a k v os l] local_set [of a k v os l] by (cases "cSet (CL a) k v os l") simp

lemma local_del: "okL a \<Longrightarrow> holdsL a (snd (cDelete (CL a) k l)) \<le> deleted k None (holdsL a l)"
  using L.del [of a k l] local_delete [of a k l] by (cases "cDelete (CL a) k l") simp

lemma two_get:
  assumes ok: "okL a" "okR b" and eq: "twolevel_Get (CL a) (CR b) k (l, r) = ((v, err), (l', r'))"
  shows "two_holds holdsL holdsR a b (l', r') \<le> two_holds holdsL holdsR a b (l, r) \<and>
    (err = None \<longrightarrow> v \<in> two_holds holdsL holdsR a b (l, r) k)"
proof -
  let ?H = "two_holds holdsL holdsR a b (l, r)"
  obtain v1 e1 l1 where g1: "cGet (CL a) k l = ((v1, e1), l1)" by (metis prod.exhaust)
  obtain v2 e2 r2 where g2: "cGet (CR b) k r = ((v2, e2), r2)" by (metis prod.exhaust)
  note l1 = L.get [OF ok(1) g1] and r2 = R.get [OF ok(2) g2]
  note sides = two_holds_sides(1) [of holdsL a l holdsR b r] two_holds_sides(2) [of holdsR b r holdsL a l]
  have "l' = l1 \<and> r' = r \<and> v = v1 \<and> err = e1 \<or> l' = l1 \<and> r' = r2 \<and> err \<noteq> None \<or>
    l' = snd (cSet (CL a) k v2 [] l1) \<and> r' = r2 \<and> v = v2 \<and> err = None \<and> e2 = None"
    using eq by (cases e1; cases e2)
      (auto simp: twolevel_Get_def twolevel_lookup_def twolevel_backfill_def g1 g2 split: if_splits)
  then consider "l' = l1" "r' = r" "v = v1" "err = e1" | "l' = l1" "r' = r2" "err \<noteq> None"
    | "l' = snd (cSet (CL a) k v2 [] l1)" "r' = r2" "v = v2" "err = None" "e2 = None" by blast
  then show ?thesis
  proof cases
    case 1
    then show ?thesis
      using l1 two_holds_shrink [of holdsL a l1 l holdsR b r r] le_funD [OF sides(1), of k] by auto
  next
    case 2
    then show ?thesis using l1 r2 two_holds_shrink [of holdsL a l1 l holdsR b r2 r] by auto
  next
    case 3
    then have v: "v2 \<in> ?H k" using r2 by (simp add: two_holds_def)
    have "holdsL a l' \<le> written k v2 None ?H"
      using 3(1) order_trans [OF local_write [OF ok(1)] written_mono [OF order_trans [OF conjunct1 [OF l1] sides(1)]]] by simp
    then have "holdsL a l' \<le> ?H" using written_member [of v2 ?H k, OF v] by (rule order_trans)
    then show ?thesis using 3 v r2 order_trans [OF conjunct1 [OF r2] sides(2)] two_holds_mono [of holdsL a l' ?H holdsR b r'] by simp
  qed
qed

lemma two_set:
  assumes ok: "okL a" "okR b" and eq: "twolevel_Set (CL a) (CR b) k v os (l, r) = (err, (l', r'))"
  shows "two_holds holdsL holdsR a b (l', r') \<le> written k v err (two_holds holdsL holdsR a b (l, r))"
proof -
  note sides = two_holds_sides(1) [of holdsL a l holdsR b r] two_holds_sides(2) [of holdsR b r holdsL a l]
  have R: "holdsR b r' \<le> written k v err (two_holds holdsL holdsR a b (l, r))"
  proof -
    have "cSet (CR b) k v os r = (err, r')" using eq by (auto simp: twolevel_Set_def split: prod.splits option.splits)
    then show ?thesis using order_trans [OF R.set [OF ok(2)] written_mono [OF sides(2)]] by simp
  qed
  have "holdsL a l' \<le> written k v err (two_holds holdsL holdsR a b (l, r))"
  proof (cases err)
    case None
    then have "l' = snd (cSet (CL a) k v os l)" using eq by (auto simp: twolevel_Set_def split: prod.splits option.splits)
    then show ?thesis using order_trans [OF local_write [OF ok(1)] written_mono [OF sides(1)]] None by simp
  next
    case (Some e)
    then have "l' = l" using eq by (auto simp: twolevel_Set_def split: prod.splits option.splits)
    then show ?thesis using order_trans [OF sides(1) written_unwritten] Some by simp
  qed
  then show ?thesis using R by (rule two_holds_mono)
qed

lemma two_del:
  assumes ok: "okL a" "okR b" and eq: "twolevel_Delete (CL a) (CR b) k (l, r) = (err, (l', r'))"
  shows "two_holds holdsL holdsR a b (l', r') \<le> deleted k err (two_holds holdsL holdsR a b (l, r))"
proof -
  note sides = two_holds_sides(1) [of holdsL a l holdsR b r] two_holds_sides(2) [of holdsR b r holdsL a l]
  have "cDelete (CR b) k r = (err, r')" and l': "l' = snd (cDelete (CL a) k l)"
    using eq by (auto simp: twolevel_Delete_def split: prod.splits)
  then have R: "holdsR b r' \<le> deleted k err (two_holds holdsL holdsR a b (l, r))"
    using order_trans [OF R.del [OF ok(2)] deleted_mono [OF sides(2)]] by simp
  have "deleted k None (holdsL a l) \<le> deleted k err (two_holds holdsL holdsR a b (l, r))"
    using sides(1) by (auto simp: deleted_def le_fun_def)
  then have "holdsL a l' \<le> deleted k err (two_holds holdsL holdsR a b (l, r))"
    using order_trans [OF local_del [OF ok(1)]] l' by simp
  then show ?thesis using R by (rule two_holds_mono)
qed

text \<open>The loading part answers with an error, with a value the remote cache may hold, or with the loaded value.\<close>

lemma two_load_part:
  assumes ok: "okR b" and eq: "twolevel_load (CR b) k loader ((l, r), w) = (res, ((l', r'), w'))"
  shows "l' = l \<and>
    (w' = w \<and> holdsR b r' \<le> holdsR b r \<and> (\<forall>v. res = Inr v \<longrightarrow> v \<in> holdsR b r k) \<or>
     (\<exists>u e. loader k w = ((u, Some e), w') \<and> res = Inl e \<and> holdsR b r' \<le> holdsR b r) \<or>
     (\<exists>u err. loader k w = ((u, None), w') \<and> holdsR b r' \<le> written k u err (holdsR b r) \<and>
        (case res of Inl e \<Rightarrow> err \<noteq> None | Inr v \<Rightarrow> v = u \<and> err = None)))"
proof -
  obtain v2 e2 r2 where g2: "cGet (CR b) k r = ((v2, e2), r2)" by (metis prod.exhaust)
  obtain u e w1 where ld: "loader k w = ((u, e), w1)" by (metis prod.exhaust)
  obtain se r3 where st: "cSet (CR b) k u [] r2 = (se, r3)" by force
  note r2 = R.get [OF ok g2]
  have r3: "holdsR b r3 \<le> written k u se (holdsR b r)"
    using R.set [OF ok st] written_mono [OF conjunct1 [OF r2]] by (rule order_trans)
  show ?thesis
  proof (cases "\<exists>x. e2 = Some x \<and> errors_Is x ErrNotFound")
    case False
    then show ?thesis using eq r2 by (auto simp: twolevel_load_def g2 split: option.splits if_splits)
  next
    case miss: True
    show ?thesis
    proof (cases e)
      case (Some x)
      then show ?thesis using eq r2 miss by (auto simp: twolevel_load_def g2 ld)
    next
      case None
      then show ?thesis
        using eq r3 miss by (cases se) (auto simp: twolevel_load_def g2 ld st intro!: exI [of _ se])
    qed
  qed
qed

lemma both: "holdsL a l \<le> H \<Longrightarrow> holdsR b r \<le> H \<Longrightarrow> two_holds holdsL holdsR a b (l, r) \<le> H"
  by (rule two_holds_mono)

lemma two_load_error:
  assumes ok: "okR b" and l1: "holdsL a l1 \<le> two_holds holdsL holdsR a b (l, r)"
    and ld: "twolevel_load (CR b) k loader ((l1, r), w) = (Inl e, ((l2, r2), w2))"
  shows "load_spec loader k (two_holds holdsL holdsR a b (l, r)) (two_holds holdsL holdsR a b (l2, r2)) w w2 v (Some e)"
proof -
  let ?H = "two_holds holdsL holdsR a b (l, r)"
  note part = two_load_part [OF ok ld] and R = two_holds_sides(2) [of holdsR b r holdsL a l]
  have l2: "holdsL a l2 \<le> ?H" using part l1 by simp
  from conjunct2 [OF part] show ?thesis
  proof (elim conjE disjE exE)
    assume "w2 = w" "holdsR b r2 \<le> holdsR b r"
    then show ?thesis using both [OF l2 order_trans [OF _ R]] by (simp add: load_spec_def)
  next
    fix u e' assume "loader k w = ((u, Some e'), w2)" "(Inl e :: goerr + 'v) = Inl e'" "holdsR b r2 \<le> holdsR b r"
    then show ?thesis using both [OF l2 order_trans [OF _ R]] by (simp add: load_spec_def)
  next
    fix u x assume u: "loader k w = ((u, None), w2)" and r2: "holdsR b r2 \<le> written k u x (holdsR b r)"
      and "case Inl e :: goerr + 'v of Inl e \<Rightarrow> x \<noteq> None | Inr v \<Rightarrow> v = u \<and> x = None"
    then have "written k u x (holdsR b r) \<le> written k u (Some e) ?H"
      using written_mono [OF R, of k u "Some e"] by (auto simp: written_def)
    then have "holdsR b r2 \<le> written k u (Some e) ?H" by (rule order_trans [OF r2])
    then show ?thesis using both [OF order_trans [OF l2 written_unwritten]] u by (simp add: load_spec_def)
  qed
qed

lemma two_load_value:
  assumes ok: "okL a" "okR b" and l1: "holdsL a l1 \<le> two_holds holdsL holdsR a b (l, r)"
    and ld: "twolevel_load (CR b) k loader ((l1, r), w) = (Inr u, ((l2, r2), w2))"
  shows "load_spec loader k (two_holds holdsL holdsR a b (l, r))
    (two_holds holdsL holdsR a b (snd (cSet (CL a) k u [] l2), r2)) w w2 u None"
proof -
  let ?H = "two_holds holdsL holdsR a b (l, r)"
  note part = two_load_part [OF ok(2) ld] and R = two_holds_sides(2) [of holdsR b r holdsL a l]
  have "holdsL a l2 \<le> ?H" using part l1 by simp
  then have L: "holdsL a (snd (cSet (CL a) k u [] l2)) \<le> written k u None ?H"
    using order_trans [OF local_write [OF ok(1)] written_mono] by blast
  from conjunct2 [OF part] show ?thesis
  proof (elim conjE disjE exE)
    assume "w2 = w" and r2: "holdsR b r2 \<le> holdsR b r" and "\<forall>v. (Inr u :: goerr + 'v) = Inr v \<longrightarrow> v \<in> holdsR b r k"
    then have v: "u \<in> ?H k" using le_funD [OF R, of k] by auto
    then show ?thesis
      using \<open>w2 = w\<close> both [OF order_trans [OF L written_member [of u ?H k, OF v]] order_trans [OF r2 R]]
      by (simp add: load_spec_def)
  next
    fix x e' assume "(Inr u :: goerr + 'v) = Inl e'" then show ?thesis by simp
  next
    fix u' x assume u: "loader k w = ((u', None), w2)" and r2: "holdsR b r2 \<le> written k u' x (holdsR b r)"
      and "case Inr u :: goerr + 'v of Inl e \<Rightarrow> x \<noteq> None | Inr v \<Rightarrow> v = u' \<and> x = None"
    then have "holdsR b r2 \<le> written k u None ?H" using order_trans [OF r2 written_mono [OF R]] by simp
    then show ?thesis
      using both [OF L] u \<open>case Inr u :: goerr + 'v of Inl e \<Rightarrow> x \<noteq> None | Inr v \<Rightarrow> v = u' \<and> x = None\<close>
      by (simp add: load_spec_def)
  qed
qed

lemma two_GetOrLoad:
  assumes ok: "okL a" "okR b" "sf_alone flights"
    and eq: "twolevel_GetOrLoad (CL a) (CR b) flights zero k loader ((l, r), w) = ((v, err), ((l', r'), w'))"
  shows "load_spec loader k (two_holds holdsL holdsR a b (l, r)) (two_holds holdsL holdsR a b (l', r')) w w' v err"
proof -
  let ?H = "two_holds holdsL holdsR a b (l, r)"
  obtain v1 e1 l1 where g1: "cGet (CL a) k l = ((v1, e1), l1)" by (metis prod.exhaust)
  obtain res l2 r2 w2 where ld: "twolevel_load (CR b) k loader ((l1, r), w) = (res, ((l2, r2), w2))"
    by (metis prod.exhaust)
  note l1 = L.get [OF ok(1) g1]
  note sides = two_holds_sides(1) [of holdsL a l holdsR b r] two_holds_sides(2) [of holdsR b r holdsL a l]
  have l1H: "holdsL a l1 \<le> ?H" using order_trans [OF conjunct1 [OF l1] sides(1)] .
  have run: "sf_Do flights k f ((l1, r), w) = f ((l1, r), w)" for f using ok(3) by (simp add: sf_alone_def sf_Do_def)
  show ?thesis
  proof (cases e1)
    case None
    then have "v = v1" "err = None" "l' = l1" "r' = r" "w' = w" using eq by (auto simp: twolevel_GetOrLoad_def g1)
    with None l1 le_funD [OF sides(1), of k] both [OF l1H sides(2)] show ?thesis by (auto simp: load_spec_def)
  next
    case (Some x)
    show ?thesis
    proof (cases res)
      case (Inl e)
      then show ?thesis
        using two_load_error [OF ok(2) l1H ld [unfolded Inl], of v] eq Some
        by (simp add: twolevel_GetOrLoad_def g1 run ld)
    next
      case (Inr u)
      then show ?thesis
        using two_load_value [OF ok(1,2) l1H ld [unfolded Inr]] eq Some
        by (auto simp: twolevel_GetOrLoad_def g1 run ld)
    qed
  qed
qed

end

sublocale two_caches \<subseteq> two: cache_contract "\<lambda>(a, b, flights, zero). okL a \<and> okR b \<and> sf_alone flights"
  "\<lambda>(a, b, flights, zero). twoLevelCache (CL a) (CR b) flights zero"
  "\<lambda>(a, b, flights, zero). two_holds holdsL holdsR a b"
  by unfold_locales
    (auto simp: twoLevelCache_def dest: two_get two_set two_del two_GetOrLoad)

interpretation twolevel: two_caches "\<lambda>(lib, entries, zero). otter_ok lib entries"
  "\<lambda>(lib, entries, zero). memoryCache lib zero" "\<lambda>(lib, entries, zero). memory_holds entries"
  "\<lambda>(c, stored, zero). redis_cache_ok c stored"
  "\<lambda>(c, stored, zero). redis_Cache c zero" "\<lambda>(c, stored, zero). redis_holds c stored"
  by unfold_locales (auto simp: memoryCache_def memory_Set_def memory_Delete_def Let_def)

interpretation twolevel_client: cache_client
  "\<lambda>(a, b, flights, zero). (\<lambda>(lib, entries, zero). otter_ok lib entries) a \<and>
     (\<lambda>(c, stored, zero). redis_cache_ok c stored) b \<and> sf_alone flights"
  "\<lambda>(a, b, flights, zero). twoLevelCache ((\<lambda>(lib, entries, zero). memoryCache lib zero) a)
     ((\<lambda>(c, stored, zero). redis_Cache c zero) b) flights zero"
  "\<lambda>(a, b, flights, zero). two_holds (\<lambda>(lib, entries, zero). memory_holds entries)
     (\<lambda>(c, stored, zero). redis_holds c stored) a b"
  by (rule cache_client.intro) (rule twolevel.two.cache_contract_axioms)

section \<open>Properties\<close>

lemma NewMemory_Inr:
  "NewMemory lib zero cfg = Inr (cache, o1) \<Longrightarrow>
     cache = memoryCache lib zero \<and> (\<exists>m t. otNew lib m t = Inr o1)"
  by (auto simp: NewMemory_def split: if_splits sum.splits)

lemma NewRedis_Inr:
  "NewRedis J rfl cfg = Inr c \<longleftrightarrow>
     Client cfg = Some (client c) \<and> DefaultTTL cfg > 0 \<and> prefix c = Prefix cfg \<and> defaultTTL c = DefaultTTL cfg \<and>
     codec c = (case rCodec cfg of None \<Rightarrow> J | Some cd \<Rightarrow> cd) \<and> sf c = rfl"
  by (cases c) (auto simp: NewRedis_def split: option.splits)

lemma NewTwoLevel_Inr:
  assumes "NewTwoLevel lib J rfl fl zero cfg = Inr (cache, o1)"
  obtains c m t where "NewRedis J rfl (Remote cfg) = Inr c" "otNew lib m t = Inr o1"
    "cache = twoLevelCache (memoryCache lib zero) (redis_Cache c zero) fl zero"
  using assms by (auto simp: NewTwoLevel_def dest!: NewMemory_Inr split: sum.splits)


text \<open>
  Round trip of the two-level cache: after a \<^verbatim>\<open>Set\<close> that reported success, a \<^verbatim>\<open>Get\<close> of the key that
  reports success answers with exactly the value set, whether it comes from memory or is decoded from
  the bytes in Redis; a \<^verbatim>\<open>Set\<close> that fails leaves the local cache alone.
\<close>

theorem two_level_read_your_write:
  assumes "otter_ok lib entries" "redis_cache_ok c stored"
    and set: "twolevel_Set (memoryCache lib zero) (redis_Cache c zero) k v os (l, r) = (err, (l1, r1))"
    and get: "twolevel_Get (memoryCache lib zero) (redis_Cache c zero) k (l1, r1) = ((v', err'), s2)"
  shows "(err = None \<longrightarrow> err' = None \<longrightarrow> v' = v) \<and> (err \<noteq> None \<longrightarrow> l1 = l)"
proof -
  let ?h = "two_holds (\<lambda>(lib, entries, zero). memory_holds entries) (\<lambda>(c, stored, zero). redis_holds c stored)
    (lib, entries, zero) (c, stored, zero)"
  have "?h (l1, r1) \<le> written k v err (?h (l, r))"
    using twolevel.two_set [of "(lib, entries, zero)" "(c, stored, zero)" k v os l r err l1 r1] assms by simp
  moreover have "err' = None \<longrightarrow> v' \<in> ?h (l1, r1) k"
    using twolevel.two_get [of "(lib, entries, zero)" "(c, stored, zero)" k l1 r1 v' err' "fst s2" "snd s2"] assms
    by simp
  moreover have "err \<noteq> None \<longrightarrow> l1 = l" using set by (auto simp: twolevel_Set_def split: prod.splits option.splits)
  ultimately show ?thesis by (auto simp: written_def le_fun_def split: if_splits)
qed

text \<open>
  The local write of a \<^verbatim>\<open>Get\<close> is not ordered with other writers: when a \<^verbatim>\<open>Set\<close> of a new value
  completes between the remote read and the local write of a \<^verbatim>\<open>Get\<close>, the old value is written over
  the new one in the local cache, and later calls of \<^verbatim>\<open>Get\<close> answer with the old value.
\<close>

theorem backfill_overwrites_newer:
  assumes miss: "GetIfPresent lib k l = (None, l1)" and hit: "redis_Get c zero k r = ((v0, None), r1)"
    and set: "redis_Set c k v1 os r1 = (None, r2)" "memory_Set lib k v1 os l1 = (None, l2)"
    and kept: "GetIfPresent lib k (otSet lib k v0 l2) = (Some v0, l3)"
  shows "\<exists>vo. twolevel_lookup (memoryCache lib zero) (redis_Cache c zero) k (l, r) = ((v0, None), vo, (l1, r1)) \<and>
    twolevel_Set (memoryCache lib zero) (redis_Cache c zero) k v1 os (l1, r1) = (None, (l2, r2)) \<and>
    fst (twolevel_Get (memoryCache lib zero) (redis_Cache c zero) k
      (twolevel_backfill (memoryCache lib zero) k vo (l2, r2))) = (v0, None)"
proof (intro exI [of _ "Some v0"] conjI)
  show "twolevel_lookup (memoryCache lib zero) (redis_Cache c zero) k (l, r) = ((v0, None), Some v0, (l1, r1))"
    using miss hit by (simp add: twolevel_lookup_def memoryCache_def redis_Cache_def memory_Get_def)
  show "twolevel_Set (memoryCache lib zero) (redis_Cache c zero) k v1 os (l1, r1) = (None, (l2, r2))"
    using set by (simp add: twolevel_Set_def memoryCache_def redis_Cache_def)
  show "fst (twolevel_Get (memoryCache lib zero) (redis_Cache c zero) k
      (twolevel_backfill (memoryCache lib zero) k (Some v0) (l2, r2))) = (v0, None)"
    using kept by (simp add: twolevel_backfill_def twolevel_Get_def twolevel_lookup_def memoryCache_def memory_Set_def
        memory_Get_def applyOptions_def)
qed

section \<open>Witnesses\<close>

text \<open>A cache library and a server that keep everything, as finite maps, and the identity codec on strings.\<close>

definition demo_otter :: "(string \<rightharpoonup> 'v, 'v, 'w) otter" where
  "demo_otter = \<lparr>otNew = (\<lambda>_ _. Inr Map.empty), GetIfPresent = (\<lambda>k m. (m k, m)), otSet = (\<lambda>k v m. m(k \<mapsto> v)),
     SetExpiresAfter = (\<lambda>_ _ m. m), Invalidate = (\<lambda>k m. m(k := None)),
     otGet = (\<lambda>k loader (m, w). case m k of Some v \<Rightarrow> ((v, None), (m, w))
        | None \<Rightarrow> (case loader k w of ((v, Some e), w1) \<Rightarrow> ((v, Some e), (m, w1))
                    | ((v, None), w1) \<Rightarrow> ((v, None), (m(k \<mapsto> v), w1)))),
     StopAllGoroutines = id\<rparr>"

definition demo_rclient :: "(string \<rightharpoonup> string) redis_client" where
  "demo_rclient = \<lparr>rdGet = (\<lambda>k m. (case m k of None \<Rightarrow> Inl redis_Nil | Some d \<Rightarrow> Inr d, m)),
     rdSet = (\<lambda>k d _ m. (None, m(k \<mapsto> d))), rdDel = (\<lambda>k m. (None, m(k := None)))\<rparr>"

definition demo_codec :: "string Codec" where
  "demo_codec = \<lparr>Marshal = Inr, Unmarshal = Inr\<rparr>"

definition demo_two :: "(string \<rightharpoonup> string, string) TwoLevelConfig" where
  "demo_two = \<lparr>Local = \<lparr>MaxSize = 10, mDefaultTTL = 1\<rparr>,
     Remote = \<lparr>Client = Some demo_rclient, Prefix = ''p'', DefaultTTL = 5, rCodec = None\<rparr>\<rparr>"

definition demo_redis :: "(string \<rightharpoonup> string, string, 'w) redisCache" where
  "demo_redis = \<lparr>client = demo_rclient, prefix = ''p'', defaultTTL = 5, codec = demo_codec, sf = (\<lambda>_ _. None)\<rparr>"

lemma demo_otter_simps:
  "GetIfPresent demo_otter k m = (m k, m)" "otSet demo_otter k v m = m(k \<mapsto> v)"
  by (simp_all add: demo_otter_def)

lemma demo_otter_ok: "otter_ok demo_otter (\<lambda>m. m)"
  by (auto simp: otter_ok_def demo_otter_def split: option.splits prod.splits)

lemma demo_rclient_ok: "redis_ok demo_rclient (\<lambda>m k. set_option (m k))"
  by (auto simp: redis_ok_def demo_rclient_def written_def deleted_def le_fun_def split: option.splits)

lemma demo_redis_ok: "redis_cache_ok demo_redis (\<lambda>m k. set_option (m k))"
  using demo_rclient_ok by (simp add: redis_cache_ok_def demo_redis_def codec_ok_def demo_codec_def sf_alone_def)

lemma demo_NewTwoLevel:
  "NewTwoLevel demo_otter demo_codec (\<lambda>_ _. None) (\<lambda>_ _. None) [] demo_two =
     Inr (twoLevelCache (memoryCache demo_otter []) (redis_Cache demo_redis []) (\<lambda>_ _. None) [], Map.empty)"
  by (simp add: NewTwoLevel_def NewMemory_def NewRedis_def demo_two_def demo_redis_def demo_otter_def)


lemma demo_set:
  "twolevel_Set (memoryCache demo_otter []) (redis_Cache demo_redis []) k v [WithTTL 3] (l, r) =
     (None, (l(k \<mapsto> v), r(''p:'' @ k \<mapsto> v)))"
  by (simp add: twolevel_Set_def memoryCache_def redis_Cache_def memory_Set_def redis_Set_def applyOptions_def
      demo_otter_def demo_redis_def demo_rclient_def demo_codec_def redis_key_def)

theorem two_level_read_your_write_witness:
  "fst (twolevel_Get (memoryCache demo_otter []) (redis_Cache (demo_redis :: (_, _, unit) redisCache) []) ''a''
     ([''a'' \<mapsto> ''1''], [''p:a'' \<mapsto> ''1''])) = (''1'', None)"
proof -
  let ?get = "twolevel_Get (memoryCache demo_otter []) (redis_Cache (demo_redis :: (_, _, unit) redisCache) []) ''a''
    ([''a'' \<mapsto> ''1''], [''p:a'' \<mapsto> ''1''])"
  obtain v err s2 where get: "?get = ((v, err), s2)" by (metis prod.exhaust)
  have "err = None"
    using get by (simp add: twolevel_Get_def twolevel_lookup_def memoryCache_def memory_Get_def demo_otter_def)
  then show ?thesis
    using two_level_read_your_write [OF demo_otter_ok demo_redis_ok demo_set [of "''a''" "''1''" Map.empty Map.empty], of v err s2]
      get by simp
qed

theorem backfill_overwrites_newer_witness:
  "\<exists>vo. fst (twolevel_Get (memoryCache demo_otter []) (redis_Cache (demo_redis :: (_, _, unit) redisCache) []) ''a''
      (twolevel_backfill (memoryCache (demo_otter :: (_, _, unit) otter) []) ''a'' vo ([''a'' \<mapsto> ''new''], [''p:a'' \<mapsto> ''new'']))) = (''old'', None)"
proof -
  have "redis_Get (demo_redis :: (_, _, unit) redisCache) [] ''a'' [''p:a'' \<mapsto> ''old''] = ((''old'', None), [''p:a'' \<mapsto> ''old''])"
    "redis_Set (demo_redis :: (_, _, unit) redisCache) ''a'' ''new'' [] [''p:a'' \<mapsto> ''old''] = (None, [''p:a'' \<mapsto> ''new''])"
    by (simp_all add: redis_Get_def redis_Set_def redis_key_def demo_redis_def demo_rclient_def demo_codec_def)
  then show ?thesis
    using backfill_overwrites_newer [of demo_otter "''a''" Map.empty Map.empty "demo_redis :: (_, _, unit) redisCache" "[]" "[''p:a'' \<mapsto> ''old'']"
        "''old''" "[''p:a'' \<mapsto> ''old'']" "''new''" "[]" "[''p:a'' \<mapsto> ''new'']" "[''a'' \<mapsto> ''new'']" "[''a'' \<mapsto> ''old'']"]
    by (auto simp: demo_otter_simps memory_Set_def applyOptions_def)
qed

end
