(* ===== verification/Cast.thy ===== *)
theory Cast
  imports Text_Encoding
begin

text \<open>
  Conversions between values and strings: \<^verbatim>\<open>common/utils/cast.go\<close> and the helpers of
  \<^verbatim>\<open>common/utils/string.go\<close> built on it.  Go's run-time types are reified as far as the code looks at
  them; floating-point text and JSON are parameters.

  A result is \<^term>\<open>None\<close> when the code panics, otherwise an error or a value.
\<close>

section \<open>Types and values\<close>

datatype ikind = KInt | KInt8 | KInt16 | KInt32 | KInt64 | KUint | KUint8 | KUint16 | KUint32 | KUint64

datatype fkind = KFloat32 | KFloat64

text \<open>
  \<^verbatim>\<open>reflect.Kind\<close>: byte slices and byte arrays apart; \<^verbatim>\<open>OfJson\<close> are the other slices, maps, structs
  and interfaces, \<^verbatim>\<open>OfOther\<close> channels, functions and complex numbers.
\<close>

datatype gokind = OfInt ikind | OfFloat fkind | OfBool | OfString | OfBytes | OfByteArray nat | OfJson | OfPtr gokind | OfOther

text \<open>A type is predeclared, or declared with a name of its own, which the type switches do not match.\<close>

record gotype =
  named :: bool
  kind :: gokind

datatype ('f, 'j) goval = VInt int | VFloat 'f | VBool bool | VString string | VBytes string | VJson 'j | VPtr "('f, 'j) goval"

datatype ('f, 'j) gany = AnyNil | Any gotype "('f, 'j) goval"

fun bits :: "ikind \<Rightarrow> nat" where
  "bits KInt = 64" | "bits KInt8 = 8" | "bits KInt16 = 16" | "bits KInt32 = 32" | "bits KInt64 = 64"
| "bits KUint = 64" | "bits KUint8 = 8" | "bits KUint16 = 16" | "bits KUint32 = 32" | "bits KUint64 = 64"

fun signed :: "ikind \<Rightarrow> bool" where
  "signed k \<longleftrightarrow> k \<in> {KInt, KInt8, KInt16, KInt32, KInt64}"

definition in_range :: "ikind \<Rightarrow> int \<Rightarrow> bool" where
  "in_range k v \<longleftrightarrow> (if signed k then - (2 ^ (bits k - 1)) \<le> v \<and> v < 2 ^ (bits k - 1) else 0 \<le> v \<and> v < 2 ^ bits k)"

fun well_typed :: "gokind \<Rightarrow> ('f, 'j) goval \<Rightarrow> bool" where
  "well_typed (OfInt k) (VInt v) \<longleftrightarrow> in_range k v"
| "well_typed (OfFloat k) (VFloat x) \<longleftrightarrow> True"
| "well_typed OfBool (VBool b) \<longleftrightarrow> True"
| "well_typed OfString (VString s) \<longleftrightarrow> True"
| "well_typed OfBytes (VBytes d) \<longleftrightarrow> True"
| "well_typed (OfByteArray n) (VBytes d) \<longleftrightarrow> length d = n"
| "well_typed OfJson (VJson j) \<longleftrightarrow> True"
| "well_typed (OfPtr k) (VPtr v) \<longleftrightarrow> well_typed k v"
| "well_typed _ _ \<longleftrightarrow> False"

record ('f, 'j) conv_lib =
  FormatFloat :: "fkind \<Rightarrow> 'f \<Rightarrow> string"
  ParseFloat :: "fkind \<Rightarrow> string \<Rightarrow> goerr + 'f"
  NJson_Marshal :: "gotype \<Rightarrow> ('f, 'j) goval \<Rightarrow> goerr + string"
  NJson_Unmarshal :: "string \<Rightarrow> goerr + 'j"
  NumError :: "string \<Rightarrow> string \<Rightarrow> numerr \<Rightarrow> goerr"

section \<open>From strings\<close>

definition errNeedReflect :: goerr where
  "errNeedReflect = ErrNew ''need reflect''"

definition ParseBool :: "('f, 'j) conv_lib \<Rightarrow> string \<Rightarrow> goerr + bool" where
  "ParseBool lib s =
     (if s \<in> {''1'', ''t'', ''T'', ''true'', ''TRUE'', ''True''} then Inr True
      else if s \<in> {''0'', ''f'', ''F'', ''false'', ''FALSE'', ''False''} then Inr False
      else Inl (NumError lib ''ParseBool'' s ErrSyntax))"

definition FormatBool :: "bool \<Rightarrow> string" where
  "FormatBool b = (if b then ''true'' else ''false'')"

definition on_ok :: "('a \<Rightarrow> 'b) \<Rightarrow> goerr + 'a \<Rightarrow> goerr + 'b" where
  "on_ok f r = (case r of Inl e \<Rightarrow> Inl e | Inr v \<Rightarrow> Inr (f v))"

text \<open>\<^verbatim>\<open>strconv.Atoi\<close>, \<^verbatim>\<open>ParseInt\<close> and \<^verbatim>\<open>ParseUint\<close> with the error that names the function.\<close>

definition parse_int :: "('f, 'j) conv_lib \<Rightarrow> ikind \<Rightarrow> string \<Rightarrow> goerr + ('f, 'j) goval" where
  "parse_int lib k s =
     (if signed k then
        case ParseInt s (bits k) of
          Inl e \<Rightarrow> Inl (NumError lib (if k = KInt then ''Atoi'' else ''ParseInt'') s e)
        | Inr v \<Rightarrow> Inr (VInt v)
      else case ParseUint s (bits k) of
          Inl e \<Rightarrow> Inl (NumError lib ''ParseUint'' s e)
        | Inr v \<Rightarrow> Inr (VInt (int v)))"

text \<open>Text that is not base64 is taken as it is.\<close>

definition bytes_of :: "string \<Rightarrow> string" where
  "bytes_of s = (case base64_DecodeString s of None \<Rightarrow> s | Some d \<Rightarrow> d)"

definition stringToFast :: "('f, 'j) conv_lib \<Rightarrow> string \<Rightarrow> gotype \<Rightarrow> goerr + ('f, 'j) goval" where
  "stringToFast lib value t =
     (if named t then Inl errNeedReflect
      else case kind t of
        OfString \<Rightarrow> Inr (VString value)
      | OfInt k \<Rightarrow> parse_int lib k value
      | OfFloat k \<Rightarrow> on_ok VFloat (ParseFloat lib k value)
      | OfBool \<Rightarrow> on_ok VBool (ParseBool lib value)
      | OfBytes \<Rightarrow> Inr (VBytes (bytes_of value))
      | _ \<Rightarrow> Inl errNeedReflect)"

text \<open>
  The reflective version sets the variable of the given kind; \<^verbatim>\<open>SetBytes\<close> panics for an array.  A
  pointer is set to a new variable.
\<close>

fun StringToPtr :: "('f, 'j) conv_lib \<Rightarrow> string \<Rightarrow> gokind \<Rightarrow> (goerr + ('f, 'j) goval) option" where
  "StringToPtr lib value (OfInt k) = Some (parse_int lib k value)"
| "StringToPtr lib value (OfFloat k) = Some (on_ok VFloat (ParseFloat lib k value))"
| "StringToPtr lib value OfBool = Some (on_ok VBool (ParseBool lib value))"
| "StringToPtr lib value OfString = Some (Inr (VString value))"
| "StringToPtr lib value OfBytes = Some (Inr (VBytes (bytes_of value)))"
| "StringToPtr lib value (OfByteArray n) = None"
| "StringToPtr lib value OfJson = Some (on_ok VJson (NJson_Unmarshal lib value))"
| "StringToPtr lib value (OfPtr k) = map_option (on_ok VPtr) (StringToPtr lib value k)"
| "StringToPtr lib value OfOther = Some (Inl (ErrNew ''unsupported type''))"

definition StringTo :: "('f, 'j) conv_lib \<Rightarrow> string \<Rightarrow> gotype \<Rightarrow> (goerr + ('f, 'j) goval) option" where
  "StringTo lib value t =
     (case stringToFast lib value t of
        Inl err \<Rightarrow> if errors_Is err errNeedReflect then StringToPtr lib value (kind t) else Some (Inl err)
      | Inr result \<Rightarrow> Some (Inr result))"

section \<open>To strings\<close>

definition isTextData :: "string \<Rightarrow> bool" where
  "isTextData data \<longleftrightarrow> list_all (\<lambda>b. (32 :: nat) \<le> of_char b \<and> of_char b \<le> (126 :: nat)) data"

definition bytes_text :: "string \<Rightarrow> string" where
  "bytes_text d = (if isTextData d then d else base64_EncodeToString d)"

text \<open>The reflective version; \<^verbatim>\<open>Bytes\<close> of an array that is not addressable panics.\<close>

definition toStringReflect :: "('f, 'j) conv_lib \<Rightarrow> gotype \<Rightarrow> ('f, 'j) goval \<Rightarrow> (goerr + string) option" where
  "toStringReflect lib t v =
     (case kind t of
        OfBytes \<Rightarrow> (case v of VBytes d \<Rightarrow> Some (Inr (bytes_text d)) | _ \<Rightarrow> None)
      | OfByteArray n \<Rightarrow> None
      | OfJson \<Rightarrow> Some (NJson_Marshal lib t v)
      | OfPtr k \<Rightarrow> Some (NJson_Marshal lib t v)
      | _ \<Rightarrow> Some (Inl (ErrNew ''unsupported type'')))"

definition ToString :: "('f, 'j) conv_lib \<Rightarrow> ('f, 'j) gany \<Rightarrow> (goerr + string) option" where
  "ToString lib value =
     (case value of
        AnyNil \<Rightarrow> Some (Inr [])
      | Any t v \<Rightarrow>
          if named t then toStringReflect lib t v
          else case (kind t, v) of
            (OfString, VString s) \<Rightarrow> Some (Inr s)
          | (OfInt k, VInt i) \<Rightarrow> Some (Inr (FormatInt i))
          | (OfFloat k, VFloat x) \<Rightarrow> Some (Inr (FormatFloat lib k x))
          | (OfBool, VBool b) \<Rightarrow> Some (Inr (FormatBool b))
          | (OfBytes, VBytes d) \<Rightarrow> Some (Inr (bytes_text d))
          | _ \<Rightarrow> toStringReflect lib t v)"

section \<open>From any to any\<close>

definition through_string :: "('f, 'j) conv_lib \<Rightarrow> ('f, 'j) gany \<Rightarrow> (string \<Rightarrow> (goerr + 'a) option) \<Rightarrow> (goerr + 'a) option" where
  "through_string lib value conv =
     (case ToString lib value of
        None \<Rightarrow> None
      | Some (Inl err) \<Rightarrow> Some (Inl err)
      | Some (Inr str) \<Rightarrow> conv str)"

definition AnyToAny :: "('f, 'j) conv_lib \<Rightarrow> ('f, 'j) gany \<Rightarrow> gotype \<Rightarrow> (goerr + ('f, 'j) goval) option" where
  "AnyToAny lib value t =
     (case value of
        Any t' v \<Rightarrow> if t' = t then Some (Inr v) else through_string lib value (\<lambda>str. StringTo lib str t)
      | AnyNil \<Rightarrow> through_string lib value (\<lambda>str. StringTo lib str t))"

text \<open>The target of \<^verbatim>\<open>AnyToAnyPtr\<close> is the kind its pointer points to, \<^term>\<open>None\<close> if it is no pointer or nil.\<close>

definition AnyToAnyPtr :: "('f, 'j) conv_lib \<Rightarrow> ('f, 'j) gany \<Rightarrow> gokind option \<Rightarrow> (goerr + ('f, 'j) goval) option" where
  "AnyToAnyPtr lib value target =
     through_string lib value (\<lambda>str.
       case target of
         None \<Rightarrow> Some (Inl (ErrNew ''target must be a non-nil pointer''))
       | Some k \<Rightarrow> StringToPtr lib str k)"

definition int64_type :: gotype where
  "int64_type = \<lparr>named = False, kind = OfInt KInt64\<rparr>"

definition string_type :: gotype where
  "string_type = \<lparr>named = False, kind = OfString\<rparr>"

text \<open>\<^verbatim>\<open>AnyToInt\<close> and \<^verbatim>\<open>AnyToString\<close> drop the error and keep the zero value that comes with it.\<close>

definition AnyToInt :: "('f, 'j) conv_lib \<Rightarrow> ('f, 'j) gany \<Rightarrow> int option" where
  "AnyToInt lib value =
     (case AnyToAny lib value int64_type of
        None \<Rightarrow> None
      | Some (Inr (VInt v)) \<Rightarrow> Some v
      | Some _ \<Rightarrow> Some 0)"

definition AnyToString :: "('f, 'j) conv_lib \<Rightarrow> ('f, 'j) gany \<Rightarrow> string option" where
  "AnyToString lib value =
     (case ToString lib value of None \<Rightarrow> None | Some (Inl _) \<Rightarrow> Some [] | Some (Inr s) \<Rightarrow> Some s)"

fun AnyJoinToString :: "('f, 'j) conv_lib \<Rightarrow> ('f, 'j) gany list \<Rightarrow> string option" where
  "AnyJoinToString lib [] = Some []"
| "AnyJoinToString lib (v # parts) =
     (case AnyToString lib v of
        None \<Rightarrow> None
      | Some s \<Rightarrow> map_option (\<lambda>r. s @ r) (AnyJoinToString lib parts))"

section \<open>Lemmas\<close>

definition basic :: "gokind \<Rightarrow> bool" where
  "basic k \<longleftrightarrow> (\<exists>i. k = OfInt i) \<or> (\<exists>f. k = OfFloat f) \<or> k \<in> {OfBool, OfString, OfBytes}"

lemma in_range_read:
  assumes "in_range k v"
  shows "parse_int lib k (FormatInt v) = Inr (VInt v)"
proof (cases "signed k")
  case True
  have "0 < bits k" by (cases k) simp_all
  then have "ParseInt (FormatInt v) (bits k) = Inr v" using assms True by (intro ParseInt_FormatInt) (simp_all add: in_range_def)
  then show ?thesis using True by (simp add: parse_int_def)
next
  case False
  then have v: "0 \<le> v" "v < 2 ^ bits k" using assms by (simp_all add: in_range_def)
  then have "nat v < 2 ^ bits k" by (simp add: nat_less_iff)
  then have "ParseUint (FormatInt v) (bits k) = Inr (nat v)" using v by (simp add: FormatInt_def ParseUint_digits)
  then show ?thesis using False v by (simp add: parse_int_def)
qed

lemma read_digits_le: "read_digits mx n s = Inr v \<Longrightarrow> n \<le> mx \<Longrightarrow> v \<le> mx"
  by (induction s arbitrary: n) (auto split: option.splits if_splits)

lemma ParseUint_range:
  assumes "ParseUint s b = Inr v"
  shows "v < 2 ^ b"
proof -
  have "v \<le> 2 ^ b - 1" using assms read_digits_le [of "2 ^ b - 1" 0 s v] by (simp add: ParseUint_def split: if_splits)
  moreover have "0 < (2 :: nat) ^ b" by simp
  ultimately show ?thesis by linarith
qed

lemma ParseInt_range:
  assumes "ParseInt s b = Inr v"
  shows "- (2 ^ (b - 1)) \<le> v \<and> v < 2 ^ (b - 1)"
proof -
  let ?p = "2 ^ (b - 1) :: nat"
  obtain un where un: "v = - int un \<and> un \<le> ?p \<or> v = int un \<and> un < ?p"
    using assms by (auto simp: ParseInt_def Let_def not_less not_le split: list.splits sum.splits if_splits)
  have "0 < ?p" by simp
  then have "- int ?p \<le> v \<and> v < int ?p" using un by linarith
  then show ?thesis by simp
qed

lemma parse_int_typed: "parse_int lib k s = Inr v \<Longrightarrow> well_typed (OfInt k) v"
  using ParseInt_range [of s "bits k"] ParseUint_range [of s "bits k"]
  by (auto simp: parse_int_def in_range_def split: sum.splits if_splits)

lemma StringToPtr_typed: "StringToPtr lib s k = Some (Inr v) \<Longrightarrow> well_typed k v"
proof (induction k arbitrary: v)
  case (OfPtr k)
  then obtain z where z: "StringToPtr lib s k = Some z" "on_ok VPtr z = Inr v" by auto
  then show ?case using OfPtr.IH by (cases z) (auto simp: on_ok_def)
qed (auto simp: on_ok_def parse_int_typed split: sum.splits)

section \<open>Properties\<close>

text \<open>
  The fast path and the reflective path are equivalent: for every type \<^verbatim>\<open>StringTo\<close> gives the
  value, error or panic of \<^verbatim>\<open>StringToPtr\<close>, so a declared type converts as the type it is based on.
\<close>

theorem StringTo_fast_is_slow: "StringTo lib s t = StringToPtr lib s (kind t)"
  by (cases "kind t") (auto simp: StringTo_def stringToFast_def on_ok_def split: sum.splits)

text \<open>
  Type safety: a value that \<^verbatim>\<open>AnyToAny\<close> returns without error has the type that was asked for;
  integers are within the width of their type.
\<close>

theorem AnyToAny_typed:
  assumes "AnyToAny lib value t = Some (Inr v)" "\<And>t' u. value = Any t' u \<Longrightarrow> well_typed (kind t') u"
  shows "well_typed (kind t) v"
proof (cases "\<exists>u. value = Any t u")
  case True
  then show ?thesis using assms by (auto simp: AnyToAny_def)
next
  case False
  then obtain s where "StringTo lib s t = Some (Inr v)"
    using assms(1) by (auto simp: AnyToAny_def through_string_def split: gany.splits if_splits option.splits sum.splits)
  moreover have "StringTo lib s t = StringToPtr lib s (kind t)"
    by (cases "kind t") (auto simp: StringTo_def stringToFast_def on_ok_def split: sum.splits)
  ultimately show ?thesis by (simp add: StringToPtr_typed)
qed

text \<open>
  Round trip of the basic types: what \<^verbatim>\<open>ToString\<close> prints of an integer of any width, a boolean, a
  string or a float, \<^verbatim>\<open>StringTo\<close> reads back as the same value; bytes come back unless they are
  printable and happen to be base64 of something else.
\<close>

theorem ToString_StringTo:
  assumes "\<not> named t" "well_typed (kind t) v" "basic (kind t)"
    and float: "\<And>k x. ParseFloat lib k (FormatFloat lib k x) = Inr x"
  shows "\<exists>s. ToString lib (Any t v) = Some (Inr s) \<and>
    (StringTo lib s t = Some (Inr v) \<longleftrightarrow>
      (\<forall>d. v = VBytes d \<longrightarrow> isTextData d \<longrightarrow> base64_DecodeString d \<in> {None, Some d}))"
proof -
  consider (int) k i where "kind t = OfInt k" "v = VInt i" "in_range k i" | (float) k x where "kind t = OfFloat k" "v = VFloat x"
    | (bool) b where "kind t = OfBool" "v = VBool b" | (string) s where "kind t = OfString" "v = VString s"
    | (bytes) d where "kind t = OfBytes" "v = VBytes d"
    using assms(2,3) by (cases "kind t"; cases v) (auto simp: basic_def)
  then show ?thesis
  proof cases
    case int
    then show ?thesis using assms(1) by (simp add: ToString_def StringTo_def stringToFast_def in_range_read)
  next
    case (float k x)
    then show ?thesis using assms(1,4) by (simp add: ToString_def StringTo_def stringToFast_def on_ok_def)
  next
    case bool
    then show ?thesis using assms(1)
      by (simp add: ToString_def StringTo_def stringToFast_def on_ok_def ParseBool_def FormatBool_def)
  next
    case string
    then show ?thesis using assms(1) by (simp add: ToString_def StringTo_def stringToFast_def)
  next
    case (bytes d)
    then show ?thesis using assms(1)
      by (auto simp: ToString_def StringTo_def stringToFast_def bytes_text_def bytes_of_def base64_roundtrip split: option.splits)
  qed
qed

text \<open>
  A value of a declared integer, float, boolean or string type (such as \<^verbatim>\<open>time.Duration\<close>) has no text:
  \<^verbatim>\<open>ToString\<close> reports an error, and \<^verbatim>\<open>AnyToInt\<close>, which drops it, answers 0.  A byte array makes both panic.
\<close>

theorem named_values_have_no_text:
  assumes "named t"
  shows "(\<forall>k. kind t \<in> {OfInt k, OfBool, OfString} \<longrightarrow> ToString lib (Any t v) = Some (Inl (ErrNew ''unsupported type'')) \<and>
      AnyToInt lib (Any t v) = Some 0) \<and>
    (\<forall>n. kind t = OfByteArray n \<longrightarrow> ToString lib (Any t v) = None \<and> AnyToInt lib (Any t v) = None)"
  using assms
  by (auto simp: ToString_def toStringReflect_def AnyToInt_def AnyToAny_def through_string_def int64_type_def)

section \<open>Witnesses\<close>

definition demo_conv :: "(unit, unit) conv_lib" where
  "demo_conv = \<lparr>FormatFloat = (\<lambda>_ _. ''0''), ParseFloat = (\<lambda>_ _. Inr ()), NJson_Marshal = (\<lambda>_ _. Inr ''null''),
     NJson_Unmarshal = (\<lambda>_. Inr ()), NumError = (\<lambda>f s e. ErrNew f)\<rparr>"

theorem AnyToAny_typed_witness: "in_range KInt8 (-128)"
proof -
  have "AnyToAny demo_conv (Any string_type (VString ''-128'')) \<lparr>named = False, kind = OfInt KInt8\<rparr> = Some (Inr (VInt (-128)))"
    by code_simp
  from AnyToAny_typed [OF this] show ?thesis by (simp add: string_type_def)
qed

theorem ToString_StringTo_witness:
  "\<exists>s. ToString demo_conv (Any int64_type (VInt (-42))) = Some (Inr s) \<and> StringTo demo_conv s int64_type = Some (Inr (VInt (-42)))"
  using ToString_StringTo [of int64_type "VInt (-42)" demo_conv]
  by (simp add: int64_type_def in_range_def basic_def demo_conv_def)

theorem named_values_have_no_text_witness:
  "AnyToInt demo_conv (Any \<lparr>named = True, kind = OfInt KInt64\<rparr> (VInt 5)) = Some 0"
  using named_values_have_no_text [of "\<lparr>named = True, kind = OfInt KInt64\<rparr>" demo_conv "VInt 5"] by simp

end
