(* ===== verification/Go_Errors.thy ===== *)
theory Go_Errors
  imports Go_Prelude
begin

text \<open>
  The error package (\<^verbatim>\<open>err/err.go\<close>, \<^verbatim>\<open>httpErr.go\<close>, \<^verbatim>\<open>common.go\<close>) and the error answers of the HTTP
  server (\<^verbatim>\<open>provider/HTTPServer/response\<close>, \<^verbatim>\<open>gin/handler/abortError.go\<close>).  Errors are the values of
  \<^verbatim>\<open>github.com/pkg/errors\<close>, the package's own code errors, and any other error (\<^verbatim>\<open>Opaque\<close>).
\<close>

section \<open>Error values\<close>

datatype Level = PanicLevel | FatalLevel | ErrorLevel | WarnLevel | InfoLevel | DebugLevel | TraceLevel

fun level_rank :: "Level \<Rightarrow> nat" where
  "level_rank PanicLevel = 0" | "level_rank FatalLevel = 1" | "level_rank ErrorLevel = 2" | "level_rank WarnLevel = 3"
| "level_rank InfoLevel = 4" | "level_rank DebugLevel = 5" | "level_rank TraceLevel = 6"

record CodeErr =
  Code :: int
  Msg :: string
  ELevel :: Level

text \<open>A stack trace is its frames as text, \<^term>\<open>None\<close> for a frame without a known function.\<close>

type_synonym stack = "string option list"

datatype 'd perr =
    Opaque goerr
  | Fundamental string stack
  | WithStack "'d perr" stack
  | WithMessage string "'d perr"
  | CodeE CodeErr
  | HttpE CodeErr "'d perr option" "'d option"

fun err_Error :: "'d perr \<Rightarrow> string" where
  "err_Error (Opaque e) = Error e"
| "err_Error (Fundamental s st) = s"
| "err_Error (WithStack e st) = err_Error e"
| "err_Error (WithMessage m e) = m @ '': '' @ err_Error e"
| "err_Error (CodeE c) = Msg c"
| "err_Error (HttpE c e d) = Msg c"

fun Unwrap :: "'d perr \<Rightarrow> 'd perr option" where
  "Unwrap (Opaque (ErrWrapf p e)) = Some (Opaque e)"
| "Unwrap (WithStack e st) = Some e"
| "Unwrap (WithMessage m e) = Some e"
| "Unwrap (HttpE c e d) = e"
| "Unwrap _ = None"

fun StackTrace :: "'d perr \<Rightarrow> stack option" where
  "StackTrace (Fundamental s st) = Some st"
| "StackTrace (WithStack e st) = Some st"
| "StackTrace _ = None"

text \<open>Unwrapping ends: every step makes the error smaller.\<close>

fun depth :: "'d perr \<Rightarrow> nat" where
  "depth (Opaque e) = size e"
| "depth (WithStack e st) = Suc (depth e)"
| "depth (WithMessage m e) = Suc (depth e)"
| "depth (HttpE c (Some e) d) = Suc (depth e)"
| "depth _ = 0"

lemma Unwrap_depth: "Unwrap e = Some u \<Longrightarrow> depth u < depth e"
  by (cases e rule: Unwrap.cases) auto

section \<open>Adding a stack once\<close>

function GetStackErr :: "'d perr \<Rightarrow> 'd perr option" where
  "GetStackErr err =
     (if StackTrace err \<noteq> None then Some err
      else case Unwrap err of None \<Rightarrow> None | Some u \<Rightarrow> GetStackErr u)"
  by pat_completeness auto
termination by (relation "measure depth") (auto dest: Unwrap_depth)

definition errors_Wrap :: "stack \<Rightarrow> 'd perr \<Rightarrow> string \<Rightarrow> 'd perr" where
  "errors_Wrap st err msg = WithStack (WithMessage msg err) st"

text \<open>\<open>st\<close> is the stack of the call.  \<^verbatim>\<open>errors.New\<close> is the one of pkg/errors, with a stack.\<close>

definition Err :: "stack \<Rightarrow> 'd perr option \<Rightarrow> string list \<Rightarrow> 'd perr option" where
  "Err st err msgs =
     (let str = Join msgs ''-'' in
      case err of
        None \<Rightarrow> if str \<noteq> [] then Some (Fundamental str st) else None
      | Some e \<Rightarrow>
          if GetStackErr e \<noteq> None then Some (if msgs \<noteq> [] then WithMessage str e else e)
          else Some (if msgs \<noteq> [] then errors_Wrap st e str else WithStack e st))"

section \<open>The text of a chain\<close>

function chain :: "'d perr \<Rightarrow> 'd perr list" where
  "chain e = e # (case Unwrap e of None \<Rightarrow> [] | Some u \<Rightarrow> chain u)"
  by pat_completeness auto
termination by (relation "measure depth") (auto dest: Unwrap_depth)

declare chain.simps [simp del] GetStackErr.simps [simp del]

definition newline :: string where
  "newline = [char_of (10 :: nat)]"

definition frame_lines :: "bool \<Rightarrow> stack \<Rightarrow> string" where
  "frame_lines isOuter st =
     concat (map (\<lambda>f. case f of None \<Rightarrow> [] | Some s \<Rightarrow> s @ newline) (if isOuter then st else drop 1 st))"

text \<open>The loop over the chain: \<open>i\<close> counts from 1, \<open>prev\<close> is the message of the error before.\<close>

fun message_loop :: "bool \<Rightarrow> nat \<Rightarrow> string option \<Rightarrow> 'd perr list \<Rightarrow> string" where
  "message_loop stopAtFirstStack i prev [] = []"
| "message_loop stopAtFirstStack i prev (e # es) =
     (let msg = err_Error e in
      case StackTrace e of
        None \<Rightarrow>
          (if prev = Some msg then [] else ''['' @ nat_digits i @ '']: '' @ msg @ newline) @
          message_loop stopAtFirstStack (i + 1) (Some msg) es
      | Some st \<Rightarrow>
          ''['' @ nat_digits i @ '']: '' @ msg @ newline @ newline @ frame_lines (es = []) st @ newline @
          (if stopAtFirstStack then [] else message_loop stopAtFirstStack (i + 1) (Some msg) es))"

definition GetErrMessage :: "'d perr option \<Rightarrow> bool \<Rightarrow> string" where
  "GetErrMessage err stopAtFirstStack =
     (case err of None \<Rightarrow> [] | Some e \<Rightarrow> newline @ message_loop stopAtFirstStack 1 None (chain e))"

section \<open>Code errors\<close>

definition NewCodeErr :: "int \<Rightarrow> string \<Rightarrow> Level \<Rightarrow> CodeErr" where
  "NewCodeErr code msg level = \<lparr>Code = code, Msg = msg, ELevel = level\<rparr>"

definition RewriteMsg :: "CodeErr \<Rightarrow> string \<Rightarrow> CodeErr" where
  "RewriteMsg c msg = NewCodeErr (Code c) msg (ELevel c)"

definition NeedLoginErr :: CodeErr where "NeedLoginErr = NewCodeErr 1 ''Need Login'' InfoLevel"
definition CustomErr :: CodeErr where "CustomErr = NewCodeErr 2 ''Custom Error'' InfoLevel"
definition SystemErr :: CodeErr where "SystemErr = NewCodeErr 10001 ''System abnormality'' PanicLevel"
definition FailedErr :: CodeErr where "FailedErr = NewCodeErr 10002 ''Operation failed'' ErrorLevel"
definition ParamErr :: CodeErr where "ParamErr = NewCodeErr 10003 ''Params Error'' InfoLevel"
definition DataNotExist :: CodeErr where "DataNotExist = NewCodeErr 10004 ''Data Not Exist'' InfoLevel"
definition DataExist :: CodeErr where "DataExist = NewCodeErr 10005 ''Data Exist'' InfoLevel"
definition AuthErr :: CodeErr where "AuthErr = NewCodeErr 10006 ''Auth Error'' InfoLevel"
definition SignTimeErr :: CodeErr where "SignTimeErr = NewCodeErr 10007 ''Sign Time Error'' InfoLevel"
definition SignErr :: CodeErr where "SignErr = NewCodeErr 10008 ''Sign Error'' InfoLevel"
definition SignReplayErr :: CodeErr where "SignReplayErr = NewCodeErr 10009 ''Sign Replay Error'' InfoLevel"
definition VerifyErr :: CodeErr where "VerifyErr = NewCodeErr 10010 ''Verify Error'' InfoLevel"
definition PermissionErr :: CodeErr where "PermissionErr = NewCodeErr 10011 ''Permission Denied'' InfoLevel"
definition TimeoutErr :: CodeErr where "TimeoutErr = NewCodeErr 10012 ''Request Timeout'' InfoLevel"
definition ServiceBusy :: CodeErr where "ServiceBusy = NewCodeErr 10013 ''The service is busy'' InfoLevel"
definition RequestLimitExceeded :: CodeErr where "RequestLimitExceeded = NewCodeErr 10014 ''Request limit exceeded'' InfoLevel"
definition ConfigErr :: CodeErr where "ConfigErr = NewCodeErr 10015 ''Config Error'' InfoLevel"

text \<open>\<^verbatim>\<open>errors.As\<close> for the two types: the first error of the chain that has the type.\<close>

fun as_code :: "'d perr \<Rightarrow> CodeErr option" where
  "as_code (CodeE c) = Some c"
| "as_code _ = None"

fun as_http :: "'d perr \<Rightarrow> (CodeErr \<times> 'd perr option \<times> 'd option) option" where
  "as_http (HttpE c e d) = Some (c, e, d)"
| "as_http _ = None"

definition errors_As :: "('d perr \<Rightarrow> 'a option) \<Rightarrow> 'd perr \<Rightarrow> 'a option" where
  "errors_As f e = (case List.map_filter f (chain e) of [] \<Rightarrow> None | x # _ \<Rightarrow> Some x)"

definition AsCodeErr :: "'d perr option \<Rightarrow> CodeErr option" where
  "AsCodeErr err =
     (case err of
        None \<Rightarrow> None
      | Some e \<Rightarrow>
          (case errors_As as_code e of
             Some c \<Rightarrow> Some c
           | None \<Rightarrow>
               (case errors_As as_http e of
                  Some (c, _) \<Rightarrow> Some c
                | None \<Rightarrow> Some FailedErr)))"

type_synonym 'd HttpErr = "CodeErr \<times> 'd perr option \<times> 'd option"

definition NewHttpErr :: "stack \<Rightarrow> CodeErr \<Rightarrow> 'd perr option list \<Rightarrow> 'd HttpErr" where
  "NewHttpErr st c errs =
     (c, Err st (case errs of [] \<Rightarrow> None | e # _ \<Rightarrow> e) [Msg c], None)"

definition SetData :: "'d \<Rightarrow> 'd HttpErr \<Rightarrow> 'd HttpErr" where
  "SetData d h = (fst h, fst (snd h), Some d)"

definition AsHttpErr :: "stack \<Rightarrow> 'd perr option \<Rightarrow> 'd HttpErr option" where
  "AsHttpErr st err =
     (case err of
        None \<Rightarrow> None
      | Some e \<Rightarrow>
          (case errors_As as_http e of
             Some h \<Rightarrow> Some h
           | None \<Rightarrow>
               (case errors_As as_code e of
                  Some c \<Rightarrow> Some (NewHttpErr st c [None])
                | None \<Rightarrow> Some (NewHttpErr st FailedErr [Some e]))))"

section \<open>Answers\<close>

record 'd Response =
  RCode :: int
  RMessage :: string
  RData :: "'d option"

definition Success :: "'d \<Rightarrow> 'd Response" where
  "Success d = \<lparr>RCode = 0, RMessage = ''success'', RData = Some d\<rparr>"

definition response_Error :: "stack \<Rightarrow> string \<Rightarrow> 'd perr \<Rightarrow> 'd Response" where
  "response_Error st env err =
     (case (case errors_As as_http err of Some h \<Rightarrow> h | None \<Rightarrow> NewHttpErr st FailedErr [Some err]) of
        (c, cause, d) \<Rightarrow>
          let cause_text = (case cause of None \<Rightarrow> [] | Some e \<Rightarrow> err_Error e);
              msg = (if env = ''test'' \<and> cause \<noteq> None \<and> cause_text \<noteq> [] then Msg c @ '': '' @ cause_text else Msg c)
          in \<lparr>RCode = Code c, RMessage = msg, RData = d\<rparr>)"

text \<open>\<^verbatim>\<open>HTTPErrHandler\<close>: the answer's error, and whether a notification is sent.\<close>

definition HTTPErrHandler :: "stack \<Rightarrow> 'd perr \<Rightarrow> 'd HttpErr \<times> bool" where
  "HTTPErrHandler st err =
     (let h = the (AsHttpErr st (Some err)) in (h, level_rank (ELevel (fst h)) \<le> level_rank WarnLevel))"

definition AbortWithError :: "stack \<Rightarrow> string \<Rightarrow> 'd perr \<Rightarrow> 'd Response \<times> bool" where
  "AbortWithError st env err =
     (case HTTPErrHandler st err of ((c, cause, d), sent) \<Rightarrow> (response_Error st env (HttpE c cause d), sent))"

text \<open>\<^verbatim>\<open>notify.SendMessageWithLevel\<close> sends for the level of the code error it finds.\<close>

definition SendMessageWithLevel :: "'d perr option \<Rightarrow> bool" where
  "SendMessageWithLevel err =
     (case AsCodeErr err of None \<Rightarrow> False | Some c \<Rightarrow> level_rank (ELevel c) \<le> level_rank WarnLevel)"

section \<open>Lemmas\<close>

definition stacks :: "'d perr \<Rightarrow> nat" where
  "stacks e = length (filter (\<lambda>x. StackTrace x \<noteq> None) (chain e))"

lemma chain_simps:
  "chain (WithStack e st) = WithStack e st # chain e" "chain (WithMessage m e) = WithMessage m e # chain e"
  "chain (Fundamental s st) = [Fundamental s st]" "chain (CodeE c) = [CodeE c]"
  "chain (HttpE c None d) = [HttpE c None d]" "chain (HttpE c (Some e) d) = HttpE c (Some e) d # chain e"
  by (subst chain.simps, simp)+

lemma GetStackErr_iff: "GetStackErr e = None \<longleftrightarrow> stacks e = 0"
proof (induction e rule: GetStackErr.induct)
  case (1 e)
  show ?case
  proof (cases "StackTrace e")
    case None
    then show ?thesis
      using 1 by (subst GetStackErr.simps) (auto simp: stacks_def chain.simps [of e] split: option.splits)
  next
    case (Some st)
    then show ?thesis by (subst GetStackErr.simps) (simp add: stacks_def chain.simps [of e])
  qed
qed

lemma stacks_simps [simp]:
  "stacks (WithStack e st) = Suc (stacks e)" "stacks (WithMessage m e) = stacks e" "stacks (Fundamental s st) = 1"
  by (simp_all add: stacks_def chain_simps)

lemma errors_As_Cons: "f e = None \<Longrightarrow> chain e = e # chain u \<Longrightarrow> errors_As f e = errors_As f u"
  by (simp add: errors_As_def List.map_filter_def)

section \<open>Properties\<close>

text \<open>
  \<^verbatim>\<open>Err\<close> gives every error exactly one stack trace, the first one, however often it is applied; the
  text is that of the error with the messages in front, and no error of the chain is lost.
\<close>

theorem Err_one_stack:
  "(case Err st (Some e) msgs of
      None \<Rightarrow> False
    | Some e' \<Rightarrow> stacks e' = max 1 (stacks e) \<and> set (chain e) \<subseteq> set (chain e') \<and>
        err_Error e' = (if msgs = [] then err_Error e else Join msgs ''-'' @ '': '' @ err_Error e))"
  by (auto simp: Err_def errors_Wrap_def GetStackErr_iff chain_simps Let_def)

text \<open>
  The two accessors disagree on an HTTP error that was made for a code error: \<^verbatim>\<open>AsHttpErr\<close> gives the
  code of the HTTP error, \<^verbatim>\<open>AsCodeErr\<close>, and with it the decision to notify, the one of the cause.
\<close>

theorem AsCodeErr_prefers_cause:
  assumes "Msg c \<noteq> []"
  shows "map_option fst (AsHttpErr st (Some (HttpE c (fst (snd (NewHttpErr st c [Some (CodeE c')]))) d))) = Some c \<and>
    AsCodeErr (Some (HttpE c (fst (snd (NewHttpErr st c [Some (CodeE c')]))) d)) = Some c'"
  using assms
  by (simp add: NewHttpErr_def Err_def errors_Wrap_def Let_def GetStackErr.simps AsHttpErr_def AsCodeErr_def
      errors_As_def chain_simps List.map_filter_def)

theorem AsCodeErr_prefers_cause_witness:
  "AsCodeErr (Some (HttpE ParamErr (fst (snd (NewHttpErr [] ParamErr [Some (CodeE SystemErr)]))) (None :: unit option))) = Some SystemErr"
  using AsCodeErr_prefers_cause [of ParamErr "[]" SystemErr "None :: unit option"] by (simp add: ParamErr_def NewCodeErr_def)

end
