(* ===== verification/App_Auth.thy ===== *)
theory App_Auth
  imports Net_Http Cache Cast Go_Errors
begin

text \<open>
  Signed requests: the server's \<^verbatim>\<open>AuthMiddleware\<close> (\<^verbatim>\<open>provider/HTTPServer/gin/handler/appAuth.go\<close>) and how
  it meets the client's (\<^verbatim>\<open>net/http/middleware.go\<close>, theory \<^verbatim>\<open>Net_Http\<close>).  The replay store is a cache of
  theory \<^verbatim>\<open>Cache\<close>, numbers are read by theory \<^verbatim>\<open>Cast\<close>.
\<close>

section \<open>The server\<close>

text \<open>\<^verbatim>\<open>Header.Get\<close> of a request: the value, or the empty string.\<close>

type_synonym header_get = "string \<Rightarrow> string"

record ('s, 'w) AuthConf =
  auth_Cache :: "('s, int, 'w) Cache option"
  Expire :: int
  auth_SignType :: string
  SecretGetter :: "(string \<Rightarrow> string) option"
  SignatureFunc :: "(header_get \<Rightarrow> int \<Rightarrow> string \<Rightarrow> string \<Rightarrow> string \<Rightarrow> goerr + string) option"

definition defaultValidateFunc :: "(string \<Rightarrow> string) \<Rightarrow> int \<Rightarrow> string \<Rightarrow> string \<Rightarrow> string \<Rightarrow> goerr + string" where
  "defaultValidateFunc MD5Sum signTime secret signType nonce =
     Inr (MD5Sum (FormatInt signTime @ secret @ signType @ nonce))"

definition validateTimestamp :: "int \<Rightarrow> int \<Rightarrow> int \<Rightarrow> bool" where
  "validateTimestamp now timestamp expire =
     (let diff = wrap64 (now - timestamp);
          diff1 = (if diff < 0 then wrap64 (- diff) else diff)
      in diff1 \<le> tdiv expire 1000000)"

text \<open>
  The middleware up to the point where it lets the request pass: the error it answers with, or the
  signature and its time, which it then records.  \<open>now\<close> is the server's clock in milliseconds.
\<close>

definition auth_check :: "(string \<Rightarrow> string) \<Rightarrow> ('f, 'j) conv_lib \<Rightarrow> ('s, 'w) AuthConf \<Rightarrow> int \<Rightarrow> header_get \<Rightarrow> 's \<Rightarrow>
    (CodeErr + string \<times> int) \<times> 's" where
  "auth_check MD5Sum lib conf now hget s =
     (case SecretGetter conf of
        None \<Rightarrow> (Inl ConfigErr, s)
      | Some getSecret \<Rightarrow>
          let appID = hget ''X-Appid''; signature = hget ''X-Sign''; signatureType = hget ''X-SignType'';
              nonce = hget ''X-Nonce''; timestamp = hget ''X-SignTimestamp'';
              signTime = (case AnyToInt lib (Any string_type (VString timestamp)) of None \<Rightarrow> 0 | Some v \<Rightarrow> v)
          in if signature = [] \<or> timestamp = [] then (Inl SignErr, s)
             else if auth_SignType conf \<noteq> [] \<and> auth_SignType conf \<noteq> signatureType then (Inl SignErr, s)
             else
               let (seen, s1) = (case auth_Cache conf of
                     None \<Rightarrow> (False, s)
                   | Some C \<Rightarrow> (case cGet C signature s of ((_, err), s1) \<Rightarrow> (err = None, s1)))
               in if seen then (Inl SignReplayErr, s1)
                  else let secret = getSecret appID
                  in if secret = [] then (Inl SignErr, s1)
                     else if \<not> validateTimestamp now signTime (Expire conf) then (Inl SignTimeErr, s1)
                     else
                       (case (case SignatureFunc conf of
                                None \<Rightarrow> defaultValidateFunc MD5Sum signTime secret signatureType nonce
                              | Some f \<Rightarrow> f hget signTime secret signatureType nonce) of
                          Inl err \<Rightarrow> (Inl SignErr, s1)
                        | Inr calculated \<Rightarrow>
                            if signature \<noteq> calculated then (Inl SignErr, s1) else (Inr (signature, signTime), s1)))"

definition auth_record :: "('s, 'w) AuthConf \<Rightarrow> string \<times> int \<Rightarrow> 's \<Rightarrow> 's" where
  "auth_record conf sig s =
     (case auth_Cache conf of None \<Rightarrow> s | Some C \<Rightarrow> snd (cSet C (fst sig) (snd sig) [] s))"

definition server_Auth :: "(string \<Rightarrow> string) \<Rightarrow> ('f, 'j) conv_lib \<Rightarrow> ('s, 'w) AuthConf \<Rightarrow> int \<Rightarrow> header_get \<Rightarrow> 's \<Rightarrow>
    CodeErr option \<times> 's" where
  "server_Auth MD5Sum lib conf now hget s =
     (case auth_check MD5Sum lib conf now hget s of
        (Inl err, s1) \<Rightarrow> (Some err, s1)
      | (Inr sig, s1) \<Rightarrow> (None, auth_record conf sig s1))"

section \<open>Lemmas\<close>

lemma FormatInt_ne [simp]: "FormatInt v \<noteq> []"
  by (simp add: FormatInt_def)

lemma AnyToInt_text: "in_int64 v \<Longrightarrow> AnyToInt lib (Any string_type (VString (FormatInt v))) = Some v"
  using in_range_read [of KInt64 v lib]
  by (simp add: AnyToInt_def AnyToAny_def through_string_def ToString_def StringTo_def stringToFast_def string_type_def
      int64_type_def in_range_def int64_defs)

lemma validate_in_window:
  assumes "in_int64 now" "in_int64 ts" "\<bar>now - ts\<bar> \<le> int64_max"
  shows "validateTimestamp now ts expire \<longleftrightarrow> \<bar>now - ts\<bar> \<le> tdiv expire 1000000"
proof -
  have "wrap64 (now - ts) = now - ts" "wrap64 (- (now - ts)) = - (now - ts)"
    using assms by (auto intro!: wrap64_id simp: int64_defs)
  then show ?thesis by (auto simp: validateTimestamp_def Let_def)
qed

text \<open>The headers of a request as the server reads them, for header names that the client set.\<close>

definition delivered :: "'v hdata \<Rightarrow> header_get \<Rightarrow> bool" where
  "delivered c hget \<longleftrightarrow> (\<forall>m h v. Headers (hRequest c) = Some m \<longrightarrow> m h = Some v \<longrightarrow> hget h = v)"

lemma auth_headers_delivered:
  assumes "delivered (auth_headers env appID secret signType ts nonce c) hget"
  shows "hget ''X-Appid'' = appID" "hget ''X-SignType'' = signType"
    "hget ''X-Sign'' = calculateSignature env secret signType nonce ts" "hget ''X-SignTimestamp'' = FormatInt ts"
    "hget ''X-Nonce'' = nonce"
  using assms by (auto simp: delivered_def auth_headers_def set_header_def)

lemma auth_check_signed:
  assumes secret: "SecretGetter conf = Some g" "g appID = secret" "secret \<noteq> []" "SignatureFunc conf = None"
      "auth_SignType conf \<in> {[], signType}"
    and sent: "delivered (auth_headers env appID secret signType ts nonce c) hget"
    and md5: "\<And>x. md5 env x \<noteq> []" and ts: "in_int64 ts"
  shows "auth_check (md5 env) lib conf now hget s =
    (let sig = calculateSignature env secret signType nonce ts;
         (seen, s1) = (case auth_Cache conf of None \<Rightarrow> (False, s)
            | Some C \<Rightarrow> (case cGet C sig s of ((_, err), s1) \<Rightarrow> (err = None, s1)))
     in if seen then (Inl SignReplayErr, s1)
        else if validateTimestamp now ts (Expire conf) then (Inr (sig, ts), s1) else (Inl SignTimeErr, s1))"
proof -
  note h = auth_headers_delivered [OF sent]
  have "calculateSignature env secret signType nonce ts \<noteq> []" using md5 by (simp add: calculateSignature_def)
  then show ?thesis
    using assms
    by (auto simp: auth_check_def Let_def h AnyToInt_text defaultValidateFunc_def calculateSignature_def split: prod.splits)
qed

section \<open>Properties\<close>

text \<open>
  C10. Round trip of the signature: a request that the client's \<^verbatim>\<open>AuthMiddleware\<close> signed with the secret
  the server has for the application passes the server's \<^verbatim>\<open>AuthMiddleware\<close> exactly when the clocks differ
  by at most \<^verbatim>\<open>Expire\<close> and its signature is not in the replay store; otherwise it is answered with the time
  or the replay error.
\<close>

theorem signed_request_passes:
  assumes "SecretGetter conf = Some g" "g appID = secret" "secret \<noteq> []" "SignatureFunc conf = None"
      "auth_SignType conf \<in> {[], signType}"
    and "delivered (auth_headers env appID secret signType ts nonce c) hget"
    and "\<And>x. md5 env x \<noteq> []" and "in_int64 ts" "in_int64 now" "\<bar>now - ts\<bar> \<le> int64_max"
    and store: "auth_Cache conf = Some C" "cGet C (calculateSignature env secret signType nonce ts) s = ((v, err), s1)"
  shows "fst (server_Auth (md5 env) lib conf now hget s) =
    (if err = None then Some SignReplayErr
     else if \<bar>now - ts\<bar> \<le> tdiv (Expire conf) 1000000 then None else Some SignTimeErr)"
  using auth_check_signed [OF assms(1-8), of lib now s] validate_in_window [OF assms(9,8,10)] store
  by (simp add: server_Auth_def Let_def)

text \<open>
  A retry is a replay: the client sends a retried request with the same headers, so once the server has
  let it pass and its store remembers the signature, the retry is answered with \<^verbatim>\<open>SignReplayErr\<close>,
  whatever became of the first answer.
\<close>

theorem retry_is_replay:
  assumes "SecretGetter conf = Some g" "g appID = secret" "secret \<noteq> []" "SignatureFunc conf = None"
      "auth_SignType conf \<in> {[], signType}"
    and md5: "\<And>x. md5 env x \<noteq> []" and "in_int64 ts"
    and first: "c1 = auth_headers env appID secret signType ts nonce c"
    and again: "delivered (RetryRequest env c1) hget"
    and store: "auth_Cache conf = Some C"
      "cGet C (calculateSignature env secret signType nonce ts) s2 = ((v, None), s3)"
  shows "fst (server_Auth (md5 env) lib conf now' hget s2) = Some SignReplayErr"
proof -
  have "hRequest (RetryRequest env c1) = hRequest c1"
    by (simp add: RetryRequest_def send_def AddError_def split: option.splits prod.splits)
  then have "delivered c1 hget" using again by (simp add: delivered_def)
  then show ?thesis
    using auth_check_signed [OF assms(1-5) _ md5 assms(7), of nonce c hget lib now' s2] store
    by (simp add: first server_Auth_def Let_def)
qed

text \<open>
  The time window in 64-bit arithmetic: besides the times within \<^verbatim>\<open>Expire\<close> of the clock, exactly one
  other time is accepted, the one \<^verbatim>\<open>2^63\<close> milliseconds before it, whose distance overflows.
\<close>

theorem timestamp_window:
  assumes "0 \<le> now" "now < 2 ^ 62" "in_int64 ts" "0 \<le> expire" "in_int64 expire"
  shows "validateTimestamp now ts expire \<longleftrightarrow> \<bar>now - ts\<bar> \<le> expire div 1000000 \<or> ts = now - 2 ^ 63"
proof -
  have E: "tdiv expire 1000000 = expire div 1000000" "0 \<le> expire div 1000000" "expire div 1000000 < 2 ^ 60"
    using assms(4,5) by (simp_all add: tdiv_nonneg int64_defs)
  have ts: "- (2 ^ 63) \<le> ts" "ts < 2 ^ 63" using assms(3) by (simp_all add: int64_defs)
  consider "\<bar>now - ts\<bar> \<le> int64_max" | "now - ts = 2 ^ 63" | "now - ts > 2 ^ 63" using assms(1,2) ts by (fastforce simp: int64_defs)
  then show ?thesis
  proof cases
    case 1
    have now: "in_int64 now" using assms(1,2) by (simp add: int64_defs)
    show ?thesis using validate_in_window [OF now assms(3) 1] 1 E(1) by (auto simp: int64_defs)
  next
    case 2
    have "wrap64 (2 ^ 63) = - (2 ^ 63)" by (simp add: wrap64_def)
    then show ?thesis using 2 E by (simp add: validateTimestamp_def Let_def)
  next
    case 3
    have "wrap64 (now - ts) = now - ts - 2 ^ 64"
    proof -
      have "(now - ts + 2 ^ 63) mod 2 ^ 64 = (now - ts + 2 ^ 63 - 2 ^ 64) mod 2 ^ 64" by (rule minus_mod_self2 [symmetric])
      also have "\<dots> = now - ts + 2 ^ 63 - 2 ^ 64" using 3 assms(2) ts by (intro mod_pos_pos_trivial) simp_all
      finally show ?thesis by (simp add: wrap64_def)
    qed
    moreover have "wrap64 (- (now - ts - 2 ^ 64)) = 2 ^ 64 - (now - ts)"
      using 3 assms(2) ts by (subst wrap64_id) (simp_all add: int64_defs)
    ultimately have "validateTimestamp now ts expire \<longleftrightarrow> 2 ^ 64 - (now - ts) \<le> expire div 1000000"
      using 3 assms(2) ts E(1) by (simp add: validateTimestamp_def Let_def)
    then show ?thesis using 3 assms(1,2) ts E(3) by simp
  qed
qed

text \<open>
  The replay check is not atomic: when two requests with the same signature are both looked up before
  either is recorded, both pass.
\<close>

theorem concurrent_replay_passes:
  assumes "SecretGetter conf = Some g" "g appID = secret" "secret \<noteq> []" "SignatureFunc conf = None"
      "auth_SignType conf \<in> {[], signType}"
    and sent: "delivered (auth_headers env appID secret signType ts nonce c) hget"
    and md5: "\<And>x. md5 env x \<noteq> []" and "in_int64 ts"
    and store: "auth_Cache conf = Some C"
      "cGet C (calculateSignature env secret signType nonce ts) s = ((v1, Some ErrNotFound), s1)"
      "cGet C (calculateSignature env secret signType nonce ts) s1 = ((v2, Some ErrNotFound), s2)"
    and time: "validateTimestamp now1 ts (Expire conf)" "validateTimestamp now2 ts (Expire conf)"
  shows "\<exists>sig. auth_check (md5 env) lib conf now1 hget s = (Inr sig, s1) \<and> auth_check (md5 env) lib conf now2 hget s1 = (Inr sig, s2)"
  using auth_check_signed [OF assms(1-8), of lib now1 s] auth_check_signed [OF assms(1-8), of lib now2 s1] store time
  by (simp add: Let_def)

section \<open>Witnesses\<close>

text \<open>The memory cache over the finite-map store of theory \<^verbatim>\<open>Cache\<close>, here for numbers.\<close>

definition demo_int_otter :: "(string \<rightharpoonup> int, int, unit) otter" where
  "demo_int_otter = \<lparr>otNew = (\<lambda>_ _. Inr Map.empty), GetIfPresent = (\<lambda>k m. (m k, m)), otSet = (\<lambda>k v m. m(k \<mapsto> v)),
     SetExpiresAfter = (\<lambda>_ _ m. m), Invalidate = (\<lambda>k m. m(k := None)),
     otGet = (\<lambda>k loader (m, w). ((0, None), (m, w))), StopAllGoroutines = id\<rparr>"

definition demo_auth :: "(string \<rightharpoonup> int, unit) AuthConf" where
  "demo_auth = \<lparr>auth_Cache = Some (memoryCache demo_int_otter 0), Expire = 60000000000, auth_SignType = ''md5'',
     SecretGetter = Some (\<lambda>_. ''secret''), SignatureFunc = None\<rparr>"

definition demo_md5_env :: "unit henv" where
  "demo_md5_env = demo_henv\<lparr>md5 := (\<lambda>x. CHR ''h'' # x)\<rparr>"

definition demo_req_data :: "unit hdata" where
  "demo_req_data = startData False False 0 \<lparr>Method = ''GET'', URL = ''http://s'', Query = [], ReqBody = BodyNil, Headers = None, Timeout = 0\<rparr>"

definition demo_signed :: "unit hdata" where
  "demo_signed = auth_headers demo_md5_env ''app'' ''secret'' ''md5'' 1000 ''n'' demo_req_data"

definition demo_get :: header_get where
  "demo_get h = (case Headers (hRequest demo_signed) of None \<Rightarrow> [] | Some m \<Rightarrow> (case m h of None \<Rightarrow> [] | Some v \<Rightarrow> v))"

lemma demo_delivered: "delivered demo_signed demo_get"
  by (auto simp: delivered_def demo_get_def)

lemma demo_auth_simps:
  "SecretGetter demo_auth = Some (\<lambda>_. ''secret'')" "SignatureFunc demo_auth = None" "auth_SignType demo_auth = ''md5''"
  "auth_Cache demo_auth = Some (memoryCache demo_int_otter 0)" "Expire demo_auth = 60000000000"
  "md5 demo_md5_env x \<noteq> []"
  by (simp_all add: demo_auth_def demo_md5_env_def)

lemma demo_store:
  "cGet (memoryCache demo_int_otter 0) k Map.empty = ((0, Some ErrNotFound), Map.empty)"
  "cGet (memoryCache demo_int_otter 0) k [k \<mapsto> 5] = ((5, None), [k \<mapsto> 5])"
  by (simp_all add: memoryCache_def memory_Get_def demo_int_otter_def)

theorem signed_request_passes_witness:
  "fst (server_Auth (md5 demo_md5_env) demo_conv demo_auth 2000 demo_get Map.empty) = None"
  using signed_request_passes [OF demo_auth_simps(1) refl _ demo_auth_simps(2), of "''md5''" demo_md5_env "''app''" 1000 "''n''"
      demo_req_data demo_get 2000 "memoryCache demo_int_otter 0" Map.empty 0 "Some ErrNotFound" Map.empty demo_conv]
    demo_delivered
  by (simp add: demo_auth_simps demo_store demo_signed_def int64_defs tdiv_def)

theorem retry_is_replay_witness:
  "fst (server_Auth (md5 demo_md5_env) demo_conv demo_auth 2000 demo_get
     [calculateSignature demo_md5_env ''secret'' ''md5'' ''n'' 1000 \<mapsto> 5]) = Some SignReplayErr"
proof -
  have "hRequest (RetryRequest demo_md5_env demo_signed) = hRequest demo_signed"
    by (simp add: RetryRequest_def send_def AddError_def split: option.splits prod.splits)
  then have d: "delivered (RetryRequest demo_md5_env demo_signed) demo_get" using demo_delivered by (simp add: delivered_def)
  show ?thesis
    by (rule retry_is_replay [OF demo_auth_simps(1) refl _ demo_auth_simps(2) _ _ _ demo_signed_def d demo_auth_simps(4) demo_store(2)])
      (simp_all add: demo_auth_simps int64_defs)
qed

theorem timestamp_window_witness: "validateTimestamp 1000 (1000 - 2 ^ 63) 60000000000"
  using timestamp_window [of 1000 "1000 - 2 ^ 63" 60000000000] by (simp add: int64_defs)

theorem concurrent_replay_passes_witness:
  "\<exists>sig s1. auth_check (md5 demo_md5_env) demo_conv demo_auth 2000 demo_get Map.empty = (Inr sig, s1) \<and>
     auth_check (md5 demo_md5_env) demo_conv demo_auth 2001 demo_get s1 = (Inr sig, s1)"
proof -
  have "\<exists>sig. auth_check (md5 demo_md5_env) demo_conv demo_auth 2000 demo_get Map.empty = (Inr sig, Map.empty) \<and>
     auth_check (md5 demo_md5_env) demo_conv demo_auth 2001 demo_get Map.empty = (Inr sig, Map.empty)"
    by (rule concurrent_replay_passes [OF demo_auth_simps(1) refl _ demo_auth_simps(2) _ demo_delivered [unfolded demo_signed_def] _ _
          demo_auth_simps(4) demo_store(1) demo_store(1)])
      (simp_all add: demo_auth_simps int64_defs validateTimestamp_def wrap64_def tdiv_def)
  then show ?thesis by blast
qed

end
