(* ===== verification/Ordered_Map.thy ===== *)
theory Ordered_Map
  imports Go_Prelude
begin

text \<open>
  The map that keeps the order of insertion, \<^verbatim>\<open>common/utils/zmap.go\<close>.  The linked list of
  \<^verbatim>\<open>container/list\<close> is the sequence of its elements, which are addresses of a store; the hash table
  points into it.  Every method holds the lock, so each is one step.

  The contract of the map is the locale \<^verbatim>\<open>ordered_map\<close>: what the pairs are after every operation, and
  that the look-up is the look-up in them.
\<close>

section \<open>The map\<close>

type_synonym ('k, 'v) Pair = "'k \<times> 'v"

record ('k, 'v) OrderedMap =
  order :: "nat list"
  cell :: "nat \<Rightarrow> ('k, 'v) Pair option"
  elements :: "'k \<Rightarrow> nat option"
  brk :: nat

definition NewOrderedMap :: "('k, 'v) OrderedMap" where
  "NewOrderedMap = \<lparr>order = [], cell = (\<lambda>_. None), elements = (\<lambda>_. None), brk = 0\<rparr>"

definition PushBack :: "('k, 'v) Pair \<Rightarrow> ('k, 'v) OrderedMap \<Rightarrow> nat \<times> ('k, 'v) OrderedMap" where
  "PushBack p m =
     (brk m, m\<lparr>order := order m @ [brk m], cell := (cell m)(brk m \<mapsto> p), brk := Suc (brk m)\<rparr>)"

definition list_Remove :: "nat \<Rightarrow> ('k, 'v) OrderedMap \<Rightarrow> ('k, 'v) OrderedMap" where
  "list_Remove a m = m\<lparr>order := filter (\<lambda>b. b \<noteq> a) (order m)\<rparr>"

definition Set :: "'k \<Rightarrow> 'v \<Rightarrow> ('k, 'v) OrderedMap \<Rightarrow> ('k, 'v) OrderedMap" where
  "Set key v m =
     (case elements m key of
        Some elem \<Rightarrow> m\<lparr>cell := (cell m)(elem \<mapsto> (key, v))\<rparr>
      | None \<Rightarrow> (case PushBack (key, v) m of (elem, m1) \<Rightarrow> m1\<lparr>elements := (elements m1)(key \<mapsto> elem)\<rparr>))"

definition InitOrderedMap :: "'k \<Rightarrow> 'v \<Rightarrow> ('k, 'v) OrderedMap" where
  "InitOrderedMap key v = Set key v NewOrderedMap"

text \<open>The value and the flag; of a missing key the zero value, which is a parameter.\<close>

definition Get :: "'v \<Rightarrow> 'k \<Rightarrow> ('k, 'v) OrderedMap \<Rightarrow> 'v \<times> bool" where
  "Get zero key m =
     (case elements m key of
        Some elem \<Rightarrow> (case cell m elem of Some p \<Rightarrow> (snd p, True) | None \<Rightarrow> (zero, False))
      | None \<Rightarrow> (zero, False))"

definition Has :: "'k \<Rightarrow> ('k, 'v) OrderedMap \<Rightarrow> bool" where
  "Has key m \<longleftrightarrow> elements m key \<noteq> None"

definition Del :: "'k \<Rightarrow> ('k, 'v) OrderedMap \<Rightarrow> ('k, 'v) OrderedMap" where
  "Del key m =
     (case elements m key of
        Some elem \<Rightarrow> (list_Remove elem m)\<lparr>elements := (elements m)(key := None)\<rparr>
      | None \<Rightarrow> m)"

definition Len :: "('k, 'v) OrderedMap \<Rightarrow> nat" where
  "Len m = length (order m)"

fun collect :: "(nat \<Rightarrow> ('k, 'v) Pair option) \<Rightarrow> nat list \<Rightarrow> ('k, 'v) Pair list" where
  "collect c [] = []"
| "collect c (a # as) = (case c a of Some p \<Rightarrow> p # collect c as | None \<Rightarrow> collect c as)"

definition snapshot :: "('k, 'v) OrderedMap \<Rightarrow> ('k, 'v) Pair list" where
  "snapshot m = collect (cell m) (order m)"

definition snapshotReverse :: "('k, 'v) OrderedMap \<Rightarrow> ('k, 'v) Pair list" where
  "snapshotReverse m = collect (cell m) (rev (order m))"

definition Keys :: "('k, 'v) OrderedMap \<Rightarrow> 'k list" where
  "Keys m = map fst (snapshot m)"

definition Values :: "('k, 'v) OrderedMap \<Rightarrow> 'v list" where
  "Values m = map snd (snapshot m)"

definition Pairs :: "('k, 'v) OrderedMap \<Rightarrow> ('k, 'v) Pair list" where
  "Pairs m = snapshot m"

text \<open>
  The callback runs outside the lock and may change anything, the map too; \<open>mp\<close> finds the map in the
  state.  It is called for the pairs of the snapshot until it returns false.
\<close>

fun each_loop :: "(('k, 'v) Pair \<Rightarrow> 's \<Rightarrow> bool \<times> 's) \<Rightarrow> ('k, 'v) Pair list \<Rightarrow> 's \<Rightarrow> 's" where
  "each_loop f [] s = s"
| "each_loop f (p # ps) s = (case f p s of (go, s1) \<Rightarrow> if go then each_loop f ps s1 else s1)"

definition Each :: "('s \<Rightarrow> ('k, 'v) OrderedMap) \<Rightarrow> (('k, 'v) Pair \<Rightarrow> 's \<Rightarrow> bool \<times> 's) \<Rightarrow> 's \<Rightarrow> 's" where
  "Each mp f s = each_loop f (snapshot (mp s)) s"

definition EachReverse :: "('s \<Rightarrow> ('k, 'v) OrderedMap) \<Rightarrow> (('k, 'v) Pair \<Rightarrow> 's \<Rightarrow> bool \<times> 's) \<Rightarrow> 's \<Rightarrow> 's" where
  "EachReverse mp f s = each_loop f (snapshotReverse (mp s)) s"

definition MarshalJSON :: "(('k, 'v) Pair list \<Rightarrow> goerr + string) \<Rightarrow> ('k, 'v) OrderedMap \<Rightarrow> goerr + string" where
  "MarshalJSON json_Marshal m = json_Marshal (snapshot m)"

text \<open>\<^verbatim>\<open>fmt.Sprint\<close> of keys and values is a parameter.\<close>

fun write_pairs :: "('k \<Rightarrow> string) \<Rightarrow> ('v \<Rightarrow> string) \<Rightarrow> nat \<Rightarrow> ('k, 'v) Pair list \<Rightarrow> string" where
  "write_pairs sk sv i [] = []"
| "write_pairs sk sv i (p # ps) =
     (if i > 0 then '', '' else []) @ sk (fst p) @ '': '' @ sv (snd p) @ write_pairs sk sv (Suc i) ps"

definition String :: "('k \<Rightarrow> string) \<Rightarrow> ('v \<Rightarrow> string) \<Rightarrow> ('k, 'v) OrderedMap \<Rightarrow> string" where
  "String sk sv m = ''{'' @ write_pairs sk sv 0 (snapshot m) @ ''}''"

section \<open>The contract\<close>

text \<open>Writing into a list of pairs: in place if the key is there, else at the end.\<close>

fun upsert :: "'k \<Rightarrow> 'v \<Rightarrow> ('k \<times> 'v) list \<Rightarrow> ('k \<times> 'v) list" where
  "upsert k v [] = [(k, v)]"
| "upsert k v (p # ps) = (if fst p = k then (k, v) # ps else p # upsert k v ps)"

lemma upsert_new: "k \<notin> fst ` set ps \<Longrightarrow> upsert k v ps = ps @ [(k, v)]"
  by (induction ps) auto

lemma upsert_keys [simp]: "fst ` set (upsert k v ps) = insert k (fst ` set ps)"
  by (induction ps) auto

lemma map_of_upsert: "map_of (upsert k v ps) = (map_of ps)(k \<mapsto> v)"
  by (induction ps) (auto simp: fun_eq_iff)

locale ordered_map =
  fixes empty :: "'m"
    and update :: "'k \<Rightarrow> 'v \<Rightarrow> 'm \<Rightarrow> 'm"
    and delete :: "'k \<Rightarrow> 'm \<Rightarrow> 'm"
    and lookup :: "'v \<Rightarrow> 'k \<Rightarrow> 'm \<Rightarrow> 'v \<times> bool"
    and pairs :: "'m \<Rightarrow> ('k \<times> 'v) list"
    and invar :: "'m \<Rightarrow> bool"
  assumes invar_empty: "invar empty"
    and invar_update: "invar m \<Longrightarrow> invar (update k v m)"
    and invar_delete: "invar m \<Longrightarrow> invar (delete k m)"
    and pairs_empty: "pairs empty = []"
    and pairs_update: "invar m \<Longrightarrow> pairs (update k v m) = upsert k v (pairs m)"
    and pairs_delete: "invar m \<Longrightarrow> pairs (delete k m) = filter (\<lambda>p. fst p \<noteq> k) (pairs m)"
    and pairs_distinct: "invar m \<Longrightarrow> distinct (map fst (pairs m))"
    and lookup_pairs: "invar m \<Longrightarrow> lookup zero k m = (case map_of (pairs m) k of Some v \<Rightarrow> (v, True) | None \<Rightarrow> (zero, False))"
begin

text \<open>A chain of calls, as the clients build their maps.\<close>

definition build :: "('k \<times> 'v) list \<Rightarrow> 'm" where
  "build kvs = foldl (\<lambda>m (k, v). update k v m) empty kvs"

lemma build_from:
  "invar m \<Longrightarrow> invar (foldl (\<lambda>m (k, v). update k v m) m kvs) \<and>
     pairs (foldl (\<lambda>m (k, v). update k v m) m kvs) = foldl (\<lambda>ps (k, v). upsert k v ps) (pairs m) kvs"
  by (induction kvs arbitrary: m) (auto simp: invar_update pairs_update)

lemma invar_build: "invar (build kvs)"
  unfolding build_def using build_from [OF invar_empty] by blast

lemma foldl_upsert_distinct:
  "distinct (map fst kvs) \<Longrightarrow> fst ` set kvs \<inter> fst ` set ps = {} \<Longrightarrow> foldl (\<lambda>ps (k, v). upsert k v ps) ps kvs = ps @ kvs"
proof (induction kvs arbitrary: ps)
  case (Cons kv kvs)
  then have "upsert (fst kv) (snd kv) ps = ps @ [kv]" by (simp add: upsert_new)
  moreover have "fst ` set kvs \<inter> fst ` set (ps @ [kv]) = {}" using Cons.prems by auto
  ultimately show ?case using Cons by (simp add: case_prod_unfold)
qed simp

text \<open>Different keys come out as they went in.\<close>

lemma pairs_build: "distinct (map fst kvs) \<Longrightarrow> pairs (build kvs) = kvs"
  unfolding build_def using build_from [OF invar_empty, of kvs] foldl_upsert_distinct [of kvs "[]"] by (simp add: pairs_empty)

lemma lookup_update: "invar m \<Longrightarrow> lookup zero k (update k' v m) = (if k = k' then (v, True) else lookup zero k m)"
  by (simp add: lookup_pairs invar_update pairs_update map_of_upsert)

lemma map_of_filter_key: "map_of (filter (\<lambda>p. fst p \<noteq> k') ps) k = (if k = k' then None else map_of ps k)"
  by (induction ps) auto

lemma lookup_delete: "invar m \<Longrightarrow> lookup zero k (delete k' m) = (if k = k' then (zero, False) else lookup zero k m)"
  by (simp add: lookup_pairs invar_delete pairs_delete map_of_filter_key)

end

section \<open>The linked list has the contract\<close>

text \<open>The elements are different cells, and the table points to exactly the cell of each key.\<close>

definition omap_ok :: "('k, 'v) OrderedMap \<Rightarrow> bool" where
  "omap_ok m \<longleftrightarrow>
     distinct (order m) \<and> (\<forall>a\<in>set (order m). a < brk m \<and> cell m a \<noteq> None) \<and>
     (\<forall>k a. elements m k = Some a \<longleftrightarrow> a \<in> set (order m) \<and> (\<exists>v. cell m a = Some (k, v)))"

lemma omap_okD:
  assumes "omap_ok m"
  shows "distinct (order m)" "a \<in> set (order m) \<Longrightarrow> a < brk m" "a \<in> set (order m) \<Longrightarrow> \<exists>k v. cell m a = Some (k, v)"
    "elements m k = Some a \<longleftrightarrow> a \<in> set (order m) \<and> (\<exists>v. cell m a = Some (k, v))"
  using assms by (auto simp: omap_ok_def)

lemma omap_fresh: "omap_ok m \<Longrightarrow> brk m \<notin> set (order m)"
  using omap_okD(2) by blast

lemma omap_elements_None: "omap_ok m \<Longrightarrow> elements m k = None \<longleftrightarrow> (\<forall>a\<in>set (order m). \<forall>v. cell m a \<noteq> Some (k, v))"
  by (metis not_Some_eq omap_okD(4))

lemma omap_inj: "omap_ok m \<Longrightarrow> a \<in> set (order m) \<Longrightarrow> b \<in> set (order m) \<Longrightarrow> cell m a = Some (k, v) \<Longrightarrow> cell m b = Some (k, w) \<Longrightarrow> a = b"
  by (metis omap_okD(4) option.inject)

lemma collect_append [simp]: "collect c (xs @ ys) = collect c xs @ collect c ys"
  by (induction xs) (auto split: option.splits)

lemma collect_rev: "collect c (rev xs) = rev (collect c xs)"
  by (induction xs) (auto split: option.splits)

lemma collect_cong: "(\<And>a. a \<in> set xs \<Longrightarrow> c a = d a) \<Longrightarrow> collect c xs = collect d xs"
  by (induction xs) (auto split: option.splits)

lemma set_collect: "p \<in> set (collect c xs) \<longleftrightarrow> (\<exists>a\<in>set xs. c a = Some p)"
  by (induction xs) (auto split: option.splits)

lemma omap_ok_New: "omap_ok NewOrderedMap"
  by (simp add: omap_ok_def NewOrderedMap_def)

lemma omap_okI:
  assumes "distinct (order m)" "\<And>a. a \<in> set (order m) \<Longrightarrow> a < brk m \<and> cell m a \<noteq> None"
    "\<And>k a. elements m k = Some a \<longleftrightarrow> a \<in> set (order m) \<and> (\<exists>v. cell m a = Some (k, v))"
  shows "omap_ok m"
  using assms unfolding omap_ok_def by blast

lemma omap_cell:
  assumes "omap_ok m" "elements m key = Some e"
  obtains u where "e \<in> set (order m)" "cell m e = Some (key, u)"
proof -
  have "e \<in> set (order m) \<and> (\<exists>u. cell m e = Some (key, u))" using omap_okD(4) [OF assms(1), of key e] assms(2) by simp
  then show thesis using that by auto
qed

lemma omap_missing: "omap_ok m \<Longrightarrow> elements m k = None \<Longrightarrow> a \<in> set (order m) \<Longrightarrow> cell m a \<noteq> Some (k, v)"
  using omap_elements_None [of m k] by simp

lemma omap_ok_Set:
  assumes "omap_ok m"
  shows "omap_ok (Set key v m)"
proof (cases "elements m key")
  case None
  note D = omap_okD [OF assms] and fresh = omap_fresh [OF assms]
  have S: "Set key v m = m\<lparr>order := order m @ [brk m], cell := (cell m)(brk m \<mapsto> (key, v)), brk := Suc (brk m), elements := (elements m)(key \<mapsto> brk m)\<rparr>"
    using None by (simp add: Set_def PushBack_def)
  show ?thesis
  proof (rule omap_okI, goal_cases)
    case 1
    show ?case unfolding S using D(1) fresh by simp
  next
    case (2 a)
    then show ?case unfolding S using D(2,3) [of a] by auto
  next
    case (3 k a)
    show ?case
    proof (cases "k = key")
      case True
      have "a \<in> set (order m) \<Longrightarrow> cell m a \<noteq> Some (key, u)" for u using omap_missing [OF assms None] .
      then show ?thesis unfolding S True using fresh by auto
    next
      case False
      then show ?thesis unfolding S using D(4) [of k a] fresh by auto
    qed
  qed
next
  case (Some e)
  note D = omap_okD [OF assms]
  obtain u where e: "e \<in> set (order m)" "cell m e = Some (key, u)" using omap_cell [OF assms Some] .
  have S: "Set key v m = m\<lparr>cell := (cell m)(e \<mapsto> (key, v))\<rparr>" using Some by (simp add: Set_def)
  show ?thesis
  proof (rule omap_okI, goal_cases)
    case 1
    show ?case unfolding S using D(1) by simp
  next
    case (2 a)
    then show ?case unfolding S using D(2,3) [of a] by auto
  next
    case (3 k a)
    show ?case unfolding S using D(4) [of k a] Some e by (cases "a = e") auto
  qed
qed

lemma omap_ok_Del:
  assumes "omap_ok m"
  shows "omap_ok (Del key m)"
proof (cases "elements m key")
  case None
  then show ?thesis using assms by (simp add: Del_def)
next
  case (Some e)
  note D = omap_okD [OF assms]
  obtain u where e: "e \<in> set (order m)" "cell m e = Some (key, u)" using omap_cell [OF assms Some] .
  have S: "Del key m = m\<lparr>order := filter (\<lambda>b. b \<noteq> e) (order m), elements := (elements m)(key := None)\<rparr>"
    using Some by (simp add: Del_def list_Remove_def)
  show ?thesis
  proof (rule omap_okI, goal_cases)
    case 1
    show ?case unfolding S using D(1) by simp
  next
    case (2 a)
    then show ?case unfolding S using D(2,3) [of a] by auto
  next
    case (3 k a)
    consider "k = key" | "k \<noteq> key" "a = e" | "k \<noteq> key" "a \<noteq> e" by blast
    then show ?case
    proof cases
      case 1
      have "a \<noteq> e \<Longrightarrow> \<not> (a \<in> set (order m) \<and> (\<exists>v. cell m a = Some (key, v)))" using D(4) [of key a] Some by auto
      then show ?thesis unfolding S 1 by auto
    next
      case 2
      have "elements m k \<noteq> Some e" using D(4) [of k e] e(2) 2(1) by auto
      then show ?thesis unfolding S using 2 by simp
    next
      case 3
      then show ?thesis unfolding S using D(4) [of k a] by simp
    qed
  qed
qed

lemma collect_upsert:
  assumes "distinct as" "a \<in> set as" "c a = Some (k, u)" "\<And>b v. b \<in> set as \<Longrightarrow> b \<noteq> a \<Longrightarrow> c b \<noteq> Some (k, v)"
  shows "collect (c(a \<mapsto> (k, v))) as = upsert k v (collect c as)"
  using assms
proof (induction as)
  case (Cons b as)
  show ?case
  proof (cases "b = a")
    case True
    then have "collect (c(a \<mapsto> (k, v))) as = collect c as" using Cons.prems(1) by (intro collect_cong) auto
    then show ?thesis using True Cons.prems(3) by (simp del: fun_upd_apply) simp
  next
    case False
    then have "collect (c(a \<mapsto> (k, v))) as = upsert k v (collect c as)" using Cons.prems by (intro Cons.IH) simp_all
    moreover have "fst p \<noteq> k" if "c b = Some p" for p using Cons.prems(4) [of b "snd p"] False that by (cases p) auto
    moreover have "(c(a \<mapsto> (k, v))) b = c b" using False by (rule fun_upd_other)
    ultimately show ?thesis by (simp split: option.splits del: fun_upd_apply)
  qed
qed simp

lemma omap_other:
  assumes "omap_ok m" "elements m key = Some e" "b \<in> set (order m)" "b \<noteq> e"
  shows "cell m b \<noteq> Some (key, v)"
  using omap_okD(4) [OF assms(1), of key b] assms(2-4) by auto

lemma snapshot_missing:
  assumes "omap_ok m" "elements m key = None"
  shows "key \<notin> fst ` set (snapshot m)"
proof
  assume "key \<in> fst ` set (snapshot m)"
  then obtain a v where "a \<in> set (order m)" "cell m a = Some (key, v)" by (auto simp: snapshot_def set_collect)
  then show False using omap_missing [OF assms] by blast
qed

lemma snapshot_Set:
  assumes "omap_ok m"
  shows "snapshot (Set key v m) = upsert key v (snapshot m)"
proof (cases "elements m key")
  case None
  have "collect ((cell m)(brk m \<mapsto> (key, v))) (order m) = collect (cell m) (order m)"
    using omap_fresh [OF assms] by (intro collect_cong) auto
  then show ?thesis using None snapshot_missing [OF assms None] by (simp add: Set_def PushBack_def upsert_new snapshot_def)
next
  case (Some e)
  obtain u where e: "e \<in> set (order m)" "cell m e = Some (key, u)" using omap_cell [OF assms Some] .
  have "collect ((cell m)(e \<mapsto> (key, v))) (order m) = upsert key v (collect (cell m) (order m))"
    using omap_okD(1) [OF assms] e omap_other [OF assms Some] by (rule collect_upsert)
  then show ?thesis using Some by (simp add: Set_def snapshot_def)
qed

lemma collect_filter:
  assumes "c a = Some (k, u)" "\<And>b v. b \<in> set as \<Longrightarrow> b \<noteq> a \<Longrightarrow> c b \<noteq> Some (k, v)"
  shows "collect c (filter (\<lambda>b. b \<noteq> a) as) = filter (\<lambda>p. fst p \<noteq> k) (collect c as)"
  using assms(2)
proof (induction as)
  case (Cons b as)
  have IH: "collect c (filter (\<lambda>b. b \<noteq> a) as) = filter (\<lambda>p. fst p \<noteq> k) (collect c as)" using Cons.prems by (intro Cons.IH) simp
  show ?case
  proof (cases "b = a")
    case True
    then show ?thesis using IH assms(1) by simp
  next
    case False
    have "fst p \<noteq> k" if "c b = Some p" for p using Cons.prems [of b "snd p"] False that by (cases p) auto
    then show ?thesis using False IH by (simp split: option.splits)
  qed
qed simp

lemma snapshot_Del:
  assumes "omap_ok m"
  shows "snapshot (Del key m) = filter (\<lambda>p. fst p \<noteq> key) (snapshot m)"
proof (cases "elements m key")
  case None
  then have "filter (\<lambda>p. fst p \<noteq> key) (snapshot m) = snapshot m"
    using snapshot_missing [OF assms None] by (auto simp: filter_id_conv)
  then show ?thesis using None by (simp add: Del_def)
next
  case (Some e)
  obtain u where e: "e \<in> set (order m)" "cell m e = Some (key, u)" using omap_cell [OF assms Some] .
  have "collect (cell m) (filter (\<lambda>b. b \<noteq> e) (order m)) = filter (\<lambda>p. fst p \<noteq> key) (collect (cell m) (order m))"
    using e(2) omap_other [OF assms Some] by (rule collect_filter)
  then show ?thesis using Some by (simp add: Del_def list_Remove_def snapshot_def)
qed

lemma snapshot_distinct:
  assumes "omap_ok m"
  shows "distinct (map fst (snapshot m))"
proof -
  have "distinct (map fst (collect (cell m) as))" if "distinct as" "set as \<subseteq> set (order m)" for as
    using that
  proof (induction as)
    case (Cons a as)
    have "k \<notin> fst ` set (collect (cell m) as)" if "cell m a = Some (k, v)" for k v
    proof
      assume "k \<in> fst ` set (collect (cell m) as)"
      then obtain b w where "b \<in> set as" "cell m b = Some (k, w)" by (auto simp: set_collect)
      then show False using omap_inj [OF assms, of a b] that Cons.prems by auto
    qed
    then show ?case using Cons by (auto split: option.splits)
  qed simp
  then show ?thesis using omap_okD(1) [OF assms] by (simp add: snapshot_def)
qed

lemma Get_snapshot:
  assumes "omap_ok m"
  shows "Get zero key m = (case map_of (snapshot m) key of Some v \<Rightarrow> (v, True) | None \<Rightarrow> (zero, False))"
proof (cases "elements m key")
  case None
  then show ?thesis using snapshot_missing [OF assms None] by (simp add: Get_def map_of_eq_None_iff [THEN iffD2])
next
  case (Some e)
  obtain v where e: "e \<in> set (order m)" "cell m e = Some (key, v)" using omap_cell [OF assms Some] .
  then have "(key, v) \<in> set (snapshot m)" by (auto simp: snapshot_def set_collect)
  then have "map_of (snapshot m) key = Some v" using snapshot_distinct [OF assms] by simp
  then show ?thesis using Some e by (simp add: Get_def)
qed

interpretation zmap: ordered_map NewOrderedMap Set Del Get Pairs omap_ok
  by unfold_locales
    (simp_all add: omap_ok_New omap_ok_Set omap_ok_Del Pairs_def snapshot_Set snapshot_Del snapshot_distinct Get_snapshot,
     simp add: snapshot_def NewOrderedMap_def)

lemma length_collect: "(\<And>a. a \<in> set as \<Longrightarrow> c a \<noteq> None) \<Longrightarrow> length (collect c as) = length as"
  by (induction as) (auto split: option.splits)

lemma Len_Pairs: "omap_ok m \<Longrightarrow> Len m = length (Pairs m)"
  by (simp add: Len_def Pairs_def snapshot_def length_collect omap_ok_def)

lemma Has_Pairs:
  assumes "omap_ok m"
  shows "Has key m \<longleftrightarrow> key \<in> set (Keys m)"
proof (cases "elements m key")
  case None
  then show ?thesis using snapshot_missing [OF assms None] by (simp add: Has_def Keys_def)
next
  case (Some e)
  obtain v where "e \<in> set (order m)" "cell m e = Some (key, v)" using omap_cell [OF assms Some] .
  then have "(key, v) \<in> set (snapshot m)" by (auto simp: snapshot_def set_collect)
  then show ?thesis using Some by (force simp: Has_def Keys_def)
qed

section \<open>Properties\<close>

text \<open>The operations of a client, and the list of pairs they act on.\<close>

datatype ('k, 'v) zop = ZSet 'k 'v | ZDel 'k

fun zrun :: "('k, 'v) zop list \<Rightarrow> ('k, 'v) OrderedMap \<Rightarrow> ('k, 'v) OrderedMap" where
  "zrun [] m = m"
| "zrun (ZSet k v # zs) m = zrun zs (Set k v m)"
| "zrun (ZDel k # zs) m = zrun zs (Del k m)"

fun zspec :: "('k, 'v) zop list \<Rightarrow> ('k \<times> 'v) list \<Rightarrow> ('k \<times> 'v) list" where
  "zspec [] ps = ps"
| "zspec (ZSet k v # zs) ps = zspec zs (upsert k v ps)"
| "zspec (ZDel k # zs) ps = zspec zs (filter (\<lambda>p. fst p \<noteq> k) ps)"

lemma zrun_spec: "omap_ok m \<Longrightarrow> omap_ok (zrun zs m) \<and> Pairs (zrun zs m) = zspec zs (Pairs m)"
  by (induction zs m rule: zrun.induct)
    (simp_all add: zmap.invar_update zmap.invar_delete zmap.pairs_update zmap.pairs_delete)

lemma write_pairs_join: "write_pairs sk sv (Suc i) ps = concat (map (\<lambda>p. '', '' @ sk (fst p) @ '': '' @ sv (snd p)) ps)"
  by (induction ps arbitrary: i) simp_all

text \<open>
  C18. Refinement: after any sequence of \<^verbatim>\<open>Set\<close> and \<^verbatim>\<open>Del\<close> the linked list with its hash table is the
  list of pairs in the order of first insertion, an update keeping the place: all observers (\<^verbatim>\<open>Get\<close>,
  \<^verbatim>\<open>Has\<close>, \<^verbatim>\<open>Len\<close>, \<^verbatim>\<open>Keys\<close>, \<^verbatim>\<open>Values\<close>, \<^verbatim>\<open>Pairs\<close>, the reverse snapshot) show that list, and no key twice.
\<close>

theorem ordered_map_refines_list:
  fixes zs :: "('k, 'v) zop list"
  defines "m \<equiv> zrun zs NewOrderedMap" and "ps \<equiv> zspec zs []"
  shows "Pairs m = ps \<and> distinct (map fst ps) \<and>
    Get zero key m = (case map_of ps key of Some v \<Rightarrow> (v, True) | None \<Rightarrow> (zero, False)) \<and>
    (Has key m \<longleftrightarrow> key \<in> fst ` set ps) \<and> Len m = length ps \<and>
    Keys m = map fst ps \<and> Values m = map snd ps \<and> snapshotReverse m = rev ps"
proof -
  have m: "omap_ok m" "Pairs m = ps"
    using zrun_spec [OF zmap.invar_empty, of zs] by (simp_all add: m_def ps_def zmap.pairs_empty)
  then have "snapshotReverse m = rev ps" by (simp add: snapshotReverse_def Pairs_def snapshot_def collect_rev)
  then show ?thesis using m zmap.pairs_distinct [OF m(1)] zmap.lookup_pairs [OF m(1)] Len_Pairs [OF m(1)] Has_Pairs [OF m(1)]
    by (simp add: Keys_def Values_def Pairs_def)
qed

text \<open>
  \<^verbatim>\<open>Each\<close> calls the function for the pairs the map had when it was called, in order and up to the first
  that returns false, whatever the function does to the map meanwhile.
\<close>

lemma each_loop_all: "(\<And>p s. f p s = (True, g p s)) \<Longrightarrow> each_loop f ps s = foldl (\<lambda>s p. g p s) s ps"
  by (induction ps arbitrary: s) simp_all

lemma Each_all: "(\<And>p s. f p s = (True, g p s)) \<Longrightarrow> Each mp f s = foldl (\<lambda>s p. g p s) s (Pairs (mp s))"
  by (simp add: Each_def Pairs_def each_loop_all)

fun visited :: "('p \<Rightarrow> bool) \<Rightarrow> 'p list \<Rightarrow> 'p list" where
  "visited stop [] = []"
| "visited stop (p # ps) = p # (if stop p then [] else visited stop ps)"

theorem Each_stops:
  assumes "\<And>p s. f p s = (\<not> stop p, g p s)"
  shows "Each mp f s = foldl (\<lambda>s p. g p s) s (visited stop (Pairs (mp s)))"
proof -
  have "each_loop f ps s = foldl (\<lambda>s p. g p s) s (visited stop ps)" for ps s
    by (induction ps arbitrary: s) (simp_all add: assms)
  then show ?thesis by (simp add: Each_def Pairs_def)
qed

end
