(* ===== verification/Text_Utils.thy ===== *)
theory Text_Utils
  imports Cast
begin

text \<open>
  The small helpers of \<^verbatim>\<open>common/utils\<close>: \<^verbatim>\<open>string.go\<close> (escaping, codes), \<^verbatim>\<open>list.go\<close> (slices that
  grow), \<^verbatim>\<open>ip.go\<close> (domain names), \<^verbatim>\<open>number.go\<close> (128-bit integers) and \<^verbatim>\<open>chain.go\<close> (token names and
  addresses).  A result is \<^term>\<open>None\<close> when the code panics, unless said otherwise.
\<close>

section \<open>Strings\<close>

text \<open>\<^verbatim>\<open>strings.ReplaceAll\<close> of a one-byte string.\<close>

definition ReplaceAllC :: "string \<Rightarrow> char \<Rightarrow> string \<Rightarrow> string" where
  "ReplaceAllC s c new = concat (map (\<lambda>x. if x = c then new else [x]) s)"

definition backslash :: char where
  "backslash = CHR 0x5C"

text \<open>
  \<^verbatim>\<open>FirstUpper\<close> cuts after the first byte; \<^verbatim>\<open>strings.ToUpper\<close> of a byte that is no whole character
  gives the replacement character U+FFFD.
\<close>

definition upper_byte :: "char \<Rightarrow> string" where
  "upper_byte c = (if of_char c < (128 :: nat) then [upper_char c] else [CHR 0xEF, CHR 0xBF, CHR 0xBD])"

definition FirstUpper :: "string \<Rightarrow> string" where
  "FirstUpper s = (case s of [] \<Rightarrow> [] | c # cs \<Rightarrow> upper_byte c @ cs)"

definition specialCharacters :: "char list" where
  "specialCharacters =
     [CHR ''_'', CHR ''*'', CHR ''['', CHR '']'', CHR ''('', CHR '')'', CHR ''~'', CHR 0x60, CHR ''>'', CHR ''#'',
      CHR ''+'', CHR ''-'', CHR ''='', CHR ''|'', CHR ''{'', CHR ''}'', CHR ''.'', CHR ''!'']"

definition EscapeMarkdownV2 :: "string \<Rightarrow> string" where
  "EscapeMarkdownV2 text =
     foldl (\<lambda>t ch. ReplaceAllC t ch [backslash, ch])
       (ReplaceAllC text backslash [backslash, backslash]) specialCharacters"

definition Mixed :: string where
  "Mixed = ''23456789ABCDEFGHJKLMNPQRSTUVWXYZ''"

text \<open>\<^verbatim>\<open>crypto/rand.Int\<close> is the parameter: the \<open>i\<close>-th draw below a bound, or its failure.\<close>

fun draw_code :: "(nat \<Rightarrow> nat \<Rightarrow> nat option) \<Rightarrow> string \<Rightarrow> nat \<Rightarrow> nat \<Rightarrow> string option" where
  "draw_code rnd char i 0 = Some []"
| "draw_code rnd char i (Suc n) =
     (case rnd i (length char) of
        None \<Rightarrow> None
      | Some k \<Rightarrow> map_option (\<lambda>cs. char ! k # cs) (draw_code rnd char (Suc i) n))"

definition GenerateCode :: "(nat \<Rightarrow> nat \<Rightarrow> nat option) \<Rightarrow> int \<Rightarrow> string list \<Rightarrow> string" where
  "GenerateCode rnd n charset =
     (if n \<le> 0 then []
      else let char = (case charset of [] \<Rightarrow> Mixed | c # _ \<Rightarrow> if c \<noteq> [] then c else Mixed)
           in if char = [] then [] else (case draw_code rnd char 0 (nat n) of None \<Rightarrow> [] | Some code \<Rightarrow> code))"

definition Join_any :: "('f, 'j) conv_lib \<Rightarrow> ('f, 'j) gany list \<Rightarrow> string \<Rightarrow> string option" where
  "Join_any lib nums sep =
     (if list_all (\<lambda>n. AnyToString lib n \<noteq> None) nums
      then Some (Join (map (\<lambda>n. the (AnyToString lib n)) nums) sep) else None)"

section \<open>Slices\<close>

text \<open>A slice that starts its array: the array to its capacity, and how much of it is visible.\<close>

record 'a slice =
  arr :: "'a list"
  len :: nat

definition elems :: "'a slice \<Rightarrow> 'a list" where
  "elems s = take (len s) (arr s)"

definition slice_ok :: "'a slice \<Rightarrow> bool" where
  "slice_ok s \<longleftrightarrow> len s \<le> length (arr s)"

definition EnsureLen :: "'a \<Rightarrow> 'a slice \<Rightarrow> int \<Rightarrow> 'a slice option" where
  "EnsureLen zero s n =
     (if int (length (arr s)) < n then
        Some \<lparr>arr = elems s @ replicate (nat n - len s) zero, len = nat n\<rparr>
      else if n < 0 then None
      else Some (s\<lparr>len := nat n\<rparr>))"

definition SafeSet :: "'a \<Rightarrow> 'a slice \<Rightarrow> int \<Rightarrow> 'a \<Rightarrow> 'a slice option" where
  "SafeSet zero s index v =
     (case EnsureLen zero s (wrap64 (index + 1)) of
        None \<Rightarrow> None
      | Some s1 \<Rightarrow>
          if 0 \<le> index \<and> index < int (len s1) then Some (s1\<lparr>arr := (arr s1)[nat index := v]\<rparr>) else None)"

definition DefaultIfZero :: "'a \<Rightarrow> 'a \<Rightarrow> 'a \<Rightarrow> 'a" where
  "DefaultIfZero zero v defaultValue = (if v = zero then defaultValue else v)"

section \<open>Domain names\<close>

definition is_letter :: "char \<Rightarrow> bool" where
  "is_letter c \<longleftrightarrow> (let n = of_char c :: nat in 97 \<le> n \<and> n \<le> 122 \<or> 65 \<le> n \<and> n \<le> 90)"

definition is_label_char :: "char \<Rightarrow> bool" where
  "is_label_char c \<longleftrightarrow> is_letter c \<or> (let n = of_char c :: nat in 48 \<le> n \<and> n \<le> 57) \<or> c = CHR ''-''"

definition isValidDomain :: "string \<Rightarrow> bool" where
  "isValidDomain host \<longleftrightarrow>
     (let parts = SplitC host (CHR ''.''); tld = last parts
      in 2 \<le> length parts \<and> 2 \<le> length tld \<and> list_all is_letter tld \<and>
         list_all (\<lambda>part. part \<noteq> [] \<and> list_all is_label_char part) parts)"

text \<open>\<^verbatim>\<open>url.Parse\<close> gives scheme and host; \<^verbatim>\<open>net.ParseIP\<close> gives the address, with its classes.\<close>

record 'ip net_lib =
  url_Parse :: "string \<Rightarrow> goerr + string \<times> string"
  ParseIP :: "string \<Rightarrow> 'ip option"
  IsLoopback :: "'ip \<Rightarrow> bool"
  IsUnspecified :: "'ip \<Rightarrow> bool"
  IsPrivate :: "'ip \<Rightarrow> bool"
  IsLinkLocalUnicast :: "'ip \<Rightarrow> bool"
  IsLinkLocalMulticast :: "'ip \<Rightarrow> bool"

definition IsValidURL :: "'ip net_lib \<Rightarrow> string \<Rightarrow> bool" where
  "IsValidURL lib rawURL =
     (case url_Parse lib rawURL of
        Inl _ \<Rightarrow> False
      | Inr (scheme, host) \<Rightarrow>
          if scheme \<noteq> ''http'' \<and> scheme \<noteq> ''https'' then False
          else if host = [] then False
          else if ParseIP lib host \<noteq> None then True
          else isValidDomain host)"

definition IsInternalURL :: "'ip net_lib \<Rightarrow> string \<Rightarrow> bool" where
  "IsInternalURL lib rawURL =
     (case url_Parse lib rawURL of
        Inl _ \<Rightarrow> True
      | Inr (_, host) \<Rightarrow>
          if ToLower host = ''localhost'' then True
          else case ParseIP lib host of
            None \<Rightarrow> False
          | Some ip \<Rightarrow> IsLoopback lib ip \<or> IsUnspecified lib ip \<or> IsPrivate lib ip \<or>
                       IsLinkLocalUnicast lib ip \<or> IsLinkLocalMulticast lib ip)"

section \<open>Numbers\<close>

record Uint128 =
  Lo :: nat
  Hi :: nat

definition BigIntToUint128 :: "int \<Rightarrow> goerr + Uint128" where
  "BigIntToUint128 i =
     (if i < 0 then Inl (ErrNew ''value cannot be negative'')
      else if 2 ^ 128 \<le> i then Inl (ErrNew ''value overflows Uint128'')
      else Inr \<lparr>Lo = nat (i mod 2 ^ 64), Hi = nat (i div 2 ^ 64 mod 2 ^ 64)\<rparr>)"

section \<open>Token names and addresses\<close>

text \<open>Big-endian value of bytes; \<^verbatim>\<open>ParseInt(\<dots>, 16, 64)\<close> of their hexadecimal text stops at the largest integer.\<close>

definition be_value :: "string \<Rightarrow> nat" where
  "be_value bs = foldl (\<lambda>n b. 256 * n + of_char b) 0 bs"

definition ParseTokenName :: "(string \<Rightarrow> string) \<Rightarrow> string \<Rightarrow> string option" where
  "ParseTokenName printable hexName =
     (let h = (if HasPrefix hexName ''0x'' then drop 2 hexName else hexName)
      in if length h < 64 then Some []
         else case hex_DecodeString h of
           None \<Rightarrow> Some []
         | Some raw \<Rightarrow>
             let bs = (if length raw < 96 then replicate (96 - length raw) (CHR 0x00) @ raw else raw);
                 n = min (be_value (take 32 (drop 32 bs))) (2 ^ 63 - 1)
             in if n = 0 then Some (printable bs)
                else let nameStr = drop 64 bs
                     in if n \<le> length nameStr then Some (take n nameStr) else None)"

definition NormalizeHexLower :: "string \<Rightarrow> string" where
  "NormalizeHexLower s = (if HasPrefix s ''0x'' then ToLower s else s)"

text \<open>The hash and the base-58 libraries are parameters; the outer \<^term>\<open>None\<close> is a panic.\<close>

definition tron_checksum :: "(string \<Rightarrow> string) \<Rightarrow> string \<Rightarrow> string" where
  "tron_checksum sha256 d = take 4 (sha256 (sha256 d))"

definition EthToTron :: "(string \<Rightarrow> string) \<Rightarrow> (string \<Rightarrow> string) \<Rightarrow> string \<Rightarrow> goerr + string" where
  "EthToTron sha256 b58 ethAddr =
     (if ethAddr = [] then Inr []
      else case hex_DecodeString (if HasPrefix ethAddr ''0x'' then drop 2 ethAddr else ethAddr) of
        None \<Rightarrow> Inl (ErrNew ''encoding/hex: invalid'')
      | Some addrBytes \<Rightarrow>
          let addr41 = CHR 0x41 # addrBytes in Inr (b58 (addr41 @ tron_checksum sha256 addr41)))"

definition TronToEth :: "(string \<Rightarrow> goerr + string) \<Rightarrow> string \<Rightarrow> (goerr + string) option" where
  "TronToEth unb58 tronAddr =
     (if tronAddr = [] then Some (Inr [])
      else case unb58 tronAddr of
        Inl err \<Rightarrow> Some (Inl err)
      | Inr d \<Rightarrow>
          if length d < 5 then None
          else Some (Inr (''0x'' @ hex_EncodeToString (take (length d - 5) (drop 1 d)))))"

section \<open>Escaping\<close>

text \<open>One pass that puts a backslash before every character of a set.\<close>

definition escape_set :: "char set \<Rightarrow> string \<Rightarrow> string" where
  "escape_set C s = concat (map (\<lambda>x. if x \<in> C then [backslash, x] else [x]) s)"

lemma ReplaceAllC_append: "ReplaceAllC (s @ t) c new = ReplaceAllC s c new @ ReplaceAllC t c new"
  by (simp add: ReplaceAllC_def)

lemma ReplaceAllC_escape_set:
  assumes "backslash \<in> C" "c \<notin> C"
  shows "ReplaceAllC (escape_set C s) c [backslash, c] = escape_set (insert c C) s"
  using assms by (induction s) (auto simp: escape_set_def ReplaceAllC_append, auto simp: ReplaceAllC_def)

lemma foldl_escape_set:
  assumes "backslash \<in> C" "distinct cs" "set cs \<inter> C = {}"
  shows "foldl (\<lambda>t ch. ReplaceAllC t ch [backslash, ch]) (escape_set C s) cs = escape_set (C \<union> set cs) s"
  using assms by (induction cs arbitrary: C) (auto simp: ReplaceAllC_escape_set insert_commute)

lemma ReplaceAllC_backslash: "ReplaceAllC s backslash [backslash, backslash] = escape_set {backslash} s"
  by (auto simp: ReplaceAllC_def escape_set_def intro!: arg_cong [where f = concat])

lemma EscapeMarkdownV2_set: "EscapeMarkdownV2 s = escape_set (insert backslash (set specialCharacters)) s"
proof -
  have "distinct specialCharacters" "set specialCharacters \<inter> {backslash} = {}" by code_simp+
  then show ?thesis
    using foldl_escape_set [of "{backslash}" specialCharacters s] by (simp add: EscapeMarkdownV2_def ReplaceAllC_backslash)
qed

text \<open>
  How a reader of MarkdownV2 takes plain text: a character after a backslash stands for itself, a
  special character without one would start markup.
\<close>

fun markdown_text :: "string \<Rightarrow> string option" where
  "markdown_text [] = Some []"
| "markdown_text (c # cs) =
     (if c = backslash then (case cs of [] \<Rightarrow> None | d # ds \<Rightarrow> map_option (\<lambda>r. d # r) (markdown_text ds))
      else if c \<in> set specialCharacters then None
      else map_option (\<lambda>r. c # r) (markdown_text cs))"

text \<open>
  Round trip: a reader of MarkdownV2 takes the escaped text as plain text, and reads the original
  characters, whatever they are.
\<close>

theorem EscapeMarkdownV2_reads_back: "markdown_text (EscapeMarkdownV2 s) = Some s"
  unfolding EscapeMarkdownV2_set by (induction s) (auto simp: escape_set_def)

section \<open>Slices and codes\<close>

lemma take_Suc_update: "n < length xs \<Longrightarrow> take (Suc n) (xs[n := v]) = take n xs @ [v]"
  by (simp add: take_Suc_conv_app_nth)

lemma replicate_update_last: "(replicate (Suc n) x)[n := v] = replicate n x @ [v]"
  by (induction n) simp_all

lemma SafeSet_at:
  assumes "slice_ok s" "int n < int64_max"
  shows "\<exists>s'. SafeSet zero s (int n) v = Some s' \<and>
     elems s' = (if n < length (arr s) then take n (arr s) else elems s @ replicate (n - len s) zero) @ [v]"
proof -
  have w: "wrap64 (int n + 1) = int (Suc n)" using assms(2) wrap64_id [of "int n + 1"] by (simp add: in_int64_def int64_min_def)
  show ?thesis
  proof (cases "n < length (arr s)")
    case True
    then have "\<not> length (arr s) < Suc n" by simp
    then show ?thesis using True unfolding SafeSet_def w EnsureLen_def
      by (simp add: elems_def take_Suc_update del: of_nat_Suc)
  next
    case False
    then have "len s \<le> n" "length (arr s) < Suc n" using assms(1) by (simp_all add: slice_ok_def)
    then show ?thesis using False assms(1) unfolding SafeSet_def w EnsureLen_def
      by (simp add: elems_def slice_ok_def Suc_diff_le list_update_append replicate_update_last del: of_nat_Suc replicate_Suc)
  qed
qed

lemma SafeSet_panics: "SafeSet zero s index v = None" if "index < 0 \<or> index = int64_max"
proof (cases "index < 0")
  case True
  then show ?thesis by (auto simp: SafeSet_def split: option.splits)
next
  case False
  then have "wrap64 (index + 1) < 0" using that by (simp add: int64_max_def wrap64_def)
  then show ?thesis by (auto simp: SafeSet_def EnsureLen_def split: option.splits)
qed

text \<open>
  What \<^verbatim>\<open>SafeSet\<close> does: it panics exactly on a negative index (and the largest one); otherwise the
  slice afterwards has exactly \<open>index + 1\<close> elements with the value in the last place.  The elements
  behind the index are cut off, although only one element was to be set; where the slice grows within
  its capacity, what its array happened to hold becomes visible.
\<close>

theorem SafeSet_cuts:
  assumes "slice_ok s" "in_int64 index"
  shows "(case SafeSet zero s index v of
      None \<Rightarrow> index < 0 \<or> index = int64_max
    | Some s' \<Rightarrow> 0 \<le> index \<and> index < int64_max \<and>
        elems s' = (if nat index < length (arr s) then take (nat index) (arr s)
                    else elems s @ replicate (nat index - len s) zero) @ [v])"
proof (cases "index < 0 \<or> index = int64_max")
  case True
  then show ?thesis by (simp add: SafeSet_panics)
next
  case False
  then obtain n where "index = int n" "int n < int64_max" using assms(2) by (metis in_int64_def nonneg_int_cases linorder_not_less order_less_le)
  then show ?thesis using SafeSet_at [OF assms(1), of n zero v] by auto
qed

theorem SafeSet_cuts_witness:
  "slice_ok \<lparr>arr = [1, 2, 3 :: nat], len = 3\<rparr> \<and>
   (case SafeSet 0 \<lparr>arr = [1, 2, 3 :: nat], len = 3\<rparr> 0 9 of None \<Rightarrow> False | Some s' \<Rightarrow> elems s' = [9])"
proof -
  have ok: "slice_ok \<lparr>arr = [1, 2, 3 :: nat], len = 3\<rparr>" by (simp add: slice_ok_def)
  have "in_int64 0" by (simp add: in_int64_def int64_min_def int64_max_def)
  from SafeSet_cuts [OF ok this, of 0 9] ok show ?thesis by (auto simp: int64_max_def split: option.splits)
qed

lemma draw_code_chars:
  assumes "draw_code rnd char i n = Some code" "\<And>j b k. rnd j b = Some k \<Longrightarrow> k < b"
  shows "length code = n \<and> set code \<subseteq> set char"
  using assms(1)
proof (induction n arbitrary: i code)
  case (Suc n)
  then obtain k cs where k: "rnd i (length char) = Some k" "draw_code rnd char (Suc i) n = Some cs" "code = char ! k # cs"
    by (auto split: option.splits)
  then show ?case using Suc.IH [OF k(2)] assms(2) [OF k(1)] by auto
qed simp

text \<open>\<^verbatim>\<open>GenerateCode\<close> gives the empty string or a code of the length and the characters asked for.\<close>

theorem GenerateCode_chars:
  assumes "\<And>j b k. rnd j b = Some k \<Longrightarrow> k < b" "GenerateCode rnd n charset \<noteq> []"
  shows "int (length (GenerateCode rnd n charset)) = n \<and>
    set (GenerateCode rnd n charset) \<subseteq> set (if charset = [] \<or> hd charset = [] then Mixed else hd charset)"
proof -
  let ?char = "case charset of [] \<Rightarrow> Mixed | c # _ \<Rightarrow> if c \<noteq> [] then c else Mixed"
  have char: "?char = (if charset = [] \<or> hd charset = [] then Mixed else hd charset)" by (auto split: list.splits)
  obtain code where "draw_code rnd ?char 0 (nat n) = Some code" "GenerateCode rnd n charset = code" "0 < n"
    using assms(2) by (auto simp: GenerateCode_def Let_def split: if_splits option.splits)
  then show ?thesis using draw_code_chars [OF _ assms(1)] unfolding char by fastforce
qed

section \<open>Numbers, token names and addresses\<close>

text \<open>A 128-bit value is split without loss, and only such values are accepted.\<close>

theorem BigIntToUint128_value:
  "(case BigIntToUint128 i of
      Inl _ \<Rightarrow> i < 0 \<or> 2 ^ 128 \<le> i
    | Inr u \<Rightarrow> int (Hi u) * 2 ^ 64 + int (Lo u) = i \<and> Lo u < 2 ^ 64 \<and> Hi u < 2 ^ 64)"
proof (cases "i < 0 \<or> 2 ^ 128 \<le> i")
  case True
  then show ?thesis by (auto simp: BigIntToUint128_def)
next
  case False
  then have "0 \<le> i div 2 ^ 64" by (simp add: pos_imp_zdiv_nonneg_iff)
  moreover have "i < 2 ^ 64 * 2 ^ 64" using False by simp
  then have "i div 2 ^ 64 < 2 ^ 64" by (simp add: div_less_iff_less_mult [THEN iffD2])
  ultimately have "0 \<le> i div 2 ^ 64" "i div 2 ^ 64 < 2 ^ 64" by simp_all
  then have "i div 2 ^ 64 mod 2 ^ 64 = i div 2 ^ 64" by (rule mod_pos_pos_trivial)
  moreover have "i mod 2 ^ 64 < 2 ^ 64" by simp
  ultimately show ?thesis using False \<open>0 \<le> i div 2 ^ 64\<close> \<open>i div 2 ^ 64 < 2 ^ 64\<close> by (simp add: BigIntToUint128_def nat_less_iff)
qed

lemma be_value_foldl: "foldl (\<lambda>n b. 256 * n + of_char b) m ys = m * 256 ^ length ys + be_value ys"
proof (induction ys arbitrary: m)
  case (Cons y ys)
  have "be_value (y # ys) = of_char y * 256 ^ length ys + be_value ys" using Cons [of "of_char y"] by (simp add: be_value_def)
  then show ?case using Cons [of "256 * m + of_char y"] by (simp add: distrib_right)
qed (simp add: be_value_def)

lemma be_value_append: "be_value (xs @ ys) = be_value xs * 256 ^ length ys + be_value ys"
  using be_value_foldl [of "be_value xs" ys] by (simp add: be_value_def)

text \<open>The bytes of a number, most significant first, and the ABI encoding of a string.\<close>

fun be_bytes :: "nat \<Rightarrow> nat \<Rightarrow> string" where
  "be_bytes 0 n = []"
| "be_bytes (Suc w) n = be_bytes w (n div 256) @ [char_of (n mod 256)]"

lemma length_be_bytes [simp]: "length (be_bytes w n) = w"
  by (induction w arbitrary: n) simp_all

lemma be_value_bytes: "n < 256 ^ w \<Longrightarrow> be_value (be_bytes w n) = n"
proof (induction w arbitrary: n)
  case (Suc w)
  then have "n div 256 < 256 ^ w" by (simp add: less_mult_imp_div_less mult.commute)
  then show ?case using Suc.IH by (simp add: be_value_append) (simp add: be_value_def)
qed (simp add: be_value_def)

lemma length_hex: "length (hex_EncodeToString s) = 2 * length s"
  by (induction s) simp_all

lemma hex_digit_not_x: "n < 16 \<Longrightarrow> hex_digit n \<noteq> CHR ''x''"
  using hex_value_digit [of n] by (auto simp: hex_value_def)

lemma hex_no_prefix: "\<not> HasPrefix (hex_EncodeToString s) ''0x''"
  using hex_digit_not_x by (cases s) (auto simp: HasPrefix_def)

definition abi_string :: "string \<Rightarrow> nat \<Rightarrow> string" where
  "abi_string name pad = be_bytes 32 32 @ be_bytes 32 (length name) @ name @ replicate pad (CHR 0x00)"

text \<open>
  Round trip: of an ABI-encoded string, with or without \<open>0x\<close>, \<^verbatim>\<open>ParseTokenName\<close> reads the string.
\<close>

theorem ParseTokenName_abi:
  assumes "name \<noteq> []" "32 \<le> length name + pad" "length name < 2 ^ 63" "prefix = [] \<or> prefix = ''0x''"
  shows "ParseTokenName printable (prefix @ hex_EncodeToString (abi_string name pad)) = Some name"
proof -
  let ?d = "abi_string name pad" and ?h = "hex_EncodeToString (abi_string name pad)"
  have "\<not> HasPrefix ?h ''0x''" by (rule hex_no_prefix)
  then have h: "(if HasPrefix (prefix @ ?h) ''0x'' then drop 2 (prefix @ ?h) else prefix @ ?h) = ?h"
    using assms(4) by (auto simp: HasPrefix_def)
  have l: "\<not> length ?h < 64" "\<not> length ?d < 96" using assms(2) by (simp_all add: abi_string_def length_hex)
  have "length name < 256 ^ 32" using assms(3) by (rule less_le_trans) simp
  then have v: "be_value (take 32 (drop 32 ?d)) = length name" by (simp add: abi_string_def be_value_bytes)
  have m: "min (length name) 9223372036854775807 = length name" using assms(3) by (simp add: min_def)
  have "drop 64 ?d = name @ replicate pad (CHR 0x00)" by (simp add: abi_string_def)
  then show ?thesis using assms(1) l unfolding ParseTokenName_def h by (simp add: hex_roundtrip v m Let_def del: min_def)
qed

theorem ParseTokenName_abi_witness:
  "ParseTokenName id (''0x'' @ hex_EncodeToString (abi_string ''USDT'' 28)) = Some ''USDT''"
  using ParseTokenName_abi [of "''USDT''" 28 "''0x''" id] by simp

text \<open>
  A declared length that exceeds the data makes \<^verbatim>\<open>ParseTokenName\<close> panic, so one malformed answer of
  a node ends the goroutine that parses it.
\<close>

theorem ParseTokenName_panics:
  assumes "96 \<le> length raw" "n = be_value (take 32 (drop 32 raw))" "n \<noteq> 0" "length raw < 64 + n" "length raw < 2 ^ 63"
  shows "ParseTokenName printable (hex_EncodeToString raw) = None"
proof -
  have "\<not> HasPrefix (hex_EncodeToString raw) ''0x''" by (rule hex_no_prefix)
  moreover have "\<not> length (hex_EncodeToString raw) < 64" "\<not> length raw < 96" using assms(1) by (simp_all add: length_hex)
  moreover have "min n (2 ^ 63 - 1) \<noteq> 0" "\<not> min n (2 ^ 63 - 1) \<le> length raw - 64" using assms(1,3,4,5) by (auto simp: min_def)
  ultimately show ?thesis unfolding ParseTokenName_def by (simp add: hex_roundtrip Let_def flip: assms(2) del: min_def)
qed

text \<open>
  Round trip of addresses: with a base-58 library whose decoder inverts the encoder,
  \<^verbatim>\<open>TronToEth\<close> gives back the address that \<^verbatim>\<open>EthToTron\<close> converted, in lower case with \<open>0x\<close>.
\<close>

theorem EthToTron_TronToEth:
  assumes b58: "\<And>d. unb58 (b58 d) = Inr d" "\<And>d. d \<noteq> [] \<Longrightarrow> b58 d \<noteq> []" and sha: "\<And>d. length (sha256 d) = 32"
    and "EthToTron sha256 b58 (''0x'' @ hex_EncodeToString a) = Inr t"
  shows "TronToEth unb58 t = Some (Inr (''0x'' @ hex_EncodeToString a))"
proof -
  have t: "t = b58 (CHR 0x41 # a @ tron_checksum sha256 (CHR 0x41 # a))"
    using assms(4) by (simp add: EthToTron_def HasPrefix_def hex_roundtrip)
  have "length (tron_checksum sha256 d) = 4" for d by (simp add: tron_checksum_def sha)
  then show ?thesis unfolding t by (simp add: TronToEth_def b58)
qed

end
