(* ===== verification/Message_Sender.thy ===== *)
theory Message_Sender
  imports Ordered_Map Text_Utils Encry Cache Go_Errors Net_Http
begin

text \<open>
  Messages to people: \<^verbatim>\<open>provider/message\<close> (the interface, the Telegram and the Lark sender with their
  cache against repetitions) and \<^verbatim>\<open>notify\<close> (the report of an error).  The Telegram library, JSON and
  the clock are parameters; the Lark sender goes through the HTTP client of \<^verbatim>\<open>Net_Http\<close>.

  A call returns \<^term>\<open>None\<close> when it panics.  \<open>x\<close> is the state of the service behind a sender, with what
  it accepted so far.
\<close>

section \<open>The interface\<close>

type_synonym zmap = "(string, string) OrderedMap"

type_synonym ('s, 'd) Sender = "string \<Rightarrow> zmap option \<Rightarrow> 's \<Rightarrow> ('d perr option \<times> 's) option"

datatype 'd msg_log =
    SendMsgFailed string string string
  | ErrRecord "(string \<times> string) list"
  | SendErrFailed string

text \<open>\<^verbatim>\<open>SendMsg\<close> prints the map when the sender failed, which panics for a nil map.\<close>

definition SendMsg :: "('s, 'd) Sender option \<Rightarrow> string \<Rightarrow> zmap option \<Rightarrow> 'd msg_log list \<times> 's \<Rightarrow> ('d msg_log list \<times> 's) option" where
  "SendMsg gsender title msg st =
     (case st of (logs, s) \<Rightarrow>
        (case gsender of
           None \<Rightarrow> Some (logs, s)
         | Some snd_fn \<Rightarrow>
             (case snd_fn title msg s of
                None \<Rightarrow> None
              | Some (None, s1) \<Rightarrow> Some (logs, s1)
              | Some (Some sendErr, s1) \<Rightarrow>
                  (case msg of
                     None \<Rightarrow> None
                   | Some m \<Rightarrow> Some (logs @ [SendMsgFailed title (String id id m) (err_Error sendErr)], s1)))))"

section \<open>Not sending a message twice\<close>

text \<open>
  The shape both senders share: ask the cache, deliver, remember.  Errors of the cache count as misses
  and are dropped.
\<close>

definition cached_send :: "stack \<Rightarrow> ('c, bool, 'w) Cache option \<Rightarrow> string \<Rightarrow> ('x \<Rightarrow> ('d perr option \<times> 'x) option) \<Rightarrow> 'c \<times> 'x \<Rightarrow>
    ('d perr option \<times> 'c \<times> 'x) option" where
  "cached_send st cacheInst key deliver cx =
     (case cx of (c, x) \<Rightarrow>
        (case (case cacheInst of None \<Rightarrow> (False, c) | Some C \<Rightarrow> (case cGet C key c of ((_, err), c1) \<Rightarrow> (err = None, c1))) of
           (seen, c1) \<Rightarrow>
             if seen then Some (None, c1, x)
             else case deliver x of
                None \<Rightarrow> None
              | Some (Some err, x1) \<Rightarrow> Some (Err st (Some err) [], c1, x1)
              | Some (None, x1) \<Rightarrow> Some (None, (case cacheInst of None \<Rightarrow> c1 | Some C \<Rightarrow> snd (cSet C key True [] c1)), x1)))"

text \<open>A new cache in place of the old one; without one (zero seconds) nothing is remembered.\<close>

definition initCache :: "('o, bool, 'w) otter \<Rightarrow> int \<Rightarrow> ('o, bool, 'w) Cache option \<times> 'o \<Rightarrow> ('o, bool, 'w) Cache option \<times> 'o" where
  "initCache lib cacheExpireSec old =
     (if cacheExpireSec = 0 then (None, snd old)
      else case NewMemory lib False \<lparr>MaxSize = 10000, mDefaultTTL = wrap64 (cacheExpireSec * 1000000000)\<rparr> of
        Inl _ \<Rightarrow> old
      | Inr (c, o1) \<Rightarrow> (Some c, o1))"

section \<open>Telegram\<close>

record ('c, 'w) TGSender =
  RobotToken :: string
  GroupChatID :: int
  tgCache :: "('c, bool, 'w) Cache option"
  tgExpireSec :: int

type_synonym ('b, 'd) tg_api = "int \<Rightarrow> string \<Rightarrow> 'b \<Rightarrow> 'd perr option \<times> 'b"

text \<open>The state of the service: its own, and the messages it accepted.\<close>

type_synonym 'b chat_world = "'b \<times> (int \<times> string) list"

definition robot_SendMessage :: "stack \<Rightarrow> ('b, 'd) tg_api \<Rightarrow> int \<Rightarrow> string \<Rightarrow> 'b chat_world \<Rightarrow> ('d perr option \<times> 'b chat_world) option" where
  "robot_SendMessage st tgapi chatID message x =
     (case tgapi chatID message (fst x) of
        (Some err, b1) \<Rightarrow> Some (Err st (Some err) [message], b1, snd x)
      | (None, b1) \<Rightarrow> Some (None, b1, snd x @ [(chatID, message)]))"

definition buildMessage :: "string \<Rightarrow> zmap option \<Rightarrow> string" where
  "buildMessage title zMap =
     (let header = ''***'' @ EscapeMarkdownV2 title @ ''***'' @ newline @ newline
      in case zMap of
           None \<Rightarrow> header
         | Some m \<Rightarrow>
             Each (\<lambda>_. m) (\<lambda>p b. (True, b @ EscapeMarkdownV2 (fst p) @ '': '' @ EscapeMarkdownV2 (snd p) @ newline)) header)"

text \<open>JSON of the title, the chat and the content; the text of a failed \<^verbatim>\<open>Marshal\<close> is empty.\<close>

type_synonym key_json = "string \<Rightarrow> int option \<Rightarrow> (string \<times> string) list option \<Rightarrow> goerr + string"

definition key_bytes :: "goerr + string \<Rightarrow> string" where
  "key_bytes r = (case r of Inl _ \<Rightarrow> [] | Inr s \<Rightarrow> s)"

definition tg_generateCacheKey :: "enc_lib \<Rightarrow> key_json \<Rightarrow> ('c, 'w) TGSender \<Rightarrow> string \<Rightarrow> zmap option \<Rightarrow> string" where
  "tg_generateCacheKey lib json s title zMap =
     MD5Sum lib (key_bytes (json title (Some (GroupChatID s)) (map_option snapshot zMap)))"

definition tg_Send :: "stack \<Rightarrow> enc_lib \<Rightarrow> key_json \<Rightarrow> ('b, 'd) tg_api \<Rightarrow> ('c, 'w) TGSender \<Rightarrow> ('c \<times> 'b chat_world, 'd) Sender" where
  "tg_Send st lib json tgapi s title zMap cx =
     cached_send st (tgCache s) (tg_generateCacheKey lib json s title zMap)
       (robot_SendMessage st tgapi (GroupChatID s) (buildMessage title zMap)) cx"

definition NewTelegramSender :: "stack \<Rightarrow> ('o, bool, 'w) otter \<Rightarrow> (string \<Rightarrow> 'd perr option) \<Rightarrow> string \<Rightarrow> int \<Rightarrow> 'o \<Rightarrow>
    'd perr option + ('o, 'w) TGSender \<times> 'o" where
  "NewTelegramSender st lib NewBotAPI token chatID o0 =
     (case NewBotAPI token of
        Some err \<Rightarrow> Inl (Err st (Err st (Some err) []) [])
      | None \<Rightarrow>
          (case initCache lib 60 (None, o0) of
             (c, o1) \<Rightarrow> Inr (\<lparr>RobotToken = token, GroupChatID = chatID, tgCache = c, tgExpireSec = 60\<rparr>, o1)))"

definition tg_SetCacheExpire :: "('o, bool, 'w) otter \<Rightarrow> int \<Rightarrow> ('o, 'w) TGSender \<times> 'o \<Rightarrow> ('o, 'w) TGSender \<times> 'o" where
  "tg_SetCacheExpire lib seconds so =
     (case so of (s, o1) \<Rightarrow>
        (case initCache lib seconds (tgCache s, o1) of (c, o2) \<Rightarrow> (s\<lparr>tgExpireSec := seconds, tgCache := c\<rparr>, o2)))"

section \<open>Lark\<close>

datatype content = MkContent (cTitle: string) (cContent: "content list list") (cUserID: string) (cText: string) (cTag: string)

definition text_content :: "string \<Rightarrow> content" where
  "text_content t = MkContent [] [] [] t ''text''"

definition at_content :: "string \<Rightarrow> content" where
  "at_content u = MkContent [] [] u [] ''at''"

record larkMessage =
  Timestamp :: string
  MsgType :: string
  lmContent :: "string \<rightharpoonup> (string \<rightharpoonup> content)"
  Sign :: string

definition genMsg :: "string \<Rightarrow> string \<Rightarrow> zmap option \<Rightarrow> string list \<Rightarrow> larkMessage" where
  "genMsg language title zMap atList =
     (let rows = (case zMap of
            None \<Rightarrow> []
          | Some m \<Rightarrow> Each (\<lambda>_. m) (\<lambda>p rs.
              let key = (if fst p = [] then '' '' else fst p);
                  v = (if snd p = [] then '' '' else snd p)
              in (True, rs @ [[text_content (key @ '': ''), text_content v]])) []);
          atRow = map at_content (filter (\<lambda>u. u \<noteq> []) atList);
          rows1 = (if atRow \<noteq> [] then rows @ [atRow] else rows)
      in \<lparr>Timestamp = [], MsgType = ''post'',
          lmContent = [''post'' \<mapsto> [language \<mapsto> MkContent title rows1 [] [] []]], Sign = []\<rparr>)"

definition genSign :: "enc_lib \<Rightarrow> int \<Rightarrow> string \<Rightarrow> larkMessage \<Rightarrow> larkMessage" where
  "genSign lib now secret m =
     (let ts = FormatInt now
      in m\<lparr>Timestamp := ts, Sign := base64_EncodeToString (hmac_sha256 lib (ts @ newline @ secret) [])\<rparr>)"

record ('c, 'w) LarkSender =
  RobotPath :: string
  Secret :: string
  AtList :: "string list"
  larkCache :: "('c, bool, 'w) Cache option"
  language :: string
  larkExpireSec :: int

text \<open>What a call of the HTTP client leaves behind: the tick of its oracle, the requests sent and the log.\<close>

type_synonym 'v net_world = "tick \<times> 'v HRequest list \<times> 'v log_event list"

definition lark_SendMessage :: "'v henv \<Rightarrow> enc_lib \<Rightarrow> (larkMessage \<Rightarrow> goerr + string) \<Rightarrow> stack \<Rightarrow> int \<Rightarrow> ('c, 'w) LarkSender \<Rightarrow>
    string \<Rightarrow> zmap option \<Rightarrow> 'v net_world \<Rightarrow> ((HResponse option \<times> 'd perr option) \<times> 'v net_world) option" where
  "lark_SendMessage env lib json st now t title zMap x =
     (case x of (i, sent, logs) \<Rightarrow>
        let m = genSign lib now (Secret t) (genMsg (language t) title zMap (AtList t))
        in case json m of
             Inl err \<Rightarrow> Some ((None, Some (errors_Wrap st (Opaque err) ''json.Marshal err'')), (i, sent, logs))
           | Inr str \<Rightarrow>
               (case Execute env (NoSendErrorMsg (NewRequestBuilder (Net_Http.client env))) i ''POST''
                       (''https://open.larksuite.com'' @ RobotPath t) [] (BodyBytes str)
                       (Some [''Content-Type'' \<mapsto> ''application/json'']) of
                  Some (None, res) \<Rightarrow>
                    Some ((hResponse res, map_option Opaque (hError res)), (htick res, sent @ hsent res, logs @ hlogs res))
                | _ \<Rightarrow> None))"

definition lark_generateCacheKey :: "enc_lib \<Rightarrow> key_json \<Rightarrow> string \<Rightarrow> zmap option \<Rightarrow> string" where
  "lark_generateCacheKey lib json title zMap = MD5Sum lib (key_bytes (json title None (map_option snapshot zMap)))"

definition lark_Send :: "'v henv \<Rightarrow> enc_lib \<Rightarrow> (larkMessage \<Rightarrow> goerr + string) \<Rightarrow> key_json \<Rightarrow> stack \<Rightarrow> int \<Rightarrow> ('c, 'w) LarkSender \<Rightarrow>
    ('c \<times> 'v net_world, 'd) Sender" where
  "lark_Send env lib json kjson st now s title zMap cx =
     cached_send st (larkCache s) (lark_generateCacheKey lib kjson title zMap)
       (\<lambda>x. map_option (\<lambda>((_, err), x1). (err, x1)) (lark_SendMessage env lib json st now s title zMap x)) cx"

definition NewLarkSender :: "('o, bool, 'w) otter \<Rightarrow> string \<Rightarrow> string \<Rightarrow> string list \<Rightarrow> 'o \<Rightarrow> ('o, 'w) LarkSender \<times> 'o" where
  "NewLarkSender lib robotPath secret atList o0 =
     (case initCache lib 60 (None, o0) of
        (c, o1) \<Rightarrow> (\<lparr>RobotPath = robotPath, Secret = secret, AtList = atList, larkCache = c, language = ''en-US'',
                    larkExpireSec = 60\<rparr>, o1))"

definition lark_SetCacheExpire :: "('o, bool, 'w) otter \<Rightarrow> int \<Rightarrow> ('o, 'w) LarkSender \<times> 'o \<Rightarrow> ('o, 'w) LarkSender \<times> 'o" where
  "lark_SetCacheExpire lib seconds so =
     (case so of (s, o1) \<Rightarrow>
        (case initCache lib seconds (larkCache s, o1) of (c, o2) \<Rightarrow> (s\<lparr>larkExpireSec := seconds, larkCache := c\<rparr>, o2)))"

section \<open>The report of an error\<close>

text \<open>What the report reads of the process and the context.\<close>

record report_ctx =
  serverName :: string
  appEnv :: string
  rcRequestID :: string
  rcRequestURI :: string
  rcRequestJson :: string

definition error_map :: "report_ctx \<Rightarrow> string \<Rightarrow> zmap" where
  "error_map r errMsg =
     Set ''Error'' errMsg (Set ''RequestJson'' (rcRequestJson r) (Set ''RequestUri'' (rcRequestURI r)
       (Set ''RequestID'' (rcRequestID r) (Set ''Env'' (appEnv r) (Set ''ServerName'' (serverName r) NewOrderedMap)))))"

definition SendErrMessage :: "stack \<Rightarrow> ('s, 'd) Sender option \<Rightarrow> report_ctx \<Rightarrow> 'd perr option \<Rightarrow> 'd msg_log list \<times> 's \<Rightarrow>
    ('d msg_log list \<times> 's) option" where
  "SendErrMessage st gsender r err w =
     (case w of (logs, s) \<Rightarrow>
        let errMsg = GetErrMessage (Err st err []) False;
            logs1 = logs @ [ErrRecord [(''serverName'', serverName r), (''env'', appEnv r), (''requestID'', rcRequestID r),
              (''requestUri'', rcRequestURI r), (''requestJson'', rcRequestJson r), (''error'', errMsg)]]
        in case gsender of
             None \<Rightarrow> Some (logs1, s)
           | Some snd_fn \<Rightarrow>
               (case snd_fn ''Running Error'' (Some (error_map r errMsg)) s of
                  None \<Rightarrow> None
                | Some (None, s1) \<Rightarrow> Some (logs1, s1)
                | Some (Some sendErr, s1) \<Rightarrow> Some (logs1 @ [SendErrFailed (err_Error sendErr)], s1)))"

section \<open>What is not sent was sent before\<close>

text \<open>A client that sends one message after the other.\<close>

fun sends :: "('s, 'd) Sender \<Rightarrow> (string \<times> zmap option) list \<Rightarrow> 's \<Rightarrow> ('d perr option list \<times> 's) option" where
  "sends f [] s = Some ([], s)"
| "sends f (m # ms) s =
     (case f (fst m) (snd m) s of
        None \<Rightarrow> None
      | Some (e, s1) \<Rightarrow> map_option (\<lambda>(es, s2). (e # es, s2)) (sends f ms s1))"

lemma Err_Some [simp]: "Err st (Some e) msgs \<noteq> None" "\<exists>y. Err st (Some e) msgs = Some y"
  by (auto simp: Err_def Let_def)

lemma robot_SendMessage_log:
  assumes "robot_SendMessage st api chat text x = Some (err, x1)"
  shows "set (snd x) \<subseteq> set (snd x1)" "err = None \<Longrightarrow> (chat, text) \<in> set (snd x1)"
  using assms by (auto simp: robot_SendMessage_def split: prod.splits option.splits)

locale dedup_sender = cache_contract ok C holds
  for ok :: "'y \<Rightarrow> bool" and C :: "'y \<Rightarrow> ('s, bool, 'w) Cache" and holds :: "'y \<Rightarrow> 's \<Rightarrow> string \<Rightarrow> bool set"
begin

lemma cached_send_cases:
  assumes "ok y" "cached_send st (Some (C y)) key deliver (c, x) = Some (err, c1, x1)"
  obtains (hit) "err = None" "x1 = x" "holds y c key \<noteq> {}" "holds y c1 \<le> holds y c"
  | (failed) e where "deliver x = Some (Some e, x1)" "err \<noteq> None" "holds y c1 \<le> holds y c"
  | (delivered) "deliver x = Some (None, x1)" "err = None" "\<And>k. k \<noteq> key \<Longrightarrow> holds y c1 k \<subseteq> holds y c k"
proof -
  obtain v e c2 where g: "cGet (C y) key c = ((v, e), c2)" by (metis surj_pair)
  note G = get [OF assms(1) g]
  show thesis
  proof (cases "e = None")
    case True
    then have "err = None" "c1 = c2" "x1 = x" using assms(2) g by (simp_all add: cached_send_def)
    then show thesis using G True hit by auto
  next
    case False
    then obtain r where r: "deliver x = Some r" using assms(2) g by (cases "deliver x") (auto simp: cached_send_def)
    show thesis
    proof (cases "fst r")
      case None
      then obtain x2 where x2: "deliver x = Some (None, x2)" using r by (cases r) simp
      then have c1: "c1 = snd (cSet (C y) key True [] c2)" "err = None" "x1 = x2"
        using assms(2) g False by (simp_all add: cached_send_def)
      obtain e' where "cSet (C y) key True [] c2 = (e', c1)" using c1(1) by (metis prod.collapse)
      from set [OF assms(1) this] have "holds y c1 \<le> written key True e' (holds y c2)" .
      then have "holds y c1 k \<subseteq> holds y c k" if "k \<noteq> key" for k
        using G that by (force simp: le_fun_def written_def)
      then show thesis using delivered x2 c1 by simp
    next
      case (Some e2)
      then obtain x2 where x2: "deliver x = Some (Some e2, x2)" using r by (cases r) simp
      then have "err = Err st (Some e2) []" "c1 = c2" "x1 = x2" using assms(2) g False by (simp_all add: cached_send_def)
      then show thesis using failed [of e2] x2 G by simp
    qed
  qed
qed

lemma tg_sends_delivered:
  assumes ok: "ok y" and cache: "tgCache s = Some (C y)"
    and run: "sends (tg_Send st lib json api s) ms (c, x) = Some (results, (c', x'))"
    and inv: "\<And>k. holds y c k \<noteq> {} \<Longrightarrow>
      \<exists>m\<in>set before. tg_generateCacheKey lib json s (fst m) (snd m) = k \<and> (GroupChatID s, buildMessage (fst m) (snd m)) \<in> set (snd x)"
  shows "set (snd x) \<subseteq> set (snd x') \<and> (\<forall>i<length ms. results ! i = None \<longrightarrow>
      (\<exists>m\<in>set (before @ take (Suc i) ms).
         tg_generateCacheKey lib json s (fst m) (snd m) = tg_generateCacheKey lib json s (fst (ms ! i)) (snd (ms ! i)) \<and>
         (GroupChatID s, buildMessage (fst m) (snd m)) \<in> set (snd x')))"
  using run inv
proof (induction ms arbitrary: c x results before)
  case Nil
  then show ?case by simp
next
  case (Cons m ms)
  let ?key = "\<lambda>m. tg_generateCacheKey lib json s (fst m) (snd m)"
  let ?msg = "\<lambda>m. (GroupChatID s, buildMessage (fst m) (snd m))"
  obtain e c1 x1 es where 1: "tg_Send st lib json api s (fst m) (snd m) (c, x) = Some (e, c1, x1)"
    and 2: "sends (tg_Send st lib json api s) ms (c1, x1) = Some (es, (c', x'))" and es: "results = e # es"
    using Cons.prems(1) by (auto split: option.splits)
  have cs: "cached_send st (Some (C y)) (?key m) (robot_SendMessage st api (GroupChatID s) (buildMessage (fst m) (snd m))) (c, x) = Some (e, c1, x1)"
    using 1 cache by (simp add: tg_Send_def)
  have step: "set (snd x) \<subseteq> set (snd x1) \<and> (e = None \<longrightarrow> (\<exists>m'\<in>set (before @ [m]). ?key m' = ?key m \<and> ?msg m' \<in> set (snd x1))) \<and>
      (\<forall>k. holds y c1 k \<noteq> {} \<longrightarrow> (\<exists>m'\<in>set (before @ [m]). ?key m' = k \<and> ?msg m' \<in> set (snd x1)))"
    using ok cs
  proof (cases rule: cached_send_cases)
    case hit
    then show ?thesis using Cons.prems(2) by (fastforce simp: le_fun_def)
  next
    case (failed e')
    then show ?thesis using Cons.prems(2) robot_SendMessage_log(1) [OF failed(1)] by (fastforce simp: le_fun_def)
  next
    case delivered
    note L = robot_SendMessage_log [OF delivered(1)]
    have "\<exists>m'\<in>set (before @ [m]). ?key m' = k \<and> ?msg m' \<in> set (snd x1)" if "holds y c1 k \<noteq> {}" for k
    proof (cases "k = ?key m")
      case True
      then show ?thesis using L(2) by auto
    next
      case False
      then have "holds y c k \<noteq> {}" using delivered(3) [of k] that by auto
      then show ?thesis using Cons.prems(2) [of k] L(1) by fastforce
    qed
    then show ?thesis using L by auto
  qed
  have IH: "set (snd x1) \<subseteq> set (snd x') \<and> (\<forall>i<length ms. es ! i = None \<longrightarrow>
      (\<exists>m'\<in>set ((before @ [m]) @ take (Suc i) ms). ?key m' = ?key (ms ! i) \<and> ?msg m' \<in> set (snd x')))"
    using step by (intro Cons.IH [OF 2]) blast
  have "\<exists>m'\<in>set (before @ take (Suc i) (m # ms)). ?key m' = ?key ((m # ms) ! i) \<and> ?msg m' \<in> set (snd x')"
    if "i < length (m # ms)" "results ! i = None" for i
  proof (cases i)
    case 0
    then have "e = None" using that unfolding es by simp
    then obtain m' where "m' \<in> set (before @ [m])" "?key m' = ?key m" "?msg m' \<in> set (snd x1)" using step by blast
    then show ?thesis using 0 IH by (intro bexI [of _ m']) auto
  next
    case (Suc j)
    then have "j < length ms" "es ! j = None" using that unfolding es by simp_all
    then obtain m' where "m' \<in> set ((before @ [m]) @ take (Suc j) ms)" "?key m' = ?key (ms ! j)" "?msg m' \<in> set (snd x')"
      using IH by blast
    then show ?thesis using Suc by (intro bexI [of _ m']) auto
  qed
  then show ?case using step IH by blast
qed

end

interpretation memory_dedup: dedup_sender "\<lambda>(lib, entries, zero). otter_ok lib entries"
  "\<lambda>(lib, entries, zero). memoryCache lib zero" "\<lambda>(lib, entries, zero). memory_holds entries"
  by unfold_locales

lemma tg_sends_uncached:
  assumes "tgCache s = None" "sends (tg_Send st lib json api s) ms (c, x) = Some (results, (c', x'))"
  shows "set (snd x) \<subseteq> set (snd x') \<and>
    (\<forall>i<length ms. results ! i = None \<longrightarrow> (GroupChatID s, buildMessage (fst (ms ! i)) (snd (ms ! i))) \<in> set (snd x'))"
  using assms(2)
proof (induction ms arbitrary: c x results)
  case (Cons m ms)
  obtain e c1 x1 es where 1: "tg_Send st lib json api s (fst m) (snd m) (c, x) = Some (e, c1, x1)"
    and 2: "sends (tg_Send st lib json api s) ms (c1, x1) = Some (es, (c', x'))" and es: "results = e # es"
    using Cons.prems(1) by (auto split: option.splits)
  obtain r where r: "robot_SendMessage st api (GroupChatID s) (buildMessage (fst m) (snd m)) x = Some (r, x1)" "r = None \<longleftrightarrow> e = None"
    using 1 assms(1) by (auto simp: tg_Send_def cached_send_def split: option.splits)
  note L = robot_SendMessage_log [OF r(1)] and IH = Cons.IH [OF 2]
  show ?case using L IH r(2) unfolding es by (auto simp: nth_Cons split: nat.splits)
qed simp

section \<open>Properties\<close>

text \<open>
  The cache never loses a message: whatever sequence of messages a fresh Telegram sender is given,
  a call that reports success has the message delivered, by this call or by an earlier one with the
  same cache key; suppressed are only repetitions.
\<close>

theorem tg_no_silent_loss:
  assumes "otter_ok lib entries" "NewTelegramSender st lib NewBotAPI token chatID o0 = Inr (s, o1)"
    and run: "sends (tg_Send st enc json api s) msgs (o1, (b, [])) = Some (results, (o2, (b2, accepted)))"
    and i: "i < length msgs" "results ! i = None"
  shows "\<exists>m\<in>set (take (Suc i) msgs).
    tg_generateCacheKey enc json s (fst m) (snd m) = tg_generateCacheKey enc json s (fst (msgs ! i)) (snd (msgs ! i)) \<and>
    (chatID, buildMessage (fst m) (snd m)) \<in> set accepted"
proof -
  have chat: "GroupChatID s = chatID" using assms(2) by (auto simp: NewTelegramSender_def split: option.splits prod.splits)
  show ?thesis
  proof (cases "tgCache s")
    case None
    have "msgs ! i \<in> set (take (Suc i) msgs)" using i(1) by (simp add: take_Suc_conv_app_nth)
    then show ?thesis using tg_sends_uncached [OF None run] i unfolding chat by auto
  next
    case (Some cinst)
    have new: "cinst = memoryCache lib False" "entries o1 = Map.empty"
      using assms(2) Some otter_okD(1) [OF assms(1)]
      by (auto simp: NewTelegramSender_def initCache_def NewMemory_def split: option.splits prod.splits sum.splits if_splits)
    have "memory_holds entries o1 k = {}" for k using new(2) by (simp add: memory_holds_def)
    then show ?thesis
      using memory_dedup.tg_sends_delivered [of "(lib, entries, False)" s st enc json api msgs o1 "(b, [])" results o2 "(b2, accepted)" "[]"]
        assms(1) Some run i unfolding chat new(1) by simp
  qed
qed

lemma buildMessage_lines:
  "buildMessage title (Some m) = ''***'' @ EscapeMarkdownV2 title @ ''***'' @ newline @ newline @
     concat (map (\<lambda>p. EscapeMarkdownV2 (fst p) @ '': '' @ EscapeMarkdownV2 (snd p) @ newline) (Pairs m))"
proof -
  have "foldl (\<lambda>b p. b @ EscapeMarkdownV2 (fst p) @ '': '' @ EscapeMarkdownV2 (snd p) @ newline) h ps =
      h @ concat (map (\<lambda>p. EscapeMarkdownV2 (fst p) @ '': '' @ EscapeMarkdownV2 (snd p) @ newline) ps)" for h ps
    by (induction ps arbitrary: h) simp_all
  then show ?thesis unfolding buildMessage_def Let_def by (simp add: Each_all)
qed

lemma error_map_pairs:
  "Pairs (error_map r errMsg) =
     [(''ServerName'', serverName r), (''Env'', appEnv r), (''RequestID'', rcRequestID r),
      (''RequestUri'', rcRequestURI r), (''RequestJson'', rcRequestJson r), (''Error'', errMsg)]"
  using zmap.pairs_build [of "[(''ServerName'', serverName r), (''Env'', appEnv r), (''RequestID'', rcRequestID r),
      (''RequestUri'', rcRequestURI r), (''RequestJson'', rcRequestJson r), (''Error'', errMsg)]"]
  by (simp add: error_map_def zmap.build_def)

text \<open>
  The report of an error as people read it: a Telegram message sent for an error has the title and
  the six fields in their fixed order, each on its own line and each escaped.
\<close>

theorem error_report_text:
  assumes "tgCache s = None"
    and line: "\<And>k v. line k v = EscapeMarkdownV2 k @ '': '' @ EscapeMarkdownV2 v @ newline"
    and msg: "msg = ''***Running Error***'' @ newline @ newline @ line ''ServerName'' (serverName r) @ line ''Env'' (appEnv r) @
      line ''RequestID'' (rcRequestID r) @ line ''RequestUri'' (rcRequestURI r) @ line ''RequestJson'' (rcRequestJson r) @
      line ''Error'' (GetErrMessage (Err st err []) False)"
    and "api (GroupChatID s) msg b = (None, b1)"
  shows "\<exists>rec. SendErrMessage st (Some (tg_Send st enc json api s)) r err (logs, (c, (b, accepted))) =
    Some (logs @ [ErrRecord rec], (c, (b1, accepted @ [(GroupChatID s, msg)])))"
proof -
  have "EscapeMarkdownV2 ''Running Error'' = ''Running Error''" by code_simp
  then have "buildMessage ''Running Error'' (Some (error_map r (GetErrMessage (Err st err []) False))) = msg"
    by (simp add: buildMessage_lines error_map_pairs msg line)
  then show ?thesis using assms(1,4) by (simp add: SendErrMessage_def tg_Send_def cached_send_def robot_SendMessage_def)
qed

lemma Execute_once:
  assumes "url \<noteq> []" "isValidHTTPMethod method" "rb_chain rb = []" "rb_client rb = Some cl"
    and "req = \<lparr>Method = method, URL = url, Query = q, ReqBody = body, Headers = hs, Timeout = rb_timeout rb\<rparr>"
  shows "\<exists>c. Execute env rb i method url q body hs = Some (None, c) \<and> (hResponse c, hError c) = cl req i \<and>
    htick c = i + 1 \<and> hsent c = [req] \<and>
    (\<exists>d. hlogs c = request_log (env\<lparr>Net_Http.client := Some cl\<rparr>) (rb_keepLog rb) (rb_sendErrorMsg rb) d)"
proof -
  let ?e = "env\<lparr>Net_Http.client := Some cl\<rparr>"
  define c0 where "c0 = startData (rb_keepLog rb) (rb_sendErrorMsg rb) i req"
  have rest: "onion [doRequestMiddleware ?e] c0 = send cl c0" by (simp add: doRequestMiddleware_def before_next_def)
  have c1: "hRequest (send cl c0) = req" "htick (send cl c0) = i + 1" "hsent (send cl c0) = [req]" "hlogs (send cl c0) = []"
    "(hResponse (send cl c0), hError (send cl c0)) = cl req i" "hvalues (send cl c0) = hvalues c0"
    using send_first [of c0 cl] by (simp_all add: c0_def)
  have log: "getLogConfig (send cl c0) = Some (rb_keepLog rb, rb_sendErrorMsg rb)" using c1(6) by (simp add: startData_log c0_def)
  have "wrap (RequestLogMiddleware ?e) (onion [doRequestMiddleware ?e]) c0 =
      (send cl c0)\<lparr>hlogs := request_log ?e (rb_keepLog rb) (rb_sendErrorMsg rb) (send cl c0)\<rparr>"
    using wrap_RequestLog [of "onion [doRequestMiddleware ?e]" c0] log c1(4) unfolding rest by simp
  then have "Execute env rb i method url q body hs =
      Some (None, (send cl c0)\<lparr>hlogs := request_log ?e (rb_keepLog rb) (rb_sendErrorMsg rb) (send cl c0)\<rparr>)"
    using Execute_runs [OF assms(1,2), of rb env i q body hs] assms(3-5) by (simp add: c0_def del: onion.simps) simp
  then show ?thesis using c1 by simp blast
qed

text \<open>
  A Lark message is one POST of the signed message, and its failure raises no notification, so that
  a notification that cannot be delivered does not start the next one.  The answer is not looked at:
  every answer without a transport error counts as delivered, whatever its status.
\<close>

theorem lark_one_request:
  assumes "Net_Http.client env = Some cl" "json (genSign lib now (Secret t) (genMsg (language t) title zMap (AtList t))) = Inr str"
    and "req = \<lparr>Method = ''POST'', URL = ''https://open.larksuite.com'' @ RobotPath t, Query = [], ReqBody = BodyBytes str,
      Headers = Some [''Content-Type'' \<mapsto> ''application/json''], Timeout = 0\<rparr>"
    and "cl req i = (resp, err)"
  shows "\<exists>new. lark_SendMessage env lib json st now t title zMap (i, sent, logs) =
      Some ((resp, map_option Opaque err), (i + 1, sent @ [req], logs @ new)) \<and> (\<forall>m. Notify m \<notin> set new)"
proof -
  let ?rb = "NoSendErrorMsg (NewRequestBuilder (Some cl))"
  have m: "isValidHTTPMethod ''POST''" by (simp add: isValidHTTPMethod_def validHTTPMethods_def)
  have rb: "rb_chain ?rb = []" "rb_client ?rb = Some cl" "rb_timeout ?rb = 0" "\<not> rb_sendErrorMsg ?rb"
    by (simp_all add: NoSendErrorMsg_def NewRequestBuilder_def)
  obtain c d where c: "Execute env ?rb i ''POST'' (''https://open.larksuite.com'' @ RobotPath t) [] (BodyBytes str)
      (Some [''Content-Type'' \<mapsto> ''application/json'']) = Some (None, c)" "(hResponse c, hError c) = cl req i"
      "htick c = i + 1" "hsent c = [req]"
      "hlogs c = request_log (env\<lparr>Net_Http.client := Some cl\<rparr>) (rb_keepLog ?rb) (rb_sendErrorMsg ?rb) d"
    using Execute_once [OF _ m rb(1,2), of "''https://open.larksuite.com'' @ RobotPath t" req "[]" "BodyBytes str"
        "Some [''Content-Type'' \<mapsto> ''application/json'']" env i] rb(3) assms(3) by auto
  have "\<forall>m. Notify m \<notin> set (hlogs c)" unfolding c(5) using rb(4) by (auto simp: request_log_def)
  then show ?thesis using c(1-4) assms(1,2,4) by (auto simp: lark_SendMessage_def)
qed

section \<open>Witnesses\<close>

definition demo_menc :: enc_lib where
  "demo_menc = \<lparr>hash_hex = (\<lambda>_ d. d), hmac_sha256 = (\<lambda>k d. k @ d), aes_encrypt = (\<lambda>_ d. Inr d), aes_decrypt = (\<lambda>_ d. Inr d),
     rand_bytes = (\<lambda>_ n. Inr (replicate n CHR ''r'')), pem_decode = (\<lambda>_. None), x509_parse = (\<lambda>_ _. Inr NotRSA),
     rsa_public = id, oaep_encrypt = (\<lambda>_ d. Inr d), oaep_decrypt = (\<lambda>_ d. Inr d), bcrypt_generate = Inr,
     bcrypt_compare = (\<lambda>_ _. None), scrypt_Key = (\<lambda>p s. Inr p), jwt_sign = (\<lambda>_ _. Inr []),
     jwt_parse = (\<lambda>_ _. Inl (ErrNew []))\<rparr>"

definition demo_key :: key_json where
  "demo_key title chat ps = Inr title"

definition demo_api :: "(nat, unit) tg_api" where
  "demo_api chat msg n = (None, Suc n)"

definition demo_tg :: "(string \<rightharpoonup> bool, unit) TGSender" where
  "demo_tg = \<lparr>RobotToken = ''t'', GroupChatID = 7, tgCache = Some (memoryCache demo_otter False), tgExpireSec = 60\<rparr>"

lemma demo_NewTelegramSender:
  "NewTelegramSender [] (demo_otter :: (_, bool, unit) otter) (\<lambda>_. None) ''t'' 7 Map.empty = Inr (demo_tg, Map.empty)"
  by (simp add: NewTelegramSender_def initCache_def NewMemory_def demo_tg_def demo_otter_def)

text \<open>The second of two equal messages is not sent.\<close>

lemma demo_sends:
  "sends (tg_Send [] demo_menc demo_key demo_api demo_tg) [(''a'', None), (''a'', None)] (Map.empty, (0, [])) =
     Some ([None, None], ([''a'' \<mapsto> True], (1, [(7, buildMessage ''a'' None)])))"
  by (simp add: tg_Send_def cached_send_def demo_tg_def memoryCache_def memory_Get_def memory_Set_def demo_otter_simps
      tg_generateCacheKey_def key_bytes_def demo_key_def MD5Sum_def demo_menc_def robot_SendMessage_def demo_api_def
      applyOptions_def)

theorem tg_no_silent_loss_witness:
  "\<exists>m\<in>set [(''a'', None), (''a'', None)]. tg_generateCacheKey demo_menc demo_key demo_tg (fst m) (snd m) = ''a'' \<and>
     (7, buildMessage (fst m) (snd m)) \<in> set [(7 :: int, buildMessage ''a'' None)]"
  using tg_no_silent_loss [OF demo_otter_ok demo_NewTelegramSender demo_sends, of 1]
  by (simp add: tg_generateCacheKey_def key_bytes_def demo_key_def MD5Sum_def demo_menc_def)

theorem error_report_text_witness:
  "\<exists>rec msg. SendErrMessage [] (Some (tg_Send [] demo_menc demo_key demo_api (demo_tg\<lparr>tgCache := None\<rparr>)))
       \<lparr>serverName = ''s'', appEnv = ''e'', rcRequestID = ''i'', rcRequestURI = ''u'', rcRequestJson = ''j''\<rparr> None ([], (Map.empty, (0, []))) =
     Some ([ErrRecord rec], (Map.empty, (1, [(7, msg)])))"
  using error_report_text [of "demo_tg\<lparr>tgCache := None\<rparr>" "\<lambda>k v. EscapeMarkdownV2 k @ '': '' @ EscapeMarkdownV2 v @ newline" _
      "\<lparr>serverName = ''s'', appEnv = ''e'', rcRequestID = ''i'', rcRequestURI = ''u'', rcRequestJson = ''j''\<rparr>" "[]" None
      demo_api 0 1 demo_menc demo_key "[]" Map.empty "[]", OF _ refl refl]
  by (auto simp: demo_tg_def demo_api_def)

definition demo_lark :: "(string \<rightharpoonup> bool, unit) LarkSender" where
  "demo_lark = \<lparr>RobotPath = ''/hook'', Secret = ''s'', AtList = [''u''], larkCache = None, language = ''en-US'', larkExpireSec = 0\<rparr>"

theorem lark_one_request_witness:
  "\<exists>resp x. lark_SendMessage (demo_henv\<lparr>Net_Http.client := Some (\<lambda>_ _. (Some \<lparr>StatusCode = 500, Header = Map.empty, RespBody = [],
       StatsOf = None\<rparr>, None))\<rparr>) demo_menc (\<lambda>_. Inr ''{}'') [] 0 demo_lark ''t'' None (0, [], []) =
     Some ((Some resp, None :: unit perr option), x) \<and> StatusCode resp = 500"
  using lark_one_request [of "demo_henv\<lparr>Net_Http.client := Some (\<lambda>_ _. (Some \<lparr>StatusCode = 500, Header = Map.empty, RespBody = [],
       StatsOf = None\<rparr>, None))\<rparr>" _ "\<lambda>_. Inr ''{}''" demo_menc 0 demo_lark "''t''" None "''{}''" _ 0 _ _ "[]" "[]" "[]", OF _ _ refl]
  by fastforce

end
