(* ===== verification/Crash_Report.thy ===== *)
theory Crash_Report
  imports Message_Sender "HOL-Library.Char_ord" "HOL-Library.List_Lexorder"
begin

text \<open>
  The crash reporter, \<^verbatim>\<open>common/coroutines/crash.go\<close>: a process registers a dump file under its own
  process number, and the next start uploads the dumps that crashed processes left.  The directory is
  the list of its files; errors of the file system, the clock, path joining and the time layouts are
  parameters.  A call returns \<^term>\<open>None\<close> when the uploader panics.
\<close>

section \<open>Records and settings\<close>

record CrashRecord =
  crFile :: string
  Pid :: int
  StartedAt :: "int option"
  Reason :: string
  Raw :: string
  Truncated :: bool

definition Render :: "(int \<Rightarrow> string) \<Rightarrow> CrashRecord \<Rightarrow> string" where
  "Render rfc3339 r =
     ''Process Crashed'' @ newline @
     (if Pid r > 0 then ''Pid: '' @ FormatInt (Pid r) @ newline else []) @
     (case StartedAt r of None \<Rightarrow> [] | Some t \<Rightarrow> ''StartedAt: '' @ rfc3339 t @ newline) @
     (if Reason r \<noteq> [] then ''Reason: '' @ Reason r @ newline else []) @
     ''DumpFile: '' @ crFile r @ newline @
     (if Truncated r then ''Truncated: true (raw size > maxFileBytes)'' @ newline else []) @
     ''---- raw dump ----'' @ newline @ Raw r @
     (if Raw r \<noteq> [] \<and> [last (Raw r)] \<noteq> newline then newline else [])"

type_synonym 'w uploader = "CrashRecord \<Rightarrow> 'w \<Rightarrow> (goerr option \<times> 'w) option"

record 'w crashConfig =
  dir :: string
  traceback :: string
  maxFileBytes :: int
  keepUploaded :: int
  title :: string
  cuploader :: "'w uploader"

datatype 'w CrashOption =
    WithCrashDir string
  | WithTraceback string
  | WithMaxFileBytes int
  | WithKeepUploaded int
  | WithCrashTitle string
  | WithCrashUploader "'w uploader option"

fun apply_crash_option :: "'w CrashOption \<Rightarrow> 'w crashConfig \<Rightarrow> 'w crashConfig" where
  "apply_crash_option (WithCrashDir d) c = (if TrimSpace d \<noteq> [] then c\<lparr>dir := d\<rparr> else c)"
| "apply_crash_option (WithTraceback level) c =
     (if level \<in> {''single'', ''all'', ''system'', ''crash''} then c\<lparr>traceback := level\<rparr> else c)"
| "apply_crash_option (WithMaxFileBytes n) c = (if n > 0 then c\<lparr>maxFileBytes := n\<rparr> else c)"
| "apply_crash_option (WithKeepUploaded d) c = (if d > 0 then c\<lparr>keepUploaded := d\<rparr> else c)"
| "apply_crash_option (WithCrashTitle t) c = (if TrimSpace t \<noteq> [] then c\<lparr>title := t\<rparr> else c)"
| "apply_crash_option (WithCrashUploader fn) c = (case fn of None \<Rightarrow> c | Some f \<Rightarrow> c\<lparr>cuploader := f\<rparr>)"

definition defaultCrashConfig :: "'w uploader \<Rightarrow> 'w crashConfig" where
  "defaultCrashConfig up =
     \<lparr>dir = ''./logs/crash'', traceback = ''all'', maxFileBytes = 256 * 1024,
      keepUploaded = 7 * 24 * 3600 * 1000000000, title = ''Process Crashed'', cuploader = up\<rparr>"

text \<open>The uploader that is used without an option: it reports the record as an error, and never fails.\<close>

definition defaultUploader :: "stack \<Rightarrow> (int \<Rightarrow> string) \<Rightarrow> ('s, 'd) Sender option \<Rightarrow> report_ctx \<Rightarrow> ('d msg_log list \<times> 's) uploader" where
  "defaultUploader st rfc3339 gsender r rec w =
     (case SendErrMessage st gsender r (Some (Opaque (ErrNew (Render rfc3339 rec)))) w of
        None \<Rightarrow> None
      | Some w1 \<Rightarrow> Some (None, w1))"

section \<open>Names\<close>

definition crashFileSuffix :: string where
  "crashFileSuffix = ''.crash''"

definition uploadedSuffix :: string where
  "uploadedSuffix = ''.uploaded''"

text \<open>The part before the first dash and the part behind it.\<close>

definition dash_split :: "string \<Rightarrow> (string \<times> string) option" where
  "dash_split base =
     (if CHR ''-'' \<in> set base
      then Some (takeWhile (\<lambda>c. c \<noteq> CHR ''-'') base, tl (dropWhile (\<lambda>c. c \<noteq> CHR ''-'') base)) else None)"

definition pidFromName :: "string \<Rightarrow> int" where
  "pidFromName name =
     (case dash_split (TrimSuffix name crashFileSuffix) of
        None \<Rightarrow> 0
      | Some (p, _) \<Rightarrow> if p = [] then 0 else (case ParseInt p 64 of Inl _ \<Rightarrow> 0 | Inr pid \<Rightarrow> pid))"

definition startedAtFromName :: "(string \<Rightarrow> int option) \<Rightarrow> string \<Rightarrow> int option" where
  "startedAtFromName parse_ts name =
     (case dash_split (TrimSuffix name crashFileSuffix) of
        None \<Rightarrow> None
      | Some (_, ts) \<Rightarrow> if ts = [] then None else parse_ts ts)"

definition crash_name :: "int \<Rightarrow> string \<Rightarrow> string" where
  "crash_name pid ts = FormatInt pid @ ''-'' @ ts @ crashFileSuffix"

section \<open>Reading a dump\<close>

definition is_reason :: "string \<Rightarrow> bool" where
  "is_reason l \<longleftrightarrow> HasPrefix l ''fatal error:'' \<or> HasPrefix l ''panic:''"

definition extractReason :: "string \<Rightarrow> string" where
  "extractReason b =
     (case filter is_reason (map TrimSpace (SplitC (take 4096 b) (char_of (10 :: nat)))) of [] \<Rightarrow> [] | l # _ \<Rightarrow> l)"

record cfile =
  fdata :: string
  fmtime :: int

record crash_env =
  path_of :: "string \<Rightarrow> string \<Rightarrow> string"
  parse_ts :: "string \<Rightarrow> int option"
  readdir_err :: "goerr option"
  open_err :: "string \<Rightarrow> goerr option"
  rename_err :: "string \<Rightarrow> goerr option"
  crash_now :: int

definition parseCrashFile :: "crash_env \<Rightarrow> string \<Rightarrow> string \<Rightarrow> cfile \<Rightarrow> int \<Rightarrow> goerr + CrashRecord" where
  "parseCrashFile env d name f maxBytes =
     (case open_err env name of
        Some e \<Rightarrow> Inl (ErrWrapf (''crash: open dump '' @ fmt_q (path_of env d name) @ '': '') e)
      | None \<Rightarrow>
          let truncated = (maxBytes > 0 \<and> int (length (fdata f)) > maxBytes);
              b = (if truncated then take (nat maxBytes) (fdata f) else fdata f)
          in Inr \<lparr>crFile = path_of env d name, Pid = pidFromName name, StartedAt = startedAtFromName (parse_ts env) name,
                  Reason = extractReason b, Raw = b, Truncated = truncated\<rparr>)"

section \<open>Reporting\<close>

type_synonym cdir = "(string \<times> cfile) list"

definition first_err :: "goerr option \<Rightarrow> goerr option \<Rightarrow> goerr option" where
  "first_err old e = (if old = None then e else old)"

definition rename :: "string \<Rightarrow> string \<Rightarrow> cdir \<Rightarrow> cdir" where
  "rename old new fs =
     (case map_of fs old of
        None \<Rightarrow> fs
      | Some f \<Rightarrow> (new, f) # filter (\<lambda>p. fst p \<noteq> old \<and> fst p \<noteq> new) fs)"

text \<open>One file: parse, skip it if empty, upload, rename.\<close>

definition report_file :: "crash_env \<Rightarrow> 'w crashConfig \<Rightarrow> string \<Rightarrow> goerr option \<times> cdir \<times> 'w \<Rightarrow> (goerr option \<times> cdir \<times> 'w) option" where
  "report_file env cfg name st =
     (case st of (firstErr, fs, w) \<Rightarrow>
        (case map_of fs name of
           None \<Rightarrow> Some (first_err firstErr (Some (ErrNew (''crash: open dump '' @ fmt_q (path_of env (dir cfg) name)))), fs, w)
         | Some f \<Rightarrow>
             (case parseCrashFile env (dir cfg) name f (maxFileBytes cfg) of
                Inl perr \<Rightarrow> Some (first_err firstErr (Some perr), fs, w)
              | Inr rec \<Rightarrow>
                  if Raw rec = [] then
                    Some (firstErr, (if rename_err env name = None then rename name (name @ uploadedSuffix) fs else fs), w)
                  else
                    (case cuploader cfg rec w of
                       None \<Rightarrow> None
                     | Some (Some uerr, w1) \<Rightarrow> Some (first_err firstErr (Some uerr), fs, w1)
                     | Some (None, w1) \<Rightarrow>
                         (case rename_err env name of
                            Some rerr \<Rightarrow> Some (first_err firstErr (Some rerr), fs, w1)
                          | None \<Rightarrow> Some (firstErr, rename name (name @ uploadedSuffix) fs, w1))))))"

fun report_loop :: "crash_env \<Rightarrow> 'w crashConfig \<Rightarrow> string list \<Rightarrow> goerr option \<times> cdir \<times> 'w \<Rightarrow> (goerr option \<times> cdir \<times> 'w) option" where
  "report_loop env cfg [] st = Some st"
| "report_loop env cfg (name # names) st =
     (case report_file env cfg name st of None \<Rightarrow> None | Some st1 \<Rightarrow> report_loop env cfg names st1)"

definition crash_pending :: "int \<Rightarrow> string \<Rightarrow> bool" where
  "crash_pending currentPid name \<longleftrightarrow>
     HasSuffix name crashFileSuffix \<and> \<not> (pidFromName name = currentPid \<and> currentPid \<noteq> 0)"

definition cleanupUploaded :: "crash_env \<Rightarrow> int \<Rightarrow> cdir \<Rightarrow> cdir" where
  "cleanupUploaded env keep fs =
     (if keep \<le> 0 \<or> readdir_err env \<noteq> None then fs
      else filter (\<lambda>(name, f). \<not> (HasSuffix name (crashFileSuffix @ uploadedSuffix) \<and> fmtime f < crash_now env - keep)) fs)"

text \<open>
  The files are sorted by path; in one directory that is by name.  \<open>reporter\<close> is the state that \<^verbatim>\<open>InitCrashReporter\<close> leaves: the settings
  and the process number.
\<close>

definition ReportPendingCrashes :: "crash_env \<Rightarrow> ('w crashConfig \<times> int) option \<Rightarrow> cdir \<times> 'w \<Rightarrow> (goerr option \<times> cdir \<times> 'w) option" where
  "ReportPendingCrashes env reporter fsw =
     (case reporter of
        None \<Rightarrow> Some (None, fsw)
      | Some (cfg, currentPid) \<Rightarrow>
          (case readdir_err env of
             Some e \<Rightarrow> Some (Some (ErrWrapf (''crash: readdir '' @ fmt_q (dir cfg) @ '': '') e), fsw)
           | None \<Rightarrow>
               let files = sort (filter (crash_pending currentPid) (map fst (fst fsw)))
               in map_option (\<lambda>(err, fs, w). (err, cleanupUploaded env (keepUploaded cfg) fs, w))
                    (report_loop env cfg files (None, fsw))))"

text \<open>Initialisation, once: the settings, the new empty dump file and its registration.\<close>

record crash_os =
  mkdir_err :: "goerr option"
  create_err :: "goerr option"
  setoutput_err :: "goerr option"
  getpid :: int
  start_ts :: string
  os_join :: "string \<Rightarrow> string \<Rightarrow> string"

definition openCrashFile :: "crash_os \<Rightarrow> string \<Rightarrow> int \<Rightarrow> cdir \<Rightarrow> goerr + cdir" where
  "openCrashFile os d now fs =
     (case create_err os of
        Some e \<Rightarrow> Inl (ErrWrapf (''crash: open '' @ fmt_q (os_join os d (crash_name (getpid os) (start_ts os))) @ '': '') e)
      | None \<Rightarrow>
          let name = crash_name (getpid os) (start_ts os)
          in Inr (if name \<in> fst ` set fs then fs else (name, \<lparr>fdata = [], fmtime = now\<rparr>) # fs))"

definition InitCrashReporter :: "crash_os \<Rightarrow> int \<Rightarrow> 'w uploader \<Rightarrow> 'w CrashOption list \<Rightarrow> ('w crashConfig \<times> int) option \<times> cdir \<Rightarrow>
    goerr option \<times> ('w crashConfig \<times> int) option \<times> cdir" where
  "InitCrashReporter os now up opts st =
     (case st of (reporter, fs) \<Rightarrow>
        if reporter \<noteq> None then (None, reporter, fs)
        else
          let cfg = foldl (\<lambda>c opt. apply_crash_option opt c) (defaultCrashConfig up) opts
          in case mkdir_err os of
               Some e \<Rightarrow> (Some (ErrWrapf (''crash: mkdir '' @ fmt_q (dir cfg) @ '': '') e), None, fs)
             | None \<Rightarrow>
                 (case openCrashFile os (dir cfg) now fs of
                    Inl e \<Rightarrow> (Some e, None, fs)
                  | Inr fs1 \<Rightarrow>
                      (case setoutput_err os of
                         Some e \<Rightarrow> (Some (ErrWrapf ''crash: SetCrashOutput: '' e), None, fs1)
                       | None \<Rightarrow> (None, Some (cfg, getpid os), fs1))))"

section \<open>Lemmas\<close>

lemma HasSuffix_last: "HasSuffix s t \<Longrightarrow> t \<noteq> [] \<Longrightarrow> last s = last t"
  by (metis HasSuffix_def last_drop diff_less length_greater_0_conv le_eq_less_or_eq list.size(3) not_less_zero order_less_le_trans)

lemma uploaded_not_pending: "\<not> crash_pending pid (s @ uploadedSuffix)"
  using HasSuffix_last [of "s @ uploadedSuffix" crashFileSuffix] by (auto simp: crash_pending_def uploadedSuffix_def crashFileSuffix_def)

lemma pidFromName_crash_name:
  assumes "0 \<le> pid" "in_int64 pid"
  shows "pidFromName (crash_name pid ts) = pid"
proof -
  have digit: "char_of (48 + d) \<noteq> CHR ''-''" if "d < 10" for d :: nat
  proof
    assume "char_of (48 + d) = CHR ''-''"
    then have "digit_value CHR ''-'' = Some d" using digit_value_digit [OF that] by (simp only:)
    moreover have "digit_value CHR ''-'' = None" by code_simp
    ultimately show False by simp
  qed
  have digits: "CHR ''-'' \<notin> set (nat_digits n)" for n
  proof (induction n rule: nat_digits.induct)
    case (1 n)
    then show ?case using digit [of n] digit [of "n mod 10"] by (subst nat_digits.simps) auto
  qed
  then have d: "CHR ''-'' \<notin> set (FormatInt pid)" using assms(1) by (simp add: FormatInt_def)
  have ne: "FormatInt pid \<noteq> []" using assms(1) by (auto simp: FormatInt_def nat_digits.simps)
  have p: "ParseInt (FormatInt pid) 64 = Inr pid"
    using assms(2) by (intro ParseInt_FormatInt) (simp_all add: in_int64_def int64_min_def int64_max_def)
  have "TrimSuffix (crash_name pid ts) crashFileSuffix = FormatInt pid @ ''-'' @ ts"
    using TrimSuffix_append [of "FormatInt pid @ ''-'' @ ts"] by (simp add: crash_name_def)
  moreover have "takeWhile (\<lambda>c. c \<noteq> CHR ''-'') (FormatInt pid @ ''-'' @ ts) = FormatInt pid"
    using d by (subst takeWhile_append2) auto
  ultimately show ?thesis using ne p by (simp add: pidFromName_def dash_split_def)
qed

lemma own_not_pending: "0 < pid \<Longrightarrow> in_int64 pid \<Longrightarrow> \<not> crash_pending pid (crash_name pid ts)"
  by (simp add: crash_pending_def pidFromName_crash_name)

lemma map_of_filter_ne: "map_of (filter (\<lambda>p. fst p \<noteq> a \<and> fst p \<noteq> b) fs) x = (if x = a \<or> x = b then None else map_of fs x)"
  by (induction fs) auto

lemma map_of_rename: "x \<noteq> old \<Longrightarrow> x \<noteq> new \<Longrightarrow> map_of (rename old new fs) x = map_of fs x"
  by (auto simp: rename_def map_of_filter_ne split: option.splits)

lemma dom_rename: "fst ` set (rename old new fs) \<subseteq> insert new (fst ` set fs)"
  by (auto simp: rename_def split: option.splits)

lemma old_rename: "old \<noteq> new \<Longrightarrow> old \<notin> fst ` set (rename old new fs)"
  by (auto simp: rename_def split: option.splits) (force simp: map_of_eq_None_iff)

text \<open>The record of a dump that can be opened.\<close>

definition dump :: "crash_env \<Rightarrow> 'w crashConfig \<Rightarrow> string \<Rightarrow> cfile \<Rightarrow> CrashRecord" where
  "dump env cfg name f =
     (let truncated = (maxFileBytes cfg > 0 \<and> int (length (fdata f)) > maxFileBytes cfg);
          b = (if truncated then take (nat (maxFileBytes cfg)) (fdata f) else fdata f)
      in \<lparr>crFile = path_of env (dir cfg) name, Pid = pidFromName name, StartedAt = startedAtFromName (parse_ts env) name,
          Reason = extractReason b, Raw = b, Truncated = truncated\<rparr>)"

lemma parse_dump: "open_err env name = None \<Longrightarrow> parseCrashFile env (dir cfg) name f (maxFileBytes cfg) = Inr (dump env cfg name f)"
  by (simp add: parseCrashFile_def dump_def Let_def)

definition no_io_errors :: "crash_env \<Rightarrow> bool" where
  "no_io_errors env \<longleftrightarrow> readdir_err env = None \<and> (\<forall>n. open_err env n = None \<and> rename_err env n = None)"

lemma report_file_ok:
  assumes "no_io_errors env" "\<And>r w. cuploader cfg r w = Some (None, f r w)" "map_of fs name = Some c"
  shows "report_file env cfg name (e, fs, w) =
    Some (e, rename name (name @ uploadedSuffix) fs, if Raw (dump env cfg name c) = [] then w else f (dump env cfg name c) w)"
  using assms by (simp add: report_file_def no_io_errors_def parse_dump)

lemma diff_chain: "A \<subseteq> B - S \<Longrightarrow> B \<subseteq> C - {n} \<Longrightarrow> A \<subseteq> C - insert n S"
  by blast

lemma report_loop_ok:
  assumes "no_io_errors env" "\<And>r w. cuploader cfg r w = Some (None, f r w)"
    and "distinct names" "\<And>n. n \<in> set names \<Longrightarrow> crash_pending pid n \<and> map_of fs n = Some (file n)"
  shows "\<exists>fs'. report_loop env cfg names (e, fs, w) =
      Some (e, fs', foldl (\<lambda>w r. f r w) w (filter (\<lambda>r. Raw r \<noteq> []) (map (\<lambda>n. dump env cfg n (file n)) names))) \<and>
    {x \<in> fst ` set fs'. crash_pending pid x} \<subseteq> {x \<in> fst ` set fs. crash_pending pid x} - set names"
  using assms(3,4)
proof (induction names arbitrary: fs w)
  case (Cons n ns)
  let ?fs1 = "rename n (n @ uploadedSuffix) fs"
  let ?w1 = "if Raw (dump env cfg n (file n)) = [] then w else f (dump env cfg n (file n)) w"
  have up: "n \<noteq> n @ uploadedSuffix" by (simp add: uploadedSuffix_def)
  have n: "map_of fs n = Some (file n)" using Cons.prems(2) by simp
  have "crash_pending pid m \<and> map_of ?fs1 m = Some (file m)" if "m \<in> set ns" for m
  proof -
    have "crash_pending pid m" "map_of fs m = Some (file m)" "m \<noteq> n" using that Cons.prems by auto
    moreover have "m \<noteq> n @ uploadedSuffix" using uploaded_not_pending calculation(1) by metis
    ultimately show ?thesis by (simp add: map_of_rename)
  qed
  then obtain fs' where fs': "report_loop env cfg ns (e, ?fs1, ?w1) =
      Some (e, fs', foldl (\<lambda>w r. f r w) ?w1 (filter (\<lambda>r. Raw r \<noteq> []) (map (\<lambda>n. dump env cfg n (file n)) ns)))"
    "{x \<in> fst ` set fs'. crash_pending pid x} \<subseteq> {x \<in> fst ` set ?fs1. crash_pending pid x} - set ns"
    using Cons.IH [of ?fs1 ?w1] Cons.prems(1) by auto
  have "{x \<in> fst ` set ?fs1. crash_pending pid x} \<subseteq> {x \<in> fst ` set fs. crash_pending pid x} - {n}"
    using dom_rename [of n "n @ uploadedSuffix" fs] old_rename [OF up, of fs] uploaded_not_pending [of pid n] by auto
  from diff_chain [OF fs'(2) this] show ?case
    using fs'(1) report_file_ok [OF assms(1,2) n, of e w] by (intro exI [of _ fs']) simp
qed simp

section \<open>Properties\<close>

text \<open>
  Every dump is uploaded once: without errors of the file system, and with an uploader that
  reports success, one run hands over exactly the non-empty dumps of other processes, in the order of
  their names, and leaves none pending, so that a second run uploads nothing.
\<close>

theorem crash_report_once:
  assumes "no_io_errors env" "\<And>r w. cuploader cfg r w = Some (None, f r w)" "distinct (map fst fs)"
    and "names = sort (filter (crash_pending pid) (map fst fs))"
    and "uploads = filter (\<lambda>r. Raw r \<noteq> []) (map (\<lambda>n. dump env cfg n (the (map_of fs n))) names)"
  shows "\<exists>fs'. ReportPendingCrashes env (Some (cfg, pid)) (fs, w) = Some (None, fs', foldl (\<lambda>w r. f r w) w uploads) \<and>
    (\<forall>v. \<exists>fs''. ReportPendingCrashes env (Some (cfg, pid)) (fs', v) = Some (None, fs'', v))"
proof -
  have names: "distinct names" "\<And>n. n \<in> set names \<Longrightarrow> crash_pending pid n \<and> map_of fs n = Some (the (map_of fs n))"
    using assms(3,4) by (auto simp: map_of_is_SomeI weak_map_of_SomeI dest: map_of_SomeD)
  obtain fs1 where fs1: "report_loop env cfg names (None, fs, w) = Some (None, fs1, foldl (\<lambda>w r. f r w) w uploads)"
    "{x \<in> fst ` set fs1. crash_pending pid x} \<subseteq> {x \<in> fst ` set fs. crash_pending pid x} - set names"
    using report_loop_ok [OF assms(1,2) names, of None w] unfolding assms(5) by blast
  let ?fs' = "cleanupUploaded env (keepUploaded cfg) fs1"
  have run: "ReportPendingCrashes env (Some (cfg, pid)) (fs, w) = Some (None, ?fs', foldl (\<lambda>w r. f r w) w uploads)"
    using assms(1,4) fs1(1) by (simp add: ReportPendingCrashes_def no_io_errors_def Let_def)
  have "fst ` set ?fs' \<subseteq> fst ` set fs1" by (auto simp: cleanupUploaded_def)
  then have "\<forall>x\<in>fst ` set ?fs'. \<not> crash_pending pid x" using fs1(2) assms(4) by auto
  then have "filter (crash_pending pid) (map fst ?fs') = []" by (auto simp: filter_empty_conv)
  then have "\<forall>v. \<exists>fs''. ReportPendingCrashes env (Some (cfg, pid)) (?fs', v) = Some (None, fs'', v)"
    using assms(1) by (simp add: ReportPendingCrashes_def no_io_errors_def Let_def)
  then show ?thesis using run by blast
qed

lemma report_file_other:
  assumes "report_file env cfg n (e, fs, w) = Some (e', fs', w')" "x \<noteq> n" "x \<noteq> n @ uploadedSuffix"
  shows "map_of fs' x = map_of fs x"
  using assms by (auto simp: report_file_def map_of_rename split: option.splits sum.splits if_splits)

lemma report_loop_other:
  assumes "report_loop env cfg names (e, fs, w) = Some (e', fs', w')" "\<And>n. n \<in> set names \<Longrightarrow> x \<noteq> n \<and> x \<noteq> n @ uploadedSuffix"
  shows "map_of fs' x = map_of fs x"
  using assms
proof (induction names arbitrary: e fs w)
  case (Cons n names)
  obtain e1 fs1 w1 where 1: "report_file env cfg n (e, fs, w) = Some (e1, fs1, w1)"
    "report_loop env cfg names (e1, fs1, w1) = Some (e', fs', w')"
    using Cons.prems(1) by (auto split: option.splits)
  show ?case using Cons.IH [OF 1(2)] Cons.prems(2) report_file_other [OF 1(1), of x] by simp
qed simp

lemma report_loop_uploader:
  assumes "\<And>n. n \<in> set names \<Longrightarrow> pidFromName n \<noteq> pid" "\<And>r w. Pid r \<noteq> pid \<Longrightarrow> u r w = cuploader cfg r w"
  shows "report_loop env (cfg\<lparr>cuploader := u\<rparr>) names st = report_loop env cfg names st"
  using assms(1)
proof (induction names arbitrary: st)
  case (Cons n names)
  obtain e fs w where st: "st = (e, fs, w)" by (metis surj_pair)
  have "cuploader (cfg\<lparr>cuploader := u\<rparr>) rec v = cuploader cfg rec v"
    if "parseCrashFile env (dir cfg) n f (maxFileBytes cfg) = Inr rec" for f rec v
    using that Cons.prems assms(2) by (auto simp: parseCrashFile_def Let_def split: option.splits)
  then have "report_file env (cfg\<lparr>cuploader := u\<rparr>) n st = report_file env cfg n st"
    unfolding st report_file_def by (simp split: option.splits sum.splits)
  then show ?case using Cons by (simp split: option.splits)
qed simp

lemma cleanup_keeps: "\<not> HasSuffix x (crashFileSuffix @ uploadedSuffix) \<Longrightarrow> map_of (cleanupUploaded env keep fs) x = map_of fs x"
proof -
  assume x: "\<not> HasSuffix x (crashFileSuffix @ uploadedSuffix)"
  have "map_of (filter (\<lambda>(name, f). \<not> (HasSuffix name (crashFileSuffix @ uploadedSuffix) \<and> P f)) fs) x = map_of fs x" for P
    using x by (induction fs) auto
  then show ?thesis by (simp add: cleanupUploaded_def)
qed

text \<open>
  A process never reports a crash of a predecessor that had its process number, as is always the
  case where the program is the first process of a container: whatever happens, the dump stays as it
  is, and the uploader is not asked (its answers for records of that number make no difference).
\<close>

theorem same_pid_never_reported:
  assumes "0 < pid" "in_int64 pid" "ReportPendingCrashes env (Some (cfg, pid)) (fs, w) = Some (err, fs', w')"
  shows "map_of fs' (crash_name pid ts) = map_of fs (crash_name pid ts) \<and>
    ((\<forall>r v. Pid r \<noteq> pid \<longrightarrow> u r v = cuploader cfg r v) \<longrightarrow>
       ReportPendingCrashes env (Some (cfg\<lparr>cuploader := u\<rparr>, pid)) (fs, w) = Some (err, fs', w'))"
proof (intro conjI impI)
  let ?names = "sort (filter (crash_pending pid) (map fst fs))"
  have own: "\<not> crash_pending pid (crash_name pid ts)" using own_not_pending assms(1,2) by blast
  have suffix: "last (crash_name pid ts) = CHR ''h''" by (simp add: crash_name_def crashFileSuffix_def)
  have other: "crash_name pid ts \<noteq> n \<and> crash_name pid ts \<noteq> n @ uploadedSuffix" if "n \<in> set ?names" for n
    using that own suffix by (auto simp: uploadedSuffix_def)
  have keep: "\<not> HasSuffix (crash_name pid ts) (crashFileSuffix @ uploadedSuffix)"
    using HasSuffix_last [of "crash_name pid ts" "crashFileSuffix @ uploadedSuffix"] suffix by (auto simp: uploadedSuffix_def)
  show "map_of fs' (crash_name pid ts) = map_of fs (crash_name pid ts)"
  proof (cases "readdir_err env")
    case None
    then obtain fs1 where "report_loop env cfg ?names (None, fs, w) = Some (err, fs1, w')" "fs' = cleanupUploaded env (keepUploaded cfg) fs1"
      using assms(3) by (auto simp: ReportPendingCrashes_def Let_def)
    then show ?thesis using report_loop_other [of env cfg ?names None fs w err fs1 w'] other cleanup_keeps [OF keep] by simp
  next
    case Some
    then show ?thesis using assms(3) by (simp add: ReportPendingCrashes_def)
  qed
  assume u: "\<forall>r v. Pid r \<noteq> pid \<longrightarrow> u r v = cuploader cfg r v"
  have "pidFromName n \<noteq> pid" if "n \<in> set ?names" for n using that assms(1) by (auto simp: crash_pending_def)
  then have "report_loop env (cfg\<lparr>cuploader := u\<rparr>) ?names (None, fs, w) = report_loop env cfg ?names (None, fs, w)"
    using u by (intro report_loop_uploader) auto
  then show "ReportPendingCrashes env (Some (cfg\<lparr>cuploader := u\<rparr>, pid)) (fs, w) = Some (err, fs', w')"
    using assms(3) by (cases "readdir_err env") (simp_all add: ReportPendingCrashes_def Let_def)
qed

section \<open>Witnesses\<close>

definition demo_cenv :: crash_env where
  "demo_cenv = \<lparr>path_of = (\<lambda>d n. d @ ''/'' @ n), parse_ts = (\<lambda>_. None), readdir_err = None, open_err = (\<lambda>_. None),
     rename_err = (\<lambda>_. None), crash_now = 0\<rparr>"

definition demo_ccfg :: "CrashRecord list crashConfig" where
  "demo_ccfg = defaultCrashConfig (\<lambda>r w. Some (None, w @ [r]))"

definition demo_cdir :: cdir where
  "demo_cdir = [(''1-a.crash'', \<lparr>fdata = ''panic: x'', fmtime = 0\<rparr>), (''7-b.crash'', \<lparr>fdata = ''panic: y'', fmtime = 0\<rparr>)]"

lemma demo_names: "crash_name 1 ''a'' = ''1-a.crash''" "crash_name 7 ''b'' = ''7-b.crash''"
  by code_simp+

lemma demo_pending: "sort (filter (crash_pending 1) (map fst demo_cdir)) = [''7-b.crash'']"
proof -
  have i: "in_int64 1" "in_int64 7" by (simp_all add: in_int64_def int64_min_def int64_max_def)
  have "\<not> crash_pending 1 ''1-a.crash''" using own_not_pending [OF _ i(1), of "''a''"] demo_names by simp
  moreover have "pidFromName ''7-b.crash'' = 7" using pidFromName_crash_name [OF _ i(2), of "''b''"] demo_names by simp
  then have "crash_pending 1 ''7-b.crash''" by (simp add: crash_pending_def HasSuffix_def crashFileSuffix_def)
  ultimately show ?thesis by (simp add: demo_cdir_def)
qed

lemma demo_cenv_ok: "no_io_errors demo_cenv"
  by (simp add: no_io_errors_def demo_cenv_def)

lemma demo_upload: "cuploader demo_ccfg r w = Some (None, w @ [r])"
  by (simp add: demo_ccfg_def defaultCrashConfig_def)

lemma demo_distinct: "distinct (map fst demo_cdir)"
  by (simp add: demo_cdir_def)

lemma demo_dump:
  "filter (\<lambda>r. Raw r \<noteq> []) (map (\<lambda>n. dump demo_cenv demo_ccfg n (the (map_of demo_cdir n))) [''7-b.crash'']) =
     [dump demo_cenv demo_ccfg ''7-b.crash'' \<lparr>fdata = ''panic: y'', fmtime = 0\<rparr>]"
  "Raw (dump demo_cenv demo_ccfg ''7-b.crash'' \<lparr>fdata = ''panic: y'', fmtime = 0\<rparr>) = ''panic: y''"
  by (simp_all add: dump_def demo_cdir_def demo_ccfg_def defaultCrashConfig_def Let_def)

theorem crash_report_once_witness:
  "\<exists>fs' r. ReportPendingCrashes demo_cenv (Some (demo_ccfg, 1)) (demo_cdir, []) = Some (None, fs', [r]) \<and> Raw r = ''panic: y''"
  using crash_report_once [OF demo_cenv_ok demo_upload demo_distinct demo_pending [symmetric] demo_dump(1) [symmetric], of "[]"] demo_dump(2)
  by fastforce

theorem same_pid_never_reported_witness:
  "\<exists>e fs' w'. ReportPendingCrashes demo_cenv (Some (demo_ccfg, 1)) (demo_cdir, []) = Some (e, fs', w') \<and>
     map_of fs' ''1-a.crash'' = Some \<lparr>fdata = ''panic: x'', fmtime = 0\<rparr>"
proof -
  have "map_of demo_cdir ''7-b.crash'' = Some \<lparr>fdata = ''panic: y'', fmtime = 0\<rparr>" by (simp add: demo_cdir_def)
  from report_file_ok [OF demo_cenv_ok demo_upload this]
  obtain err fs' w' where run: "ReportPendingCrashes demo_cenv (Some (demo_ccfg, 1)) (demo_cdir, []) = Some (err, fs', w')"
    using demo_pending demo_cenv_ok by (simp add: ReportPendingCrashes_def no_io_errors_def)
  have i: "in_int64 1" by (simp add: in_int64_def int64_min_def int64_max_def)
  from same_pid_never_reported [OF _ i run, of "''a''"]
  have "map_of fs' ''1-a.crash'' = map_of demo_cdir ''1-a.crash''" by (simp add: demo_names)
  then show ?thesis using run by (intro exI [of _ err] exI [of _ fs'] exI [of _ w']) (simp add: demo_cdir_def)
qed

end
