(* ===== verification/Coroutines.thy ===== *)
theory Coroutines
  imports Go_Errors "HOL-Library.Multiset"
begin

text \<open>
  \<^verbatim>\<open>common/coroutines/coroutines.go\<close>: recovering from panics, retrying, and a fixed number of workers
  that share a channel (\<^verbatim>\<open>ConcurrentProcessor\<close>, \<^verbatim>\<open>ConcurrentProcessorChan\<close>), which is also the engine of
  \<^verbatim>\<open>provider/message/asyncSender\<close>.

  The workers are a step relation: every interleaving of the caller, the workers and the end of the
  context is a run.
\<close>

section \<open>Recovering\<close>

datatype 'd panic_value = PanicError "'d perr" | PanicOther string

text \<open>The error that is reported for a recovered value; \<open>dump\<close> is the text of \<^verbatim>\<open>debug.Stack()\<close>.\<close>

definition recovered_error :: "stack \<Rightarrow> string \<Rightarrow> 'd panic_value \<Rightarrow> 'd perr" where
  "recovered_error st dump r =
     WithMessage (''stack:'' @ newline @ dump)
       (case r of PanicError e \<Rightarrow> WithStack e st | PanicOther v \<Rightarrow> Fundamental (''panic: '' @ v) st)"

text \<open>\<open>F\<close> returns, or panics with a value; the reports so far are the state.\<close>

definition SafeFunc :: "stack \<Rightarrow> string \<Rightarrow> ('s \<Rightarrow> 'd panic_value option \<times> 's) \<Rightarrow> 's \<times> 'd perr list \<Rightarrow> 's \<times> 'd perr list" where
  "SafeFunc st dump F w =
     (case F (fst w) of
        (None, s1) \<Rightarrow> (s1, snd w)
      | (Some r, s1) \<Rightarrow> (s1, snd w @ [recovered_error st dump r]))"

section \<open>Retrying\<close>

text \<open>
  \<open>ctxErr ctx i\<close> and \<open>F i\<close> are what the context and the function say in round \<open>i\<close>.  The loop may run for
  ever: not returning is the value \<^term>\<open>None\<close>.  The result is the error returned, the rounds that called
  the function and the notifications.
\<close>

datatype retry_note = RetryErr goerr | RetryExceeded goerr

partial_function (option) retry_loop ::
    "ctx \<Rightarrow> (nat \<Rightarrow> goerr option) \<Rightarrow> int \<Rightarrow> int \<Rightarrow> nat \<Rightarrow> retry_note list
     \<Rightarrow> (goerr option \<times> nat \<times> retry_note list) option" where
  "retry_loop ctx F maxRetries retries i ns =
     (case ctxErr ctx i of
        Some e \<Rightarrow> Some (Some e, i, ns)
      | None \<Rightarrow>
          (case F i of
             None \<Rightarrow> Some (None, Suc i, ns)
           | Some err \<Rightarrow>
               let retries1 = wrap64 (retries + 1)
               in if maxRetries \<ge> 0 \<and> retries1 > maxRetries
                  then Some (Some err, Suc i, ns @ [RetryExceeded err])
                  else retry_loop ctx F maxRetries retries1 (Suc i) (ns @ [RetryErr err])))"

definition Retry :: "ctx \<Rightarrow> (nat \<Rightarrow> goerr option) \<Rightarrow> int list \<Rightarrow> (goerr option \<times> nat \<times> retry_note list) option" where
  "Retry ctx F counts = retry_loop ctx F (case counts of [] \<Rightarrow> - 1 | c # _ \<Rightarrow> c) 0 0 []"

section \<open>Workers\<close>

datatype 'a worker = Idle | Busy 'a | Exited

text \<open>
  \<open>left\<close> is what the sending side has not yet put into the channel \<open>buf\<close> of capacity \<open>cap\<close>; \<open>waiting\<close>
  says that the caller is in \<^verbatim>\<open>wg.Wait\<close>.  \<open>processed\<close> and \<open>crashed\<close> are the items whose processing
  returned and panicked.
\<close>

record 'a cp_state =
  left :: "'a list"
  buf :: "'a list"
  cap :: nat
  workers :: "'a worker list"
  sending :: bool
  closed :: bool
  waiting :: bool
  ctxDone :: bool
  returned :: bool
  processed :: "'a list"
  crashed :: "'a list"

text \<open>A negative limit panics in \<^verbatim>\<open>make\<close>.\<close>

definition ConcurrentProcessor :: "int \<Rightarrow> 'a list \<Rightarrow> 'a cp_state option" where
  "ConcurrentProcessor limit items =
     (if limit < 0 then None
      else Some \<lparr>left = items, buf = [], cap = nat limit, workers = replicate (nat limit) Idle, sending = True,
                 closed = False, waiting = False, ctxDone = False, returned = False, processed = [], crashed = []\<rparr>)"

text \<open>The version that is given a channel, which clients write and may close; it waits at once.\<close>

definition ConcurrentProcessorChan :: "int \<Rightarrow> nat \<Rightarrow> 'a list \<Rightarrow> 'a cp_state" where
  "ConcurrentProcessorChan limit capacity items =
     \<lparr>left = items, buf = [], cap = capacity, workers = replicate (nat limit) Idle, sending = True,
      closed = False, waiting = True, ctxDone = False, returned = False, processed = [], crashed = []\<rparr>"

text \<open>The asynchronous sender runs ten workers on its channel and never closes it.\<close>

definition NewAsyncSender :: "nat \<Rightarrow> 'a list \<Rightarrow> 'a cp_state" where
  "NewAsyncSender bufferSize messages = ConcurrentProcessorChan 10 bufferSize messages"

definition all_exited :: "'a cp_state \<Rightarrow> bool" where
  "all_exited s \<longleftrightarrow> list_all (\<lambda>w. w = Exited) (workers s)"

datatype cp_label = Main | Client | Worker | Panic | Cancel

inductive cp_step :: "cp_label \<Rightarrow> 'a cp_state \<Rightarrow> 'a cp_state \<Rightarrow> bool" where
  send: "sending s \<Longrightarrow> left s = x # xs \<Longrightarrow> length (buf s) < cap s \<Longrightarrow>
    cp_step Main s (s\<lparr>left := xs, buf := buf s @ [x]\<rparr>)"
| handoff: "sending s \<Longrightarrow> left s = x # xs \<Longrightarrow> buf s = [] \<Longrightarrow> i < length (workers s) \<Longrightarrow> workers s ! i = Idle \<Longrightarrow>
    cp_step Main s (s\<lparr>left := xs, workers := (workers s)[i := Busy x]\<rparr>)"
| close: "sending s \<Longrightarrow> \<not> waiting s \<Longrightarrow> left s = [] \<Longrightarrow>
    cp_step Main s (s\<lparr>sending := False, closed := True, waiting := True\<rparr>)"
| client_close: "sending s \<Longrightarrow> waiting s \<Longrightarrow> left s = [] \<Longrightarrow>
    cp_step Client s (s\<lparr>sending := False, closed := True\<rparr>)"
| give_up: "sending s \<Longrightarrow> \<not> waiting s \<Longrightarrow> ctxDone s \<Longrightarrow>
    cp_step Main s (s\<lparr>sending := False, closed := True, waiting := True\<rparr>)"
| return: "waiting s \<Longrightarrow> all_exited s \<Longrightarrow> \<not> returned s \<Longrightarrow> cp_step Main s (s\<lparr>returned := True\<rparr>)"
| take: "i < length (workers s) \<Longrightarrow> workers s ! i = Idle \<Longrightarrow> buf s = x # xs \<Longrightarrow>
    cp_step Worker s (s\<lparr>buf := xs, workers := (workers s)[i := Busy x]\<rparr>)"
| finish: "i < length (workers s) \<Longrightarrow> workers s ! i = Busy x \<Longrightarrow>
    cp_step Worker s (s\<lparr>workers := (workers s)[i := Idle], processed := processed s @ [x]\<rparr>)"
| drained: "i < length (workers s) \<Longrightarrow> workers s ! i = Idle \<Longrightarrow> closed s \<Longrightarrow> buf s = [] \<Longrightarrow>
    cp_step Worker s (s\<lparr>workers := (workers s)[i := Exited]\<rparr>)"
| stopped: "i < length (workers s) \<Longrightarrow> workers s ! i = Idle \<Longrightarrow> ctxDone s \<Longrightarrow>
    cp_step Worker s (s\<lparr>workers := (workers s)[i := Exited]\<rparr>)"
| crash: "i < length (workers s) \<Longrightarrow> workers s ! i = Busy x \<Longrightarrow>
    cp_step Panic s (s\<lparr>workers := (workers s)[i := Exited], crashed := crashed s @ [x]\<rparr>)"
| cancel: "\<not> ctxDone s \<Longrightarrow> cp_step Cancel s (s\<lparr>ctxDone := True\<rparr>)"

text \<open>\<open>Client\<close> is the close of a channel by those who write it.\<close>

inductive cp_reach :: "'a cp_state \<Rightarrow> 'a cp_state \<Rightarrow> bool" for s0 where
  refl: "cp_reach s0 s0"
| step: "cp_reach s0 s \<Longrightarrow> cp_step l s s' \<Longrightarrow> cp_reach s0 s'"

section \<open>Termination of the retry loop\<close>

text \<open>Round \<open>i\<close> ends the loop.\<close>

definition ends :: "ctx \<Rightarrow> (nat \<Rightarrow> goerr option) \<Rightarrow> nat \<Rightarrow> bool" where
  "ends ctx F i \<longleftrightarrow> ctxErr ctx i \<noteq> None \<or> F i = None"

lemma wrap64_step: "in_int64 r \<Longrightarrow> r < int64_max \<Longrightarrow> wrap64 (r + 1) = r + 1"
  by (rule wrap64_id) (simp add: in_int64_def)

lemma retry_loop_ends:
  assumes "ends ctx F (i + k)"
  shows "\<exists>r. retry_loop ctx F maxRetries retries i ns = Some r"
  using assms
proof (induction k arbitrary: retries i ns)
  case 0
  then show ?case by (subst retry_loop.simps) (auto simp: ends_def Let_def split: option.splits)
next
  case (Suc k)
  show ?case by (subst retry_loop.simps) (use Suc in \<open>auto simp: Let_def split: option.splits\<close>)
qed

lemma retry_loop_exceeds:
  assumes "0 \<le> maxRetries" "in_int64 retries" "retries \<le> maxRetries" "maxRetries < int64_max"
  shows "\<exists>r. retry_loop ctx F maxRetries retries i ns = Some r"
  using assms(2,3)
proof (induction "nat (maxRetries - retries)" arbitrary: retries i ns)
  case 0
  then have "retries = maxRetries" using assms(1) by simp
  then have "wrap64 (retries + 1) = retries + 1" using 0 assms(4) by (intro wrap64_step) simp_all
  then show ?case using \<open>retries = maxRetries\<close> assms(1) by (subst retry_loop.simps) (auto simp: Let_def split: option.splits)
next
  case (Suc n)
  have w: "wrap64 (retries + 1) = retries + 1" using Suc.prems assms(4) by (intro wrap64_step) simp_all
  have "in_int64 (retries + 1)" using w wrap64_range [of "retries + 1"] by simp
  then have "\<exists>r. retry_loop ctx F maxRetries (retries + 1) (Suc i) ms = Some r" for ms
    using Suc.hyps(2) by (intro Suc.hyps(1)) simp_all
  then show ?case by (subst retry_loop.simps) (auto simp: w Let_def split: option.splits)
qed

lemma retry_loop_returns:
  assumes "retry_loop ctx F maxRetries retries i ns = Some r"
  shows "(\<exists>k\<ge>i. ends ctx F k) \<or> 0 \<le> maxRetries \<and> maxRetries < int64_max"
proof (rule retry_loop.raw_induct
    [where P = "\<lambda>ctx F maxRetries retries i ns r. (\<exists>k\<ge>i. ends ctx F k) \<or> 0 \<le> maxRetries \<and> maxRetries < int64_max",
     OF _ assms], goal_cases)
  case (1 retry_loop ctx F maxRetries retries i ns r)
  have lt: "wrap64 x > maxRetries \<Longrightarrow> maxRetries < int64_max" for x using wrap64_range [of x] by (simp add: in_int64_def)
  show ?case
  proof (cases "ends ctx F i")
    case True
    then show ?thesis by blast
  next
    case False
    then obtain err where F: "ctxErr ctx i = None" "F i = Some err" by (auto simp: ends_def)
    show ?thesis
    proof (cases "maxRetries \<ge> 0 \<and> wrap64 (retries + 1) > maxRetries")
      case True
      then show ?thesis using lt [of "retries + 1"] by simp
    next
      case False
      then have "retry_loop ctx F maxRetries (wrap64 (retries + 1)) (Suc i) (ns @ [RetryErr err]) = Some r"
        using 1(2) F by (simp only: option.case Let_def if_False)
      from 1(1) [OF this] show ?thesis by (auto dest: Suc_leD)
    qed
  qed
qed

text \<open>
  Termination: \<^verbatim>\<open>Retry\<close> returns exactly if a limit is given (below the largest integer) or the
  context ends or the function succeeds at some time; otherwise it runs for ever.
\<close>

theorem Retry_terminates_iff:
  assumes "\<And>c cs. counts = c # cs \<Longrightarrow> in_int64 c"
  shows "(\<exists>r. Retry ctx F counts = Some r) \<longleftrightarrow>
    (\<exists>k. ctxErr ctx k \<noteq> None \<or> F k = None) \<or> (\<exists>c cs. counts = c # cs \<and> 0 \<le> c \<and> c < int64_max)"
proof -
  let ?m = "case counts of [] \<Rightarrow> - 1 | c # _ \<Rightarrow> c"
  have m: "(0 \<le> ?m \<and> ?m < int64_max) \<longleftrightarrow> (\<exists>c cs. counts = c # cs \<and> 0 \<le> c \<and> c < int64_max)" by (cases counts) auto
  have "in_int64 0" by (simp add: in_int64_def int64_min_def int64_max_def)
  then have "0 \<le> ?m \<and> ?m < int64_max \<Longrightarrow> \<exists>r. Retry ctx F counts = Some r"
    unfolding Retry_def by (intro retry_loop_exceeds) simp_all
  moreover have "ends ctx F k \<Longrightarrow> \<exists>r. Retry ctx F counts = Some r" for k
    unfolding Retry_def using retry_loop_ends [of ctx F 0 k] by simp
  moreover have "Retry ctx F counts = Some r \<Longrightarrow> (\<exists>k. ends ctx F k) \<or> 0 \<le> ?m \<and> ?m < int64_max" for r
    unfolding Retry_def using retry_loop_returns by blast
  ultimately show ?thesis unfolding m [symmetric] ends_def [symmetric] by blast
qed

theorem Retry_terminates_iff_witness:
  "(\<exists>r. Retry Background (\<lambda>_. Some Canceled) [3] = Some r) \<and> \<not> (\<exists>r. Retry Background (\<lambda>_. Some Canceled) [] = Some r)"
  using Retry_terminates_iff [of "[3]" Background "\<lambda>_. Some Canceled"] Retry_terminates_iff [of "[]" Background "\<lambda>_. Some Canceled"]
  by (auto simp: in_int64_def int64_min_def int64_max_def Background_def)

section \<open>Where the items are\<close>

fun load :: "'a worker \<Rightarrow> 'a list" where
  "load (Busy x) = [x]"
| "load _ = []"

definition busy :: "'a cp_state \<Rightarrow> 'a multiset" where
  "busy s = mset (concat (map load (workers s)))"

definition exits :: "'a worker list \<Rightarrow> nat" where
  "exits ws = length (filter (\<lambda>w. w = Exited) ws)"

lemma busy_update:
  "i < length ws \<Longrightarrow> ws ! i = w \<Longrightarrow>
     mset (concat (map load (ws[i := v]))) + mset (load w) = mset (concat (map load ws)) + mset (load v)"
proof (induction ws arbitrary: i)
  case (Cons a ws)
  then show ?case by (cases i) (auto simp: ac_simps)
qed simp

lemma exits_update:
  "i < length ws \<Longrightarrow> ws ! i \<noteq> Exited \<Longrightarrow> exits (ws[i := v]) = exits ws + (if v = Exited then 1 else 0)"
proof (induction ws arbitrary: i)
  case (Cons a ws)
  then show ?case by (cases i) (auto simp: exits_def)
qed simp

lemma exits_le: "exits ws \<le> length ws"
  by (simp add: exits_def)

lemma length_filter_all: "length (filter P xs) = length xs \<longleftrightarrow> list_all P xs"
proof (induction xs)
  case (Cons x xs)
  have "length (filter P xs) \<noteq> Suc (length xs)" using length_filter_le [of P xs] by linarith
  then show ?case using Cons by auto
qed simp

lemma all_exited_exits: "all_exited s \<longleftrightarrow> exits (workers s) = length (workers s)"
  by (simp add: all_exited_def exits_def length_filter_all)

lemma all_exited_busy: "all_exited s \<Longrightarrow> busy s = {#}"
  unfolding all_exited_def busy_def by (auto simp: list_all_iff)

definition cp_inv :: "'a list \<Rightarrow> nat \<Rightarrow> 'a cp_state \<Rightarrow> bool" where
  "cp_inv items n s \<longleftrightarrow>
     mset items = mset (processed s) + mset (crashed s) + busy s + mset (buf s) + mset (left s) \<and>
     length (workers s) = n \<and> length (buf s) \<le> cap s \<and> closed s = (\<not> sending s) \<and>
     (closed s \<longrightarrow> waiting s) \<and> (closed s \<and> \<not> ctxDone s \<longrightarrow> left s = []) \<and>
     length (crashed s) \<le> exits (workers s) \<and>
     (length (crashed s) < exits (workers s) \<and> \<not> ctxDone s \<longrightarrow> closed s \<and> buf s = []) \<and>
     (returned s \<longrightarrow> all_exited s \<and> waiting s)"

lemma cp_inv_step:
  assumes "cp_inv items n s" "cp_step l s s'"
  shows "cp_inv items n s'"
  using assms(2)
proof cases
  case (send x xs)
  then show ?thesis using assms(1) by (auto simp: cp_inv_def busy_def all_exited_def)
next
  case (handoff x xs i)
  then have "i < length (workers s)" "\<not> returned s" using assms(1) by (auto simp: cp_inv_def all_exited_def list_all_length)
  then show ?thesis using handoff assms(1) busy_update [of i "workers s" Idle "Busy x"] exits_update [of i "workers s" "Busy x"]
    by (auto simp: cp_inv_def busy_def ac_simps)
next
  case close
  then show ?thesis using assms(1) by (auto simp: cp_inv_def busy_def all_exited_def)
next
  case client_close
  then show ?thesis using assms(1) by (auto simp: cp_inv_def busy_def all_exited_def)
next
  case give_up
  then show ?thesis using assms(1) by (auto simp: cp_inv_def busy_def all_exited_def)
next
  case return
  then show ?thesis using assms(1) by (auto simp: cp_inv_def busy_def all_exited_def)
next
  case (take i x xs)
  then have "\<not> returned s" using assms(1) by (auto simp: cp_inv_def all_exited_def list_all_length)
  then show ?thesis using take assms(1) busy_update [of i "workers s" Idle "Busy x"] exits_update [of i "workers s" "Busy x"]
    by (auto simp: cp_inv_def busy_def ac_simps)
next
  case (finish i x)
  then have "\<not> returned s" using assms(1) by (auto simp: cp_inv_def all_exited_def list_all_length)
  then show ?thesis using finish assms(1) busy_update [of i "workers s" "Busy x" Idle] exits_update [of i "workers s" Idle]
    by (auto simp: cp_inv_def busy_def ac_simps)
next
  case (drained i)
  then have "\<not> returned s" using assms(1) by (auto simp: cp_inv_def all_exited_def list_all_length)
  then show ?thesis using drained assms(1) busy_update [of i "workers s" Idle Exited] exits_update [of i "workers s" Exited]
    by (auto simp: cp_inv_def busy_def)
next
  case (stopped i)
  then have "\<not> returned s" using assms(1) by (auto simp: cp_inv_def all_exited_def list_all_length)
  then show ?thesis using stopped assms(1) busy_update [of i "workers s" Idle Exited] exits_update [of i "workers s" Exited]
    by (auto simp: cp_inv_def busy_def)
next
  case (crash i x)
  then have "\<not> returned s" using assms(1) by (auto simp: cp_inv_def all_exited_def list_all_length)
  then show ?thesis using crash assms(1) busy_update [of i "workers s" "Busy x" Exited] exits_update [of i "workers s" Exited]
    by (auto simp: cp_inv_def busy_def ac_simps)
next
  case cancel
  then show ?thesis using assms(1) by (auto simp: cp_inv_def busy_def all_exited_def)
qed

lemma cp_inv_reach: "cp_reach s0 s \<Longrightarrow> cp_inv items n s0 \<Longrightarrow> cp_inv items n s"
  by (induction rule: cp_reach.induct) (auto intro: cp_inv_step)

lemma ConcurrentProcessor_inv:
  assumes "ConcurrentProcessor limit items = Some s0"
  shows "cp_inv items (nat limit) s0" "sending s0" "\<not> waiting s0" "cap s0 = nat limit" "0 \<le> limit"
proof -
  have z: "concat (map load (replicate n Idle)) = []" "exits (replicate n Idle) = 0" for n
    by (induction n) (simp_all add: exits_def)
  show "cp_inv items (nat limit) s0" "sending s0" "\<not> waiting s0" "cap s0 = nat limit" "0 \<le> limit"
    using assms by (auto simp: ConcurrentProcessor_def cp_inv_def busy_def z split: if_splits)
qed

lemma ConcurrentProcessorChan_inv: "cp_inv items (nat limit) (ConcurrentProcessorChan limit capacity items)"
proof -
  have "concat (map load (replicate n Idle)) = []" "exits (replicate n Idle) = 0" for n
    by (induction n) (simp_all add: exits_def)
  then show ?thesis by (simp add: ConcurrentProcessorChan_def cp_inv_def busy_def)
qed


section \<open>Progress\<close>

fun weight :: "'a worker \<Rightarrow> nat" where
  "weight Idle = 1"
| "weight (Busy x) = 2"
| "weight Exited = 0"

definition cp_measure :: "'a cp_state \<Rightarrow> nat" where
  "cp_measure s = 3 * length (left s) + 2 * length (buf s) + sum_list (map weight (workers s)) +
     of_bool (sending s) + of_bool (\<not> returned s) + of_bool (\<not> ctxDone s)"

lemma weight_update:
  "i < length ws \<Longrightarrow> ws ! i = w \<Longrightarrow> sum_list (map weight (ws[i := v])) + weight w = sum_list (map weight ws) + weight v"
proof (induction ws arbitrary: i)
  case (Cons a ws)
  then show ?case by (cases i) auto
qed simp

lemma cp_step_measure: "cp_step l s s' \<Longrightarrow> cp_measure s' < cp_measure s"
proof (induction rule: cp_step.induct)
  case (handoff s x xs i)
  then show ?case using weight_update [of i "workers s" Idle "Busy x"] by (simp add: cp_measure_def)
next
  case (take i s x xs)
  then show ?case using weight_update [of i "workers s" Idle "Busy x"] by (simp add: cp_measure_def)
next
  case (finish i s x)
  then show ?case using weight_update [of i "workers s" "Busy x" Idle] by (simp add: cp_measure_def)
next
  case (drained i s)
  then show ?case using weight_update [of i "workers s" Idle Exited] by (simp add: cp_measure_def)
next
  case (stopped i s)
  then show ?case using weight_update [of i "workers s" Idle Exited] by (simp add: cp_measure_def)
next
  case (crash i s x)
  then show ?case using weight_update [of i "workers s" "Busy x" Exited] by (simp add: cp_measure_def)
qed (simp_all add: cp_measure_def)

lemma own_waiting:
  assumes "cp_step l s s'" "closed s = (\<not> sending s)" "waiting s \<longleftrightarrow> \<not> sending s"
  shows "waiting s' \<longleftrightarrow> \<not> sending s'"
  using assms by cases auto

lemma cp_cap: "cp_step l s s' \<Longrightarrow> cap s' = cap s"
  by (erule cp_step.cases) simp_all

lemma own_reach:
  assumes "cp_reach s0 s" "cp_inv items n s0" "waiting s0 \<longleftrightarrow> \<not> sending s0"
  shows "(waiting s \<longleftrightarrow> \<not> sending s) \<and> cap s = cap s0"
  using assms
proof (induction rule: cp_reach.induct)
  case (step s l s')
  then have IH: "(waiting s \<longleftrightarrow> \<not> sending s) \<and> cap s = cap s0" by blast
  have "cp_inv items n s" using cp_inv_reach [OF step.hyps(1) step.prems(1)] .
  then have "closed s = (\<not> sending s)" by (simp add: cp_inv_def)
  then show ?case using IH own_waiting [OF step.hyps(2)] cp_cap [OF step.hyps(2)] by simp
qed simp

lemma can_step:
  assumes "cp_step l s s'" "l = Main \<or> l = Worker"
  shows "\<exists>l s'. l \<in> {Main, Worker} \<and> cp_step l s s'"
  using assms by (intro exI [of _ l] exI [of _ s']) simp

text \<open>While a worker is idle, or all have ended without a crash of each, there is a step to make.\<close>

lemma idle_moves:
  assumes "cp_inv items n s" "waiting s \<longleftrightarrow> \<not> sending s" "0 < cap s" "i < length (workers s)" "workers s ! i = Idle"
  shows "\<exists>l s'. l \<in> {Main, Worker} \<and> cp_step l s s'"
proof (cases "buf s")
  case Nil
  show ?thesis
  proof (cases "sending s")
    case False
    then have "closed s" using assms(1) by (simp add: cp_inv_def)
    then show ?thesis using can_step [OF cp_step.drained [OF assms(4,5) _ Nil]] by simp
  next
    case True
    then have "\<not> waiting s" using assms(2) by simp
    then show ?thesis using can_step [OF cp_step.close [OF True]] can_step [OF cp_step.send [OF True]] assms(3) Nil
      by (cases "left s") simp_all
  qed
next
  case Cons
  then show ?thesis using can_step [OF cp_step.take [OF assms(4,5)]] by simp
qed

lemma exited_moves:
  assumes "cp_inv items n s" "waiting s \<longleftrightarrow> \<not> sending s" "length (crashed s) < n" "all_exited s"
  shows "returned s \<or> (\<exists>l s'. l \<in> {Main, Worker} \<and> cp_step l s s')"
proof -
  have "length (crashed s) < exits (workers s)" using assms(1,3,4) by (simp add: cp_inv_def all_exited_exits)
  then have "ctxDone s \<or> closed s" using assms(1) by (auto simp: cp_inv_def)
  moreover have "closed s = (\<not> sending s)" using assms(1) by (simp add: cp_inv_def)
  ultimately consider "waiting s" | "sending s" "\<not> waiting s" "ctxDone s" using assms(2) by blast
  then show ?thesis
  proof cases
    case 1
    then show ?thesis using can_step [OF cp_step.return [OF 1 assms(4)]] by auto
  next
    case 2
    then show ?thesis using can_step [OF cp_step.give_up] by auto
  qed
qed

text \<open>
  C16. \<^verbatim>\<open>ConcurrentProcessor\<close> returns: with a positive limit and at least one worker not lost to a panic,
  the caller or a worker can always make a step until the call has returned, and every step of
  anyone, panics and the end of the context included, brings the end nearer.
\<close>

theorem processor_returns:
  assumes "ConcurrentProcessor limit items = Some s0" "0 < limit" "cp_reach s0 s" "length (crashed s) < nat limit"
  shows "(returned s \<or> (\<exists>l s'. l \<in> {Main, Worker} \<and> cp_step l s s')) \<and>
    (\<forall>l s'. cp_step l s s' \<longrightarrow> cp_measure s' < cp_measure s)"
proof (intro conjI allI impI cp_step_measure)
  note init = ConcurrentProcessor_inv [OF assms(1)]
  have inv: "cp_inv items (nat limit) s" using cp_inv_reach [OF assms(3)] init(1) by blast
  have own: "waiting s \<longleftrightarrow> \<not> sending s" "0 < cap s" using own_reach [OF assms(3) init(1)] init assms(2) by simp_all
  show "returned s \<or> (\<exists>l s'. l \<in> {Main, Worker} \<and> cp_step l s s')"
  proof (cases "all_exited s")
    case True
    then show ?thesis by (rule exited_moves [OF inv own(1) assms(4)])
  next
    case False
    then obtain i where i: "i < length (workers s)" "workers s ! i \<noteq> Exited" by (auto simp: all_exited_def list_all_length)
    then show ?thesis using can_step [OF cp_step.finish [OF i(1)]] idle_moves [OF inv own i(1)] by (cases "workers s ! i") auto
  qed
qed

section \<open>Lost workers\<close>

text \<open>No worker is left, and more is to be sent than the channel can take.\<close>

definition cp_stuck :: "'a cp_state \<Rightarrow> bool" where
  "cp_stuck s \<longleftrightarrow> all_exited s \<and> sending s \<and> \<not> ctxDone s \<and> cap s < length (left s) + length (buf s) \<and> length (buf s) \<le> cap s"

lemma cp_stuck_step:
  assumes "cp_stuck s" "cp_step l s s'" "l \<noteq> Cancel"
  shows "cp_stuck s' \<and> processed s' = processed s \<and> waiting s' = waiting s \<and> (returned s' \<longrightarrow> returned s \<or> waiting s)"
  using assms(2,1,3)
proof cases
  case (handoff x xs i)
  then show ?thesis using assms(1) by (auto simp: cp_stuck_def all_exited_def list_all_length)
next
  case (take i x xs)
  then show ?thesis using assms(1) by (auto simp: cp_stuck_def all_exited_def list_all_length)
next
  case (finish i x)
  then show ?thesis using assms(1) by (auto simp: cp_stuck_def all_exited_def list_all_length)
next
  case (drained i)
  then show ?thesis using assms(1) by (auto simp: cp_stuck_def all_exited_def list_all_length)
next
  case (stopped i)
  then show ?thesis using assms(1) by (auto simp: cp_stuck_def all_exited_def list_all_length)
next
  case (crash i x)
  then show ?thesis using assms(1) by (auto simp: cp_stuck_def all_exited_def list_all_length)
qed (auto simp: cp_stuck_def all_exited_def)

inductive cp_run :: "'a cp_state \<Rightarrow> 'a cp_state \<Rightarrow> bool" for s0 where
  stay: "cp_run s0 s0"
| go: "cp_run s0 s \<Longrightarrow> cp_step l s s' \<Longrightarrow> l \<noteq> Cancel \<Longrightarrow> cp_run s0 s'"

text \<open>
  A panic costs a worker for good, and without workers the sending side hangs: once every worker is
  gone and more is to be sent than the channel holds, then as long as the context does not end nothing
  is processed any more, something always remains unsent, and \<^verbatim>\<open>ConcurrentProcessor\<close> never returns.  For
  the asynchronous message sender, whose context never ends, this is after ten panics.
\<close>

theorem lost_workers_hang:
  assumes "cp_stuck s" "cp_run s s'"
  shows "left s' \<noteq> [] \<and> processed s' = processed s \<and> (\<not> waiting s \<and> \<not> returned s \<longrightarrow> \<not> returned s')"
proof -
  have "cp_stuck s' \<and> processed s' = processed s \<and> waiting s' = waiting s \<and> (returned s' \<longrightarrow> returned s \<or> waiting s)"
    using assms(2,1)
  proof (induction rule: cp_run.induct)
    case (go s1 l s2)
    then show ?case using cp_stuck_step [OF _ go.hyps(2,3)] by auto
  qed simp
  then show ?thesis by (auto simp: cp_stuck_def)
qed

text \<open>One worker, three items, the first panics: the caller hangs.\<close>

definition demo_cp :: "nat cp_state" where
  "demo_cp = \<lparr>left = [3], buf = [2], cap = 1, workers = [Exited], sending = True, closed = False, waiting = False,
     ctxDone = False, returned = False, processed = [], crashed = [1]\<rparr>"

lemma demo_cp_reach: "\<exists>s0. ConcurrentProcessor 1 [1, 2, 3] = Some s0 \<and> cp_reach s0 demo_cp"
proof -
  define s0 :: "nat cp_state" where
    "s0 = \<lparr>left = [1, 2, 3], buf = [], cap = 1, workers = [Idle], sending = True, closed = False, waiting = False,
       ctxDone = False, returned = False, processed = [], crashed = []\<rparr>"
  define s1 where "s1 = s0\<lparr>left := [2, 3], workers := [Busy 1]\<rparr>"
  define s2 where "s2 = s1\<lparr>workers := [Exited], crashed := [1]\<rparr>"
  have "cp_step Main s0 s1" using cp_step.handoff [of s0 1 "[2, 3]" 0] by (simp add: s0_def s1_def)
  moreover have "cp_step Panic s1 s2" using cp_step.crash [of 0 s1 1] by (simp add: s0_def s1_def s2_def)
  moreover have "cp_step Main s2 demo_cp" using cp_step.send [of s2 2 "[3]"] by (simp add: s0_def s1_def s2_def demo_cp_def)
  ultimately have "cp_reach s0 demo_cp" by (meson cp_reach.refl cp_reach.step)
  moreover have "ConcurrentProcessor 1 [1, 2, 3] = Some s0" by (simp add: ConcurrentProcessor_def s0_def)
  ultimately show ?thesis by blast
qed

theorem lost_workers_hang_witness: "cp_stuck demo_cp \<and> left demo_cp \<noteq> [] \<and> \<not> returned demo_cp"
proof -
  have s: "cp_stuck demo_cp" by (simp add: cp_stuck_def demo_cp_def all_exited_def)
  show ?thesis using lost_workers_hang [OF s cp_run.stay] s by (simp add: demo_cp_def)
qed

theorem processor_returns_witness:
  "\<exists>s0. ConcurrentProcessor 2 [5 :: nat] = Some s0 \<and> (\<exists>l s'. l \<in> {Main, Worker} \<and> cp_step l s0 s')"
proof -
  obtain s0 :: "nat cp_state" where s0: "ConcurrentProcessor 2 [5] = Some s0" by (simp add: ConcurrentProcessor_def)
  then have "crashed s0 = []" "\<not> returned s0" by (auto simp: ConcurrentProcessor_def)
  then show ?thesis using processor_returns [OF s0 _ cp_reach.refl] s0 by auto
qed

lemma demo_empty_run:
  "\<exists>s0 s. ConcurrentProcessor 1 ([] :: nat list) = Some s0 \<and> cp_reach s0 s \<and> returned s \<and> \<not> ctxDone s \<and> crashed s = []"
proof -
  define s0 :: "nat cp_state" where
    "s0 = \<lparr>left = [], buf = [], cap = 1, workers = [Idle], sending = True, closed = False, waiting = False,
       ctxDone = False, returned = False, processed = [], crashed = []\<rparr>"
  define s1 where "s1 = s0\<lparr>sending := False, closed := True, waiting := True\<rparr>"
  define s2 where "s2 = s1\<lparr>workers := [Exited]\<rparr>"
  have "cp_step Main s0 s1" using cp_step.close [of s0] by (simp add: s0_def s1_def)
  moreover have "cp_step Worker s1 s2" using cp_step.drained [of 0 s1] by (simp add: s0_def s1_def s2_def)
  moreover have "cp_step Main s2 (s2\<lparr>returned := True\<rparr>)"
    using cp_step.return [of s2] by (simp add: s0_def s1_def s2_def all_exited_def)
  ultimately have "cp_reach s0 (s2\<lparr>returned := True\<rparr>)" by (meson cp_reach.refl cp_reach.step)
  moreover have "ConcurrentProcessor 1 [] = Some s0" by (simp add: ConcurrentProcessor_def s0_def)
  ultimately show ?thesis by (intro exI [of _ s0] exI [of _ "s2\<lparr>returned := True\<rparr>"]) (simp add: s0_def s1_def s2_def)
qed


end
