(* ===== verification/Safe_Chan.thy ===== *)
theory Safe_Chan
  imports Main
begin

text \<open>
  \<^verbatim>\<open>common/utils/channel.go\<close>: \<^verbatim>\<open>SafeChan\<close>, a channel that may be closed while others send, and
  \<^verbatim>\<open>SafeCloser\<close>; and the deprecated \<^verbatim>\<open>SafeCloseChan\<close> of \<^verbatim>\<open>common/coroutines\<close>.

  The calls of any number of goroutines are a step relation.  A sender holds the read lock while it is
  in its \<^verbatim>\<open>select\<close>; \<^verbatim>\<open>Close\<close> announces itself, which keeps new readers out, waits until no reader is
  left and then runs alone.
\<close>

section \<open>The channel and its callers\<close>

text \<open>
  Where a call is: before the lock, in the \<^verbatim>\<open>select\<close> (with or without a timer), \<^verbatim>\<open>Close\<close> before and
  after it announced itself, or returned with its answer.
\<close>

datatype 'a scall =
    SendWant 'a bool
  | SendSelect 'a bool
  | TryWant 'a
  | CloseWant
  | CloseAnnounced
  | CallReturned bool
  | CallPanicked

text \<open>\<open>accepted\<close> and \<open>received\<close> are what went into and came out of the channel so far.\<close>

record 'a SafeChan =
  chBuf :: "'a list"
  chCap :: nat
  chClosed :: bool
  doneClosed :: bool
  isClosed :: bool
  callers :: "nat \<Rightarrow> 'a scall option"
  accepted :: "'a list"
  received :: "'a list"

definition NewSafeChan :: "nat \<Rightarrow> 'a SafeChan" where
  "NewSafeChan buffer =
     \<lparr>chBuf = [], chCap = buffer, chClosed = False, doneClosed = False, isClosed = False, callers = (\<lambda>_. None),
      accepted = [], received = []\<rparr>"

definition NewFromChan :: "'a list \<Rightarrow> nat \<Rightarrow> bool \<Rightarrow> 'a SafeChan" where
  "NewFromChan b c cl =
     \<lparr>chBuf = b, chCap = c, chClosed = cl, doneClosed = False, isClosed = False, callers = (\<lambda>_. None),
      accepted = b, received = []\<rparr>"

definition IsClosed :: "'a SafeChan \<Rightarrow> bool" where
  "IsClosed s \<longleftrightarrow> isClosed s"

text \<open>A reader gets the lock unless a \<^verbatim>\<open>Close\<close> has announced itself; \<^verbatim>\<open>Close\<close> gets it when no reader has it.\<close>

definition can_rlock :: "'a SafeChan \<Rightarrow> bool" where
  "can_rlock s \<longleftrightarrow> (\<forall>t. callers s t \<noteq> Some CloseAnnounced)"

definition no_readers :: "'a SafeChan \<Rightarrow> bool" where
  "no_readers s \<longleftrightarrow> (\<forall>t v tm. callers s t \<noteq> Some (SendSelect v tm))"

text \<open>The body of \<^verbatim>\<open>Close\<close>; closing a closed channel panics.\<close>

definition SafeChan_Close :: "nat \<Rightarrow> 'a SafeChan \<Rightarrow> 'a SafeChan" where
  "SafeChan_Close t s =
     (if isClosed s then s\<lparr>callers := (callers s)(t \<mapsto> CallReturned False)\<rparr>
      else let s1 = s\<lparr>isClosed := True\<rparr>
           in if doneClosed s1 then s1\<lparr>callers := (callers s1)(t \<mapsto> CallPanicked)\<rparr>
              else let s2 = s1\<lparr>doneClosed := True\<rparr>
                   in if chClosed s2 then s2\<lparr>callers := (callers s2)(t \<mapsto> CallPanicked)\<rparr>
                      else s2\<lparr>chClosed := True, callers := (callers s2)(t \<mapsto> CallReturned True)\<rparr>)"

datatype chan_label = Caller | Timer | Receiver

inductive chan_step :: "chan_label \<Rightarrow> 'a SafeChan \<Rightarrow> 'a SafeChan \<Rightarrow> bool" where
  start_send: "callers s t = None \<Longrightarrow> chan_step Caller s (s\<lparr>callers := (callers s)(t \<mapsto> SendWant v tm)\<rparr>)"
| start_try: "callers s t = None \<Longrightarrow> chan_step Caller s (s\<lparr>callers := (callers s)(t \<mapsto> TryWant v)\<rparr>)"
| start_close: "callers s t = None \<Longrightarrow> chan_step Caller s (s\<lparr>callers := (callers s)(t \<mapsto> CloseWant)\<rparr>)"
| send_lock: "callers s t = Some (SendWant v tm) \<Longrightarrow> can_rlock s \<Longrightarrow>
    chan_step Caller s (s\<lparr>callers := (callers s)(t \<mapsto> (if isClosed s then CallReturned False else SendSelect v tm))\<rparr>)"
| send_panic: "callers s t = Some (SendSelect v tm) \<Longrightarrow> chClosed s \<Longrightarrow>
    chan_step Caller s (s\<lparr>callers := (callers s)(t \<mapsto> CallPanicked)\<rparr>)"
| send_value: "callers s t = Some (SendSelect v tm) \<Longrightarrow> \<not> chClosed s \<Longrightarrow> length (chBuf s) < chCap s \<Longrightarrow>
    chan_step Caller s (s\<lparr>chBuf := chBuf s @ [v], accepted := accepted s @ [v], callers := (callers s)(t \<mapsto> CallReturned True)\<rparr>)"
| send_done: "callers s t = Some (SendSelect v tm) \<Longrightarrow> doneClosed s \<Longrightarrow>
    chan_step Caller s (s\<lparr>callers := (callers s)(t \<mapsto> CallReturned False)\<rparr>)"
| send_timeout: "callers s t = Some (SendSelect v True) \<Longrightarrow>
    chan_step Timer s (s\<lparr>callers := (callers s)(t \<mapsto> CallReturned False)\<rparr>)"
| try_closed: "callers s t = Some (TryWant v) \<Longrightarrow> can_rlock s \<Longrightarrow> isClosed s \<Longrightarrow>
    chan_step Caller s (s\<lparr>callers := (callers s)(t \<mapsto> CallReturned False)\<rparr>)"
| try_panic: "callers s t = Some (TryWant v) \<Longrightarrow> can_rlock s \<Longrightarrow> \<not> isClosed s \<Longrightarrow> chClosed s \<Longrightarrow>
    chan_step Caller s (s\<lparr>callers := (callers s)(t \<mapsto> CallPanicked)\<rparr>)"
| try_value: "callers s t = Some (TryWant v) \<Longrightarrow> can_rlock s \<Longrightarrow> \<not> isClosed s \<Longrightarrow> \<not> chClosed s \<Longrightarrow> length (chBuf s) < chCap s \<Longrightarrow>
    chan_step Caller s (s\<lparr>chBuf := chBuf s @ [v], accepted := accepted s @ [v], callers := (callers s)(t \<mapsto> CallReturned True)\<rparr>)"
| try_full: "callers s t = Some (TryWant v) \<Longrightarrow> can_rlock s \<Longrightarrow> \<not> isClosed s \<Longrightarrow> \<not> chClosed s \<Longrightarrow> length (chBuf s) \<ge> chCap s \<Longrightarrow>
    chan_step Caller s (s\<lparr>callers := (callers s)(t \<mapsto> CallReturned False)\<rparr>)"
| close_announce: "callers s t = Some CloseWant \<Longrightarrow> chan_step Caller s (s\<lparr>callers := (callers s)(t \<mapsto> CloseAnnounced)\<rparr>)"
| close_run: "callers s t = Some CloseAnnounced \<Longrightarrow> no_readers s \<Longrightarrow> chan_step Caller s (SafeChan_Close t s)"
| receive: "chBuf s = v # vs \<Longrightarrow> chan_step Receiver s (s\<lparr>chBuf := vs, received := received s @ [v]\<rparr>)"
| handoff_send: "callers s t = Some (SendSelect v tm) \<Longrightarrow> \<not> chClosed s \<Longrightarrow> chBuf s = [] \<Longrightarrow>
    chan_step Receiver s (s\<lparr>accepted := accepted s @ [v], received := received s @ [v], callers := (callers s)(t \<mapsto> CallReturned True)\<rparr>)"
| handoff_try: "callers s t = Some (TryWant v) \<Longrightarrow> can_rlock s \<Longrightarrow> \<not> isClosed s \<Longrightarrow> \<not> chClosed s \<Longrightarrow> chBuf s = [] \<Longrightarrow>
    chan_step Receiver s (s\<lparr>accepted := accepted s @ [v], received := received s @ [v], callers := (callers s)(t \<mapsto> CallReturned True)\<rparr>)"

inductive chan_reach :: "'a SafeChan \<Rightarrow> 'a SafeChan \<Rightarrow> bool" for s0 where
  init: "chan_reach s0 s0"
| advance: "chan_reach s0 s \<Longrightarrow> chan_step l s s' \<Longrightarrow> chan_reach s0 s'"

section \<open>The other closers\<close>

record SafeCloser =
  scDone :: bool
  scClosed :: bool

definition NewSafeCloser :: SafeCloser where
  "NewSafeCloser = \<lparr>scDone = False, scClosed = False\<rparr>"

text \<open>\<^term>\<open>None\<close> is the panic of closing a closed channel.\<close>

definition SafeCloser_Close :: "SafeCloser \<Rightarrow> (bool \<times> SafeCloser) option" where
  "SafeCloser_Close s =
     (if scClosed s then Some (False, s)
      else let s1 = s\<lparr>scClosed := True\<rparr> in if scDone s1 then None else Some (True, s1\<lparr>scDone := True\<rparr>))"

text \<open>\<^verbatim>\<open>SafeCloseChan\<close> on a channel: its values and whether it is closed.\<close>

definition SafeCloseChan :: "'a list \<times> bool \<Rightarrow> ('a list \<times> bool) option" where
  "SafeCloseChan ch =
     (case ch of
        (v # vs, cl) \<Rightarrow> if cl then None else Some (vs, True)
      | ([], cl) \<Rightarrow> Some ([], True))"

section \<open>The invariant\<close>

definition chan_inv :: "'a SafeChan \<Rightarrow> bool" where
  "chan_inv s \<longleftrightarrow>
     chClosed s = isClosed s \<and> doneClosed s = isClosed s \<and> (isClosed s \<longrightarrow> no_readers s) \<and>
     accepted s = received s @ chBuf s \<and> length (chBuf s) \<le> chCap s \<and> (\<forall>t. callers s t \<noteq> Some CallPanicked)"

lemma chan_inv_step: "chan_step l s s' \<Longrightarrow> chan_inv s \<Longrightarrow> chan_inv s'"
proof (induction rule: chan_step.induct)
  case (send_panic s t v tm)
  then show ?case by (auto simp: chan_inv_def no_readers_def)
next
  case (close_run s t)
  then show ?case by (auto simp: chan_inv_def no_readers_def SafeChan_Close_def Let_def)
qed (auto simp: chan_inv_def no_readers_def)

lemma chan_inv_reach: "chan_reach s0 s \<Longrightarrow> chan_inv s0 \<Longrightarrow> chan_inv s"
  by (induction rule: chan_reach.induct) (auto intro: chan_inv_step)

lemma NewSafeChan_inv: "chan_inv (NewSafeChan n)"
  by (simp add: chan_inv_def NewSafeChan_def no_readers_def)

lemma NewFromChan_inv: "length b \<le> c \<Longrightarrow> chan_inv (NewFromChan b c False)"
  by (simp add: chan_inv_def NewFromChan_def no_readers_def)

text \<open>A closed channel stays closed and takes nothing.\<close>

lemma chan_step_closed:
  assumes "chan_inv s" "chan_step l s s'" "isClosed s"
  shows "isClosed s' \<and> accepted s' = accepted s"
  using assms(2,1,3) by cases (auto simp: SafeChan_Close_def chan_inv_def no_readers_def)

section \<open>Properties\<close>

text \<open>
  C17. Safety of \<^verbatim>\<open>SafeChan\<close>: under every interleaving of any number of \<^verbatim>\<open>Send\<close>, \<^verbatim>\<open>TrySend\<close> and \<^verbatim>\<open>Close\<close>
  calls and receivers no call panics; what is received is, in order, what was accepted, the rest is in
  the buffer within its capacity; and once it is closed no value is accepted any more.
\<close>

theorem safe_chan_safe:
  assumes "chan_reach (NewSafeChan n) s" "chan_reach s s'"
  shows "(\<forall>t. callers s t \<noteq> Some CallPanicked) \<and> accepted s = received s @ chBuf s \<and> length (chBuf s) \<le> chCap s \<and>
    (isClosed s \<longrightarrow> isClosed s' \<and> accepted s' = accepted s)"
proof -
  have inv: "chan_inv s" using chan_inv_reach [OF assms(1) NewSafeChan_inv] .
  have "isClosed s \<Longrightarrow> isClosed s' \<and> accepted s' = accepted s"
    using assms(2)
  proof (induction rule: chan_reach.induct)
    case (advance s1 l s2)
    then show ?case using chan_step_closed [OF chan_inv_reach [OF advance.hyps(1) inv] advance.hyps(2)] by simp
  qed simp
  then show ?thesis using inv by (simp add: chan_inv_def)
qed

text \<open>A sender without a timer is in its \<^verbatim>\<open>select\<close> on a full channel, and \<^verbatim>\<open>Close\<close> waits for it.\<close>

definition close_blocked :: "nat \<Rightarrow> nat \<Rightarrow> 'a \<Rightarrow> 'a SafeChan \<Rightarrow> bool" where
  "close_blocked t c v s \<longleftrightarrow>
     callers s t = Some (SendSelect v False) \<and> callers s c = Some CloseAnnounced \<and> chCap s \<le> length (chBuf s) \<and>
     \<not> chClosed s \<and> \<not> doneClosed s \<and> \<not> isClosed s"

lemma close_blocked_step:
  assumes "close_blocked t c v s" "chan_step l s s'" "l \<noteq> Receiver"
  shows "close_blocked t c v s'"
proof -
  have n: "\<not> no_readers s" "\<not> can_rlock s" using assms(1) by (auto simp: close_blocked_def no_readers_def can_rlock_def)
  show ?thesis using assms(2,1,3) n by cases (auto simp: close_blocked_def)
qed

inductive no_receive :: "'a SafeChan \<Rightarrow> 'a SafeChan \<Rightarrow> bool" for s0 where
  none: "no_receive s0 s0"
| more: "no_receive s0 s \<Longrightarrow> chan_step l s s' \<Longrightarrow> l \<noteq> Receiver \<Longrightarrow> no_receive s0 s'"

text \<open>
  \<^verbatim>\<open>Close\<close> does wait for a blocked sender: while a \<^verbatim>\<open>Send\<close> without a time limit blocks on a full
  channel, a call of \<^verbatim>\<open>Close\<close> returns only after somebody receives; until then the done signal is not
  raised, the channel stays open, and neither of the two calls comes back.
\<close>

theorem close_waits_for_sender:
  assumes "close_blocked t c v s" "no_receive s s'"
  shows "callers s' c = Some CloseAnnounced \<and> callers s' t = Some (SendSelect v False) \<and> \<not> doneClosed s' \<and> \<not> isClosed s'"
proof -
  have "close_blocked t c v s'" using assms(2,1)
  proof (induction rule: no_receive.induct)
    case (more s1 l s2)
    then show ?case using close_blocked_step [OF _ more.hyps(2,3)] by simp
  qed
  then show ?thesis by (simp add: close_blocked_def)
qed

section \<open>Witnesses\<close>

definition demo_chan :: "nat SafeChan" where
  "demo_chan = \<lparr>chBuf = [], chCap = 0, chClosed = False, doneClosed = False, isClosed = False,
     callers = [1 \<mapsto> SendSelect 5 False, 2 \<mapsto> CloseAnnounced], accepted = [], received = []\<rparr>"

lemma demo_chan_reach: "chan_reach (NewSafeChan 0) demo_chan"
proof -
  let ?s = "\<lambda>m. (NewSafeChan 0 :: nat SafeChan)\<lparr>callers := m\<rparr>"
  have "chan_step Caller (NewSafeChan 0) (?s [1 \<mapsto> SendWant 5 False])"
    using chan_step.start_send [of "NewSafeChan 0" 1 5 False] by (simp add: NewSafeChan_def)
  moreover have "chan_step Caller (?s [1 \<mapsto> SendWant 5 False]) (?s [1 \<mapsto> SendSelect 5 False])"
    using chan_step.send_lock [of "?s [1 \<mapsto> SendWant 5 False]" 1 5 False] by (simp add: NewSafeChan_def can_rlock_def)
  moreover have "chan_step Caller (?s [1 \<mapsto> SendSelect 5 False]) (?s [1 \<mapsto> SendSelect 5 False, 2 \<mapsto> CloseWant])"
    using chan_step.start_close [of "?s [1 \<mapsto> SendSelect 5 False]" 2] by (simp add: NewSafeChan_def)
  moreover have "chan_step Caller (?s [1 \<mapsto> SendSelect 5 False, 2 \<mapsto> CloseWant]) demo_chan"
    using chan_step.close_announce [of "?s [1 \<mapsto> SendSelect 5 False, 2 \<mapsto> CloseWant]" 2] by (simp add: NewSafeChan_def demo_chan_def)
  ultimately show ?thesis by (meson chan_reach.init chan_reach.advance)
qed

theorem safe_chan_safe_witness: "accepted demo_chan = received demo_chan @ chBuf demo_chan"
  using safe_chan_safe [OF demo_chan_reach chan_reach.init] by simp

theorem close_waits_for_sender_witness: "callers demo_chan 2 = Some CloseAnnounced \<and> \<not> isClosed demo_chan"
  using close_waits_for_sender [of 1 2 5 demo_chan, OF _ no_receive.none] by (simp add: close_blocked_def demo_chan_def)

end
