(* ===== verification/Gorm_Query.thy ===== *)
theory Gorm_Query
  imports Text_Utils
begin

text \<open>
  Query building of \<^verbatim>\<open>dao/gormDB\<close>: \<^verbatim>\<open>query.go\<close> (operators, conditions, paging, ordering) and
  \<^verbatim>\<open>filter.go\<close> (conditions from struct tags), with the paging and ordering requests of
  \<^verbatim>\<open>common/community/db.go\<close>.

  A \<^verbatim>\<open>*gorm.DB\<close> is the list of builder calls made on it, so that a theorem about it says what the
  package asks of GORM; nothing is assumed about the SQL that GORM makes of it.  A scope returns
  \<^term>\<open>None\<close> when it panics.
\<close>

section \<open>Values\<close>

text \<open>
  An \<^verbatim>\<open>any\<close> as far as the package looks at it: nil, a value of a type, a pointer, or a nil pointer with
  the type at the end of its chain.
\<close>

datatype ('f, 'j) fval =
    FNil
  | FVal gotype "('f, 'j) goval"
  | FPtr "('f, 'j) fval"
  | FNilPtr gotype

text \<open>
  Of the reflection on composite values: the length of slices and arrays, \<^verbatim>\<open>Value.IsZero\<close> of what is no
  integer, boolean or string, the zero value of a type, and the \<^verbatim>\<open>IsZero\<close> method of the types that have one.
\<close>

record ('f, 'j) q_lib =
  q_conv :: "('f, 'j) conv_lib"
  q_len :: "gotype \<Rightarrow> ('f, 'j) goval \<Rightarrow> nat option"
  q_zero :: "gotype \<Rightarrow> ('f, 'j) goval \<Rightarrow> bool"
  q_zeroOf :: "gotype \<Rightarrow> ('f, 'j) goval"
  q_isZeroer :: "gotype \<Rightarrow> (('f, 'j) goval \<Rightarrow> bool) option"

datatype ('f, 'j) dbcall =
    CWhere string "('f, 'j) fval list"
  | CWhereGroup "('f, 'j) dbcall list"
  | COr string "('f, 'j) fval list"
  | COrder string
  | CLimit int
  | COffset int
  | CUnscoped
  | CLocking string

type_synonym ('f, 'j) db = "('f, 'j) dbcall list"

type_synonym ('f, 'j) Scope = "('f, 'j) db \<Rightarrow> ('f, 'j) db option"

definition pure_scope :: "(('f, 'j) db \<Rightarrow> ('f, 'j) db) \<Rightarrow> ('f, 'j) Scope" where
  "pure_scope f d = Some (f d)"

section \<open>Operators\<close>

datatype Op = OpEq | OpNeq | OpLt | OpLte | OpGt | OpGte | OpIn | OpNotIn | OpLike | OpNotLike

fun Op_String :: "Op \<Rightarrow> string" where
  "Op_String OpEq = ''=''"
| "Op_String OpNeq = ''<>''"
| "Op_String OpLt = ''<''"
| "Op_String OpLte = ''<=''"
| "Op_String OpGt = ''>''"
| "Op_String OpGte = ''>=''"
| "Op_String OpIn = ''IN''"
| "Op_String OpNotIn = ''NOT IN''"
| "Op_String OpLike = ''LIKE''"
| "Op_String OpNotLike = ''NOT LIKE''"

definition isEmptySlice :: "('f, 'j) q_lib \<Rightarrow> ('f, 'j) fval \<Rightarrow> bool" where
  "isEmptySlice lib v = (case v of FVal t x \<Rightarrow> q_len lib t x = Some 0 | _ \<Rightarrow> False)"

definition escapeLike :: "string \<Rightarrow> string" where
  "escapeLike s =
     ReplaceAllC (ReplaceAllC (ReplaceAllC s backslash [backslash, backslash]) (CHR ''%'') [backslash, CHR ''%''])
       (CHR ''_'') [backslash, CHR ''_'']"

text \<open>A pointer prints as JSON of what it points to; after \<^verbatim>\<open>Deref\<close> there is none.\<close>

fun as_any :: "('f, 'j) fval \<Rightarrow> ('f, 'j) gany" where
  "as_any FNil = AnyNil"
| "as_any (FVal t x) = Any t x"
| "as_any (FPtr v) = (case as_any v of AnyNil \<Rightarrow> AnyNil | Any t x \<Rightarrow> Any \<lparr>named = False, kind = OfPtr (kind t)\<rparr> (VPtr x))"
| "as_any (FNilPtr t) = AnyNil"

definition toString :: "('f, 'j) q_lib \<Rightarrow> ('f, 'j) fval \<Rightarrow> string option" where
  "toString lib v =
     (case ToString (q_conv lib) (as_any v) of None \<Rightarrow> None | Some (Inl _) \<Rightarrow> Some [] | Some (Inr s) \<Rightarrow> Some s)"

definition like_arg :: "('f, 'j) q_lib \<Rightarrow> ('f, 'j) fval \<Rightarrow> ('f, 'j) fval option" where
  "like_arg lib v = map_option (\<lambda>s. FVal string_type (VString (''%'' @ escapeLike s @ ''%''))) (toString lib v)"

definition gWhere :: "string \<Rightarrow> ('f, 'j) fval list \<Rightarrow> ('f, 'j) db \<Rightarrow> ('f, 'j) db" where
  "gWhere query args d = d @ [CWhere query args]"

fun applyOp :: "('f, 'j) q_lib \<Rightarrow> ('f, 'j) db \<Rightarrow> string \<Rightarrow> Op \<Rightarrow> ('f, 'j) fval \<Rightarrow> ('f, 'j) db option" where
  "applyOp lib d col OpEq v = Some (gWhere (col @ '' = ?'') [v] d)"
| "applyOp lib d col OpNeq v = Some (gWhere (col @ '' <> ?'') [v] d)"
| "applyOp lib d col OpLt v = Some (gWhere (col @ '' < ?'') [v] d)"
| "applyOp lib d col OpLte v = Some (gWhere (col @ '' <= ?'') [v] d)"
| "applyOp lib d col OpGt v = Some (gWhere (col @ '' > ?'') [v] d)"
| "applyOp lib d col OpGte v = Some (gWhere (col @ '' >= ?'') [v] d)"
| "applyOp lib d col OpIn v = Some (if isEmptySlice lib v then d else gWhere (col @ '' IN ?'') [v] d)"
| "applyOp lib d col OpNotIn v = Some (if isEmptySlice lib v then d else gWhere (col @ '' NOT IN ?'') [v] d)"
| "applyOp lib d col OpLike v = map_option (\<lambda>a. gWhere (col @ '' LIKE ?'') [a] d) (like_arg lib v)"
| "applyOp lib d col OpNotLike v = map_option (\<lambda>a. gWhere (col @ '' NOT LIKE ?'') [a] d) (like_arg lib v)"

section \<open>Zero and nil\<close>

definition reflect_IsZero :: "('f, 'j) q_lib \<Rightarrow> gotype \<Rightarrow> ('f, 'j) goval \<Rightarrow> bool" where
  "reflect_IsZero lib t x =
     (case x of VInt i \<Rightarrow> i = 0 | VBool b \<Rightarrow> \<not> b | VString s \<Rightarrow> s = [] | _ \<Rightarrow> q_zero lib t x)"

fun isZeroValue :: "('f, 'j) q_lib \<Rightarrow> ('f, 'j) fval \<Rightarrow> bool" where
  "isZeroValue lib FNil = True"
| "isZeroValue lib (FNilPtr t) = True"
| "isZeroValue lib (FPtr v) = isZeroValue lib v"
| "isZeroValue lib (FVal t x) =
     (case q_isZeroer lib t of Some f \<Rightarrow> f x | None \<Rightarrow> reflect_IsZero lib t x)"

definition IsZero :: "('f, 'j) q_lib \<Rightarrow> ('f, 'j) fval \<Rightarrow> bool" where
  "IsZero lib v = isZeroValue lib v"

definition IsNilPtr :: "('f, 'j) fval \<Rightarrow> bool" where
  "IsNilPtr v = (case v of FNil \<Rightarrow> True | FNilPtr _ \<Rightarrow> True | _ \<Rightarrow> False)"

fun Deref :: "('f, 'j) fval \<Rightarrow> ('f, 'j) fval" where
  "Deref FNil = FNil"
| "Deref (FNilPtr t) = FNil"
| "Deref (FPtr v) = Deref v"
| "Deref (FVal t x) = FVal t x"

fun base_type :: "('f, 'j) fval \<Rightarrow> gotype option" where
  "base_type FNil = None"
| "base_type (FNilPtr t) = Some t"
| "base_type (FPtr v) = base_type v"
| "base_type (FVal t x) = Some t"

definition zeroOf :: "('f, 'j) q_lib \<Rightarrow> ('f, 'j) fval \<Rightarrow> ('f, 'j) fval" where
  "zeroOf lib v = (case base_type v of None \<Rightarrow> FNil | Some t \<Rightarrow> FVal t (q_zeroOf lib t))"

section \<open>Conditions\<close>

definition WhereIf :: "('f, 'j) q_lib \<Rightarrow> string \<Rightarrow> Op \<Rightarrow> ('f, 'j) fval \<Rightarrow> ('f, 'j) Scope" where
  "WhereIf lib col op val d =
     (if IsNilPtr val then Some d
      else let v = Deref val in if IsZero lib v then Some d else applyOp lib d col op v)"

definition WhereAlways :: "('f, 'j) q_lib \<Rightarrow> string \<Rightarrow> Op \<Rightarrow> ('f, 'j) fval \<Rightarrow> ('f, 'j) Scope" where
  "WhereAlways lib col op val d =
     (let v = (if IsNilPtr val then zeroOf lib val else Deref val)
      in if isEmptySlice lib v \<and> op = OpIn then Some (gWhere (col @ '' IN ?'') [v] d)
         else if isEmptySlice lib v \<and> op = OpNotIn then Some d
         else applyOp lib d col op v)"

definition WhereNullable :: "('f, 'j) q_lib \<Rightarrow> string \<Rightarrow> Op \<Rightarrow> ('f, 'j) fval \<Rightarrow> ('f, 'j) Scope" where
  "WhereNullable lib col op val d =
     (if IsNilPtr val then
        Some (if op = OpNeq then gWhere (col @ '' IS NOT NULL'') [] d else gWhere (col @ '' IS NULL'') [] d)
      else let v = Deref val in if IsZero lib v then Some d else applyOp lib d col op v)"

definition IsNull :: "string \<Rightarrow> ('f, 'j) Scope" where
  "IsNull col = pure_scope (gWhere (col @ '' IS NULL'') [])"

definition IsNotNull :: "string \<Rightarrow> ('f, 'j) Scope" where
  "IsNotNull col = pure_scope (gWhere (col @ '' IS NOT NULL'') [])"

section \<open>Paging and ordering\<close>

record Paging =
  Page :: int
  PageSize :: int
  All :: bool
  Total :: int

record Order =
  OrderType :: string
  OrderField :: string

definition page_window :: "Paging \<Rightarrow> int \<times> int" where
  "page_window p =
     (let page = (if Page p < 1 then 1 else Page p);
          sz = (if PageSize p \<le> 0 then 20 else PageSize p)
      in (sz, wrap64 ((page - 1) * sz)))"

definition PaginateNoCount :: "Paging option \<Rightarrow> ('f, 'j) Scope" where
  "PaginateNoCount p d =
     (case p of
        None \<Rightarrow> Some d
      | Some q \<Rightarrow> if All q then Some d else (case page_window q of (sz, off) \<Rightarrow> Some (d @ [CLimit sz, COffset off])))"

text \<open>
  \<open>count\<close> is the database's answer to a count query; the second result is the request with the total
  written back.
\<close>

definition Paginate :: "(('f, 'j) db \<Rightarrow> int) \<Rightarrow> Paging option \<Rightarrow> ('f, 'j) db \<Rightarrow> ('f, 'j) db \<times> Paging option" where
  "Paginate count p d =
     (case p of
        None \<Rightarrow> (d, None)
      | Some q \<Rightarrow>
          let q1 = q\<lparr>Total := count (d @ [CLimit (- 1), COffset (- 1)])\<rparr>
          in if All q then (d, Some q1)
             else (case page_window q of (sz, off) \<Rightarrow> (d @ [CLimit sz, COffset off], Some q1)))"

definition order_dir :: "string \<Rightarrow> string" where
  "order_dir s = (let typ = ToUpper s in if typ \<noteq> ''ASC'' \<and> typ \<noteq> ''DESC'' then ''ASC'' else typ)"

definition OrderWhitelist :: "Order \<Rightarrow> (string \<rightharpoonup> string) \<Rightarrow> ('f, 'j) Scope" where
  "OrderWhitelist ord mapping d =
     (if OrderField ord = [] then Some d
      else case mapping (OrderField ord) of
        None \<Rightarrow> Some d
      | Some expr \<Rightarrow> Some (d @ [COrder (expr @ '' '' @ order_dir (OrderType ord))]))"

definition Order_raw :: "string \<Rightarrow> ('f, 'j) Scope" where
  "Order_raw expr = pure_scope (\<lambda>d. if TrimSpace expr = [] then d else d @ [COrder expr])"

definition WhereRaw :: "string \<Rightarrow> ('f, 'j) fval list \<Rightarrow> ('f, 'j) Scope" where
  "WhereRaw query args = pure_scope (gWhere query args)"

definition Limit :: "int \<Rightarrow> ('f, 'j) Scope" where
  "Limit n = pure_scope (\<lambda>d. d @ [CLimit n])"

definition Offset :: "int \<Rightarrow> ('f, 'j) Scope" where
  "Offset n = pure_scope (\<lambda>d. d @ [COffset n])"

definition ID :: "int \<Rightarrow> ('f, 'j) Scope" where
  "ID i = pure_scope (gWhere ''id = ?'' [FVal int64_type (VInt i)])"

definition Unscoped :: "('f, 'j) Scope" where
  "Unscoped = pure_scope (\<lambda>d. d @ [CUnscoped])"

definition ForUpdate :: "('f, 'j) Scope" where
  "ForUpdate = pure_scope (\<lambda>d. d @ [CLocking ''UPDATE''])"

definition ForShare :: "('f, 'j) Scope" where
  "ForShare = pure_scope (\<lambda>d. d @ [CLocking ''SHARE''])"

section \<open>Conditions from tags\<close>

datatype filterMode = modeIf | modeAlways | modeNullable

definition parseMode :: "string \<Rightarrow> filterMode" where
  "parseMode s =
     (let m = ToLower (TrimSpace s)
      in if m = ''always'' then modeAlways else if m = ''nullable'' then modeNullable else modeIf)"

definition parseOp :: "string \<Rightarrow> Op option" where
  "parseOp s =
     (let x = ToLower (TrimSpace s)
      in if x \<in> {''='', ''eq''} then Some OpEq
         else if x \<in> {''<>'', ''!='', ''neq''} then Some OpNeq
         else if x \<in> {''<'', ''lt''} then Some OpLt
         else if x \<in> {''<='', ''lte''} then Some OpLte
         else if x \<in> {''>'', ''gt''} then Some OpGt
         else if x \<in> {''>='', ''gte''} then Some OpGte
         else if x = ''in'' then Some OpIn
         else if x \<in> {''not in'', ''notin''} then Some OpNotIn
         else if x = ''like'' then Some OpLike
         else if x \<in> {''not like'', ''notlike''} then Some OpNotLike
         else None)"

text \<open>The expression and its arguments; an empty expression means that there is no condition.\<close>

fun applyOpExpr :: "('f, 'j) q_lib \<Rightarrow> string \<Rightarrow> Op \<Rightarrow> ('f, 'j) fval \<Rightarrow> (string \<times> ('f, 'j) fval list) option" where
  "applyOpExpr lib col OpEq v = Some (col @ '' = ?'', [v])"
| "applyOpExpr lib col OpNeq v = Some (col @ '' <> ?'', [v])"
| "applyOpExpr lib col OpLt v = Some (col @ '' < ?'', [v])"
| "applyOpExpr lib col OpLte v = Some (col @ '' <= ?'', [v])"
| "applyOpExpr lib col OpGt v = Some (col @ '' > ?'', [v])"
| "applyOpExpr lib col OpGte v = Some (col @ '' >= ?'', [v])"
| "applyOpExpr lib col OpIn v = Some (if isEmptySlice lib v then ([], []) else (col @ '' IN ?'', [v]))"
| "applyOpExpr lib col OpNotIn v = Some (if isEmptySlice lib v then ([], []) else (col @ '' NOT IN ?'', [v]))"
| "applyOpExpr lib col OpLike v = map_option (\<lambda>a. (col @ '' LIKE ?'', [a])) (like_arg lib v)"
| "applyOpExpr lib col OpNotLike v = map_option (\<lambda>a. (col @ '' NOT LIKE ?'', [a])) (like_arg lib v)"

definition applyOpAlways :: "('f, 'j) q_lib \<Rightarrow> ('f, 'j) db \<Rightarrow> string \<Rightarrow> Op \<Rightarrow> ('f, 'j) fval \<Rightarrow> ('f, 'j) db option" where
  "applyOpAlways lib d col op v =
     (if op = OpIn \<and> isEmptySlice lib v then Some (gWhere (col @ '' IN ?'') [v] d) else applyOp lib d col op v)"

definition applyOpExprAlways :: "('f, 'j) q_lib \<Rightarrow> string \<Rightarrow> Op \<Rightarrow> ('f, 'j) fval \<Rightarrow> (string \<times> ('f, 'j) fval list) option" where
  "applyOpExprAlways lib col op v =
     (if op = OpIn \<and> isEmptySlice lib v then Some (col @ '' IN ?'', [v]) else applyOpExpr lib col op v)"

text \<open>
  The loop over the columns; \<open>orDB\<close> is nil (\<^term>\<open>None\<close>) until the column with index 0 has set it, and
  calling \<^verbatim>\<open>Or\<close> on it before panics.
\<close>

fun or_loop :: "('f, 'j) q_lib \<Rightarrow> filterMode \<Rightarrow> Op \<Rightarrow> ('f, 'j) fval \<Rightarrow> nat \<Rightarrow> string list \<Rightarrow> ('f, 'j) db option \<Rightarrow>
    ('f, 'j) db option option" where
  "or_loop lib mode op v i [] orDB = Some orDB"
| "or_loop lib mode op v i (c0 # cs) orDB =
     (let c = TrimSpace c0
      in if c = [] then or_loop lib mode op v (Suc i) cs orDB
         else if i = 0 then
           (case (if mode = modeAlways then applyOpAlways lib [] c op v else applyOp lib [] c op v) of
              None \<Rightarrow> None
            | Some q \<Rightarrow> or_loop lib mode op v (Suc i) cs (Some q))
         else
           (case (if mode = modeAlways then applyOpExprAlways lib c op v else applyOpExpr lib c op v) of
              None \<Rightarrow> None
            | Some (expr, args) \<Rightarrow>
                if expr = [] then or_loop lib mode op v (Suc i) cs orDB
                else (case orDB of
                        None \<Rightarrow> None
                      | Some q \<Rightarrow> or_loop lib mode op v (Suc i) cs (Some (q @ [COr expr args])))))"

definition multiColOR :: "('f, 'j) q_lib \<Rightarrow> string list \<Rightarrow> Op \<Rightarrow> filterMode \<Rightarrow> ('f, 'j) fval \<Rightarrow> ('f, 'j) Scope" where
  "multiColOR lib cols op mode val d =
     (if IsNilPtr val \<and> mode \<noteq> modeAlways \<and> mode \<noteq> modeNullable then Some d
      else let v = Deref val
           in if mode = modeIf \<and> IsZero lib v then Some d
              else if mode = modeAlways \<and> isEmptySlice lib v \<and> op = OpNotIn then Some d
              else (case or_loop lib mode op v 0 cols None of
                      None \<Rightarrow> None
                    | Some None \<Rightarrow> Some d
                    | Some (Some q) \<Rightarrow> Some (d @ [CWhereGroup q])))"

definition buildScopeFromTag :: "('f, 'j) q_lib \<Rightarrow> string \<Rightarrow> ('f, 'j) fval \<Rightarrow> ('f, 'j) Scope option" where
  "buildScopeFromTag lib tag val =
     (let parts = SplitC tag (CHR '','')
      in if length parts < 2 then None
         else let col = TrimSpace (parts ! 0)
              in if col = [] then None
                 else case parseOp (parts ! 1) of
                   None \<Rightarrow> None
                 | Some op \<Rightarrow>
                     let mode = (if length parts \<ge> 3 then parseMode (parts ! 2) else modeIf)
                     in Some (if CHR ''|'' \<in> set col then multiColOR lib (SplitC col (CHR ''|'')) op mode val
                              else case mode of
                                modeAlways \<Rightarrow> WhereAlways lib col op val
                              | modeNullable \<Rightarrow> WhereNullable lib col op val
                              | modeIf \<Rightarrow> WhereIf lib col op val))"

text \<open>
  A field of a request: exported or not, its \<^verbatim>\<open>filter\<close> tag, its value.  Structs (and pointers to one) are
  walked into, whatever their tag; a value and a pointer to it look the same for paging and ordering.
\<close>

datatype ('f, 'j) field = Field (exported: bool) (ftag: string) (fcontent: "('f, 'j) fieldval")
and ('f, 'j) fieldval =
    Leaf "('f, 'j) fval"
  | PagingVal Paging
  | OrderVal Order
  | StructVal "('f, 'j) field list"
  | NilStruct

record ('f, 'j) collected =
  cwhere :: "('f, 'j) Scope list"
  corder :: "('f, 'j) Scope option"
  cpaging :: "('f, 'j) Scope option"

fun walk :: "('f, 'j) q_lib \<Rightarrow> (('f, 'j) db \<Rightarrow> int) \<Rightarrow> (string \<rightharpoonup> string) option \<Rightarrow> ('f, 'j) field list \<Rightarrow>
    ('f, 'j) collected \<Rightarrow> ('f, 'j) collected"
and walk_val :: "('f, 'j) q_lib \<Rightarrow> (('f, 'j) db \<Rightarrow> int) \<Rightarrow> (string \<rightharpoonup> string) option \<Rightarrow> string \<Rightarrow> ('f, 'j) fieldval \<Rightarrow>
    ('f, 'j) collected \<Rightarrow> ('f, 'j) collected" where
  "walk lib count allowed [] c = c"
| "walk lib count allowed (Field ex tag val # fs) c =
     walk lib count allowed fs (if \<not> ex then c else walk_val lib count allowed tag val c)"
| "walk_val lib count allowed tag (PagingVal p) c =
     (if cpaging c = None then c\<lparr>cpaging := Some (\<lambda>d. Some (fst (Paginate count (Some p) d)))\<rparr> else c)"
| "walk_val lib count allowed tag (OrderVal ov) c =
     (case allowed of
        Some mapping \<Rightarrow> if corder c = None then c\<lparr>corder := Some (OrderWhitelist ov mapping)\<rparr> else c
      | None \<Rightarrow> c)"
| "walk_val lib count allowed tag (StructVal fs) c = walk lib count allowed fs c"
| "walk_val lib count allowed tag NilStruct c = c"
| "walk_val lib count allowed tag (Leaf v) c =
     (if tag = [] then c
      else case buildScopeFromTag lib tag v of None \<Rightarrow> c | Some sc \<Rightarrow> c\<lparr>cwhere := cwhere c @ [sc]\<rparr>)"

definition collectFilterScopes :: "('f, 'j) q_lib \<Rightarrow> (('f, 'j) db \<Rightarrow> int) \<Rightarrow> ('f, 'j) field list option \<Rightarrow>
    (string \<rightharpoonup> string) option \<Rightarrow> ('f, 'j) Scope list" where
  "collectFilterScopes lib count criteria allowed =
     (case criteria of
        None \<Rightarrow> []
      | Some fs \<Rightarrow>
          let c = walk lib count allowed fs \<lparr>cwhere = [], corder = None, cpaging = None\<rparr>
          in cwhere c @ (case corder c of None \<Rightarrow> [] | Some sc \<Rightarrow> [sc]) @ (case cpaging c of None \<Rightarrow> [] | Some sc \<Rightarrow> [sc]))"

fun run_scopes :: "('f, 'j) Scope list \<Rightarrow> ('f, 'j) Scope" where
  "run_scopes [] d = Some d"
| "run_scopes (sc # scs) d = (case sc d of None \<Rightarrow> None | Some d1 \<Rightarrow> run_scopes scs d1)"

definition ApplyFilter :: "('f, 'j) q_lib \<Rightarrow> (('f, 'j) db \<Rightarrow> int) \<Rightarrow> ('f, 'j) field list option \<Rightarrow> (string \<rightharpoonup> string) list \<Rightarrow>
    ('f, 'j) Scope" where
  "ApplyFilter lib count criteria allowedOrder d =
     run_scopes (collectFilterScopes lib count criteria (case allowedOrder of [] \<Rightarrow> None | m # _ \<Rightarrow> Some m)) d"

section \<open>The meaning of a pattern\<close>

text \<open>
  SQL's \<^verbatim>\<open>LIKE\<close> with the escape character backslash: the percent sign stands for any text, the underscore for
  one character, an escaped character for itself.
\<close>

fun sql_like :: "string \<Rightarrow> string \<Rightarrow> bool"
and like_any :: "string \<Rightarrow> string \<Rightarrow> bool" where
  "sql_like [] t = (t = [])"
| "sql_like (p # ps) t =
     (if p = CHR ''%'' then like_any ps t
      else if p = CHR ''_'' then (case t of [] \<Rightarrow> False | _ # r \<Rightarrow> sql_like ps r)
      else if p = backslash then
        (case ps of [] \<Rightarrow> False | q # qs \<Rightarrow> (case t of [] \<Rightarrow> False | x # r \<Rightarrow> x = q \<and> sql_like qs r))
      else (case t of [] \<Rightarrow> False | x # r \<Rightarrow> x = p \<and> sql_like ps r))"
| "like_any ps [] = sql_like ps []"
| "like_any ps (x # t) = (sql_like ps (x # t) \<or> like_any ps t)"

lemma like_any_iff: "like_any ps t \<longleftrightarrow> (\<exists>u v. t = u @ v \<and> sql_like ps v)"
proof (induction t)
  case (Cons x t)
  have "(\<exists>u v. x # t = u @ v \<and> sql_like ps v) \<longleftrightarrow> sql_like ps (x # t) \<or> (\<exists>u v. t = u @ v \<and> sql_like ps v)"
    by (auto simp: Cons_eq_append_conv)
  then show ?case using Cons.IH by simp
qed simp

lemma sql_like_percent: "sql_like (CHR ''%'' # ps) t \<longleftrightarrow> (\<exists>u v. t = u @ v \<and> sql_like ps v)"
  by (simp add: like_any_iff)

lemma escapeLike_set: "escapeLike s = escape_set {CHR ''%'', CHR ''_'', backslash} s"
proof -
  have "CHR ''%'' \<noteq> backslash" "CHR ''_'' \<noteq> backslash" by (simp_all add: backslash_def)
  then show ?thesis
    using foldl_escape_set [of "{backslash}" "''%_''" s] by (simp add: escapeLike_def ReplaceAllC_backslash)
qed

lemma sql_like_escaped:
  "sql_like (escapeLike s @ ps) t \<longleftrightarrow> (\<exists>v. t = s @ v \<and> sql_like ps v)"
proof (induction s arbitrary: t)
  case Nil
  then show ?case by (simp add: escapeLike_set escape_set_def)
next
  case (Cons x s)
  have step: "sql_like (escapeLike (x # s) @ ps) t = (case t of [] \<Rightarrow> False | y # r \<Rightarrow> y = x \<and> sql_like (escapeLike s @ ps) r)"
    by (auto simp: escapeLike_set escape_set_def backslash_def split: list.splits)
  show ?case unfolding step using Cons.IH by (auto split: list.splits)
qed

lemma like_contains: "sql_like (''%'' @ escapeLike s @ ''%'') t \<longleftrightarrow> Contains t s"
proof -
  have all: "sql_like ''%'' v" for v by (simp only: sql_like_percent) auto
  have esc: "sql_like (escapeLike s @ ''%'') w \<longleftrightarrow> (\<exists>v. w = s @ v)" for w
    using all by (simp only: sql_like_escaped) simp
  have "sql_like (''%'' @ escapeLike s @ ''%'') t \<longleftrightarrow> (\<exists>u v. t = u @ v \<and> sql_like (escapeLike s @ ''%'') v)"
    using sql_like_percent by simp
  also have "\<dots> \<longleftrightarrow> (\<exists>u v. t = u @ s @ v)" by (simp only: esc) blast
  finally show ?thesis by (simp add: Contains_iff)
qed

section \<open>Which text reaches the statement\<close>

definition op_suffixes :: "string set" where
  "op_suffixes = {'' = ?'', '' <> ?'', '' < ?'', '' <= ?'', '' > ?'', '' >= ?'', '' IN ?'', '' NOT IN ?'', '' LIKE ?'', '' NOT LIKE ?'',
     '' IS NULL'', '' IS NOT NULL''}"

fun call_texts :: "('f, 'j) dbcall \<Rightarrow> string set" where
  "call_texts (CWhere q args) = {q}"
| "call_texts (CWhereGroup cs) = (\<Union>c \<in> set cs. call_texts c)"
| "call_texts (COr q args) = {q}"
| "call_texts (COrder e) = {e}"
| "call_texts (CLimit n) = {}"
| "call_texts (COffset n) = {}"
| "call_texts CUnscoped = {}"
| "call_texts (CLocking s) = {s}"

definition db_texts :: "('f, 'j) db \<Rightarrow> string set" where
  "db_texts d = (\<Union>c \<in> set d. call_texts c)"

lemma db_texts_simps [simp]:
  "db_texts [] = {}" "db_texts (c # d) = call_texts c \<union> db_texts d" "db_texts (d @ e) = db_texts d \<union> db_texts e"
  by (auto simp: db_texts_def)

lemma call_texts_group [simp]: "call_texts (CWhereGroup cs) = db_texts cs"
  by (simp add: db_texts_def)

declare call_texts.simps(2) [simp del]

lemma db_texts_gWhere [simp]: "db_texts (gWhere q args d) = insert q (db_texts d)"
  by (auto simp: gWhere_def)

definition cond_texts :: "string set \<Rightarrow> string set" where
  "cond_texts cols = {c @ x | c x. c \<in> cols \<and> x \<in> op_suffixes}"

lemma cond_texts_single [simp]: "col @ x \<in> cond_texts {col} \<longleftrightarrow> x \<in> op_suffixes"
  by (auto simp: cond_texts_def)

lemma cond_texts_mono: "A \<subseteq> B \<Longrightarrow> cond_texts A \<subseteq> cond_texts B"
  by (auto simp: cond_texts_def)

lemma op_suffixes_mem [simp]:
  "'' = ?'' \<in> op_suffixes" "'' <> ?'' \<in> op_suffixes" "'' < ?'' \<in> op_suffixes" "'' <= ?'' \<in> op_suffixes"
  "'' > ?'' \<in> op_suffixes" "'' >= ?'' \<in> op_suffixes" "'' IN ?'' \<in> op_suffixes" "'' NOT IN ?'' \<in> op_suffixes"
  "'' LIKE ?'' \<in> op_suffixes" "'' NOT LIKE ?'' \<in> op_suffixes" "'' IS NULL'' \<in> op_suffixes" "'' IS NOT NULL'' \<in> op_suffixes"
  by (simp_all add: op_suffixes_def)

text \<open>A scope is confined to a set of texts when it adds no other text to a query.\<close>

definition confined :: "string set \<Rightarrow> ('f, 'j) Scope \<Rightarrow> bool" where
  "confined T sc \<longleftrightarrow> (\<forall>d e. sc d = Some e \<longrightarrow> db_texts e \<subseteq> db_texts d \<union> T)"

lemma confinedD: "confined T sc \<Longrightarrow> sc d = Some e \<Longrightarrow> db_texts e \<subseteq> db_texts d \<union> T"
  by (auto simp: confined_def)

lemma confined_mono: "confined S sc \<Longrightarrow> S \<subseteq> T \<Longrightarrow> confined T sc"
  by (auto simp: confined_def)

lemma applyOp_texts:
  assumes "applyOp lib d col op v = Some e"
  shows "db_texts e \<subseteq> db_texts d \<union> cond_texts {col}"
  using assms by (cases op) (auto split: if_splits)

lemma applyOpExpr_texts:
  assumes "applyOpExpr lib col op v = Some (expr, args)"
  shows "expr = [] \<or> expr \<in> cond_texts {col}"
  using assms by (cases op) (auto split: if_splits)

lemma confined_conditions:
  "confined (cond_texts {col}) (WhereIf lib col op v)"
  "confined (cond_texts {col}) (WhereAlways lib col op v)"
  "confined (cond_texts {col}) (WhereNullable lib col op v)"
proof -
  have a: "db_texts e \<subseteq> db_texts d \<union> cond_texts {col}" if "applyOp lib d col op w = Some e" for d e w
    by (rule applyOp_texts [OF that])
  show "confined (cond_texts {col}) (WhereIf lib col op v)"
    unfolding confined_def WhereIf_def Let_def using a by (auto split: if_splits)
  show "confined (cond_texts {col}) (WhereAlways lib col op v)"
    unfolding confined_def WhereAlways_def Let_def using a by (auto split: if_splits)
  show "confined (cond_texts {col}) (WhereNullable lib col op v)"
    unfolding confined_def WhereNullable_def Let_def using a by (auto split: if_splits)
qed

lemma or_loop_texts:
  assumes "or_loop lib mode op v i cols orDB = Some (Some q)"
  shows "db_texts q \<subseteq> (case orDB of None \<Rightarrow> {} | Some p \<Rightarrow> db_texts p) \<union> cond_texts (TrimSpace ` set cols)"
  using assms
proof (induction cols arbitrary: i orDB)
  case Nil
  then show ?case by simp
next
  case (Cons c0 cs)
  let ?c = "TrimSpace c0"
  have sub: "cond_texts {?c} \<union> cond_texts (TrimSpace ` set cs) \<subseteq> cond_texts (TrimSpace ` set (c0 # cs))"
    by (auto simp: cond_texts_def)
  have first: "db_texts p \<subseteq> cond_texts {?c}"
    if "(if mode = modeAlways then applyOpAlways lib [] ?c op v else applyOp lib [] ?c op v) = Some p" for p
    using that applyOp_texts [of lib "[]" ?c op v p] by (auto simp: applyOpAlways_def split: if_splits)
  have later: "expr = [] \<or> expr \<in> cond_texts {?c}"
    if "(if mode = modeAlways then applyOpExprAlways lib ?c op v else applyOpExpr lib ?c op v) = Some (expr, args)" for expr args
    using that applyOpExpr_texts [of lib ?c op v expr args] by (auto simp: applyOpExprAlways_def split: if_splits)
  from Cons.prems consider
      (skip) j where "or_loop lib mode op v j cs orDB = Some (Some q)"
    | (new) p where "or_loop lib mode op v (Suc i) cs (Some p) = Some (Some q)" "db_texts p \<subseteq> cond_texts {?c}"
    | (more) p expr args where "or_loop lib mode op v (Suc i) cs (Some (p @ [COr expr args])) = Some (Some q)"
        "orDB = Some p" "expr \<in> cond_texts {?c}"
    using first later by (simp add: Let_def split: if_splits option.splits prod.splits)
  then show ?case
  proof cases
    case (skip j)
    from Cons.IH [OF this] sub show ?thesis by blast
  next
    case new
    from Cons.IH [OF new(1)] new(2) sub show ?thesis by auto
  next
    case more
    from Cons.IH [OF more(1)] more(2,3) sub show ?thesis by auto
  qed
qed

lemma confined_multiColOR: "confined (cond_texts (TrimSpace ` set cols)) (multiColOR lib cols op mode v)"
proof -
  have "db_texts q \<subseteq> cond_texts (TrimSpace ` set cols)" if "or_loop lib mode op w 0 cols None = Some (Some q)" for w q
    using or_loop_texts [OF that] by simp
  then show ?thesis
    unfolding confined_def multiColOR_def Let_def by (auto split: if_splits option.splits)
qed

text \<open>The columns that a tag names.\<close>

definition tag_columns :: "string \<Rightarrow> string set" where
  "tag_columns tag = (let col = TrimSpace (SplitC tag (CHR '','') ! 0) in insert col (TrimSpace ` set (SplitC col (CHR ''|''))))"

fun field_columns :: "('f, 'j) field \<Rightarrow> string set"
and val_columns :: "string \<Rightarrow> ('f, 'j) fieldval \<Rightarrow> string set" where
  "field_columns (Field ex tag val) = (if ex then val_columns tag val else {})"
| "val_columns tag (Leaf v) = tag_columns tag"
| "val_columns tag (StructVal fs) = (\<Union>f \<in> set fs. field_columns f)"
| "val_columns tag _ = {}"

lemma confined_tag:
  assumes "buildScopeFromTag lib tag v = Some sc"
  shows "confined (cond_texts (tag_columns tag)) sc"
proof -
  let ?col = "TrimSpace (SplitC tag (CHR '','') ! 0)"
  have s: "cond_texts {?col} \<subseteq> cond_texts (tag_columns tag)"
    "cond_texts (TrimSpace ` set (SplitC ?col (CHR ''|''))) \<subseteq> cond_texts (tag_columns tag)"
    by (rule cond_texts_mono, simp add: tag_columns_def Let_def subset_insertI)+
  show ?thesis
    using assms confined_mono [OF confined_multiColOR s(2)] confined_mono [OF confined_conditions(1) s(1)]
      confined_mono [OF confined_conditions(2) s(1)] confined_mono [OF confined_conditions(3) s(1)]
    unfolding buildScopeFromTag_def Let_def by (simp split: if_splits option.splits filterMode.splits) blast+
qed

definition order_texts :: "(string \<rightharpoonup> string) option \<Rightarrow> string set" where
  "order_texts allowed = (case allowed of None \<Rightarrow> {} | Some m \<Rightarrow> {e @ x | e x. e \<in> ran m \<and> x \<in> {'' ASC'', '' DESC''}})"

lemma confined_order: "confined (order_texts (Some m)) (OrderWhitelist ov m)"
  by (auto simp: confined_def OrderWhitelist_def order_texts_def order_dir_def Let_def ran_def split: if_splits option.splits)

lemma confined_paging: "confined {} (\<lambda>d. Some (fst (Paginate count (Some p) d)))"
  by (auto simp: confined_def Paginate_def Let_def page_window_def split: if_splits)

text \<open>What the walk has collected so far adds only the texts of \<open>cols\<close> and of the allowed orders.\<close>

definition collected_ok :: "(string \<rightharpoonup> string) option \<Rightarrow> string set \<Rightarrow> ('f, 'j) collected \<Rightarrow> bool" where
  "collected_ok allowed cols c \<longleftrightarrow>
     (\<forall>sc \<in> set (cwhere c). confined (cond_texts cols) sc) \<and>
     (\<forall>sc. corder c = Some sc \<longrightarrow> confined (order_texts allowed) sc) \<and>
     (\<forall>sc. cpaging c = Some sc \<longrightarrow> confined {} sc)"

lemma collected_ok_mono: "collected_ok allowed A c \<Longrightarrow> A \<subseteq> B \<Longrightarrow> collected_ok allowed B c"
  by (auto simp: collected_ok_def intro: confined_mono [OF _ cond_texts_mono])

lemma walk_confined:
  "collected_ok allowed cols c \<Longrightarrow>
     collected_ok allowed (cols \<union> (\<Union>f \<in> set fs. field_columns f)) (walk lib count allowed fs c)"
  "collected_ok allowed cols c \<Longrightarrow>
     collected_ok allowed (cols \<union> val_columns tag val) (walk_val lib count allowed tag val c)"
proof (induction lib count allowed fs c and lib count allowed tag val c arbitrary: cols and cols rule: walk_walk_val.induct)
  case (2 lib count allowed ex tag val fs c)
  show ?case
  proof (cases ex)
    case True
    from 2(1)[of cols] 2(2)[of "cols \<union> val_columns tag val"] 2(3) True
    show ?thesis by (simp add: Un_assoc)
  next
    case False
    with 2(2)[of cols] 2(3) show ?thesis by simp
  qed
next
  case (7 lib count allowed tag v c)
  show ?case
  proof (cases "tag = [] \<or> buildScopeFromTag lib tag v = None")
    case True
    then have "walk_val lib count allowed tag (Leaf v) c = c" by auto
    then show ?thesis using collected_ok_mono [OF 7] by simp
  next
    case False
    then obtain sc where sc: "buildScopeFromTag lib tag v = Some sc" by auto
    have "confined (cond_texts (cols \<union> tag_columns tag)) sc"
      by (rule confined_mono [OF confined_tag [OF sc] cond_texts_mono]) simp
    with False sc collected_ok_mono [OF 7, of "cols \<union> tag_columns tag"] show ?thesis
      by (simp add: collected_ok_def)
  qed
next
  case (3 lib count allowed tag p c)
  then show ?case by (simp add: collected_ok_def confined_paging)
next
  case (4 lib count allowed tag ov c)
  then show ?case by (cases allowed) (simp_all add: collected_ok_def confined_order)
qed simp_all

lemma collected_ok_scopes:
  assumes "collected_ok allowed cols c"
    "sc \<in> set (cwhere c @ (case corder c of None \<Rightarrow> [] | Some o1 \<Rightarrow> [o1]) @ (case cpaging c of None \<Rightarrow> [] | Some p \<Rightarrow> [p]))"
  shows "confined (cond_texts cols \<union> order_texts allowed) sc"
proof -
  have "confined (cond_texts cols) sc \<or> confined (order_texts allowed) sc \<or> confined {} sc"
    using assms by (cases "corder c"; cases "cpaging c") (auto simp: collected_ok_def)
  then show ?thesis by (auto intro: confined_mono)
qed

lemma confined_run_scopes:
  assumes "\<forall>sc \<in> set scs. confined T sc"
  shows "confined T (run_scopes scs)"
  using assms
proof (induction scs)
  case (Cons sc scs)
  show ?case
    unfolding confined_def
  proof (intro allI impI)
    fix d e
    assume "run_scopes (sc # scs) d = Some e"
    then obtain d1 where d1: "sc d = Some d1" "run_scopes scs d1 = Some e" by (auto split: option.splits)
    have "confined T sc" "confined T (run_scopes scs)" using Cons by simp_all
    from confinedD [OF this(1) d1(1)] confinedD [OF this(2) d1(2)]
    show "db_texts e \<subseteq> db_texts d \<union> T" by blast
  qed
qed (simp add: confined_def)

section \<open>Which rows a page selects\<close>

text \<open>
  The rows that the limit and the offset of a query select: the last call counts, a negative limit is
  none, and a non-positive offset is none.
\<close>

fun last_limit :: "('f, 'j) db \<Rightarrow> int \<Rightarrow> int" where
  "last_limit [] n = n"
| "last_limit (CLimit m # d) n = last_limit d m"
| "last_limit (c # d) n = last_limit d n"

fun last_offset :: "('f, 'j) db \<Rightarrow> int \<Rightarrow> int" where
  "last_offset [] n = n"
| "last_offset (COffset m # d) n = last_offset d m"
| "last_offset (c # d) n = last_offset d n"

definition select_rows :: "('f, 'j) db \<Rightarrow> 'r list \<Rightarrow> 'r list" where
  "select_rows d rows =
     (let r = drop (nat (last_offset d 0)) rows; n = last_limit d (- 1) in if n < 0 then r else take (nat n) r)"

definition page_of :: "('f, 'j) db option \<Rightarrow> 'r list \<Rightarrow> 'r list" where
  "page_of q rows = (case q of None \<Rightarrow> [] | Some d \<Rightarrow> select_rows d rows)"

lemma page_window_exact:
  assumes "1 \<le> k" "0 < sz" "(k - 1) * sz \<le> 2 ^ 63 - 1"
  shows "page_window \<lparr>Page = k, PageSize = sz, All = a, Total = t\<rparr> = (sz, (k - 1) * sz)"
proof -
  have "0 \<le> (k - 1) * sz" using assms by simp
  then have "in_int64 ((k - 1) * sz)" using assms(3) unfolding int64_defs by linarith
  then show ?thesis using assms by (simp add: page_window_def wrap64_id)
qed

lemma page_of_exact:
  assumes "1 \<le> k" "0 < sz" "(int k - 1) * int sz \<le> 2 ^ 63 - 1"
  shows "page_of (PaginateNoCount (Some \<lparr>Page = int k, PageSize = int sz, All = False, Total = t\<rparr>) ([] :: ('f, 'j) db)) rows =
     take sz (drop ((k - 1) * sz) rows)"
proof -
  have "nat ((int k - 1) * int sz) = (k - 1) * sz"
    using assms(1) by (simp add: nat_mult_distrib nat_diff_distrib)
  then show ?thesis
    using assms page_window_exact [of "int k" "int sz" False t]
    by (simp add: page_of_def PaginateNoCount_def select_rows_def Let_def)
qed

lemma concat_pages: "concat (map (\<lambda>k. take s (drop (k * s) rows)) [0..<n]) = take (n * s) rows"
proof (induction n)
  case (Suc n)
  have "take (Suc n * s) rows = take (n * s) rows @ take s (drop (n * s) rows)"
    by (simp add: take_add [symmetric] add.commute)
  with Suc.IH show ?case by simp
qed simp

section \<open>Properties\<close>


text \<open>
  C19. No request value becomes SQL text: every text in the query that \<^verbatim>\<open>ApplyFilter\<close> builds was there
  before, or is a column named in a tag of an exported field followed by one of the fixed operators, or is an
  expression of the order whitelist followed by a direction.
\<close>

theorem filter_no_injection:
  fixes lib :: "('f, 'j) q_lib"
  assumes "ApplyFilter lib count (Some fs) allowedOrder d = Some e"
  shows "db_texts e \<subseteq> db_texts d \<union> cond_texts (\<Union>f \<in> set fs. field_columns f) \<union>
      order_texts (case allowedOrder of [] \<Rightarrow> None | m # _ \<Rightarrow> Some m)"
proof -
  let ?al = "case allowedOrder of [] \<Rightarrow> None | m # _ \<Rightarrow> Some m"
  let ?c = "walk lib count ?al fs \<lparr>cwhere = [], corder = None, cpaging = None\<rparr>"
  let ?T = "cond_texts (\<Union>f \<in> set fs. field_columns f) \<union> order_texts ?al"
  have "collected_ok ?al (\<Union>f \<in> set fs. field_columns f) ?c"
    using walk_confined(1) [of ?al "{}" "\<lparr>cwhere = [], corder = None, cpaging = None\<rparr>" fs lib count]
    by (simp add: collected_ok_def)
  from collected_ok_scopes [OF this]
  have "\<forall>sc \<in> set (collectFilterScopes lib count (Some fs) ?al). confined ?T sc"
    by (simp add: collectFilterScopes_def Let_def)
  from confinedD [OF confined_run_scopes [OF this]] assms
  show ?thesis unfolding ApplyFilter_def by (simp add: Un_assoc)
qed

text \<open>
  The pages of a list partition it: asked for pages 1 to \<open>n\<close> of a positive size, as long as the
  largest offset fits an \<^verbatim>\<open>int\<close>, the limits and offsets of \<^verbatim>\<open>PaginateNoCount\<close> select every row of a list of at most
  \<open>n\<close> pages exactly once and in order.
\<close>

theorem pages_partition:
  assumes "0 < sz" "length rows \<le> n * sz" "int n * int sz \<le> 2 ^ 63 - 1"
  shows "concat (map (\<lambda>k. page_of (PaginateNoCount (Some \<lparr>Page = int k, PageSize = int sz, All = False, Total = t\<rparr>) ([] :: ('f, 'j) db)) rows)
      [1..<Suc n]) = rows"
proof -
  have fits: "(int k - 1) * int sz \<le> 2 ^ 63 - 1" if "k \<le> n" for k
  proof -
    have "(int k - 1) * int sz \<le> int n * int sz" using that by (intro mult_right_mono) auto
    then show ?thesis using assms(3) by linarith
  qed
  have "map (\<lambda>k. page_of (PaginateNoCount (Some \<lparr>Page = int k, PageSize = int sz, All = False, Total = t\<rparr>) ([] :: ('f, 'j) db)) rows) [1..<Suc n] =
      map (\<lambda>k. take sz (drop ((k - 1) * sz) rows)) [1..<Suc n]"
    by (intro map_cong refl page_of_exact fits) (use assms(1) in auto)
  also have "\<dots> = map (\<lambda>k. take sz (drop (k * sz) rows)) [0..<n]"
    by (simp add: map_Suc_upt [symmetric] del: upt_Suc)
  finally show ?thesis using assms(2) by (simp only: concat_pages) simp
qed

text \<open>
  A page far enough out wraps the offset and shows the first page again.
\<close>

lemma far_page_is_first_page:
  "page_of (PaginateNoCount (Some \<lparr>Page = 2 ^ 62 + 1, PageSize = 4, All = False, Total = t\<rparr>) ([] :: ('f, 'j) db)) rows =
   page_of (PaginateNoCount (Some \<lparr>Page = 1, PageSize = 4, All = False, Total = t\<rparr>) ([] :: ('f, 'j) db)) rows"
  by (simp add: page_of_def PaginateNoCount_def page_window_def wrap64_def)

text \<open>
  The modes of a condition: \<^verbatim>\<open>WhereIf\<close> treats a pointer as the value it points to and adds nothing for
  a zero value or nil; \<^verbatim>\<open>WhereNullable\<close> turns a nil pointer into a null test; \<^verbatim>\<open>WhereAlways\<close> adds exactly one condition on the
  column whatever the value, a nil pointer counting as the zero value of its type, unless the operator is
  \<^verbatim>\<open>NOT IN\<close> or the value cannot be printed for \<^verbatim>\<open>LIKE\<close>.
\<close>

theorem condition_modes:
  fixes lib :: "('f, 'j) q_lib"
  shows "WhereIf lib col op (FPtr v) d = WhereIf lib col op v d \<and>
    (isZeroValue lib v \<longrightarrow> WhereIf lib col op v d = Some d) \<and>
    WhereNullable lib col op (FNilPtr t) d =
      Some (d @ [CWhere (col @ (if op = OpNeq then '' IS NOT NULL'' else '' IS NULL'')) []]) \<and>
    WhereAlways lib col OpEq (FNilPtr t) d = Some (d @ [CWhere (col @ '' = ?'') [FVal t (q_zeroOf lib t)]]) \<and>
    (op \<noteq> OpNotIn \<and> WhereAlways lib col op v d = Some e \<longrightarrow> (\<exists>x a. x \<in> op_suffixes \<and> e = d @ [CWhere (col @ x) [a]]))"
proof (intro conjI impI)
  have zd: "isZeroValue lib (Deref w) = isZeroValue lib w" for w by (induction w) auto
  have nil: "IsNilPtr w \<Longrightarrow> isZeroValue lib w" for w by (cases w) (auto simp: IsNilPtr_def)
  show "isZeroValue lib v \<Longrightarrow> WhereIf lib col op v d = Some d"
    by (simp add: WhereIf_def IsZero_def zd)
  show "WhereIf lib col op (FPtr v) d = WhereIf lib col op v d"
    using nil [of v] by (auto simp: WhereIf_def IsZero_def zd IsNilPtr_def split: fval.splits)
  show "\<exists>x a. x \<in> op_suffixes \<and> e = d @ [CWhere (col @ x) [a]]" if "op \<noteq> OpNotIn \<and> WhereAlways lib col op v d = Some e"
    using that by (cases op) (auto simp: WhereAlways_def Let_def gWhere_def split: if_splits)
qed (simp_all add: WhereNullable_def WhereAlways_def IsNilPtr_def gWhere_def zeroOf_def)

text \<open>
  Several columns do not combine with the modes as one column does: for the tag \<^verbatim>\<open>a|b,=,nullable\<close> a nil
  pointer compares both columns with \<^verbatim>\<open>NULL\<close>, which no row satisfies, where the tag \<^verbatim>\<open>a,=,nullable\<close> asks for
  the null rows; and a tag whose list of columns starts with an empty one panics as soon as its condition is applied.
\<close>

theorem multi_column_nil:
  fixes lib :: "('f, 'j) q_lib"
  shows "map_option (\<lambda>sc. sc d) (buildScopeFromTag lib ''a|b,=,nullable'' (FNilPtr t)) =
      Some (Some (d @ [CWhereGroup [CWhere ''a = ?'' [FNil], COr ''b = ?'' [FNil]]])) \<and>
    map_option (\<lambda>sc. sc d) (buildScopeFromTag lib ''a,=,nullable'' (FNilPtr t)) = Some (Some (d @ [CWhere ''a IS NULL'' []])) \<and>
    map_option (\<lambda>sc. sc d) (buildScopeFromTag lib ''|b,=,always'' v) = Some None"
proof -
  have ev: "SplitC ''a|b,=,nullable'' (CHR '','') = [''a|b'', ''='', ''nullable'']" "SplitC ''a|b'' (CHR ''|'') = [''a'', ''b'']"
    "SplitC ''a,=,nullable'' (CHR '','') = [''a'', ''='', ''nullable'']" "SplitC ''|b,=,always'' (CHR '','') = [''|b'', ''='', ''always'']"
    "SplitC ''|b'' (CHR ''|'') = [[], ''b'']"
    "TrimSpace ''a|b'' = ''a|b''" "TrimSpace ''a'' = ''a''" "TrimSpace ''b'' = ''b''" "TrimSpace ''|b'' = ''|b''" "TrimSpace [] = []"
    "parseOp ''='' = Some OpEq" "parseMode ''nullable'' = modeNullable" "parseMode ''always'' = modeAlways"
    by code_simp+
  show ?thesis
    unfolding buildScopeFromTag_def ev Let_def
    by (simp add: ev multiColOR_def WhereNullable_def IsNilPtr_def gWhere_def applyOpExprAlways_def)
qed

section \<open>Witnesses\<close>

definition demo_q :: "(unit, unit) q_lib" where
  "demo_q = \<lparr>q_conv = demo_conv, q_len = (\<lambda>_ _. None), q_zero = (\<lambda>_ _. False), q_zeroOf = (\<lambda>_. VInt 0), q_isZeroer = (\<lambda>_. None)\<rparr>"

definition demo_fields :: "(unit, unit) field list" where
  "demo_fields = [Field True ''name|note,like'' (Leaf (FVal string_type (VString ''50%''))),
     Field True [] (StructVal [Field True ''age,>='' (Leaf (FPtr (FVal int64_type (VInt 18))))]),
     Field True [] (OrderVal \<lparr>OrderType = ''desc'', OrderField = ''t''\<rparr>),
     Field True [] (PagingVal \<lparr>Page = 3, PageSize = 10, All = False, Total = 0\<rparr>)]"

definition demo_query :: "(unit, unit) db" where
  "demo_query = [CWhereGroup [CWhere ''name LIKE ?'' [FVal string_type (VString (''%50'' @ [backslash] @ ''%%''))],
       COr ''note LIKE ?'' [FVal string_type (VString (''%50'' @ [backslash] @ ''%%''))]],
     CWhere ''age >= ?'' [FVal int64_type (VInt 18)], COrder ''t.created DESC'', CLimit 10, COffset 20]"

lemma demo_query_built:
  "ApplyFilter demo_q (\<lambda>_. 41) (Some demo_fields) [[''t'' \<mapsto> ''t.created'']] [] = Some demo_query"
  by code_simp

theorem filter_no_injection_witness:
  "db_texts demo_query \<subseteq> db_texts ([] :: (unit, unit) db) \<union> cond_texts (\<Union>f \<in> set demo_fields. field_columns f) \<union>
     order_texts (Some [''t'' \<mapsto> ''t.created''])"
  using filter_no_injection [OF demo_query_built] by simp


theorem pages_partition_witness:
  "concat (map (\<lambda>k. page_of (PaginateNoCount (Some \<lparr>Page = int k, PageSize = 2, All = False, Total = 0\<rparr>) ([] :: (unit, unit) db)) ''abcde'')
      [1..<4]) = ''abcde''"
  using pages_partition [of 2 "''abcde''" 3 0, where ?'f = unit and ?'j = unit] by simp

theorem condition_modes_witness:
  "WhereIf demo_q ''age'' OpGt (FPtr (FVal int64_type (VInt 0))) [] = Some [] \<and>
   (\<exists>x a. x \<in> op_suffixes \<and> [CWhere ''age > ?'' [FVal int64_type (VInt 0)]] = [CWhere (''age'' @ x) [a :: (unit, unit) fval]])"
proof -
  have "isZeroValue demo_q (FPtr (FVal int64_type (VInt 0)))"
    "WhereAlways demo_q ''age'' OpGt (FPtr (FVal int64_type (VInt 0))) [] = Some [CWhere ''age > ?'' [FVal int64_type (VInt 0)]]"
    by code_simp+
  then show ?thesis
    using condition_modes [of demo_q "''age''" OpGt "FPtr (FVal int64_type (VInt 0))" "[]" int64_type "[CWhere ''age > ?'' [FVal int64_type (VInt 0)]]"]
    by simp
qed

end
