(* ===== verification/Rabbit_Mq.thy ===== *)
theory Rabbit_Mq
  imports Cast Go_Errors
begin

text \<open>
  The RabbitMQ client of \<^verbatim>\<open>dao/rabbitMQ\<close>: \<^verbatim>\<open>connect.go\<close> (dialling, reconnecting, closing) and \<^verbatim>\<open>queue.go\<close> (declaring,
  publishing with confirmations or in a transaction, consuming, retrying later).

  The AMQP library is a parameter: a record of its calls on the state \<open>'s\<close> of the broker and the network.
  Channels, connections and delivery tags are numbers.  A function that may panic returns \<^term>\<open>None\<close> then; a loop that may
  run for ever is a partial function whose outer \<^term>\<open>None\<close> means that it does not return.
\<close>

type_synonym merr = "unit perr"

section \<open>The library\<close>

record ('f, 'j) Publishing =
  Headers :: "(string \<rightharpoonup> ('f, 'j) gany) option"
  ContentType :: string
  ContentEncoding :: string
  DeliveryMode :: int
  Priority :: int
  CorrelationId :: string
  ReplyTo :: string
  Expiration :: string
  MessageId :: string
  Timestamp :: int
  MType :: string
  UserId :: string
  AppId :: string
  MBody :: string

definition Persistent :: int where "Persistent = 2"

text \<open>What a \<^verbatim>\<open>select\<close> of the code receives.\<close>

datatype confirm_event = Confirmed nat bool | ConfirmsClosed | TimedOut | ConfirmCtxDone goerr

datatype ('f, 'j) delivery_event = Delivered "('f, 'j) Publishing" nat | DeliveriesClosed | ConsumeCtxDone goerr

record mq_tls =
  RootCAs :: "string option"
  Certificates :: "string option"

record ('f, 'j, 's) amqp =
  DialConfig :: "string \<Rightarrow> int \<Rightarrow> mq_tls option \<Rightarrow> 's \<Rightarrow> (goerr + nat) \<times> 's"
  conn_IsClosed :: "nat \<Rightarrow> 's \<Rightarrow> bool"
  conn_Close :: "nat \<Rightarrow> 's \<Rightarrow> 's"
  conn_Channel :: "nat \<Rightarrow> 's \<Rightarrow> (goerr + nat) \<times> 's"
  ch_Close :: "nat \<Rightarrow> 's \<Rightarrow> 's"
  ch_ExchangeDeclare :: "nat \<Rightarrow> string \<Rightarrow> string \<Rightarrow> (string \<times> string) list \<Rightarrow> 's \<Rightarrow> goerr option \<times> 's"
  ch_QueueDeclare :: "nat \<Rightarrow> string \<Rightarrow> (string \<times> string) list \<Rightarrow> 's \<Rightarrow> goerr option \<times> 's"
  ch_QueueBind :: "nat \<Rightarrow> string \<Rightarrow> string \<Rightarrow> string \<Rightarrow> 's \<Rightarrow> goerr option \<times> 's"
  ch_Confirm :: "nat \<Rightarrow> 's \<Rightarrow> goerr option \<times> 's"
  ch_Publish :: "nat \<Rightarrow> string \<Rightarrow> string \<Rightarrow> ('f, 'j) Publishing \<Rightarrow> 's \<Rightarrow> goerr option \<times> 's"
  ch_await :: "nat \<Rightarrow> 's \<Rightarrow> confirm_event \<times> 's"
  ch_Tx :: "nat \<Rightarrow> 's \<Rightarrow> goerr option \<times> 's"
  ch_TxCommit :: "nat \<Rightarrow> 's \<Rightarrow> goerr option \<times> 's"
  ch_TxRollback :: "nat \<Rightarrow> 's \<Rightarrow> goerr option \<times> 's"
  ch_Qos :: "nat \<Rightarrow> int \<Rightarrow> 's \<Rightarrow> goerr option \<times> 's"
  ch_Consume :: "nat \<Rightarrow> string \<Rightarrow> 's \<Rightarrow> goerr option \<times> 's"
  ch_Cancel :: "nat \<Rightarrow> 's \<Rightarrow> 's"
  ch_next :: "nat \<Rightarrow> 's \<Rightarrow> ('f, 'j) delivery_event \<times> 's"
  d_Ack :: "nat \<Rightarrow> 's \<Rightarrow> goerr option \<times> 's"
  d_Nack :: "nat \<Rightarrow> 's \<Rightarrow> goerr option \<times> 's"
  os_ReadFile :: "string \<Rightarrow> 's \<Rightarrow> goerr + string"
  LoadX509KeyPair :: "string \<Rightarrow> string \<Rightarrow> 's \<Rightarrow> goerr + string"
  ctx_Err :: "'s \<Rightarrow> goerr option"
  wait_for :: "int \<Rightarrow> 's \<Rightarrow> goerr option \<times> 's"
  mq_notify :: "merr \<Rightarrow> 's \<Rightarrow> 's"
  mq_stack :: stack
  mq_conv :: "('f, 'j) conv_lib"
  cur_conn :: "'s \<Rightarrow> nat option"

definition e_Err :: "('f, 'j, 's) amqp \<Rightarrow> goerr \<Rightarrow> merr" where
  "e_Err A e = WithStack (Opaque e) (mq_stack A)"

lemma e_Err_is_Err: "Err (mq_stack A) (Some (Opaque e)) [] = Some (e_Err A e)"
proof -
  have "GetStackErr (Opaque e :: merr) = None" for e
    by (induction e) (subst GetStackErr.simps, simp)+
  then show ?thesis by (simp add: Err_def e_Err_def)
qed

definition mq_Is :: "merr \<Rightarrow> merr \<Rightarrow> bool" where
  "mq_Is e t \<longleftrightarrow> t \<in> set (chain e)"

definition second :: int where "second = 10 ^ 9"

section \<open>Connections\<close>

record Config =
  DSN :: "string list"
  CA :: string
  CertFile :: string
  KeyFile :: string
  Heartbeat :: int

definition ensureDefaults :: "Config \<Rightarrow> Config" where
  "ensureDefaults c = (if Heartbeat c = 0 then c\<lparr>Heartbeat := 5\<rparr> else c)"

record Connect =
  conn :: "nat option"
  cfg :: Config
  closeCh :: bool

text \<open>\<^verbatim>\<open>1 << attempt\<close> at the width of \<^verbatim>\<open>time.Duration\<close>, then a product that wraps.\<close>

definition mq_backoff :: "nat \<Rightarrow> int" where
  "mq_backoff attempt =
     (let d = wrap64 (wrap64 (2 ^ attempt) * second); maxBackoff = 60 * second in if d > maxBackoff then maxBackoff else d)"

definition tls_config :: "('f, 'j, 's) amqp \<Rightarrow> Config \<Rightarrow> 's \<Rightarrow> merr + mq_tls option" where
  "tls_config A c s =
     (if CA c \<noteq> [] \<or> (CertFile c \<noteq> [] \<and> KeyFile c \<noteq> []) then
        (case (if CA c \<noteq> [] then map_sum id Some (os_ReadFile A (CA c) s) else Inr None) of
           Inl e \<Rightarrow> Inl (Opaque (ErrWrapf ''read CA: '' e))
         | Inr ca \<Rightarrow>
             (case (if CertFile c \<noteq> [] \<and> KeyFile c \<noteq> [] then map_sum id Some (LoadX509KeyPair A (CertFile c) (KeyFile c) s) else Inr None) of
                Inl e \<Rightarrow> Inl (Opaque (ErrWrapf ''load client cert: '' e))
              | Inr cert \<Rightarrow> Inr (Some \<lparr>RootCAs = ca, Certificates = cert\<rparr>)))
      else Inr None)"

fun dial_loop :: "('f, 'j, 's) amqp \<Rightarrow> int \<Rightarrow> mq_tls option \<Rightarrow> string list \<Rightarrow> goerr option \<Rightarrow> 's \<Rightarrow> (goerr option + nat) \<times> 's" where
  "dial_loop A hb t [] lastErr s = (Inl lastErr, s)"
| "dial_loop A hb t (dsn # ds) lastErr s =
     (case DialConfig A dsn hb t s of
        (Inr c, s1) \<Rightarrow> (Inr c, s1)
      | (Inl e, s1) \<Rightarrow> dial_loop A hb t ds (Some e) s1)"

definition hang_up :: "('f, 'j, 's) amqp \<Rightarrow> Connect \<times> 's \<Rightarrow> 's" where
  "hang_up A w =
     (case conn (fst w) of None \<Rightarrow> snd w | Some k \<Rightarrow> if conn_IsClosed A k (snd w) then snd w else conn_Close A k (snd w))"

definition reconnect :: "('f, 'j, 's) amqp \<Rightarrow> Connect \<times> 's \<Rightarrow> merr option \<times> Connect \<times> 's" where
  "reconnect A w =
     (let s1 = hang_up A w; c1 = (fst w)\<lparr>conn := None\<rparr>
      in case tls_config A (cfg c1) s1 of
        Inl e \<Rightarrow> (Some e, c1, s1)
      | Inr t \<Rightarrow>
          (case dial_loop A (wrap64 (Heartbeat (cfg c1) * second)) t (DSN (cfg c1)) None s1 of
             (Inr k, s2) \<Rightarrow> (None, c1\<lparr>conn := Some k\<rparr>, s2)
           | (Inl (Some e), s2) \<Rightarrow> (Some (Opaque (ErrWrapf ''dial rabbitmq: '' e)), c1, s2)
           | (Inl None, s2) \<Rightarrow> (Some (Opaque (ErrNew ''dial rabbitmq: %!w(<nil>)'')), c1, s2)))"

definition NewRabbitMQ :: "('f, 'j, 's) amqp \<Rightarrow> Config \<Rightarrow> 's \<Rightarrow> (merr + Connect) \<times> 's" where
  "NewRabbitMQ A c s =
     (case reconnect A (\<lparr>conn = None, cfg = ensureDefaults c, closeCh = False\<rparr>, s) of
        (Some e, _, s1) \<Rightarrow> (Inl (WithMessage ''initial rabbitmq connect'' e), s1)
      | (None, c1, s1) \<Rightarrow> (Inr c1, s1))"

text \<open>\<open>cur_conn\<close> is the connection that the shared \<^verbatim>\<open>Connect\<close> holds at the moment of the call.\<close>

definition GetCh :: "('f, 'j, 's) amqp \<Rightarrow> 's \<Rightarrow> (goerr + nat) \<times> 's" where
  "GetCh A s =
     (case cur_conn A s of
        None \<Rightarrow> (Inl (ErrNew ''rabbitmq connection is closed''), s)
      | Some k \<Rightarrow>
          if conn_IsClosed A k s then (Inl (ErrNew ''rabbitmq connection is closed''), s)
          else conn_Channel A k s)"

text \<open>
  \<^verbatim>\<open>closeOnce\<close> makes every call after the first one do nothing; the first one closes the channel \<^verbatim>\<open>closeCh\<close>, then takes the lock and
  closes the connection.
\<close>

definition close_conn :: "('f, 'j, 's) amqp \<Rightarrow> Connect \<times> 's \<Rightarrow> Connect \<times> 's" where
  "close_conn A w =
     (case conn (fst w) of
        None \<Rightarrow> w
      | Some k \<Rightarrow> if conn_IsClosed A k (snd w) then w else ((fst w)\<lparr>conn := None\<rparr>, conn_Close A k (snd w)))"

definition Connect_Close :: "('f, 'j, 's) amqp \<Rightarrow> Connect \<times> 's \<Rightarrow> Connect \<times> 's" where
  "Connect_Close A w = (if closeCh (fst w) then w else close_conn A ((fst w)\<lparr>closeCh := True\<rparr>, snd w))"

text \<open>
  \<^verbatim>\<open>watchDisconnect\<close> runs beside the callers of \<^verbatim>\<open>Close\<close>.  Its place in the code: at the top of the outer loop, waiting for a
  connection to appear, waiting for the notice that connection \<open>k\<close> has gone, at the check of the inner loop, after that check
  and before \<^verbatim>\<open>reconnect\<close>, sleeping, returned.  A call of \<^verbatim>\<open>Close\<close> has two steps, \<^verbatim>\<open>reconnect\<close> is
  one because it holds the lock, and \<open>N\<close> is what the network may do meanwhile.
\<close>

datatype watch_pc = WTop | WNoConn | WNotify nat | WCheck nat | WRedial nat | WSleep nat | WReturned

record 's watch_state =
  wpc :: watch_pc
  wconn :: "Connect \<times> 's"
  wclosing :: bool

inductive watch_step :: "('f, 'j, 's) amqp \<Rightarrow> ('s \<Rightarrow> 's \<Rightarrow> bool) \<Rightarrow> 's watch_state \<Rightarrow> 's watch_state \<Rightarrow> bool" for A N where
  top_none: "wpc w = WTop \<Longrightarrow> conn (fst (wconn w)) = None \<Longrightarrow> watch_step A N w (w\<lparr>wpc := WNoConn\<rparr>)"
| no_conn_wait: "wpc w = WNoConn \<Longrightarrow> watch_step A N w (w\<lparr>wpc := WTop\<rparr>)"
| no_conn_closed: "wpc w = WNoConn \<Longrightarrow> closeCh (fst (wconn w)) \<Longrightarrow> watch_step A N w (w\<lparr>wpc := WReturned\<rparr>)"
| top_some: "wpc w = WTop \<Longrightarrow> conn (fst (wconn w)) = Some k \<Longrightarrow> watch_step A N w (w\<lparr>wpc := WNotify k\<rparr>)"
| notify_closed: "wpc w = WNotify k \<Longrightarrow> closeCh (fst (wconn w)) \<Longrightarrow> watch_step A N w (w\<lparr>wpc := WReturned\<rparr>)"
| notify_end: "wpc w = WNotify k \<Longrightarrow> conn_IsClosed A k (snd (wconn w)) \<Longrightarrow> watch_step A N w (w\<lparr>wpc := WReturned\<rparr>)"
| notify_nil: "wpc w = WNotify k \<Longrightarrow> conn_IsClosed A k (snd (wconn w)) \<Longrightarrow> watch_step A N w (w\<lparr>wpc := WCheck 0\<rparr>)"
| notify_err: "wpc w = WNotify k \<Longrightarrow> conn_IsClosed A k (snd (wconn w)) \<Longrightarrow>
    watch_step A N w (w\<lparr>wpc := WCheck 0, wconn := (fst (wconn w), mq_notify A err (snd (wconn w)))\<rparr>)"
| check_closed: "wpc w = WCheck n \<Longrightarrow> closeCh (fst (wconn w)) \<Longrightarrow> watch_step A N w (w\<lparr>wpc := WReturned\<rparr>)"
| check_open: "wpc w = WCheck n \<Longrightarrow> \<not> closeCh (fst (wconn w)) \<Longrightarrow> watch_step A N w (w\<lparr>wpc := WRedial n\<rparr>)"
| redial_ok: "wpc w = WRedial n \<Longrightarrow> reconnect A (wconn w) = (None, cs) \<Longrightarrow> watch_step A N w (w\<lparr>wpc := WTop, wconn := cs\<rparr>)"
| redial_fail: "wpc w = WRedial n \<Longrightarrow> reconnect A (wconn w) = (Some e, cs) \<Longrightarrow> watch_step A N w (w\<lparr>wpc := WSleep n, wconn := cs\<rparr>)"
| slept: "wpc w = WSleep n \<Longrightarrow> watch_step A N w (w\<lparr>wpc := WCheck (Suc n)\<rparr>)"
| close_signal: "\<not> closeCh (fst (wconn w)) \<Longrightarrow>
    watch_step A N w (w\<lparr>wconn := ((fst (wconn w))\<lparr>closeCh := True\<rparr>, snd (wconn w)), wclosing := True\<rparr>)"
| close_lock: "wclosing w \<Longrightarrow> watch_step A N w (w\<lparr>wconn := close_conn A (wconn w), wclosing := False\<rparr>)"
| network: "N (snd (wconn w)) s \<Longrightarrow> watch_step A N w (w\<lparr>wconn := (fst (wconn w), s)\<rparr>)"

section \<open>Queues\<close>

record QueueConfig =
  ExchangeName :: string
  ExchangeType :: string
  RouteKey :: string
  QueueName :: string
  QueueType :: string
  Prefetch :: int
  MaxDelay :: int

definition MaxDelayMs :: int where "MaxDelayMs = 2 ^ 32 - 1"
definition DelayField :: string where "DelayField = ''x-delay''"
definition RetryCountField :: string where "RetryCountField = ''x-retry-count''"
definition DelayedTypeField :: string where "DelayedTypeField = ''x-delayed-type''"
definition DelayedTypeMessage :: string where "DelayedTypeMessage = ''x-delayed-message''"
definition QueueTypeField :: string where "QueueTypeField = ''x-queue-type''"
definition QueueTypeQuorum :: string where "QueueTypeQuorum = ''quorum''"

definition DefaultMaxDelay :: int where "DefaultMaxDelay = MaxDelayMs * 10 ^ 6"

text \<open>A queue is its configuration; the connection it shares is in the state.\<close>

definition NewQueue :: "('f, 'j, 's) amqp \<Rightarrow> QueueConfig \<Rightarrow> 's \<Rightarrow> (merr + QueueConfig) \<times> 's" where
  "NewQueue A config s0 =
     (case GetCh A s0 of
        (Inl e, s) \<Rightarrow> (Inl (e_Err A e), s)
      | (Inr ch, s) \<Rightarrow>
          let c1 = (if ExchangeType config = [] then config\<lparr>ExchangeType := ''direct''\<rparr> else config);
              c2 = (if QueueType c1 = [] then c1\<lparr>QueueType := QueueTypeQuorum\<rparr> else c1);
              typ = (if MaxDelay c2 > 0 then DelayedTypeMessage else ExchangeType c2);
              args = (if MaxDelay c2 > 0 then [(DelayedTypeField, ExchangeType c2)] else [])
          in case ch_ExchangeDeclare A ch (ExchangeName c2) typ args s of
            (Some e, s1) \<Rightarrow> (Inl (e_Err A e), ch_Close A ch s1)
          | (None, s1) \<Rightarrow>
              (case ch_QueueDeclare A ch (QueueName c2) [(QueueTypeField, QueueType c2)] s1 of
                 (Some e, s2) \<Rightarrow> (Inl (e_Err A e), ch_Close A ch s2)
               | (None, s2) \<Rightarrow>
                   (case ch_QueueBind A ch (QueueName c2) (RouteKey c2) (ExchangeName c2) s2 of
                      (Some e, s3) \<Rightarrow> (Inl (e_Err A e), ch_Close A ch s3)
                    | (None, s3) \<Rightarrow> (Inr c2, ch_Close A ch s3))))"

text \<open>
  The loop that publishes: the messages of the slice, marked persistent as far as the loop came, and the error that stopped it.
\<close>

fun publish_loop :: "('f, 'j, 's) amqp \<Rightarrow> QueueConfig \<Rightarrow> nat \<Rightarrow> ('f, 'j) Publishing list \<Rightarrow> 's \<Rightarrow>
    goerr option \<times> ('f, 'j) Publishing list \<times> 's" where
  "publish_loop A q ch [] s = (None, [], s)"
| "publish_loop A q ch (m # ms) s =
     (let m1 = m\<lparr>DeliveryMode := Persistent\<rparr> in
      case ch_Publish A ch (ExchangeName q) (RouteKey q) m1 s of
        (Some e, s1) \<Rightarrow> (Some e, m1 # ms, s1)
      | (None, s1) \<Rightarrow> (case publish_loop A q ch ms s1 of (r, ms1, s2) \<Rightarrow> (r, m1 # ms1, s2)))"

text \<open>The loop that waits: \<open>failed\<close> is what it has collected, \<open>i\<close> how many confirmations it has seen.\<close>

function confirm_loop :: "('f, 'j, 's) amqp \<Rightarrow> nat \<Rightarrow> ('f, 'j) Publishing list \<Rightarrow> nat \<Rightarrow> ('f, 'j) Publishing list \<Rightarrow> 's \<Rightarrow>
    (('f, 'j) Publishing list \<times> merr option \<times> 's) option" where
  "confirm_loop A ch ms i failed s =
     (if i \<ge> length ms then
        Some (if failed \<noteq> [] then (failed, Some (Opaque (ErrNew ''some messages failed to deliver'')), s) else ([], None, s))
      else case ch_await A ch s of
        (ConfirmsClosed, s1) \<Rightarrow> Some (failed @ drop i ms, Some (Opaque (ErrNew ''confirm channel closed unexpectedly'')), s1)
      | (TimedOut, s1) \<Rightarrow> Some (failed @ drop i ms, Some (Opaque (ErrNew ''publish confirm timeout after 5s'')), s1)
      | (ConfirmCtxDone e, s1) \<Rightarrow> Some (ms, Some (e_Err A e), s1)
      | (Confirmed tag True, s1) \<Rightarrow> confirm_loop A ch ms (Suc i) failed s1
      | (Confirmed tag False, s1) \<Rightarrow>
          if tag = 0 \<or> tag > length ms then None
          else confirm_loop A ch ms (Suc i) (failed @ [ms ! (tag - 1)]) s1)"
  by pat_completeness auto
termination by (relation "measure (\<lambda>(A, ch, ms, i, _). length ms - i)") auto

declare confirm_loop.simps [simp del]

text \<open>The result has the failed messages, the error, and the slice as the call leaves it.\<close>

definition SendMessages :: "('f, 'j, 's) amqp \<Rightarrow> QueueConfig \<Rightarrow> ('f, 'j) Publishing list \<Rightarrow> 's \<Rightarrow>
    (('f, 'j) Publishing list \<times> merr option \<times> ('f, 'j) Publishing list \<times> 's) option" where
  "SendMessages A q ms s0 =
     (case GetCh A s0 of
        (Inl e, s) \<Rightarrow> Some (ms, Some (e_Err A e), ms, s)
      | (Inr ch, s) \<Rightarrow>
          (case ch_Confirm A ch s of
             (Some e, s1) \<Rightarrow> Some (ms, Some (e_Err A e), ms, ch_Close A ch s1)
           | (None, s1) \<Rightarrow>
               (case publish_loop A q ch ms s1 of
                  (Some e, ms1, s2) \<Rightarrow> Some (ms1, Some (e_Err A e), ms1, ch_Close A ch s2)
                | (None, ms1, s2) \<Rightarrow>
                    (case confirm_loop A ch ms1 0 [] s2 of
                       None \<Rightarrow> None
                     | Some (failed, r, s3) \<Rightarrow> Some (failed, r, ms1, ch_Close A ch s3)))))"

definition SendMessagesTx :: "('f, 'j, 's) amqp \<Rightarrow> QueueConfig \<Rightarrow> ('f, 'j) Publishing list \<Rightarrow> 's \<Rightarrow>
    merr option \<times> ('f, 'j) Publishing list \<times> 's" where
  "SendMessagesTx A q ms s0 =
     (case GetCh A s0 of
        (Inl e, s) \<Rightarrow> (Some (e_Err A e), ms, s)
      | (Inr ch, s) \<Rightarrow>
          (case ch_Tx A ch s of
             (Some e, s1) \<Rightarrow> (Some (e_Err A e), ms, ch_Close A ch s1)
           | (None, s1) \<Rightarrow>
               (case publish_loop A q ch ms s1 of
                  (Some e, ms1, s2) \<Rightarrow> (Some (e_Err A e), ms1, ch_Close A ch (snd (ch_TxRollback A ch s2)))
                | (None, ms1, s2) \<Rightarrow>
                    (case ch_TxCommit A ch s2 of
                       (Some e, s3) \<Rightarrow> (Some (e_Err A e), ms1, ch_Close A ch (snd (ch_TxRollback A ch s3)))
                     | (None, s3) \<Rightarrow> (None, ms1, ch_Close A ch s3)))))"

text \<open>
  One round of sending: the error, the messages for the next round, the whole batch as it is now.  A \<^verbatim>\<open>nil\<close> error with nothing failed ends the loop.
\<close>

definition send_round :: "('f, 'j, 's) amqp \<Rightarrow> QueueConfig \<Rightarrow> bool \<Rightarrow> ('f, 'j) Publishing list \<Rightarrow> ('f, 'j) Publishing list \<Rightarrow> 's \<Rightarrow>
    (bool \<times> merr option \<times> ('f, 'j) Publishing list \<times> 's) option" where
  "send_round A q useTx messages pending s =
     (if useTx then
        (case SendMessagesTx A q pending s of
           (None, _, s1) \<Rightarrow> Some (True, None, pending, s1)
         | (Some e, _, s1) \<Rightarrow> Some (False, Some e, pending, s1))
      else
        (case SendMessages A q pending s of
           None \<Rightarrow> None
         | Some (failed, r, _, s1) \<Rightarrow>
             if r = None \<and> failed = [] then Some (True, None, pending, s1)
             else if r = None then Some (False, None, failed, s1)
             else Some (False, r, messages, s1)))"

text \<open>The inner result is \<^term>\<open>None\<close> when a round panics, the outer one when the loop does not end.\<close>

partial_function (option) every_loop :: "('f, 'j, 's) amqp \<Rightarrow> QueueConfig \<Rightarrow> bool \<Rightarrow> ('f, 'j) Publishing list \<Rightarrow>
    ('f, 'j) Publishing list \<Rightarrow> nat \<Rightarrow> 's \<Rightarrow> (goerr option \<times> 's) option option" where
  "every_loop A q useTx messages pending attempt s =
     (case ctx_Err A s of
        Some e \<Rightarrow> Some (Some (Some e, s))
      | None \<Rightarrow>
          (case send_round A q useTx messages pending s of
             None \<Rightarrow> Some None
           | Some (fin, r, pending1, s1) \<Rightarrow>
               if fin then Some (Some (None, s1))
               else let s2 = (case r of None \<Rightarrow> s1 | Some e \<Rightarrow> mq_notify A e s1)
                    in case wait_for A (mq_backoff attempt) s2 of
                      (Some e, s3) \<Rightarrow> Some (Some (Some e, s3))
                    | (None, s3) \<Rightarrow> every_loop A q useTx messages pending1 (Suc attempt) s3))"

definition SendMessagesEvery :: "('f, 'j, 's) amqp \<Rightarrow> QueueConfig \<Rightarrow> ('f, 'j) Publishing list \<Rightarrow> bool list \<Rightarrow> 's \<Rightarrow>
    (goerr option \<times> 's) option option" where
  "SendMessagesEvery A q messages useTransaction s =
     every_loop A q (case useTransaction of [] \<Rightarrow> False | b # _ \<Rightarrow> b) messages messages 0 s"

section \<open>Deliveries\<close>

record ('f, 'j) Delivery =
  dmsg :: "('f, 'j) Publishing"
  dtag :: nat
  Acked :: bool
  Nacked :: bool
  DErr :: "merr option"

definition NewDelivery :: "('f, 'j) Publishing \<Rightarrow> nat \<Rightarrow> ('f, 'j) Delivery" where
  "NewDelivery m tag = \<lparr>dmsg = m, dtag = tag, Acked = False, Nacked = False, DErr = None\<rparr>"

definition Delivery_Ack :: "('f, 'j, 's) amqp \<Rightarrow> ('f, 'j) Delivery \<times> 's \<Rightarrow> ('f, 'j) Delivery \<times> 's" where
  "Delivery_Ack A w =
     (case w of (d, s) \<Rightarrow>
        if Acked d \<or> Nacked d then (d, s)
        else (case d_Ack A (dtag d) s of
                (None, s1) \<Rightarrow> (d\<lparr>Acked := True\<rparr>, s1)
              | (Some e, s1) \<Rightarrow> (d\<lparr>DErr := Some (Opaque e), Acked := True\<rparr>, s1)))"

definition Delivery_Nack :: "('f, 'j, 's) amqp \<Rightarrow> ('f, 'j) Delivery \<times> 's \<Rightarrow> ('f, 'j) Delivery \<times> 's" where
  "Delivery_Nack A w =
     (case w of (d, s) \<Rightarrow>
        if Acked d \<or> Nacked d then (d, s)
        else (case d_Nack A (dtag d) s of
                (None, s1) \<Rightarrow> (d\<lparr>Nacked := True\<rparr>, s1)
              | (Some e, s1) \<Rightarrow> (d\<lparr>DErr := Some (Opaque e), Nacked := True\<rparr>, s1)))"

definition GetRetryNum :: "('f, 'j, 's) amqp \<Rightarrow> ('f, 'j) Delivery \<Rightarrow> int option" where
  "GetRetryNum A d =
     (case Headers (dmsg d) of
        None \<Rightarrow> Some 0
      | Some h \<Rightarrow> (case h RetryCountField of None \<Rightarrow> Some 0 | Some v \<Rightarrow> AnyToInt (mq_conv A) v))"

definition int_header :: "int \<Rightarrow> ('f, 'j) gany" where
  "int_header n = Any int64_type (VInt n)"

text \<open>
  The message to publish again; \<^verbatim>\<open>props.Headers\<close> is the map of the delivery itself when that has one, so the delivery's
  headers change with it.
\<close>

definition retry_props :: "('f, 'j) Delivery \<Rightarrow> int \<Rightarrow> int \<Rightarrow> ('f, 'j) Publishing" where
  "retry_props d delay num =
     \<lparr>Headers = Some ((case Headers (dmsg d) of None \<Rightarrow> Map.empty | Some h \<Rightarrow> h)
          (DelayField \<mapsto> int_header (delay div 10 ^ 6), RetryCountField \<mapsto> int_header (wrap64 (num + 1)))),
      ContentType = ContentType (dmsg d), ContentEncoding = ContentEncoding (dmsg d), DeliveryMode = Persistent,
      Priority = Priority (dmsg d), CorrelationId = CorrelationId (dmsg d), ReplyTo = ReplyTo (dmsg d),
      Expiration = Expiration (dmsg d), MessageId = MessageId (dmsg d), Timestamp = Timestamp (dmsg d),
      MType = MType (dmsg d), UserId = UserId (dmsg d), AppId = AppId (dmsg d), MBody = MBody (dmsg d)\<rparr>"

definition RetryLater :: "('f, 'j, 's) amqp \<Rightarrow> QueueConfig \<Rightarrow> int \<Rightarrow> ('f, 'j) Delivery \<times> 's \<Rightarrow>
    (('f, 'j) Delivery \<times> 's) option" where
  "RetryLater A q delay w =
     (if MaxDelay q = 0 then Some (Delivery_Nack A w)
      else if Acked (fst w) \<or> Nacked (fst w) then Some w
      else let dl = (if delay < 0 \<or> delay > MaxDelay q then MaxDelay q else delay)
           in case GetRetryNum A (fst w) of
             None \<Rightarrow> None
           | Some num \<Rightarrow>
               let p = retry_props (fst w) dl num;
                   d1 = (if Headers (dmsg (fst w)) = None then fst w else (fst w)\<lparr>dmsg := (dmsg (fst w))\<lparr>Headers := Headers p\<rparr>\<rparr>)
               in case SendMessages A q [p] (snd w) of
                 None \<Rightarrow> None
               | Some (_, Some e, _, s1) \<Rightarrow> Some (d1\<lparr>DErr := Some e\<rparr>, s1)
               | Some (_, None, _, s1) \<Rightarrow> Some (Delivery_Ack A (d1, s1)))"

text \<open>The handler returns, fails or panics, and may itself settle the delivery it is given.\<close>

datatype handler_result = HOk | HErr merr | HPanic string

type_synonym ('f, 'j, 's) ConsumeHandler = "('f, 'j) Delivery \<Rightarrow> 's \<Rightarrow> handler_result \<times> ('f, 'j) Delivery \<times> 's"

definition consume_error :: "('f, 'j, 's) amqp \<Rightarrow> merr \<Rightarrow> merr" where
  "consume_error A e =
     (case Err (mq_stack A) (Some e) [''mq consume error''] of None \<Rightarrow> e | Some x \<Rightarrow> x)"

definition handle_delivery :: "('f, 'j, 's) amqp \<Rightarrow> QueueConfig \<Rightarrow> ('f, 'j, 's) ConsumeHandler \<Rightarrow> ('f, 'j) Publishing \<Rightarrow> nat \<Rightarrow> 's \<Rightarrow>
    (('f, 'j) Delivery \<times> 's) option" where
  "handle_delivery A q consumer m tag s =
     (case consumer (NewDelivery m tag) s of
        (HOk, d, s1) \<Rightarrow> Some (Delivery_Ack A (d, s1))
      | (HErr e, d, s1) \<Rightarrow> RetryLater A q (MaxDelay q) (d, mq_notify A (consume_error A e) s1)
      | (HPanic r, d, s1) \<Rightarrow>
          let e = Opaque (ErrNew (''handler panic: '' @ r))
          in RetryLater A q (MaxDelay q) (d, mq_notify A (consume_error A e) (mq_notify A e s1)))"

definition channelClosedErr :: merr where
  "channelClosedErr = Opaque (ErrNew ''deliveries channel closed'')"

partial_function (option) consume_loop :: "('f, 'j, 's) amqp \<Rightarrow> QueueConfig \<Rightarrow> ('f, 'j, 's) ConsumeHandler \<Rightarrow> nat \<Rightarrow> 's \<Rightarrow>
    (merr \<times> 's) option option" where
  "consume_loop A q consumer ch s =
     (case ch_next A ch s of
        (ConsumeCtxDone e, s1) \<Rightarrow> Some (Some (e_Err A e, s1))
      | (DeliveriesClosed, s1) \<Rightarrow> Some (Some (channelClosedErr, s1))
      | (Delivered m tag, s1) \<Rightarrow>
          (case handle_delivery A q consumer m tag s1 of
             None \<Rightarrow> Some None
           | Some (d, s2) \<Rightarrow>
               (case DErr d of
                  Some e \<Rightarrow> Some (Some (e, s2))
                | None \<Rightarrow> consume_loop A q consumer ch s2)))"

definition ConsumeMessages :: "('f, 'j, 's) amqp \<Rightarrow> QueueConfig \<Rightarrow> ('f, 'j, 's) ConsumeHandler \<Rightarrow> 's \<Rightarrow>
    (merr \<times> 's) option option" where
  "ConsumeMessages A q consumer s =
     (case GetCh A s of
        (Inl e, s1) \<Rightarrow> Some (Some (e_Err A e, s1))
      | (Inr ch, s1) \<Rightarrow>
          let fin = (\<lambda>s. ch_Close A ch (ch_Cancel A ch s)) in
          (case ch_Qos A ch (if Prefetch q \<le> 0 then 1 else Prefetch q) s1 of
             (Some e, s2) \<Rightarrow> Some (Some (e_Err A e, fin s2))
           | (None, s2) \<Rightarrow>
               (case ch_Consume A ch (QueueName q) s2 of
                  (Some e, s3) \<Rightarrow> Some (Some (e_Err A e, fin s3))
                | (None, s3) \<Rightarrow> map_option (map_option (\<lambda>(e, s4). (e, fin s4))) (consume_loop A q consumer ch s3))))"

partial_function (option) consume_every :: "('f, 'j, 's) amqp \<Rightarrow> QueueConfig \<Rightarrow> ('f, 'j, 's) ConsumeHandler \<Rightarrow> nat \<Rightarrow> 's \<Rightarrow>
    (goerr \<times> 's) option option" where
  "consume_every A q consumer attempt s =
     (case ctx_Err A s of
        Some e \<Rightarrow> Some (Some (e, s))
      | None \<Rightarrow>
          (case ConsumeMessages A q consumer s of
             None \<Rightarrow> None
           | Some None \<Rightarrow> Some None
           | Some (Some (err, s1)) \<Rightarrow>
               let cl = mq_Is err channelClosedErr;
                   attempt1 = (if cl then 0 else attempt);
                   s2 = (if cl then s1 else mq_notify A err s1)
               in case wait_for A (mq_backoff attempt1) s2 of
                 (Some e, s3) \<Rightarrow> Some (Some (e, s3))
               | (None, s3) \<Rightarrow> consume_every A q consumer (Suc attempt1) s3))"

definition ConsumeMessagesEvery :: "('f, 'j, 's) amqp \<Rightarrow> QueueConfig \<Rightarrow> ('f, 'j, 's) ConsumeHandler \<Rightarrow> 's \<Rightarrow>
    (goerr \<times> 's) option option" where
  "ConsumeMessagesEvery A q consumer s = consume_every A q consumer 0 s"

section \<open>Backing off\<close>

lemma wrap64_mult: "wrap64 (wrap64 a * b) = wrap64 (a * b)"
proof -
  have "wrap64 a mod 2 ^ 64 = a mod 2 ^ 64" by (simp add: wrap64_def mod_simps)
  then have "(wrap64 a * b) mod 2 ^ 64 = (a * b) mod 2 ^ 64" by (metis mod_mult_left_eq)
  then have "(wrap64 a * b + 2 ^ 63) mod 2 ^ 64 = (a * b + 2 ^ 63) mod 2 ^ 64" by (metis mod_add_left_eq)
  then show ?thesis unfolding wrap64_def by simp
qed

lemma mq_backoff_small: "n \<le> 33 \<Longrightarrow> second \<le> mq_backoff n \<and> mq_backoff n \<le> 60 * second"
proof -
  assume "n \<le> 33"
  then have "n \<in> set [0..<34]" by simp
  moreover have "list_all (\<lambda>n. second \<le> mq_backoff n \<and> mq_backoff n \<le> 60 * second) [0..<34]" by code_simp
  ultimately show ?thesis unfolding list_all_iff by blast
qed

lemma backoff_large: "n \<ge> 55 \<Longrightarrow> mq_backoff n = 0"
proof -
  assume "n \<ge> 55"
  then obtain k where k: "n = 55 + k" using le_Suc_ex by blast
  have "(2 :: int) ^ n * second = (2 ^ k * 5 ^ 9) * 2 ^ 64" by (simp add: k power_add second_def)
  moreover have "wrap64 (x * 2 ^ 64) = 0" for x :: int unfolding wrap64_def by (simp only: mod_mult_self3) simp
  ultimately have "wrap64 ((2 :: int) ^ n * second) = 0" by metis
  then show ?thesis by (simp add: mq_backoff_def wrap64_mult second_def)
qed

section \<open>Confirmations\<close>

text \<open>What the loop receives while it waits for \<open>n\<close> confirmations, and the messages these leave unconfirmed.\<close>

fun received :: "('f, 'j, 's) amqp \<Rightarrow> nat \<Rightarrow> nat \<Rightarrow> 's \<Rightarrow> confirm_event list" where
  "received A ch 0 s = []"
| "received A ch (Suc n) s =
     (case ch_await A ch s of (Confirmed t b, s1) \<Rightarrow> Confirmed t b # received A ch n s1 | (e, s1) \<Rightarrow> [e])"

fun unacked :: "'m list \<Rightarrow> confirm_event list \<Rightarrow> 'm list" where
  "unacked [] es = []"
| "unacked (m # ms) (Confirmed t True # es) = unacked ms es"
| "unacked (m # ms) (Confirmed t False # es) = m # unacked ms es"
| "unacked ms es = ms"

text \<open>Confirmations come in the order of publication, counted from \<open>k\<close>.\<close>

fun in_order :: "nat \<Rightarrow> confirm_event list \<Rightarrow> bool" where
  "in_order k [] = True"
| "in_order k (Confirmed t b # es) = (t = k \<and> in_order (Suc k) es)"
| "in_order k (e # es) = in_order (Suc k) es"

definition all_confirmed :: "confirm_event list \<Rightarrow> bool" where
  "all_confirmed es \<longleftrightarrow> (\<forall>e \<in> set es. \<exists>t. e = Confirmed t True)"

lemma confirm_loop_result:
  assumes "i \<le> length ms" "in_order (Suc i) (received A ch (length ms - i) s)"
  shows "\<exists>f r s'. confirm_loop A ch ms i failed s = Some (f, r, s') \<and>
     (f = failed @ unacked (drop i ms) (received A ch (length ms - i) s) \<or> f = ms \<and> r \<noteq> None) \<and>
     (r = None \<longleftrightarrow> failed = [] \<and> all_confirmed (received A ch (length ms - i) s))"
  using assms
proof (induction "length ms - i" arbitrary: i failed s)
  case 0
  then show ?case by (subst confirm_loop.simps) (auto simp: all_confirmed_def)
next
  case (Suc n)
  then have lt: "i < length ms" and n: "length ms - i = Suc n" "n = length ms - Suc i" by simp_all
  have dr: "drop i ms = ms ! i # drop (Suc i) ms" using lt by (simp add: Cons_nth_drop_Suc)
  obtain e s1 where aw: "ch_await A ch s = (e, s1)" by fastforce
  show ?case
  proof (cases e)
    case (Confirmed t b)
    then have ord: "t = Suc i" "in_order (Suc (Suc i)) (received A ch (length ms - Suc i) s1)"
      using Suc.prems(2) aw n by simp_all
    show ?thesis
    proof (cases b)
      case True
      then have "confirm_loop A ch ms i failed s = confirm_loop A ch ms (Suc i) failed s1"
        using lt aw Confirmed by (subst confirm_loop.simps) simp
      moreover have "all_confirmed (received A ch (length ms - i) s) = all_confirmed (received A ch (length ms - Suc i) s1)"
        using True aw Confirmed n by (simp add: all_confirmed_def)
      moreover have "unacked (drop i ms) (received A ch (length ms - i) s) = unacked (drop (Suc i) ms) (received A ch (length ms - Suc i) s1)"
        using True aw Confirmed n dr by simp
      ultimately show ?thesis using Suc.hyps(1) [OF n(2) _ ord(2), of failed] lt by simp
    next
      case False
      then have "confirm_loop A ch ms i failed s = confirm_loop A ch ms (Suc i) (failed @ [ms ! i]) s1"
        using lt aw Confirmed ord(1) by (subst confirm_loop.simps) simp
      moreover have "\<not> all_confirmed (received A ch (length ms - i) s)"
        using False aw Confirmed n by (simp add: all_confirmed_def)
      moreover have "unacked (drop i ms) (received A ch (length ms - i) s) = ms ! i # unacked (drop (Suc i) ms) (received A ch (length ms - Suc i) s1)"
        using False aw Confirmed n dr by simp
      ultimately show ?thesis using Suc.hyps(1) [OF n(2) _ ord(2), of "failed @ [ms ! i]"] lt by simp
    qed
  qed (use lt aw n dr in \<open>subst confirm_loop.simps, simp add: all_confirmed_def\<close>)+
qed

lemma confirm_loop_nil_error:
  "confirm_loop A ch ms i failed s = Some (f, None, s') \<Longrightarrow> f = []"
proof (induction "length ms - i" arbitrary: i failed s)
  case 0
  then show ?case by (subst (asm) confirm_loop.simps) (auto split: if_splits)
next
  case (Suc n)
  then have "\<not> length ms \<le> i" "n = length ms - Suc i" by simp_all
  with Suc.prems Suc.hyps(1) [OF this(2)] show ?case
    by (subst (asm) confirm_loop.simps) (auto split: if_splits prod.splits confirm_event.splits bool.splits)
qed

lemma publish_loop_marks:
  "publish_loop A q ch ms s = (None, ms1, s1) \<Longrightarrow> ms1 = map (\<lambda>m. m\<lparr>DeliveryMode := Persistent\<rparr>) ms"
  by (induction ms arbitrary: s ms1 s1) (auto simp: Let_def split: prod.splits option.splits)

lemma SendMessages_nil_error:
  assumes "SendMessages A q ms s = Some (failed, None, ms1, s')"
  shows "failed = []"
  using assms confirm_loop_nil_error unfolding SendMessages_def by (auto split: prod.splits sum.splits option.splits)

section \<open>Properties\<close>

text \<open>
  C13. Publisher confirms lose nothing: when confirmations come in publication order, as the broker documents, \<^verbatim>\<open>SendMessages\<close> returns;
  it returns no error exactly when the broker has confirmed every message, and otherwise its failed list has all messages that were
  not confirmed (the whole batch when the context ended).
\<close>

theorem send_reports_unconfirmed:
  fixes A :: "('f, 'j, 's) amqp"
  assumes "GetCh A s = (Inr ch, s1)" "ch_Confirm A ch s1 = (None, s2)" "publish_loop A q ch ms s2 = (None, ms1, s3)"
    "in_order 1 (received A ch (length ms) s3)"
  shows "\<exists>failed r s'. SendMessages A q ms s = Some (failed, r, map (\<lambda>m. m\<lparr>DeliveryMode := Persistent\<rparr>) ms, s') \<and>
      (r = None \<longleftrightarrow> all_confirmed (received A ch (length ms) s3)) \<and>
      (failed = unacked ms1 (received A ch (length ms) s3) \<or> failed = ms1 \<and> r \<noteq> None)"
proof -
  have ms1: "ms1 = map (\<lambda>m. m\<lparr>DeliveryMode := Persistent\<rparr>) ms" by (rule publish_loop_marks [OF assms(3)])
  then show ?thesis
    using assms confirm_loop_result [of 0 ms1 A ch s3 "[]"] by (auto simp: SendMessages_def)
qed

text \<open>
  A batch is always sent again as a whole: \<^verbatim>\<open>SendMessages\<close> never reports failed messages without an error, so the branch of
  \<^verbatim>\<open>SendMessagesEvery\<close> that keeps only the failed ones is never taken, and every further round publishes all messages, those that the
  broker has confirmed included.
\<close>

theorem retry_resends_whole_batch:
  fixes A :: "('f, 'j, 's) amqp"
  assumes "send_round A q False messages pending s = Some (False, r, pending1, s1)"
  shows "pending1 = messages \<and> r \<noteq> None"
  using assms SendMessages_nil_error [of A q pending s]
  unfolding send_round_def by (auto split: option.splits prod.splits if_splits)

lemma Delivery_Ack_settles: "Acked (fst (Delivery_Ack A (d, s))) \<or> Nacked (fst (Delivery_Ack A (d, s)))"
  by (auto simp: Delivery_Ack_def split: prod.splits option.splits)

lemma Delivery_Nack_settles: "Acked (fst (Delivery_Nack A (d, s))) \<or> Nacked (fst (Delivery_Nack A (d, s)))"
  by (auto simp: Delivery_Nack_def split: prod.splits option.splits)

lemma RetryLater_settles:
  assumes "RetryLater A q delay (d, s) = Some (d1, s1)"
  shows "Acked d1 \<or> Nacked d1 \<or> DErr d1 \<noteq> None"
proof -
  have "Acked d1 \<or> Nacked d1" if "Delivery_Ack A (d2, s2) = (d1, s1)" for d2 s2
    using Delivery_Ack_settles [of A d2 s2] that by simp
  moreover have "Acked d1 \<or> Nacked d1" if "Delivery_Nack A (d2, s2) = (d1, s1)" for d2 s2
    using Delivery_Nack_settles [of A d2 s2] that by simp
  ultimately show ?thesis
    using assms unfolding RetryLater_def Let_def by (auto split: if_splits option.splits prod.splits)
qed


definition broker_confirmed :: "('f, 'j, 's) amqp \<Rightarrow> QueueConfig \<Rightarrow> ('f, 'j) Publishing \<Rightarrow> 's \<Rightarrow> bool" where
  "broker_confirmed A q p s \<longleftrightarrow>
     (\<exists>ch s1 s2 s3 tag s4. GetCh A s = (Inr ch, s1) \<and> ch_Confirm A ch s1 = (None, s2) \<and>
        ch_Publish A ch (ExchangeName q) (RouteKey q) (p\<lparr>DeliveryMode := Persistent\<rparr>) s2 = (None, s3) \<and>
        ch_await A ch s3 = (Confirmed tag True, s4))"

lemma confirm_loop_one:
  assumes "confirm_loop A ch [x] 0 [] s = Some (f, None, s5)"
  shows "\<exists>tag s4. ch_await A ch s = (Confirmed tag True, s4)"
proof -
  obtain e s4 where aw: "ch_await A ch s = (e, s4)" by fastforce
  have "\<exists>tag. e = Confirmed tag True"
  proof (cases e)
    case (Confirmed t b)
    show ?thesis
    proof (cases b)
      case False
      then have "confirm_loop A ch [x] (Suc 0) [x] s4 = Some (f, None, s5)"
        using assms aw Confirmed by (subst (asm) confirm_loop.simps) (auto split: if_splits)
      then show ?thesis by (subst (asm) confirm_loop.simps) simp
    qed (use Confirmed in simp)
  qed (use assms aw in \<open>subst (asm) confirm_loop.simps, simp\<close>)+
  then show ?thesis using aw by blast
qed

lemma SendMessages_one_confirmed:
  assumes "SendMessages A q [p] s = Some (f, None, ms1, s')"
  shows "broker_confirmed A q p s"
  using assms unfolding SendMessages_def broker_confirmed_def
  by (auto simp: Let_def dest!: confirm_loop_one split: prod.splits sum.splits option.splits)


text \<open>
  The backoff holds for the first attempts only: it is between one second and a minute for the attempts 0 to 33, and 0 from attempt
  55 on, where the shifted duration has wrapped to nothing, so that a loop whose broker stays away spins without waiting.
\<close>

theorem backoff_wraps_to_zero:
  "(\<forall>n \<le> 33. second \<le> mq_backoff n \<and> mq_backoff n \<le> 60 * second) \<and> (\<forall>n \<ge> 55. mq_backoff n = 0)"
  using mq_backoff_small backoff_large by blast

definition tx_laws :: "('f, 'j, 's) amqp \<Rightarrow> ('s \<Rightarrow> ('f, 'j) Publishing list) \<Rightarrow> (nat \<Rightarrow> 's \<Rightarrow> ('f, 'j) Publishing list) \<Rightarrow> bool" where
  "tx_laws A visible open_tx \<longleftrightarrow>
     (\<forall>k s. visible (snd (conn_Channel A k s)) = visible s) \<and>
     (\<forall>ch s. visible (snd (ch_Tx A ch s)) = visible s \<and> (fst (ch_Tx A ch s) = None \<longrightarrow> open_tx ch (snd (ch_Tx A ch s)) = [])) \<and>
     (\<forall>ch x r m s. visible (snd (ch_Publish A ch x r m s)) = visible s \<and>
        (fst (ch_Publish A ch x r m s) = None \<longrightarrow> open_tx ch (snd (ch_Publish A ch x r m s)) = open_tx ch s @ [m])) \<and>
     (\<forall>ch s. visible (snd (ch_TxCommit A ch s)) = visible s @ (if fst (ch_TxCommit A ch s) = None then open_tx ch s else [])) \<and>
     (\<forall>ch s. visible (snd (ch_TxRollback A ch s)) = visible s) \<and>
     (\<forall>ch s. visible (ch_Close A ch s) = visible s)"

lemma publish_loop_tx:
  assumes "tx_laws A visible open_tx"
  shows "publish_loop A q ch ms s = (r, ms1, s1) \<Longrightarrow> visible s1 = visible s \<and> (r = None \<longrightarrow> open_tx ch s1 = open_tx ch s @ ms1)"
proof (induction ms arbitrary: s ms1 r s1)
  case (Cons m ms)
  let ?m = "m\<lparr>DeliveryMode := Persistent\<rparr>"
  obtain r2 s2 where p: "ch_Publish A ch (ExchangeName q) (RouteKey q) ?m s = (r2, s2)" by fastforce
  have law: "visible s2 = visible s" "r2 = None \<Longrightarrow> open_tx ch s2 = open_tx ch s @ [?m]"
    using assms p unfolding tx_laws_def by (metis fst_conv snd_conv)+
  show ?case
  proof (cases r2)
    case None
    obtain r3 ms3 s3 where rec: "publish_loop A q ch ms s2 = (r3, ms3, s3)" by (cases "publish_loop A q ch ms s2")
    from Cons.IH [OF this] Cons.prems p None rec law show ?thesis by (auto simp: Let_def)
  qed (use Cons.prems p law in \<open>auto simp: Let_def\<close>)
qed simp


section \<open>The watcher and Close\<close>

text \<open>
  What the code relies on of connections: a dial opens exactly the connection it returns, closing one closes only that one, a
  connection is closed when it is not open, reporting an error touches none, and the network only takes connections away.
\<close>

definition conn_laws :: "('f, 'j, 's) amqp \<Rightarrow> ('s \<Rightarrow> 's \<Rightarrow> bool) \<Rightarrow> ('s \<Rightarrow> nat set) \<Rightarrow> bool" where
  "conn_laws A N opened \<longleftrightarrow>
     (\<forall>dsn hb t s. opened (snd (DialConfig A dsn hb t s)) =
        (case fst (DialConfig A dsn hb t s) of Inl _ \<Rightarrow> opened s | Inr k \<Rightarrow> insert k (opened s))) \<and>
     (\<forall>k s. opened (conn_Close A k s) = opened s - {k}) \<and>
     (\<forall>k s. conn_IsClosed A k s \<longleftrightarrow> k \<notin> opened s) \<and>
     (\<forall>e s. opened (mq_notify A e s) = opened s) \<and>
     (\<forall>s t. N s t \<longrightarrow> opened t \<subseteq> opened s)"

lemma dial_loop_opened:
  assumes "conn_laws A N opened"
  shows "dial_loop A hb t ds le s = (r, s1) \<Longrightarrow> opened s1 = (case r of Inl _ \<Rightarrow> opened s | Inr k \<Rightarrow> insert k (opened s))"
proof (induction ds arbitrary: le s)
  case (Cons dsn ds)
  obtain r2 s2 where d: "DialConfig A dsn hb t s = (r2, s2)" by fastforce
  then have law: "opened s2 = (case r2 of Inl _ \<Rightarrow> opened s | Inr k \<Rightarrow> insert k (opened s))"
    using assms unfolding conn_laws_def by (metis fst_conv snd_conv)
  show ?case
  proof (cases r2)
    case (Inl e)
    with d law Cons.prems show ?thesis using Cons.IH [of "Some e" s2] by (simp split: sum.splits)
  next
    case (Inr k)
    then have "r = Inr k" "s1 = s2" using d Cons.prems by simp_all
    then show ?thesis using law Inr by simp
  qed
next
  case Nil
  then have "r = Inl le" "s1 = s" by simp_all
  then show ?case by simp
qed

lemma reconnect_opened:
  assumes "conn_laws A N opened" "opened s \<subseteq> set_option (conn c)" "reconnect A (c, s) = (r, c1, s1)"
  shows "opened s1 = set_option (conn c1) \<and> (r = None \<longleftrightarrow> conn c1 \<noteq> None) \<and> closeCh c1 = closeCh c"
proof -
  define s0 where "s0 = hang_up A (c, s)"
  have s0: "opened s0 = {}"
    using assms(1,2) unfolding s0_def hang_up_def conn_laws_def by (cases "conn c") auto
  show ?thesis
  proof (cases "tls_config A (cfg c) s0")
    case (Inl e)
    then show ?thesis using assms(3) s0 by (auto simp: reconnect_def s0_def [symmetric] Let_def)
  next
    case (Inr t)
    obtain dr s2 where d: "dial_loop A (wrap64 (Heartbeat (cfg c) * second)) t (DSN (cfg c)) None s0 = (dr, s2)" by fastforce
    with dial_loop_opened [OF assms(1) d] s0 Inr show ?thesis
      using assms(3) by (auto simp: reconnect_def s0_def [symmetric] Let_def split: sum.splits option.splits)
  qed
qed

lemma reconnect_ok:
  assumes "reconnect A (c, s) = (None, c1, s1)"
  shows "closeCh c1 = closeCh c \<and> (\<exists>k. conn c1 = Some k)"
  using assms by (auto simp: reconnect_def Let_def split: sum.splits option.splits prod.splits)

definition watch_start :: "Connect \<times> 's \<Rightarrow> 's watch_state" where
  "watch_start w = \<lparr>wpc = WTop, wconn = w, wclosing = False\<rparr>"

definition watch_inv :: "('s \<Rightarrow> nat set) \<Rightarrow> 's watch_state \<Rightarrow> bool" where
  "watch_inv opened w \<longleftrightarrow> opened (snd (wconn w)) \<subseteq> set_option (conn (fst (wconn w))) \<and> (wclosing w \<longrightarrow> closeCh (fst (wconn w)))"

lemma watch_step_inv:
  assumes laws: "conn_laws A N opened"
  shows "watch_step A N v w \<Longrightarrow> watch_inv opened v \<Longrightarrow> watch_inv opened w"
proof (induction rule: watch_step.induct)
  case (notify_err w k err)
  then show ?case using laws by (simp add: watch_inv_def conn_laws_def)
next
  case (redial_ok w n cs)
  then show ?case using reconnect_opened [OF laws, of "snd (wconn w)" "fst (wconn w)" None "fst cs" "snd cs"] by (simp add: watch_inv_def)
next
  case (redial_fail w n e cs)
  then show ?case using reconnect_opened [OF laws, of "snd (wconn w)" "fst (wconn w)" "Some e" "fst cs" "snd cs"] by (simp add: watch_inv_def)
next
  case (close_lock w)
  then show ?case using laws by (auto simp: watch_inv_def close_conn_def conn_laws_def split: option.splits)
next
  case (network w s)
  then have "opened s \<subseteq> opened (snd (wconn w))" using laws by (simp add: conn_laws_def)
  then show ?case using network by (auto simp: watch_inv_def)
qed (simp_all add: watch_inv_def)

text \<open>
  C28. There is never a second connection: however the watcher, a caller of \<^verbatim>\<open>Close\<close> and the network interleave, the only connection
  that can be open is the one that \<^verbatim>\<open>Connect\<close> holds.
\<close>

theorem one_connection:
  fixes A :: "('f, 'j, 's) amqp"
  assumes "conn_laws A N opened" "NewRabbitMQ A config s = (Inr c, s1)" "opened s = {}"
    "(watch_step A N)\<^sup>*\<^sup>* (watch_start (c, s1)) w"
  shows "opened (snd (wconn w)) \<subseteq> set_option (conn (fst (wconn w)))"
proof -
  obtain r c2 s2 where rc: "reconnect A (\<lparr>conn = None, cfg = ensureDefaults config, closeCh = False\<rparr>, s) = (r, c2, s2)"
    using prod_cases3 by blast
  then have "r = None" "c2 = c" "s2 = s1" using assms(2) by (auto simp: NewRabbitMQ_def split: option.splits)
  with reconnect_opened [OF assms(1) _ rc] assms(3) have start: "watch_inv opened (watch_start (c, s1))"
    by (simp add: watch_inv_def watch_start_def)
  from assms(4) have "watch_inv opened w"
    by (induction rule: rtranclp_induct) (use start in \<open>auto intro: watch_step_inv [OF assms(1)]\<close>)
  then show ?thesis by (simp add: watch_inv_def)
qed

text \<open>
  \<^verbatim>\<open>Close\<close> can leave a connection open: when the connection is lost and the watcher has passed its check of \<^verbatim>\<open>closeCh\<close> but not yet
  redialled, a whole call of \<^verbatim>\<open>Close\<close> fits in between; the watcher then dials, and returns with the new connection open and nobody left
  to close it.
\<close>

theorem close_can_leak_connection:
  fixes A :: "('f, 'j, 's) amqp"
  assumes "conn c = Some k" "\<not> closeCh c" "N s t" "conn_IsClosed A k t" "reconnect A (c\<lparr>closeCh := True\<rparr>, t) = (None, c1, t1)"
  shows "\<exists>w. (watch_step A N)\<^sup>*\<^sup>* (watch_start (c, s)) w \<and> wpc w = WReturned \<and> closeCh (fst (wconn w)) \<and> \<not> wclosing w \<and>
      wconn w = (c1, t1) \<and> conn c1 \<noteq> None"
proof -
  let ?c = "c\<lparr>closeCh := True\<rparr>"
  let ?st = "\<lambda>pc cs cl. \<lparr>wpc = pc, wconn = cs, wclosing = cl\<rparr>"
  note R = rtranclp.rtrancl_into_rtrancl [of "watch_step A N" "watch_start (c, s)"]
  obtain k1 where c1: "closeCh c1" "conn c1 = Some k1" using reconnect_ok [OF assms(5)] by auto
  have "(watch_step A N)\<^sup>*\<^sup>* (watch_start (c, s)) (?st WTop (c, s) False)" by (simp add: watch_start_def)
  then have "(watch_step A N)\<^sup>*\<^sup>* (watch_start (c, s)) (?st (WNotify k) (c, s) False)"
    by (rule R) (use top_some [of "?st WTop (c, s) False" k] assms(1) in simp)
  then have "(watch_step A N)\<^sup>*\<^sup>* (watch_start (c, s)) (?st (WNotify k) (c, t) False)"
    by (rule R) (use network [of N "?st (WNotify k) (c, s) False" t] assms(3) in simp)
  then have "(watch_step A N)\<^sup>*\<^sup>* (watch_start (c, s)) (?st (WCheck 0) (c, t) False)"
    by (rule R) (use notify_nil [of "?st (WNotify k) (c, t) False" k] assms(4) in simp)
  then have "(watch_step A N)\<^sup>*\<^sup>* (watch_start (c, s)) (?st (WRedial 0) (c, t) False)"
    by (rule R) (use check_open [of "?st (WCheck 0) (c, t) False" 0] assms(2) in simp)
  then have "(watch_step A N)\<^sup>*\<^sup>* (watch_start (c, s)) (?st (WRedial 0) (?c, t) True)"
    by (rule R) (use close_signal [of "?st (WRedial 0) (c, t) False"] assms(2) in simp)
  then have "(watch_step A N)\<^sup>*\<^sup>* (watch_start (c, s)) (?st (WRedial 0) (?c, t) False)"
    by (rule R) (use close_lock [of "?st (WRedial 0) (?c, t) True" A N] assms(1,4) in \<open>simp add: close_conn_def\<close>)
  then have "(watch_step A N)\<^sup>*\<^sup>* (watch_start (c, s)) (?st WTop (c1, t1) False)"
    by (rule R) (use redial_ok [of "?st (WRedial 0) (?c, t) False" 0] assms(5) in simp)
  then have "(watch_step A N)\<^sup>*\<^sup>* (watch_start (c, s)) (?st (WNotify k1) (c1, t1) False)"
    by (rule R) (use top_some [of "?st WTop (c1, t1) False" k1] c1 in simp)
  then have "(watch_step A N)\<^sup>*\<^sup>* (watch_start (c, s)) (?st WReturned (c1, t1) False)"
    by (rule R) (use notify_closed [of "?st (WNotify k1) (c1, t1) False" k1] c1 in simp)
  then show ?thesis using c1 by fastforce
qed

section \<open>Witnesses\<close>

text \<open>A small broker: what is visible, the open transaction, the confirmations to come, the open connections.\<close>

record demo_net =
  nvis :: "(unit, unit) Publishing list"
  ntx :: "(unit, unit) Publishing list"
  nconf :: "confirm_event list"
  nopen :: "nat set"

definition demo_amqp :: "(unit, unit, demo_net) amqp" where
  "demo_amqp = \<lparr>DialConfig = (\<lambda>_ _ _ s. (Inr 7, s\<lparr>nopen := insert 7 (nopen s)\<rparr>)), conn_IsClosed = (\<lambda>k s. k \<notin> nopen s),
     conn_Close = (\<lambda>k s. s\<lparr>nopen := nopen s - {k}\<rparr>), conn_Channel = (\<lambda>_ s. (Inr 1, s)), ch_Close = (\<lambda>_ s. s),
     ch_ExchangeDeclare = (\<lambda>_ _ _ _ s. (None, s)), ch_QueueDeclare = (\<lambda>_ _ _ s. (None, s)), ch_QueueBind = (\<lambda>_ _ _ _ s. (None, s)),
     ch_Confirm = (\<lambda>_ s. (None, s)), ch_Publish = (\<lambda>_ _ _ m s. (None, s\<lparr>ntx := ntx s @ [m]\<rparr>)),
     ch_await = (\<lambda>_ s. case nconf s of [] \<Rightarrow> (TimedOut, s) | e # es \<Rightarrow> (e, s\<lparr>nconf := es\<rparr>)),
     ch_Tx = (\<lambda>_ s. (None, s\<lparr>ntx := []\<rparr>)), ch_TxCommit = (\<lambda>_ s. (None, s\<lparr>nvis := nvis s @ ntx s, ntx := []\<rparr>)),
     ch_TxRollback = (\<lambda>_ s. (None, s\<lparr>ntx := []\<rparr>)), ch_Qos = (\<lambda>_ _ s. (None, s)), ch_Consume = (\<lambda>_ _ s. (None, s)),
     ch_Cancel = (\<lambda>_ s. s), ch_next = (\<lambda>_ s. (DeliveriesClosed, s)), d_Ack = (\<lambda>_ s. (None, s)), d_Nack = (\<lambda>_ s. (None, s)),
     os_ReadFile = (\<lambda>_ _. Inl (ErrNew ''none'')), LoadX509KeyPair = (\<lambda>_ _ _. Inl (ErrNew ''none'')),
     ctx_Err = (\<lambda>_. None), wait_for = (\<lambda>_ s. (None, s)), mq_notify = (\<lambda>_ s. s), mq_stack = [], mq_conv = demo_conv,
     cur_conn = (\<lambda>_. Some 7)\<rparr>"

definition demo_pub :: "string \<Rightarrow> (unit, unit) Publishing" where
  "demo_pub body = \<lparr>Headers = None, ContentType = [], ContentEncoding = [], DeliveryMode = 0, Priority = 0, CorrelationId = [], ReplyTo = [],
     Expiration = [], MessageId = [], Timestamp = 0, MType = [], UserId = [], AppId = [], MBody = body\<rparr>"

definition demo_queue :: "int \<Rightarrow> QueueConfig" where
  "demo_queue md = \<lparr>ExchangeName = ''x'', ExchangeType = [], RouteKey = ''r'', QueueName = ''q'', QueueType = [], Prefetch = 0, MaxDelay = md\<rparr>"

definition demo_mq :: "confirm_event list \<Rightarrow> demo_net" where
  "demo_mq es = \<lparr>nvis = [], ntx = [], nconf = es, nopen = {7}\<rparr>"

definition demo_dsn :: Config where
  "demo_dsn = \<lparr>DSN = [''amqp://a''], CA = [], CertFile = [], KeyFile = [], Heartbeat = 0\<rparr>"

lemmas demo_mq_defs = Let_def demo_amqp_def demo_pub_def demo_queue_def demo_mq_def demo_dsn_def

theorem backoff_wraps_to_zero_witness: "second \<le> mq_backoff 33 \<and> mq_backoff 60 = 0"
  using backoff_wraps_to_zero by simp

text \<open>The second of two messages is refused: it alone is reported.\<close>

theorem send_reports_unconfirmed_witness:
  "\<exists>failed r s'. SendMessages demo_amqp (demo_queue 0) [demo_pub ''a'', demo_pub ''b''] (demo_mq [Confirmed 1 True, Confirmed 2 False]) =
      Some (failed, r, map (\<lambda>m. m\<lparr>DeliveryMode := Persistent\<rparr>) [demo_pub ''a'', demo_pub ''b''], s') \<and> r \<noteq> None \<and>
      (demo_pub ''b'')\<lparr>DeliveryMode := Persistent\<rparr> \<in> set failed"
proof -
  let ?s = "demo_mq [Confirmed 1 True, Confirmed 2 False]"
  let ?ms = "[demo_pub ''a'', demo_pub ''b'']"
  let ?p = "map (\<lambda>m. m\<lparr>DeliveryMode := Persistent\<rparr>) ?ms"
  have 1: "GetCh demo_amqp ?s = (Inr 1, ?s)" "ch_Confirm demo_amqp 1 ?s = (None, ?s)"
    "publish_loop demo_amqp (demo_queue 0) 1 ?ms ?s = (None, ?p, ?s\<lparr>ntx := ?p\<rparr>)"
    by (simp_all add: demo_mq_defs GetCh_def)
  have 2: "received demo_amqp 1 (length ?ms) (?s\<lparr>ntx := ?p\<rparr>) = [Confirmed 1 True, Confirmed 2 False]"
    by (simp add: demo_amqp_def demo_mq_def)
  show ?thesis
    using send_reports_unconfirmed [OF 1] unfolding 2 by (auto simp: all_confirmed_def)
qed

theorem retry_resends_whole_batch_witness:
  "\<exists>s1 r. send_round demo_amqp (demo_queue 0) False [demo_pub ''a'', demo_pub ''b''] [demo_pub ''a'', demo_pub ''b'']
      (demo_mq [Confirmed 1 True, Confirmed 2 False]) = Some (False, r, [demo_pub ''a'', demo_pub ''b''], s1) \<and> r \<noteq> None"
proof -
  let ?r = "send_round demo_amqp (demo_queue 0) False [demo_pub ''a'', demo_pub ''b''] [demo_pub ''a'', demo_pub ''b'']
      (demo_mq [Confirmed 1 True, Confirmed 2 False])"
  have "(case ?r of Some (False, _) \<Rightarrow> True | _ \<Rightarrow> False)" by code_simp
  then obtain r p s1 where "?r = Some (False, r, p, s1)" by (cases ?r) (auto split: bool.splits)
  then show ?thesis using retry_resends_whole_batch [of demo_amqp "demo_queue 0"] by simp
qed




lemma demo_conn_laws: "conn_laws demo_amqp (\<lambda>s t. nopen t \<subseteq> nopen s) nopen"
  by (simp add: conn_laws_def demo_amqp_def)

theorem one_connection_witness:
  "\<exists>c s1. NewRabbitMQ demo_amqp demo_dsn ((demo_mq [])\<lparr>nopen := {}\<rparr>) = (Inr c, s1) \<and>
     nopen (snd (wconn (watch_start (c, s1)))) \<subseteq> set_option (conn (fst (wconn (watch_start (c, s1)))))"
proof -
  have "\<exists>c s1. NewRabbitMQ demo_amqp demo_dsn ((demo_mq [])\<lparr>nopen := {}\<rparr>) = (Inr c, s1)"
    by (simp add: NewRabbitMQ_def reconnect_def hang_up_def tls_config_def ensureDefaults_def demo_mq_defs)
  then show ?thesis using one_connection [OF demo_conn_laws _ _ rtranclp.rtrancl_refl] by fastforce
qed

theorem close_can_leak_connection_witness:
  "\<exists>w. (watch_step demo_amqp (\<lambda>s t. nopen t \<subseteq> nopen s))\<^sup>*\<^sup>* (watch_start (\<lparr>conn = Some 7, cfg = demo_dsn, closeCh = False\<rparr>, demo_mq [])) w \<and>
     wpc w = WReturned \<and> closeCh (fst (wconn w)) \<and> nopen (snd (wconn w)) = {7}"
proof -
  let ?c = "\<lparr>conn = Some 7, cfg = demo_dsn, closeCh = False\<rparr>"
  let ?t = "(demo_mq [])\<lparr>nopen := {}\<rparr>"
  have r: "reconnect demo_amqp (?c\<lparr>closeCh := True\<rparr>, ?t) = (None, ?c\<lparr>closeCh := True\<rparr>, demo_mq [])"
    by (simp add: reconnect_def hang_up_def tls_config_def demo_mq_defs)
  have "nopen ?t \<subseteq> nopen (demo_mq [])" "conn_IsClosed demo_amqp 7 ?t" by (simp_all add: demo_amqp_def)
  from close_can_leak_connection [where c = ?c and N = "\<lambda>s t. nopen t \<subseteq> nopen s", OF _ _ this r]
  show ?thesis by (auto simp: demo_mq_def)
qed

end
