(* ===== verification/Ws_Conn.thy ===== *)
theory Ws_Conn
  imports Go_Errors
begin

text \<open>
  The WebSocket client and server of \<^verbatim>\<open>net/ws\<close>.  Goroutines are step relations over a shared state: for the client the runners that
  \<^verbatim>\<open>Start\<close> spawns and the callers of \<^verbatim>\<open>Stop\<close>, for a connection of the server every goroutine that sends, answers pings or closes.
  Sockets are numbers, and what the network does (a dial or a write succeeds or fails, a connection is lost) is a choice of the step relation.
\<close>

section \<open>Client\<close>

text \<open>Durations are nanoseconds; \<open>'h\<close> are headers and \<open>'d\<close> dialers, which the client only keeps.\<close>

record ('h, 'd) Client =
  url :: string
  headers :: "'h option"
  dialer :: "'d option"
  pongWait :: int
  pingInterval :: int
  writeTimeout :: int
  retryBase :: int
  retryMax :: int
  readLimit :: int

datatype ('h, 'd) ws_option =
    WithHeaders 'h
  | WithDialer 'd
  | WithRetry int int
  | WithReadLimit int
  | WithPingInterval int
  | WithPongWait int
  | WithWriteTimeout int

fun apply_ws_option :: "('h, 'd) ws_option \<Rightarrow> ('h, 'd) Client \<Rightarrow> ('h, 'd) Client" where
  "apply_ws_option (WithHeaders h) c = c\<lparr>headers := Some h\<rparr>"
| "apply_ws_option (WithDialer d) c = c\<lparr>dialer := Some d\<rparr>"
| "apply_ws_option (WithRetry base mx) c = c\<lparr>retryBase := base, retryMax := mx\<rparr>"
| "apply_ws_option (WithReadLimit limit) c = c\<lparr>readLimit := limit\<rparr>"
| "apply_ws_option (WithPingInterval i) c = c\<lparr>pingInterval := i\<rparr>"
| "apply_ws_option (WithPongWait w) c = c\<lparr>pongWait := w\<rparr>"
| "apply_ws_option (WithWriteTimeout t) c = c\<lparr>writeTimeout := t\<rparr>"

definition NewClient :: "string \<Rightarrow> ('h, 'd) ws_option list \<Rightarrow> ('h, 'd) Client" where
  "NewClient u opts =
     foldl (\<lambda>c op. apply_ws_option op c)
       \<lparr>url = u, headers = None, dialer = None, pongWait = 60 * 10 ^ 9, pingInterval = 20 * 10 ^ 9, writeTimeout = 5 * 10 ^ 9,
        retryBase = 10 ^ 9, retryMax = 30 * 10 ^ 9, readLimit = 0\<rparr> opts"

text \<open>
  Where a runner is: not started; at the top of the loop; dialling; holding the new socket before it is installed, after it has seen an
  old one to close, and before it stores the new one; connected but not yet marked; serving, with its read and ping loops; closing the socket;
  removing it from the client; marking the client disconnected; past the callback; waiting to retry; returned.
\<close>

datatype run_pc =
    ROff | RTop | RDial | RInstall nat | RSwitch nat nat | RSet nat | RMark nat | RUp nat | RClosing nat | RUnset nat
  | RDown | RAfter | RRetry | RExit

datatype stop_pc = SOff | SSignal | SWait | STake | SShut nat | SDone

record ws_state =
  isRunning :: bool
  isConnected :: bool
  cdone :: bool
  cconn :: "nat option"
  socks :: "nat set"
  runners :: "nat \<Rightarrow> run_pc"
  stoppers :: "nat \<Rightarrow> stop_pc"

definition ws_init :: ws_state where
  "ws_init = \<lparr>isRunning = False, isConnected = False, cdone = False, cconn = None, socks = {}, runners = (\<lambda>_. ROff), stoppers = (\<lambda>_. SOff)\<rparr>"

definition at :: "ws_state \<Rightarrow> nat \<Rightarrow> run_pc \<Rightarrow> ws_state" where
  "at s n p = s\<lparr>runners := (runners s)(n := p)\<rparr>"

definition sat :: "ws_state \<Rightarrow> nat \<Rightarrow> stop_pc \<Rightarrow> ws_state" where
  "sat s i p = s\<lparr>stoppers := (stoppers s)(i := p)\<rparr>"

definition resting :: "run_pc \<Rightarrow> bool" where
  "resting p \<longleftrightarrow> p = ROff \<or> p = RExit"

text \<open>\<^verbatim>\<open>Start\<close> and \<^verbatim>\<open>Stop\<close> change \<^verbatim>\<open>isRunning\<close> by compare-and-swap, so a call that finds it otherwise does nothing.\<close>

inductive ws_step :: "ws_state \<Rightarrow> ws_state \<Rightarrow> bool" where
  start: "\<not> isRunning s \<Longrightarrow> runners s n = ROff \<Longrightarrow> ws_step s (at (s\<lparr>isRunning := True\<rparr>) n RTop)"
| top_done: "runners s n = RTop \<Longrightarrow> cdone s \<Longrightarrow> ws_step s (at s n RExit)"
| top: "runners s n = RTop \<Longrightarrow> \<not> cdone s \<Longrightarrow> ws_step s (at s n RDial)"
| dial_fail: "runners s n = RDial \<Longrightarrow> ws_step s (at s n RRetry)"
| dial_ok: "runners s n = RDial \<Longrightarrow> k \<notin> socks s \<Longrightarrow> ws_step s (at (s\<lparr>socks := insert k (socks s)\<rparr>) n (RInstall k))"
| install: "runners s n = RInstall k \<Longrightarrow> cconn s = None \<or> cconn s = Some k \<Longrightarrow> ws_step s (at (s\<lparr>cconn := Some k\<rparr>) n (RMark k))"
| switch: "runners s n = RInstall k \<Longrightarrow> cconn s = Some old \<Longrightarrow> old \<noteq> k \<Longrightarrow> ws_step s (at s n (RSwitch k old))"
| close_old: "runners s n = RSwitch k old \<Longrightarrow> ws_step s (at (s\<lparr>socks := socks s - {old}\<rparr>) n (RSet k))"
| set_new: "runners s n = RSet k \<Longrightarrow> ws_step s (at (s\<lparr>cconn := Some k\<rparr>) n (RMark k))"
| mark: "runners s n = RMark k \<Longrightarrow> ws_step s (at (s\<lparr>isConnected := True\<rparr>) n (RUp k))"
| lost: "runners s n = RUp k \<Longrightarrow> ws_step s (at s n (RClosing k))"
| close_sock: "runners s n = RClosing k \<Longrightarrow> ws_step s (at (s\<lparr>socks := socks s - {k}\<rparr>) n (RUnset k))"
| unset: "runners s n = RUnset k \<Longrightarrow> ws_step s (at (if cconn s = Some k then s\<lparr>cconn := None\<rparr> else s) n RDown)"
| down: "runners s n = RDown \<Longrightarrow> ws_step s (at (s\<lparr>isConnected := False\<rparr>) n RAfter)"
| after_done: "runners s n = RAfter \<Longrightarrow> cdone s \<Longrightarrow> ws_step s (at s n RExit)"
| after: "runners s n = RAfter \<Longrightarrow> \<not> cdone s \<Longrightarrow> ws_step s (at s n RRetry)"
| waited: "runners s n = RRetry \<Longrightarrow> ws_step s (at s n RTop)"
| wait_done: "runners s n = RRetry \<Longrightarrow> cdone s \<Longrightarrow> ws_step s (at s n RExit)"
| stop_cas: "isRunning s \<Longrightarrow> stoppers s i = SOff \<Longrightarrow> ws_step s (sat (s\<lparr>isRunning := False\<rparr>) i SSignal)"
| stop_signal: "stoppers s i = SSignal \<Longrightarrow> ws_step s (sat (s\<lparr>cdone := True\<rparr>) i SWait)"
| stop_wait: "stoppers s i = SWait \<Longrightarrow> \<forall>n. resting (runners s n) \<Longrightarrow> ws_step s (sat s i STake)"
| stop_take: "stoppers s i = STake \<Longrightarrow> cconn s = Some k \<Longrightarrow> ws_step s (sat (s\<lparr>cconn := None\<rparr>) i (SShut k))"
| stop_none: "stoppers s i = STake \<Longrightarrow> cconn s = None \<Longrightarrow> ws_step s (sat s i SDone)"
| stop_shut: "stoppers s i = SShut k \<Longrightarrow> ws_step s (sat (s\<lparr>socks := socks s - {k}\<rparr>) i SDone)"

text \<open>\<^verbatim>\<open>Send\<close>: \<open>write\<close> is the answer of the socket.\<close>

definition client_Send :: "(nat \<Rightarrow> string \<Rightarrow> goerr option) \<Rightarrow> ws_state \<Rightarrow> string \<Rightarrow> goerr option" where
  "client_Send write s dat =
     (if \<not> isConnected s then Some (ErrNew ''not connected'')
      else case cconn s of None \<Rightarrow> Some (ErrNew ''no connection'') | Some k \<Rightarrow> write k dat)"

section \<open>The client's invariant\<close>

text \<open>The socket that a runner has to close, and the one it has to remove from the client.\<close>

fun holds_sock :: "run_pc \<Rightarrow> nat option" where
  "holds_sock (RInstall k) = Some k"
| "holds_sock (RSwitch k old) = Some k"
| "holds_sock (RSet k) = Some k"
| "holds_sock (RMark k) = Some k"
| "holds_sock (RUp k) = Some k"
| "holds_sock (RClosing k) = Some k"
| "holds_sock _ = None"

fun owns_conn :: "run_pc \<Rightarrow> nat option" where
  "owns_conn (RMark k) = Some k"
| "owns_conn (RUp k) = Some k"
| "owns_conn (RClosing k) = Some k"
| "owns_conn (RUnset k) = Some k"
| "owns_conn _ = None"

fun connected_pc :: "run_pc \<Rightarrow> bool" where
  "connected_pc (RUp k) = True"
| "connected_pc (RClosing k) = True"
| "connected_pc (RUnset k) = True"
| "connected_pc RDown = True"
| "connected_pc _ = False"

definition quiet :: "run_pc \<Rightarrow> bool" where
  "quiet p \<longleftrightarrow> p = ROff \<or> p = RTop \<or> p = RExit"

definition signalled :: "stop_pc \<Rightarrow> bool" where
  "signalled p \<longleftrightarrow> p \<noteq> SOff \<and> p \<noteq> SSignal"

definition past_wait :: "stop_pc \<Rightarrow> bool" where
  "past_wait p \<longleftrightarrow> p = STake \<or> p = SDone \<or> (\<exists>k. p = SShut k)"

definition ws_inv :: "ws_state \<Rightarrow> bool" where
  "ws_inv s \<longleftrightarrow>
     (\<forall>k \<in> socks s. \<exists>n. holds_sock (runners s n) = Some k) \<and>
     (\<forall>k. cconn s = Some k \<longrightarrow> (\<exists>n. owns_conn (runners s n) = Some k)) \<and>
     (isConnected s \<longrightarrow> (\<exists>n. connected_pc (runners s n))) \<and>
     (\<forall>i. signalled (stoppers s i) \<longrightarrow> cdone s) \<and>
     (\<forall>i. past_wait (stoppers s i) \<longrightarrow> (\<forall>n. quiet (runners s n)))"

lemma at_simps [simp]:
  "isRunning (at s n p) = isRunning s" "isConnected (at s n p) = isConnected s" "cdone (at s n p) = cdone s" "cconn (at s n p) = cconn s"
  "socks (at s n p) = socks s" "stoppers (at s n p) = stoppers s" "runners (at s n p) = (runners s)(n := p)"
  by (simp_all add: at_def)

lemma sat_simps [simp]:
  "isRunning (sat s i q) = isRunning s" "isConnected (sat s i q) = isConnected s" "cdone (sat s i q) = cdone s" "cconn (sat s i q) = cconn s"
  "socks (sat s i q) = socks s" "runners (sat s i q) = runners s" "stoppers (sat s i q) = (stoppers s)(i := q)"
  by (simp_all add: sat_def)

lemma ex_upd_keep: "\<exists>m. P (f m) \<Longrightarrow> (P (f n) \<Longrightarrow> P x) \<Longrightarrow> \<exists>m. P ((f(n := x)) m)"
  by (metis fun_upd_apply)

lemma ex_upd_new: "P x \<Longrightarrow> \<exists>m. P ((f(n := x)) m)"
  by (metis fun_upd_same)

text \<open>One lemma per clause of the invariant.\<close>

lemma socks_held_step:
  "ws_step s t \<Longrightarrow> \<forall>k \<in> socks s. \<exists>n. holds_sock (runners s n) = Some k \<Longrightarrow> \<forall>k \<in> socks t. \<exists>n. holds_sock (runners t n) = Some k"
proof (induction rule: ws_step.induct)
  case (dial_ok s n k)
  then show ?case
    by (auto intro: ex_upd_new [where P = "\<lambda>p. holds_sock p = Some _"] ex_upd_keep [where P = "\<lambda>p. holds_sock p = Some _"] simp del: fun_upd_apply)
qed (auto intro: ex_upd_keep [where P = "\<lambda>p. holds_sock p = Some _"] simp del: fun_upd_apply)

lemma conn_owned_step:
  "ws_step s t \<Longrightarrow> \<forall>k. cconn s = Some k \<longrightarrow> (\<exists>n. owns_conn (runners s n) = Some k) \<Longrightarrow>
     \<forall>k. cconn t = Some k \<longrightarrow> (\<exists>n. owns_conn (runners t n) = Some k)"
  by (induction rule: ws_step.induct)
    (auto intro: ex_upd_keep [where P = "\<lambda>p. owns_conn p = Some _"] ex_upd_new [where P = "\<lambda>p. owns_conn p = Some _"] simp del: fun_upd_apply)

lemma connected_step:
  "ws_step s t \<Longrightarrow> isConnected s \<longrightarrow> (\<exists>n. connected_pc (runners s n)) \<Longrightarrow> isConnected t \<longrightarrow> (\<exists>n. connected_pc (runners t n))"
  by (induction rule: ws_step.induct)
    (auto intro: ex_upd_keep [where P = connected_pc] ex_upd_new [where P = connected_pc] simp del: fun_upd_apply)

lemma signalled_step:
  "ws_step s t \<Longrightarrow> \<forall>i. signalled (stoppers s i) \<longrightarrow> cdone s \<Longrightarrow> \<forall>i. signalled (stoppers t i) \<longrightarrow> cdone t"
  by (induction rule: ws_step.induct) (auto simp: signalled_def, (metis stop_pc.distinct)+)

definition someone_past :: "ws_state \<Rightarrow> bool" where
  "someone_past s \<longleftrightarrow> (\<exists>i. past_wait (stoppers s i))"

lemma past_wait_simps [simp]:
  "\<not> past_wait SOff" "\<not> past_wait SSignal" "\<not> past_wait SWait" "past_wait STake" "past_wait (SShut k)" "past_wait SDone"
  by (simp_all add: past_wait_def)

lemma quiet_simps [simp]:
  "quiet ROff" "quiet RTop" "quiet RExit" "\<not> quiet RDial" "\<not> quiet (RInstall k)" "\<not> quiet (RSwitch k old)" "\<not> quiet (RSet k)"
  "\<not> quiet (RMark k)" "\<not> quiet (RUp k)" "\<not> quiet (RClosing k)" "\<not> quiet (RUnset k)" "\<not> quiet RDown" "\<not> quiet RAfter" "\<not> quiet RRetry"
  by (simp_all add: quiet_def)

lemma past_signalled: "past_wait p \<Longrightarrow> signalled p"
  by (auto simp: past_wait_def signalled_def)

lemma quietD: "\<forall>n. quiet (runners s n) \<Longrightarrow> runners s n = p \<Longrightarrow> quiet p"
  by auto

lemma someone_past_new:
  "ws_step s t \<Longrightarrow> someone_past t \<Longrightarrow> someone_past s \<or> runners t = runners s \<and> (\<forall>n. resting (runners s n))"
  by (induction rule: ws_step.induct) (auto simp: someone_past_def split: if_splits, (metis past_wait_simps)+)

lemma quiet_keeps:
  "ws_step s t \<Longrightarrow> cdone s \<Longrightarrow> \<forall>n. quiet (runners s n) \<Longrightarrow> \<forall>n. quiet (runners t n)"
  by (induction rule: ws_step.induct) (auto dest: quietD)

lemma quiet_step:
  assumes "ws_step s t" "someone_past s \<longrightarrow> cdone s \<and> (\<forall>n. quiet (runners s n))" "someone_past t"
  shows "\<forall>n. quiet (runners t n)"
proof (cases "someone_past s")
  case True
  then show ?thesis using quiet_keeps assms(1,2) by blast
next
  case False
  then have "runners t = runners s" "\<forall>n. resting (runners s n)" using someone_past_new assms(1,3) by blast+
  then show ?thesis by (auto simp: resting_def quiet_def)
qed

lemma ws_inv_step: "ws_step s t \<Longrightarrow> ws_inv s \<Longrightarrow> ws_inv t"
proof -
  assume st: "ws_step s t" and inv: "ws_inv s"
  have sig: "\<forall>i. signalled (stoppers s i) \<longrightarrow> cdone s" using inv by (simp add: ws_inv_def)
  have "someone_past s \<longrightarrow> cdone s \<and> (\<forall>n. quiet (runners s n))"
    using inv past_signalled unfolding ws_inv_def someone_past_def by blast
  with st have "someone_past t \<longrightarrow> (\<forall>n. quiet (runners t n))" using quiet_step by blast
  then show "ws_inv t"
    using inv socks_held_step [OF st] conn_owned_step [OF st] connected_step [OF st] signalled_step [OF st sig]
    unfolding ws_inv_def someone_past_def by blast
qed

lemma ws_reachable_inv: "ws_step\<^sup>*\<^sup>* ws_init s \<Longrightarrow> ws_inv s"
proof (induction rule: rtranclp_induct)
  case base
  then show ?case by (simp add: ws_inv_def ws_init_def signalled_def)
qed (rule ws_inv_step)

lemma quiet_holds_nothing: "quiet p \<Longrightarrow> holds_sock p = None \<and> owns_conn p = None \<and> \<not> connected_pc p"
  by (auto simp: quiet_def)

lemma SDone_stays: "ws_step\<^sup>*\<^sup>* s t \<Longrightarrow> stoppers s i = SDone \<Longrightarrow> stoppers t i = SDone"
proof (induction rule: rtranclp_induct)
  case (step t u)
  then have "stoppers t i = SDone" by simp
  with step.hyps(2) show ?case by (induction rule: ws_step.induct) auto
qed simp

lemma past_wait_clean:
  assumes "ws_step\<^sup>*\<^sup>* ws_init s" "past_wait (stoppers s i)"
  shows "socks s = {} \<and> cconn s = None \<and> \<not> isConnected s"
proof -
  have inv: "ws_inv s" by (rule ws_reachable_inv [OF assms(1)])
  then have "\<forall>n. quiet (runners s n)" using assms(2) unfolding ws_inv_def by blast
  then have "holds_sock (runners s n) = None \<and> owns_conn (runners s n) = None \<and> \<not> connected_pc (runners s n)" for n
    using quiet_holds_nothing by blast
  then show ?thesis using inv unfolding ws_inv_def by (cases "cconn s") auto
qed

section \<open>Properties of the client\<close>

text \<open>
  C32. \<^verbatim>\<open>Stop\<close> leaves nothing open: in every interleaving of any number of \<^verbatim>\<open>Start\<close> and \<^verbatim>\<open>Stop\<close> calls with the runners and the network, once a
  call of \<^verbatim>\<open>Stop\<close> has seen its runners end, no socket is open, the client holds no connection and does not say that it is connected.
\<close>

theorem stop_leaves_nothing:
  assumes "ws_step\<^sup>*\<^sup>* ws_init s" "past_wait (stoppers s i)"
  shows "socks s = {} \<and> cconn s = None \<and> \<not> isConnected s"
  by (rule past_wait_clean [OF assms])

text \<open>
  A stopped client cannot be started again: \<^verbatim>\<open>Stop\<close> closes \<^verbatim>\<open>done\<close> and nothing opens it anew, so after a completed \<^verbatim>\<open>Stop\<close> a further
  \<^verbatim>\<open>Start\<close> is accepted and \<^verbatim>\<open>IsRunning\<close> answers true, while in every continuation the client opens no socket and never connects.
\<close>

theorem restart_never_connects:
  assumes "ws_step\<^sup>*\<^sup>* ws_init s" "stoppers s i = SDone" "\<not> isRunning s" "runners s n = ROff"
  shows "\<exists>t. ws_step s t \<and> isRunning t \<and> (\<forall>u. ws_step\<^sup>*\<^sup>* t u \<longrightarrow> socks u = {} \<and> \<not> isConnected u)"
proof -
  define t where "t = at (s\<lparr>isRunning := True\<rparr>) n RTop"
  have st: "ws_step s t" unfolding t_def by (rule start [OF assms(3,4)])
  have "socks u = {} \<and> \<not> isConnected u" if "ws_step\<^sup>*\<^sup>* t u" for u
  proof -
    have "stoppers u i = SDone" "ws_step\<^sup>*\<^sup>* ws_init u"
      using SDone_stays [OF that, of i] assms(1,2) st that by (auto simp: t_def)
    then show ?thesis using past_wait_clean [of u i] by simp
  qed
  then show ?thesis using st by (auto simp: t_def)
qed

section \<open>Server\<close>

text \<open>The callbacks are what a caller supplies; only whether they are set matters to the server.\<close>

record Config =
  ReadTimeout :: int
  PingInterval :: int
  WriteTimeout :: int
  OnUpgrade_set :: bool
  OnMessage_set :: bool
  OnConnect_set :: bool
  OnClose_set :: bool

definition withDefaults :: "Config \<Rightarrow> Config" where
  "withDefaults cfg =
     (let c1 = (if ReadTimeout cfg = 0 then cfg\<lparr>ReadTimeout := 60 * 10 ^ 9\<rparr> else cfg);
          c2 = (if PingInterval c1 = 0 then c1\<lparr>PingInterval := 20 * 10 ^ 9\<rparr> else c1)
      in if WriteTimeout c2 = 0 then c2\<lparr>WriteTimeout := 5 * 10 ^ 9\<rparr> else c2)"

text \<open>
  A goroutine of a connection: sending a frame (\<^verbatim>\<open>Send\<close>), writing a ping or a pong, or closing.  \<^verbatim>\<open>Close\<close> is split where it uses
  shared state; its argument says whether the goroutine already holds \<^verbatim>\<open>writeMu\<close>, which is so when \<^verbatim>\<open>Send\<close> calls it.
\<close>

datatype frame = DataF int string | PingF | PongF string | CloseF

datatype conn_pc =
    TIdle
  | TSend frame | TSendLock frame | TSendIn frame | TSendWrite frame
  | TCtlLock frame | TCtlIn frame
  | TClose bool | TStore bool | TStopCh bool | TRemove bool | TLock bool | TShut bool | TCallback bool | TRet bool

datatype once_state = OnceNew | OnceRun nat | OnceDone

record conn_state =
  closed :: bool
  stopCh :: bool
  writeMu :: "nat option"
  closeOnce :: once_state
  registered :: bool
  sockOpen :: bool
  frames :: "frame list"
  onCloses :: nat
  threads :: "nat \<Rightarrow> conn_pc"

text \<open>\<^verbatim>\<open>newConn\<close> and \<^verbatim>\<open>addConn\<close>.\<close>

definition newConn :: conn_state where
  "newConn = \<lparr>closed = False, stopCh = False, writeMu = None, closeOnce = OnceNew, registered = True, sockOpen = True, frames = [],
     onCloses = 0, threads = (\<lambda>_. TIdle)\<rparr>"

definition go :: "conn_state \<Rightarrow> nat \<Rightarrow> conn_pc \<Rightarrow> conn_state" where
  "go s t p = s\<lparr>threads := (threads s)(t := p)\<rparr>"

inductive conn_step :: "bool \<Rightarrow> conn_state \<Rightarrow> conn_state \<Rightarrow> bool" for onClose where
  call_send: "threads s t = TIdle \<Longrightarrow> conn_step onClose s (go s t (TSend (DataF mt dat)))"
| call_ctl: "threads s t = TIdle \<Longrightarrow> f = PingF \<or> f = PongF dat \<Longrightarrow> conn_step onClose s (go s t (TCtlLock f))"
| call_close: "threads s t = TIdle \<Longrightarrow> conn_step onClose s (go s t (TClose False))"
| send_refused: "threads s t = TSend f \<Longrightarrow> closed s \<Longrightarrow> conn_step onClose s (go s t TIdle)"
| send_enter: "threads s t = TSend f \<Longrightarrow> \<not> closed s \<Longrightarrow> conn_step onClose s (go s t (TSendLock f))"
| send_lock: "threads s t = TSendLock f \<Longrightarrow> writeMu s = None \<Longrightarrow> conn_step onClose s (go (s\<lparr>writeMu := Some t\<rparr>) t (TSendIn f))"
| send_late: "threads s t = TSendIn f \<Longrightarrow> closed s \<Longrightarrow> conn_step onClose s (go (s\<lparr>writeMu := None\<rparr>) t TIdle)"
| send_write: "threads s t = TSendIn f \<Longrightarrow> \<not> closed s \<Longrightarrow> conn_step onClose s (go s t (TSendWrite f))"
| send_ok: "threads s t = TSendWrite f \<Longrightarrow> sockOpen s \<Longrightarrow>
    conn_step onClose s (go (s\<lparr>frames := frames s @ [f], writeMu := None\<rparr>) t TIdle)"
| send_err: "threads s t = TSendWrite f \<Longrightarrow> conn_step onClose s (go s t (TClose True))"
| ctl_lock: "threads s t = TCtlLock f \<Longrightarrow> writeMu s = None \<Longrightarrow> conn_step onClose s (go (s\<lparr>writeMu := Some t\<rparr>) t (TCtlIn f))"
| ctl_late: "threads s t = TCtlIn f \<Longrightarrow> closed s \<Longrightarrow> conn_step onClose s (go (s\<lparr>writeMu := None\<rparr>) t TIdle)"
| ctl_ok: "threads s t = TCtlIn f \<Longrightarrow> \<not> closed s \<Longrightarrow> sockOpen s \<Longrightarrow>
    conn_step onClose s (go (s\<lparr>frames := frames s @ [f], writeMu := None\<rparr>) t TIdle)"
| ctl_err: "threads s t = TCtlIn f \<Longrightarrow> \<not> closed s \<Longrightarrow> conn_step onClose s (go (s\<lparr>writeMu := None\<rparr>) t (TClose False))"
| once_first: "threads s t = TClose h \<Longrightarrow> closeOnce s = OnceNew \<Longrightarrow> conn_step onClose s (go (s\<lparr>closeOnce := OnceRun t\<rparr>) t (TStore h))"
| once_later: "threads s t = TClose h \<Longrightarrow> closeOnce s = OnceDone \<Longrightarrow> conn_step onClose s (go s t (TRet h))"
| cl_store: "threads s t = TStore h \<Longrightarrow> conn_step onClose s (go (s\<lparr>closed := True\<rparr>) t (TStopCh h))"
| cl_stop: "threads s t = TStopCh h \<Longrightarrow> conn_step onClose s (go (s\<lparr>stopCh := True\<rparr>) t (TRemove h))"
| cl_remove: "threads s t = TRemove h \<Longrightarrow> conn_step onClose s (go (s\<lparr>registered := False\<rparr>) t (TLock h))"
| cl_lock: "threads s t = TLock h \<Longrightarrow> writeMu s = None \<Longrightarrow> conn_step onClose s (go (s\<lparr>writeMu := Some t\<rparr>) t (TShut h))"
| cl_shut: "threads s t = TShut h \<Longrightarrow> fs = (if sockOpen s \<and> wrote then [CloseF] else []) \<Longrightarrow>
    conn_step onClose s (go (s\<lparr>frames := frames s @ fs, sockOpen := False, writeMu := None\<rparr>) t (TCallback h))"
| cl_callback: "threads s t = TCallback h \<Longrightarrow>
    conn_step onClose s (go (s\<lparr>onCloses := onCloses s + (if onClose then 1 else 0), closeOnce := OnceDone\<rparr>) t (TRet h))"
| cl_return: "threads s t = TRet h \<Longrightarrow> conn_step onClose s (go (if h then s\<lparr>writeMu := None\<rparr> else s) t TIdle)"

definition Conn_IsClosed :: "conn_state \<Rightarrow> bool" where
  "Conn_IsClosed s = closed s"

lemma go_simps [simp]:
  "closed (go s t p) = closed s" "stopCh (go s t p) = stopCh s" "writeMu (go s t p) = writeMu s" "closeOnce (go s t p) = closeOnce s"
  "registered (go s t p) = registered s" "sockOpen (go s t p) = sockOpen s" "frames (go s t p) = frames s" "onCloses (go s t p) = onCloses s"
  "threads (go s t p) = (threads s)(t := p)"
  by (simp_all add: go_def)

text \<open>What the connection data and the registry of the server are: maps and a set.\<close>

type_synonym 'v conn_data = "string \<rightharpoonup> 'v"

definition Conn_Set :: "string \<Rightarrow> 'v \<Rightarrow> 'v conn_data \<Rightarrow> 'v conn_data" where
  "Conn_Set key v m = m(key \<mapsto> v)"

definition Conn_Get :: "string \<Rightarrow> 'v conn_data \<Rightarrow> 'v option" where
  "Conn_Get key m = m key"

text \<open>\<^term>\<open>None\<close> is the panic.\<close>

definition MustGet :: "string \<Rightarrow> 'v conn_data \<Rightarrow> 'v option" where
  "MustGet key m = Conn_Get key m"

definition GetString :: "('v \<Rightarrow> string option) \<Rightarrow> string \<Rightarrow> 'v conn_data \<Rightarrow> string" where
  "GetString as_string key m =
     (case Conn_Get key m of None \<Rightarrow> [] | Some v \<Rightarrow> (case as_string v of None \<Rightarrow> [] | Some x \<Rightarrow> x))"

definition addConn :: "'c \<Rightarrow> 'c set \<Rightarrow> 'c set" where
  "addConn c cs = insert c cs"

definition removeConn :: "'c \<Rightarrow> 'c set \<Rightarrow> 'c set" where
  "removeConn c cs = cs - {c}"

definition Server_Count :: "'c set \<Rightarrow> nat" where
  "Server_Count cs = card cs"

text \<open>\<open>order\<close> is the order in which Go iterates over the map; \<^verbatim>\<open>Broadcast\<close> and \<^verbatim>\<open>CloseAll\<close> are instances.\<close>

fun ForEach :: "('c \<Rightarrow> 's \<Rightarrow> 's) \<Rightarrow> 'c list \<Rightarrow> 's \<Rightarrow> 's" where
  "ForEach fn [] s = s"
| "ForEach fn (c # order) s = ForEach fn order (fn c s)"

definition Broadcast :: "('c \<Rightarrow> int \<Rightarrow> string \<Rightarrow> 's \<Rightarrow> goerr option \<times> 's) \<Rightarrow> int \<Rightarrow> string \<Rightarrow> 'c list \<Rightarrow> 's \<Rightarrow> 's" where
  "Broadcast send1 mt dat order s = ForEach (\<lambda>c s. snd (send1 c mt dat s)) order s"

definition CloseAll :: "('c \<Rightarrow> goerr option \<Rightarrow> 's \<Rightarrow> 's) \<Rightarrow> 'c list \<Rightarrow> 's \<Rightarrow> 's" where
  "CloseAll close1 order s = ForEach (\<lambda>c. close1 c None) order s"

section \<open>Properties of the server\<close>

fun holds_mu :: "conn_pc \<Rightarrow> bool" where
  "holds_mu (TSendIn f) = True"
| "holds_mu (TSendWrite f) = True"
| "holds_mu (TCtlIn f) = True"
| "holds_mu (TShut h) = True"
| "holds_mu (TClose h) = h"
| "holds_mu (TStore h) = h"
| "holds_mu (TStopCh h) = h"
| "holds_mu (TRemove h) = h"
| "holds_mu (TLock h) = h"
| "holds_mu (TRet h) = h"
| "holds_mu _ = False"

fun in_close :: "conn_pc \<Rightarrow> bool" where
  "in_close (TStore h) = True"
| "in_close (TStopCh h) = True"
| "in_close (TRemove h) = True"
| "in_close (TLock h) = True"
| "in_close (TShut h) = True"
| "in_close (TCallback h) = True"
| "in_close _ = False"

text \<open>The lock is held by one goroutine; \<^verbatim>\<open>Close\<close> called from \<^verbatim>\<open>Send\<close> never gets past its lock.\<close>

definition mu_inv :: "conn_state \<Rightarrow> bool" where
  "mu_inv s \<longleftrightarrow>
     (\<forall>t. holds_mu (threads s t) \<longrightarrow> writeMu s = Some t) \<and> (\<forall>t. threads s t \<noteq> TShut True \<and> threads s t \<noteq> TCallback True)"

lemma mu_holder: "mu_inv s \<Longrightarrow> threads s t = p \<Longrightarrow> holds_mu p \<Longrightarrow> writeMu s = Some t"
  by (auto simp: mu_inv_def)

lemma mu_inv_step: "conn_step b s u \<Longrightarrow> mu_inv s \<Longrightarrow> mu_inv u"
proof (induction rule: conn_step.induct)
  case (cl_lock s t h)
  have "\<not> h" using mu_holder [OF cl_lock(3,1)] cl_lock(2) by auto
  then show ?case using cl_lock by (auto simp: mu_inv_def)
next
  case (cl_return s t h)
  have "u = t" if "h" "holds_mu (threads s u)" for u
    using mu_holder [OF cl_return(2,1)] mu_holder [OF cl_return(2) refl that(2)] that(1) by simp
  then show ?case using cl_return by (auto simp: mu_inv_def)
next
  case (cl_shut s t h fs wrote)
  then show ?case using mu_holder [OF cl_shut(3,1)] by (auto simp: mu_inv_def)
next
  case (send_late s t f)
  then show ?case using mu_holder [OF send_late(3,1)] by (auto simp: mu_inv_def)
next
  case (send_ok s t f)
  then show ?case using mu_holder [OF send_ok(3,1)] by (auto simp: mu_inv_def)
next
  case (send_err s t f)
  then show ?case using mu_holder [OF send_err(2,1)] by (auto simp: mu_inv_def)
next
  case (ctl_late s t f)
  then show ?case using mu_holder [OF ctl_late(3,1)] by (auto simp: mu_inv_def)
next
  case (ctl_ok s t f)
  then show ?case using mu_holder [OF ctl_ok(4,1)] by (auto simp: mu_inv_def)
next
  case (ctl_err s t f)
  then show ?case using mu_holder [OF ctl_err(3,1)] by (auto simp: mu_inv_def)
next
  case (cl_callback s t h)
  then show ?case by (cases h) (auto simp: mu_inv_def)
qed (auto simp: mu_inv_def)

text \<open>One goroutine is inside the body of \<^verbatim>\<open>closeOnce\<close>.\<close>

fun close_stage :: "conn_pc \<Rightarrow> nat" where
  "close_stage (TStore h) = 0"
| "close_stage (TStopCh h) = 1"
| "close_stage (TRemove h) = 2"
| "close_stage (TLock h) = 3"
| "close_stage (TShut h) = 4"
| "close_stage (TCallback h) = 5"
| "close_stage _ = 6"

definition stage_ok :: "nat \<Rightarrow> conn_state \<Rightarrow> bool" where
  "stage_ok n s \<longleftrightarrow> closed s = (n \<ge> 2) \<and> registered s = (n \<le> 3) \<and> sockOpen s = (n \<le> 5) \<and> onCloses s \<le> (if n \<ge> 7 then 1 else 0)"

definition stage :: "conn_state \<Rightarrow> nat" where
  "stage s = (case closeOnce s of OnceNew \<Rightarrow> 0 | OnceRun t \<Rightarrow> Suc (close_stage (threads s t)) | OnceDone \<Rightarrow> 7)"

definition once_inv :: "conn_state \<Rightarrow> bool" where
  "once_inv s \<longleftrightarrow> (\<forall>t. in_close (threads s t) \<longleftrightarrow> closeOnce s = OnceRun t) \<and> stage_ok (stage s) s"

lemma once_runner: "once_inv s \<Longrightarrow> threads s t = p \<Longrightarrow> in_close p \<Longrightarrow> closeOnce s = OnceRun t \<and> stage_ok (Suc (close_stage p)) s"
  by (auto simp: once_inv_def stage_def)

text \<open>A step outside the body, and a step of the goroutine inside it.\<close>

lemma once_outside:
  assumes "once_inv s" "\<not> in_close (threads s t)" "\<not> in_close p" "threads v = threads s" "closeOnce v = closeOnce s" "closed v = closed s"
    "registered v = registered s" "sockOpen v = sockOpen s" "onCloses v = onCloses s"
  shows "once_inv (go v t p)"
proof -
  have "closeOnce s \<noteq> OnceRun t" using assms(1,2) by (simp add: once_inv_def)
  then have "stage (go v t p) = stage s" using assms(4,5) by (auto simp: stage_def split: once_state.splits)
  moreover have "stage_ok n (go v t p) = stage_ok n s" for n using assms(6-9) by (simp add: stage_ok_def)
  ultimately show ?thesis using assms(1-5) by (auto simp: once_inv_def)
qed

lemma once_inside:
  assumes "once_inv s" "closeOnce s = OnceRun t" "threads v = threads s" "closeOnce v = (if in_close p then OnceRun t else OnceDone)"
    "stage_ok (if in_close p then Suc (close_stage p) else 7) v"
  shows "once_inv (go v t p)"
proof -
  have "in_close (threads s u) \<longleftrightarrow> u = t" for u using assms(1,2) by (auto simp: once_inv_def)
  moreover have "stage_ok n (go v t p) = stage_ok n v" for n by (simp add: stage_ok_def)
  ultimately show ?thesis using assms(3-5) by (auto simp: once_inv_def stage_def)
qed

lemma once_inv_step: "conn_step b s u \<Longrightarrow> once_inv s \<Longrightarrow> once_inv u"
proof (induction rule: conn_step.induct)
  case (cl_store s t h)
  show ?case by (rule once_inside [OF cl_store(2)]) (use once_runner [OF cl_store(2,1)] in \<open>auto simp: stage_ok_def\<close>)
next
  case (cl_stop s t h)
  show ?case by (rule once_inside [OF cl_stop(2)]) (use once_runner [OF cl_stop(2,1)] in \<open>auto simp: stage_ok_def\<close>)
next
  case (cl_remove s t h)
  show ?case by (rule once_inside [OF cl_remove(2)]) (use once_runner [OF cl_remove(2,1)] in \<open>auto simp: stage_ok_def\<close>)
next
  case (cl_lock s t h)
  show ?case by (rule once_inside [OF cl_lock(3)]) (use once_runner [OF cl_lock(3,1)] in \<open>auto simp: stage_ok_def\<close>)
next
  case (cl_shut s t h fs wrote)
  show ?case by (rule once_inside [OF cl_shut(3)]) (use once_runner [OF cl_shut(3,1)] in \<open>auto simp: stage_ok_def\<close>)
next
  case (cl_callback s t h)
  show ?case by (rule once_inside [OF cl_callback(2)]) (use once_runner [OF cl_callback(2,1)] in \<open>auto simp: stage_ok_def\<close>)
next
  case (once_first s t h)
  then have "\<not> in_close (threads s v)" for v by (simp add: once_inv_def)
  with once_first show ?case by (auto simp: once_inv_def stage_def stage_ok_def)
next
  case (cl_return s t h)
  show ?case by (rule once_outside [OF cl_return(2)]) (use cl_return(1) in auto)
qed (rule once_outside, assumption, simp_all)+

text \<open>No frame follows the close frame.\<close>

definition frames_inv :: "conn_state \<Rightarrow> bool" where
  "frames_inv s \<longleftrightarrow> CloseF \<notin> set (butlast (frames s)) \<and> (sockOpen s \<longrightarrow> CloseF \<notin> set (frames s)) \<and>
     (\<forall>t. threads s t \<notin> {TSend CloseF, TSendLock CloseF, TSendIn CloseF, TSendWrite CloseF, TCtlLock CloseF, TCtlIn CloseF})"

lemma frames_inv_step: "conn_step b s u \<Longrightarrow> frames_inv s \<Longrightarrow> frames_inv u"
  by (induction rule: conn_step.induct) (auto simp: frames_inv_def butlast_append dest: in_set_butlastD split: if_splits)

lemma conn_reachable:
  assumes "(conn_step b)\<^sup>*\<^sup>* newConn s"
  shows "mu_inv s \<and> once_inv s \<and> frames_inv s"
  using assms
proof (induction rule: rtranclp_induct)
  case base
  then show ?case by (simp add: mu_inv_def once_inv_def frames_inv_def newConn_def stage_def stage_ok_def)
next
  case (step s u)
  then show ?case using mu_inv_step once_inv_step frames_inv_step by blast
qed

lemma self_lock_stuck_step:
  "conn_step b s u \<Longrightarrow> mu_inv s \<Longrightarrow> threads s t = TLock True \<Longrightarrow> threads u t = TLock True"
proof (induction rule: conn_step.induct)
  case (cl_lock s v h)
  then have "v \<noteq> t" using mu_holder [of s t "TLock True"] by auto
  then show ?case using cl_lock by simp
qed auto

lemma self_lock_stuck:
  assumes "(conn_step b)\<^sup>*\<^sup>* u v" "mu_inv u" "threads u t = TLock True"
  shows "threads v t = TLock True"
proof -
  have "mu_inv v \<and> threads v t = TLock True"
    using assms by (induction rule: rtranclp_induct) (auto intro: mu_inv_step self_lock_stuck_step)
  then show ?thesis by simp
qed

lemma send_error_path:
  assumes "threads s t = TSendWrite f" "closeOnce s = OnceNew"
  shows "\<exists>u. (conn_step b)\<^sup>*\<^sup>* s u \<and> threads u t = TLock True"
proof -
  define s1 where "s1 = go s t (TClose True)"
  define s2 where "s2 = go (s1\<lparr>closeOnce := OnceRun t\<rparr>) t (TStore True)"
  define s3 where "s3 = go (s2\<lparr>closed := True\<rparr>) t (TStopCh True)"
  define s4 where "s4 = go (s3\<lparr>stopCh := True\<rparr>) t (TRemove True)"
  define s5 where "s5 = go (s4\<lparr>registered := False\<rparr>) t (TLock True)"
  have "conn_step b s s1" unfolding s1_def by (rule send_err [OF assms(1)])
  moreover have "conn_step b s1 s2" unfolding s2_def by (rule once_first) (simp_all add: s1_def assms(2))
  moreover have "conn_step b s2 s3" unfolding s3_def by (rule cl_store) (simp add: s2_def)
  moreover have "conn_step b s3 s4" unfolding s4_def by (rule cl_stop) (simp add: s3_def)
  moreover have "conn_step b s4 s5" unfolding s5_def by (rule cl_remove) (simp add: s4_def)
  ultimately have "(conn_step b)\<^sup>*\<^sup>* s s5" by (meson converse_rtranclp_into_rtranclp rtranclp.rtrancl_refl)
  then show ?thesis by (auto simp: s5_def)
qed

text \<open>
  A connection is closed once and cleanly: in every interleaving of senders, pings, pongs and any number of \<^verbatim>\<open>Close\<close> calls only one
  goroutine holds the write lock, no frame follows the close frame, the close callback runs at most once, and when the body of
  \<^verbatim>\<open>closeOnce\<close> is done the socket is closed and the connection is no longer registered.
\<close>

theorem conn_closes_once:
  assumes "(conn_step onClose)\<^sup>*\<^sup>* newConn s"
  shows "onCloses s \<le> 1 \<and> CloseF \<notin> set (butlast (frames s)) \<and>
    (holds_mu (threads s t) \<and> holds_mu (threads s u) \<longrightarrow> t = u) \<and>
    (closeOnce s = OnceDone \<longrightarrow> closed s \<and> \<not> sockOpen s \<and> \<not> registered s)"
proof -
  have i: "mu_inv s" "once_inv s" "frames_inv s" using conn_reachable [OF assms] by simp_all
  have "onCloses s \<le> 1" using i(2) by (auto simp: once_inv_def stage_ok_def split: if_splits)
  moreover have "t = u" if "holds_mu (threads s t)" "holds_mu (threads s u)"
    using i(1) that unfolding mu_inv_def by (metis option.inject)
  moreover have "closed s \<and> \<not> sockOpen s \<and> \<not> registered s" if "closeOnce s = OnceDone"
    using i(2) that by (simp add: once_inv_def stage_ok_def stage_def)
  ultimately show ?thesis using i(3) by (auto simp: frames_inv_def)
qed

text \<open>
  C31. A failed write deadlocks the connection: \<^verbatim>\<open>Send\<close> calls \<^verbatim>\<open>Close\<close> while it holds \<^verbatim>\<open>writeMu\<close>, and \<^verbatim>\<open>Close\<close> locks it again.  From any reachable
  state in which the write of a sender fails before anybody closed, the sender comes to a state in which it waits for the lock it holds, in every continuation:
  the socket stays open, the close callback never runs, and every other sender or closer waits for ever.
\<close>

theorem send_error_deadlocks:
  assumes "(conn_step onClose)\<^sup>*\<^sup>* newConn s" "threads s t = TSendWrite f" "closeOnce s = OnceNew"
  shows "\<exists>u. (conn_step onClose)\<^sup>*\<^sup>* s u \<and>
    (\<forall>v. (conn_step onClose)\<^sup>*\<^sup>* u v \<longrightarrow> threads v t = TLock True \<and> writeMu v = Some t \<and> sockOpen v \<and> onCloses v = 0)"
proof -
  obtain u where u: "(conn_step onClose)\<^sup>*\<^sup>* s u" "threads u t = TLock True" using send_error_path [OF assms(2,3)] by blast
  have "threads v t = TLock True \<and> writeMu v = Some t \<and> sockOpen v \<and> onCloses v = 0" if v: "(conn_step onClose)\<^sup>*\<^sup>* u v" for v
  proof -
    have "(conn_step onClose)\<^sup>*\<^sup>* newConn u" "(conn_step onClose)\<^sup>*\<^sup>* newConn v" using assms(1) u(1) v by simp_all
    then have inv: "mu_inv u" "mu_inv v" "once_inv v" using conn_reachable by blast+
    have p: "threads v t = TLock True" by (rule self_lock_stuck [OF v inv(1) u(2)])
    with mu_holder [OF inv(2) p] once_runner [OF inv(3) p] show ?thesis by (simp add: stage_ok_def)
  qed
  then show ?thesis using u(1) by blast
qed

section \<open>Witnesses\<close>

lemma ws_started: "ws_step\<^sup>*\<^sup>* ws_init (at (ws_init\<lparr>isRunning := True\<rparr>) 0 RTop)"
  by (rule r_into_rtranclp, rule start) (simp_all add: ws_init_def)

text \<open>A client that is started and stopped before it dials.\<close>

definition ws_stopped :: ws_state where
  "ws_stopped = \<lparr>isRunning = False, isConnected = False, cdone = True, cconn = None, socks = {}, runners = (\<lambda>n. if n = 0 then RExit else ROff),
     stoppers = (\<lambda>i. if i = 0 then SDone else SOff)\<rparr>"

lemma ws_stopped_reachable: "ws_step\<^sup>*\<^sup>* ws_init ws_stopped"
proof -
  define s1 where "s1 = at (ws_init\<lparr>isRunning := True\<rparr>) 0 RTop"
  define s2 where "s2 = sat (s1\<lparr>isRunning := False\<rparr>) 0 SSignal"
  define s3 where "s3 = sat (s2\<lparr>cdone := True\<rparr>) 0 SWait"
  define s4 where "s4 = at s3 0 RExit"
  define s5 where "s5 = sat s4 0 STake"
  have "ws_step ws_init s1" unfolding s1_def by (rule start) (simp_all add: ws_init_def)
  moreover have "ws_step s1 s2" unfolding s2_def by (rule stop_cas) (simp_all add: s1_def ws_init_def)
  moreover have "ws_step s2 s3" unfolding s3_def by (rule stop_signal) (simp add: s2_def)
  moreover have "ws_step s3 s4" unfolding s4_def by (rule top_done) (simp_all add: s3_def s2_def s1_def)
  moreover have "ws_step s4 s5" unfolding s5_def
    by (rule stop_wait) (simp_all add: s4_def s3_def s2_def s1_def ws_init_def resting_def)
  moreover have "ws_step s5 (sat s5 0 SDone)" by (rule stop_none) (simp_all add: s5_def s4_def s3_def s2_def s1_def ws_init_def)
  moreover have "sat s5 0 SDone = ws_stopped"
    by (auto simp: ws_stopped_def s5_def s4_def s3_def s2_def s1_def ws_init_def at_def sat_def)
  ultimately show ?thesis by (metis converse_rtranclp_into_rtranclp rtranclp.rtrancl_refl)
qed

theorem stop_leaves_nothing_witness: "socks ws_stopped = {} \<and> cconn ws_stopped = None \<and> \<not> isConnected ws_stopped"
  by (rule stop_leaves_nothing [OF ws_stopped_reachable, of 0]) (simp add: ws_stopped_def)

theorem restart_never_connects_witness:
  "\<exists>t. ws_step ws_stopped t \<and> isRunning t \<and> socks t = {} \<and> \<not> isConnected t"
  using restart_never_connects [OF ws_stopped_reachable, of 0 1] by (auto simp: ws_stopped_def)

text \<open>A connection in which goroutine 3 is about to write.\<close>

definition writing :: conn_state where
  "writing = newConn\<lparr>writeMu := Some 3, threads := (\<lambda>_. TIdle)(3 := TSendWrite (DataF 1 ''hi''))\<rparr>"

lemma writing_reachable: "(conn_step True)\<^sup>*\<^sup>* newConn writing"
proof -
  let ?f = "DataF 1 ''hi''"
  define s1 where "s1 = go newConn 3 (TSend ?f)"
  define s2 where "s2 = go s1 3 (TSendLock ?f)"
  define s3 where "s3 = go (s2\<lparr>writeMu := Some 3\<rparr>) 3 (TSendIn ?f)"
  have "conn_step True newConn s1" unfolding s1_def by (rule call_send) (simp add: newConn_def)
  moreover have "conn_step True s1 s2" unfolding s2_def by (rule send_enter) (simp_all add: s1_def newConn_def)
  moreover have "conn_step True s2 s3" unfolding s3_def by (rule send_lock) (simp_all add: s2_def s1_def newConn_def)
  moreover have "conn_step True s3 (go s3 3 (TSendWrite ?f))" by (rule send_write) (simp_all add: s3_def s2_def s1_def newConn_def)
  moreover have "go s3 3 (TSendWrite ?f) = writing"
    by (auto simp: writing_def s3_def s2_def s1_def newConn_def go_def)
  ultimately show ?thesis by (metis converse_rtranclp_into_rtranclp rtranclp.rtrancl_refl)
qed

theorem conn_closes_once_witness:
  "onCloses writing \<le> 1 \<and> CloseF \<notin> set (butlast (frames writing)) \<and> holds_mu (threads writing 3)"
  using conn_closes_once [OF writing_reachable, of 3 3] by (simp add: writing_def)

theorem send_error_deadlocks_witness:
  "\<exists>u. (conn_step True)\<^sup>*\<^sup>* writing u \<and> threads u 3 = TLock True \<and> writeMu u = Some 3 \<and> sockOpen u"
proof -
  have "threads writing 3 = TSendWrite (DataF 1 ''hi'')" "closeOnce writing = OnceNew" by (simp_all add: writing_def newConn_def)
  from send_error_deadlocks [OF writing_reachable this] show ?thesis by blast
qed

end
