(* ===== verification/Export_Writer.thy ===== *)
theory Export_Writer
  imports Cast
begin

text \<open>
  The export writers, \<^verbatim>\<open>export\<close>: file names, the CSV writer and the Excel writer behind the interface \<^verbatim>\<open>Writer\<close>.  The CSV text is that of
  \<^verbatim>\<open>encoding/csv\<close>; the spreadsheet library and the file system are parameters.

  What the interface promises its callers is the locale \<^verbatim>\<open>row_writer\<close>: a row that was accepted is what the content grows by, and a batch
  grows it by its rows in order.  Both writers interpret it.  A call returns \<^term>\<open>None\<close> when it panics.
\<close>

section \<open>File names\<close>

text \<open>\<^verbatim>\<open>filepath.Clean\<close> and \<^verbatim>\<open>IsAbs\<close> for slash-separated paths.\<close>

definition clean_step :: "bool \<Rightarrow> string list \<Rightarrow> string \<Rightarrow> string list" where
  "clean_step rooted out c =
     (if c = [] \<or> c = ''.'' then out
      else if c = ''..'' then
        if out \<noteq> [] \<and> last out \<noteq> ''..'' then butlast out else if rooted then out else out @ [''..'']
      else out @ [c])"

definition filepath_IsAbs :: "string \<Rightarrow> bool" where
  "filepath_IsAbs path = (case path of [] \<Rightarrow> False | x # _ \<Rightarrow> x = CHR ''/'')"

definition clean_parts :: "string \<Rightarrow> string list" where
  "clean_parts path = foldl (clean_step (filepath_IsAbs path)) [] (SplitC path (CHR ''/''))"

definition filepath_Clean :: "string \<Rightarrow> string" where
  "filepath_Clean path =
     (if path = [] then ''.''
      else let out = clean_parts path
           in if filepath_IsAbs path then ''/'' @ Join out ''/'' else if out = [] then ''.'' else Join out ''/'')"

definition ValidateFileName :: "string \<Rightarrow> goerr option" where
  "ValidateFileName name =
     (if name = [] then Some (ErrNew ''export: file name cannot be empty'')
      else let cleaned = filepath_Clean name
           in if filepath_IsAbs cleaned then Some (ErrNew (''export: absolute path not allowed: '' @ name))
              else if Contains cleaned ''..'' then Some (ErrNew (''export: path traversal not allowed: '' @ name))
              else None)"

section \<open>CSV text\<close>

definition quote :: char where "quote = CHR 0x22"
definition lf :: char where "lf = CHR 0x0A"
definition cr :: char where "cr = CHR 0x0D"

text \<open>\<open>space_first\<close> says whether the first rune is white space for \<^verbatim>\<open>unicode.IsSpace\<close>.\<close>

definition fieldNeedsQuotes :: "(string \<Rightarrow> bool) \<Rightarrow> string \<Rightarrow> bool" where
  "fieldNeedsQuotes space_first s =
     (if s = [] then False
      else if s = [CHR 0x5C, CHR ''.''] then True
      else (lf \<in> set s \<or> cr \<in> set s \<or> quote \<in> set s \<or> CHR '','' \<in> set s) \<or> space_first s)"

definition double_quotes :: "string \<Rightarrow> string" where
  "double_quotes s = concat (map (\<lambda>x. if x = quote then [quote, quote] else [x]) s)"

definition csv_field :: "(string \<Rightarrow> bool) \<Rightarrow> string \<Rightarrow> string" where
  "csv_field sp s = (if fieldNeedsQuotes sp s then [quote] @ double_quotes s @ [quote] else s)"

definition csv_record :: "(string \<Rightarrow> bool) \<Rightarrow> string list \<Rightarrow> string" where
  "csv_record sp fs = Join (map (csv_field sp) fs) '','' @ [lf]"

definition csv_text :: "(string \<Rightarrow> bool) \<Rightarrow> string list list \<Rightarrow> string" where
  "csv_text sp rows = concat (map (csv_record sp) rows)"

section \<open>The writers\<close>

type_synonym ('f, 'j) row = "('f, 'j) gany list"

text \<open>
  The file of a CSV writer: its text, and what the file system answers to the \<open>n\<close>-th write.  \<^verbatim>\<open>ctx_at\<close> is the context at the \<open>n\<close>-th look.
\<close>

record export_env =
  io_err :: "nat \<Rightarrow> goerr option"
  ctx_at :: "nat \<Rightarrow> goerr option"
  space_first :: "string \<Rightarrow> bool"

record CSVWriter =
  cname :: string
  ctext :: string
  cwrites :: nat
  clooks :: nat

definition utf8_bom :: string where "utf8_bom = [CHR 0xEF, CHR 0xBB, CHR 0xBF]"

text \<open>\<^verbatim>\<open>create_err\<close> is the answer of \<^verbatim>\<open>os.Create\<close>.\<close>

definition NewCSVWriter :: "export_env \<Rightarrow> goerr option \<Rightarrow> string \<Rightarrow> goerr + CSVWriter" where
  "NewCSVWriter env create_err fileName =
     (case ValidateFileName fileName of
        Some e \<Rightarrow> Inl e
      | None \<Rightarrow>
          (case create_err of
             Some e \<Rightarrow> Inl e
           | None \<Rightarrow>
               (case io_err env 0 of
                  Some e \<Rightarrow> Inl e
                | None \<Rightarrow> Inr \<lparr>cname = fileName @ ''.csv'', ctext = utf8_bom, cwrites = 1, clooks = 0\<rparr>)))"

fun texts :: "('f, 'j) conv_lib \<Rightarrow> ('f, 'j) row \<Rightarrow> string list option" where
  "texts lib [] = Some []"
| "texts lib (v # vs) =
     (case AnyToString lib v of None \<Rightarrow> None | Some s \<Rightarrow> map_option (Cons s) (texts lib vs))"

definition csv_writeRow :: "export_env \<Rightarrow> ('f, 'j) conv_lib \<Rightarrow> ('f, 'j) row \<Rightarrow> CSVWriter \<Rightarrow> (goerr option \<times> CSVWriter) option" where
  "csv_writeRow env lib data w =
     (case texts lib data of
        None \<Rightarrow> None
      | Some rec \<Rightarrow>
          (case io_err env (cwrites w) of
             Some e \<Rightarrow> Some (Some e, w\<lparr>cwrites := Suc (cwrites w)\<rparr>)
           | None \<Rightarrow> Some (None, w\<lparr>ctext := ctext w @ csv_record (space_first env) rec, cwrites := Suc (cwrites w)\<rparr>)))"

fun csv_WriteRows :: "export_env \<Rightarrow> ('f, 'j) conv_lib \<Rightarrow> ('f, 'j) row list \<Rightarrow> CSVWriter \<Rightarrow> (goerr option \<times> CSVWriter) option" where
  "csv_WriteRows env lib [] w = Some (None, w)"
| "csv_WriteRows env lib (r # rs) w =
     (case ctx_at env (clooks w) of
        Some e \<Rightarrow> Some (Some e, w\<lparr>clooks := Suc (clooks w)\<rparr>)
      | None \<Rightarrow>
          (case csv_writeRow env lib r (w\<lparr>clooks := Suc (clooks w)\<rparr>) of
             None \<Rightarrow> None
           | Some (Some e, w1) \<Rightarrow> Some (Some e, w1)
           | Some (None, w1) \<Rightarrow> csv_WriteRows env lib rs w1))"

definition csv_Close :: "export_env \<Rightarrow> CSVWriter \<Rightarrow> goerr option \<times> CSVWriter" where
  "csv_Close env w = (io_err env (cwrites w), w\<lparr>cwrites := Suc (cwrites w)\<rparr>)"

text \<open>The sheet of an Excel writer: the rows that were set, with their row numbers.\<close>

record ('f, 'j) ExcelWriter =
  xname :: string
  sheet :: "(nat \<times> ('f, 'j) row) list"
  rowIndex :: nat
  flushed :: bool
  xwrites :: nat
  xlooks :: nat

definition ErrWriterFlushed :: goerr where
  "ErrWriterFlushed = ErrNew ''export: writer already flushed or closed''"

definition NewExcelWriter :: "export_env \<Rightarrow> string \<Rightarrow> goerr + ('f, 'j) ExcelWriter" where
  "NewExcelWriter env fileName =
     (case ValidateFileName fileName of
        Some e \<Rightarrow> Inl e
      | None \<Rightarrow>
          (case io_err env 0 of
             Some e \<Rightarrow> Inl (ErrWrapf ''export: create stream writer: '' e)
           | None \<Rightarrow> Inr \<lparr>xname = fileName @ ''.xlsx'', sheet = [], rowIndex = 1, flushed = False, xwrites = 1, xlooks = 0\<rparr>))"

text \<open>\<^verbatim>\<open>SetRow\<close> refuses what the oracle says, such as a row beyond the last one of a sheet.\<close>

definition excel_writeRow :: "export_env \<Rightarrow> ('f, 'j) row \<Rightarrow> ('f, 'j) ExcelWriter \<Rightarrow> (goerr option \<times> ('f, 'j) ExcelWriter) option" where
  "excel_writeRow env data w =
     Some (if flushed w then (Some ErrWriterFlushed, w)
           else case io_err env (xwrites w) of
             Some e \<Rightarrow> (Some e, w\<lparr>xwrites := Suc (xwrites w)\<rparr>)
           | None \<Rightarrow> (None, w\<lparr>sheet := sheet w @ [(rowIndex w, data)], rowIndex := Suc (rowIndex w), xwrites := Suc (xwrites w)\<rparr>))"

fun excel_WriteRows :: "export_env \<Rightarrow> ('f, 'j) row list \<Rightarrow> ('f, 'j) ExcelWriter \<Rightarrow> (goerr option \<times> ('f, 'j) ExcelWriter) option" where
  "excel_WriteRows env [] w = Some (None, w)"
| "excel_WriteRows env (r # rs) w =
     (case ctx_at env (xlooks w) of
        Some e \<Rightarrow> Some (Some e, w\<lparr>xlooks := Suc (xlooks w)\<rparr>)
      | None \<Rightarrow>
          (case excel_writeRow env r (w\<lparr>xlooks := Suc (xlooks w)\<rparr>) of
             None \<Rightarrow> None
           | Some (Some e, w1) \<Rightarrow> Some (Some e, w1)
           | Some (None, w1) \<Rightarrow> excel_WriteRows env rs w1))"

definition excel_flush :: "export_env \<Rightarrow> ('f, 'j) ExcelWriter \<Rightarrow> goerr option \<times> ('f, 'j) ExcelWriter" where
  "excel_flush env w =
     (if flushed w then (None, w) else (io_err env (xwrites w), w\<lparr>flushed := True, xwrites := Suc (xwrites w)\<rparr>))"

text \<open>\<open>save\<close> is the answer of \<^verbatim>\<open>SaveAs\<close>, \<open>close_file\<close> that of closing the workbook.\<close>

definition excel_Close :: "export_env \<Rightarrow> goerr option \<Rightarrow> goerr option \<Rightarrow> ('f, 'j) ExcelWriter \<Rightarrow> goerr option \<times> ('f, 'j) ExcelWriter" where
  "excel_Close env save close_file w =
     (case excel_flush env w of
        (Some e, w1) \<Rightarrow> (Some e, w1)
      | (None, w1) \<Rightarrow> (case save of Some e \<Rightarrow> (Some e, w1) | None \<Rightarrow> (close_file, w1)))"

definition csv_ContentType :: string where "csv_ContentType = ''text/csv; charset=utf-8''"

definition excel_ContentType :: string where
  "excel_ContentType = ''application/vnd.openxmlformats-officedocument.spreadsheetml.sheet''"

text \<open>The registry of formats.\<close>

definition FormatExcel :: string where "FormatExcel = ''excel''"
definition FormatCSV :: string where "FormatCSV = ''csv''"

definition RegisterWriter :: "string \<Rightarrow> 'w \<Rightarrow> (string \<rightharpoonup> 'w) \<Rightarrow> (string \<rightharpoonup> 'w)" where
  "RegisterWriter format factory reg = reg(format \<mapsto> factory)"

definition NewWriter :: "(string \<rightharpoonup> (string \<Rightarrow> goerr + 'w)) \<Rightarrow> string \<Rightarrow> string \<Rightarrow> goerr + 'w" where
  "NewWriter reg format fileName =
     (case reg format of
        None \<Rightarrow> Inl (ErrNew (''export: unsupported format: '' @ fmt_q format))
      | Some factory \<Rightarrow> factory fileName)"

section \<open>Rows from structs\<close>

text \<open>
  A field of the struct type: exported or not, and its tag for the key.  An item is the list of its field values.
\<close>

fun tag_columns_loop :: "(bool \<times> string) list \<Rightarrow> nat \<Rightarrow> (nat \<times> string) list" where
  "tag_columns_loop [] i = []"
| "tag_columns_loop ((ex, tag) # fs) i =
     (let rest = tag_columns_loop fs (Suc i) in
      if \<not> ex \<or> tag = [] \<or> tag = ''-'' then rest
      else let name = takeWhile (\<lambda>x. x \<noteq> CHR '','') tag in if name = [] then rest else (i, name) # rest)"

definition StructSliceToRows :: "(bool \<times> string) list \<Rightarrow> 'v list list \<Rightarrow> string list \<times> 'v list list" where
  "StructSliceToRows tags items =
     (let cols = tag_columns_loop tags 0
      in (map snd cols, map (\<lambda>item. map (\<lambda>c. item ! fst c) cols) items))"

section \<open>Reading CSV back\<close>

text \<open>
  A reference reader: fields are separated by commas, records by line feeds, a field that starts with a quote ends at the next
  quote that is not doubled.  A line with nothing on it is a record of one empty field.  The modes: at the start of a field, in a bare field, in a quoted field, after a quote in one.
\<close>

datatype csv_mode = AtStart | Bare | Quoted | AfterQuote

fun csv_read :: "csv_mode \<Rightarrow> string \<Rightarrow> string list \<Rightarrow> string \<Rightarrow> string list list" where
  "csv_read m cur fs [] = (if m = AtStart \<and> fs = [] then [] else [fs @ [cur]])"
| "csv_read m cur fs (x # xs) =
     (if m = AtStart \<and> x = quote then csv_read Quoted [] fs xs
      else if m = Quoted then (if x = quote then csv_read AfterQuote cur fs xs else csv_read Quoted (cur @ [x]) fs xs)
      else if m = AfterQuote \<and> x = quote then csv_read Quoted (cur @ [quote]) fs xs
      else if x = CHR '','' then csv_read AtStart [] (fs @ [cur]) xs
      else if x = lf then (fs @ [cur]) # csv_read AtStart [] [] xs
      else csv_read Bare (cur @ [x]) fs xs)"

lemma chars_distinct [simp]: "quote \<noteq> lf" "lf \<noteq> quote" "CHR '','' \<noteq> quote" "quote \<noteq> CHR '',''" "CHR '','' \<noteq> lf" "lf \<noteq> CHR '',''"
  by (simp_all add: quote_def lf_def)

lemma read_quoted: "csv_read Quoted cur fs (double_quotes s @ quote # rest) = csv_read AfterQuote (cur @ s) fs rest"
  by (induction s arbitrary: cur) (auto simp: double_quotes_def)

lemma read_bare:
  "\<forall>x \<in> set s. x \<noteq> CHR '','' \<and> x \<noteq> lf \<Longrightarrow> csv_read Bare cur fs (s @ rest) = csv_read Bare (cur @ s) fs rest"
  by (induction s arbitrary: cur) auto

definition read_end :: "char \<Rightarrow> string list \<Rightarrow> string \<Rightarrow> string list list" where
  "read_end c fs rest = (if c = lf then fs # csv_read AtStart [] [] rest else csv_read AtStart [] fs rest)"

lemma read_field:
  assumes "c = lf \<or> c = CHR '',''"
  shows "csv_read AtStart [] fs (csv_field sp s @ c # rest) = read_end c (fs @ [s]) rest"
proof (cases "fieldNeedsQuotes sp s")
  case True
  then show ?thesis
    using assms read_quoted [of "[]" fs s "c # rest"] by (auto simp: csv_field_def read_end_def)
next
  case False
  then have plain: "\<forall>x \<in> set s. x \<noteq> CHR '','' \<and> x \<noteq> lf \<and> x \<noteq> quote" by (auto simp: fieldNeedsQuotes_def split: if_splits)
  show ?thesis
  proof (cases s)
    case Nil
    then show ?thesis using assms by (auto simp: csv_field_def fieldNeedsQuotes_def read_end_def)
  next
    case (Cons x xs)
    then have "csv_read AtStart [] fs (s @ c # rest) = csv_read Bare s fs (c # rest)"
      using plain read_bare [of xs "[x]" fs "c # rest"] by auto
    then show ?thesis using False assms by (auto simp: csv_field_def read_end_def)
  qed
qed

lemma read_record:
  assumes "r \<noteq> []"
  shows "csv_read AtStart [] fs (csv_record sp r @ rest) = (fs @ r) # csv_read AtStart [] [] rest"
  using assms
proof (induction r arbitrary: fs)
  case (Cons s r)
  show ?case
  proof (cases r)
    case Nil
    then show ?thesis using read_field [of lf fs sp s rest] by (simp add: csv_record_def read_end_def)
  next
    case (Cons t ts)
    then have "csv_record sp (s # r) @ rest = csv_field sp s @ CHR '','' # (csv_record sp r @ rest)"
      by (simp add: csv_record_def)
    then show ?thesis
      using read_field [of "CHR '',''" fs sp s "csv_record sp r @ rest"] Cons.IH [of "fs @ [s]"] \<open>r = t # ts\<close> by (simp add: read_end_def)
  qed
qed simp

lemma read_text:
  "\<forall>r \<in> set rows. r \<noteq> [] \<Longrightarrow> csv_read AtStart [] [] (csv_text sp rows) = rows"
  by (induction rows) (auto simp: csv_text_def read_record)

section \<open>Names stay inside\<close>

text \<open>Walking the components of a relative path from depth \<open>d\<close> below the working directory never leaves it.\<close>

fun inside :: "nat \<Rightarrow> string list \<Rightarrow> bool" where
  "inside d [] = True"
| "inside d (c # cs) =
     (if c = [] \<or> c = ''.'' then inside d cs
      else if c = ''..'' then d > 0 \<and> inside (d - 1) cs
      else inside (Suc d) cs)"

lemma dotdot_stays: "''..'' \<in> set out \<Longrightarrow> ''..'' \<in> set (foldl (clean_step False) out cs)"
proof (induction cs arbitrary: out)
  case (Cons c cs)
  have "''..'' \<in> set (clean_step False out c)"
  proof (cases "out \<noteq> [] \<and> last out \<noteq> ''..''")
    case True
    then have "''..'' \<in> set (butlast out)" using Cons.prems by (metis UnE append_butlast_last_id list.set(1) list.set(2) set_append singletonD insertE emptyE)
    then show ?thesis using Cons.prems by (auto simp: clean_step_def)
  qed (use Cons.prems in \<open>auto simp: clean_step_def\<close>)
  then show ?case using Cons.IH by simp
qed simp

lemma clean_inside:
  "''..'' \<notin> set (foldl (clean_step False) out cs) \<Longrightarrow> inside (length out) cs"
proof (induction cs arbitrary: out)
  case (Cons c cs)
  have no: "''..'' \<notin> set (clean_step False out c)" using Cons.prems dotdot_stays by fastforce
  have IH: "inside (length (clean_step False out c)) cs" using Cons.IH Cons.prems by simp
  show ?case
  proof (cases "c = ''..''")
    case True
    then have "out \<noteq> []" "last out \<noteq> ''..''" using no by (auto simp: clean_step_def split: if_splits)
    then show ?thesis using True IH by (simp add: clean_step_def)
  next
    case False
    then show ?thesis using IH by (auto simp: clean_step_def split: if_splits)
  qed
qed simp

lemma Contains_Join: "c \<in> set cs \<Longrightarrow> Contains (Join cs sep) c"
proof (induction cs sep rule: Join.induct)
  case (2 s sep)
  then show ?case by (auto simp: Contains_iff intro: exI [of _ "[]"])
next
  case (3 s t ss sep)
  then consider "c = s" | "Contains (Join (t # ss) sep) c" by auto
  then show ?case
  proof cases
    case 1
    then show ?thesis by (auto simp: Contains_iff intro: exI [of _ "[]"])
  next
    case 2
    then obtain u v where "Join (t # ss) sep = u @ c @ v" by (auto simp: Contains_iff)
    then have "Join (s # t # ss) sep = (s @ sep @ u) @ c @ v" by simp
    then show ?thesis unfolding Contains_iff by blast
  qed
qed simp

lemma SplitC_append:
  "c \<notin> set ext \<Longrightarrow> SplitC (s @ ext) c = butlast (SplitC s c) @ [last (SplitC s c) @ ext]"
proof (induction s)
  case Nil
  have "c \<notin> set ext \<Longrightarrow> SplitC ext c = [ext]" by (induction ext) auto
  then show ?case using Nil by simp
next
  case (Cons x s)
  obtain p ps where ps: "SplitC s c = p # ps" by (cases "SplitC s c") auto
  show ?case using Cons ps by (cases ps) auto
qed

lemma inside_butlast: "inside d (cs @ [c]) \<Longrightarrow> inside d cs"
  by (induction cs arbitrary: d) (auto split: if_splits)

lemma inside_plain: "inside d cs \<Longrightarrow> c \<noteq> [] \<Longrightarrow> c \<noteq> ''.'' \<Longrightarrow> c \<noteq> ''..'' \<Longrightarrow> inside d (cs @ [c])"
  by (induction cs arbitrary: d) (auto split: if_splits)

lemma valid_name_parts:
  assumes "ValidateFileName name = None"
  shows "\<not> filepath_IsAbs name \<and> inside 0 (SplitC name (CHR ''/''))"
proof -
  have rel: "\<not> filepath_IsAbs name"
    using assms by (auto simp: ValidateFileName_def filepath_Clean_def Let_def filepath_IsAbs_def split: if_splits)
  have "''..'' \<notin> set (clean_parts name)"
    using assms rel Contains_Join [of "''..''" "clean_parts name" "''/''"]
    by (auto simp: ValidateFileName_def filepath_Clean_def Let_def split: if_splits)
  then show ?thesis using rel clean_inside [of "[]" "SplitC name (CHR ''/'')"] by (simp add: clean_parts_def)
qed

section \<open>The contract of a writer\<close>

locale row_writer =
  fixes WriteRow :: "'v list \<Rightarrow> 's \<Rightarrow> (goerr option \<times> 's) option"
    and WriteRows :: "'v list list \<Rightarrow> 's \<Rightarrow> (goerr option \<times> 's) option"
    and content :: "'s \<Rightarrow> 'c list"
    and render :: "'v list \<Rightarrow> 'c list"
  assumes row_ok: "WriteRow r s = Some (None, t) \<Longrightarrow> content t = content s @ render r"
    and rows_ok: "WriteRows rs s = Some (None, t) \<Longrightarrow> content t = content s @ concat (map render rs)"

definition csv_render :: "export_env \<Rightarrow> ('f, 'j) conv_lib \<Rightarrow> ('f, 'j) row \<Rightarrow> string" where
  "csv_render env lib r = (case texts lib r of None \<Rightarrow> [] | Some rec \<Rightarrow> csv_record (space_first env) rec)"

lemma csv_row_content: "csv_writeRow env lib r w = Some (None, w1) \<Longrightarrow> ctext w1 = ctext w @ csv_render env lib r \<and> texts lib r \<noteq> None"
  by (auto simp: csv_writeRow_def csv_render_def split: option.splits)

lemma csv_rows_content:
  "csv_WriteRows env lib rs w = Some (None, w1) \<Longrightarrow> ctext w1 = ctext w @ concat (map (csv_render env lib) rs) \<and> (\<forall>r \<in> set rs. texts lib r \<noteq> None)"
proof (induction rs arbitrary: w)
  case (Cons r rs)
  then obtain w2 where w2: "csv_writeRow env lib r (w\<lparr>clooks := Suc (clooks w)\<rparr>) = Some (None, w2)" "csv_WriteRows env lib rs w2 = Some (None, w1)"
    by (auto split: option.splits prod.splits)
  from Cons.IH [OF w2(2)] csv_row_content [OF w2(1)] show ?case by simp
qed simp

interpretation csv: row_writer "csv_writeRow env lib" "csv_WriteRows env lib" ctext "csv_render env lib" for env lib
  by unfold_locales (simp_all add: csv_row_content csv_rows_content)

definition sheet_rows :: "('f, 'j) ExcelWriter \<Rightarrow> ('f, 'j) row list" where
  "sheet_rows w = map snd (sheet w)"

lemma excel_row_content: "excel_writeRow env r w = Some (None, w1) \<Longrightarrow> sheet_rows w1 = sheet_rows w @ [r]"
  by (auto simp: excel_writeRow_def sheet_rows_def split: option.splits if_splits)

lemma excel_rows_content: "excel_WriteRows env rs w = Some (None, w1) \<Longrightarrow> sheet_rows w1 = sheet_rows w @ rs"
proof (induction rs arbitrary: w)
  case (Cons r rs)
  then obtain w2 where w2: "excel_writeRow env r (w\<lparr>xlooks := Suc (xlooks w)\<rparr>) = Some (None, w2)" "excel_WriteRows env rs w2 = Some (None, w1)"
    by (auto split: option.splits prod.splits)
  from Cons.IH [OF w2(2)] excel_row_content [OF w2(1)] show ?case by (simp add: sheet_rows_def)
qed simp

interpretation excel: row_writer "excel_writeRow env" "excel_WriteRows env" sheet_rows "\<lambda>r. [r]" for env
  by unfold_locales (simp_all add: excel_row_content excel_rows_content)

text \<open>The rows of a sheet are numbered from 1 without gaps.\<close>

definition sheet_ok :: "('f, 'j) ExcelWriter \<Rightarrow> bool" where
  "sheet_ok w \<longleftrightarrow> map fst (sheet w) = [1..<rowIndex w] \<and> rowIndex w \<ge> 1"

lemma excel_writeRow_ok: "excel_writeRow env r w = Some (e, w1) \<Longrightarrow> sheet_ok w \<Longrightarrow> sheet_ok w1"
  by (auto simp: excel_writeRow_def sheet_ok_def split: if_splits option.splits)

lemma excel_WriteRows_ok: "excel_WriteRows env rs w = Some (e, w1) \<Longrightarrow> sheet_ok w \<Longrightarrow> sheet_ok w1"
proof (induction rs arbitrary: w)
  case (Cons r rs)
  have look: "sheet_ok (w\<lparr>xlooks := n\<rparr>)" for n using Cons.prems(2) by (simp add: sheet_ok_def)
  show ?case
    using Cons look by (auto split: option.splits prod.splits dest: excel_writeRow_ok)
qed simp

section \<open>Properties\<close>

text \<open>
  CSV reads back: the text that the writer produces for any records with at least one field, whatever bytes the fields have
  (commas, quotes, line ends, leading space), is read by a reader of the format as exactly these records.
\<close>

theorem csv_reads_back:
  assumes "\<forall>r \<in> set rows. r \<noteq> []"
  shows "csv_read AtStart [] [] (csv_text sp rows) = rows"
  by (rule read_text [OF assms])

text \<open>
  An accepted file name stays inside: when \<^verbatim>\<open>ValidateFileName\<close> accepts a name, the file that a writer creates for it, the name with its extension, is
  relative and no prefix of its path climbs above the working directory.
\<close>

theorem export_name_inside:
  assumes "ValidateFileName name = None" "ext \<in> {''.csv'', ''.xlsx''}"
  shows "\<not> filepath_IsAbs (name @ ext) \<and> inside 0 (SplitC (name @ ext) (CHR ''/''))"
proof -
  let ?s = "SplitC name (CHR ''/'')"
  have v: "\<not> filepath_IsAbs name" "inside 0 ?s" "name \<noteq> []"
    using valid_name_parts [OF assms(1)] assms(1) by (auto simp: ValidateFileName_def)
  have "inside 0 (butlast ?s)" by (rule inside_butlast [of _ _ "last ?s"]) (use v(2) in simp)
  moreover have "last ?s @ ext \<noteq> []" "last ?s @ ext \<noteq> ''.''" "last ?s @ ext \<noteq> ''..''"
    using assms(2) by (auto dest!: arg_cong [where f = length])
  ultimately have "inside 0 (butlast ?s @ [last ?s @ ext])" by (rule inside_plain)
  moreover have "CHR ''/'' \<notin> set ext" using assms(2) by auto
  ultimately show ?thesis using v(1,3) SplitC_append [of "CHR ''/''" ext name] by (auto simp: filepath_IsAbs_def split: list.splits)
qed

text \<open>
  A struct slice becomes a table: the header has the tag names of the exported, tagged fields in order, every row has as many
  cells as the header and one for each of these fields, and there are as many rows as items.
\<close>

theorem struct_rows_table:
  assumes "StructSliceToRows tags items = (header, rows)"
  shows "length rows = length items \<and> (\<forall>r \<in> set rows. length r = length header) \<and>
    (\<forall>i < length items. rows ! i = map (\<lambda>(k, _). items ! i ! k) (tag_columns_loop tags 0)) \<and>
    header = map (takeWhile (\<lambda>x. x \<noteq> CHR '','')) (filter (\<lambda>t. t \<noteq> ''-'' \<and> t \<noteq> [] \<and> hd t \<noteq> CHR '','') (map snd (filter fst tags)))"
proof -
  have cols: "map snd (tag_columns_loop ts n) =
      map (takeWhile (\<lambda>x. x \<noteq> CHR '','')) (filter (\<lambda>t. t \<noteq> ''-'' \<and> t \<noteq> [] \<and> hd t \<noteq> CHR '','') (map snd (filter fst ts)))" for ts n
  proof (induction ts n rule: tag_columns_loop.induct)
    case (2 ex tag fs i)
    have "takeWhile (\<lambda>x. x \<noteq> CHR '','') tag = [] \<longleftrightarrow> tag = [] \<or> hd tag = CHR '',''" by (cases tag) auto
    then show ?case using 2 by (auto simp: Let_def)
  qed simp
  show ?thesis using assms cols [of tags 0] by (auto simp: StructSliceToRows_def Let_def case_prod_beta)
qed

section \<open>Witnesses\<close>

theorem csv_reads_back_witness:
  "csv_read AtStart [] [] (csv_text (\<lambda>_. False) [[''a,b'', [quote], []], [[lf, cr]]]) = [[''a,b'', [quote], []], [[lf, cr]]]"
  by (rule csv_reads_back) simp

theorem export_name_inside_witness: "inside 0 (SplitC ''a/../b.csv'' (CHR ''/''))"
proof -
  have "ValidateFileName ''a/../b'' = None" by code_simp
  from export_name_inside [OF this, of "''.csv''"] show ?thesis by simp
qed

theorem struct_rows_table_witness:
  "length [''v1'', ''v3''] = length (fst (StructSliceToRows [(True, ''name,omitempty''), (False, ''x''), (True, ''age'')] [[''v1'', ''v2'', ''v3'']]))"
proof -
  have rows: "StructSliceToRows [(True, ''name,omitempty''), (False, ''x''), (True, ''age'')] [[''v1'', ''v2'', ''v3'']] = ([''name'', ''age''], [[''v1'', ''v3'']])"
    by code_simp
  from struct_rows_table [OF rows] show ?thesis using rows by simp
qed

end
