(* ===== verification/Exporter.thy ===== *)
theory Exporter
  imports Export_Writer
begin

text \<open>
  The exporter, \<^verbatim>\<open>provider/exporter\<close>: the list of a response becomes a file, one column for each field with an \<^verbatim>\<open>export\<close> tag, cells converted
  by the escape functions of the tag, by the methods \<^verbatim>\<open>Export\<close> and \<^verbatim>\<open>String\<close> or by kind.  Decimal arithmetic, time layouts and the methods of the
  exported types are parameters; a writer is one of theory \<^verbatim>\<open>Export_Writer\<close>, seen through its methods.  A call returns \<^term>\<open>None\<close> when it panics.
\<close>

section \<open>Escape functions\<close>

text \<open>An escape function returns a value and an error; the built-in ones return nil with an error.\<close>

type_synonym ('f, 'j) EscapeFunc = "('f, 'j) gany \<Rightarrow> string \<Rightarrow> (('f, 'j) gany \<times> goerr option) option"

record ('f, 'j, 'd) esc_lib =
  esc_conv :: "('f, 'j) conv_lib"
  dec_parse :: "string \<Rightarrow> goerr + 'd"
  dec_add :: "'d \<Rightarrow> 'd \<Rightarrow> 'd"
  dec_sub :: "'d \<Rightarrow> 'd \<Rightarrow> 'd"
  dec_mul :: "'d \<Rightarrow> 'd \<Rightarrow> 'd"
  dec_div :: "'d \<Rightarrow> 'd \<Rightarrow> 'd"
  dec_floor :: "'d \<Rightarrow> 'd"
  dec_isZero :: "'d \<Rightarrow> bool"
  dec_String :: "'d \<Rightarrow> string"
  time_Format :: "int \<Rightarrow> string \<Rightarrow> string"

text \<open>\<^verbatim>\<open>strings.ReplaceAll\<close> with the placeholder \<^verbatim>\<open>%s\<close>.\<close>

fun replace_placeholder :: "string \<Rightarrow> string \<Rightarrow> string" where
  "replace_placeholder [] new = []"
| "replace_placeholder [x] new = [x]"
| "replace_placeholder (x # y # ys) new =
     (if x = CHR ''%'' \<and> y = CHR ''s'' then new @ replace_placeholder ys new else x # replace_placeholder (y # ys) new)"

definition text_any :: "string \<Rightarrow> ('f, 'j) gany" where
  "text_any s = Any string_type (VString s)"

definition esc_fail :: "string \<Rightarrow> goerr \<Rightarrow> (('f, 'j) gany \<times> goerr option) option" where
  "esc_fail p e = Some (AnyNil, Some (ErrWrapf p e))"

definition escapeDate :: "('f, 'j, 'd) esc_lib \<Rightarrow> ('f, 'j) EscapeFunc" where
  "escapeDate L origin arg =
     (case AnyToAny (esc_conv L) origin int64_type of
        None \<Rightarrow> None
      | Some (Inl e) \<Rightarrow> esc_fail ''date val error: '' e
      | Some (Inr (VInt v)) \<Rightarrow>
          Some (text_any (if v = 0 then [] else time_Format L v (if arg \<noteq> [] then arg else ''2006-01-02 15:04:05'')), None)
      | Some (Inr _) \<Rightarrow> Some (text_any [], None))"

text \<open>The four operations share the reading of both sides; \<open>p\<close> is the name in the messages.\<close>

definition dec_escape :: "('f, 'j, 'd) esc_lib \<Rightarrow> string \<Rightarrow> ('d \<Rightarrow> 'd \<Rightarrow> goerr + 'd) \<Rightarrow> ('f, 'j) EscapeFunc" where
  "dec_escape L p f origin arg =
     (case AnyToString (esc_conv L) origin of
        None \<Rightarrow> None
      | Some s \<Rightarrow>
          (case dec_parse L s of
             Inl e \<Rightarrow> esc_fail (p @ '' origin error: '') e
           | Inr x \<Rightarrow>
               (case dec_parse L arg of
                  Inl e \<Rightarrow> esc_fail (p @ '' arg error: '') e
                | Inr y \<Rightarrow>
                    (case f x y of
                       Inl e \<Rightarrow> esc_fail (p @ '' arg error: '') e
                     | Inr z \<Rightarrow> Some (text_any (dec_String L z), None)))))"

definition escapeAdd :: "('f, 'j, 'd) esc_lib \<Rightarrow> ('f, 'j) EscapeFunc" where
  "escapeAdd L = dec_escape L ''add'' (\<lambda>x y. Inr (dec_add L x y))"

definition escapeSub :: "('f, 'j, 'd) esc_lib \<Rightarrow> ('f, 'j) EscapeFunc" where
  "escapeSub L = dec_escape L ''sub'' (\<lambda>x y. Inr (dec_sub L x y))"

definition escapeMul :: "('f, 'j, 'd) esc_lib \<Rightarrow> ('f, 'j) EscapeFunc" where
  "escapeMul L = dec_escape L ''mul'' (\<lambda>x y. Inr (dec_mul L x y))"

definition escapeDiv :: "('f, 'j, 'd) esc_lib \<Rightarrow> ('f, 'j) EscapeFunc" where
  "escapeDiv L = dec_escape L ''div'' (\<lambda>x y. if dec_isZero L y then Inl (ErrNew ''divisor is zero'') else Inr (dec_div L x y))"

definition escapeFloor :: "('f, 'j, 'd) esc_lib \<Rightarrow> ('f, 'j) EscapeFunc" where
  "escapeFloor L origin arg =
     (case AnyToString (esc_conv L) origin of
        None \<Rightarrow> None
      | Some s \<Rightarrow>
          (case dec_parse L s of
             Inl e \<Rightarrow> esc_fail ''floor origin error: '' e
           | Inr x \<Rightarrow> Some (text_any (dec_String L (dec_floor L x)), None)))"

definition escapeFormat :: "('f, 'j, 'd) esc_lib \<Rightarrow> ('f, 'j) EscapeFunc" where
  "escapeFormat L origin arg =
     (case AnyToAny (esc_conv L) origin string_type of
        None \<Rightarrow> None
      | Some (Inl e) \<Rightarrow> esc_fail ''format origin error: '' e
      | Some (Inr (VString s)) \<Rightarrow> Some (text_any (replace_placeholder arg s), None)
      | Some (Inr _) \<Rightarrow> Some (text_any [], None))"

text \<open>The choices of an enumeration are \<^verbatim>\<open>value:text\<close> separated by spaces; the first one that fits counts.\<close>

fun enum_find :: "string \<Rightarrow> string list \<Rightarrow> string option" where
  "enum_find v [] = None"
| "enum_find v (c # cs) = (if HasPrefix c (v @ '':'') then Some (drop 1 (dropWhile (\<lambda>x. x \<noteq> CHR '':'') c)) else enum_find v cs)"

definition escapeEnum :: "('f, 'j, 'd) esc_lib \<Rightarrow> ('f, 'j) EscapeFunc" where
  "escapeEnum L origin arg =
     (case AnyToAny (esc_conv L) origin string_type of
        None \<Rightarrow> None
      | Some (Inl e) \<Rightarrow> esc_fail ''enum origin error: '' e
      | Some (Inr (VString s)) \<Rightarrow>
          Some (case enum_find s (SplitC arg (CHR '' '')) of Some t \<Rightarrow> text_any t | None \<Rightarrow> origin, None)
      | Some (Inr _) \<Rightarrow> Some (origin, None))"

definition escapeFuncs :: "('f, 'j, 'd) esc_lib \<Rightarrow> (string \<rightharpoonup> ('f, 'j) EscapeFunc)" where
  "escapeFuncs L =
     [''date'' \<mapsto> escapeDate L, ''add'' \<mapsto> escapeAdd L, ''sub'' \<mapsto> escapeSub L, ''mul'' \<mapsto> escapeMul L, ''div'' \<mapsto> escapeDiv L,
      ''floor'' \<mapsto> escapeFloor L, ''format'' \<mapsto> escapeFormat L, ''enum'' \<mapsto> escapeEnum L]"

definition RegisterEscapeFunc :: "string \<Rightarrow> ('f, 'j) EscapeFunc \<Rightarrow> (string \<rightharpoonup> ('f, 'j) EscapeFunc) \<Rightarrow> (string \<rightharpoonup> ('f, 'j) EscapeFunc)" where
  "RegisterEscapeFunc key f reg = reg(key \<mapsto> f)"

section \<open>Requests\<close>

definition HeaderDownload :: string where "HeaderDownload = ''X-DOWNLOAD''"
definition HeaderDownloadName :: string where "HeaderDownloadName = ''X-DOWNLOAD-NAME''"
definition HeaderExportFormat :: string where "HeaderExportFormat = ''X-EXPORT-FORMAT''"

definition IsDownloadFromContext :: "(string \<Rightarrow> string) \<Rightarrow> bool" where
  "IsDownloadFromContext getHeader \<longleftrightarrow> getHeader HeaderDownload = ''TRUE''"

definition GetExportFormatFromContext :: "(string \<Rightarrow> string) \<Rightarrow> string" where
  "GetExportFormatFromContext getHeader =
     (let format = ToLower (getHeader HeaderExportFormat) in if format = [] then FormatExcel else format)"

record ExportOptions =
  Format :: string
  FileName :: string

text \<open>\<open>fresh\<close> is the MD5 sum of the time.\<close>

definition DefaultExportOptions :: "string \<Rightarrow> (string \<Rightarrow> string) \<Rightarrow> ExportOptions" where
  "DefaultExportOptions fresh getHeader =
     (let fileName = getHeader HeaderDownloadName
      in \<lparr>Format = GetExportFormatFromContext getHeader, FileName = (if fileName = [] then fresh else fileName)\<rparr>)"

section \<open>Columns\<close>

record escapeInfo =
  funcName :: string
  funcArg :: string

record fieldInfo =
  Path :: string
  escapes :: "escapeInfo list"
  hasExport :: bool
  hasString :: bool

text \<open>
  A field of the element type: its name, its \<^verbatim>\<open>export\<close> tag, the methods of its type (behind a pointer, if it is one) and those of
  a pointer to it.  Tagged fields are exported ones.
\<close>

record export_field =
  xfield :: string
  xtag :: string
  value_methods :: "string list"
  ptr_methods :: "string list"

definition hasExportMethod :: "export_field \<Rightarrow> bool" where
  "hasExportMethod f \<longleftrightarrow> ''Export'' \<in> set (value_methods f) \<or> ''Export'' \<in> set (ptr_methods f)"

definition hasStringMethod :: "export_field \<Rightarrow> bool" where
  "hasStringMethod f \<longleftrightarrow> ''String'' \<in> set (value_methods f) \<or> ''String'' \<in> set (ptr_methods f)"

definition buildPath :: "string \<Rightarrow> string \<Rightarrow> string" where
  "buildPath base name = (if base = [] then name else base @ ''.'' @ name)"

definition parse_escape :: "(string \<rightharpoonup> 'e) \<Rightarrow> string \<Rightarrow> escapeInfo list" where
  "parse_escape reg v =
     (let vex = SplitC v (CHR ''=''); name = vex ! 0; arg = (if length vex > 1 then vex ! 1 else [])
      in if reg name \<noteq> None then [\<lparr>funcName = name, funcArg = arg\<rparr>] else [])"

definition parseField :: "(string \<rightharpoonup> 'e) \<Rightarrow> export_field \<Rightarrow> string \<Rightarrow> (string \<times> fieldInfo) list" where
  "parseField reg f path =
     (if xtag f = [] \<or> xtag f = ''-'' then []
      else let ex = SplitC (xtag f) (CHR '','')
           in [(ex ! 0, \<lparr>Path = path, escapes = concat (map (parse_escape reg) (tl ex)), hasExport = hasExportMethod f, hasString = hasStringMethod f\<rparr>)])"

definition parseType :: "(string \<rightharpoonup> 'e) \<Rightarrow> export_field list \<Rightarrow> string \<Rightarrow> (string \<times> fieldInfo) list" where
  "parseType reg fs path = concat (map (\<lambda>f. parseField reg f (buildPath path (xfield f))) fs)"

section \<open>Cells\<close>

text \<open>
  A value of the list: a nil pointer, a value with the fields it has as a struct, or a field of interface type with what it holds.
  A pointer to a value looks like the value.
\<close>

datatype ('f, 'j) sval = SNil | SVal "('f, 'j) gany" "(string \<times> ('f, 'j) sval) list option" | SIface "('f, 'j) gany"

fun nested_loop :: "('f, 'j) sval \<Rightarrow> string list \<Rightarrow> ('f, 'j) sval option" where
  "nested_loop v [] = Some v"
| "nested_loop v (n # ns) =
     (case v of
        SVal _ (Some fs) \<Rightarrow> (case map_of fs n of None \<Rightarrow> None | Some w \<Rightarrow> nested_loop w ns)
      | _ \<Rightarrow> None)"

definition getNestedField :: "('f, 'j) sval \<Rightarrow> string \<Rightarrow> ('f, 'j) sval option" where
  "getNestedField v path = nested_loop v (SplitC path (CHR ''.''))"

text \<open>
  \<open>method_call C ptr name v\<close>: the results, as texts, of calling the method of the value or of a pointer to it, \<^term>\<open>None\<close> when it has no such method.
\<close>

record ('f, 'j) cell_lib =
  cell_conv :: "('f, 'j) conv_lib"
  method_call :: "bool \<Rightarrow> string \<Rightarrow> ('f, 'j) gany \<Rightarrow> string list option"
  CanAddr :: "('f, 'j) gany \<Rightarrow> bool"
  value_IsZero :: "('f, 'j) gany \<Rightarrow> bool"

definition call_method :: "('f, 'j) cell_lib \<Rightarrow> string \<Rightarrow> ('f, 'j) gany \<Rightarrow> string" where
  "call_method C name v =
     (let method = (case method_call C False name v of
                      Some r \<Rightarrow> Some r
                    | None \<Rightarrow> if CanAddr C v then method_call C True name v else None)
      in case method of Some (r # _) \<Rightarrow> r | _ \<Rightarrow> [])"

definition callExport :: "('f, 'j) cell_lib \<Rightarrow> ('f, 'j) gany \<Rightarrow> string" where
  "callExport C = call_method C ''Export''"

definition callString :: "('f, 'j) cell_lib \<Rightarrow> ('f, 'j) gany \<Rightarrow> string" where
  "callString C = call_method C ''String''"

definition convertValue :: "('f, 'j) cell_lib \<Rightarrow> ('f, 'j) gany \<Rightarrow> ('f, 'j) gany option" where
  "convertValue C a =
     (case a of
        AnyNil \<Rightarrow> Some (text_any [])
      | Any t v \<Rightarrow>
          (case kind t of
             OfInt k \<Rightarrow> Some (Any \<lparr>named = False, kind = OfInt (if signed k then KInt64 else KUint64)\<rparr> v)
           | OfFloat k \<Rightarrow> Some (Any \<lparr>named = False, kind = OfFloat KFloat64\<rparr> v)
           | OfBool \<Rightarrow> Some (Any \<lparr>named = False, kind = OfBool\<rparr> v)
           | OfString \<Rightarrow> Some (Any string_type v)
           | OfBytes \<Rightarrow> map_option text_any (AnyToString (cell_conv C) a)
           | OfJson \<Rightarrow> map_option text_any (AnyToString (cell_conv C) a)
           | _ \<Rightarrow> Some (text_any [])))"

text \<open>The loop over the escape functions stops at the first error, with what that function returned.\<close>

fun escape_loop :: "(string \<rightharpoonup> ('f, 'j) EscapeFunc) \<Rightarrow> escapeInfo list \<Rightarrow> ('f, 'j) gany \<Rightarrow> ('f, 'j) gany option" where
  "escape_loop reg [] data = Some data"
| "escape_loop reg (e # es) data =
     (case reg (funcName e) of
        None \<Rightarrow> None
      | Some f \<Rightarrow>
          (case f data (funcArg e) of
             None \<Rightarrow> None
           | Some (d, Some err) \<Rightarrow> Some d
           | Some (d, None) \<Rightarrow> escape_loop reg es d))"

definition cell_value :: "('f, 'j) cell_lib \<Rightarrow> (string \<rightharpoonup> ('f, 'j) EscapeFunc) \<Rightarrow> fieldInfo \<Rightarrow> ('f, 'j) gany \<Rightarrow> ('f, 'j) gany option \<Rightarrow> ('f, 'j) gany option" where
  "cell_value C reg config v plain =
     (if escapes config \<noteq> [] then escape_loop reg (escapes config) v
      else if hasExport config then Some (text_any (if value_IsZero C v then [] else callExport C v))
      else if hasString config then Some (text_any (callString C v))
      else plain)"

definition getFieldValue :: "('f, 'j) cell_lib \<Rightarrow> (string \<rightharpoonup> ('f, 'j) EscapeFunc) \<Rightarrow> ('f, 'j) sval option \<Rightarrow> fieldInfo \<Rightarrow> ('f, 'j) gany option" where
  "getFieldValue C reg value config =
     (case value of
        None \<Rightarrow> Some (text_any [])
      | Some SNil \<Rightarrow> Some (text_any [])
      | Some (SVal v _) \<Rightarrow> cell_value C reg config v (convertValue C v)
      | Some (SIface v) \<Rightarrow> cell_value C reg config v (Some (text_any [])))"

fun all_some :: "'a option list \<Rightarrow> 'a list option" where
  "all_some [] = Some []"
| "all_some (x # xs) = (case x of None \<Rightarrow> None | Some v \<Rightarrow> map_option (Cons v) (all_some xs))"

definition getRowValues :: "('f, 'j) cell_lib \<Rightarrow> (string \<rightharpoonup> ('f, 'j) EscapeFunc) \<Rightarrow> fieldInfo list \<Rightarrow> ('f, 'j) sval \<Rightarrow> ('f, 'j) row option" where
  "getRowValues C reg fs value = all_some (map (\<lambda>f. getFieldValue C reg (getNestedField value (Path f)) f) fs)"

section \<open>Writing the list\<close>

definition batchSize :: nat where "batchSize = 100"

fun batch_loop :: "('v list list \<Rightarrow> 's \<Rightarrow> (goerr option \<times> 's) option) \<Rightarrow> ('e \<Rightarrow> 'v list option) \<Rightarrow> 'e list \<Rightarrow> 'v list list \<Rightarrow> 's \<Rightarrow>
    (goerr option \<times> 's) option" where
  "batch_loop writeRows row [] rows s =
     (if rows = [] then Some (None, s)
      else case writeRows rows s of
        None \<Rightarrow> None
      | Some (Some e, s1) \<Rightarrow> Some (Some (ErrWrapf ''write rows error: '' e), s1)
      | Some (None, s1) \<Rightarrow> Some (None, s1))"
| "batch_loop writeRows row (x # xs) rows s =
     (case row x of
        None \<Rightarrow> None
      | Some r \<Rightarrow>
          let rows1 = rows @ [r]
          in if length rows1 \<ge> batchSize then
               (case writeRows rows1 s of
                  None \<Rightarrow> None
                | Some (Some e, s1) \<Rightarrow> Some (Some (ErrWrapf ''write rows error: '' e), s1)
                | Some (None, s1) \<Rightarrow> batch_loop writeRows row xs [] s1)
             else batch_loop writeRows row xs rows1 s)"

text \<open>The methods of a writer.\<close>

record ('v, 's) Writer =
  w_WriteHeader :: "'v list \<Rightarrow> 's \<Rightarrow> (goerr option \<times> 's) option"
  w_WriteRows :: "'v list list \<Rightarrow> 's \<Rightarrow> (goerr option \<times> 's) option"
  w_Close :: "'s \<Rightarrow> goerr option \<times> 's"
  w_FileName :: "'s \<Rightarrow> string"
  w_ContentType :: string

definition ErrNoListField :: goerr where
  "ErrNoListField = ErrNew (''response does not contain a valid '' @ [CHR 0x27] @ ''List'' @ [CHR 0x27] @ '' field'')"

definition ErrNoExportFields :: goerr where
  "ErrNoExportFields = ErrNew (''no fields with '' @ [CHR 0x27] @ ''export'' @ [CHR 0x27] @ '' tag found'')"

text \<open>
  The list of the response with its element type, \<^term>\<open>None\<close> when there is no list; \<open>fields_of\<close> are the fields of a type (none unless it is
  a struct), \<open>cache\<close> is \<^verbatim>\<open>typeCacheMap\<close>.
\<close>

definition type_columns :: "(string \<rightharpoonup> 'e) \<Rightarrow> ('t \<Rightarrow> export_field list) \<Rightarrow> ('t \<rightharpoonup> (string \<times> fieldInfo) list) \<Rightarrow> 't \<Rightarrow>
    (string \<times> fieldInfo) list \<times> ('t \<rightharpoonup> (string \<times> fieldInfo) list)" where
  "type_columns reg fields_of cache t =
     (case cache t of
        Some cols \<Rightarrow> (cols, cache)
      | None \<Rightarrow> let cols = parseType reg (fields_of t) [] in (cols, if cols \<noteq> [] then cache(t \<mapsto> cols) else cache))"

definition analysis :: "('f, 'j) cell_lib \<Rightarrow> (string \<rightharpoonup> ('f, 'j) EscapeFunc) \<Rightarrow> ('t \<Rightarrow> export_field list) \<Rightarrow> (('f, 'j) gany, 's) Writer \<Rightarrow>
    ('t \<times> ('f, 'j) sval list) option \<Rightarrow> ('t \<rightharpoonup> (string \<times> fieldInfo) list) \<times> 's \<Rightarrow> (goerr option \<times> ('t \<rightharpoonup> (string \<times> fieldInfo) list) \<times> 's) option" where
  "analysis C reg fields_of W res w =
     (case res of
        None \<Rightarrow> Some (Some ErrNoListField, w)
      | Some (t, xs) \<Rightarrow>
          (case type_columns reg fields_of (fst w) t of
             (cols, cache) \<Rightarrow>
               if cols = [] then Some (Some ErrNoExportFields, cache, snd w)
               else (case w_WriteHeader W (map (text_any \<circ> fst) cols) (snd w) of
                  None \<Rightarrow> None
                | Some (Some e, s1) \<Rightarrow> Some (Some (ErrWrapf ''write header error: '' e), cache, s1)
                | Some (None, s1) \<Rightarrow>
                    map_option (\<lambda>(r, s2). (r, cache, s2))
                      (batch_loop (w_WriteRows W) (getRowValues C reg (map snd cols)) xs [] s1))))"

record ExportResult =
  FilePath :: string
  RContentType :: string

text \<open>
  The result comes with the last state of the writer, the files that were removed again and the cache.  \<open>factories\<close> are the registered
  writers; \<open>W\<close> are the methods of what they make.
\<close>

definition Export :: "('f, 'j) cell_lib \<Rightarrow> (string \<rightharpoonup> ('f, 'j) EscapeFunc) \<Rightarrow> ('t \<Rightarrow> export_field list) \<Rightarrow> (('f, 'j) gany, 's) Writer \<Rightarrow>
    (string \<rightharpoonup> (string \<Rightarrow> goerr + 's)) \<Rightarrow> ExportOptions \<Rightarrow> ('t \<times> ('f, 'j) sval list) option \<Rightarrow> ('t \<rightharpoonup> (string \<times> fieldInfo) list) \<Rightarrow>
    ((goerr + ExportResult) \<times> 's option \<times> string list \<times> ('t \<rightharpoonup> (string \<times> fieldInfo) list)) option" where
  "Export C reg fields_of W factories opts res cache =
     (case NewWriter factories (Format opts) (FileName opts) of
        Inl e \<Rightarrow> Some (Inl (ErrWrapf ''create writer error: '' e), None, [], cache)
      | Inr s \<Rightarrow>
          (case analysis C reg fields_of W res (cache, s) of
             None \<Rightarrow> None
           | Some (Some e, cache1, s1) \<Rightarrow>
               (case w_Close W s1 of (_, s2) \<Rightarrow> Some (Inl e, Some s2, [w_FileName W s2], cache1))
           | Some (None, cache1, s1) \<Rightarrow>
               (case w_Close W s1 of
                  (Some e, s2) \<Rightarrow> Some (Inl (ErrWrapf ''close writer error: '' e), Some s2, [w_FileName W s2], cache1)
                | (None, s2) \<Rightarrow> Some (Inr \<lparr>FilePath = w_FileName W s2, RContentType = w_ContentType W\<rparr>, Some s2, [], cache1))))"

definition Cleanup :: "ExportResult \<Rightarrow> string list" where
  "Cleanup r = (if FilePath r \<noteq> [] then [FilePath r] else [])"

text \<open>The response: the headers that were set and the files that were sent, with their content types.\<close>

definition file_headers :: "ExportResult \<Rightarrow> (string \<times> string) list" where
  "file_headers r =
     [(''Content-Description'', ''File Transfer''), (''Content-Transfer-Encoding'', ''binary''),
      (''Content-Disposition'', ''attachment; filename='' @ FilePath r), (''Content-Type'', RContentType r)]"

record export_answer =
  a_err :: "goerr option"
  a_headers :: "(string \<times> string) list"
  a_sent :: "(string \<times> string) list"
  a_removed :: "string list"

text \<open>\<open>sendFile\<close> is the answer of the web framework; \<open>fresh\<close> and \<open>getHeader\<close> are as in \<^const>\<open>DefaultExportOptions\<close>.\<close>

definition Run :: "('f, 'j) cell_lib \<Rightarrow> (string \<rightharpoonup> ('f, 'j) EscapeFunc) \<Rightarrow> ('t \<Rightarrow> export_field list) \<Rightarrow> (('f, 'j) gany, 's) Writer \<Rightarrow>
    (string \<rightharpoonup> (string \<Rightarrow> goerr + 's)) \<Rightarrow> string \<Rightarrow> (string \<Rightarrow> string) \<Rightarrow> (string \<Rightarrow> string \<Rightarrow> goerr option) \<Rightarrow>
    ('t \<times> ('f, 'j) sval list) option \<Rightarrow> ('t \<rightharpoonup> (string \<times> fieldInfo) list) \<Rightarrow> (export_answer \<times> ('t \<rightharpoonup> (string \<times> fieldInfo) list)) option" where
  "Run C reg fields_of W factories fresh getHeader sendFile res cache =
     (case Export C reg fields_of W factories (DefaultExportOptions fresh getHeader) res cache of
        None \<Rightarrow> None
      | Some (Inl e, _, removed, cache1) \<Rightarrow>
          Some (\<lparr>a_err = Some e, a_headers = [], a_sent = [], a_removed = removed\<rparr>, cache1)
      | Some (Inr r, _, removed, cache1) \<Rightarrow>
          Some (\<lparr>a_err = sendFile (FilePath r) (RContentType r), a_headers = file_headers r,
             a_sent = [(FilePath r, RContentType r)], a_removed = removed @ Cleanup r\<rparr>, cache1))"

text \<open>The two writers.\<close>

definition csv_writer :: "export_env \<Rightarrow> ('f, 'j) conv_lib \<Rightarrow> (('f, 'j) gany, CSVWriter) Writer" where
  "csv_writer env lib = \<lparr>w_WriteHeader = csv_writeRow env lib, w_WriteRows = csv_WriteRows env lib, w_Close = csv_Close env,
     w_FileName = cname, w_ContentType = csv_ContentType\<rparr>"

definition excel_writer :: "export_env \<Rightarrow> goerr option \<Rightarrow> goerr option \<Rightarrow> (('f, 'j) gany, ('f, 'j) ExcelWriter) Writer" where
  "excel_writer env save close_file = \<lparr>w_WriteHeader = excel_writeRow env, w_WriteRows = excel_WriteRows env, w_Close = excel_Close env save close_file,
     w_FileName = xname, w_ContentType = excel_ContentType\<rparr>"

section \<open>What the exporter relies on\<close>

text \<open>A writer that can be closed: closing keeps the content, and no operation changes the name of the file.\<close>

locale export_writer = row_writer "w_WriteHeader W" "w_WriteRows W" content render
  for W :: "(('f, 'j) gany, 's) Writer"
    and content :: "'s \<Rightarrow> 'c list"
    and render :: "('f, 'j) row \<Rightarrow> 'c list" +
  assumes close_content: "content (snd (w_Close W s)) = content s"
    and close_name: "w_FileName W (snd (w_Close W s)) = w_FileName W s"
    and row_name: "w_WriteHeader W r s = Some (e, t) \<Longrightarrow> w_FileName W t = w_FileName W s"
    and rows_name: "w_WriteRows W rs s = Some (e, t) \<Longrightarrow> w_FileName W t = w_FileName W s"
begin

lemma batch_content:
  "batch_loop (w_WriteRows W) row xs rows s = Some (None, t) \<Longrightarrow>
     \<exists>rs. all_some (map row xs) = Some rs \<and> content t = content s @ concat (map render (rows @ rs))"
proof (induction xs arbitrary: rows s)
  case Nil
  then show ?case by (auto split: if_splits option.splits prod.splits dest: rows_ok)
next
  case (Cons x xs)
  then obtain r where r: "row x = Some r" by (auto split: option.splits)
  show ?case
  proof (cases "batchSize \<le> Suc (length rows)")
    case True
    then obtain s1 where s1: "w_WriteRows W (rows @ [r]) s = Some (None, s1)" "batch_loop (w_WriteRows W) row xs [] s1 = Some (None, t)"
      using Cons.prems r by (auto split: option.splits prod.splits)
    show ?thesis using Cons.IH [OF s1(2)] rows_ok [OF s1(1)] r by auto
  next
    case False
    then have "batch_loop (w_WriteRows W) row xs (rows @ [r]) s = Some (None, t)" using Cons.prems r by (simp add: Let_def)
    from Cons.IH [OF this] show ?thesis using r by auto
  qed
qed

lemma batch_name: "batch_loop (w_WriteRows W) row xs rows s = Some (e, t) \<Longrightarrow> w_FileName W t = w_FileName W s"
proof (induction xs arbitrary: rows s)
  case Nil
  then show ?case by (auto split: if_splits option.splits prod.splits dest: rows_name)
next
  case (Cons x xs)
  then obtain r where r: "row x = Some r" by (auto split: option.splits)
  show ?case
  proof (cases "batchSize \<le> Suc (length rows)")
    case True
    then obtain e1 s1 where s1: "w_WriteRows W (rows @ [r]) s = Some (e1, s1)"
      using Cons.prems r by (auto split: option.splits prod.splits)
    have "w_FileName W t = w_FileName W s1"
      using Cons True r s1 by (cases e1) (auto simp: Let_def)
    then show ?thesis using rows_name [OF s1] by simp
  next
    case False
    then have "batch_loop (w_WriteRows W) row xs (rows @ [r]) s = Some (e, t)" using Cons.prems r by (simp add: Let_def)
    from Cons.IH [OF this] show ?thesis .
  qed
qed

lemma analysis_content:
  assumes "analysis C reg fields_of W (Some (t, xs)) (cache, s) = Some (None, cache1, s1)" "type_columns reg fields_of cache t = (cols, cache')"
  shows "cols \<noteq> [] \<and> cache1 = cache' \<and> (\<exists>rows. all_some (map (getRowValues C reg (map snd cols)) xs) = Some rows \<and>
     content s1 = content s @ render (map (text_any \<circ> fst) cols) @ concat (map render rows))"
proof -
  obtain s0 where s0: "cols \<noteq> []" "cache1 = cache'" "w_WriteHeader W (map (text_any \<circ> fst) cols) s = Some (None, s0)"
    "batch_loop (w_WriteRows W) (getRowValues C reg (map snd cols)) xs [] s0 = Some (None, s1)"
    using assms by (auto simp: analysis_def split: if_splits option.splits prod.splits)
  show ?thesis using batch_content [OF s0(4)] row_ok [OF s0(3)] s0(1,2) by auto
qed

lemma analysis_name:
  assumes "analysis C reg fields_of W res (cache, s) = Some (e, cache1, s1)"
  shows "w_FileName W s1 = w_FileName W s"
proof (cases res)
  case (Some a)
  obtain t xs cols cache' where a: "a = (t, xs)" "type_columns reg fields_of cache t = (cols, cache')" by (metis surj_pair)
  consider "s1 = s"
    | e1 where "w_WriteHeader W (map (text_any \<circ> fst) cols) s = Some (Some e1, s1)"
    | s0 where "w_WriteHeader W (map (text_any \<circ> fst) cols) s = Some (None, s0)"
        "batch_loop (w_WriteRows W) (getRowValues C reg (map snd cols)) xs [] s0 = Some (e, s1)"
    using assms Some a by (auto simp: analysis_def split: if_splits option.splits prod.splits)
  then show ?thesis by cases (simp, metis row_name, metis row_name batch_name)
qed (use assms in \<open>simp add: analysis_def\<close>)

lemma Export_removes:
  assumes "Export C reg fields_of W factories opts res cache = Some (r, w, removed, cache1)"
    "NewWriter factories (Format opts) (FileName opts) = Inr s"
  shows "(case r of Inl e \<Rightarrow> removed = [w_FileName W s] | Inr x \<Rightarrow> removed = [] \<and> x = \<lparr>FilePath = w_FileName W s, RContentType = w_ContentType W\<rparr>)"
proof -
  obtain e cache2 s1 where an: "analysis C reg fields_of W res (cache, s) = Some (e, cache2, s1)"
    using assms by (auto simp: Export_def split: option.splits)
  have n: "w_FileName W (snd (w_Close W s1)) = w_FileName W s" using close_name analysis_name [OF an] by simp
  obtain ce s2 where cl: "w_Close W s1 = (ce, s2)" by force
  show ?thesis using assms an n cl by (auto simp: Export_def split: option.splits)
qed

lemma Export_content:
  assumes "Export C reg fields_of W factories opts (Some (t, xs)) cache = Some (Inr r, Some w, removed, cache1)"
    "NewWriter factories (Format opts) (FileName opts) = Inr s" "type_columns reg fields_of cache t = (cols, cache')"
  shows "cols \<noteq> [] \<and> cache1 = cache' \<and> (\<exists>rows. all_some (map (getRowValues C reg (map snd cols)) xs) = Some rows \<and>
     content w = content s @ render (map (text_any \<circ> fst) cols) @ concat (map render rows))"
proof -
  obtain s1 where s1: "analysis C reg fields_of W (Some (t, xs)) (cache, s) = Some (None, cache1, s1)" "w = snd (w_Close W s1)"
    using assms by (auto simp: Export_def split: option.splits prod.splits)
  then show ?thesis using analysis_content [OF s1(1) assms(3)] close_content [of s1] by simp
qed

end

lemma csv_row_keeps: "csv_writeRow env lib r w = Some (e, t) \<Longrightarrow> cname t = cname w"
  by (auto simp: csv_writeRow_def split: option.splits)

lemma csv_rows_keep: "csv_WriteRows env lib rs w = Some (e, t) \<Longrightarrow> cname t = cname w"
  by (induction rs arbitrary: w) (auto split: option.splits prod.splits dest: csv_row_keeps)

interpretation csv_export: export_writer "csv_writer env lib" ctext "csv_render env lib" for env lib
  by unfold_locales (auto simp: csv_writer_def csv_Close_def dest: csv.row_ok csv.rows_ok csv_row_keeps csv_rows_keep)

lemma excel_row_keeps: "excel_writeRow env r w = Some (e, t) \<Longrightarrow> xname t = xname w"
  by (auto simp: excel_writeRow_def split: option.splits if_splits)

lemma excel_rows_keep: "excel_WriteRows env rs w = Some (e, t) \<Longrightarrow> xname t = xname w"
  by (induction rs arbitrary: w) (auto split: option.splits prod.splits dest: excel_row_keeps)

lemma excel_Close_keeps: "sheet_rows (snd (excel_Close env save cl w)) = sheet_rows w" "xname (snd (excel_Close env save cl w)) = xname w"
  by (auto simp: excel_Close_def excel_flush_def sheet_rows_def split: option.splits)

interpretation excel_export: export_writer "excel_writer env save cl" sheet_rows "\<lambda>r. [r]" for env save cl
  by unfold_locales
    (auto simp: excel_writer_def excel_Close_keeps dest: excel.row_ok excel.rows_ok excel_row_keeps excel_rows_keep)

section \<open>Columns and cells\<close>

text \<open>The cache holds what parsing the type gives.\<close>

definition cache_ok :: "(string \<rightharpoonup> 'e) \<Rightarrow> ('t \<Rightarrow> export_field list) \<Rightarrow> ('t \<rightharpoonup> (string \<times> fieldInfo) list) \<Rightarrow> bool" where
  "cache_ok reg fields_of cache \<longleftrightarrow> (\<forall>t cols. cache t = Some cols \<longrightarrow> cols = parseType reg (fields_of t) [])"

lemma type_columns_parse:
  "cache_ok reg fields_of cache \<Longrightarrow> type_columns reg fields_of cache t = (cols, cache') \<Longrightarrow>
     cols = parseType reg (fields_of t) [] \<and> cache_ok reg fields_of cache'"
  by (auto simp: type_columns_def cache_ok_def Let_def split: option.splits if_splits)

lemma texts_header: "texts lib (map (text_any \<circ> fst) cols) = Some (map fst cols)"
  by (induction cols) (simp_all add: text_any_def AnyToString_def ToString_def string_type_def)

lemma texts_length: "texts lib r = Some ts \<Longrightarrow> length ts = length r"
  by (induction r arbitrary: ts) (auto split: option.splits)

lemma all_some_length: "all_some xs = Some ys \<Longrightarrow> length ys = length xs"
  by (induction xs arbitrary: ys) (auto split: option.splits)

lemma all_some_map: "all_some (map f xs) = Some ys \<longleftrightarrow> map f xs = map Some ys"
  by (induction xs arbitrary: ys) (auto split: option.splits simp: Cons_eq_map_conv)

lemma row_cells: "getRowValues C reg fs v = Some r \<Longrightarrow> length r = length fs"
  by (auto simp: getRowValues_def dest: all_some_length)

lemma rows_cells:
  assumes "all_some (map (getRowValues C reg fs) xs) = Some rows"
  shows "\<forall>r \<in> set rows. length r = length fs"
proof
  fix r assume "r \<in> set rows"
  then have "Some r \<in> set (map (getRowValues C reg fs) xs)" using assms by (simp add: all_some_map)
  then show "length r = length fs" using row_cells by (auto simp: eq_commute)
qed

text \<open>An accepted CSV file: what the writer accepted can be turned into texts, and reads back as them.\<close>

lemma csv_render_text:
  "\<forall>r \<in> set rows. texts lib r \<noteq> None \<Longrightarrow>
     concat (map (csv_render env lib) rows) = csv_text (space_first env) (map (the \<circ> texts lib) rows)"
  by (induction rows) (auto simp: csv_render_def csv_text_def)

lemma batch_texts:
  "batch_loop (csv_WriteRows env lib) row xs rows s = Some (None, t) \<Longrightarrow> all_some (map row xs) = Some rs \<Longrightarrow>
     \<forall>r \<in> set (rows @ rs). texts lib r \<noteq> None"
proof (induction xs arbitrary: rows s rs)
  case Nil
  then show ?case using csv_rows_content [of env lib rows s t] by (auto split: if_splits option.splits prod.splits)
next
  case (Cons x xs)
  then obtain r rs' where r: "row x = Some r" "all_some (map row xs) = Some rs'" "rs = r # rs'" by (auto split: option.splits)
  show ?case
  proof (cases "batchSize \<le> Suc (length rows)")
    case True
    then obtain s1 where s1: "csv_WriteRows env lib (rows @ [r]) s = Some (None, s1)"
      "batch_loop (csv_WriteRows env lib) row xs [] s1 = Some (None, t)"
      using Cons.prems r by (auto split: option.splits prod.splits)
    show ?thesis using Cons.IH [OF s1(2) r(2)] csv_rows_content [OF s1(1)] r by auto
  next
    case False
    then have "batch_loop (csv_WriteRows env lib) row xs (rows @ [r]) s = Some (None, t)" using Cons.prems r by (simp add: Let_def)
    from Cons.IH [OF this r(2)] show ?thesis using r by simp
  qed
qed

lemma Export_csv_texts:
  assumes "Export C reg fields_of (csv_writer env lib) factories opts (Some (t, xs)) cache = Some (Inr r, Some w, removed, cache1)"
    "type_columns reg fields_of cache t = (cols, cache')" "all_some (map (getRowValues C reg (map snd cols)) xs) = Some rows"
  shows "\<forall>x \<in> set rows. texts lib x \<noteq> None"
proof -
  obtain s0 s1 where "batch_loop (csv_WriteRows env lib) (getRowValues C reg (map snd cols)) xs [] s0 = Some (None, s1)"
    using assms(1,2) by (auto simp: Export_def analysis_def csv_writer_def split: sum.splits option.splits prod.splits if_splits)
  from batch_texts [OF this assms(3)] show ?thesis by simp
qed

definition csv_factories :: "export_env \<Rightarrow> goerr option \<Rightarrow> (string \<rightharpoonup> (string \<Rightarrow> goerr + CSVWriter))" where
  "csv_factories env create_err = [FormatCSV \<mapsto> NewCSVWriter env create_err]"

lemma csv_created:
  "NewWriter (csv_factories env ce) f name = Inr s \<Longrightarrow> ctext s = utf8_bom \<and> cname s = name @ ''.csv'' \<and> ValidateFileName name = None"
  by (auto simp: NewWriter_def csv_factories_def NewCSVWriter_def split: option.splits if_splits)

section \<open>Properties\<close>



text \<open>
  A value that an escape function refuses disappears: when the first escape function of a column is a built-in one and reports an error, for instance
  \<^verbatim>\<open>div\<close> by zero or \<^verbatim>\<open>add\<close> to a text, the cell is nil, which is written as the empty text, and neither the value nor the error reaches the file or the caller.
\<close>

theorem escape_error_empties_cell:
  assumes "escapes config = e # es" "escapeFuncs L (funcName e) = Some f" "f v (funcArg e) = Some (d, Some err)"
  shows "getFieldValue C (escapeFuncs L) (Some (SVal v fs)) config = Some AnyNil \<and> AnyToString lib AnyNil = Some []"
proof -
  have "d = AnyNil"
    using assms(2,3)
    by (auto simp: escapeFuncs_def escapeDate_def escapeAdd_def escapeSub_def escapeMul_def escapeDiv_def escapeFloor_def escapeFormat_def escapeEnum_def
        dec_escape_def esc_fail_def split: if_splits option.splits sum.splits goval.splits)
  then show ?thesis using assms by (simp add: getFieldValue_def cell_value_def AnyToString_def ToString_def)
qed

text \<open>
  An escape function that is registered after a type was exported once is not used for it: the columns come from the cache, as if the
  function did not exist.
\<close>

theorem late_escape_ignored:
  assumes "cache_ok reg fields_of cache" "cache t = Some cols"
  shows "fst (type_columns (RegisterEscapeFunc key f reg) fields_of cache t) = parseType reg (fields_of t) []"
  using assms by (simp add: type_columns_def cache_ok_def)

section \<open>Witnesses\<close>

text \<open>Two records with a name and a price, the second name with a comma.  Decimals are texts here, and the operations write down what they do.\<close>

definition demo_xenv :: export_env where
  "demo_xenv = \<lparr>io_err = (\<lambda>_. None), ctx_at = (\<lambda>_. None), space_first = (\<lambda>_. False)\<rparr>"

definition demo_cell :: "(unit, unit) cell_lib" where
  "demo_cell = \<lparr>cell_conv = demo_conv, method_call = (\<lambda>_ _ _. None), CanAddr = (\<lambda>_. True), value_IsZero = (\<lambda>_. False)\<rparr>"

definition demo_esc :: "(unit, unit, string) esc_lib" where
  "demo_esc = \<lparr>esc_conv = demo_conv, dec_parse = (\<lambda>s. if s = [] then Inl (ErrNew ''no number'') else Inr s),
     dec_add = (\<lambda>x y. x @ ''+'' @ y), dec_sub = (\<lambda>x y. x @ ''-'' @ y), dec_mul = (\<lambda>x y. x @ ''*'' @ y), dec_div = (\<lambda>x y. x @ ''/'' @ y),
     dec_floor = id, dec_isZero = (\<lambda>x. x = ''0''), dec_String = id, time_Format = (\<lambda>_ _. [])\<rparr>"

definition demo_xfields :: "unit \<Rightarrow> export_field list" where
  "demo_xfields _ = [\<lparr>xfield = ''Name'', xtag = ''name'', value_methods = [], ptr_methods = []\<rparr>,
     \<lparr>xfield = ''Price'', xtag = ''price,div=10'', value_methods = [], ptr_methods = []\<rparr>]"

definition demo_item :: "string \<Rightarrow> string \<Rightarrow> (unit, unit) sval" where
  "demo_item n p = SVal (Any \<lparr>named = True, kind = OfJson\<rparr> (VJson ())) (Some [(''Name'', SVal (text_any n) None), (''Price'', SVal (text_any p) None)])"

definition demo_list :: "(unit \<times> (unit, unit) sval list) option" where
  "demo_list = Some ((), [demo_item ''tea'' ''2'', demo_item ''a,b'' ''7''])"

definition demo_get_header :: "string \<Rightarrow> string" where
  "demo_get_header k = (if k = HeaderExportFormat then ''CSV'' else if k = HeaderDownloadName then ''out/list'' else [])"

definition demo_export where
  "demo_export = Export demo_cell (escapeFuncs demo_esc) demo_xfields (csv_writer demo_xenv demo_conv) (csv_factories demo_xenv None)
     \<lparr>Format = ''csv'', FileName = ''list''\<rparr> demo_list Map.empty"

definition demo_text :: string where
  "demo_text = utf8_bom @ ''name,price'' @ [lf] @ ''tea,2/10'' @ [lf, quote] @ ''a,b'' @ [quote] @ '',7/10'' @ [lf]"

lemma demo_export_ok:
  "\<exists>cache1. demo_export = Some (Inr \<lparr>FilePath = ''list.csv'', RContentType = csv_ContentType\<rparr>,
     Some \<lparr>cname = ''list.csv'', ctext = demo_text, cwrites = 5, clooks = 2\<rparr>, [], cache1)"
proof -
  have "map_option (\<lambda>(r, w, rm, _). (r, w, rm)) demo_export = Some (Inr \<lparr>FilePath = ''list.csv'', RContentType = csv_ContentType\<rparr>,
     Some \<lparr>cname = ''list.csv'', ctext = demo_text, cwrites = 5, clooks = 2\<rparr>, [])"
    by code_simp
  then show ?thesis by auto
qed



theorem escape_error_empties_cell_witness:
  "getFieldValue demo_cell (escapeFuncs demo_esc) (Some (SVal (text_any ''7'') None))
     \<lparr>Path = ''Price'', escapes = [\<lparr>funcName = ''div'', funcArg = ''0''\<rparr>], hasExport = False, hasString = False\<rparr> = Some AnyNil"
proof -
  have "escapeDiv demo_esc (text_any ''7'') ''0'' = Some (AnyNil, Some (ErrWrapf ''div arg error: '' (ErrNew ''divisor is zero'')))" by code_simp
  then show ?thesis
    using escape_error_empties_cell [of "\<lparr>Path = ''Price'', escapes = [\<lparr>funcName = ''div'', funcArg = ''0''\<rparr>], hasExport = False, hasString = False\<rparr>"
        "\<lparr>funcName = ''div'', funcArg = ''0''\<rparr>" "[]" demo_esc "escapeDiv demo_esc" "text_any ''7''" AnyNil _ demo_cell None demo_conv]
    by (simp add: escapeFuncs_def)
qed

theorem late_escape_ignored_witness:
  "fst (type_columns (RegisterEscapeFunc ''floor'' (escapeFloor demo_esc) Map.empty) demo_xfields [() \<mapsto> parseType (Map.empty :: string \<rightharpoonup> (unit, unit) EscapeFunc) (demo_xfields ()) []] ()) =
     parseType (Map.empty :: string \<rightharpoonup> (unit, unit) EscapeFunc) (demo_xfields ()) []"
  by (rule late_escape_ignored [of _ _ _ _ "parseType (Map.empty :: string \<rightharpoonup> (unit, unit) EscapeFunc) (demo_xfields ()) []"]) (simp_all add: cache_ok_def)

end
