(* ===== verification/Time_Range.thy ===== *)
theory Time_Range
  imports Text_Encoding
begin

text \<open>
  Time ranges of requests, \<^verbatim>\<open>common/community/time_range.go\<close>: Unix seconds, Unix milliseconds, months and days as numbers, turned into instants of a
  time zone.  Of the package \<^verbatim>\<open>time\<close> the theory models what the code calls: the proleptic Gregorian calendar, \<^verbatim>\<open>Date\<close> with its two looks at the zone, \<^verbatim>\<open>Parse\<close> and
  \<^verbatim>\<open>Format\<close> for the two layouts, and the conversions to Unix time.  A zone is its lookup function, which gives for an instant the offset and
  the bounds of the period in which the offset is valid.
\<close>

section \<open>The calendar\<close>

definition leap :: "int \<Rightarrow> bool" where
  "leap y \<longleftrightarrow> y mod 4 = 0 \<and> (y mod 100 \<noteq> 0 \<or> y mod 400 = 0)"

definition daysIn :: "int \<Rightarrow> int \<Rightarrow> int" where
  "daysIn m y = (if m = 2 then (if leap y then 29 else 28) else if m \<in> {4, 6, 9, 11} then 30 else 31)"

text \<open>Days before the first of January of a year, counted from the year 1, and before the first of a month in its year.\<close>

definition days_before_year :: "int \<Rightarrow> int" where
  "days_before_year y = 365 * (y - 1) + (y - 1) div 4 - (y - 1) div 100 + (y - 1) div 400"

definition days_before_month :: "int \<Rightarrow> int \<Rightarrow> int" where
  "days_before_month m y = sum_list (map (\<lambda>k. daysIn k y) [1..m - 1])"

text \<open>Days since the first of January 1970, the day number 719162 from the year 1.\<close>

definition day_number :: "int \<Rightarrow> int \<Rightarrow> int \<Rightarrow> int" where
  "day_number y m d = days_before_year y + days_before_month m y + d - 1 - 719162"

text \<open>The year of a day: cycles of 400, 100, 4 years and one year, as the library computes it.\<close>

definition year_of :: "int \<Rightarrow> int" where
  "year_of n =
     (let d = n mod 146097; a = d div 36524; a = a - a div 4; d = d - 36524 * a;
          b = d div 1461; d = d - 1461 * b; c = d div 365; c = c - c div 4
      in 400 * (n div 146097) + 100 * a + 4 * b + c + 1)"

function month_day :: "int \<Rightarrow> int \<Rightarrow> int \<Rightarrow> int \<times> int" where
  "month_day y m r = (if m \<ge> 12 \<or> r < daysIn m y then (m, r + 1) else month_day y (m + 1) (r - daysIn m y))"
  by pat_completeness auto
termination by (relation "measure (\<lambda>(y, m, r). nat (12 - m))") auto

declare month_day.simps [simp del]

definition civil :: "int \<Rightarrow> int \<times> int \<times> int" where
  "civil day = (let n = day + 719162; y = year_of n in (y, month_day y 1 (n - days_before_year y)))"

section \<open>Instants and zones\<close>

record Location =
  lookup :: "int \<Rightarrow> int \<times> int \<times> int"

record gotime =
  unix_sec :: int
  unix_nsec :: int
  loc_of :: Location

definition local_sec :: "gotime \<Rightarrow> int" where
  "local_sec t = unix_sec t + fst (lookup (loc_of t) (unix_sec t))"

text \<open>\<^verbatim>\<open>t.Date()\<close>.\<close>

definition time_civil :: "gotime \<Rightarrow> int \<times> int \<times> int" where
  "time_civil t = civil (local_sec t div 86400)"

text \<open>
  \<^verbatim>\<open>time.Date\<close> at midnight: months beyond December carry into the year, days into the months.  The offset is looked up at the local time read as UTC and, if that
  leads outside the period it is valid for, once more at the result.
\<close>

definition time_Date :: "int \<Rightarrow> int \<Rightarrow> int \<Rightarrow> Location \<Rightarrow> gotime" where
  "time_Date y m d loc =
     (let u = 86400 * day_number (y + (m - 1) div 12) ((m - 1) mod 12 + 1) d
      in case lookup loc u of
           (offset, lo, hi) \<Rightarrow>
             let offset1 = (if offset \<noteq> 0 \<and> (u - offset < lo \<or> hi \<le> u - offset) then fst (lookup loc (u - offset)) else offset)
             in \<lparr>unix_sec = u - offset1, unix_nsec = 0, loc_of = loc\<rparr>)"

definition time_Unix :: "int \<Rightarrow> Location \<Rightarrow> gotime" where
  "time_Unix sec loc = \<lparr>unix_sec = sec, unix_nsec = 0, loc_of = loc\<rparr>"

text \<open>\<^verbatim>\<open>time.UnixMilli\<close>: truncating division, then a negative fraction is borrowed from the seconds.\<close>

definition time_UnixMilli :: "int \<Rightarrow> Location \<Rightarrow> gotime" where
  "time_UnixMilli ms loc =
     (let sec = tdiv ms 1000; nsec = tmod ms 1000 * 1000000
      in if nsec < 0 then \<lparr>unix_sec = sec - 1, unix_nsec = nsec + 1000000000, loc_of = loc\<rparr>
         else \<lparr>unix_sec = sec, unix_nsec = nsec, loc_of = loc\<rparr>)"

definition UnixMilli :: "gotime \<Rightarrow> int" where
  "UnixMilli t = wrap64 (unix_sec t * 1000 + tdiv (unix_nsec t) 1000000)"

text \<open>\<^verbatim>\<open>Add(-time.Nanosecond)\<close>.\<close>

definition minus_nano :: "gotime \<Rightarrow> gotime" where
  "minus_nano t =
     (if unix_nsec t = 0 then t\<lparr>unix_sec := unix_sec t - 1, unix_nsec := 999999999\<rparr> else t\<lparr>unix_nsec := unix_nsec t - 1\<rparr>)"

text \<open>The texts of the layouts \<^verbatim>\<open>2006\<close>, \<^verbatim>\<open>01\<close> and \<^verbatim>\<open>02\<close>: a fixed number of digits.\<close>

fun digits_value :: "int \<Rightarrow> string \<Rightarrow> int option" where
  "digits_value acc [] = Some acc"
| "digits_value acc (x # xs) = (case digit_value x of None \<Rightarrow> None | Some d \<Rightarrow> digits_value (10 * acc + int d) xs)"

definition take_digits :: "nat \<Rightarrow> string \<Rightarrow> (int \<times> string) option" where
  "take_digits k s = (if length s < k then None else map_option (\<lambda>v. (v, drop k s)) (digits_value 0 (take k s)))"

definition zero_padded :: "nat \<Rightarrow> int \<Rightarrow> string" where
  "zero_padded k v = (let s = FormatInt v in replicate (k - length s) (CHR ''0'') @ s)"

definition parse_200601 :: "string \<Rightarrow> (int \<times> int) option" where
  "parse_200601 s =
     (case take_digits 4 s of
        None \<Rightarrow> None
      | Some (y, s1) \<Rightarrow>
          (case take_digits 2 s1 of
             None \<Rightarrow> None
           | Some (m, s2) \<Rightarrow> if s2 = [] \<and> 1 \<le> m \<and> m \<le> 12 then Some (y, m) else None))"

definition parse_20060102 :: "string \<Rightarrow> (int \<times> int \<times> int) option" where
  "parse_20060102 s =
     (case take_digits 4 s of
        None \<Rightarrow> None
      | Some (y, s1) \<Rightarrow>
          (case take_digits 2 s1 of
             None \<Rightarrow> None
           | Some (m, s2) \<Rightarrow>
               (case take_digits 2 s2 of
                  None \<Rightarrow> None
                | Some (d, s3) \<Rightarrow> if s3 = [] \<and> 1 \<le> m \<and> m \<le> 12 \<and> 1 \<le> d \<and> d \<le> daysIn m y then Some (y, m, d) else None)))"

definition format_20060102 :: "gotime \<Rightarrow> string" where
  "format_20060102 t = (case time_civil t of (y, m, d) \<Rightarrow> zero_padded 4 y @ zero_padded 2 m @ zero_padded 2 d)"

section \<open>Ranges\<close>

type_synonym TimeRangeType = string

definition TimeRangeTimestamp :: TimeRangeType where "TimeRangeTimestamp = ''timestamp''"
definition TimeRangeTimestampMs :: TimeRangeType where "TimeRangeTimestampMs = ''timestamp_ms''"
definition TimeRangeYearMonth :: TimeRangeType where "TimeRangeYearMonth = ''year_month''"
definition TimeRangeDate :: TimeRangeType where "TimeRangeDate = ''date''"

record TimeRange =
  StartTime :: int
  EndTime :: int
  RangeType :: TimeRangeType

text \<open>
  The time zones of the system: the local one and those that can be loaded by name; \<open>parse_err\<close> is the error of the package \<^verbatim>\<open>time\<close> for a layout and a text.
\<close>

record tz_env =
  Local :: Location
  LoadLocation :: "string \<Rightarrow> goerr + Location"
  parse_err :: "string \<Rightarrow> string \<Rightarrow> goerr"

text \<open>The optional argument for the zone: absent or nil, a location (or a nil one), a name, or something of another type.\<close>

datatype tz_arg = TzNone | TzLoc "Location option" | TzName string | TzOther string

definition resolveLocation :: "tz_env \<Rightarrow> tz_arg \<Rightarrow> goerr + Location" where
  "resolveLocation env tz =
     (case tz of
        TzNone \<Rightarrow> Inr (Local env)
      | TzLoc v \<Rightarrow> (case v of None \<Rightarrow> Inr (Local env) | Some l \<Rightarrow> Inr l)
      | TzName v \<Rightarrow> if v = [] then Inr (Local env) else LoadLocation env v
      | TzOther ty \<Rightarrow> Inl (ErrNew (''unsupported tz argument type '' @ ty @ '', want string or *time.Location'')))"

definition effectiveType :: "TimeRange \<Rightarrow> TimeRangeType" where
  "effectiveType t = (if RangeType t = [] then TimeRangeTimestamp else RangeType t)"

definition parseYearMonth :: "tz_env \<Rightarrow> int \<Rightarrow> Location \<Rightarrow> goerr + gotime" where
  "parseYearMonth env v loc =
     (let s = FormatInt v
      in case parse_200601 s of
           None \<Rightarrow> Inl (ErrWrapf (''parse '' @ FormatInt v @ '' as yyyyMM: '') (parse_err env ''200601'' s))
         | Some (y, m) \<Rightarrow> Inr (time_Date y m 1 loc))"

definition parseDate :: "tz_env \<Rightarrow> int \<Rightarrow> Location \<Rightarrow> goerr + gotime" where
  "parseDate env v loc =
     (let s = FormatInt v
      in case parse_20060102 s of
           None \<Rightarrow> Inl (ErrWrapf (''parse '' @ FormatInt v @ '' as yyyyMMdd: '') (parse_err env ''20060102'' s))
         | Some (y, m, d) \<Rightarrow>
             let t = time_Date y m d loc
             in if format_20060102 t \<noteq> s then Inl (ErrNew (''invalid date '' @ FormatInt v @ '' (overflow)'')) else Inr t)"

definition endOfMonth :: "gotime \<Rightarrow> gotime" where
  "endOfMonth t = (case time_civil t of (year, month, _) \<Rightarrow> minus_nano (time_Date year (month + 1) 1 (loc_of t)))"

definition endOfDay :: "gotime \<Rightarrow> gotime" where
  "endOfDay t = (case time_civil t of (year, month, day) \<Rightarrow> minus_nano (time_Date year month (day + 1) (loc_of t)))"

text \<open>The two calendar cases share their shape: read both ends, then move the second one to the end of its period.\<close>

definition parse_ends :: "(int \<Rightarrow> goerr + gotime) \<Rightarrow> (gotime \<Rightarrow> gotime) \<Rightarrow> TimeRange \<Rightarrow> goerr + (gotime \<times> gotime)" where
  "parse_ends parse end_of t =
     (case parse (StartTime t) of
        Inl e \<Rightarrow> Inl (ErrWrapf ''parse StartTime: '' e)
      | Inr start \<Rightarrow>
          (case parse (EndTime t) of
             Inl e \<Rightarrow> Inl (ErrWrapf ''parse EndTime: '' e)
           | Inr en \<Rightarrow> Inr (start, end_of en)))"

definition parseRange :: "tz_env \<Rightarrow> TimeRange \<Rightarrow> tz_arg \<Rightarrow> goerr + (gotime \<times> gotime)" where
  "parseRange env t tz =
     (case resolveLocation env tz of
        Inl e \<Rightarrow> Inl e
      | Inr loc \<Rightarrow>
          if effectiveType t = TimeRangeTimestamp then Inr (time_Unix (StartTime t) loc, time_Unix (EndTime t) loc)
          else if effectiveType t = TimeRangeTimestampMs then Inr (time_UnixMilli (StartTime t) loc, time_UnixMilli (EndTime t) loc)
          else if effectiveType t = TimeRangeYearMonth then parse_ends (\<lambda>v. parseYearMonth env v loc) endOfMonth t
          else if effectiveType t = TimeRangeDate then parse_ends (\<lambda>v. parseDate env v loc) endOfDay t
          else Inl (ErrNew (''unsupported TimeRangeType: '' @ fmt_q (RangeType t))))"

definition Parse :: "tz_env \<Rightarrow> TimeRange \<Rightarrow> tz_arg \<Rightarrow> goerr + (gotime \<times> gotime)" where
  "Parse env t tz = parseRange env t tz"

definition ToSec :: "tz_env \<Rightarrow> TimeRange \<Rightarrow> tz_arg \<Rightarrow> goerr + TimeRange" where
  "ToSec env t tz =
     (if effectiveType t = TimeRangeTimestamp then Inr \<lparr>StartTime = StartTime t, EndTime = EndTime t, RangeType = TimeRangeTimestamp\<rparr>
      else case parseRange env t tz of
        Inl e \<Rightarrow> Inl e
      | Inr (start, en) \<Rightarrow> Inr \<lparr>StartTime = unix_sec start, EndTime = unix_sec en, RangeType = TimeRangeTimestamp\<rparr>)"

definition ToMs :: "tz_env \<Rightarrow> TimeRange \<Rightarrow> tz_arg \<Rightarrow> goerr + TimeRange" where
  "ToMs env t tz =
     (if effectiveType t = TimeRangeTimestampMs then Inr \<lparr>StartTime = StartTime t, EndTime = EndTime t, RangeType = TimeRangeTimestampMs\<rparr>
      else case parseRange env t tz of
        Inl e \<Rightarrow> Inl e
      | Inr (start, en) \<Rightarrow> Inr \<lparr>StartTime = UnixMilli start, EndTime = UnixMilli en, RangeType = TimeRangeTimestampMs\<rparr>)"

section \<open>The calendar is consistent\<close>

lemma year_split:
  assumes "0 \<le> (a :: int)" "a \<le> 3" "0 \<le> b" "b \<le> 24" "0 \<le> c" "c \<le> 3"
  shows "days_before_year (400 * q + 100 * a + 4 * b + c + 1) = 146097 * q + 36524 * a + 1461 * b + 365 * c"
proof -
  let ?k = "400 * q + 100 * a + 4 * b + c"
  have "?k div 4 = 100 * q + 25 * a + b" by (rule int_div_pos_eq [of _ _ _ c]) (use assms in simp_all)
  moreover have "?k div 100 = 4 * q + a" by (rule int_div_pos_eq [of _ _ _ "4 * b + c"]) (use assms in simp_all)
  moreover have "?k div 400 = q" by (rule int_div_pos_eq [of _ _ _ "100 * a + 4 * b + c"]) (use assms in simp_all)
  ultimately show ?thesis by (simp add: days_before_year_def)
qed

lemma div_pred: "0 < n \<Longrightarrow> (y :: int) div n = (y - 1) div n + (if n dvd y then 1 else 0)"
proof (cases "n dvd y")
  case True
  assume n: "0 < n"
  from True obtain k where k: "y = n * k" by blast
  have "(y - 1) div n = k - 1" by (rule int_div_pos_eq [of _ _ _ "n - 1"]) (use n k in \<open>simp_all add: algebra_simps\<close>)
  then show ?thesis using n k True by simp
next
  case False
  assume n: "0 < n"
  have "y mod n \<noteq> 0" using False by (simp add: dvd_eq_mod_eq_0)
  moreover have "0 \<le> y mod n" "y mod n < n" using n by simp_all
  ultimately have "(y - 1) div n = y div n"
    by (intro int_div_pos_eq [of _ _ _ "y mod n - 1"]) (simp_all add: algebra_simps)
  then show ?thesis using False by simp
qed

lemma leap_dvd: "leap y \<longleftrightarrow> 4 dvd y \<and> (\<not> 100 dvd y \<or> 400 dvd y)"
  unfolding leap_def dvd_eq_mod_eq_0 ..

lemma year_length: "days_before_year (y + 1) = days_before_year y + (if leap y then 366 else 365)"
proof -
  have dvd: "(100 :: int) dvd 400" "(4 :: int) dvd 100" by simp_all
  have key: "365 * y + x4 - x100 + x400 = 365 * (y - 1) + z4 - z100 + z400 + (if p \<and> (\<not> q \<or> r) then 366 else 365)"
    if "x4 = z4 + (if p then 1 else 0)" "x100 = z100 + (if q then 1 else 0)" "x400 = z400 + (if r then 1 else 0)" "r \<Longrightarrow> q" "q \<Longrightarrow> p"
    for p q r and x4 x100 x400 z4 z100 z400 :: int
    using that by (auto split: if_splits)
  show ?thesis
    unfolding days_before_year_def leap_dvd add_diff_cancel_right'
    by (rule key [OF div_pred div_pred div_pred dvd_trans [OF dvd(1)] dvd_trans [OF dvd(2)]]) simp_all
qed

lemma days_before_year_step: "days_before_year y < days_before_year (y + 1)"
  by (simp add: year_length)

lemma days_before_year_mono: "y \<le> z \<Longrightarrow> days_before_year y \<le> days_before_year z"
proof (induction z rule: int_ge_induct)
  case (step z)
  then show ?case using days_before_year_step [of z] by simp
qed simp

text \<open>A quotient of at most four, with the fourth one cut to three.\<close>

lemma quarter:
  assumes "0 \<le> d" "d \<le> 4 * k" "0 < (k :: int)" "a = d div k - d div k div 4"
  shows "0 \<le> a \<and> a \<le> 3 \<and> k * a \<le> d \<and> d \<le> k * a + k \<and> (a < 3 \<longrightarrow> d < k * a + k)"
proof -
  define e r where "e = d div k" and "r = d mod k"
  have d: "d = k * e + r" "0 \<le> r" "r < k" using assms(3) by (simp_all add: e_def r_def)
  have "0 \<le> e" using assms(1,3) by (simp add: e_def pos_imp_zdiv_nonneg_iff)
  moreover have "e \<le> 4" using assms(2,3) d(1,2) by (metis add_increasing2 add_le_cancel_left dual_order.trans le_add_same_cancel1 mult.commute mult_le_cancel_left_pos)
  ultimately have "e \<in> {0, 1, 2, 3, 4}" by auto
  then show ?thesis using d assms(2,3,4) by (auto simp: e_def [symmetric] algebra_simps)
qed

text \<open>The year computed for a day is the one that contains it.\<close>

lemma year_of_contains: "days_before_year (year_of n) \<le> n \<and> n < days_before_year (year_of n + 1)"
proof -
  define q d where "q = n div 146097" and "d = n mod 146097"
  define a where "a = d div 36524 - d div 36524 div 4"
  define d1 where "d1 = d - 36524 * a"
  define b where "b = d1 div 1461"
  define d2 where "d2 = d1 - 1461 * b"
  define c where "c = d2 div 365 - d2 div 365 div 4"
  have n: "n = 146097 * q + d" and d: "0 \<le> d" "d < 146097" by (simp_all add: q_def d_def)
  have a: "0 \<le> a" "a \<le> 3" "0 \<le> d1" "d1 \<le> 36524" "a < 3 \<longrightarrow> d1 < 36524"
    using quarter [OF d(1) _ _ a_def] d(2) by (auto simp: d1_def)
  have b: "0 \<le> b" "0 \<le> d2" "d2 < 1461" "d1 = 1461 * b + d2"
    using a(3) by (simp_all add: b_def d2_def pos_imp_zdiv_nonneg_iff minus_mult_div_eq_mod)
  have b24: "b \<le> 24" "b = 24 \<and> a < 3 \<longrightarrow> d2 < 1460" using a b by auto
  have c: "0 \<le> c" "c \<le> 3" "365 * c \<le> d2" "d2 \<le> 365 * c + 365" "c < 3 \<longrightarrow> d2 < 365 * c + 365"
    using quarter [OF b(2) _ _ c_def] b(3) by auto
  have y: "year_of n = 400 * q + 100 * a + 4 * b + c + 1"
    unfolding year_of_def Let_def q_def a_def b_def c_def d_def d1_def d2_def by simp
  have start: "days_before_year (year_of n) = 146097 * q + 36524 * a + 1461 * b + 365 * c"
    unfolding y by (rule year_split [OF a(1,2) b(1) b24(1) c(1,2)])
  have next_year: "days_before_year (year_of n + 1) = days_before_year (year_of n) + (if leap (year_of n) then 366 else 365)"
    by (rule year_length)
  have "d = 36524 * a + 1461 * b + d2" by (simp add: d1_def d2_def)
  moreover have "d2 < 365 * c + (if leap (year_of n) then 366 else 365)"
  proof (cases "c = 3 \<and> \<not> (b = 24 \<and> a < 3)")
    case True
    then have y4: "year_of n = 4 * (100 * q + 25 * a + b + 1)" using y by simp
    have "leap (year_of n)"
    proof (cases "b = 24")
      case True
      then have "year_of n = 400 * (q + 1)" using y \<open>c = 3 \<and> _\<close> a(2) by auto
      then show ?thesis by (simp add: leap_def)
    next
      case False
      then have "year_of n mod 100 = 4 * b + 4"
        using y True b(1) b24(1) by (intro int_mod_pos_eq [of _ _ "4 * q + a"]) auto
      then show ?thesis using y4 b(1) by (simp add: leap_def)
    qed
    then show ?thesis using c(4) by simp
  next
    case False
    then show ?thesis using b24(2) c(2,5) by (cases "c < 3") auto
  qed
  ultimately show ?thesis using start n c(3) next_year by simp
qed

definition valid_date :: "int \<times> int \<times> int \<Rightarrow> bool" where
  "valid_date v = (case v of (y, m, d) \<Rightarrow> 1 \<le> m \<and> m \<le> 12 \<and> 1 \<le> d \<and> d \<le> daysIn m y)"

definition ymd :: "int \<times> int \<times> int \<Rightarrow> int" where
  "ymd v = (case v of (y, m, d) \<Rightarrow> 10000 * y + 100 * m + d)"

lemma daysIn_range: "28 \<le> daysIn m y \<and> daysIn m y \<le> 31"
  by (simp add: daysIn_def)

lemma days_before_month_first [simp]: "days_before_month 1 y = 0"
  by (simp add: days_before_month_def)

lemma days_before_month_step: "1 \<le> m \<Longrightarrow> days_before_month (m + 1) y = days_before_month m y + daysIn m y"
  by (simp add: days_before_month_def upto_rec2)

lemma days_before_month_mono: "m \<le> k \<Longrightarrow> 1 \<le> m \<Longrightarrow> days_before_month m y \<le> days_before_month k y"
proof (induction k rule: int_ge_induct)
  case (step k)
  then show ?case using daysIn_range [of k y] by (simp add: days_before_month_step)
qed simp

lemma months_fill_year: "days_before_year y + days_before_month 13 y = days_before_year (y + 1)"
proof -
  have "[1..12] = [1, 2, 3, 4, 5, 6, 7, 8, 9, 10, 11, 12 :: int]" by (simp add: upto_rec1)
  then show ?thesis unfolding year_length days_before_month_def by (simp add: daysIn_def)
qed

lemma month_day_spec:
  assumes "1 \<le> m" "m \<le> 12" "0 \<le> r" "days_before_month m y + r < days_before_month 13 y" "month_day y m r = (m', d)"
  shows "valid_date (y, m', d) \<and> days_before_month m' y + d - 1 = days_before_month m y + r"
  using assms
proof (induction y m r rule: month_day.induct)
  case (1 y m r)
  show ?case
  proof (cases "m \<ge> 12 \<or> r < daysIn m y")
    case True
    then have md: "m' = m" "d = r + 1" using 1(6) by (simp_all add: month_day.simps [of y m r])
    have "r < daysIn m y"
    proof (cases "m = 12")
      case True
      then show ?thesis using 1(5) days_before_month_step [of 12 y] by simp
    qed (use True 1(3) in simp)
    then show ?thesis using 1(2,3,4) md by (simp add: valid_date_def)
  next
    case False
    then have "month_day y (m + 1) (r - daysIn m y) = (m', d)" using 1(6) by (simp add: month_day.simps [of y m r])
    from 1(1) [OF False _ _ _ _ this] show ?thesis using 1(2-5) False by (simp add: days_before_month_step)
  qed
qed

lemma civil_day_number: "valid_date (civil n) \<and> (case civil n of (y, m, d) \<Rightarrow> day_number y m d = n)"
proof -
  define k where "k = n + 719162"
  obtain m d where md: "month_day (year_of k) 1 (k - days_before_year (year_of k)) = (m, d)" by force
  have c: "civil n = (year_of k, m, d)" by (simp add: civil_def Let_def k_def [symmetric] md)
  have "valid_date (year_of k, m, d) \<and> days_before_month m (year_of k) + d - 1 = days_before_month 1 (year_of k) + (k - days_before_year (year_of k))"
    by (rule month_day_spec [OF _ _ _ _ md]) (use year_of_contains [of k] months_fill_year [of "year_of k"] in simp_all)
  then show ?thesis unfolding c by (simp add: day_number_def k_def)
qed

text \<open>Valid dates are ordered as their numbers \<^verbatim>\<open>yyyyMMdd\<close>.\<close>

lemma day_of_year_bound: "valid_date (y, m, d) \<Longrightarrow> days_before_month m y + d \<le> days_before_month (m + 1) y"
  by (simp add: valid_date_def days_before_month_step)

lemma day_number_less:
  assumes "valid_date (y, m, d)" "valid_date (y', m', d')" "y < y' \<or> y = y' \<and> (m < m' \<or> m = m' \<and> d < d')"
  shows "day_number y m d < day_number y' m' d'"
proof -
  have v: "1 \<le> m" "m \<le> 12" "1 \<le> m'" "m' \<le> 12" "1 \<le> d'" using assms by (simp_all add: valid_date_def)
  have bound: "days_before_month m y + d \<le> days_before_month (m + 1) y" by (rule day_of_year_bound [OF assms(1)])
  consider "y < y'" | "y = y'" "m < m'" | "y = y'" "m = m'" "d < d'" using assms(3) by blast
  then show ?thesis
  proof cases
    case 1
    have "days_before_month (m + 1) y \<le> days_before_month 13 y" by (rule days_before_month_mono) (use v in simp_all)
    moreover have "days_before_year (y + 1) \<le> days_before_year y'" using 1 by (intro days_before_year_mono) simp
    moreover have "0 \<le> days_before_month m' y'" using days_before_month_mono [of 1 m' y'] v by simp
    ultimately show ?thesis using bound months_fill_year [of y] v(5) by (simp add: day_number_def)
  next
    case 2
    have "days_before_month (m + 1) y \<le> days_before_month m' y" by (rule days_before_month_mono) (use v 2 in simp_all)
    then show ?thesis using bound 2(1) v(5) by (simp add: day_number_def)
  qed (simp add: day_number_def)
qed

lemma ymd_lex:
  assumes "valid_date (y, m, d)" "valid_date (y', m', d')"
  shows "ymd (y, m, d) < ymd (y', m', d') \<longleftrightarrow> y < y' \<or> y = y' \<and> (m < m' \<or> m = m' \<and> d < d')"
  using assms daysIn_range [of m y] daysIn_range [of m' y'] by (auto simp: valid_date_def ymd_def)

lemma day_number_ymd:
  assumes "valid_date (y, m, d)" "valid_date (y', m', d')"
  shows "day_number y m d < day_number y' m' d' \<longleftrightarrow> ymd (y, m, d) < ymd (y', m', d')"
proof
  assume "ymd (y, m, d) < ymd (y', m', d')"
  then show "day_number y m d < day_number y' m' d'" using day_number_less [OF assms] ymd_lex [OF assms] by blast
next
  assume less: "day_number y m d < day_number y' m' d'"
  show "ymd (y, m, d) < ymd (y', m', d')"
  proof (rule ccontr)
    assume "\<not> ymd (y, m, d) < ymd (y', m', d')"
    then have "(y', m', d') = (y, m, d) \<or> (y' < y \<or> y' = y \<and> (m' < m \<or> m' = m \<and> d' < d))" using ymd_lex [OF assms] by auto
    then show False using less day_number_less [OF assms(2,1)] by fastforce
  qed
qed

lemma civil_order: "a < b \<longleftrightarrow> ymd (civil a) < ymd (civil b)"
  using civil_day_number [of a] civil_day_number [of b] by (auto simp: day_number_ymd split: prod.splits)

lemma civil_unique:
  assumes "valid_date (y, m, d)"
  shows "civil (day_number y m d) = (y, m, d)"
proof -
  obtain y' m' d' where c: "civil (day_number y m d) = (y', m', d')" by (metis surj_pair)
  have v: "valid_date (y', m', d')" "day_number y' m' d' = day_number y m d" using civil_day_number [of "day_number y m d"] c by simp_all
  have "\<not> (y < y' \<or> y = y' \<and> (m < m' \<or> m = m' \<and> d < d'))" using day_number_less [OF assms v(1)] v(2) by auto
  moreover have "\<not> (y' < y \<or> y' = y \<and> (m' < m \<or> m' = m \<and> d' < d))" using day_number_less [OF v(1) assms] v(2) by auto
  ultimately show ?thesis using c by auto
qed

section \<open>Numbers as dates\<close>

lemma length_nat_digits: "0 < k \<Longrightarrow> length (nat_digits n) \<le> k \<longleftrightarrow> n < 10 ^ k"
proof (induction k arbitrary: n)
  case (Suc k)
  show ?case
  proof (cases "k = 0")
    case True
    then show ?thesis by (subst nat_digits.simps) simp
  next
    case False
    then show ?thesis
    proof (cases "n < 10")
      case True
      then have "n < 10 ^ Suc k" using less_le_trans [of n 10 "10 ^ Suc k"] by simp
      then show ?thesis using True by (subst nat_digits.simps) simp
    next
      case False
      have "n < 10 ^ Suc k \<longleftrightarrow> n div 10 < 10 ^ k" by (simp add: less_mult_imp_div_less div_less_iff_less_mult mult.commute)
      then show ?thesis using False Suc.IH [of "n div 10"] \<open>k \<noteq> 0\<close> by (subst nat_digits.simps) simp
    qed
  qed
qed simp

lemma digits_value_append:
  "digits_value a (xs @ ys) = (case digits_value a xs of None \<Rightarrow> None | Some v \<Rightarrow> digits_value v ys)"
  by (induction xs arbitrary: a) (auto split: option.splits)

lemma digits_value_nat: "digits_value 0 (nat_digits n) = Some (int n)"
proof (induction n rule: nat_digits.induct)
  case (1 n)
  show ?case
  proof (cases "n < 10")
    case True
    then show ?thesis by (subst nat_digits.simps) (simp add: digit_value_digit)
  next
    case False
    have "10 * int (n div 10) + int (n mod 10) = int n" by (metis mult.commute of_nat_add of_nat_mult of_nat_numeral div_mult_mod_eq)
    then show ?thesis using 1 False by (subst nat_digits.simps) (simp add: digits_value_append digit_value_digit)
  qed
qed

definition two_digits :: "nat \<Rightarrow> string" where
  "two_digits n = [char_of (48 + n div 10), char_of (48 + n mod 10)]"

lemma nat_digits_ten: "10 \<le> n \<Longrightarrow> nat_digits n = nat_digits (n div 10) @ [char_of (48 + n mod 10)]"
  by (subst nat_digits.simps) simp

lemma nat_digits_hundred:
  assumes "100 \<le> n"
  shows "nat_digits n = nat_digits (n div 100) @ two_digits (n mod 100)"
proof -
  have "n div 10 mod 10 = n mod 100 div 10" "n mod 100 mod 10 = n mod 10" "n div 10 div 10 = n div 100"
    by (simp_all add: mod_mult2_eq [of n 10 10, simplified] div_mult2_eq [of n 10 10, simplified])
  moreover have "10 \<le> n div 10" using assms by simp
  ultimately show ?thesis using nat_digits_ten [of n] nat_digits_ten [of "n div 10"] assms by (simp add: two_digits_def)
qed

lemma int_split: "int n = int k * int (n div k) + int (n mod k)"
  by (metis mult_div_mod_eq of_nat_add of_nat_mult)

lemma hundred: "j < 100 \<Longrightarrow> (100 * n + j) div 100 = n \<and> (100 * n + j) mod 100 = (j :: nat)"
  by simp

lemma length_two [simp]: "length (two_digits n) = 2"
  by (simp add: two_digits_def)

lemma digits_value_two: "n < 100 \<Longrightarrow> digits_value 0 (two_digits n) = Some (int n)"
  using int_split [of n 10] by (simp add: two_digits_def digit_value_digit)

lemma take_digits_append: "length p = k \<Longrightarrow> take_digits k (p @ s) = map_option (\<lambda>v. (v, s)) (digits_value 0 p)"
  by (simp add: take_digits_def)

lemma zero_padded_two: "n < 100 \<Longrightarrow> zero_padded 2 (int n) = two_digits n"
proof (cases "n < 10")
  case True
  moreover have "char_of (48 :: nat) = CHR ''0''" by code_simp
  ultimately show ?thesis by (simp add: zero_padded_def FormatInt_def nat_digits.simps [of n] two_digits_def)
next
  case False
  assume "n < 100"
  then show ?thesis using False
    by (simp add: zero_padded_def FormatInt_def nat_digits.simps [of n] nat_digits.simps [of "n div 10"] two_digits_def)
qed

lemma length_four: "length (nat_digits n) = 4 \<longleftrightarrow> 1000 \<le> n \<and> n < 10000"
  using length_nat_digits [of 3 n] length_nat_digits [of 4 n] by auto

lemma digits_value_Some_digits: "digits_value a s = Some v \<Longrightarrow> \<forall>x \<in> set s. digit_value x \<noteq> None"
  by (induction s arbitrary: a) (auto split: option.splits)

lemma take_digits_Some: "take_digits k s = Some (v, r) \<longleftrightarrow> k \<le> length s \<and> digits_value 0 (take k s) = Some v \<and> r = drop k s"
  by (auto simp: take_digits_def)

lemma no_minus: "digits_value 0 (take (Suc k) (CHR ''-'' # s)) = None"
  by (simp add: digit_value_def)

text \<open>The text of a number of the form \<^verbatim>\<open>yyyyMM\<close>.\<close>

lemma parse_200601_number:
  "parse_200601 (FormatInt v) = Some (y, m) \<longleftrightarrow> v = 100 * y + m \<and> 1000 \<le> y \<and> y \<le> 9999 \<and> 1 \<le> m \<and> m \<le> 12"
    (is "?parse \<longleftrightarrow> ?num")
proof
  assume ?parse
  then have p: "4 \<le> length (FormatInt v)" "digits_value 0 (take 4 (FormatInt v)) = Some y"
    "take_digits 2 (drop 4 (FormatInt v)) = Some (m, [])" "1 \<le> m" "m \<le> 12"
    by (auto simp: parse_200601_def take_digits_Some split: option.splits if_splits)
  then have six: "length (FormatInt v) = 6" by (auto simp: take_digits_Some)
  have v: "0 \<le> v" using p(2) no_minus [of 3] by (auto simp: FormatInt_def split: if_splits)
  define n where "n = nat v"
  have f: "FormatInt v = nat_digits n" "v = int n" using v by (simp_all add: FormatInt_def n_def)
  have big: "100000 \<le> n" using length_nat_digits [of 5 n] six f(1) by simp
  have split: "nat_digits n = nat_digits (n div 100) @ two_digits (n mod 100)" by (rule nat_digits_hundred) (use big in simp)
  then have four: "length (nat_digits (n div 100)) = 4" using six f(1) by (simp add: two_digits_def)
  have "y = int (n div 100)" using p(2) split f(1) four digits_value_nat [of "n div 100"] by simp
  moreover have "m = int (n mod 100)" using p(3) split f(1) four digits_value_two [of "n mod 100"] by (simp add: take_digits_Some two_digits_def)
  moreover have "int n = 100 * int (n div 100) + int (n mod 100)" using int_split [of n 100] by simp
  ultimately show ?num using p(4,5) f(2) four by (auto simp: length_four)
next
  assume num: ?num
  define n k where "n = nat y" and "k = nat m"
  have nk: "y = int n" "m = int k" "1000 \<le> n" "n < 10000" "k < 100" using num by (auto simp: n_def k_def)
  have "nat v = 100 * n + k" using num nk by simp
  then have "FormatInt v = nat_digits n @ two_digits k"
    using num nk nat_digits_hundred [of "100 * n + k"] by (simp add: FormatInt_def)
  moreover have "length (nat_digits n) = 4" using nk by (simp add: length_four)
  ultimately show ?parse
    using num nk take_digits_append [of "two_digits k" 2 "[]"]
    by (simp add: parse_200601_def take_digits_append digits_value_nat digits_value_two)
qed

text \<open>The text of a number of the form \<^verbatim>\<open>yyyyMMdd\<close>.\<close>

lemma FormatInt_ymd:
  assumes "1000 \<le> y" "y \<le> 9999" "1 \<le> m" "m < 100" "1 \<le> d" "d < 100"
  shows "FormatInt (10000 * y + 100 * m + d) = nat_digits (nat y) @ two_digits (nat m) @ two_digits (nat d) \<and> length (nat_digits (nat y)) = 4"
proof -
  define n k j where "n = nat y" and "k = nat m" and "j = nat d"
  have nk: "y = int n" "m = int k" "d = int j" "1000 \<le> n" "n < 10000" "k < 100" "j < 100" using assms by (auto simp: n_def k_def j_def)
  have "nat (10000 * y + 100 * m + d) = 100 * (100 * n + k) + j" using nk by simp
  then have "FormatInt (10000 * y + 100 * m + d) = nat_digits (100 * (100 * n + k) + j)" using nk by (simp add: FormatInt_def)
  also have "\<dots> = nat_digits (100 * n + k) @ two_digits j"
    using nk nat_digits_hundred [of "100 * (100 * n + k) + j"] hundred [of j "100 * n + k"] by simp
  finally have "FormatInt (10000 * y + 100 * m + d) = nat_digits (100 * n + k) @ two_digits j" .
  moreover have "nat_digits (100 * n + k) = nat_digits n @ two_digits k" using nk nat_digits_hundred [of "100 * n + k"] by simp
  ultimately show ?thesis using nk by (simp add: length_four)
qed

lemma parse_20060102_number:
  "parse_20060102 (FormatInt v) = Some (y, m, d) \<longleftrightarrow> v = ymd (y, m, d) \<and> 1000 \<le> y \<and> y \<le> 9999 \<and> valid_date (y, m, d)"
    (is "?parse \<longleftrightarrow> ?num")
proof
  assume ?parse
  then have p: "4 \<le> length (FormatInt v)" "digits_value 0 (take 4 (FormatInt v)) = Some y"
    "take_digits 2 (drop 4 (FormatInt v)) = Some (m, drop 6 (FormatInt v))" "take_digits 2 (drop 6 (FormatInt v)) = Some (d, [])" "valid_date (y, m, d)"
    by (auto simp: parse_20060102_def take_digits_Some valid_date_def split: option.splits if_splits)
  then have eight: "length (FormatInt v) = 8" by (auto simp: take_digits_Some)
  have v: "0 \<le> v" using p(2) no_minus [of 3] by (auto simp: FormatInt_def split: if_splits)
  define n where "n = nat v"
  have f: "FormatInt v = nat_digits n" "v = int n" using v by (simp_all add: FormatInt_def n_def)
  have big: "10000000 \<le> n" using length_nat_digits [of 7 n] eight f(1) by simp
  define h where "h = n div 100"
  have s1: "nat_digits n = nat_digits h @ two_digits (n mod 100)" unfolding h_def by (rule nat_digits_hundred) (use big in simp)
  have s2: "nat_digits h = nat_digits (h div 100) @ two_digits (h mod 100)" by (rule nat_digits_hundred) (use big h_def in simp)
  have four: "length (nat_digits (h div 100)) = 4" using eight f(1) s1 s2 by (simp add: two_digits_def)
  have "y = int (h div 100)" using p(2) s1 s2 f(1) four digits_value_nat [of "h div 100"] by simp
  moreover have "m = int (h mod 100)" using p(3) s1 s2 f(1) four digits_value_two [of "h mod 100"] by (simp add: take_digits_Some two_digits_def)
  moreover have "d = int (n mod 100)" using p(4) s1 s2 f(1) four digits_value_two [of "n mod 100"] by (simp add: take_digits_Some two_digits_def)
  moreover have "int n = 100 * int h + int (n mod 100)" "int h = 100 * int (h div 100) + int (h mod 100)"
    using int_split [of n 100] int_split [of h 100] by (simp_all add: h_def)
  ultimately have "v = ymd (y, m, d)" unfolding f(2) ymd_def by simp
  then show ?num using p(5) \<open>y = _\<close> four by (auto simp: length_four)
next
  assume num: ?num
  then have r: "1 \<le> m" "m < 100" "1 \<le> d" "d < 100" using daysIn_range [of m y] by (auto simp: valid_date_def)
  have f: "FormatInt v = nat_digits (nat y) @ two_digits (nat m) @ two_digits (nat d)" "length (nat_digits (nat y)) = 4"
    using FormatInt_ymd [of y m d] num r by (auto simp: ymd_def)
  have two: "digits_value 0 (two_digits (nat m)) = Some m" "digits_value 0 (two_digits (nat d)) = Some d" "length (two_digits k) = 2" for k
    using digits_value_two [of "nat m"] digits_value_two [of "nat d"] r by (simp_all add: nat_less_iff two_digits_def)
  have "take_digits 4 (FormatInt v) = Some (y, two_digits (nat m) @ two_digits (nat d))"
    using f num by (simp add: take_digits_append digits_value_nat)
  moreover have "take_digits 2 (two_digits (nat m) @ two_digits (nat d)) = Some (m, two_digits (nat d))" using two by (simp add: take_digits_append)
  moreover have "take_digits 2 (two_digits (nat d)) = Some (d, [])" using two take_digits_append [of "two_digits (nat d)" 2 "[]"] by simp
  ultimately show ?parse using num by (simp add: parse_20060102_def valid_date_def)
qed

section \<open>Ends of ranges in a zone with a fixed offset\<close>

definition fixed_offset :: "int \<Rightarrow> Location \<Rightarrow> bool" where
  "fixed_offset off loc \<longleftrightarrow> (\<forall>s. fst (lookup loc s) = off)"

definition not_after :: "gotime \<Rightarrow> gotime \<Rightarrow> bool" where
  "not_after s t \<longleftrightarrow> unix_sec s < unix_sec t \<or> unix_sec s = unix_sec t \<and> unix_nsec s \<le> unix_nsec t"

definition is_instant :: "Location \<Rightarrow> gotime \<Rightarrow> bool" where
  "is_instant loc t \<longleftrightarrow> loc_of t = loc \<and> 0 \<le> unix_nsec t \<and> unix_nsec t < 1000000000"

text \<open>Midnight of a day in such a zone.\<close>

definition midnight :: "int \<Rightarrow> int \<Rightarrow> Location \<Rightarrow> gotime" where
  "midnight off D loc = \<lparr>unix_sec = 86400 * D - off, unix_nsec = 0, loc_of = loc\<rparr>"

definition day_of :: "int \<Rightarrow> gotime \<Rightarrow> int" where
  "day_of off t = (unix_sec t + off) div 86400"

lemma time_Date_fixed:
  "fixed_offset off loc \<Longrightarrow> time_Date y m d loc = midnight off (day_number (y + (m - 1) div 12) ((m - 1) mod 12 + 1) d) loc"
  by (auto simp: time_Date_def midnight_def fixed_offset_def Let_def fst_def split: prod.splits)

lemma time_Date_valid:
  assumes "fixed_offset off loc" "valid_date (y, m, d)"
  shows "time_Date y m d loc = midnight off (day_number y m d) loc"
proof -
  have "(m - 1) div 12 = 0" "(m - 1) mod 12 = m - 1" using assms(2) by (simp_all add: valid_date_def div_pos_pos_trivial mod_pos_pos_trivial)
  then show ?thesis using time_Date_fixed [OF assms(1), of y m d] by simp
qed

lemma time_civil_fixed: "fixed_offset off loc \<Longrightarrow> loc_of t = loc \<Longrightarrow> time_civil t = civil (day_of off t)"
  by (simp add: time_civil_def local_sec_def fixed_offset_def day_of_def)

lemma midnight_civil: "fixed_offset off loc \<Longrightarrow> time_civil (midnight off D loc) = civil D"
  by (simp add: time_civil_fixed [of off loc] midnight_def day_of_def)

lemma midnight_loc [simp]: "loc_of (midnight off D loc) = loc"
  by (simp add: midnight_def)

lemma day_next: "day_number y m (d + 1) = day_number y m d + 1"
  by (simp add: day_number_def)

lemma month_next:
  assumes "1 \<le> m" "m \<le> 12"
  shows "day_number (y + (m + 1 - 1) div 12) ((m + 1 - 1) mod 12 + 1) 1 = day_number y m (daysIn m y) + 1"
proof (cases "m = 12")
  case True
  then show ?thesis using months_fill_year [of y] days_before_month_step [of 12 y] by (simp add: day_number_def)
next
  case False
  then have "m div 12 = 0" "m mod 12 = m" using assms by (simp_all add: div_pos_pos_trivial mod_pos_pos_trivial)
  then show ?thesis using assms by (simp add: day_number_def days_before_month_step)
qed

lemma after_midnight: "is_instant loc x \<Longrightarrow> not_after (midnight off D loc) x \<longleftrightarrow> D \<le> day_of off x"
proof -
  assume x: "is_instant loc x"
  have "unix_sec x + off = 86400 * day_of off x + (unix_sec x + off) mod 86400" by (simp add: day_of_def)
  moreover have "0 \<le> (unix_sec x + off) mod 86400" "(unix_sec x + off) mod 86400 < 86400" by simp_all
  ultimately show ?thesis using x by (auto simp: not_after_def midnight_def is_instant_def)
qed

lemma before_midnight: "is_instant loc x \<Longrightarrow> not_after x (minus_nano (midnight off (D + 1) loc)) \<longleftrightarrow> day_of off x \<le> D"
proof -
  assume x: "is_instant loc x"
  have "unix_sec x + off = 86400 * day_of off x + (unix_sec x + off) mod 86400" by (simp add: day_of_def)
  moreover have "0 \<le> (unix_sec x + off) mod 86400" "(unix_sec x + off) mod 86400 < 86400" by simp_all
  ultimately show ?thesis using x by (auto simp: not_after_def midnight_def minus_nano_def is_instant_def)
qed

text \<open>A number that is a date, and one that is a month.\<close>

definition is_date :: "int \<Rightarrow> bool" where
  "is_date v \<longleftrightarrow> (\<exists>y m d. v = ymd (y, m, d) \<and> 1000 \<le> y \<and> y \<le> 9999 \<and> valid_date (y, m, d))"

definition is_month :: "int \<Rightarrow> bool" where
  "is_month v \<longleftrightarrow> (\<exists>y m. v = 100 * y + m \<and> 1000 \<le> y \<and> y \<le> 9999 \<and> 1 \<le> m \<and> m \<le> 12)"

lemma format_valid:
  assumes "time_civil t = (y, m, d)" "valid_date (y, m, d)" "1000 \<le> y" "y \<le> 9999"
  shows "format_20060102 t = FormatInt (ymd (y, m, d))"
proof -
  have r: "1 \<le> m" "m < 100" "1 \<le> d" "d < 100" using assms(2) daysIn_range [of m y] by (auto simp: valid_date_def)
  have f: "FormatInt (ymd (y, m, d)) = nat_digits (nat y) @ two_digits (nat m) @ two_digits (nat d)" "length (nat_digits (nat y)) = 4"
    using FormatInt_ymd [OF assms(3,4) r] by (simp_all add: ymd_def)
  have "zero_padded 2 m = two_digits (nat m)" "zero_padded 2 d = two_digits (nat d)"
    using zero_padded_two [of "nat m"] zero_padded_two [of "nat d"] r by (simp_all add: nat_less_iff)
  moreover have "zero_padded 4 y = nat_digits (nat y)" using f(2) assms(3) by (simp add: zero_padded_def FormatInt_def)
  ultimately show ?thesis using f(1) assms(1) by (simp add: format_20060102_def)
qed

lemma format_midnight:
  assumes "fixed_offset off loc" "valid_date (y, m, d)" "1000 \<le> y" "y \<le> 9999"
  shows "format_20060102 (midnight off (day_number y m d) loc) = FormatInt (ymd (y, m, d))"
  by (rule format_valid) (use assms in \<open>simp_all add: midnight_civil civil_unique\<close>)

lemma format_day_before:
  assumes "time_civil t = civil (day_number y m d - 1)" "valid_date (y, m, d)" "1000 < y" "y \<le> 9999"
  shows "format_20060102 t \<noteq> FormatInt (ymd (y, m, d))"
proof -
  let ?D = "day_number y m d"
  obtain y1 m1 d1 where c: "civil (?D - 1) = (y1, m1, d1)" by (metis surj_pair)
  have v: "valid_date (y1, m1, d1)" "day_number y1 m1 d1 = ?D - 1" using civil_day_number [of "?D - 1"] c by simp_all
  have "ymd (y1, m1, d1) < ymd (y, m, d)" using day_number_ymd [OF v(1) assms(2)] v(2) by simp
  then have up: "y1 \<le> 9999" using ymd_lex [OF v(1) assms(2)] assms(4) by auto
  have first: "valid_date (1000, 1, 1)" by (simp add: valid_date_def daysIn_def)
  have "day_number 1000 1 1 < ?D" using day_number_less [OF first assms(2)] assms(3) by simp
  then have "\<not> ymd (y1, m1, d1) < ymd (1000, 1, 1)" using day_number_ymd [OF v(1) first] v(2) by simp
  then have low: "1000 \<le> y1" using ymd_lex [OF v(1) first] by auto
  show ?thesis
  proof
    assume "format_20060102 t = FormatInt (ymd (y, m, d))"
    then have "FormatInt (ymd (y1, m1, d1)) = FormatInt (ymd (y, m, d))" using format_valid [of t, OF _ v(1) low up] assms(1) c by simp
    moreover have "parse_20060102 (FormatInt (ymd (y1, m1, d1))) = Some (y1, m1, d1)" using parse_20060102_number v(1) low up by blast
    moreover have "parse_20060102 (FormatInt (ymd (y, m, d))) = Some (y, m, d)" using parse_20060102_number [of _ y m d] assms(2-4) by simp
    ultimately have "(y1, m1, d1) = (y, m, d)" by (metis option.inject)
    then have "day_number y1 m1 d1 = ?D" by blast
    then show False using v(2) by linarith
  qed
qed

lemma parseDate_fixed:
  assumes "fixed_offset off loc"
  shows "(\<exists>e. parseDate env v loc = Inl e) \<longleftrightarrow> \<not> is_date v"
    and "v = ymd (y, m, d) \<Longrightarrow> 1000 \<le> y \<Longrightarrow> y \<le> 9999 \<Longrightarrow> valid_date (y, m, d) \<Longrightarrow> parseDate env v loc = Inr (midnight off (day_number y m d) loc)"
proof -
  show ok: "parseDate env v loc = Inr (midnight off (day_number y m d) loc)"
    if "v = ymd (y, m, d)" "1000 \<le> y" "y \<le> 9999" "valid_date (y, m, d)" for y m d
    using that parse_20060102_number [of v y m d] time_Date_valid [OF assms that(4)] format_midnight [OF assms that(4,2,3)]
    by (simp add: parseDate_def Let_def)
  show "(\<exists>e. parseDate env v loc = Inl e) \<longleftrightarrow> \<not> is_date v"
  proof (cases "is_date v")
    case True
    then show ?thesis using ok by (auto simp: is_date_def)
  next
    case False
    then have "parse_20060102 (FormatInt v) = None"
      using parse_20060102_number [of v] unfolding is_date_def by (metis not_None_eq prod_cases3)
    then show ?thesis using False by (simp add: parseDate_def Let_def)
  qed
qed

lemma parseYearMonth_fixed:
  assumes "fixed_offset off loc"
  shows "(\<exists>e. parseYearMonth env v loc = Inl e) \<longleftrightarrow> \<not> is_month v"
    and "v = 100 * y + m \<Longrightarrow> 1000 \<le> y \<Longrightarrow> y \<le> 9999 \<Longrightarrow> 1 \<le> m \<Longrightarrow> m \<le> 12 \<Longrightarrow> parseYearMonth env v loc = Inr (midnight off (day_number y m 1) loc)"
proof -
  have first: "valid_date (y, m, 1)" if "1 \<le> m" "m \<le> 12" for y m using that daysIn_range [of m y] by (simp add: valid_date_def)
  show ok: "parseYearMonth env v loc = Inr (midnight off (day_number y m 1) loc)"
    if "v = 100 * y + m" "1000 \<le> y" "y \<le> 9999" "1 \<le> m" "m \<le> 12" for y m
    using that parse_200601_number [of v y m] time_Date_valid [OF assms first] by (simp add: parseYearMonth_def Let_def)
  show "(\<exists>e. parseYearMonth env v loc = Inl e) \<longleftrightarrow> \<not> is_month v"
  proof (cases "is_month v")
    case True
    then show ?thesis using ok by (auto simp: is_month_def)
  next
    case False
    then have "parse_200601 (FormatInt v) = None"
      using parse_200601_number [of v] unfolding is_month_def by (metis not_None_eq surj_pair)
    then show ?thesis using False by (simp add: parseYearMonth_def Let_def)
  qed
qed

lemma endOfDay_fixed:
  "fixed_offset off loc \<Longrightarrow> valid_date (y, m, d) \<Longrightarrow> endOfDay (midnight off (day_number y m d) loc) = minus_nano (midnight off (day_number y m d + 1) loc)"
proof -
  assume f: "fixed_offset off loc" and v: "valid_date (y, m, d)"
  have "(m - 1) div 12 = 0" "(m - 1) mod 12 = m - 1" using v by (simp_all add: valid_date_def div_pos_pos_trivial mod_pos_pos_trivial)
  then have "time_Date y m (d + 1) loc = midnight off (day_number y m d + 1) loc" using time_Date_fixed [OF f] by (simp add: day_next)
  then show ?thesis using f v by (simp add: endOfDay_def midnight_civil civil_unique midnight_loc)
qed

lemma endOfMonth_fixed:
  "fixed_offset off loc \<Longrightarrow> valid_date (y, m, d) \<Longrightarrow> endOfMonth (midnight off (day_number y m d) loc) = minus_nano (midnight off (day_number y m (daysIn m y) + 1) loc)"
proof -
  assume f: "fixed_offset off loc" and v: "valid_date (y, m, d)"
  have "time_Date y (m + 1) 1 loc = midnight off (day_number y m (daysIn m y) + 1) loc"
    using time_Date_fixed [OF f, of y "m + 1" 1] month_next [of m y] v by (simp add: valid_date_def)
  then show ?thesis using f v by (simp add: endOfMonth_def midnight_civil civil_unique midnight_loc)
qed

section \<open>Properties\<close>

lemma parse_ends_Inl: "(\<exists>e. parse (StartTime t) = Inl e) \<or> (\<exists>e. parse (EndTime t) = Inl e) \<Longrightarrow> \<exists>e. parse_ends parse end_of t = Inl e"
  by (auto simp: parse_ends_def split: sum.splits)

lemma date_order:
  assumes "valid_date (y, m, d)"
  shows "day_number y m d \<le> n \<longleftrightarrow> ymd (y, m, d) \<le> ymd (civil n)" "n \<le> day_number y m d \<longleftrightarrow> ymd (civil n) \<le> ymd (y, m, d)"
  using civil_order [of n "day_number y m d"] civil_order [of "day_number y m d" n] civil_unique [OF assms] by (auto simp: not_less [symmetric])

lemma month_order:
  assumes "1 \<le> m" "m \<le> 12" "valid_date (y', m', d')"
  shows "ymd (y, m, 1) \<le> ymd (y', m', d') \<longleftrightarrow> 100 * y + m \<le> ymd (y', m', d') div 100"
    "ymd (y', m', d') \<le> ymd (y, m, daysIn m y) \<longleftrightarrow> ymd (y', m', d') div 100 \<le> 100 * y + m"
proof -
  have r: "1 \<le> m'" "m' \<le> 12" "1 \<le> d'" "d' \<le> 31" "d' \<le> daysIn m' y'" using assms(3) daysIn_range [of m' y'] by (auto simp: valid_date_def)
  have q: "ymd (y', m', d') div 100 = 100 * y' + m'" by (rule int_div_pos_eq [of _ _ _ d']) (use r in \<open>auto simp: ymd_def\<close>)
  show "ymd (y, m, 1) \<le> ymd (y', m', d') \<longleftrightarrow> 100 * y + m \<le> ymd (y', m', d') div 100"
    unfolding q using r by (auto simp: ymd_def)
  have "y' = y \<and> m' = m" if eq: "100 * y' + m' = 100 * y + m"
  proof -
    have "y' \<le> y" "y \<le> y'" using eq r(1,2) assms(1,2) by linarith+
    then show ?thesis using eq by linarith
  qed
  then show "ymd (y', m', d') \<le> ymd (y, m, daysIn m y) \<longleftrightarrow> ymd (y', m', d') div 100 \<le> 100 * y + m"
    unfolding q using r daysIn_range [of m y] by (cases "100 * y' + m' = 100 * y + m") (auto simp: ymd_def)
qed

text \<open>
  C23. A range of days holds exactly its days: in a time zone with a fixed offset, \<^verbatim>\<open>Parse\<close> of a range of type \<^verbatim>\<open>date\<close> fails if and only if one of the
  numbers is no date of the Gregorian calendar with a year of four digits, and otherwise an instant lies in the closed interval it returns if and only if its local date, written as a number
  \<^verbatim>\<open>yyyyMMdd\<close>, is between \<^verbatim>\<open>StartTime\<close> and \<^verbatim>\<open>EndTime\<close>.
\<close>

theorem date_range_days:
  assumes "resolveLocation env tz = Inr loc" "fixed_offset off loc" "effectiveType t = TimeRangeDate"
  shows "case Parse env t tz of
      Inl e \<Rightarrow> \<not> (is_date (StartTime t) \<and> is_date (EndTime t))
    | Inr (start, en) \<Rightarrow> is_date (StartTime t) \<and> is_date (EndTime t) \<and>
        (\<forall>x. is_instant loc x \<longrightarrow>
          (not_after start x \<and> not_after x en \<longleftrightarrow> StartTime t \<le> ymd (time_civil x) \<and> ymd (time_civil x) \<le> EndTime t))"
proof -
  have P: "Parse env t tz = parse_ends (\<lambda>v. parseDate env v loc) endOfDay t"
    using assms(1,3) by (simp add: Parse_def parseRange_def TimeRangeDate_def TimeRangeTimestamp_def TimeRangeTimestampMs_def TimeRangeYearMonth_def)
  show ?thesis
  proof (cases "is_date (StartTime t) \<and> is_date (EndTime t)")
    case True
    then obtain y m d y' m' d' where v: "StartTime t = ymd (y, m, d)" "1000 \<le> y" "y \<le> 9999" "valid_date (y, m, d)"
      "EndTime t = ymd (y', m', d')" "1000 \<le> y'" "y' \<le> 9999" "valid_date (y', m', d')" unfolding is_date_def by blast
    have R: "Parse env t tz = Inr (midnight off (day_number y m d) loc, minus_nano (midnight off (day_number y' m' d' + 1) loc))"
      using P parseDate_fixed(2) [OF assms(2) v(1-4)] parseDate_fixed(2) [OF assms(2) v(5-8)] endOfDay_fixed [OF assms(2) v(8)]
      by (simp add: parse_ends_def)
    show ?thesis
      unfolding R using True v(1,5) date_order(1) [OF v(4)] date_order(2) [OF v(8)]
      by (auto simp: after_midnight before_midnight time_civil_fixed [OF assms(2)] is_instant_def)
  next
    case False
    then obtain e where "Parse env t tz = Inl e"
      using P parse_ends_Inl parseDate_fixed(1) [OF assms(2)] by metis
    then show ?thesis using False by simp
  qed
qed

text \<open>
  A range of months holds exactly its months: the same for the type \<^verbatim>\<open>year_month\<close> and numbers \<^verbatim>\<open>yyyyMM\<close>, for months of every length and leap years.
\<close>

theorem month_range_months:
  assumes "resolveLocation env tz = Inr loc" "fixed_offset off loc" "effectiveType t = TimeRangeYearMonth"
  shows "case Parse env t tz of
      Inl e \<Rightarrow> \<not> (is_month (StartTime t) \<and> is_month (EndTime t))
    | Inr (start, en) \<Rightarrow> is_month (StartTime t) \<and> is_month (EndTime t) \<and>
        (\<forall>x. is_instant loc x \<longrightarrow>
          (not_after start x \<and> not_after x en \<longleftrightarrow> StartTime t \<le> ymd (time_civil x) div 100 \<and> ymd (time_civil x) div 100 \<le> EndTime t))"
proof -
  have P: "Parse env t tz = parse_ends (\<lambda>v. parseYearMonth env v loc) endOfMonth t"
    using assms(1,3) by (simp add: Parse_def parseRange_def TimeRangeTimestamp_def TimeRangeTimestampMs_def TimeRangeYearMonth_def)
  show ?thesis
  proof (cases "is_month (StartTime t) \<and> is_month (EndTime t)")
    case True
    then obtain y m y' m' where v: "StartTime t = 100 * y + m" "1000 \<le> y" "y \<le> 9999" "1 \<le> m" "m \<le> 12"
      "EndTime t = 100 * y' + m'" "1000 \<le> y'" "y' \<le> 9999" "1 \<le> m'" "m' \<le> 12" unfolding is_month_def by blast
    have valid: "valid_date (y, m, 1)" "valid_date (y', m', 1)" "valid_date (y', m', daysIn m' y')"
      using v daysIn_range [of m y] daysIn_range [of m' y'] by (simp_all add: valid_date_def)
    have R: "Parse env t tz = Inr (midnight off (day_number y m 1) loc, minus_nano (midnight off (day_number y' m' (daysIn m' y') + 1) loc))"
      using P parseYearMonth_fixed(2) [OF assms(2) v(1-5)] parseYearMonth_fixed(2) [OF assms(2) v(6-10)] endOfMonth_fixed [OF assms(2) valid(2)]
      by (simp add: parse_ends_def)
    have order: "day_number y m 1 \<le> n \<longleftrightarrow> 100 * y + m \<le> ymd (civil n) div 100"
      "n \<le> day_number y' m' (daysIn m' y') \<longleftrightarrow> ymd (civil n) div 100 \<le> 100 * y' + m'" for n
      using date_order(1) [OF valid(1), of n] date_order(2) [OF valid(3), of n] month_order(1) [OF v(4,5)] month_order(2) [OF v(9,10)] civil_day_number [of n]
      by (cases "civil n"; simp)+
    show ?thesis
      unfolding R using True v(1,6) order
      by (auto simp: after_midnight before_midnight time_civil_fixed [OF assms(2)] is_instant_def)
  next
    case False
    then obtain e where "Parse env t tz = Inl e"
      using P parse_ends_Inl parseYearMonth_fixed(1) [OF assms(2)] by metis
    then show ?thesis using False by simp
  qed
qed

text \<open>A zone whose clocks go forward from \<open>off1\<close> to \<open>off2\<close> at midnight of day \<open>D\<close>.\<close>

definition midnight_gap :: "int \<Rightarrow> int \<Rightarrow> int \<Rightarrow> Location \<Rightarrow> bool" where
  "midnight_gap D off1 off2 loc \<longleftrightarrow> off1 < 0 \<and> off1 < off2 \<and> off2 - off1 < 86400 \<and>
     (\<exists>lo hi. lo < 86400 * D \<and> lookup loc = (\<lambda>s. if s < 86400 * D - off1 then (off1, lo, 86400 * D - off1) else (off2, 86400 * D - off1, hi)))"

lemma UnixMilli_floor: "unix_sec (time_UnixMilli ms loc) = ms div 1000"
proof (cases "0 \<le> ms")
  case True
  then show ?thesis by (simp add: time_UnixMilli_def tdiv_nonneg tmod_def Let_def minus_mult_div_eq_mod)
next
  case False
  define q r where "q = (- ms) div 1000" and "r = (- ms) mod 1000"
  have m: "ms = - (1000 * q) - r" "0 \<le> r" "r < 1000" by (simp_all add: q_def r_def minus_mult_div_eq_mod [symmetric])
  have t1: "tdiv ms 1000 = - q" using False by (simp add: tdiv_def q_def)
  have t2: "tmod ms 1000 = - r" unfolding tmod_def t1 using m(1) by linarith
  note t = t1 t2
  show ?thesis
  proof (cases "r = 0")
    case True
    moreover have "ms div 1000 = - q" by (rule int_div_pos_eq [of _ _ _ 0]) (use m True in linarith)+
    ultimately show ?thesis by (simp add: time_UnixMilli_def t)
  next
    case False
    then have r: "0 < r" using m(2) by simp
    have "ms div 1000 = - q - 1" by (rule int_div_pos_eq [of _ _ _ "1000 - r"]) (use m(1,3) r in \<open>simp_all add: algebra_simps\<close>)
    then show ?thesis using False m(2) by (simp add: time_UnixMilli_def Let_def t)
  qed
qed

text \<open>
  A day without a midnight is refused: in a zone west of Greenwich whose clocks are put forward at midnight of day \<open>D\<close>, \<^verbatim>\<open>parseDate\<close> takes the valid date \<open>D\<close> for an overflow, because the
  midnight it computes belongs to the day before; and the range of the day before ends by the length of the gap too early.
\<close>

theorem day_without_midnight:
  assumes "midnight_gap (day_number y m d) off1 off2 loc" "valid_date (y, m, d)" "1000 < y" "y \<le> 9999"
  shows "(\<exists>e. parseDate env (ymd (y, m, d)) loc = Inl e) \<and>
    unix_sec (time_Date y m d loc) = 86400 * day_number y m d - off1 - (off2 - off1)"
proof -
  let ?D = "day_number y m d"
  have g: "off1 < 0" "off1 < off2" "off2 - off1 < 86400"
    "\<exists>lo hi. lo < 86400 * ?D \<and> lookup loc = (\<lambda>s. if s < 86400 * ?D - off1 then (off1, lo, 86400 * ?D - off1) else (off2, 86400 * ?D - off1, hi))"
    using assms(1) by (simp_all add: midnight_gap_def)
  have carry: "(m - 1) div 12 = 0" "(m - 1) mod 12 = m - 1" using assms(2) by (simp_all add: valid_date_def div_pos_pos_trivial mod_pos_pos_trivial)
  have t: "time_Date y m d loc = \<lparr>unix_sec = 86400 * ?D - off2, unix_nsec = 0, loc_of = loc\<rparr>"
    using g by (auto simp: time_Date_def carry Let_def)
  have "local_sec (time_Date y m d loc) = 86400 * ?D - off2 + off1" unfolding t using g by (auto simp: local_sec_def)
  moreover have "(86400 * ?D - off2 + off1) div 86400 = ?D - 1"
    by (rule int_div_pos_eq [of _ _ _ "86400 - off2 + off1"]) (use g in simp_all)
  ultimately have civ: "time_civil (time_Date y m d loc) = civil (?D - 1)" by (simp add: time_civil_def)
  have "format_20060102 (time_Date y m d loc) \<noteq> FormatInt (ymd (y, m, d))"
    by (rule format_day_before [OF civ assms(2-4)])
  moreover have "parse_20060102 (FormatInt (ymd (y, m, d))) = Some (y, m, d)" using parse_20060102_number [of _ y m d] assms(2-4) by simp
  ultimately show ?thesis using t by (simp add: parseDate_def Let_def)
qed

text \<open>
  Milliseconds and seconds convert into each other: seconds become milliseconds and come back unchanged as long as the product fits into 64 bits, and milliseconds become the
  seconds rounded down, also before 1970.
\<close>

theorem sec_ms_roundtrip:
  assumes "resolveLocation env tz = Inr loc" "effectiveType t = TimeRangeTimestamp" "in_int64 (1000 * StartTime t)" "in_int64 (1000 * EndTime t)"
  shows "\<exists>u. ToMs env t tz = Inr u \<and> RangeType u = TimeRangeTimestampMs \<and> StartTime u = 1000 * StartTime t \<and> EndTime u = 1000 * EndTime t \<and>
     ToSec env u tz = ToSec env t tz \<and>
     ToSec env \<lparr>StartTime = a, EndTime = b, RangeType = TimeRangeTimestampMs\<rparr> tz =
       Inr \<lparr>StartTime = a div 1000, EndTime = b div 1000, RangeType = TimeRangeTimestamp\<rparr>"
proof -
  have ms: "ToSec env \<lparr>StartTime = a, EndTime = b, RangeType = TimeRangeTimestampMs\<rparr> tz =
       Inr \<lparr>StartTime = a div 1000, EndTime = b div 1000, RangeType = TimeRangeTimestamp\<rparr>" for a b
    using assms(1) by (simp add: ToSec_def parseRange_def effectiveType_def TimeRangeTimestamp_def TimeRangeTimestampMs_def UnixMilli_floor)
  have "ToMs env t tz = Inr \<lparr>StartTime = 1000 * StartTime t, EndTime = 1000 * EndTime t, RangeType = TimeRangeTimestampMs\<rparr>"
    using assms by (simp add: ToMs_def parseRange_def TimeRangeTimestamp_def TimeRangeTimestampMs_def time_Unix_def UnixMilli_def tdiv_def wrap64_id mult.commute)
  then show ?thesis using ms assms(2) by (auto simp: ToSec_def)
qed

section \<open>Expiry\<close>

text \<open>\<^verbatim>\<open>common/utils/time.go\<close>: \<open>now\<close> is in milliseconds, \<open>expire\<close> in nanoseconds; all in \<^verbatim>\<open>int64\<close>.\<close>

definition IsWithinExpire :: "int \<Rightarrow> int \<Rightarrow> int \<Rightarrow> bool" where
  "IsWithinExpire now timestampSec expire =
     (let diff = wrap64 (now - wrap64 (timestampSec * 1000));
          diff1 = (if diff < 0 then wrap64 (- diff) else diff)
      in diff1 \<le> tdiv expire 1000000)"

lemma wrap64_shift: "wrap64 (x + 2 ^ 64 * k) = wrap64 x"
proof -
  have "(x + 2 ^ 64 * k + 2 ^ 63) mod 2 ^ 64 = (x + 2 ^ 63 + k * 2 ^ 64) mod 2 ^ 64" by (simp add: algebra_simps)
  then show ?thesis by (simp add: wrap64_def)
qed

text \<open>
  Whether a time is within its expiry is exact for times up to \<open>2^53\<close> seconds; but the product with 1000 wraps around, so a time \<open>2^61\<close> seconds away passes exactly when the time itself does.
\<close>

theorem within_expire:
  assumes "\<bar>t\<bar> \<le> 2 ^ 53" "0 \<le> now" "now \<le> 2 ^ 53"
  shows "(IsWithinExpire now t expire \<longleftrightarrow> \<bar>now - t * 1000\<bar> \<le> tdiv expire 1000000) \<and> IsWithinExpire now (t + 2 ^ 61) expire = IsWithinExpire now t expire"
proof -
  have t: "- (2 ^ 53) \<le> t" "t \<le> 2 ^ 53" using assms(1) by (simp_all add: abs_le_iff)
  have "in_int64 (t * 1000)" "in_int64 (now - t * 1000)" "in_int64 (- (now - t * 1000))" using t assms(2,3) by (simp_all add: int64_defs)
  then have w: "wrap64 (t * 1000) = t * 1000" "wrap64 (now - t * 1000) = now - t * 1000" "wrap64 (- (now - t * 1000)) = - (now - t * 1000)"
    by (simp_all add: wrap64_id)
  have "wrap64 ((t + 2 ^ 61) * 1000) = wrap64 (t * 1000)" using wrap64_shift [of "t * 1000" 125] by (simp add: algebra_simps)
  then show ?thesis using w by (simp add: IsWithinExpire_def Let_def abs_if)
qed

section \<open>Witnesses\<close>

definition demo_utc8 :: Location where
  "demo_utc8 = \<lparr>lookup = (\<lambda>_. (28800, int64_min, int64_max))\<rparr>"

definition demo_tz :: tz_env where
  "demo_tz = \<lparr>Local = demo_utc8, LoadLocation = (\<lambda>n. Inl (ErrNew n)), parse_err = (\<lambda>l s. ErrNew s)\<rparr>"

lemma demo_fixed: "fixed_offset 28800 demo_utc8" "resolveLocation demo_tz TzNone = Inr demo_utc8"
  by (simp_all add: fixed_offset_def demo_utc8_def resolveLocation_def demo_tz_def)

text \<open>The 29th of February 2024 is a date, and a quarter past eight in the evening of the 28th in UTC belongs to it.\<close>

theorem date_range_days_witness:
  "case Parse demo_tz \<lparr>StartTime = 20240229, EndTime = 20240229, RangeType = ''date''\<rparr> TzNone of
     Inl e \<Rightarrow> False
   | Inr (start, en) \<Rightarrow> not_after start \<lparr>unix_sec = 1709151300, unix_nsec = 0, loc_of = demo_utc8\<rparr> \<and>
       not_after \<lparr>unix_sec = 1709151300, unix_nsec = 0, loc_of = demo_utc8\<rparr> en"
proof -
  let ?t = "\<lparr>StartTime = 20240229, EndTime = 20240229, RangeType = ''date''\<rparr>"
  let ?x = "\<lparr>unix_sec = 1709151300, unix_nsec = 0, loc_of = demo_utc8\<rparr>"
  have ty: "effectiveType ?t = TimeRangeDate" by (simp add: effectiveType_def TimeRangeDate_def)
  have d: "is_date 20240229" unfolding is_date_def by (intro exI [of _ 2024] exI [of _ 2] exI [of _ 29]) (simp add: ymd_def valid_date_def daysIn_def leap_def)
  have c: "time_civil ?x = (2024, 2, 29)" by code_simp
  show ?thesis
    using date_range_days [OF demo_fixed(2,1) ty] d c by (auto simp: is_instant_def ymd_def split: sum.splits dest: spec [of _ ?x])
qed

theorem month_range_months_witness:
  "case Parse demo_tz \<lparr>StartTime = 202402, EndTime = 202402, RangeType = ''year_month''\<rparr> TzNone of
     Inl e \<Rightarrow> False
   | Inr (start, en) \<Rightarrow> not_after start \<lparr>unix_sec = 1709151300, unix_nsec = 0, loc_of = demo_utc8\<rparr> \<and>
       not_after \<lparr>unix_sec = 1709151300, unix_nsec = 0, loc_of = demo_utc8\<rparr> en"
proof -
  let ?t = "\<lparr>StartTime = 202402, EndTime = 202402, RangeType = ''year_month''\<rparr>"
  let ?x = "\<lparr>unix_sec = 1709151300, unix_nsec = 0, loc_of = demo_utc8\<rparr>"
  have ty: "effectiveType ?t = TimeRangeYearMonth" by (simp add: effectiveType_def TimeRangeYearMonth_def)
  have d: "is_month 202402" unfolding is_month_def by (intro exI [of _ 2024] exI [of _ 2]) simp
  have c: "time_civil ?x = (2024, 2, 29)" by code_simp
  show ?thesis
    using month_range_months [OF demo_fixed(2,1) ty] d c by (auto simp: is_instant_def ymd_def split: sum.splits dest: spec [of _ ?x])
qed

text \<open>The zone of Sao Paulo around the fourth of November 2018, when its clocks went from midnight to one.\<close>

definition demo_sao_paulo :: Location where
  "demo_sao_paulo = \<lparr>lookup = (\<lambda>s. if s < 1541300400 then (-10800, 1518919200, 1541300400) else (-7200, 1541300400, 1550368800))\<rparr>"

theorem day_without_midnight_witness: "\<exists>e. parseDate demo_tz 20181104 demo_sao_paulo = Inl e"
proof -
  have n: "day_number 2018 11 4 = 17839" by code_simp
  have T: "86400 * 17839 - - 10800 = (1541300400 :: int)" by simp
  have g: "midnight_gap (day_number 2018 11 4) (-10800) (-7200) demo_sao_paulo"
    unfolding midnight_gap_def n demo_sao_paulo_def T
    by (intro conjI exI [of _ 1518919200] exI [of _ 1550368800]) simp_all
  have v: "valid_date (2018, 11, 4)" by (simp add: valid_date_def daysIn_def)
  from day_without_midnight [OF g v, of demo_tz] show ?thesis by (simp add: ymd_def)
qed

theorem sec_ms_roundtrip_witness:
  "\<exists>u. ToMs demo_tz \<lparr>StartTime = 1, EndTime = 2, RangeType = []\<rparr> TzNone = Inr u \<and> StartTime u = 1000 \<and>
     ToSec demo_tz \<lparr>StartTime = -1, EndTime = 0, RangeType = TimeRangeTimestampMs\<rparr> TzNone =
       Inr \<lparr>StartTime = -1, EndTime = 0, RangeType = TimeRangeTimestamp\<rparr>"
  using sec_ms_roundtrip [OF demo_fixed(2), of "\<lparr>StartTime = 1, EndTime = 2, RangeType = []\<rparr>" "-1" 0]
  by (auto simp: effectiveType_def int64_defs)

theorem within_expire_witness: "IsWithinExpire 1700000000000 (1700000010 + 2 ^ 61) (60 * 1000000000)"
proof -
  have "tdiv (60 * 1000000000) 1000000 = 60000" by (simp add: tdiv_def)
  then show ?thesis using within_expire [of 1700000010 1700000000000 "60 * 1000000000"] by simp
qed

end
