(* ===== verification/Request_Log.thy ===== *)
theory Request_Log
  imports Text_Encoding
begin

text \<open>
  The request log of the HTTP server, \<^verbatim>\<open>gin/handler/requestLog.go\<close>: options, the writer that keeps a copy of the answer, and what
  is logged of headers and bodies.  The request, the clock and the handler behind the middleware are arguments; UTF-8 is checked byte by byte as \<^verbatim>\<open>unicode/utf8\<close> does.
\<close>

section \<open>UTF-8\<close>

definition byte_in :: "nat \<Rightarrow> nat \<Rightarrow> char \<Rightarrow> bool" where
  "byte_in lo hi c \<longleftrightarrow> lo \<le> of_char c \<and> of_char c \<le> hi"

text \<open>The range of the second byte for a first byte, and how many bytes follow it; \<^term>\<open>None\<close> for bytes that start no rune.\<close>

definition rune_start :: "char \<Rightarrow> (nat \<times> nat \<times> nat) option" where
  "rune_start c =
     (let n = of_char c :: nat
      in if 0xC2 \<le> n \<and> n \<le> 0xDF then Some (0x80, 0xBF, 0)
         else if n = 0xE0 then Some (0xA0, 0xBF, 1)
         else if n = 0xED then Some (0x80, 0x9F, 1)
         else if 0xE1 \<le> n \<and> n \<le> 0xEF then Some (0x80, 0xBF, 1)
         else if n = 0xF0 then Some (0x90, 0xBF, 2)
         else if 0xF1 \<le> n \<and> n \<le> 0xF3 then Some (0x80, 0xBF, 2)
         else if n = 0xF4 then Some (0x80, 0x8F, 2)
         else None)"

text \<open>The modes of the scan: between runes, before the second byte with its range, with \<open>k\<close> more bytes to come.\<close>

datatype utf8_mode = Between | Second nat nat nat | More nat | Bad

fun utf8_step :: "utf8_mode \<Rightarrow> char \<Rightarrow> utf8_mode" where
  "utf8_step Between c =
     (if byte_in 0 0x7F c then Between
      else case rune_start c of None \<Rightarrow> Bad | Some (lo, hi, k) \<Rightarrow> Second lo hi k)"
| "utf8_step (Second lo hi k) c = (if byte_in lo hi c then if k = 0 then Between else More k else Bad)"
| "utf8_step (More k) c = (if byte_in 0x80 0xBF c then if k = 1 then Between else More (k - 1) else Bad)"
| "utf8_step Bad c = Bad"

definition utf8_Valid :: "string \<Rightarrow> bool" where
  "utf8_Valid s \<longleftrightarrow> foldl utf8_step Between s = Between"

section \<open>Options\<close>

definition defaultMaxBodyLogSize :: int where "defaultMaxBodyLogSize = 4 * 1024"

definition defaultHeaderKeys :: "string list" where "defaultHeaderKeys = [''Content-Type'', ''User-Agent'']"

record requestLogConfig =
  maxRequestBodyLog :: int
  maxResponseBodyLog :: int
  logBinaryBody :: bool
  headerKeys :: "string list"
  headerKeysSet :: bool
  logAllHeaders :: bool

type_synonym RequestLogOption = "requestLogConfig \<Rightarrow> requestLogConfig"

definition WithMaxRequestBodyLog :: "int \<Rightarrow> RequestLogOption" where
  "WithMaxRequestBodyLog n c = c\<lparr>maxRequestBodyLog := n\<rparr>"

definition WithMaxResponseBodyLog :: "int \<Rightarrow> RequestLogOption" where
  "WithMaxResponseBodyLog n c = c\<lparr>maxResponseBodyLog := n\<rparr>"

definition WithLogBinaryBody :: "bool \<Rightarrow> RequestLogOption" where
  "WithLogBinaryBody enable c = c\<lparr>logBinaryBody := enable\<rparr>"

definition WithHeaderKeys :: "string list \<Rightarrow> RequestLogOption" where
  "WithHeaderKeys keys c = c\<lparr>headerKeys := keys, headerKeysSet := True\<rparr>"

definition WithLogAllHeaders :: "bool \<Rightarrow> RequestLogOption" where
  "WithLogAllHeaders enable c = c\<lparr>logAllHeaders := enable\<rparr>"

definition log_config :: "RequestLogOption list \<Rightarrow> requestLogConfig" where
  "log_config opts =
     foldl (\<lambda>c opt. opt c)
       \<lparr>maxRequestBodyLog = defaultMaxBodyLogSize, maxResponseBodyLog = defaultMaxBodyLogSize, logBinaryBody = False,
        headerKeys = [], headerKeysSet = False, logAllHeaders = False\<rparr> opts"

section \<open>The writer\<close>

text \<open>\<open>sent\<close> is what the wrapped writer got.\<close>

record bodyLogWriter =
  body :: string
  limit :: int
  written :: int
  sent :: string

definition bufferBody :: "string \<Rightarrow> bodyLogWriter \<Rightarrow> bodyLogWriter" where
  "bufferBody data w =
     (if limit w = 0 then w
      else if limit w > 0 \<and> written w \<ge> limit w then w
      else let toWrite = (if limit w > 0 \<and> int (length data) > limit w - written w then take (nat (limit w - written w)) data else data)
           in w\<lparr>body := body w @ toWrite, written := written w + int (length data)\<rparr>)"

text \<open>\<^verbatim>\<open>Write\<close> and \<^verbatim>\<open>WriteString\<close> do the same.\<close>

definition blw_Write :: "string \<Rightarrow> bodyLogWriter \<Rightarrow> bodyLogWriter" where
  "blw_Write b w = (let w1 = bufferBody b w in w1\<lparr>sent := sent w1 @ b\<rparr>)"

definition new_blw :: "int \<Rightarrow> bodyLogWriter" where
  "new_blw lim = \<lparr>body = [], limit = lim, written = 0, sent = []\<rparr>"

section \<open>What is logged\<close>

definition filterHeaders :: "(string \<Rightarrow> string) \<Rightarrow> string list \<Rightarrow> (string \<rightharpoonup> string) option" where
  "filterHeaders getHeader keys =
     (if keys = [] then None
      else Some (foldl (\<lambda>m key. if getHeader key \<noteq> [] then m(key \<mapsto> getHeader key) else m) Map.empty keys))"

definition binaryPrefixes :: "string list" where
  "binaryPrefixes = [''image/'', ''video/'', ''audio/'', ''font/'']"

definition binaryTypes :: "string list" where
  "binaryTypes =
     [''application/octet-stream'', ''application/zip'', ''application/gzip'', ''application/x-tar'', ''application/x-gzip'',
      ''application/x-bzip2'', ''application/x-7z-compressed'', ''application/x-rar-compressed'', ''application/pdf'',
      ''application/vnd.ms-excel'', ''application/vnd.openxmlformats-officedocument.spreadsheetml.sheet'',
      ''application/vnd.openxmlformats-officedocument.wordprocessingml.document'', ''multipart/form-data'']"

definition isBinaryContentType :: "string \<Rightarrow> bool" where
  "isBinaryContentType contentType \<longleftrightarrow>
     (let ct = TrimSpace (takeWhile (\<lambda>x. x \<noteq> CHR '';'') (ToLower (TrimSpace contentType)))
      in list_ex (HasPrefix ct) binaryPrefixes \<or> ct \<in> set binaryTypes)"

function cut_loop :: "string \<Rightarrow> string" where
  "cut_loop s = (if s \<noteq> [] \<and> \<not> utf8_Valid s then cut_loop (butlast s) else s)"
  by pat_completeness auto
termination by (relation "measure length") auto

declare cut_loop.simps [simp del]

definition formatBodyForLog :: "string \<Rightarrow> string \<Rightarrow> int \<Rightarrow> bool \<Rightarrow> string" where
  "formatBodyForLog bd contentType maxSize logBinary =
     (if maxSize = 0 \<or> bd = [] then []
      else let totalSize = int (length bd)
           in if \<not> logBinary \<and> isBinaryContentType contentType then
                ''(binary content-type: '' @ contentType @ '', size: '' @ FormatInt totalSize @ '' bytes)''
              else if \<not> logBinary \<and> \<not> utf8_Valid bd then ''(non-utf8 binary, size: '' @ FormatInt totalSize @ '' bytes)''
              else if maxSize > 0 \<and> totalSize > maxSize then
                cut_loop (take (nat maxSize) bd) @ ''...(truncated, total: '' @ FormatInt totalSize @ '' bytes)''
              else bd)"

text \<open>
  The request as the middleware sees it.  The handlers behind it are given by what they do: the pieces they write, the status and the content type
  they leave, the request id that an earlier middleware put into the answer.
\<close>

record log_request =
  r_url :: string
  r_host :: string
  r_client :: string
  r_proto :: string
  r_method :: string
  r_header :: "string \<Rightarrow> string"
  r_all_headers :: "(string \<times> string list) list"
  r_body :: string
  r_contentType :: string

record handled =
  h_writes :: "string list"
  h_status :: int
  h_contentType :: string
  h_request_id :: string

datatype log_level = LogInfo | LogWarn | LogError

datatype log_headers = AllHeaders "(string \<times> string list) list" | SomeHeaders "(string \<rightharpoonup> string) option"

record log_entry =
  l_level :: log_level
  l_url :: string
  l_start :: string
  l_end :: string
  l_server_name :: string
  l_remote_addr :: string
  l_proto :: string
  l_method :: string
  l_time_ms :: int
  l_status :: int
  l_header :: log_headers
  l_request_id :: string
  l_request_body :: string
  l_request_body_size :: nat
  l_response_body :: string
  l_response_body_size :: int

definition write_all :: "string list \<Rightarrow> bodyLogWriter \<Rightarrow> bodyLogWriter" where
  "write_all ws w = foldl (\<lambda>w b. blw_Write b w) w ws"

text \<open>\<open>date_time\<close> is \<^verbatim>\<open>time.DateTime\<close> layout; the result is the entry of the log and what the client gets.\<close>

definition RequestLogMiddleware :: "(int \<Rightarrow> string) \<Rightarrow> RequestLogOption list \<Rightarrow> log_request \<Rightarrow> int \<Rightarrow> int \<Rightarrow> handled \<Rightarrow> log_entry \<times> string" where
  "RequestLogMiddleware date_time opts req start en h =
     (let cfg = log_config opts;
          hkeys = (if headerKeysSet cfg then headerKeys cfg else defaultHeaderKeys);
          blw = write_all (h_writes h) (new_blw (maxResponseBodyLog cfg));
          status = h_status h
      in (\<lparr>l_level = (if status \<ge> 500 then LogError else if status \<ge> 400 then LogWarn else LogInfo),
           l_url = r_url req, l_start = date_time start, l_end = date_time en, l_server_name = r_host req,
           l_remote_addr = r_client req, l_proto = r_proto req, l_method = r_method req,
           l_time_ms = tdiv (wrap64 (en - start)) 1000000, l_status = status,
           l_header = (if logAllHeaders cfg then AllHeaders (r_all_headers req) else SomeHeaders (filterHeaders (r_header req) hkeys)),
           l_request_id = h_request_id h,
           l_request_body = formatBodyForLog (r_body req) (r_contentType req) (maxRequestBodyLog cfg) (logBinaryBody cfg),
           l_request_body_size = length (r_body req),
           l_response_body = formatBodyForLog (body blw) (h_contentType h) (maxResponseBodyLog cfg) (logBinaryBody cfg),
           l_response_body_size = written blw\<rparr>, sent blw))"

section \<open>Scanning\<close>

lemma utf8_bad [simp]: "foldl utf8_step Bad s = Bad"
  by (induction s) simp_all

lemma utf8_Nil [simp]: "utf8_Valid []"
  by (simp add: utf8_Valid_def)

lemma utf8_append: "utf8_Valid s \<Longrightarrow> utf8_Valid (s @ t) \<longleftrightarrow> utf8_Valid t"
  by (simp add: utf8_Valid_def)

lemma ascii_valid: "\<forall>x \<in> set s. byte_in 0 0x7F x \<Longrightarrow> utf8_Valid s"
  by (induction s) (simp_all add: utf8_Valid_def)

text \<open>How many bytes of an unfinished rune a mode has seen, at most three.\<close>

fun pending :: "utf8_mode \<Rightarrow> nat \<Rightarrow> bool" where
  "pending Between n \<longleftrightarrow> n = 0"
| "pending (Second lo hi k) n \<longleftrightarrow> n = 1 \<and> k \<le> 2"
| "pending (More k) n \<longleftrightarrow> n + k \<le> 4 \<and> k \<ge> 1"
| "pending Bad n \<longleftrightarrow> False"

lemma rune_start_short: "rune_start c = Some (lo, hi, k) \<Longrightarrow> k \<le> 2"
  by (auto simp: rune_start_def Let_def split: if_splits)

lemma pending_step: "pending m n \<Longrightarrow> utf8_step m c \<noteq> Bad \<Longrightarrow> utf8_step m c \<noteq> Between \<Longrightarrow> pending (utf8_step m c) (Suc n)"
  by (cases m) (auto split: if_splits option.splits dest: rune_start_short)

lemma pending_three: "pending m n \<Longrightarrow> n \<le> 3"
  by (cases m) auto

text \<open>Before a scan that is not bad there is a valid prefix, at most three bytes back.\<close>

lemma valid_near:
  "foldl utf8_step Between s \<noteq> Bad \<Longrightarrow> \<exists>u v. s = u @ v \<and> utf8_Valid u \<and> pending (foldl utf8_step Between s) (length v)"
proof (induction s rule: rev_induct)
  case (snoc x s)
  let ?m = "foldl utf8_step Between s"
  have "?m \<noteq> Bad" using snoc.prems by auto
  from snoc.IH [OF this] obtain u v where uv: "s = u @ v" "utf8_Valid u" "pending ?m (length v)" by blast
  show ?case
  proof (cases "utf8_step ?m x = Between")
    case True
    then show ?thesis by (intro exI [of _ "s @ [x]"] exI [of _ "[]"]) (simp add: utf8_Valid_def)
  next
    case False
    then have "pending (utf8_step ?m x) (Suc (length v))" using pending_step [OF uv(3)] snoc.prems by simp
    then show ?thesis using uv by (intro exI [of _ u] exI [of _ "v @ [x]"]) simp
  qed
qed simp

lemma valid_prefix_near:
  assumes "utf8_Valid s"
  shows "\<exists>u v. take n s = u @ v \<and> utf8_Valid u \<and> length v \<le> 3"
proof -
  have "foldl utf8_step Between (take n s) \<noteq> Bad"
  proof
    assume "foldl utf8_step Between (take n s) = Bad"
    then have "foldl utf8_step Between (take n s @ drop n s) = Bad" unfolding foldl_append by simp
    then show False using assms by (simp add: utf8_Valid_def)
  qed
  from valid_near [OF this] show ?thesis using pending_three by blast
qed

text \<open>The loop finds the longest valid prefix.\<close>

lemma cut_loop_prefix: "utf8_Valid (cut_loop s) \<and> (\<exists>v. s = cut_loop s @ v)"
proof (induction s rule: cut_loop.induct)
  case (1 s)
  show ?case
  proof (cases "s \<noteq> [] \<and> \<not> utf8_Valid s")
    case True
    then obtain v where "butlast s = cut_loop (butlast s) @ v" "utf8_Valid (cut_loop (butlast s))" using 1 by blast
    moreover have "cut_loop s = cut_loop (butlast s)" using True by (subst cut_loop.simps) simp
    moreover have "s = butlast s @ [last s]" using True by simp
    ultimately show ?thesis by (metis append.assoc)
  next
    case False
    then show ?thesis by (subst (1 2) cut_loop.simps) auto
  qed
qed

lemma cut_loop_longest: "utf8_Valid u \<Longrightarrow> s = u @ v \<Longrightarrow> length u \<le> length (cut_loop s)"
proof (induction s arbitrary: v rule: cut_loop.induct)
  case (1 s)
  show ?case
  proof (cases "s \<noteq> [] \<and> \<not> utf8_Valid s")
    case True
    then have "v \<noteq> []" using 1(2,3) by auto
    then have "butlast s = u @ butlast v" using 1(3) by (simp add: butlast_append)
    then have "length u \<le> length (cut_loop (butlast s))" using 1(1) [OF True 1(2)] by blast
    then show ?thesis using True by (subst cut_loop.simps) simp
  next
    case False
    then show ?thesis using 1(3) by (subst cut_loop.simps) auto
  qed
qed

section \<open>The copy of the answer\<close>

definition blw_ok :: "int \<Rightarrow> string \<Rightarrow> bodyLogWriter \<Rightarrow> bool" where
  "blw_ok L out w \<longleftrightarrow> limit w = L \<and> sent w = out \<and>
     body w = (if L = 0 then [] else if L < 0 then out else take (nat L) out) \<and>
     (if L = 0 then written w = 0
      else if L < 0 \<or> int (length out) < L then written w = int (length out)
      else L \<le> written w \<and> written w \<le> int (length out))"

lemma blw_Write_ok:
  assumes "blw_ok L out w"
  shows "blw_ok L (out @ b) (blw_Write b w)"
proof -
  consider "L = 0" | "L < 0" | "0 < L" "written w < L" | "0 < L" "L \<le> written w" by linarith
  then show ?thesis
  proof cases
    case 3
    then have "int (length out) < L" "written w = int (length out)" "body w = out" using assms by (auto simp: blw_ok_def split: if_splits)
    then show ?thesis using assms 3 by (auto simp: blw_ok_def blw_Write_def bufferBody_def Let_def nat_diff_distrib)
  next
    case 4
    then have "L \<le> int (length out)" using assms by (auto simp: blw_ok_def split: if_splits)
    then show ?thesis using assms 4 by (auto simp: blw_ok_def blw_Write_def bufferBody_def Let_def)
  qed (use assms in \<open>auto simp: blw_ok_def blw_Write_def bufferBody_def Let_def\<close>)
qed

lemma write_all_ok: "blw_ok L out w \<Longrightarrow> blw_ok L (out @ concat ws) (write_all ws w)"
proof (induction ws arbitrary: out w)
  case (Cons b ws)
  from Cons.IH [OF blw_Write_ok [OF Cons.prems]] show ?case by (simp add: write_all_def)
qed (simp add: write_all_def)

lemma new_blw_ok: "blw_ok L [] (new_blw L)"
  by (simp add: blw_ok_def new_blw_def)

lemma written_ok: "blw_ok L (concat ws) (write_all ws (new_blw L))"
  using write_all_ok [OF new_blw_ok, of L ws] by simp

section \<open>Properties\<close>

text \<open>
  The log does not change the answer and bounds its copy: however the handlers split their output into writes, the client gets every byte in order, and the copy is exactly the
  output up to the limit (all of it for a negative limit, nothing for 0).  The logged size is the true size as long as it is below the limit.
\<close>

theorem response_copy:
  "let L = maxResponseBodyLog (log_config opts); out = concat (h_writes h); r = RequestLogMiddleware dt opts req start en h;
       blw = write_all (h_writes h) (new_blw L)
   in snd r = out \<and> body blw = (if L = 0 then [] else if L < 0 then out else take (nat L) out) \<and>
      l_response_body_size (fst r) = written blw \<and>
      (L \<noteq> 0 \<and> (L < 0 \<or> int (length out) < L) \<longrightarrow> l_response_body_size (fst r) = int (length out))"
  using written_ok [of "maxResponseBodyLog (log_config opts)" "h_writes h"]
  by (auto simp: Let_def RequestLogMiddleware_def blw_ok_def)

lemma valid_marks: "utf8_Valid ''...(truncated, total: ''" "utf8_Valid '' bytes)''"
  by code_simp+

lemma nat_digits_ascii: "x \<in> set (nat_digits n) \<Longrightarrow> byte_in 0 0x7F x"
proof (induction n rule: nat_digits.induct)
  case (1 n)
  show ?case
  proof (cases "n < 10")
    case True
    then show ?thesis using 1(2) by (simp add: nat_digits.simps [of n] byte_in_def)
  next
    case False
    then show ?thesis using 1 by (auto simp: nat_digits.simps [of n] byte_in_def)
  qed
qed

lemma FormatInt_valid: "utf8_Valid (FormatInt (int n))"
  using nat_digits_ascii by (intro ascii_valid) (simp add: FormatInt_def)

text \<open>
  C27. A logged request body is readable text: a text body that fits is logged as it is; a longer one is cut at a rune boundary at most three bytes before the limit and followed by a note of its
  size, so that the logged text is valid UTF-8 again.
\<close>

theorem request_body_text:
  assumes "utf8_Valid bd" "bd \<noteq> []" "0 < maxSize" "\<not> isBinaryContentType ct"
  shows "utf8_Valid (formatBodyForLog bd ct maxSize False) \<and>
    (if int (length bd) \<le> maxSize then formatBodyForLog bd ct maxSize False = bd
     else \<exists>u v. formatBodyForLog bd ct maxSize False = u @ ''...(truncated, total: '' @ FormatInt (int (length bd)) @ '' bytes)'' \<and>
       take (nat maxSize) bd = u @ v \<and> utf8_Valid u \<and> length v \<le> 3)"
proof (cases "int (length bd) \<le> maxSize")
  case True
  then show ?thesis using assms by (simp add: formatBodyForLog_def)
next
  case False
  let ?t = "take (nat maxSize) bd"
  have f: "formatBodyForLog bd ct maxSize False = cut_loop ?t @ ''...(truncated, total: '' @ FormatInt (int (length bd)) @ '' bytes)''"
    using False assms by (simp add: formatBodyForLog_def)
  obtain v where v: "?t = cut_loop ?t @ v" "utf8_Valid (cut_loop ?t)" using cut_loop_prefix by blast
  obtain u w where u: "?t = u @ w" "utf8_Valid u" "length w \<le> 3" using valid_prefix_near [OF assms(1)] by blast
  have "length u \<le> length (cut_loop ?t)" by (rule cut_loop_longest [OF u(2,1)])
  moreover have "length u + length w = length (cut_loop ?t) + length v" using u(1) v(1) by (metis length_append)
  ultimately have "length v \<le> 3" using u(3) by linarith
  moreover have "utf8_Valid (formatBodyForLog bd ct maxSize False)"
    unfolding f utf8_append [OF v(2)] utf8_append [OF valid_marks(1)] utf8_append [OF FormatInt_valid] by (rule valid_marks(2))
  ultimately show ?thesis using False f v by auto
qed

text \<open>
  A long text answer is logged without a mark or as binary: the copy is already cut to the limit when it is formatted, so an answer in text that is longer than the limit is logged as its first bytes with no
  note that it was cut, and when the limit falls inside a rune, as binary data of the size of the limit.
\<close>

theorem long_response_unmarked:
  assumes "L = maxResponseBodyLog (log_config opts)" "0 < L" "\<not> logBinaryBody (log_config opts)" "out = concat (h_writes h)"
    "L < int (length out)" "\<not> isBinaryContentType (h_contentType h)"
  shows "l_response_body (fst (RequestLogMiddleware dt opts req start en h)) =
    (if utf8_Valid (take (nat L) out) then take (nat L) out else ''(non-utf8 binary, size: '' @ FormatInt L @ '' bytes)'')"
proof -
  have b: "body (write_all (h_writes h) (new_blw L)) = take (nat L) out" 
    using written_ok [of L "h_writes h"] assms(2,4) by (simp_all add: blw_ok_def)
  have ne: "take (nat L) out \<noteq> []" using assms(2,5) by auto
  have "int (length (take (nat L) out)) = L" using assms(2,5) by simp
  then show ?thesis
    using b ne assms(1,2,3,6) by (simp add: RequestLogMiddleware_def Let_def formatBodyForLog_def)
qed

section \<open>Witnesses\<close>

definition demo_log_req :: log_request where
  "demo_log_req = \<lparr>r_url = ''/a'', r_host = ''h'', r_client = ''::1'', r_proto = ''HTTP/1.1'', r_method = ''GET'', r_header = (\<lambda>_. []), r_all_headers = [],
     r_body = [], r_contentType = []\<rparr>"

text \<open>The two bytes of a small e with acute accent, with a limit that falls between them.\<close>

theorem long_response_unmarked_witness:
  "l_response_body (fst (RequestLogMiddleware (\<lambda>_. []) [WithMaxResponseBodyLog 2] demo_log_req 0 0
     \<lparr>h_writes = [[CHR ''a''], [CHR 0xC3, CHR 0xA9]], h_status = 200, h_contentType = ''text/plain'', h_request_id = []\<rparr>)) =
   ''(non-utf8 binary, size: 2 bytes)''"
proof -
  let ?h = "\<lparr>h_writes = [[CHR ''a''], [CHR 0xC3, CHR 0xA9]], h_status = 200, h_contentType = ''text/plain'', h_request_id = []\<rparr>"
  have c: "2 = maxResponseBodyLog (log_config [WithMaxResponseBodyLog 2])" "\<not> logBinaryBody (log_config [WithMaxResponseBodyLog 2])"
    by (simp_all add: log_config_def WithMaxResponseBodyLog_def)
  have t: "\<not> isBinaryContentType ''text/plain''" "\<not> utf8_Valid [CHR ''a'', CHR 0xC3]" "FormatInt 2 = ''2''" by code_simp+
  from long_response_unmarked [OF c(1) _ c(2), of "[CHR ''a'', CHR 0xC3, CHR 0xA9]" ?h "\<lambda>_. []" demo_log_req 0 0] t show ?thesis by simp
qed

theorem response_copy_witness:
  "snd (RequestLogMiddleware (\<lambda>_. []) [] demo_log_req 0 0 \<lparr>h_writes = [''ab'', ''c''], h_status = 200, h_contentType = [], h_request_id = []\<rparr>) = ''abc'' \<and>
   l_response_body_size (fst (RequestLogMiddleware (\<lambda>_. []) [] demo_log_req 0 0
     \<lparr>h_writes = [''ab'', ''c''], h_status = 200, h_contentType = [], h_request_id = []\<rparr>)) = 3"
proof -
  have c: "maxResponseBodyLog (log_config []) = 4096" by (simp add: log_config_def defaultMaxBodyLogSize_def)
  show ?thesis
    using response_copy [of "[]" "\<lparr>h_writes = [''ab'', ''c''], h_status = 200, h_contentType = [], h_request_id = []\<rparr>" "\<lambda>_. []" demo_log_req 0 0]
    by (simp add: Let_def c)
qed

theorem request_body_text_witness:
  "utf8_Valid (formatBodyForLog [CHR ''a'', CHR 0xC3, CHR 0xA9] ''text/plain'' 2 False)"
proof -
  have "utf8_Valid [CHR ''a'', CHR 0xC3, CHR 0xA9]" "\<not> isBinaryContentType ''text/plain''" by code_simp+
  then show ?thesis using request_body_text [of "[CHR ''a'', CHR 0xC3, CHR 0xA9]" 2 "''text/plain''"] by simp
qed

end
