(* ===== verification/Gin_Handlers.thy ===== *)
theory Gin_Handlers
  imports Cache Go_Errors Exporter
begin

text \<open>
  The other handlers of the HTTP server, \<^verbatim>\<open>provider/HTTPServer/gin\<close>: the controllers that turn functions into answers and cache them
  (\<^verbatim>\<open>handler/controller.go\<close>), CORS, request ids, the report of a panic, and the access to the body (\<^verbatim>\<open>utils/request.go\<close>).  Of gin the theory keeps what these read and write: the headers and bodies of
  the answer, whether the chain was aborted, and the values of the request context.
\<close>

section \<open>Answers\<close>

datatype 'd written = WJson int "'d Response" | WFile string | WOther string

record 'd gin_out =
  out :: "'d written list"
  out_headers :: "(string \<times> string) list"
  out_status :: int
  aborted :: bool

definition no_out :: "'d gin_out" where
  "no_out = \<lparr>out = [], out_headers = [], out_status = 200, aborted = False\<rparr>"

definition Written :: "'d gin_out \<Rightarrow> bool" where
  "Written g \<longleftrightarrow> out g \<noteq> []"

definition gin_JSON :: "int \<Rightarrow> 'd Response \<Rightarrow> 'd gin_out \<Rightarrow> 'd gin_out" where
  "gin_JSON code r g = g\<lparr>out := out g @ [WJson code r], out_status := code\<rparr>"

definition gin_AbortWithError :: "stack \<Rightarrow> string \<Rightarrow> 'd perr \<Rightarrow> 'd gin_out \<Rightarrow> 'd gin_out" where
  "gin_AbortWithError st env err g = (gin_JSON 200 (fst (AbortWithError st env err)) g)\<lparr>aborted := True\<rparr>"

section \<open>Controllers\<close>

text \<open>
  The wrapped function may write an answer of its own and returns a value or an error.  \<open>export\<close> is \<^verbatim>\<open>exporter.Export\<close> of the gin package, \<open>getHeader\<close> the headers of the request.
\<close>

definition C :: "stack \<Rightarrow> string \<Rightarrow> (string \<Rightarrow> string) \<Rightarrow> ('d \<Rightarrow> 'd gin_out \<Rightarrow> 'd perr option \<times> 'd gin_out) \<Rightarrow>
    ('w \<Rightarrow> 'd gin_out \<Rightarrow> ('d perr + 'd) \<times> 'd gin_out \<times> 'w) \<Rightarrow> 'w \<Rightarrow> 'd gin_out \<Rightarrow> 'd gin_out \<times> 'w" where
  "C st env getHeader export wrapper w g =
     (case wrapper w g of
        (Inl err, g1, w1) \<Rightarrow> (gin_AbortWithError st env err g1, w1)
      | (Inr resp, g1, w1) \<Rightarrow>
          if Written g1 then (g1, w1)
          else if IsDownloadFromContext getHeader then
            (case export resp g1 of
               (Some err, g2) \<Rightarrow> (gin_AbortWithError st env err g2, w1)
             | (None, g2) \<Rightarrow> (g2, w1))
          else (gin_JSON 200 (Success resp) g1, w1))"

text \<open>
  \<^verbatim>\<open>CD\<close>: the request is bound, looked up in the cache under its path and JSON, answered by the service and stored.  \<open>body\<close> and \<open>bind\<close> are the results of reading and binding the body, the
  list collects the errors reported by \<^verbatim>\<open>notify\<close>, and the service acts on a world \<open>'w\<close>.
\<close>

record ('q, 'd) cd_env =
  cd_stack :: stack
  cd_path :: string
  cd_body :: "goerr option"
  cd_bind :: "goerr + 'q"
  cd_json :: "'q \<Rightarrow> goerr + string"
  cd_text :: "string \<Rightarrow> 'd"

type_synonym ('q, 'd, 'w) service = "'q \<Rightarrow> 'w \<Rightarrow> ('d perr + 'd) \<times> 'w"

definition report :: "stack \<Rightarrow> goerr \<Rightarrow> string \<Rightarrow> 'd perr" where
  "report st e msg = the (Err st (Some (Opaque e)) [msg])"

text \<open>The look at the cache: the key if there is one, a value that was found, and the reports.\<close>

definition cd_lookup :: "('q, 'd) cd_env \<Rightarrow> ('s, 'd, 'u) Cache option \<Rightarrow> 'q \<Rightarrow> 's \<Rightarrow> (string \<times> 'd option \<times> 'd perr list) \<times> 's" where
  "cd_lookup E cache req s =
     (case cache of
        None \<Rightarrow> (([], None, []), s)
      | Some ca \<Rightarrow>
          (case cd_json E req of
             Inl e \<Rightarrow> (([], None, [report (cd_stack E) e ''request cache marshal error'']), s)
           | Inr js \<Rightarrow>
               let key = cd_path E @ '':'' @ js
               in case cGet ca key s of
                    ((v, None), s1) \<Rightarrow> ((key, Some v, []), s1)
                  | ((v, Some e), s1) \<Rightarrow>
                      ((key, None, if errors_Is e ErrNotFound then [] else [report (cd_stack E) e ''request cache get error'']), s1)))"

definition cd_store :: "('q, 'd) cd_env \<Rightarrow> ('s, 'd, 'u) Cache option \<Rightarrow> string \<Rightarrow> 'd \<Rightarrow> 's \<Rightarrow> 'd perr list \<times> 's" where
  "cd_store E cache key resp s =
     (case cache of
        None \<Rightarrow> ([], s)
      | Some ca \<Rightarrow>
          if key = [] then ([], s)
          else case cSet ca key resp [] s of
            (None, s1) \<Rightarrow> ([], s1)
          | (Some e, s1) \<Rightarrow> ([report (cd_stack E) e ''request set cache error''], s1))"

definition CD :: "('q, 'd) cd_env \<Rightarrow> ('s, 'd, 'u) Cache option \<Rightarrow> ('q, 'd, 'w) service \<Rightarrow> 's \<times> 'w \<Rightarrow>
    (('d perr + 'd) \<times> 'd perr list) \<times> 's \<times> 'w" where
  "CD E cache serve sw =
     (case cd_body E of
        Some e \<Rightarrow> ((Inl (the (Err (cd_stack E) (Some (Opaque e)) [])), []), sw)
      | None \<Rightarrow>
          (case cd_bind E of
             Inl e \<Rightarrow>
               (case SetData (cd_text E (Error e)) (NewHttpErr (cd_stack E) ParamErr [Some (Opaque e)]) of
                  (c, cause, d) \<Rightarrow> ((Inl (HttpE c cause d), []), sw))
           | Inr req \<Rightarrow>
               (case cd_lookup E cache req (fst sw) of
                  ((_, Some v, reps), s1) \<Rightarrow> ((Inr v, reps), (s1, snd sw))
                | ((key, None, reps), s1) \<Rightarrow>
                    (case serve req (snd sw) of
                       (Inl err, w1) \<Rightarrow> ((Inl err, reps), (s1, w1))
                     | (Inr resp, w1) \<Rightarrow>
                         (case cd_store E cache key resp s1 of (reps2, s2) \<Rightarrow> ((Inr resp, reps @ reps2), (s2, w1)))))))"

section \<open>Cross-origin requests\<close>

record cors_request =
  cr_method :: string
  cr_origin :: string
  cr_referer :: string

text \<open>\<open>url_parse\<close> gives scheme and host of a URL that can be parsed; \<open>next\<close> are the handlers behind.\<close>

definition cors_origin :: "(string \<Rightarrow> (string \<times> string) option) \<Rightarrow> cors_request \<Rightarrow> string" where
  "cors_origin url_parse r =
     (if cr_origin r = [] \<and> cr_referer r \<noteq> [] then
        (case url_parse (cr_referer r) of None \<Rightarrow> [] | Some (scheme, host) \<Rightarrow> scheme @ ''://'' @ host)
      else cr_origin r)"

definition cors_headers :: "string \<Rightarrow> (string \<times> string) list" where
  "cors_headers origin =
     (if origin \<noteq> [] then [(''Access-Control-Allow-Origin'', origin), (''Access-Control-Allow-Credentials'', ''true'')]
      else [(''Access-Control-Allow-Origin'', ''*'')]) @
     [(''Access-Control-Allow-Methods'', ''POST, GET, OPTIONS, PUT, DELETE, PATCH''), (''Access-Control-Allow-Headers'', ''*''),
      (''Access-Control-Expose-Headers'', ''*''), (''Access-Control-Max-Age'', ''86400'')]"

definition CorsMiddleware :: "(string \<Rightarrow> (string \<times> string) option) \<Rightarrow> cors_request \<Rightarrow> ('d gin_out \<Rightarrow> 'd gin_out) \<Rightarrow> 'd gin_out \<Rightarrow> 'd gin_out" where
  "CorsMiddleware url_parse r nxt g =
     (let g1 = g\<lparr>out_headers := out_headers g @ cors_headers (cors_origin url_parse r)\<rparr>
      in if cr_method r = ''OPTIONS'' then g1\<lparr>out_status := 204, aborted := True\<rparr> else nxt g1)"

section \<open>The request: body, parameters, context values\<close>

text \<open>
  The body can be read once; \<open>fallback\<close> says whether gin looks values up in the context of the request (\<^verbatim>\<open>ContextWithFallback\<close>).
  A body that fails to be read is \<^verbatim>\<open>Inl\<close>.
\<close>

record gin_req =
  gr_body :: "goerr + string"
  gr_values :: "string \<rightharpoonup> string"

definition RequestBodyKey :: string where "RequestBodyKey = ''request_body''"

definition GetRequestBody :: "bool \<Rightarrow> gin_req \<Rightarrow> (goerr + string) \<times> gin_req" where
  "GetRequestBody fallback r =
     (case (if fallback then gr_values r RequestBodyKey else None) of
        Some cached \<Rightarrow> (Inr cached, r)
      | None \<Rightarrow>
          (case gr_body r of
             Inl e \<Rightarrow> (Inl e, r\<lparr>gr_body := Inr []\<rparr>)
           | Inr b \<Rightarrow> (Inr b, r\<lparr>gr_body := Inr b, gr_values := (gr_values r)(RequestBodyKey \<mapsto> b)\<rparr>)))"

text \<open>\<open>json_text\<close>: the text under a name in a JSON object, \<^term>\<open>None\<close> if the text is no object or the value no string.\<close>

definition GetParam :: "bool \<Rightarrow> (string \<Rightarrow> string) \<Rightarrow> (string \<Rightarrow> string) \<Rightarrow> (string \<Rightarrow> string \<Rightarrow> string option) \<Rightarrow> string \<Rightarrow> gin_req \<Rightarrow> string \<times> gin_req" where
  "GetParam fallback param postForm json_text name r =
     (if param name \<noteq> [] then (param name, r)
      else if postForm name \<noteq> [] then (postForm name, r)
      else case GetRequestBody fallback r of
        (Inl e, r1) \<Rightarrow> ([], r1)
      | (Inr b, r1) \<Rightarrow> ((if b = [] then [] else case json_text b name of Some s \<Rightarrow> s | None \<Rightarrow> []), r1))"

definition FullRequestURL :: "bool \<Rightarrow> string \<Rightarrow> string \<Rightarrow> string" where
  "FullRequestURL tls host uri = (if tls then ''https'' else ''http'') @ ''://'' @ host @ uri"

definition RequestIDMiddleware :: "bool \<Rightarrow> string \<Rightarrow> string \<Rightarrow> string \<Rightarrow> string \<Rightarrow> (string \<Rightarrow> bool) \<Rightarrow> gin_req \<Rightarrow> 'd gin_out \<Rightarrow> gin_req \<times> 'd gin_out" where
  "RequestIDMiddleware fallback uuid serverName env uri json_valid r g =
     (let g1 = g\<lparr>out_headers := out_headers g @ [(''request_id'', uuid)]\<rparr>;
          r1 = r\<lparr>gr_values := (gr_values r)(''request_id'' \<mapsto> uuid, ''server-name'' \<mapsto> serverName, ''env'' \<mapsto> env, ''request_uri'' \<mapsto> uri)\<rparr>
      in case GetRequestBody fallback r1 of
           (Inr b, r2) \<Rightarrow> (if json_valid b then r2\<lparr>gr_values := (gr_values r2)(''request_body_json'' \<mapsto> b)\<rparr> else r2, g1)
         | (Inl e, r2) \<Rightarrow> (r2, g1))"

section \<open>The report of a panic\<close>

definition dunno :: string where "dunno = ''???''"

definition centerDot :: string where "centerDot = [CHR 0xC2, CHR 0xB7]"

definition recovery_source :: "string list \<Rightarrow> int \<Rightarrow> string" where
  "recovery_source lines n = (if n - 1 < 0 \<or> int (length lines) \<le> n - 1 then dunno else TrimSpace (lines ! nat (n - 1)))"

fun replace_dots :: "string \<Rightarrow> string" where
  "replace_dots [] = []"
| "replace_dots [x] = [x]"
| "replace_dots (x # y # ys) = (if [x, y] = centerDot then CHR ''.'' # replace_dots ys else x # replace_dots (y # ys))"

definition recovery_function :: "string option \<Rightarrow> string" where
  "recovery_function fn =
     (case fn of
        None \<Rightarrow> dunno
      | Some name \<Rightarrow>
          let name = rev (takeWhile (\<lambda>c. c \<noteq> CHR ''/'') (rev name));
              name = (if CHR ''.'' \<in> set name then tl (dropWhile (\<lambda>c. c \<noteq> CHR ''.'') name) else name)
          in replace_dots name)"

text \<open>A frame: program counter as hexadecimal text, file, line and the name of its function.\<close>

record recovery_frame =
  rf_pc :: string
  rf_file :: string
  rf_line :: int
  rf_func :: "string option"

fun recovery_stack :: "(string \<Rightarrow> string option) \<Rightarrow> string \<Rightarrow> string list \<Rightarrow> recovery_frame list \<Rightarrow> string" where
  "recovery_stack readFile lastFile lines [] = []"
| "recovery_stack readFile lastFile lines (f # fs) =
     rf_file f @ '':'' @ FormatInt (rf_line f) @ '' (0x'' @ rf_pc f @ '')'' @ [CHR 0x0A] @
     (if rf_file f = lastFile then
        [CHR 0x09] @ recovery_function (rf_func f) @ '': '' @ recovery_source lines (rf_line f) @ [CHR 0x0A] @ recovery_stack readFile lastFile lines fs
      else case readFile (rf_file f) of
        None \<Rightarrow> recovery_stack readFile lastFile lines fs
      | Some data \<Rightarrow>
          [CHR 0x09] @ recovery_function (rf_func f) @ '': '' @ recovery_source (SplitC data (CHR 0x0A)) (rf_line f) @ [CHR 0x0A] @
          recovery_stack readFile (rf_file f) (SplitC data (CHR 0x0A)) fs)"

text \<open>The same text goes to the log and to the notification; the first three frames are those of the recovery itself.\<close>

definition RecoveryHandler :: "(string \<Rightarrow> string option) \<Rightarrow> string \<Rightarrow> recovery_frame list \<Rightarrow> 'd gin_out \<Rightarrow> string \<times> 'd gin_out" where
  "RecoveryHandler readFile err frames g =
     (''Panic recovered: '' @ err @ [CHR 0x0A] @ recovery_stack readFile [] [] (drop 3 frames), g\<lparr>out_status := 500, aborted := True\<rparr>)"

section \<open>Sessions\<close>

text \<open>\<^verbatim>\<open>Sess\<close> keeps JSON texts in a session store; other values under a key are \<^verbatim>\<open>Inl\<close>.\<close>

definition session_Nil :: goerr where "session_Nil = ErrNew ''session is nil''"

definition SetStr :: "stack \<Rightarrow> ('v \<Rightarrow> goerr + string) \<Rightarrow> goerr option \<Rightarrow> string \<Rightarrow> 'v \<Rightarrow> (string \<rightharpoonup> 'o + string) \<Rightarrow> 'd perr option \<times> (string \<rightharpoonup> 'o + string)" where
  "SetStr st marshal saved key val s =
     (case marshal val of
        Inl e \<Rightarrow> (Err st (Some (Opaque e)) [], s)
      | Inr d \<Rightarrow> (case saved of Some e \<Rightarrow> (Err st (Some (Opaque e)) [], s(key \<mapsto> Inr d)) | None \<Rightarrow> (None, s(key \<mapsto> Inr d))))"

definition GetStr :: "stack \<Rightarrow> (string \<Rightarrow> goerr + 'v) \<Rightarrow> string \<Rightarrow> (string \<rightharpoonup> 'o + string) \<Rightarrow> 'd perr + 'v" where
  "GetStr st unmarshal key s =
     (case s key of
        None \<Rightarrow> Inl (Opaque session_Nil)
      | Some (Inl _) \<Rightarrow> Inl (the (Err st (Some (Opaque (ErrNew ''data is not string''))) []))
      | Some (Inr d) \<Rightarrow> (case unmarshal d of Inl e \<Rightarrow> Inl (the (Err st (Some (Opaque e)) [])) | Inr v \<Rightarrow> Inr v))"

section \<open>Cached answers\<close>

text \<open>Requests that come one after the other to a controller.\<close>

fun cd_run :: "('q, 'd) cd_env list \<Rightarrow> ('s, 'd, 'u) Cache option \<Rightarrow> ('q, 'd, 'w) service \<Rightarrow> 's \<times> 'w \<Rightarrow> ('d perr + 'd) list \<times> 's \<times> 'w" where
  "cd_run [] cache serve sw = ([], sw)"
| "cd_run (E # Es) cache serve sw =
     (case CD E cache serve sw of
        ((a, _), sw1) \<Rightarrow> (case cd_run Es cache serve sw1 of (as, sw2) \<Rightarrow> (a # as, sw2)))"

definition cd_key :: "('q, 'd) cd_env \<Rightarrow> string option" where
  "cd_key E =
     (case cd_bind E of
        Inl _ \<Rightarrow> None
      | Inr req \<Rightarrow> (case cd_json E req of Inl _ \<Rightarrow> None | Inr js \<Rightarrow> Some (cd_path E @ '':'' @ js)))"

text \<open>The answers that the service gives, in some state of its world, to the request itself.\<close>

definition served :: "('q, 'd, 'w) service \<Rightarrow> ('q, 'd) cd_env \<Rightarrow> 'd set" where
  "served serve E = {v. \<exists>req w w'. cd_bind E = Inr req \<and> serve req w = (Inr v, w')}"

definition own_answers :: "('q, 'd, 'w) service \<Rightarrow> ('q, 'd) cd_env set \<Rightarrow> string \<Rightarrow> 'd set" where
  "own_answers serve Es k = {v. \<exists>E \<in> Es. cd_key E = Some k \<and> v \<in> served serve E}"

definition answer_ok :: "('q, 'd, 'w) service \<Rightarrow> ('q, 'd) cd_env set \<Rightarrow> ('q, 'd) cd_env \<Rightarrow> 'd \<Rightarrow> bool" where
  "answer_ok serve Es E v \<longleftrightarrow> v \<in> served serve E \<or> (\<exists>E' \<in> Es. cd_key E \<noteq> None \<and> cd_key E' = cd_key E \<and> v \<in> served serve E')"

context cache_contract
begin

lemma CD_step:
  assumes ok: "ok x" and E: "E \<in> Es" and H: "holds x s \<le> own_answers serve Es"
    and cd: "CD E (Some (C x)) serve (s, w) = ((a, reps), (s', w'))"
  shows "holds x s' \<le> own_answers serve Es \<and> (\<forall>v. a = Inr v \<longrightarrow> answer_ok serve Es E v)"
proof (cases "cd_body E = None \<and> (\<exists>req. cd_bind E = Inr req)")
  case False
  then show ?thesis using cd H by (auto simp: CD_def split: option.splits sum.splits prod.splits)
next
  case True
  then obtain req where b: "cd_body E = None" "cd_bind E = Inr req" by blast
  obtain key hit reps1 s1 where l: "cd_lookup E (Some (C x)) req s = ((key, hit, reps1), s1)" by (metis surj_pair)
  have key: "key = [] \<or> cd_key E = Some key" and H1: "holds x s1 \<le> holds x s" and hit: "\<And>v. hit = Some v \<Longrightarrow> cd_key E = Some key \<and> v \<in> holds x s key"
    using l b(2) get [OF ok] by (auto simp: cd_lookup_def cd_key_def Let_def split: sum.splits option.splits prod.splits)
  show ?thesis
  proof (cases hit)
    case (Some v)
    then have av: "a = Inr v" "s' = s1" using cd b l by (auto simp: CD_def)
    from hit [OF Some] have k: "cd_key E = Some key" "v \<in> holds x s key" by blast+
    then have "v \<in> own_answers serve Es key" using H by (auto simp: le_fun_def)
    then have "answer_ok serve Es E v" using k(1) by (auto simp: own_answers_def answer_ok_def)
    then show ?thesis using av H1 H by (auto intro: order_trans)
  next
    case None
    obtain r w1 where sv: "serve req w = (r, w1)" by force
    show ?thesis
    proof (cases r)
      case (Inl err)
      then show ?thesis using cd b l None sv H1 H by (auto simp: CD_def intro: order_trans)
    next
      case (Inr v)
      obtain reps2 s2 where st: "cd_store E (Some (C x)) key v s1 = (reps2, s2)" by force
      have own: "v \<in> served serve E" using b(2) sv Inr by (auto simp: served_def)
      have as: "a = Inr v" "s' = s2" using cd b l None sv Inr st by (auto simp: CD_def)
      have "holds x s2 \<le> own_answers serve Es"
      proof (cases "key = []")
        case True
        then show ?thesis using st H1 H by (auto simp: cd_store_def intro: order_trans)
      next
        case False
        then obtain e where cs: "cSet (C x) key v [] s1 = (e, s2)" using st by (auto simp: cd_store_def split: prod.splits option.splits)
        have "v \<in> own_answers serve Es key" using False key E own by (auto simp: own_answers_def)
        then have "written key v e (holds x s1) \<le> own_answers serve Es"
          using order_trans [OF H1 H] by (auto simp: written_def le_fun_def)
        then show ?thesis using set [OF ok cs] by (rule order_trans [rotated])
      qed
      then show ?thesis using as own by (auto simp: answer_ok_def)
    qed
  qed
qed

lemma cd_run_answers:
  assumes "ok x" "set Es' \<subseteq> Es" "holds x s \<le> own_answers serve Es" "cd_run Es' (Some (C x)) serve (s, w) = (as, sw')"
  shows "length as = length Es' \<and> (\<forall>i < length Es'. \<forall>v. as ! i = Inr v \<longrightarrow> answer_ok serve Es (Es' ! i) v)"
  using assms(2-)
proof (induction Es' arbitrary: s w as sw')
  case (Cons E Es')
  obtain a reps s1 w1 where cd: "CD E (Some (C x)) serve (s, w) = ((a, reps), (s1, w1))" by (metis surj_pair)
  obtain as1 sw1 where rn: "cd_run Es' (Some (C x)) serve (s1, w1) = (as1, sw1)" by (metis surj_pair)
  have as: "as = a # as1" using Cons.prems(3) cd rn by simp
  have step: "holds x s1 \<le> own_answers serve Es" "\<forall>v. a = Inr v \<longrightarrow> answer_ok serve Es E v"
    using CD_step [OF assms(1) _ Cons.prems(2) cd] Cons.prems(1) by simp_all
  from Cons.IH [OF _ step(1) rn] Cons.prems(1) step(2) show ?case by (auto simp: as nth_Cons split: nat.splits)
qed simp

end

section \<open>Properties\<close>


text \<open>
  An error after an answer is written behind it: when the wrapped function has written an answer of its own and returns an error, \<^verbatim>\<open>C\<close> does not look at what was written and appends the error answer, so
  the client gets two bodies; for a function that returns no error the written answer stays alone.
\<close>

theorem error_after_answer:
  assumes "wrapper w g = (r, g1, w1)" "Written g1"
  shows "case r of
      Inl err \<Rightarrow> (\<exists>x. out (fst (C st env getHeader export wrapper w g)) = out g1 @ [x]) \<and> length (out (fst (C st env getHeader export wrapper w g))) \<ge> 2
    | Inr resp \<Rightarrow> out (fst (C st env getHeader export wrapper w g)) = out g1"
  using assms by (auto simp: C_def gin_AbortWithError_def gin_JSON_def Written_def Suc_le_eq split: sum.splits)

text \<open>
  Credentials are allowed for one origin only: the answer allows credentials exactly when it names the origin of the request (or of its referer), never together with the wildcard unless the request itself calls its origin a star; and a preflight request never reaches
  the handlers behind.
\<close>

theorem cors_credentials:
  "((''Access-Control-Allow-Credentials'', ''true'') \<in> set (cors_headers o1) \<longleftrightarrow> o1 \<noteq> []) \<and>
   ((''Access-Control-Allow-Origin'', a) \<in> set (cors_headers o1) \<longleftrightarrow> a = (if o1 = [] then ''*'' else o1)) \<and>
   CorsMiddleware url_parse (r\<lparr>cr_method := ''OPTIONS''\<rparr>) nxt g = CorsMiddleware url_parse (r\<lparr>cr_method := ''OPTIONS''\<rparr>) nxt' g"
  by (auto simp: cors_headers_def CorsMiddleware_def Let_def)

text \<open>
  The body can be read again: reading it a second time gives the same bytes, whether or not gin finds the cached copy, and \<^verbatim>\<open>RequestIDMiddleware\<close> leaves it readable for the handlers behind.
\<close>

theorem body_read_again:
  assumes "GetRequestBody fallback r = (Inr b, r1)"
  shows "fst (GetRequestBody fallback r1) = Inr b \<and> (gr_body r = Inr b \<longrightarrow> gr_body r1 = Inr b) \<and>
    fst (GetRequestBody fallback (fst (RequestIDMiddleware fallback u n e uri jv r g))) = Inr b"
  using assms by (auto simp: GetRequestBody_def RequestIDMiddleware_def RequestBodyKey_def Let_def split: option.splits sum.splits if_splits)

text \<open>
  A session value reads back: what \<^verbatim>\<open>SetStr\<close> stored without an error is what \<^verbatim>\<open>GetStr\<close> returns under the same key, and other keys keep their values.
\<close>

theorem session_roundtrip:
  assumes "SetStr st marshal saved key val s = (None, s1)" "\<And>d. marshal val = Inr d \<Longrightarrow> unmarshal d = Inr val"
  shows "GetStr st unmarshal key s1 = Inr val \<and> (k \<noteq> key \<longrightarrow> s1 k = s k)"
  using assms by (auto simp: SetStr_def GetStr_def Err_def Let_def split: sum.splits option.splits if_splits)

section \<open>Witnesses\<close>

definition demo_cd :: "(string, string) cd_env" where
  "demo_cd = \<lparr>cd_stack = [], cd_path = ''/a'', cd_body = None, cd_bind = Inr ''q'', cd_json = Inr, cd_text = id\<rparr>"

definition demo_serve :: "(string, string, nat) service" where
  "demo_serve q n = (Inr (q @ nat_digits n), Suc n)"


theorem error_after_answer_witness:
  "length (out (fst (C [] ''test'' (\<lambda>_. []) (\<lambda>_ g. (None, g)) (\<lambda>w g. (Inl (Opaque (ErrNew ''late'')), g\<lparr>out := [WOther ''x'']\<rparr>, w)) () (no_out :: unit gin_out)))) \<ge> 2"
  using error_after_answer [of "\<lambda>w g. (Inl (Opaque (ErrNew ''late'')), g\<lparr>out := [WOther ''x'']\<rparr>, w)" "()" "no_out :: unit gin_out", OF refl]
  by (simp add: Written_def)

theorem body_read_again_witness:
  "fst (GetRequestBody False (snd (GetRequestBody False \<lparr>gr_body = Inr ''b'', gr_values = Map.empty\<rparr>))) = Inr ''b''"
proof -
  have g: "GetRequestBody False \<lparr>gr_body = Inr ''b'', gr_values = Map.empty\<rparr> = (Inr ''b'', snd (GetRequestBody False \<lparr>gr_body = Inr ''b'', gr_values = Map.empty\<rparr>))"
    by (simp add: GetRequestBody_def)
  from body_read_again [OF g, of "[]" "[]" "[]" "[]" "\<lambda>_. False" "no_out :: unit gin_out"] show ?thesis by simp
qed

theorem session_roundtrip_witness:
  "(GetStr [] (\<lambda>d. Inr d) ''k'' [''k'' \<mapsto> Inr ''v''] :: unit perr + string) = Inr ''v''"
proof -
  have "(SetStr [] Inr None ''k'' ''v'' (Map.empty :: string \<rightharpoonup> unit + string) :: unit perr option \<times> _) = (None, [''k'' \<mapsto> Inr ''v''])" by (simp add: SetStr_def)
  from session_roundtrip [OF this, of Inr] show ?thesis by (auto simp: GetStr_def)
qed

end
