(* ===== verification/Gorm_Exec.thy ===== *)
theory Gorm_Exec
  imports Gorm_Query Ordered_Map
begin

text \<open>
  Execution and transactions of \<^verbatim>\<open>dao/gormDB\<close>: \<^verbatim>\<open>func.go\<close> (insert, update, upsert, query-and-save), \<^verbatim>\<open>tx.go\<close> (transactions in the context), the set-up of \<^verbatim>\<open>driver.go\<close> and the SQL log of
  \<^verbatim>\<open>log.go\<close>.  GORM is a parameter: its statements act on a database \<open>'b\<close> and answer with an error and a number of rows; what is relied on of \<^verbatim>\<open>Transaction\<close> is named \<open>tx_atomic\<close>.
\<close>

section \<open>Errors and operations\<close>

datatype Operation = OperationNothing | OperationInsert | OperationUpdate

fun Operation_String :: "Operation \<Rightarrow> string" where
  "Operation_String OperationInsert = ''insert''"
| "Operation_String OperationUpdate = ''update''"
| "Operation_String OperationNothing = ''nothing''"

definition CreateField :: string where "CreateField = ''created_at''"
definition ModifyField :: string where "ModifyField = ''updated_at''"

definition RowsAffectedZero :: goerr where "RowsAffectedZero = ErrNew ''RowsAffectedZero''"
definition ErrRowsAffectedMismatch :: goerr where "ErrRowsAffectedMismatch = ErrNew ''RowsAffectedMismatch''"
definition ErrRecordNotFound :: goerr where "ErrRecordNotFound = ErrNew ''record not found''"

definition DbErr :: "goerr option \<Rightarrow> goerr option" where
  "DbErr err =
     (case err of None \<Rightarrow> None | Some e \<Rightarrow> if errors_Is e ErrRecordNotFound \<or> errors_Is e RowsAffectedZero then None else err)"

definition DbCheckErr :: "goerr option \<Rightarrow> bool \<times> goerr option" where
  "DbCheckErr err = (case err of None \<Rightarrow> (True, None) | Some e \<Rightarrow> if errors_Is e ErrRecordNotFound then (False, None) else (False, err))"

text \<open>What a statement leaves in its \<^verbatim>\<open>*gorm.DB\<close>: \<^verbatim>\<open>Error\<close> and \<^verbatim>\<open>RowsAffected\<close>.\<close>

type_synonym gresult = "goerr option \<times> int"

definition DbAffectedErr :: "gresult \<Rightarrow> goerr option" where
  "DbAffectedErr db = (case db of (Some e, _) \<Rightarrow> Some e | (None, rows) \<Rightarrow> if rows = 0 then Some RowsAffectedZero else None)"

section \<open>Statements\<close>

record OnConflict =
  Columns :: "string list"
  DoUpdates :: "string list"
  DoNothing :: bool
  UpdateAll :: bool

text \<open>The value of a \<^verbatim>\<open>Select\<close>: none, every field, or the given ones.\<close>

datatype select = SelDefault | SelAll | SelFields "string list"

text \<open>
  The statements the package runs, over records \<open>'v\<close> and conditions of the model's query language.  \<open>g_scan\<close> writes what it found into the record; \<open>g_take\<close> into a fresh one.
  \<open>g_tx\<close> is \<^verbatim>\<open>Transaction\<close>: whether it is nested, and the closure, which acts on the variable \<open>Operation\<close> it captures, the record and the database.
\<close>

type_synonym ('v, 'b) txfun = "Operation \<times> 'v \<times> 'b \<Rightarrow> goerr option \<times> Operation \<times> 'v \<times> 'b"

record ('v, 'c, 'b) gorm_lib =
  g_create :: "OnConflict option \<Rightarrow> 'v \<Rightarrow> 'b \<Rightarrow> gresult \<times> 'v \<times> 'b"
  g_updates :: "'c list \<Rightarrow> select \<Rightarrow> string list \<Rightarrow> 'v \<Rightarrow> 'b \<Rightarrow> gresult \<times> 'b"
  g_delete :: "'c list \<Rightarrow> 'v \<Rightarrow> 'b \<Rightarrow> gresult \<times> 'b"
  g_scan :: "'c list \<Rightarrow> 'v \<Rightarrow> 'b \<Rightarrow> gresult \<times> 'v"
  g_take :: "'c list \<Rightarrow> 'b \<Rightarrow> goerr option"
  g_tx :: "bool \<Rightarrow> ('v, 'b) txfun \<Rightarrow> ('v, 'b) txfun"

text \<open>
  The documented contract of \<^verbatim>\<open>Transaction\<close>, outer or nested: it either leaves the database as it was and returns an error, the one of the closure if that ran into one, or it
  returns nil and the database is as the closure left it.  Variables outside the database are not rolled back.
\<close>

definition tx_atomic :: "('v, 'c, 'b) gorm_lib \<Rightarrow> bool" where
  "tx_atomic L \<longleftrightarrow> (\<forall>n f o1 v b r o2 v2 b2. g_tx L n f (o1, v, b) = (r, o2, v2, b2) \<longrightarrow>
     (\<exists>e. r = Some e \<and> b2 = b \<and> ((o2, v2) = (o1, v) \<or> (\<exists>fe b1. f (o1, v, b) = (fe, o2, v2, b1) \<and> (fe = None \<or> fe = r)))) \<or>
     (r = None \<and> f (o1, v, b) = (None, o2, v2, b2)))"

section \<open>Transactions in the context\<close>

text \<open>
  The values of a context that the package uses: the transactions by database id, and the transaction id for the log.  A context that is nil counts as the background.
\<close>

record tx_ctx =
  ctx_tx :: "string \<Rightarrow> bool"
  ctx_txID :: string

record GormDrive =
  drive_ID :: string
  drive_db :: bool
  drive_logs :: bool

definition background_ctx :: tx_ctx where
  "background_ctx = \<lparr>ctx_tx = (\<lambda>_. False), ctx_txID = []\<rparr>"

definition getTxFromCtx :: "GormDrive \<Rightarrow> tx_ctx option \<Rightarrow> bool" where
  "getTxFromCtx g c = (case c of None \<Rightarrow> False | Some x \<Rightarrow> ctx_tx x (drive_ID g))"

text \<open>What is written to the log: begin, commit and rollback with the transaction id, nested or not.\<close>

datatype tx_event = TxBegin bool string | TxCommit bool string | TxRollback bool string goerr

definition newTxCtx :: "string \<Rightarrow> GormDrive \<Rightarrow> tx_ctx \<Rightarrow> tx_ctx" where
  "newTxCtx fresh g x = \<lparr>ctx_tx = (ctx_tx x)(drive_ID g := True), ctx_txID = (if ctx_txID x = [] then fresh else ctx_txID x)\<rparr>"

definition CtxTransaction :: "('v, 'c, 'b) gorm_lib \<Rightarrow> string \<Rightarrow> GormDrive \<Rightarrow> tx_ctx option \<Rightarrow> (tx_ctx \<Rightarrow> ('v, 'b) txfun) \<Rightarrow>
    Operation \<times> 'v \<times> 'b \<Rightarrow> (goerr option \<times> Operation \<times> 'v \<times> 'b) \<times> tx_event list" where
  "CtxTransaction L fresh g c fn st =
     (if \<not> drive_db g then ((Some (ErrNew ''database is nil''), st), [])
      else let x = (case c of None \<Rightarrow> background_ctx | Some x \<Rightarrow> x);
               nested = getTxFromCtx g (Some x);
               newCtx = newTxCtx fresh g x;
               res = g_tx L nested (fn newCtx) st;
               log = (if drive_logs g then
                        [TxBegin nested (ctx_txID newCtx),
                         case fst res of Some e \<Rightarrow> TxRollback nested (ctx_txID newCtx) e | None \<Rightarrow> TxCommit nested (ctx_txID newCtx)]
                      else [])
           in (res, log))"

section \<open>Writing\<close>

text \<open>How many rows a value is: none for nil, the length of a slice, one otherwise.\<close>

datatype 'v gdata = GNil | GOne 'v | GMany "'v list" | GPtr "'v gdata"

fun countRows :: "'v gdata \<Rightarrow> nat" where
  "countRows GNil = 0"
| "countRows (GPtr d) = countRows d"
| "countRows (GMany vs) = length vs"
| "countRows (GOne v) = 1"

definition Insert :: "('v gdata, 'c, 'b) gorm_lib \<Rightarrow> 'v gdata \<Rightarrow> 'b \<Rightarrow> goerr option \<times> 'b" where
  "Insert L data b =
     (let expected = int (countRows data)
      in if expected = 0 then (Some RowsAffectedZero, b)
         else case g_create L None data b of
           ((Some e, _), _, b1) \<Rightarrow> (Some e, b1)
         | ((None, rows), _, b1) \<Rightarrow>
             if rows \<noteq> expected then
               (Some (ErrWrapf ('': expected='' @ FormatInt expected @ '' got='' @ FormatInt rows) ErrRowsAffectedMismatch), b1)
             else (None, b1))"

definition applySelectFields :: "string list \<Rightarrow> select" where
  "applySelectFields fs = (if fs = [] then SelDefault else if fs = [''*''] then SelAll else SelFields fs)"

definition Update :: "('v, 'c, 'b) gorm_lib \<Rightarrow> 'v \<Rightarrow> string list \<Rightarrow> 'c list \<Rightarrow> 'b \<Rightarrow> goerr option \<times> 'b" where
  "Update L data fs scopes b =
     (case g_updates L scopes (applySelectFields fs) [] data b of (r, b1) \<Rightarrow> (DbAffectedErr r, b1))"

definition Delete :: "('v, 'c, 'b) gorm_lib \<Rightarrow> 'v \<Rightarrow> 'c list \<Rightarrow> 'b \<Rightarrow> goerr option \<times> 'b" where
  "Delete L data scopes b = (case g_delete L scopes data b of (r, b1) \<Rightarrow> (DbAffectedErr r, b1))"

definition conflict_clause :: "string list \<Rightarrow> string list \<Rightarrow> OnConflict" where
  "conflict_clause fs conflictKeys =
     (let updateAll = (fs = [''*''])
      in \<lparr>Columns = conflictKeys, DoUpdates = (if updateAll then [] else fs), DoNothing = (fs = []), UpdateAll = updateAll\<rparr>)"

definition saveRaw :: "('v, 'c, 'b) gorm_lib \<Rightarrow> 'v \<Rightarrow> string list \<Rightarrow> string list \<Rightarrow> 'b \<Rightarrow> gresult \<times> 'v \<times> 'b" where
  "saveRaw L data fs conflictKeys b = g_create L (Some (conflict_clause fs conflictKeys)) data b"

definition Save :: "('v, 'c, 'b) gorm_lib \<Rightarrow> 'v \<Rightarrow> string list \<Rightarrow> string list \<Rightarrow> 'b \<Rightarrow> goerr option \<times> 'b" where
  "Save L data fs conflictKeys b = (case saveRaw L data fs conflictKeys b of (r, _, b1) \<Rightarrow> (DbAffectedErr r, b1))"

text \<open>
  \<^verbatim>\<open>QueryAndSave\<close>: \<^term>\<open>None\<close> for \<open>flds\<close> is nil.  \<open>cond\<close> is the condition, \<open>keys\<close> its columns in the order in which the map is walked.
\<close>

definition qs_insert :: "('v, 'c, 'b) gorm_lib \<Rightarrow> string list \<Rightarrow> string list \<Rightarrow> ('v, 'b) txfun" where
  "qs_insert L fs keys st =
     (case st of (op, data, b) \<Rightarrow>
        (case saveRaw L data fs keys b of
           ((Some e, _), data1, b1) \<Rightarrow> (Some e, op, data1, b1)
         | ((None, rows), data1, b1) \<Rightarrow> (None, if rows > 0 then OperationInsert else op, data1, b1)))"

definition qs_update :: "('v, 'c, 'b) gorm_lib \<Rightarrow> 'c list \<Rightarrow> string list \<Rightarrow> ('v, 'b) txfun" where
  "qs_update L cond fs st =
     (case st of (op, data, b) \<Rightarrow>
        (case g_updates L cond (applySelectFields fs) [CreateField] data b of
           ((Some e, _), b1) \<Rightarrow> (Some e, op, data, b1)
         | ((None, rows), b1) \<Rightarrow> (None, if rows > 0 then OperationUpdate else OperationNothing, data, b1)))"

definition qs_body :: "('v, 'c, 'b) gorm_lib \<Rightarrow> string list option \<Rightarrow> 'c list \<Rightarrow> string list \<Rightarrow> ('v, 'b) txfun" where
  "qs_body L flds cond keys st =
     (case st of (op, data, b) \<Rightarrow>
        (case flds of
           None \<Rightarrow>
             (case g_scan L cond data b of
                ((Some e, _), data1) \<Rightarrow> (Some e, op, data1, b)
              | ((None, rows), data1) \<Rightarrow>
                  if rows = 0 then qs_insert L [] keys (op, data1, b) else (None, OperationNothing, data1, b))
         | Some fs \<Rightarrow>
             (case g_take L cond b of
                Some e \<Rightarrow> if errors_Is e ErrRecordNotFound then qs_insert L fs keys st else (Some e, op, data, b)
              | None \<Rightarrow> qs_update L cond fs st)))"

definition QueryAndSave :: "('v, 'c, 'b) gorm_lib \<Rightarrow> string \<Rightarrow> GormDrive \<Rightarrow> tx_ctx option \<Rightarrow> 'v \<Rightarrow> string list option \<Rightarrow> 'c list \<Rightarrow> string list \<Rightarrow> 'b \<Rightarrow>
    (Operation \<times> goerr option) \<times> 'v \<times> 'b" where
  "QueryAndSave L fresh g c data flds cond keys b =
     (case CtxTransaction L fresh g c (\<lambda>_. qs_body L flds cond keys) (OperationNothing, data, b) of
        ((err, op, data1, b1), _) \<Rightarrow> ((op, err), data1, b1))"

section \<open>Reading\<close>

text \<open>\<open>applyScopes\<close> runs the scopes in order; nil ones are skipped.  \<open>take\<close> and \<open>find\<close> are the finishing calls on a chain of builder calls.\<close>

fun applyScopes :: "('f, 'j) db \<Rightarrow> ('f, 'j) Scope option list \<Rightarrow> ('f, 'j) db option" where
  "applyScopes d [] = Some d"
| "applyScopes d (None # ss) = applyScopes d ss"
| "applyScopes d (Some sc # ss) = (case sc d of None \<Rightarrow> None | Some d1 \<Rightarrow> applyScopes d1 ss)"

definition Get :: "(('f, 'j) db \<Rightarrow> 'v \<times> goerr option) \<Rightarrow> ('f, 'j) Scope option list \<Rightarrow> ('v \<times> goerr option) option" where
  "Get tk scopes = map_option tk (applyScopes [] scopes)"

definition OptionalGet :: "(('f, 'j) db \<Rightarrow> 'v \<times> goerr option) \<Rightarrow> ('f, 'j) Scope option list \<Rightarrow> ('v \<times> goerr option) option" where
  "OptionalGet tk scopes = map_option (\<lambda>(res, err). (res, DbErr err)) (Get tk scopes)"

definition List_query :: "(('f, 'j) db \<Rightarrow> 'v list \<times> goerr option) \<Rightarrow> ('f, 'j) Scope option list \<Rightarrow> ('v list \<times> goerr option) option" where
  "List_query fd scopes = map_option fd (applyScopes [] scopes)"

definition PageList :: "(('f, 'j) db \<Rightarrow> 'v list \<times> goerr option) \<Rightarrow> ('f, 'j) Scope \<Rightarrow> ('f, 'j) Scope option list \<Rightarrow> ('v list \<times> goerr option) option" where
  "PageList fd paginate scopes = List_query fd (scopes @ [Some paginate])"

section \<open>Set-up\<close>

record GormConfig =
  Driver :: string
  Dsn :: "string list"
  ConnMaxLife :: int
  ConnMaxIdle :: int
  MaxOpens :: int
  MaxIdles :: int
  LogDir :: string
  LogLevel :: string
  SlowThreshold :: int
  LogSaveDay :: int

definition handleConfig :: "GormConfig \<Rightarrow> GormConfig" where
  "handleConfig c = c\<lparr>
     LogDir := (if LogDir c = [] then ''./logs/gorm/'' else LogDir c),
     LogLevel := (if LogLevel c = [] then ''info'' else LogLevel c),
     LogSaveDay := (if LogSaveDay c = 0 then 30 else LogSaveDay c),
     SlowThreshold := (if SlowThreshold c = 0 then 1000 else SlowThreshold c),
     MaxOpens := (if MaxOpens c = 0 then 100 else MaxOpens c),
     MaxIdles := (if MaxIdles c = 0 then 20 else MaxIdles c),
     ConnMaxLife := (if ConnMaxLife c = 0 then 3600 else ConnMaxLife c),
     ConnMaxIdle := (if ConnMaxIdle c = 0 then 600 else ConnMaxIdle c)\<rparr>"

text \<open>The log levels of GORM: \<^verbatim>\<open>Silent\<close> is 1, \<^verbatim>\<open>Info\<close> is 4.\<close>

definition getLogLevelEnum :: "string \<Rightarrow> nat" where
  "getLogLevelEnum level = (if level = ''silent'' then 1 else if level = ''error'' then 2 else if level = ''warn'' then 3 else 4)"

definition getDriver :: "string \<Rightarrow> string list \<Rightarrow> (string \<times> string) option" where
  "getDriver driver dsn =
     (case dsn of
        [] \<Rightarrow> None
      | d # _ \<Rightarrow> if driver \<in> {''sqlite'', ''mysql'', ''postgres''} then Some (driver, d) else None)"

text \<open>
  Opening: what the library answers, and the calls made on the pool.  \<open>fresh\<close> is the new id.
\<close>

record open_lib =
  gorm_Open :: "string \<times> string \<Rightarrow> goerr option"
  gorm_sqlDB :: "goerr option"
  sql_Ping :: "goerr option"

datatype pool_call = SetMaxIdleConns int | SetMaxOpenConns int | SetConnMaxLifetime int | SetConnMaxIdleTime int

definition pool_calls :: "GormConfig \<Rightarrow> pool_call list" where
  "pool_calls c =
     [SetMaxIdleConns (MaxIdles c), SetMaxOpenConns (MaxOpens c), SetConnMaxLifetime (wrap64 (ConnMaxLife c * 1000000000))] @
     (if ConnMaxIdle c > 0 then [SetConnMaxIdleTime (wrap64 (ConnMaxIdle c * 1000000000))] else [])"

definition NewGorm :: "open_lib \<Rightarrow> string \<Rightarrow> GormConfig \<Rightarrow> (goerr + GormDrive) \<times> pool_call list" where
  "NewGorm L fresh config =
     (let c = handleConfig config
      in case getDriver (Driver c) (Dsn c) of
           None \<Rightarrow> (Inl (ErrNew (''unsupported database driver: '' @ Driver c)), [])
         | Some d \<Rightarrow>
             (case gorm_Open L d of
                Some e \<Rightarrow> (Inl (ErrWrapf ''failed to open database: '' e), [])
              | None \<Rightarrow>
                  (case gorm_sqlDB L of
                     Some e \<Rightarrow> (Inl (ErrWrapf ''failed to get underlying sql.DB: '' e), [])
                   | None \<Rightarrow>
                       (case sql_Ping L of
                          Some e \<Rightarrow> (Inl (ErrWrapf ''failed to ping database: '' e), pool_calls c)
                        | None \<Rightarrow> (Inr \<lparr>drive_ID = fresh, drive_db = True, drive_logs = True\<rparr>, pool_calls c)))))"

definition MustNewGorm :: "open_lib \<Rightarrow> string \<Rightarrow> GormConfig \<Rightarrow> GormDrive option" where
  "MustNewGorm L fresh config = (case fst (NewGorm L fresh config) of Inl _ \<Rightarrow> None | Inr g \<Rightarrow> Some g)"

definition Health :: "open_lib \<Rightarrow> GormDrive \<Rightarrow> goerr option" where
  "Health L g =
     (if \<not> drive_db g then Some (ErrNew ''gormDB: db is nil'')
      else case gorm_sqlDB L of Some e \<Rightarrow> Some e | None \<Rightarrow> sql_Ping L)"

definition drive_Close :: "open_lib \<Rightarrow> goerr option \<Rightarrow> GormDrive \<Rightarrow> goerr option" where
  "drive_Close L closed g =
     (if \<not> drive_db g then None
      else case gorm_sqlDB L of Some e \<Rightarrow> Some e | None \<Rightarrow> closed)"

section \<open>The SQL log\<close>

record GormLogger =
  gl_level :: nat
  gl_slow :: int
  gl_ignoreNotFound :: bool

definition LogMode :: "nat \<Rightarrow> GormLogger \<Rightarrow> GormLogger" where
  "LogMode level l = l\<lparr>gl_level := level\<rparr>"

text \<open>The texts under the keys of the request in the context, empty if there is none.\<close>

definition getRequestInfo :: "(string \<Rightarrow> string) \<Rightarrow> string" where
  "getRequestInfo val =
     Join ((if val ''transaction_id'' \<noteq> [] then [''txID: '' @ val ''transaction_id''] else []) @
           (if val ''request_id'' \<noteq> [] then [''requestID: '' @ val ''request_id''] else []) @
           (if val ''request_uri'' \<noteq> [] then [''requestUri: '' @ val ''request_uri''] else [])) ''; ''"

datatype trace_kind = TraceError goerr | TraceSlow | TraceInfo

record trace_line =
  tr_kind :: trace_kind
  tr_info :: string
  tr_rows :: string
  tr_sql :: string

text \<open>The line that is printed for a statement, if any, and whether a slow statement is sent to the message sender.\<close>

definition Trace :: "GormLogger \<Rightarrow> (string \<Rightarrow> string) \<Rightarrow> int \<Rightarrow> string \<times> int \<Rightarrow> goerr option \<Rightarrow> trace_line option \<times> bool" where
  "Trace l val elapsed fc err =
     (if gl_level l \<le> 1 then (None, False)
      else let line = (\<lambda>k. \<lparr>tr_kind = k, tr_info = getRequestInfo val, tr_rows = (if snd fc \<noteq> -1 then FormatInt (snd fc) else ''-''), tr_sql = fst fc\<rparr>)
           in case (case err of
                      Some e \<Rightarrow> if gl_level l \<ge> 2 \<and> (\<not> errors_Is e ErrRecordNotFound \<or> \<not> gl_ignoreNotFound l) then Some e else None
                    | None \<Rightarrow> None) of
                Some e \<Rightarrow> (Some (line (TraceError e)), False)
              | None \<Rightarrow>
                  if elapsed > gl_slow l \<and> gl_slow l \<noteq> 0 \<and> gl_level l \<ge> 3 then (Some (line TraceSlow), True)
                  else if gl_level l = 4 then (Some (line TraceInfo), False)
                  else (None, False))"

text \<open>The message about a slow statement: its keys in order.\<close>

definition slow_message :: "string \<Rightarrow> string \<Rightarrow> (string \<Rightarrow> string) \<Rightarrow> string \<Rightarrow> (string \<times> string) list" where
  "slow_message serverName env val msg =
     [(''ServerName:'', serverName), (''Env:'', env), (''RequestID:'', val ''request_id''), (''RequestUri:'', val ''request_uri''),
      (''RequestJson:'', val ''request_body_json''), (''SqlInfo:'', msg)]"

definition gorm_sendMessage :: "'s option \<Rightarrow> 's option \<Rightarrow> string \<Rightarrow> string \<Rightarrow> (string \<Rightarrow> string) \<Rightarrow> string \<Rightarrow> ('s \<times> string \<times> (string \<times> string) list) option" where
  "gorm_sendMessage sender global serverName env val msg =
     (case (case sender of None \<Rightarrow> global | Some s \<Rightarrow> Some s) of
        None \<Rightarrow> None
      | Some s \<Rightarrow> Some (s, ''Slow Query'', slow_message serverName env val msg))"

section \<open>Lemmas\<close>

lemma CtxTransaction_atomic:
  assumes "tx_atomic L" "CtxTransaction L fresh g c fn (o1, v, b) = ((r, o2, v2, b2), log)"
  shows "(r = None \<longrightarrow> fn (newTxCtx fresh g (case c of None \<Rightarrow> background_ctx | Some x \<Rightarrow> x)) (o1, v, b) = (None, o2, v2, b2)) \<and> (r \<noteq> None \<longrightarrow> b2 = b)"
proof (cases "drive_db g")
  case True
  then obtain n where t: "g_tx L n (fn (newTxCtx fresh g (case c of None \<Rightarrow> background_ctx | Some x \<Rightarrow> x))) (o1, v, b) = (r, o2, v2, b2)"
    using assms(2) by (auto simp: CtxTransaction_def Let_def)
  show ?thesis using assms(1) t unfolding tx_atomic_def by blast
qed (use assms(2) in \<open>auto simp: CtxTransaction_def\<close>)

section \<open>Properties\<close>

text \<open>
  C21. \<^verbatim>\<open>QueryAndSave\<close> is atomic and says what it did: when it returns an error, the database is as before.  When it returns none, it answers \<^verbatim>\<open>update\<close> only if the record was found, fields were given and the update of exactly the found
  record's condition changed a row without touching the time of creation, \<^verbatim>\<open>insert\<close> only if the record was not found and the upsert keyed by the columns of the condition changed a row, and \<^verbatim>\<open>nothing\<close> if the record was found and no fields were given, with the
  database as before, or the statement it ran changed no row.
\<close>

theorem query_and_save:
  assumes "tx_atomic L" "QueryAndSave L fresh g c data flds cond keys b = ((op, err), data1, b1)"
  shows "(err \<noteq> None \<longrightarrow> b1 = b) \<and>
    (err = None \<longrightarrow>
      (case op of
         OperationUpdate \<Rightarrow> \<exists>fs rows. flds = Some fs \<and> g_take L cond b = None \<and> rows > 0 \<and>
           g_updates L cond (applySelectFields fs) [CreateField] data b = ((None, rows), b1)
       | OperationInsert \<Rightarrow> \<exists>rows data0. rows > 0 \<and> (case flds of None \<Rightarrow> g_scan L cond data b = ((None, 0), data0)
            | Some fs \<Rightarrow> data0 = data \<and> (\<exists>e. g_take L cond b = Some e \<and> errors_Is e ErrRecordNotFound)) \<and>
           g_create L (Some (conflict_clause (case flds of None \<Rightarrow> [] | Some fs \<Rightarrow> fs) keys)) data0 b = ((None, rows), data1, b1)
       | OperationNothing \<Rightarrow> (flds = None \<and> b1 = b \<and> (\<exists>rows. rows \<noteq> 0 \<and> g_scan L cond data b = ((None, rows), data1))) \<or>
           (\<exists>rows \<le> 0. (\<exists>oc data0. g_create L (Some oc) data0 b = ((None, rows), data1, b1)) \<or>
              (\<exists>sel. g_updates L cond sel [CreateField] data b = ((None, rows), b1)))))"
proof -
  obtain log where tx: "CtxTransaction L fresh g c (\<lambda>_. qs_body L flds cond keys) (OperationNothing, data, b) = ((err, op, data1, b1), log)"
    using assms(2) by (auto simp: QueryAndSave_def split: prod.splits)
  note at = CtxTransaction_atomic [OF assms(1) tx]
  show ?thesis
  proof (cases err)
    case None
    then have body: "qs_body L flds cond keys (OperationNothing, data, b) = (None, op, data1, b1)" using at by simp
    show ?thesis
    proof (cases flds)
      case N: None
      then show ?thesis using body None
        by (cases op) (auto simp: qs_body_def qs_insert_def saveRaw_def not_less split: prod.splits option.splits if_splits)
    next
      case (Some fs)
      then show ?thesis using body None
        by (cases op) (auto simp: qs_body_def qs_insert_def qs_update_def saveRaw_def not_less split: prod.splits option.splits if_splits)
    qed
  qed (use at in simp)
qed

text \<open>A small database that behaves as documented, with a commit that may fail.\<close>

definition demo_gorm :: "goerr option \<Rightarrow> (nat, nat, nat list) gorm_lib" where
  "demo_gorm commit = \<lparr>g_create = (\<lambda>_ v b. ((None, 1), v, b @ [v])), g_updates = (\<lambda>_ _ _ _ b. ((None, 0), b)), g_delete = (\<lambda>_ _ b. ((None, 0), b)),
     g_scan = (\<lambda>_ v b. ((None, 0), v)), g_take = (\<lambda>_ b. Some ErrRecordNotFound),
     g_tx = (\<lambda>_ f st. case f st of
        (Some e, o2, v2, b2) \<Rightarrow> (Some e, o2, v2, snd (snd st))
      | (None, o2, v2, b2) \<Rightarrow> (case commit of Some e \<Rightarrow> (Some e, o2, v2, snd (snd st)) | None \<Rightarrow> (None, o2, v2, b2)))\<rparr>"

definition demo_drive :: GormDrive where
  "demo_drive = \<lparr>drive_ID = ''db'', drive_db = True, drive_logs = True\<rparr>"

lemma demo_gorm_atomic: "tx_atomic (demo_gorm commit)"
  unfolding tx_atomic_def by (auto simp: demo_gorm_def split: prod.splits option.splits)

text \<open>
  A failed commit still reports its operation: there is a database, as documented, on which \<^verbatim>\<open>QueryAndSave\<close> answers \<^verbatim>\<open>insert\<close> together with an error although nothing was inserted, because the answer is set inside the
  transaction and not reset when it is rolled back.
\<close>

theorem rolled_back_insert_reported:
  "\<exists>(L :: (nat, nat, nat list) gorm_lib) e. tx_atomic L \<and>
     QueryAndSave L ''id'' demo_drive None 7 (Some [''*'']) [] [''k''] [] = ((OperationInsert, Some e), 7, [])"
  by (intro exI [of _ "demo_gorm (Some (ErrNew ''commit''))"] exI [of _ "ErrNew ''commit''"] conjI demo_gorm_atomic)
    (simp add: QueryAndSave_def CtxTransaction_def demo_drive_def demo_gorm_def qs_body_def qs_insert_def saveRaw_def Let_def)

text \<open>
  A strict insert: \<^verbatim>\<open>Insert\<close> returns no error if and only if there was something to insert and GORM reports as many inserted rows as there were records; without records the database is not touched.
\<close>

theorem insert_strict:
  "(fst (Insert L data b) = None \<longleftrightarrow> countRows data > 0 \<and> fst (g_create L None data b) = (None, int (countRows data))) \<and>
   (countRows data = 0 \<longrightarrow> Insert L data b = (Some RowsAffectedZero, b))"
  by (auto simp: Insert_def Let_def split: prod.splits option.splits)


text \<open>
  Zero does not mean unlimited: whatever the other settings, a configuration that leaves the limits of the pool at 0 gets at most 100 open connections, 20 idle ones, a lifetime of an hour and an idle time of ten minutes.
\<close>

theorem zero_limits_are_limits:
  assumes "MaxOpens c = 0" "MaxIdles c = 0" "ConnMaxLife c = 0" "ConnMaxIdle c = 0" "NewGorm L fresh c = (Inr g, calls)"
  shows "calls = [SetMaxIdleConns 20, SetMaxOpenConns 100, SetConnMaxLifetime (3600 * 1000000000), SetConnMaxIdleTime (600 * 1000000000)]"
proof -
  have "calls = pool_calls (handleConfig c)"
    using assms(5) by (auto simp: NewGorm_def Let_def split: option.splits)
  then show ?thesis using assms(1-4) by (simp add: pool_calls_def handleConfig_def wrap64_def)
qed

text \<open>
  No failed statement is missing from the log: from the level \<^verbatim>\<open>error\<close> on every statement with an error is printed with this error, unless it is a missing record and these are ignored; a message is sent exactly for the slow statements that are not printed as errors, from the
  level \<^verbatim>\<open>warn\<close> on; and at the level \<^verbatim>\<open>silent\<close> nothing is printed.
\<close>

theorem trace_complete:
  "(\<forall>e. err = Some e \<and> gl_level l \<ge> 2 \<and> (\<not> errors_Is e ErrRecordNotFound \<or> \<not> gl_ignoreNotFound l) \<longrightarrow>
      map_option tr_kind (fst (Trace l val elapsed fc err)) = Some (TraceError e)) \<and>
   (snd (Trace l val elapsed fc err) \<longleftrightarrow> map_option tr_kind (fst (Trace l val elapsed fc err)) = Some TraceSlow) \<and>
   (snd (Trace l val elapsed fc err) \<longrightarrow> gl_level l \<ge> 3 \<and> elapsed > gl_slow l) \<and>
   (gl_level l \<le> 1 \<longrightarrow> Trace l val elapsed fc err = (None, False))"
  by (auto simp: Trace_def Let_def split: option.splits)

section \<open>Witnesses\<close>

theorem query_and_save_witness:
  "\<exists>rows > 0. g_create (demo_gorm None) (Some (conflict_clause [''*''] [''k''])) 7 [] = ((None, rows), 7, [7])"
proof -
  have "QueryAndSave (demo_gorm None) ''id'' demo_drive None 7 (Some [''*'']) [] [''k''] [] = ((OperationInsert, None), 7, [7])"
    by (simp add: QueryAndSave_def CtxTransaction_def demo_drive_def demo_gorm_def qs_body_def qs_insert_def saveRaw_def Let_def)
  from query_and_save [OF demo_gorm_atomic this] show ?thesis by auto
qed

definition demo_many :: "(nat gdata, nat, unit) gorm_lib" where
  "demo_many = \<lparr>g_create = (\<lambda>_ v b. ((None, 1), v, b)), g_updates = (\<lambda>_ _ _ _ b. ((None, 0), b)), g_delete = (\<lambda>_ _ b. ((None, 0), b)),
     g_scan = (\<lambda>_ v b. ((None, 0), v)), g_take = (\<lambda>_ b. None), g_tx = (\<lambda>_ f. f)\<rparr>"

theorem insert_strict_witness: "Insert demo_many (GPtr (GMany [])) () = (Some RowsAffectedZero, ())"
  using insert_strict [of demo_many "GPtr (GMany [])" "()"] by simp


definition demo_gconfig :: GormConfig where
  "demo_gconfig = \<lparr>Driver = ''mysql'', Dsn = [''dsn''], ConnMaxLife = 0, ConnMaxIdle = 0, MaxOpens = 0, MaxIdles = 0, LogDir = [], LogLevel = [], SlowThreshold = 0, LogSaveDay = 0\<rparr>"

theorem zero_limits_are_limits_witness:
  "\<exists>g. NewGorm \<lparr>gorm_Open = (\<lambda>_. None), gorm_sqlDB = None, sql_Ping = None\<rparr> ''id'' demo_gconfig =
     (Inr g, [SetMaxIdleConns 20, SetMaxOpenConns 100, SetConnMaxLifetime (3600 * 1000000000), SetConnMaxIdleTime (600 * 1000000000)])"
proof -
  obtain g calls where n: "NewGorm \<lparr>gorm_Open = (\<lambda>_. None), gorm_sqlDB = None, sql_Ping = None\<rparr> ''id'' demo_gconfig = (Inr g, calls)"
    by (simp add: NewGorm_def demo_gconfig_def handleConfig_def getDriver_def)
  then show ?thesis using zero_limits_are_limits [OF _ _ _ _ n] by (simp add: demo_gconfig_def)
qed

theorem trace_complete_witness:
  "map_option tr_kind (fst (Trace \<lparr>gl_level = 2, gl_slow = 0, gl_ignoreNotFound = True\<rparr> (\<lambda>_. []) 5 (''SELECT 1'', -1) (Some (ErrNew ''deadlock'')))) = Some (TraceError (ErrNew ''deadlock''))"
  using trace_complete [of "Some (ErrNew ''deadlock'')" "\<lparr>gl_level = 2, gl_slow = 0, gl_ignoreNotFound = True\<rparr>" "\<lambda>_. []" 5 "(''SELECT 1'', -1)"]
  by (simp add: ErrRecordNotFound_def)

end
