(* ===== verification/Redis_Client.thy ===== *)
theory Redis_Client
  imports Go_Prelude "HOL-Library.Multiset"
begin

text \<open>
  The Redis client of \<^verbatim>\<open>dao/redis\<close>: its configuration (\<^verbatim>\<open>redisClient.go\<close>) and the iteration over keys (\<^verbatim>\<open>redisFunc.go\<close>), on one server and on the masters of a cluster at the same time.  The
  connection library is a parameter: \<^verbatim>\<open>Ping\<close> and \<^verbatim>\<open>Scan\<close> answer as the environment says.  The loop of an iteration ends when the server returns the cursor 0, which it need not do: not returning is
  \<^term>\<open>None\<close>.
\<close>

section \<open>Configuration\<close>

record redis_Config =
  Host :: string
  Port :: string
  Nodes :: "string list"
  Username :: string
  Auth :: string
  DB :: int
  PoolSize :: int
  Encryption :: nat
  Framework :: string
  Prefix :: string
  Tls :: bool
  MinVersion :: nat
  ReadTimeout :: int
  WriteTimeout :: int
  EnableLog :: bool

definition defaultTLSVersion :: nat where "defaultTLSVersion = 0x0303"
definition defaultTimeout :: int where "defaultTimeout = 3 * 1000000000"
definition defaultPoolSize :: int where "defaultPoolSize = 20"

definition poolSize :: "int \<Rightarrow> int" where
  "poolSize n = (if n \<le> 0 then defaultPoolSize else n)"

definition duration :: "int \<Rightarrow> int \<Rightarrow> int" where
  "duration ms defaultVal = (if ms \<le> 0 then defaultVal else wrap64 (ms * 1000000))"

definition normalizeAddr :: "string \<Rightarrow> string \<Rightarrow> string" where
  "normalizeAddr host port = (if Contains host '':'' then host else host @ '':'' @ port)"

definition normalizeAddrs :: "string list \<Rightarrow> string list" where
  "normalizeAddrs ns = filter (\<lambda>n. n \<noteq> []) (map TrimSpace ns)"

definition newTLSConfig :: "nat \<Rightarrow> nat" where
  "newTLSConfig v = (if v = 0 then defaultTLSVersion else v)"

text \<open>The options given to the library, for one server or a cluster.\<close>

record redis_options =
  o_cluster :: bool
  o_addrs :: "string list"
  o_db :: "int option"
  o_pool :: int
  o_read :: int
  o_write :: int
  o_user :: "(string \<times> string) option"
  o_tls :: "nat option"

definition cluster_options :: "redis_Config \<Rightarrow> string \<Rightarrow> redis_options" where
  "cluster_options c auth =
     \<lparr>o_cluster = True, o_addrs = (if Nodes c = [] then [normalizeAddr (Host c) (Port c)] else normalizeAddrs (Nodes c)), o_db = None,
      o_pool = poolSize (PoolSize c), o_read = duration (ReadTimeout c) defaultTimeout, o_write = duration (WriteTimeout c) defaultTimeout,
      o_user = (if auth \<noteq> [] then Some (Username c, auth) else None), o_tls = (if Tls c then Some (newTLSConfig (MinVersion c)) else None)\<rparr>"

definition standalone_options :: "redis_Config \<Rightarrow> string \<Rightarrow> redis_options" where
  "standalone_options c auth =
     \<lparr>o_cluster = False, o_addrs = [normalizeAddr (Host c) (Port c)], o_db = Some (DB c),
      o_pool = poolSize (PoolSize c), o_read = duration (ReadTimeout c) defaultTimeout, o_write = duration (WriteTimeout c) defaultTimeout,
      o_user = (if auth \<noteq> [] then Some (Username c, auth) else None), o_tls = (if Tls c then Some (newTLSConfig (MinVersion c)) else None)\<rparr>"

record redis_Client =
  r_options :: redis_options
  r_config :: redis_Config
  r_logged :: bool

definition create_client :: "(redis_options \<Rightarrow> goerr option) \<Rightarrow> redis_options \<Rightarrow> redis_Config \<Rightarrow> goerr + redis_Client" where
  "create_client ping opts c = (case ping opts of Some e \<Rightarrow> Inl e | None \<Rightarrow> Inr \<lparr>r_options = opts, r_config = c, r_logged = False\<rparr>)"

definition redis_NewRedis :: "(redis_options \<Rightarrow> goerr option) \<Rightarrow> (string \<Rightarrow> string) \<Rightarrow> redis_Config \<Rightarrow> goerr + redis_Client" where
  "redis_NewRedis ping md5 c =
     (let auth = (if Encryption c = 1 then md5 (Auth c) else Auth c)
      in case create_client ping (if Framework c = ''cluster'' then cluster_options c auth else standalone_options c auth) c of
           Inl e \<Rightarrow> Inl e
         | Inr cl \<Rightarrow> Inr (if EnableLog c then cl\<lparr>r_logged := True\<rparr> else cl))"

definition redis_Key :: "redis_Client \<Rightarrow> string \<Rightarrow> string" where
  "redis_Key t key = Prefix (r_config t) @ key"

definition redis_DbErr :: "goerr option \<Rightarrow> goerr option" where
  "redis_DbErr err = (case err of None \<Rightarrow> None | Some e \<Rightarrow> if errors_Is e (ErrNew ''redis: nil'') then None else err)"

section \<open>Iterating over the keys of one server\<close>

text \<open>\<open>ctx i\<close> is the context at the \<open>i\<close>-th round, \<open>scan i cursor\<close> the answer of the server: a batch and the next cursor.\<close>

type_synonym scanner = "nat \<Rightarrow> nat \<Rightarrow> goerr + (string list \<times> nat)"

partial_function (option) scan_loop :: "(nat \<Rightarrow> goerr option) \<Rightarrow> scanner \<Rightarrow> nat \<Rightarrow> nat \<Rightarrow> string list \<Rightarrow> (goerr + string list) option" where
  "scan_loop ctx scan i cursor keys =
     (case ctx i of
        Some e \<Rightarrow> Some (Inl (ErrWrapf ''context cancelled: '' e))
      | None \<Rightarrow>
          (case scan i cursor of
             Inl e \<Rightarrow> Some (Inl (ErrWrapf ''scan error: '' e))
           | Inr (batch, nxt) \<Rightarrow>
               if nxt = 0 then Some (Inr (keys @ batch)) else scan_loop ctx scan (Suc i) nxt (keys @ batch)))"

declare scan_loop.simps [code]

definition scanKeys :: "(nat \<Rightarrow> goerr option) \<Rightarrow> scanner \<Rightarrow> (goerr + string list) option" where
  "scanKeys ctx scan = scan_loop ctx scan 0 0 []"

section \<open>Iterating over the masters of a cluster\<close>

text \<open>
  A goroutine for each shard: its round, its cursor and whether it is done.  The keys are shared, and the channel keeps the first error.
\<close>

record shard =
  s_round :: nat
  s_cursor :: nat
  s_done :: bool
  s_got :: "string list"

record cluster_scan =
  shards :: "shard list"
  found :: "string list"
  errChan :: "goerr option"

definition offer :: "goerr \<Rightarrow> goerr option \<Rightarrow> goerr option" where
  "offer e ch = (case ch of None \<Rightarrow> Some e | Some x \<Rightarrow> Some x)"

definition shard_round :: "(nat \<Rightarrow> goerr option) \<Rightarrow> (nat \<Rightarrow> scanner) \<Rightarrow> (nat \<Rightarrow> string) \<Rightarrow> nat \<Rightarrow> cluster_scan \<Rightarrow> cluster_scan" where
  "shard_round ctx scan name j c =
     (let s = shards c ! j
      in case ctx (s_round s) of
           Some e \<Rightarrow> c\<lparr>shards := (shards c)[j := s\<lparr>s_done := True\<rparr>], errChan := offer (ErrWrapf ''context cancelled: '' e) (errChan c)\<rparr>
         | None \<Rightarrow>
             (case scan j (s_round s) (s_cursor s) of
                Inl e \<Rightarrow> c\<lparr>shards := (shards c)[j := s\<lparr>s_done := True\<rparr>],
                           errChan := offer (ErrWrapf (''shard '' @ name j @ '' error: '') e) (errChan c)\<rparr>
              | Inr (batch, nxt) \<Rightarrow>
                  c\<lparr>shards := (shards c)[j := \<lparr>s_round = Suc (s_round s), s_cursor = nxt, s_done = (nxt = 0), s_got = s_got s @ batch\<rparr>],
                    found := found c @ batch\<rparr>))"

inductive cluster_step :: "(nat \<Rightarrow> goerr option) \<Rightarrow> (nat \<Rightarrow> scanner) \<Rightarrow> (nat \<Rightarrow> string) \<Rightarrow> cluster_scan \<Rightarrow> cluster_scan \<Rightarrow> bool"
  for ctx scan name where
  round: "j < length (shards c) \<Longrightarrow> \<not> s_done (shards c ! j) \<Longrightarrow> cluster_step ctx scan name c (shard_round ctx scan name j c)"

definition cluster_start :: "nat \<Rightarrow> cluster_scan" where
  "cluster_start n = \<lparr>shards = replicate n \<lparr>s_round = 0, s_cursor = 0, s_done = False, s_got = []\<rparr>, found = [], errChan = None\<rparr>"

text \<open>What is returned after all goroutines have ended; \<open>each\<close> is the error of \<^verbatim>\<open>ForEachMaster\<close>.\<close>

definition cluster_result :: "goerr option \<Rightarrow> cluster_scan \<Rightarrow> goerr + string list" where
  "cluster_result each c =
     (case each of
        Some e \<Rightarrow> Inl (ErrWrapf ''cluster iteration failed: '' e)
      | None \<Rightarrow> (case errChan c of Some e \<Rightarrow> Inl e | None \<Rightarrow> Inr (found c)))"

text \<open>
  The scan of a client, by what it is: a single server, a cluster of \<open>n\<close> masters, something else (\<open>ty\<close> is the name of its type).  A result is one that some run returns.
\<close>

datatype scan_client = SingleClient scanner | ClusterClient nat "nat \<Rightarrow> scanner" "nat \<Rightarrow> string" "goerr option" | OtherClient string

definition scanStandaloneKeys :: "(nat \<Rightarrow> goerr option) \<Rightarrow> scanner \<Rightarrow> (goerr + string list) option" where
  "scanStandaloneKeys ctx scan = scanKeys ctx scan"

inductive ScanKeys :: "(nat \<Rightarrow> goerr option) \<Rightarrow> scan_client \<Rightarrow> goerr + string list \<Rightarrow> bool" for ctx where
  single: "scanStandaloneKeys ctx scan = Some r \<Longrightarrow> ScanKeys ctx (SingleClient scan) r"
| cluster: "(cluster_step ctx scan name)\<^sup>*\<^sup>* (cluster_start n) c \<Longrightarrow> \<forall>s \<in> set (shards c). s_done s \<Longrightarrow> ScanKeys ctx (ClusterClient n scan name each) (cluster_result each c)"
| other: "ScanKeys ctx (OtherClient ty) (Inl (ErrNew (''unsupported redis client type: '' @ ty)))"

inductive_cases ScanKeysE: "ScanKeys ctx cl r"

section \<open>One server\<close>

text \<open>A full iteration: the batches from a cursor until the server returns 0, while the context lives.\<close>

inductive scan_path :: "(nat \<Rightarrow> goerr option) \<Rightarrow> scanner \<Rightarrow> nat \<Rightarrow> nat \<Rightarrow> string list list \<Rightarrow> bool" for ctx scan where
  last: "ctx i = None \<Longrightarrow> scan i cursor = Inr (b, 0) \<Longrightarrow> scan_path ctx scan i cursor [b]"
| more: "ctx i = None \<Longrightarrow> scan i cursor = Inr (b, nxt) \<Longrightarrow> nxt \<noteq> 0 \<Longrightarrow> scan_path ctx scan (Suc i) nxt bs \<Longrightarrow> scan_path ctx scan i cursor (b # bs)"

lemma path_scan: "scan_path ctx scan i cursor bs \<Longrightarrow> scan_loop ctx scan i cursor keys = Some (Inr (keys @ concat bs))"
proof (induction arbitrary: keys rule: scan_path.induct)
  case (last i cursor b)
  then show ?case by (subst scan_loop.simps) simp
next
  case (more i cursor b nxt bs)
  then show ?case by (subst scan_loop.simps) simp
qed

lemma scan_is_path:
  assumes "scan_loop ctx scan i cursor keys = Some r"
  shows "\<forall>ks. r = Inr ks \<longrightarrow> (\<exists>bs. scan_path ctx scan i cursor bs \<and> ks = keys @ concat bs)"
proof (rule scan_loop.raw_induct
    [where P = "\<lambda>ctx scan i cursor keys r. \<forall>ks. r = Inr ks \<longrightarrow> (\<exists>bs. scan_path ctx scan i cursor bs \<and> ks = keys @ concat bs)", OF _ assms], goal_cases)
  case (1 loop ctx scan i cursor keys r)
  show ?case
  proof (intro allI impI)
    fix ks assume r: "r = Inr ks"
    then obtain b nxt where s: "ctx i = None" "scan i cursor = Inr (b, nxt)"
      using 1(2) by (auto split: option.splits sum.splits)
    show "\<exists>bs. scan_path ctx scan i cursor bs \<and> ks = keys @ concat bs"
    proof (cases "nxt = 0")
      case True
      then show ?thesis using 1(2) r s scan_path.last [of ctx i scan cursor b] by (intro exI [of _ "[b]"]) auto
    next
      case False
      then have "loop ctx scan (Suc i) nxt (keys @ b) = Some r" using 1(2) s by simp
      from 1(1) [OF this] r obtain bs where "scan_path ctx scan (Suc i) nxt bs" "ks = (keys @ b) @ concat bs" by blast
      then show ?thesis using scan_path.more [of ctx i scan cursor b nxt, OF s False] by (intro exI [of _ "b # bs"]) auto
    qed
  qed
qed

section \<open>A cluster\<close>

definition shard_ok :: "(nat \<Rightarrow> goerr option) \<Rightarrow> scanner \<Rightarrow> bool \<Rightarrow> shard \<Rightarrow> bool" where
  "shard_ok ctx scan failed s \<longleftrightarrow>
     (if s_done s then failed \<or> scanKeys ctx scan = Some (Inr (s_got s))
      else scanKeys ctx scan = scan_loop ctx scan (s_round s) (s_cursor s) (s_got s))"

definition cluster_ok :: "(nat \<Rightarrow> goerr option) \<Rightarrow> (nat \<Rightarrow> scanner) \<Rightarrow> nat \<Rightarrow> cluster_scan \<Rightarrow> bool" where
  "cluster_ok ctx scan n c \<longleftrightarrow> length (shards c) = n \<and> mset (found c) = \<Sum>\<^sub># (mset (map (mset \<circ> s_got) (shards c))) \<and>
     (\<forall>j < n. shard_ok ctx (scan j) (errChan c \<noteq> None) (shards c ! j))"

lemma offer_set: "offer e ch \<noteq> None"
  by (simp add: offer_def split: option.splits)

lemma sum_update:
  "j < length xs \<Longrightarrow> mset (s_got s') = mset (s_got (xs ! j)) + B \<Longrightarrow>
     \<Sum>\<^sub># (mset (map (mset \<circ> s_got) (xs[j := s']))) = \<Sum>\<^sub># (mset (map (mset \<circ> s_got) xs)) + B"
proof (induction xs arbitrary: j)
  case (Cons x xs)
  then show ?case by (cases j) auto
qed simp

lemma cluster_step_ok:
  assumes "cluster_step ctx scan name c c'" "cluster_ok ctx scan n c"
  shows "cluster_ok ctx scan n c'"
  using assms
proof (cases rule: cluster_step.cases)
  case (round j)
  let ?s = "shards c ! j"
  have ok: "length (shards c) = n" "mset (found c) = \<Sum>\<^sub># (mset (map (mset \<circ> s_got) (shards c)))"
    "\<And>k. k < n \<Longrightarrow> shard_ok ctx (scan k) (errChan c \<noteq> None) (shards c ! k)" using assms(2) by (simp_all add: cluster_ok_def)
  have at: "scanKeys ctx (scan j) = scan_loop ctx (scan j) (s_round ?s) (s_cursor ?s) (s_got ?s)" using ok(1,3) round by (auto simp: shard_ok_def)
  have others: "shard_ok ctx (scan k) f ((shards c)[j := s'] ! k)" if "k < n" "shard_ok ctx (scan j) f s'" "f = (errChan c \<noteq> None) \<or> f" for k s' f
    using that ok(1) ok(3) [OF that(1)] round(2) by (cases "k = j") (auto simp: shard_ok_def split: if_splits)
  show ?thesis
  proof (cases "ctx (s_round ?s)")
    case (Some e)
    have "\<Sum>\<^sub># (mset (map (mset \<circ> s_got) ((shards c)[j := ?s\<lparr>s_done := True\<rparr>]))) = \<Sum>\<^sub># (mset (map (mset \<circ> s_got) (shards c)))"
      using sum_update [OF round(2), of "?s\<lparr>s_done := True\<rparr>" "{#}"] by simp
    then show ?thesis
      unfolding round(1) using Some ok(1,2) others [of _ True "?s\<lparr>s_done := True\<rparr>"] by (auto simp: cluster_ok_def shard_round_def offer_set shard_ok_def [of _ "scan j"])
  next
    case N: None
    show ?thesis
    proof (cases "scan j (s_round ?s) (s_cursor ?s)")
      case (Inl e)
      have "\<Sum>\<^sub># (mset (map (mset \<circ> s_got) ((shards c)[j := ?s\<lparr>s_done := True\<rparr>]))) = \<Sum>\<^sub># (mset (map (mset \<circ> s_got) (shards c)))"
        using sum_update [OF round(2), of "?s\<lparr>s_done := True\<rparr>" "{#}"] by simp
      then show ?thesis
        unfolding round(1) using N Inl ok(1,2) others [of _ True "?s\<lparr>s_done := True\<rparr>"] by (auto simp: cluster_ok_def shard_round_def offer_set shard_ok_def [of _ "scan j"])
    next
      case (Inr bn)
      obtain b nxt where bn: "bn = (b, nxt)" by force
      let ?t = "\<lparr>s_round = Suc (s_round ?s), s_cursor = nxt, s_done = (nxt = 0), s_got = s_got ?s @ b\<rparr>"
      have t: "shard_ok ctx (scan j) f ?t" for f
        using at N Inr bn by (simp add: shard_ok_def scan_loop.simps [of ctx "scan j" "s_round ?s"])
      have "\<Sum>\<^sub># (mset (map (mset \<circ> s_got) ((shards c)[j := ?t]))) = \<Sum>\<^sub># (mset (map (mset \<circ> s_got) (shards c))) + mset b"
        by (rule sum_update [OF round(2)]) simp
      then show ?thesis
        unfolding round(1) using N Inr bn ok(1,2) others [OF _ t [of "errChan c \<noteq> None"]] by (auto simp: cluster_ok_def shard_round_def Let_def)
    qed
  qed
qed

lemma cluster_reach_ok: "(cluster_step ctx scan name)\<^sup>*\<^sup>* (cluster_start n) c \<Longrightarrow> cluster_ok ctx scan n c"
proof (induction rule: rtranclp_induct)
  case base
  have "\<Sum>\<^sub># (mset (map (mset \<circ> s_got) (replicate n \<lparr>s_round = 0, s_cursor = 0, s_done = False, s_got = []\<rparr>))) = ({#} :: string multiset)"
    by (induction n) simp_all
  then show ?case by (simp add: cluster_ok_def cluster_start_def shard_ok_def scanKeys_def del: map_replicate)
qed (rule cluster_step_ok)

section \<open>Properties\<close>

text \<open>
  An iteration over the keys returns all batches: \<^verbatim>\<open>scanKeys\<close> returns the keys \<open>ks\<close> without an error if and only if the server led the cursor back to 0 while the context lived, and \<open>ks\<close> are the keys of all its batches in order.
\<close>

theorem scan_keys_iff: "scanKeys ctx scan = Some (Inr ks) \<longleftrightarrow> (\<exists>bs. scan_path ctx scan 0 0 bs \<and> ks = concat bs)"
  using path_scan [of ctx scan 0 0 _ "[]"] scan_is_path [of ctx scan 0 0 "[]"] by (auto simp: scanKeys_def)

text \<open>
  C26. The goroutines of a cluster scan lose and invent nothing: however the rounds of the shards interleave, when all of them have ended and the scan returns keys, every shard was iterated to its end, and the keys are, with their multiplicities, those that the
  shards would return one by one.
\<close>

theorem cluster_scan_complete:
  assumes "(cluster_step ctx scan name)\<^sup>*\<^sup>* (cluster_start n) c" "\<forall>s \<in> set (shards c). s_done s" "cluster_result each c = Inr ks"
  shows "\<exists>per. length per = n \<and> (\<forall>j < n. scanKeys ctx (scan j) = Some (Inr (per ! j))) \<and> mset ks = \<Sum>\<^sub># (mset (map mset per))"
proof -
  have ok: "cluster_ok ctx scan n c" by (rule cluster_reach_ok [OF assms(1)])
  have r: "errChan c = None" "ks = found c" using assms(3) by (auto simp: cluster_result_def split: option.splits)
  show ?thesis
  proof (intro exI [of _ "map s_got (shards c)"] conjI allI impI)
    fix j assume "j < n"
    then show "scanKeys ctx (scan j) = Some (Inr (map s_got (shards c) ! j))" using ok r(1) assms(2) by (auto simp: cluster_ok_def shard_ok_def)
  qed (use ok r in \<open>auto simp: cluster_ok_def comp_def\<close>)
qed

text \<open>
  A server that never leads the cursor back to 0 holds the iteration up until the context ends: with a living context and answers that always name another cursor, \<^verbatim>\<open>scanKeys\<close> does not return.
\<close>

theorem scan_keys_needs_zero:
  assumes "\<forall>i. ctx i = None" "\<forall>i c. \<exists>b nxt. scan i c = Inr (b, nxt) \<and> nxt \<noteq> 0"
  shows "scanKeys ctx scan = None"
proof (cases "scanKeys ctx scan")
  case (Some r)
  have "False" if "scan_loop ctx scan i cursor keys = Some r" for i cursor keys
  proof -
    have "ctx = ctx \<longrightarrow> (\<forall>i. ctx i = None) \<longrightarrow> (\<forall>i c. \<exists>b nxt. scan i c = Inr (b, nxt) \<and> nxt \<noteq> 0) \<longrightarrow> False"
    proof (rule scan_loop.raw_induct
        [where P = "\<lambda>ctx scan i cursor keys r. ctx = ctx \<longrightarrow> (\<forall>i. ctx i = None) \<longrightarrow> (\<forall>i c. \<exists>b nxt. scan i c = Inr (b, nxt) \<and> nxt \<noteq> 0) \<longrightarrow> False", OF _ that], goal_cases)
      case (1 loop ctx scan i cursor keys r)
      show ?case
      proof (intro impI)
        assume live: "\<forall>i. ctx i = None" and sc: "\<forall>i c. \<exists>b nxt. scan i c = Inr (b, nxt) \<and> nxt \<noteq> 0"
        obtain b nxt where "scan i cursor = Inr (b, nxt)" "nxt \<noteq> 0" using sc by blast
        then have "loop ctx scan (Suc i) nxt (keys @ b) = Some r" using 1(2) live by simp
        from 1(1) [OF this] live sc show False by blast
      qed
    qed
    then show False using assms by blast
  qed
  then show ?thesis using Some by (auto simp: scanKeys_def)
qed

section \<open>Witnesses\<close>

definition demo_scan :: scanner where
  "demo_scan i c = (if c = 0 then Inr ([''a'', ''b''], 5) else Inr ([''c''], 0))"

lemma demo_scan_keys: "scanKeys (\<lambda>_. None) demo_scan = Some (Inr [''a'', ''b'', ''c''])"
  by (simp add: scanKeys_def scan_loop.simps demo_scan_def)

theorem cluster_scan_complete_witness:
  "\<exists>per. length per = 1 \<and> (\<forall>j < 1. scanKeys (\<lambda>_. None) demo_scan = Some (Inr (per ! j)))"
proof -
  let ?step = "shard_round (\<lambda>_. None) (\<lambda>_. demo_scan) (\<lambda>_. [])  0"
  have e: "?step (?step (cluster_start 1)) = \<lparr>shards = [\<lparr>s_round = 2, s_cursor = 0, s_done = True, s_got = [''a'', ''b'', ''c'']\<rparr>], found = [''a'', ''b'', ''c''], errChan = None\<rparr>"
    by (simp add: cluster_start_def shard_round_def demo_scan_def numeral_2_eq_2)
  have "cluster_step (\<lambda>_. None) (\<lambda>_. demo_scan) (\<lambda>_. []) (cluster_start 1) (?step (cluster_start 1))"
    by (rule cluster_step.round) (simp_all add: cluster_start_def)
  moreover have "cluster_step (\<lambda>_. None) (\<lambda>_. demo_scan) (\<lambda>_. []) (?step (cluster_start 1)) (?step (?step (cluster_start 1)))"
    by (rule cluster_step.round) (simp_all add: cluster_start_def shard_round_def demo_scan_def)
  ultimately have r: "(cluster_step (\<lambda>_. None) (\<lambda>_. demo_scan) (\<lambda>_. []))\<^sup>*\<^sup>* (cluster_start 1) (?step (?step (cluster_start 1)))" by simp
  show ?thesis using cluster_scan_complete [OF r, of None "[''a'', ''b'', ''c'']"] unfolding e by (auto simp: cluster_result_def)
qed

theorem scan_keys_needs_zero_witness: "scanKeys (\<lambda>_. None) (\<lambda>_ c. Inr ([], Suc c)) = None"
  by (rule scan_keys_needs_zero) simp_all

end
