(* ===== verification/Scheduler.thy ===== *)
theory Scheduler
  imports Coroutines
begin

text \<open>
  The job scheduler, \<^verbatim>\<open>cmd/cmd.go\<close>: jobs under names over the library \<^verbatim>\<open>gocron\<close>.  The library is a parameter with its documented contract \<open>gocron_laws\<close>: a new job gets an id that no scheduled job has, a call that fails
  changes nothing.  Jobs run through \<^verbatim>\<open>wrapTask\<close>, which reports errors, panics and overruns.
\<close>

section \<open>Jobs\<close>

record Handler =
  Spec :: string
  MaxExecuteTime :: int

text \<open>\<open>NewJob\<close> gets the cron text and the name; \<open>g_jobs\<close> are the ids that are scheduled.\<close>

record ('i, 'g) gocron =
  NewJob :: "string \<Rightarrow> string \<Rightarrow> 'g \<Rightarrow> (goerr + 'i) \<times> 'g"
  g_RemoveJob :: "'i \<Rightarrow> 'g \<Rightarrow> goerr option \<times> 'g"
  g_Start :: "'g \<Rightarrow> 'g"
  g_Shutdown :: "'g \<Rightarrow> goerr option \<times> 'g"
  g_jobs :: "'g \<Rightarrow> 'i set"

definition gocron_laws :: "('i, 'g) gocron \<Rightarrow> bool" where
  "gocron_laws L \<longleftrightarrow>
     (\<forall>spec name g i g'. NewJob L spec name g = (Inr i, g') \<longrightarrow> i \<notin> g_jobs L g \<and> g_jobs L g' = insert i (g_jobs L g)) \<and>
     (\<forall>spec name g e g'. NewJob L spec name g = (Inl e, g') \<longrightarrow> g_jobs L g' = g_jobs L g) \<and>
     (\<forall>i g g'. g_RemoveJob L i g = (None, g') \<longrightarrow> g_jobs L g' = g_jobs L g - {i}) \<and>
     (\<forall>i g e g'. g_RemoveJob L i g = (Some e, g') \<longrightarrow> g_jobs L g' = g_jobs L g) \<and>
     (\<forall>g. g_jobs L (g_Start L g) = g_jobs L g)"

record ('i, 'g) Scheduler =
  sched :: 'g
  entries :: "string \<rightharpoonup> 'i"

definition NewScheduler :: "goerr + 'g \<Rightarrow> goerr + ('i, 'g) Scheduler" where
  "NewScheduler new = (case new of Inl e \<Rightarrow> Inl (ErrWrapf ''NewScheduler: '' e) | Inr g \<Rightarrow> Inr \<lparr>sched = g, entries = Map.empty\<rparr>)"

definition Start :: "('i, 'g) gocron \<Rightarrow> ('i, 'g) Scheduler \<Rightarrow> ('i, 'g) Scheduler" where
  "Start L s = s\<lparr>sched := g_Start L (sched s)\<rparr>"

definition Stop :: "('i, 'g) gocron \<Rightarrow> ('i, 'g) Scheduler \<Rightarrow> goerr option \<times> ('i, 'g) Scheduler" where
  "Stop L s = (case g_Shutdown L (sched s) of (err, g1) \<Rightarrow> (err, s\<lparr>sched := g1\<rparr>))"

definition addJobLocked :: "('i, 'g) gocron \<Rightarrow> string \<Rightarrow> Handler \<Rightarrow> ('i, 'g) Scheduler \<Rightarrow> goerr option \<times> ('i, 'g) Scheduler" where
  "addJobLocked L name h s =
     (case NewJob L (Spec h) name (sched s) of
        (Inl e, g1) \<Rightarrow> (Some (ErrWrapf (''AddJob '' @ fmt_q name @ '' failed: '') e), s\<lparr>sched := g1\<rparr>)
      | (Inr j, g1) \<Rightarrow> (None, s\<lparr>sched := g1, entries := (entries s)(name \<mapsto> j)\<rparr>))"

definition AddJob :: "('i, 'g) gocron \<Rightarrow> string \<Rightarrow> Handler \<Rightarrow> ('i, 'g) Scheduler \<Rightarrow> goerr option \<times> ('i, 'g) Scheduler" where
  "AddJob L name h s = (if entries s name \<noteq> None then (None, s) else addJobLocked L name h s)"

definition ForceAddJob :: "('i, 'g) gocron \<Rightarrow> string \<Rightarrow> Handler \<Rightarrow> ('i, 'g) Scheduler \<Rightarrow> goerr option \<times> ('i, 'g) Scheduler" where
  "ForceAddJob L name h s =
     (case addJobLocked L name h s of
        (Some e, s1) \<Rightarrow> (Some e, s1)
      | (None, s1) \<Rightarrow>
          (case entries s name of
             None \<Rightarrow> (None, s1)
           | Some old \<Rightarrow> (None, s1\<lparr>sched := snd (g_RemoveJob L old (sched s1))\<rparr>)))"

definition RemoveJob :: "('i, 'g) gocron \<Rightarrow> string \<Rightarrow> ('i, 'g) Scheduler \<Rightarrow> goerr option \<times> ('i, 'g) Scheduler" where
  "RemoveJob L name s =
     (case entries s name of
        None \<Rightarrow> (Some (ErrNew (''no job with id '' @ fmt_q name)), s)
      | Some j \<Rightarrow>
          (case g_RemoveJob L j (sched s) of
             (Some e, g1) \<Rightarrow> (Some (ErrWrapf (''RemoveJob '' @ fmt_q name @ '': '') e), s\<lparr>sched := g1\<rparr>)
           | (None, g1) \<Rightarrow> (None, s\<lparr>sched := g1, entries := (entries s)(name := None)\<rparr>)))"

text \<open>\<open>nextRun\<close> is \<^term>\<open>None\<close> for a job without a next time.\<close>

definition ListJobs :: "('i \<Rightarrow> int option) \<Rightarrow> ('i, 'g) Scheduler \<Rightarrow> (string \<rightharpoonup> int)" where
  "ListJobs nextRun s name = (case entries s name of None \<Rightarrow> None | Some j \<Rightarrow> nextRun j)"

section \<open>Running a job\<close>

text \<open>
  A run of the job: it returns an error or not, or panics, on the world \<open>'s\<close>; \<open>elapsed\<close> is how long it took.  The state carries the reports.
\<close>

definition overrun :: "(int \<Rightarrow> string) \<Rightarrow> string \<Rightarrow> int \<Rightarrow> int \<Rightarrow> 'd perr" where
  "overrun dur name elapsed mx = Opaque (ErrNew (''job '' @ name @ '' exceeded max execute time: elapsed '' @ dur elapsed @ '', max '' @ dur mx))"

definition wrapTask :: "(int \<Rightarrow> string) \<Rightarrow> stack \<Rightarrow> string \<Rightarrow> string \<Rightarrow> Handler \<Rightarrow> int \<Rightarrow> ('s \<Rightarrow> ('d panic_value + 'd perr option) \<times> 's) \<Rightarrow>
    's \<times> 'd perr list \<Rightarrow> 's \<times> 'd perr list" where
  "wrapTask dur st dump name h elapsed job w =
     (let r = job (fst w);
          after = (case fst r of
                     Inl _ \<Rightarrow> []
                   | Inr err \<Rightarrow> (case err of None \<Rightarrow> [] | Some e \<Rightarrow> [e]) @
                       (if elapsed > MaxExecuteTime h then [overrun dur name elapsed (MaxExecuteTime h)] else []));
          w1 = SafeFunc st dump (\<lambda>s. (case fst r of Inl p \<Rightarrow> Some p | Inr _ \<Rightarrow> None, snd r)) w
      in (fst w1, snd w1 @ after))"

section \<open>Sequences of calls\<close>

text \<open>The lock makes the calls of all goroutines a sequence.\<close>

datatype job_op = OpAdd string Handler | OpForce string Handler | OpRemove string | OpStart

fun job_step :: "('i, 'g) gocron \<Rightarrow> job_op \<Rightarrow> ('i, 'g) Scheduler \<Rightarrow> ('i, 'g) Scheduler" where
  "job_step L (OpAdd n h) s = snd (AddJob L n h s)"
| "job_step L (OpForce n h) s = snd (ForceAddJob L n h s)"
| "job_step L (OpRemove n) s = snd (RemoveJob L n s)"
| "job_step L OpStart s = Start L s"

definition job_run :: "('i, 'g) gocron \<Rightarrow> job_op list \<Rightarrow> ('i, 'g) Scheduler \<Rightarrow> ('i, 'g) Scheduler" where
  "job_run L ops s = foldl (\<lambda>s p. job_step L p s) s ops"

definition sched_ok :: "('i, 'g) gocron \<Rightarrow> ('i, 'g) Scheduler \<Rightarrow> bool" where
  "sched_ok L s \<longleftrightarrow> ran (entries s) \<subseteq> g_jobs L (sched s) \<and> inj_on (entries s) (dom (entries s))"

definition removes_all :: "('i, 'g) gocron \<Rightarrow> bool" where
  "removes_all L \<longleftrightarrow> (\<forall>i g. i \<in> g_jobs L g \<longrightarrow> fst (g_RemoveJob L i g) = None)"

lemma lawsD:
  assumes "gocron_laws L"
  shows "NewJob L spec name g = (Inr i, g') \<Longrightarrow> i \<notin> g_jobs L g \<and> g_jobs L g' = insert i (g_jobs L g)"
    "NewJob L spec name g = (Inl e, g') \<Longrightarrow> g_jobs L g' = g_jobs L g"
    "g_RemoveJob L i g = (None, g') \<Longrightarrow> g_jobs L g' = g_jobs L g - {i}"
    "g_RemoveJob L i g = (Some e, g') \<Longrightarrow> g_jobs L g' = g_jobs L g"
    "g_jobs L (g_Start L g) = g_jobs L g"
  subgoal using assms unfolding gocron_laws_def by simp
  subgoal using assms unfolding gocron_laws_def by simp
  subgoal using assms unfolding gocron_laws_def by simp
  subgoal using assms unfolding gocron_laws_def by simp
  subgoal using assms unfolding gocron_laws_def by simp
  done

lemma ran_upd: "ran (m(k \<mapsto> v)) = insert v {x. \<exists>j. j \<noteq> k \<and> m j = Some x}"
  by (auto simp: ran_def)

lemma ran_del: "ran (m(k := None)) = {x. \<exists>j. j \<noteq> k \<and> m j = Some x}"
  by (auto simp: ran_def)

lemma inj_entries: "inj_on m (dom m) \<longleftrightarrow> (\<forall>j k x. m j = Some x \<and> m k = Some x \<longrightarrow> j = k)"
  by (auto simp: inj_on_def dom_def)

lemma others_ran: "inj_on m (dom m) \<Longrightarrow> m k = Some v \<Longrightarrow> {x. \<exists>j. j \<noteq> k \<and> m j = Some x} = ran m - {v}"
  unfolding inj_entries ran_def by (auto intro: exI) (metis option.inject)

lemma others_none: "m k = None \<Longrightarrow> {x. \<exists>j. j \<noteq> k \<and> m j = Some x} = ran m"
  unfolding ran_def by (auto) (metis option.distinct(1))

lemma inj_upd: "inj_on m (dom m) \<Longrightarrow> v \<notin> ran m \<Longrightarrow> inj_on (m(k \<mapsto> v)) (dom (m(k \<mapsto> v)))"
  unfolding inj_entries ran_def by auto

lemma inj_del: "inj_on m (dom m) \<Longrightarrow> inj_on (m(k := None)) (dom (m(k := None)))"
  unfolding inj_entries by auto

lemma add_ok:
  assumes "gocron_laws L" "sched_ok L s" "addJobLocked L n h s = (e, s1)"
  shows "sched_ok L s1 \<and> (g_jobs L (sched s) = ran (entries s) \<longrightarrow>
    (case e of Some _ \<Rightarrow> g_jobs L (sched s1) = ran (entries s1) \<and> entries s1 = entries s
     | None \<Rightarrow> \<exists>j. j \<notin> ran (entries s) \<and> entries s1 = (entries s)(n \<mapsto> j) \<and> g_jobs L (sched s1) = insert j (ran (entries s))))"
proof -
  have inj: "inj_on (entries s) (dom (entries s))" "ran (entries s) \<subseteq> g_jobs L (sched s)" using assms(2) by (simp_all add: sched_ok_def)
  obtain r g1 where r: "NewJob L (Spec h) n (sched s) = (r, g1)" by force
  show ?thesis
  proof (cases r)
    case (Inl x)
    then show ?thesis using assms(3) r inj lawsD(2) [OF assms(1)] by (auto simp: addJobLocked_def sched_ok_def)
  next
    case (Inr j)
    have l: "j \<notin> g_jobs L (sched s)" "g_jobs L g1 = insert j (g_jobs L (sched s))" using lawsD(1) [OF assms(1)] r Inr by blast+
    have s1: "e = None" "s1 = s\<lparr>sched := g1, entries := (entries s)(n \<mapsto> j)\<rparr>" using assms(3) r Inr by (auto simp: addJobLocked_def)
    have "ran (entries s1) \<subseteq> g_jobs L (sched s1)" using inj(2) l s1(2) by (auto simp: ran_def)
    moreover have "inj_on (entries s1) (dom (entries s1))" using inj_upd [OF inj(1), of j n] inj(2) l(1) s1(2) by auto
    ultimately show ?thesis using s1 l inj(2) by (auto simp: sched_ok_def)
  qed
qed

lemma job_step_ok:
  assumes "gocron_laws L" "sched_ok L s"
  shows "sched_ok L (job_step L p s) \<and>
    (removes_all L \<and> g_jobs L (sched s) = ran (entries s) \<longrightarrow> g_jobs L (sched (job_step L p s)) = ran (entries (job_step L p s)))"
proof (cases p)
  case (OpAdd n h)
  obtain e s1 where a: "addJobLocked L n h s = (e, s1)" by force
  show ?thesis
  proof (cases "entries s n")
    case None
    then have "{x. \<exists>j. j \<noteq> n \<and> entries s j = Some x} = ran (entries s)" by (rule others_none)
    then show ?thesis using OpAdd None a add_ok [OF assms a] by (cases e) (auto simp: AddJob_def ran_upd)
  qed (use OpAdd assms(2) in \<open>auto simp: AddJob_def\<close>)
next
  case (OpForce n h)
  have inj: "inj_on (entries s) (dom (entries s))" using assms(2) by (simp add: sched_ok_def)
  obtain e s1 where a: "addJobLocked L n h s = (e, s1)" by force
  note ok = add_ok [OF assms a]
  show ?thesis
  proof (cases "e = None \<and> entries s n \<noteq> None")
    case True
    then obtain old where old: "e = None" "entries s n = Some old" by blast
    obtain r g1 where r: "g_RemoveJob L old (sched s1) = (r, g1)" by force
    obtain j where j: "entries s1 = (entries s)(n \<mapsto> j)" "j \<in> g_jobs L (sched s1)" "j \<notin> g_jobs L (sched s)"
      using a old(1) lawsD(1) [OF assms(1)] by (auto simp: addJobLocked_def split: prod.splits sum.splits)
    have old_in: "old \<in> g_jobs L (sched s)" using assms(2) old(2) by (auto simp: sched_ok_def ran_def)
    have "old \<notin> ran (entries s1)" using j old(2) old_in inj by (auto simp: inj_entries ran_def split: if_splits)
    moreover have "g_jobs L g1 = g_jobs L (sched s1) - {old} \<or> g_jobs L g1 = g_jobs L (sched s1)"
      using r lawsD(3,4) [OF assms(1)] by (cases r) auto
    ultimately have "sched_ok L (s1\<lparr>sched := g1\<rparr>)" using ok by (auto simp: sched_ok_def)
    moreover have "g_jobs L g1 = ran (entries s1)" if "removes_all L" "g_jobs L (sched s) = ran (entries s)"
    proof -
      have js: "g_jobs L (sched s1) = insert j (ran (entries s))"
        using ok old(1) that(2) j(1) by auto (metis fun_upd_same option.inject)+
      then have "r = None" using that(1) r old_in that(2) unfolding removes_all_def by (metis fst_conv insertCI)
      then have "g_jobs L g1 = insert j (ran (entries s)) - {old}" using lawsD(3) [OF assms(1)] r js by auto
      moreover have "j \<noteq> old" using j(3) old_in by auto
      ultimately show ?thesis using j(1) others_ran [OF inj old(2)] by (auto simp: ran_upd)
    qed
    ultimately show ?thesis using OpForce a old r by (auto simp: ForceAddJob_def)
  next
    case False
    show ?thesis
    proof (cases e)
      case None
      then have "entries s n = None" using False by simp
      then have "{x. \<exists>j. j \<noteq> n \<and> entries s j = Some x} = ran (entries s)" by (rule others_none)
      then show ?thesis using OpForce a None \<open>entries s n = None\<close> ok by (auto simp: ForceAddJob_def ran_upd)
    next
      case (Some x)
      then show ?thesis using OpForce a ok by (auto simp: ForceAddJob_def)
    qed
  qed
next
  case (OpRemove n)
  have inj: "inj_on (entries s) (dom (entries s))" "ran (entries s) \<subseteq> g_jobs L (sched s)" using assms(2) by (simp_all add: sched_ok_def)
  show ?thesis
  proof (cases "entries s n")
    case None
    then show ?thesis using OpRemove assms(2) by (simp add: RemoveJob_def)
  next
    case (Some j)
    obtain r g1 where r: "g_RemoveJob L j (sched s) = (r, g1)" by force
    show ?thesis
    proof (cases r)
      case None
      then have "g_jobs L g1 = g_jobs L (sched s) - {j}" using lawsD(3) [OF assms(1)] r by blast
      moreover have "ran ((entries s)(n := None)) = ran (entries s) - {j}" using others_ran [OF inj(1) Some] by (simp add: ran_del)
      moreover have "inj_on ((entries s)(n := None)) (dom ((entries s)(n := None)))" by (rule inj_del [OF inj(1)])
      ultimately show ?thesis using OpRemove Some r None inj(2) by (auto simp: RemoveJob_def sched_ok_def)
    next
      case S: (Some e)
      then have "g_jobs L g1 = g_jobs L (sched s)" using lawsD(4) [OF assms(1)] r by blast
      then show ?thesis using OpRemove Some r S inj by (auto simp: RemoveJob_def sched_ok_def)
    qed
  qed
next
  case OpStart
  then show ?thesis using assms lawsD(5) [OF assms(1)] by (auto simp: Start_def sched_ok_def)
qed

section \<open>Properties\<close>

text \<open>
  C25. Every name has its own scheduled job: after any sequence of \<^verbatim>\<open>AddJob\<close>, \<^verbatim>\<open>ForceAddJob\<close>, \<^verbatim>\<open>RemoveJob\<close> and \<^verbatim>\<open>Start\<close>, failed ones included, the names stand for different jobs that are scheduled; and if the library always removes a job that is scheduled, nothing else is
  scheduled, so that no replaced or removed job goes on running.
\<close>

theorem scheduler_jobs:
  assumes "gocron_laws L" "g_jobs L g = {}" "NewScheduler (Inr g) = Inr s0" "s = job_run L ops s0"
  shows "ran (entries s) \<subseteq> g_jobs L (sched s) \<and> inj_on (entries s) (dom (entries s)) \<and>
    (removes_all L \<longrightarrow> g_jobs L (sched s) = ran (entries s))"
proof -
  have s0: "sched_ok L s0" "g_jobs L (sched s0) = ran (entries s0)" using assms(2,3) by (auto simp: NewScheduler_def sched_ok_def)
  have "sched_ok L (job_run L ops t) \<and> (removes_all L \<longrightarrow> g_jobs L (sched (job_run L ops t)) = ran (entries (job_run L ops t)))"
    if "sched_ok L t" "removes_all L \<longrightarrow> g_jobs L (sched t) = ran (entries t)" for t
    using that
  proof (induction ops arbitrary: t)
    case (Cons p ops)
    from Cons.IH [of "job_step L p t"] job_step_ok [OF assms(1) Cons.prems(1), of p] Cons.prems(2) show ?case by (simp add: job_run_def)
  qed (simp add: job_run_def)
  from this [of s0] s0 show ?thesis using assms(4) by (simp add: sched_ok_def)
qed

text \<open>
  A replaced job can go on running unseen: when the library fails to remove the old job, \<^verbatim>\<open>ForceAddJob\<close> drops the error and returns none, the old job stays scheduled and no name leads to it any more.
\<close>

theorem replaced_job_leaks:
  assumes "gocron_laws L" "sched_ok L s" "entries s n = Some old" "ForceAddJob L n h s = (None, s1)"
    "\<forall>g. fst (g_RemoveJob L old g) \<noteq> None"
  shows "old \<in> g_jobs L (sched s1) \<and> old \<notin> ran (entries s1)"
proof -
  obtain e s2 where a: "addJobLocked L n h s = (e, s2)" by force
  have e: "e = None" "s1 = s2\<lparr>sched := snd (g_RemoveJob L old (sched s2))\<rparr>" using assms(3,4) a by (auto simp: ForceAddJob_def split: option.splits)
  obtain j g1 where j: "NewJob L (Spec h) n (sched s) = (Inr j, g1)" "s2 = s\<lparr>sched := g1, entries := (entries s)(n \<mapsto> j)\<rparr>"
    using a e(1) by (auto simp: addJobLocked_def split: prod.splits sum.splits)
  have l: "j \<notin> g_jobs L (sched s)" "g_jobs L g1 = insert j (g_jobs L (sched s))" using lawsD(1) [OF assms(1) j(1)] by blast+
  have old: "old \<in> g_jobs L (sched s)" using assms(2,3) by (auto simp: sched_ok_def ran_def)
  obtain x g2 where "g_RemoveJob L old g1 = (Some x, g2)" using assms(5) by (metis not_None_eq prod.collapse)
  then have "g_jobs L (sched s1) = g_jobs L g1" using lawsD(4) [OF assms(1)] e(2) j(2) by auto
  moreover have "old \<notin> ran (entries s1)" using e(2) j(2) l(1) old assms(2,3) by (auto simp: sched_ok_def inj_entries ran_def split: if_splits)
  ultimately show ?thesis using l(2) old by simp
qed

text \<open>
  Everything that goes wrong in a run is reported: a run of a job that panics is reported once, with the recovered value; one that returns is reported once for its error and once if it took longer than allowed, and a run without either is not reported; the panic does not reach the
  scheduler.
\<close>

theorem task_reports:
  "snd (wrapTask dur st dump n h elapsed job (s, reps)) =
     reps @ (case fst (job s) of
       Inl p \<Rightarrow> [recovered_error st dump p]
     | Inr err \<Rightarrow> (case err of None \<Rightarrow> [] | Some e \<Rightarrow> [e]) @ (if elapsed > MaxExecuteTime h then [overrun dur n elapsed (MaxExecuteTime h)] else [])) \<and>
   fst (wrapTask dur st dump n h elapsed job (s, reps)) = snd (job s)"
  by (auto simp: wrapTask_def SafeFunc_def Let_def split: sum.splits)

section \<open>Witnesses\<close>

text \<open>A library that numbers its jobs and, for the second witness, refuses to remove any.\<close>

definition demo_gocron :: "bool \<Rightarrow> (nat, nat \<times> nat set) gocron" where
  "demo_gocron refuse = \<lparr>NewJob = (\<lambda>_ _ g. (Inr (fst g), (Suc (fst g), insert (fst g) (snd g)))),
     g_RemoveJob = (\<lambda>i g. if refuse then (Some (ErrNew ''no''), g) else (None, (fst g, snd g - {i}))), g_Start = (\<lambda>g. g), g_Shutdown = (\<lambda>g. (None, g)), g_jobs = (\<lambda>g. {i \<in> snd g. i < fst g})\<rparr>"

lemma demo_gocron_laws: "gocron_laws (demo_gocron refuse)"
  by (auto simp: gocron_laws_def demo_gocron_def split: if_splits)

definition demo_job :: Handler where
  "demo_job = \<lparr>Spec = ''* * * * *'', MaxExecuteTime = 5\<rparr>"

theorem scheduler_jobs_witness:
  "g_jobs (demo_gocron False) (sched (job_run (demo_gocron False) [OpAdd ''a'' demo_job, OpForce ''a'' demo_job] \<lparr>sched = (0, {}), entries = Map.empty\<rparr>)) = {1}"
proof -
  let ?s = "job_run (demo_gocron False) [OpAdd ''a'' demo_job, OpForce ''a'' demo_job] \<lparr>sched = (0, {}), entries = Map.empty\<rparr>"
  have e: "g_jobs (demo_gocron False) (0, {}) = {}" by (simp add: demo_gocron_def)
  have n: "NewScheduler (Inr (0, {})) = Inr \<lparr>sched = (0 :: nat, {} :: nat set), entries = Map.empty\<rparr>" by (simp add: NewScheduler_def)
  have ents: "entries ?s = [''a'' \<mapsto> 1]"
    by (simp add: job_run_def AddJob_def ForceAddJob_def addJobLocked_def demo_gocron_def)
  have "removes_all (demo_gocron False)" by (simp add: removes_all_def demo_gocron_def)
  then show ?thesis using scheduler_jobs [OF demo_gocron_laws e n HOL.refl, of "[OpAdd ''a'' demo_job, OpForce ''a'' demo_job]"] ents by (simp add: ran_def)
qed

theorem replaced_job_leaks_witness:
  "0 \<in> g_jobs (demo_gocron True) (sched (snd (ForceAddJob (demo_gocron True) ''a'' demo_job \<lparr>sched = (1, {0}), entries = [''a'' \<mapsto> 0]\<rparr>)))"
proof -
  let ?s = "\<lparr>sched = (1 :: nat, {0 :: nat}), entries = [''a'' \<mapsto> 0 :: nat]\<rparr>"
  have ok: "sched_ok (demo_gocron True) ?s" by (auto simp: sched_ok_def demo_gocron_def inj_on_def)
  have f: "ForceAddJob (demo_gocron True) ''a'' demo_job ?s = (None, snd (ForceAddJob (demo_gocron True) ''a'' demo_job ?s))"
    by (simp add: ForceAddJob_def addJobLocked_def demo_gocron_def)
  show ?thesis using replaced_job_leaks [OF demo_gocron_laws ok _ f] by (simp add: demo_gocron_def)
qed

end
