(* ===== verification/Logging.thy ===== *)
theory Logging
  imports Go_Prelude
begin

text \<open>
  Structured logging, \<^verbatim>\<open>log/\<close>: the settings, the two handlers (the one over zap and those of \<^verbatim>\<open>log/slog\<close>), the wrapper with its fields, and the global logger; and the log hooks of the Redis and Mongo
  clients (\<^verbatim>\<open>dao/redis/redisLog.go\<close>, \<^verbatim>\<open>dao/mongo/mongoLog.go\<close>).  An entry is modelled up to its layout: level, message, place and fields.
\<close>

section \<open>Levels and settings\<close>

text \<open>The numbers of \<^verbatim>\<open>log/slog\<close> and of zap.\<close>

definition LevelDebug :: int where "LevelDebug = -4"
definition LevelInfo :: int where "LevelInfo = 0"
definition LevelWarn :: int where "LevelWarn = 4"
definition LevelError :: int where "LevelError = 8"

lemmas slog_levels = LevelDebug_def LevelInfo_def LevelWarn_def LevelError_def

definition getSlogLevel :: "string \<Rightarrow> int" where
  "getSlogLevel l =
     (if ToLower l = ''debug'' then LevelDebug else if ToLower l = ''warn'' then LevelWarn else if ToLower l = ''error'' then LevelError else LevelInfo)"

definition getZapLevel :: "string \<Rightarrow> int" where
  "getZapLevel l = (if ToLower l = ''debug'' then -1 else if ToLower l = ''warn'' then 1 else if ToLower l = ''error'' then 2 else 0)"

definition getZapLevelFromSlog :: "int \<Rightarrow> int" where
  "getZapLevelFromSlog l = (if l = LevelDebug then -1 else if l = LevelWarn then 1 else if l = LevelError then 2 else 0)"

record log_Config =
  lc_Driver :: string
  lc_Level :: string
  lc_Path :: string
  lc_FileName :: string
  lc_FileSuffix :: string
  lc_MaxAge :: int
  lc_MaxBackups :: int
  lc_MaxSize :: int
  lc_Compress :: bool
  lc_ShowFile :: bool
  lc_Format :: string

definition default_text :: "string \<Rightarrow> string \<Rightarrow> string" where
  "default_text d s = (if s = [] then d else s)"

definition log_handleConfig :: "log_Config \<Rightarrow> log_Config" where
  "log_handleConfig c =
     c\<lparr>lc_Driver := default_text ''zap'' (lc_Driver c), lc_Level := default_text ''debug'' (lc_Level c), lc_Path := default_text ''./logs/'' (lc_Path c),
       lc_FileSuffix := default_text ''.logger'' (lc_FileSuffix c), lc_FileName := default_text ''runtime'' (lc_FileName c),
       lc_MaxAge := (if lc_MaxAge c = 0 then 30 else if lc_MaxAge c < 0 then 0 else lc_MaxAge c),
       lc_MaxSize := (if lc_MaxSize c = 0 then 10 else lc_MaxSize c), lc_Format := default_text ''json'' (lc_Format c)\<rparr>"

section \<open>Attributes\<close>

text \<open>
  A value with the kinds that matter: nothing, a duration, a text, an attribute used as a value, anything else.  The arguments of a call are keys and values in turn; a value without a key gets the key
  \<^verbatim>\<open>!BADKEY\<close> (\<^verbatim>\<open>slog\<close>, \<^verbatim>\<open>argsToAttr\<close>).
\<close>

datatype 'v aval = VNil | VDur int | VStr string | VAttr string "'v aval" | VAny 'v

type_synonym 'v attr = "string \<times> 'v aval"

datatype 'v larg = ArgNil | ArgDur int | ArgStr string | ArgAttr string "'v aval" | ArgAny 'v

fun arg_value :: "'v larg \<Rightarrow> 'v aval" where
  "arg_value ArgNil = VNil"
| "arg_value (ArgDur d) = VDur d"
| "arg_value (ArgStr s) = VStr s"
| "arg_value (ArgAttr k v) = VAttr k v"
| "arg_value (ArgAny v) = VAny v"

definition badKey :: string where "badKey = ''!BADKEY''"

fun args_attrs :: "'v larg list \<Rightarrow> 'v attr list" where
  "args_attrs [] = []"
| "args_attrs [ArgStr s] = [(badKey, VStr s)]"
| "args_attrs (ArgStr k # a # as) = (k, arg_value a) # args_attrs as"
| "args_attrs (ArgAttr k v # as) = (k, v) # args_attrs as"
| "args_attrs (ArgNil # as) = (badKey, VNil) # args_attrs as"
| "args_attrs (ArgDur d # as) = (badKey, VDur d) # args_attrs as"
| "args_attrs (ArgAny v # as) = (badKey, VAny v) # args_attrs as"

text \<open>A field of an entry; a duration is written as its seconds.\<close>

datatype 'v field_value = FSeconds int | FValue "'v aval"

definition duration_field :: "'v attr \<Rightarrow> string \<times> 'v field_value" where
  "duration_field a = (fst a, case snd a of VDur d \<Rightarrow> FSeconds d | v \<Rightarrow> FValue v)"

section \<open>Handlers\<close>

record 'v slog_record =
  sr_level :: int
  sr_msg :: string
  sr_pc :: nat
  sr_attrs :: "'v attr list"

record 'v entry =
  en_level :: int
  en_msg :: string
  en_source :: bool
  en_fields :: "(string \<times> 'v field_value) list"

record 'v ZapHandler =
  core_level :: int
  zap_cfg :: log_Config
  zap_attrs :: "'v attr list"

definition zap_Enabled :: "'v ZapHandler \<Rightarrow> int \<Rightarrow> bool" where
  "zap_Enabled h l \<longleftrightarrow> core_level h \<le> getZapLevelFromSlog l"

definition zap_Handle :: "'v ZapHandler \<Rightarrow> 'v slog_record \<Rightarrow> 'v entry" where
  "zap_Handle h r =
     \<lparr>en_level = getZapLevelFromSlog (sr_level r), en_msg = sr_msg r, en_source = (lc_ShowFile (zap_cfg h) \<and> sr_pc r \<noteq> 0),
      en_fields = map duration_field (zap_attrs h) @ map duration_field (sr_attrs r)\<rparr>"

definition zap_WithAttrs :: "'v attr list \<Rightarrow> 'v ZapHandler \<Rightarrow> 'v ZapHandler" where
  "zap_WithAttrs as h = h\<lparr>zap_attrs := zap_attrs h @ as\<rparr>"

definition zap_WithGroup :: "string \<Rightarrow> 'v ZapHandler \<Rightarrow> 'v ZapHandler" where
  "zap_WithGroup name h = h"

text \<open>
  The handlers of \<^verbatim>\<open>log/slog\<close> with the options that \<^verbatim>\<open>NewLogger\<close> gives them: they write the attributes of the handler and of the record in order, each after \<open>replace_attr\<close>, and leave out one without key and
  value.
\<close>

record 'v std_handler =
  std_level :: int
  std_source :: bool
  std_attrs :: "'v attr list"

definition nameless :: "'v attr \<Rightarrow> bool" where
  "nameless a \<longleftrightarrow> fst a = [] \<and> snd a = VNil"

definition replace_attr :: "'v attr \<Rightarrow> string \<times> 'v field_value" where
  "replace_attr a = duration_field ((if fst a = ''time'' then ''time'' else fst a), snd a)"

definition std_Handle :: "'v std_handler \<Rightarrow> 'v slog_record \<Rightarrow> 'v entry" where
  "std_Handle h r =
     \<lparr>en_level = sr_level r, en_msg = sr_msg r, en_source = std_source h,
      en_fields = map replace_attr (filter (\<lambda>a. \<not> nameless a) (std_attrs h @ sr_attrs r))\<rparr>"

datatype 'v slog_handler = HZap "'v ZapHandler" | HStd "'v std_handler"

fun Enabled :: "'v slog_handler \<Rightarrow> int \<Rightarrow> bool" where
  "Enabled (HZap h) l = zap_Enabled h l"
| "Enabled (HStd h) l = (std_level h \<le> l)"

fun Handle :: "'v slog_handler \<Rightarrow> 'v slog_record \<Rightarrow> 'v entry" where
  "Handle (HZap h) r = zap_Handle h r"
| "Handle (HStd h) r = std_Handle h r"

fun WithAttrs :: "'v attr list \<Rightarrow> 'v slog_handler \<Rightarrow> 'v slog_handler" where
  "WithAttrs as (HZap h) = HZap (zap_WithAttrs as h)"
| "WithAttrs as (HStd h) = HStd (h\<lparr>std_attrs := std_attrs h @ as\<rparr>)"

section \<open>The wrapper\<close>

text \<open>\<open>fileWriter\<close> says whether the logger owns the file and closes it; \<open>has_writer\<close> whether it has an output for raw text.\<close>

record ('v, 'c) SlogWrapper =
  inner :: "'v slog_handler"
  w_ctx :: 'c
  has_writer :: bool
  fileWriter :: bool

definition With :: "'v larg list \<Rightarrow> 'v slog_handler \<Rightarrow> 'v slog_handler" where
  "With args h = (if args = [] then h else WithAttrs (args_attrs args) h)"

definition wrapper_log :: "('v, 'c) SlogWrapper \<Rightarrow> nat \<Rightarrow> int \<Rightarrow> string \<Rightarrow> 'v larg list \<Rightarrow> 'v entry option" where
  "wrapper_log w pc level msg args =
     (if \<not> Enabled (inner w) level then None
      else Some (Handle (inner w) \<lparr>sr_level = level, sr_msg = msg, sr_pc = pc, sr_attrs = args_attrs args\<rparr>))"

definition log_Debug :: "('v, 'c) SlogWrapper \<Rightarrow> nat \<Rightarrow> string \<Rightarrow> 'v larg list \<Rightarrow> 'v entry option" where
  "log_Debug w pc = wrapper_log w pc LevelDebug"

definition log_Info :: "('v, 'c) SlogWrapper \<Rightarrow> nat \<Rightarrow> string \<Rightarrow> 'v larg list \<Rightarrow> 'v entry option" where
  "log_Info w pc = wrapper_log w pc LevelInfo"

definition log_Warn :: "('v, 'c) SlogWrapper \<Rightarrow> nat \<Rightarrow> string \<Rightarrow> 'v larg list \<Rightarrow> 'v entry option" where
  "log_Warn w pc = wrapper_log w pc LevelWarn"

definition log_Error :: "('v, 'c) SlogWrapper \<Rightarrow> nat \<Rightarrow> string \<Rightarrow> 'v larg list \<Rightarrow> 'v entry option" where
  "log_Error w pc = wrapper_log w pc LevelError"

definition Raw :: "('v, 'c) SlogWrapper \<Rightarrow> string \<Rightarrow> string list" where
  "Raw w data = (if has_writer w then [data @ [CHR 0x0A]] else [])"

definition WithField :: "string \<Rightarrow> 'v larg \<Rightarrow> ('v, 'c) SlogWrapper \<Rightarrow> ('v, 'c) SlogWrapper" where
  "WithField key val w = \<lparr>inner = With [ArgStr key, val] (inner w), w_ctx = w_ctx w, has_writer = has_writer w, fileWriter = False\<rparr>"

text \<open>The fields of a map come in the order in which the map is iterated.\<close>

fun new_fields :: "(string \<times> 'v larg) list \<Rightarrow> 'v larg list" where
  "new_fields [] = []"
| "new_fields ((k, v) # kvs) = ArgStr k # v # new_fields kvs"

definition WithFields :: "(string \<times> 'v larg) list \<Rightarrow> ('v, 'c) SlogWrapper \<Rightarrow> ('v, 'c) SlogWrapper" where
  "WithFields kvs w =
     (if kvs = [] then w else \<lparr>inner = With (new_fields kvs) (inner w), w_ctx = w_ctx w, has_writer = has_writer w, fileWriter = False\<rparr>)"

definition wrapper_WithContext :: "'c \<Rightarrow> ('v, 'c) SlogWrapper \<Rightarrow> ('v, 'c) SlogWrapper" where
  "wrapper_WithContext ctx w = \<lparr>inner = inner w, w_ctx = ctx, has_writer = has_writer w, fileWriter = False\<rparr>"

definition wrapper_Close :: "goerr option \<Rightarrow> ('v, 'c) SlogWrapper \<Rightarrow> goerr option" where
  "wrapper_Close closed w = (if fileWriter w then closed else None)"

text \<open>The rolling file: its name, size, backups, age, and whether old ones are compressed.\<close>

record lumberjack =
  lj_name :: string
  lj_size :: int
  lj_backups :: int
  lj_age :: int
  lj_compress :: bool

definition NewLogger :: "(string \<Rightarrow> string \<Rightarrow> string) \<Rightarrow> 'c \<Rightarrow> log_Config \<Rightarrow> ('v, 'c) SlogWrapper \<times> lumberjack" where
  "NewLogger join background cfg =
     (let c = log_handleConfig cfg
      in (\<lparr>inner = (if lc_Driver c = ''zap'' then HZap \<lparr>core_level = getZapLevel (lc_Level c), zap_cfg = c, zap_attrs = []\<rparr>
                    else HStd \<lparr>std_level = getSlogLevel (lc_Level c), std_source = lc_ShowFile c, std_attrs = []\<rparr>),
           w_ctx = background, has_writer = True, fileWriter = True\<rparr>,
          \<lparr>lj_name = join (lc_Path c) (lc_FileName c @ lc_FileSuffix c), lj_size = lc_MaxSize c, lj_backups = lc_MaxBackups c, lj_age = lc_MaxAge c,
           lj_compress = lc_Compress c\<rparr>))"

section \<open>The global logger\<close>

text \<open>\<open>onceDone\<close> is the state of \<^verbatim>\<open>defaultOnce\<close>.  Using a logger that is \<^verbatim>\<open>nil\<close> panics: the result \<^term>\<open>None\<close>.\<close>

record 'l log_globals =
  globalLogger :: "'l option"
  onceDone :: bool

definition SetGlobalLogger :: "'l option \<Rightarrow> 'l log_globals \<Rightarrow> 'l log_globals" where
  "SetGlobalLogger l g = g\<lparr>globalLogger := l\<rparr>"

definition current_logger :: "'l \<Rightarrow> 'l log_globals \<Rightarrow> 'l option \<times> 'l log_globals" where
  "current_logger mk g =
     (let g1 = (if globalLogger g = None \<and> \<not> onceDone g then g\<lparr>globalLogger := Some mk, onceDone := True\<rparr> else g)
      in (globalLogger g1, g1))"

definition empty_log_Config :: log_Config where
  "empty_log_Config = \<lparr>lc_Driver = [], lc_Level = [], lc_Path = [], lc_FileName = [], lc_FileSuffix = [], lc_MaxAge = 0, lc_MaxBackups = 0, lc_MaxSize = 0,
     lc_Compress = False, lc_ShowFile = False, lc_Format = []\<rparr>"

definition WithContext :: "(string \<Rightarrow> string \<Rightarrow> string) \<Rightarrow> 'c \<Rightarrow> ('c \<Rightarrow> 'v larg option) \<Rightarrow> 'c \<Rightarrow> ('v, 'c) SlogWrapper log_globals \<Rightarrow>
    ('v, 'c) SlogWrapper option \<times> ('v, 'c) SlogWrapper log_globals" where
  "WithContext join background requestID ctx g =
     (case current_logger (fst (NewLogger join background empty_log_Config)) g of (l, g1) \<Rightarrow>
        (map_option (\<lambda>w. WithFields (case requestID ctx of None \<Rightarrow> [] | Some v \<Rightarrow> [(''request_id'', v)]) (wrapper_WithContext ctx w)) l, g1))"

section \<open>Log hooks of the database clients\<close>

text \<open>
  A line of a hook: level, message, fields.  The hook of Redis runs the next one and returns its error; \<open>parts\<close> are the arguments of the command as text.  A command without arguments has no element to drop, the slice expression panics:
  the result \<^term>\<open>None\<close>, after the command has run.
\<close>

datatype hook_value = HStr string | HInt int | HList "string list" | HErr goerr

record hook_line =
  hl_level :: int
  hl_msg :: string
  hl_fields :: "(string \<times> hook_value) list"

definition hook_result :: "string \<Rightarrow> string \<Rightarrow> (string \<times> hook_value) list \<Rightarrow> goerr option \<Rightarrow> hook_line" where
  "hook_result ok failed fs err =
     (case err of
        None \<Rightarrow> \<lparr>hl_level = LevelInfo, hl_msg = ok, hl_fields = fs\<rparr>
      | Some e \<Rightarrow> \<lparr>hl_level = LevelError, hl_msg = failed, hl_fields = fs @ [(''error'', HErr e)]\<rparr>)"

definition DialHook :: "int \<Rightarrow> ('w \<Rightarrow> (goerr + 'n) \<times> 'w) \<Rightarrow> string \<Rightarrow> string \<Rightarrow> 'w \<times> hook_line list \<Rightarrow> (goerr + 'n) \<times> 'w \<times> hook_line list" where
  "DialHook ms dial network addr st =
     (case dial (fst st) of (r, w1) \<Rightarrow>
        (r, w1, snd st @ [hook_result ''Redis Dial'' ''Redis Dial failed''
            [(''event'', HStr ''redis_dial''), (''network'', HStr network), (''addr'', HStr addr), (''cost_ms'', HInt ms)]
            (case r of Inl e \<Rightarrow> Some e | Inr _ \<Rightarrow> None)]))"

definition ProcessHook :: "int \<Rightarrow> ('w \<Rightarrow> goerr option \<times> 'w) \<Rightarrow> string \<Rightarrow> string list \<Rightarrow> 'w \<times> hook_line list \<Rightarrow> goerr option option \<times> 'w \<times> hook_line list" where
  "ProcessHook ms nxt cmd parts st =
     (case nxt (fst st) of (err, w1) \<Rightarrow>
        if parts = [] then (None, w1, snd st)
        else (Some err, w1, snd st @ [hook_result ''Redis command'' ''Redis command failed''
               [(''event'', HStr ''redis_cmd''), (''command'', HStr cmd), (''args'', HList (tl parts)), (''raw'', HStr (Join parts '' '')), (''cost_ms'', HInt ms)] err]))"

definition ProcessPipelineHook :: "int \<Rightarrow> ('w \<Rightarrow> goerr option \<times> 'w) \<Rightarrow> string list list \<Rightarrow> 'w \<times> hook_line list \<Rightarrow> goerr option option \<times> 'w \<times> hook_line list" where
  "ProcessPipelineHook ms nxt cmds st =
     (case nxt (fst st) of (err, w1) \<Rightarrow>
        (Some err, w1, snd st @ [hook_result ''Redis pipeline'' ''Redis pipeline failed''
           [(''event'', HStr ''redis_pipeline''), (''cmd_count'', HInt (int (length cmds))), (''commands'', HList (map (\<lambda>ps. Join ps '' '') cmds)), (''cost_ms'', HInt ms)] err]))"

text \<open>The monitor of the Mongo client; durations are nanoseconds.\<close>

definition commandStarted :: "string \<Rightarrow> string \<Rightarrow> int \<Rightarrow> string \<Rightarrow> hook_line" where
  "commandStarted cmd db request raw =
     \<lparr>hl_level = LevelInfo, hl_msg = ''Mongo command started'',
      hl_fields = [(''event'', HStr ''mongo_cmd_start''), (''command'', HStr cmd), (''database'', HStr db), (''request_id'', HInt request), (''raw_command'', HStr raw)]\<rparr>"

definition commandSucceeded :: "string \<Rightarrow> int \<Rightarrow> int \<Rightarrow> hook_line" where
  "commandSucceeded cmd request dur =
     \<lparr>hl_level = (if dur > 500 * 1000000 then LevelWarn else LevelInfo),
      hl_msg = (if dur > 500 * 1000000 then ''Mongo slow command'' else ''Mongo command succeeded''),
      hl_fields = [(''event'', HStr ''mongo_cmd_ok''), (''command'', HStr cmd), (''request_id'', HInt request), (''cost_ms'', HInt (tdiv dur 1000000))]\<rparr>"

definition commandFailed :: "string \<Rightarrow> int \<Rightarrow> int \<Rightarrow> string \<Rightarrow> hook_line" where
  "commandFailed cmd request dur failure =
     \<lparr>hl_level = LevelError, hl_msg = ''Mongo command failed'',
      hl_fields = [(''event'', HStr ''mongo_cmd_fail''), (''command'', HStr cmd), (''request_id'', HInt request), (''cost_ms'', HInt (tdiv dur 1000000)),
        (''error'', HStr failure)]\<rparr>"

section \<open>Deriving loggers\<close>

datatype ('v, 'c) log_op = OpField string "'v larg" | OpFields "(string \<times> 'v larg) list" | OpContext 'c

fun log_derive :: "('v, 'c) SlogWrapper \<Rightarrow> ('v, 'c) log_op \<Rightarrow> ('v, 'c) SlogWrapper" where
  "log_derive w (OpField k v) = WithField k v w"
| "log_derive w (OpFields kvs) = WithFields kvs w"
| "log_derive w (OpContext ctx) = wrapper_WithContext ctx w"

fun op_attrs :: "('v, 'c) log_op \<Rightarrow> 'v attr list" where
  "op_attrs (OpField k v) = [(k, arg_value v)]"
| "op_attrs (OpFields kvs) = map (\<lambda>(k, v). (k, arg_value v)) kvs"
| "op_attrs (OpContext _) = []"

lemma args_attrs_fields [simp]: "args_attrs (new_fields kvs) = map (\<lambda>(k, v). (k, arg_value v)) kvs"
  by (induction kvs rule: new_fields.induct) simp_all

lemma With_attrs: "args \<noteq> [] \<Longrightarrow> With args h = WithAttrs (args_attrs args) h"
  by (simp add: With_def)

lemma WithAttrs_append: "WithAttrs bs (WithAttrs as h) = WithAttrs (as @ bs) h"
  by (cases h) (simp_all add: zap_WithAttrs_def)

lemma WithAttrs_Nil [simp]: "WithAttrs [] h = h"
  by (cases h) (simp_all add: zap_WithAttrs_def)

lemma new_fields_Nil [simp]: "new_fields kvs = [] \<longleftrightarrow> kvs = []"
  by (cases kvs rule: new_fields.cases) simp_all

lemma derive_inner: "inner (log_derive w p) = WithAttrs (op_attrs p) (inner w)"
  by (cases p) (simp_all add: WithField_def WithFields_def wrapper_WithContext_def With_attrs)

lemma derive_all: "inner (foldl log_derive w ops) = WithAttrs (concat (map op_attrs ops)) (inner w)"
  by (induction ops arbitrary: w) (simp_all add: derive_inner WithAttrs_append)

lemma zap_threshold: "l \<in> {LevelDebug, LevelInfo, LevelWarn, LevelError} \<Longrightarrow> getZapLevel t \<le> getZapLevelFromSlog l \<longleftrightarrow> getSlogLevel t \<le> l"
  by (auto simp: getZapLevel_def getZapLevelFromSlog_def getSlogLevel_def slog_levels)

lemma replace_attr_eq [simp]: "replace_attr = duration_field"
  by (auto simp: replace_attr_def duration_field_def fun_eq_iff)

section \<open>Properties\<close>


datatype 'l global_op = GSet "'l option" | GUse

fun global_run :: "'l \<Rightarrow> 'l global_op list \<Rightarrow> 'l log_globals \<Rightarrow> 'l option list" where
  "global_run mk [] g = []"
| "global_run mk (GSet l # ops) g = global_run mk ops (SetGlobalLogger l g)"
| "global_run mk (GUse # ops) g = (case current_logger mk g of (l, g1) \<Rightarrow> l # global_run mk ops g1)"

definition no_logger :: "'l log_globals" where
  "no_logger = \<lparr>globalLogger = None, onceDone = False\<rparr>"

lemma use_never_nil:
  assumes "GSet None \<notin> set ops" "onceDone g \<longrightarrow> globalLogger g \<noteq> None"
  shows "None \<notin> set (global_run mk ops g)"
  using assms
proof (induction mk ops g rule: global_run.induct)
  case (2 mk l ops g)
  then show ?case by (cases l) (auto simp: SetGlobalLogger_def)
qed (auto simp: current_logger_def Let_def)

text \<open>
  There is a logger for everybody, unless it is taken away late: as long as the global logger is never set to \<^verbatim>\<open>nil\<close>, no use of it panics, the first use without one making the default logger.  But the default is made at most once: when the logger is set to \<^verbatim>\<open>nil\<close>
  after that, every use panics until another one is set.
\<close>

theorem global_logger_uses:
  "(GSet None \<notin> set ops \<longrightarrow> None \<notin> set (global_run mk ops no_logger)) \<and>
   global_run mk (GUse # GSet None # replicate n GUse) no_logger = Some mk # replicate n None"
proof -
  have "global_run mk (replicate n GUse) g = replicate n None" if "globalLogger g = None" "onceDone g" for g
    using that by (induction n) (simp_all add: current_logger_def)
  then show ?thesis using use_never_nil [of ops no_logger mk] by (simp add: no_logger_def current_logger_def SetGlobalLogger_def)
qed

text \<open>
  The hooks of Redis only watch: the commands run as without the hook, with the same result, and each leaves one line, an error line exactly for an error; a command without arguments panics after it has run.
\<close>

theorem redis_hooks_watch:
  "(case ProcessHook ms nxt cmd parts (w, ls) of (r, w1, ls1) \<Rightarrow>
      w1 = snd (nxt w) \<and> (parts = [] \<longrightarrow> r = None) \<and>
      (parts \<noteq> [] \<longrightarrow> r = Some (fst (nxt w)) \<and> (\<exists>l. ls1 = ls @ [l] \<and> (hl_level l = LevelError \<longleftrightarrow> fst (nxt w) \<noteq> None)))) \<and>
   (case ProcessPipelineHook ms nxt cmds (w, ls) of (r, w1, ls1) \<Rightarrow>
      w1 = snd (nxt w) \<and> r = Some (fst (nxt w)) \<and> (\<exists>l. ls1 = ls @ [l] \<and> (hl_level l = LevelError \<longleftrightarrow> fst (nxt w) \<noteq> None)))"
  by (auto simp: ProcessHook_def ProcessPipelineHook_def hook_result_def slog_levels split: prod.splits option.splits)

section \<open>Witnesses\<close>

definition demo_log_cfg :: log_Config where
  "demo_log_cfg = \<lparr>lc_Driver = [], lc_Level = ''WARN'', lc_Path = [], lc_FileName = [], lc_FileSuffix = [], lc_MaxAge = -1, lc_MaxBackups = 0, lc_MaxSize = 0,
     lc_Compress = False, lc_ShowFile = True, lc_Format = []\<rparr>"


theorem global_logger_uses_witness:
  "None \<notin> set (global_run (CHR ''a'') [GUse, GSet (Some CHR ''b''), GUse] no_logger)"
  using global_logger_uses [of "[GUse, GSet (Some CHR ''b''), GUse]" "CHR ''a''" 0] by simp

theorem redis_hooks_watch_witness:
  "fst (ProcessHook 1 (\<lambda>w. (None, Suc w)) ''PING'' [''PING''] (0, [])) = Some None"
  using redis_hooks_watch [where ms = 1 and nxt = "\<lambda>w. (None, Suc w)" and cmd = "''PING''" and parts = "[''PING'']" and w = 0 and ls = "[]"] by (simp add: ProcessHook_def)

end
