(* ===== verification/Chain_Tools.thy ===== *)
theory Chain_Tools
  imports Complex_Main Text_Encoding "HOL-Library.Multiset"
begin

text \<open>
  Addresses and amounts of block chains: \<^verbatim>\<open>provider/chain/\<close> and the helpers on decimals of \<^verbatim>\<open>common/utils/number.go\<close> and \<^verbatim>\<open>chain.go\<close>.  The decoders of the address formats are parameters; the decimals of the package
  \<^verbatim>\<open>shopspring/decimal\<close> are a parameter with its documented behaviour \<open>dec_laws\<close>, stated through the rational number that a decimal stands for.
\<close>

section \<open>Addresses\<close>

text \<open>The expression \<^verbatim>\<open>^0x[0-9a-fA-F]{40}$\<close>.\<close>

definition eth_format :: "string \<Rightarrow> bool" where
  "eth_format a \<longleftrightarrow> length a = 42 \<and> HasPrefix a ''0x'' \<and> list_all (\<lambda>c. hex_value c \<noteq> None) (drop 2 a)"

text \<open>\<open>isHex\<close> and \<open>checksummed\<close> are \<^verbatim>\<open>common.IsHexAddress\<close> and \<^verbatim>\<open>common.HexToAddress(a).Hex()\<close>.\<close>

definition IsValidETHAddress :: "(string \<Rightarrow> bool) \<Rightarrow> (string \<Rightarrow> string) \<Rightarrow> string \<Rightarrow> bool" where
  "IsValidETHAddress isHex checksummed a =
     (if \<not> eth_format a then False
      else if ToLower a = a \<or> ToUpper a = a then True
      else isHex a \<and> checksummed a = a)"

text \<open>The networks come in the order in which the map is iterated, which Go leaves open; \<open>decodes\<close> says whether the address decodes for a network.\<close>

definition btc_networks :: "string list" where
  "btc_networks = [''MainNet'', ''TestNet'', ''Regtest'']"

fun CheckBTCAddressCompatibility :: "(string \<Rightarrow> string \<Rightarrow> bool) \<Rightarrow> string list \<Rightarrow> string \<Rightarrow> bool \<times> string" where
  "CheckBTCAddressCompatibility decodes [] a = (False, ''Unknown'')"
| "CheckBTCAddressCompatibility decodes (net # nets) a =
     (if decodes a net then (True, net) else CheckBTCAddressCompatibility decodes nets a)"

definition IsValidBTCAddress :: "(string \<Rightarrow> string \<Rightarrow> bool) \<Rightarrow> string list \<Rightarrow> string \<Rightarrow> bool" where
  "IsValidBTCAddress decodes order a = fst (CheckBTCAddressCompatibility decodes order a)"

definition IsValidSOLAddress :: "(string \<Rightarrow> goerr option) \<Rightarrow> string \<Rightarrow> bool" where
  "IsValidSOLAddress decode a \<longleftrightarrow> decode a = None"

definition IsValidTRXAddress :: "(string \<Rightarrow> goerr option) \<Rightarrow> string \<Rightarrow> bool" where
  "IsValidTRXAddress decode a = (if length a \<noteq> 34 \<or> a ! 0 \<noteq> CHR ''T'' then False else decode a = None)"

section \<open>Decimals\<close>

record 'd dec_lib =
  d_rat :: "'d \<Rightarrow> rat"
  NewFromInt :: "int \<Rightarrow> 'd"
  NewFromString :: "string \<Rightarrow> 'd option"
  d_String :: "'d \<Rightarrow> string"
  d_Abs :: "'d \<Rightarrow> 'd"
  d_Add :: "'d \<Rightarrow> 'd \<Rightarrow> 'd"
  d_Pow :: "'d \<Rightarrow> 'd \<Rightarrow> 'd"
  DivRound :: "'d \<Rightarrow> 'd \<Rightarrow> int \<Rightarrow> 'd"
  d_Truncate :: "'d \<Rightarrow> int \<Rightarrow> 'd"

text \<open>
  What is relied on: integers and sums are exact, powers of integers with natural exponents too, and a rounded quotient has the given number of places and is at most half a unit of the last place away from the quotient.
\<close>

definition dec_laws :: "'d dec_lib \<Rightarrow> bool" where
  "dec_laws L \<longleftrightarrow>
     (\<forall>i. d_rat L (NewFromInt L i) = of_int i) \<and>
     (\<forall>a b. d_rat L (d_Add L a b) = d_rat L a + d_rat L b) \<and>
     (\<forall>i n. d_rat L (d_Pow L (NewFromInt L i) (NewFromInt L (int n))) = of_int i ^ n) \<and>
     (\<forall>a b n. d_rat L b \<noteq> 0 \<longrightarrow>
        d_rat L (DivRound L a b (int n)) * 10 ^ n \<in> \<int> \<and> \<bar>d_rat L (DivRound L a b (int n)) - d_rat L a / d_rat L b\<bar> \<le> 1 / (2 * 10 ^ n))"

definition IsZero :: "'d dec_lib \<Rightarrow> 'd \<Rightarrow> bool" where
  "IsZero L v \<longleftrightarrow> d_rat L v = 0"

definition FormatDecimalWithSign :: "'d dec_lib \<Rightarrow> 'd \<Rightarrow> string \<Rightarrow> string" where
  "FormatDecimalWithSign L v symbol =
     (if IsZero L v then d_String L v
      else if symbol = ''+'' then ''+'' @ d_String L (d_Abs L v)
      else if symbol = ''-'' then ''-'' @ d_String L (d_Abs L v)
      else if d_rat L v \<ge> 0 then ''+'' @ d_String L v
      else d_String L v)"

definition TruncateDecimalString :: "'d dec_lib \<Rightarrow> string \<Rightarrow> int \<Rightarrow> string" where
  "TruncateDecimalString L num places = (case NewFromString L num of None \<Rightarrow> ''0'' | Some d \<Rightarrow> d_String L (d_Truncate L d places))"

text \<open>The elements are converted to \<^verbatim>\<open>int64\<close>, whatever their integer type is.\<close>

fun average_loop :: "'d dec_lib \<Rightarrow> bool \<Rightarrow> int list \<Rightarrow> 'd \<Rightarrow> int \<Rightarrow> 'd \<times> int" where
  "average_loop L filterZero [] acc n = (acc, n)"
| "average_loop L filterZero (v # vs) acc n =
     (let val = NewFromInt L (wrap64 v)
      in if filterZero \<and> IsZero L val then average_loop L filterZero vs acc n
         else average_loop L filterZero vs (d_Add L acc val) (n + 1))"

definition AverageIntList :: "'d dec_lib \<Rightarrow> int list \<Rightarrow> bool \<Rightarrow> int \<Rightarrow> 'd" where
  "AverageIntList L data filterZero places =
     (case average_loop L filterZero data (NewFromInt L 0) 0 of (acc, n) \<Rightarrow>
        if n = 0 then NewFromInt L 0 else DivRound L acc (NewFromInt L n) places)"

text \<open>
  \<^verbatim>\<open>big.Int.SetString(s, 16)\<close>: a sign and hexadecimal digits.  On other texts the receiver is left unspecified, and \<^verbatim>\<open>HexToDecimal\<close> uses it all the same: \<^term>\<open>None\<close>.
\<close>

definition hex_nat :: "string \<Rightarrow> nat option" where
  "hex_nat s = (if s = [] \<or> \<not> list_all (\<lambda>c. hex_value c \<noteq> None) s then None
     else Some (foldl (\<lambda>n c. 16 * n + the (hex_value c)) 0 s))"

definition SetString16 :: "string \<Rightarrow> int option" where
  "SetString16 s =
     (if HasPrefix s ''-'' then map_option (\<lambda>n. - int n) (hex_nat (drop 1 s))
      else if HasPrefix s ''+'' then map_option int (hex_nat (drop 1 s))
      else map_option int (hex_nat s))"

definition HexToDecimal :: "'d dec_lib \<Rightarrow> string \<Rightarrow> 'd option" where
  "HexToDecimal L s = map_option (NewFromInt L) (SetString16 (if HasPrefix s ''0x'' \<or> HasPrefix s ''0X'' then drop 2 s else s))"

definition HexToDecimalString :: "'d dec_lib \<Rightarrow> string \<Rightarrow> string option" where
  "HexToDecimalString L s = (if s = [] then Some [] else map_option (d_String L) (HexToDecimal L s))"

definition DivWithDecimals :: "'d dec_lib \<Rightarrow> 'd \<Rightarrow> int \<Rightarrow> 'd" where
  "DivWithDecimals L amount decimals =
     (if decimals = 0 then amount else DivRound L amount (d_Pow L (NewFromInt L 10) (NewFromInt L decimals)) decimals)"

section \<open>Lemmas\<close>

lemma dec_lawsD:
  assumes "dec_laws L"
  shows "d_rat L (NewFromInt L i) = of_int i" "d_rat L (d_Add L a b) = d_rat L a + d_rat L b"
    "d_rat L (d_Pow L (NewFromInt L i) (NewFromInt L (int n))) = of_int i ^ n"
    "d_rat L b \<noteq> 0 \<Longrightarrow> d_rat L (DivRound L a b (int n)) * 10 ^ n \<in> \<int>"
    "d_rat L b \<noteq> 0 \<Longrightarrow> \<bar>d_rat L (DivRound L a b (int n)) - d_rat L a / d_rat L b\<bar> \<le> 1 / (2 * 10 ^ n)"
  subgoal using assms unfolding dec_laws_def by simp
  subgoal using assms unfolding dec_laws_def by simp
  subgoal using assms unfolding dec_laws_def by simp
  subgoal using assms unfolding dec_laws_def by simp
  subgoal using assms unfolding dec_laws_def by simp
  done

lemma upper_x: "HasPrefix a ''0x'' \<Longrightarrow> ToUpper a \<noteq> a"
proof -
  assume "HasPrefix a ''0x''"
  then obtain t where "a = ''0x'' @ t" unfolding HasPrefix_iff by blast
  moreover have "upper_char (CHR ''x'') \<noteq> CHR ''x''" by code_simp
  ultimately show ?thesis by (simp add: ToUpper_def)
qed

lemma check_first: "CheckBTCAddressCompatibility decodes order a =
    (case find (decodes a) order of None \<Rightarrow> (False, ''Unknown'') | Some net \<Rightarrow> (True, net))"
  by (induction order) simp_all

lemma find_hit: "find P xs = Some x \<Longrightarrow> P x \<and> x \<in> set xs"
  by (auto simp: find_Some_iff)

lemma scaled_distance: "0 < (c :: rat) \<Longrightarrow> \<bar>x - y\<bar> * c = \<bar>x * c - y * c\<bar>"
  by (simp add: abs_mult_pos left_diff_distrib)

lemma small_integer: "(x :: rat) \<in> \<int> \<Longrightarrow> \<bar>x\<bar> \<le> 1 / 2 \<Longrightarrow> x = 0"
  by (elim Ints_cases) (auto simp: field_simps)

lemma average_sum:
  assumes "dec_laws L"
  shows "d_rat L (fst (average_loop L f vs s n)) = d_rat L s + of_int (sum_list (map wrap64 vs)) \<and>
    snd (average_loop L f vs s n) = n + int (length (filter (\<lambda>v. \<not> (f \<and> wrap64 v = 0)) vs))"
proof (induction vs arbitrary: s n)
  case (Cons v vs)
  show ?case using Cons [of s n] Cons [of "d_Add L s (NewFromInt L (wrap64 v))" "n + 1"]
    by (auto simp: IsZero_def dec_lawsD(1,2) [OF assms])
qed simp

section \<open>Properties\<close>

text \<open>
  An Ethereum address is valid if it has the format and is all in lower case or carries its checksum.  The alternative of an address all in upper case never applies, because of the \<^verbatim>\<open>x\<close> in its prefix: such an address is refused unless it happens to be
  its own checksummed form.
\<close>

theorem eth_address:
  "IsValidETHAddress isHex checksummed a \<longleftrightarrow> eth_format a \<and> (ToLower a = a \<or> isHex a \<and> checksummed a = a)"
  using upper_x [of a] by (auto simp: IsValidETHAddress_def eth_format_def)

text \<open>
  Whether a Bitcoin address is valid does not depend on the order in which the networks are tried, but the network that is named does: for an address that decodes for two networks, as the addresses of the test networks do, there are runs that name either.
\<close>

theorem btc_network_by_chance:
  assumes "mset order = mset btc_networks"
  shows "(IsValidBTCAddress decodes order a \<longleftrightarrow> (\<exists>net \<in> set btc_networks. decodes a net)) \<and>
    (fst (CheckBTCAddressCompatibility decodes order a) \<longrightarrow> decodes a (snd (CheckBTCAddressCompatibility decodes order a))) \<and>
    (\<forall>net \<in> set btc_networks. decodes a net \<longrightarrow>
       (\<exists>order'. mset order' = mset btc_networks \<and> CheckBTCAddressCompatibility decodes order' a = (True, net)))"
proof -
  have s: "set order = set btc_networks" using assms by (rule mset_eq_setD)
  have "\<exists>order'. mset order' = mset btc_networks \<and> CheckBTCAddressCompatibility decodes order' a = (True, net)"
    if "net \<in> set btc_networks" "decodes a net" for net
    using that by (intro exI [of _ "net # remove1 net btc_networks"]) simp
  then show ?thesis using s
    by (auto simp: IsValidBTCAddress_def check_first find_None_iff dest: find_hit split: option.splits)
qed

text \<open>
  No unit of a token is lost: an integral amount divided by ten to the number of decimals of its token is the exact quotient, because it is rounded to as many places.
\<close>

theorem div_with_decimals_exact:
  assumes "dec_laws L" "0 \<le> decimals" "d_rat L amount \<in> \<int>"
  shows "d_rat L (DivWithDecimals L amount decimals) = d_rat L amount / 10 ^ nat decimals"
proof (cases "decimals = 0")
  case False
  define n where "n = nat decimals"
  have n: "decimals = int n" using assms(2) by (simp add: n_def)
  let ?b = "d_Pow L (NewFromInt L 10) (NewFromInt L (int n))"
  let ?q = "d_rat L (DivRound L amount ?b (int n))"
  have b: "d_rat L ?b = 10 ^ n" by (simp add: dec_lawsD(3) [OF assms(1)])
  then have ne: "d_rat L ?b \<noteq> 0" by simp
  have int: "?q * 10 ^ n - d_rat L amount \<in> \<int>" using dec_lawsD(4) [OF assms(1) ne] assms(3) by (rule Ints_diff)
  have "\<bar>?q - d_rat L amount / 10 ^ n\<bar> \<le> 1 / (2 * 10 ^ n)" using dec_lawsD(5) [OF assms(1) ne] b by simp
  then have "\<bar>?q - d_rat L amount / 10 ^ n\<bar> * 10 ^ n \<le> 1 / 2" by (simp add: field_simps)
  moreover have "\<bar>?q - d_rat L amount / 10 ^ n\<bar> * 10 ^ n = \<bar>?q * 10 ^ n - d_rat L amount\<bar>"
    using scaled_distance [of "10 ^ n" ?q "d_rat L amount / 10 ^ n"] by simp
  ultimately have "?q * 10 ^ n - d_rat L amount = 0" by (intro small_integer int) simp
  then have "?q = d_rat L amount / 10 ^ n" by (simp add: field_simps)
  then show ?thesis using False n by (simp add: DivWithDecimals_def)
qed (simp add: DivWithDecimals_def)

text \<open>
  The average of a list is within half a unit of its last place of the mean of the elements, without the zeros if they are filtered; but unsigned elements from \<open>2^63\<close> on count as negative numbers.
\<close>

theorem average_of_list:
  assumes "dec_laws L" "vs = filter (\<lambda>v. \<not> (f \<and> wrap64 v = 0)) data"
  shows "(if vs = [] then d_rat L (AverageIntList L data f (int n)) = 0
     else \<bar>d_rat L (AverageIntList L data f (int n)) - of_int (sum_list (map wrap64 vs)) / of_nat (length vs)\<bar> \<le> 1 / (2 * 10 ^ n)) \<and>
    wrap64 (2 ^ 63) = - (2 ^ 63)"
proof -
  obtain s k where l: "average_loop L f data (NewFromInt L 0) 0 = (s, k)" by force
  have sums: "sum_list (map wrap64 data) = sum_list (map wrap64 vs)" unfolding assms(2) by (induction data) auto
  have sk: "d_rat L s = of_int (sum_list (map wrap64 vs))" "k = int (length vs)"
    using average_sum [OF assms(1), of f data "NewFromInt L 0" 0] l sums by (simp_all add: assms(2) dec_lawsD(1) [OF assms(1)])
  have "wrap64 (2 ^ 63) = - (2 ^ 63)" by (simp add: wrap64_def)
  moreover have "\<bar>d_rat L (DivRound L s (NewFromInt L k) (int n)) - of_int (sum_list (map wrap64 vs)) / of_nat (length vs)\<bar> \<le> 1 / (2 * 10 ^ n)" if "vs \<noteq> []"
    using dec_lawsD(5) [OF assms(1), of "NewFromInt L k" s n] that sk by (simp add: dec_lawsD(1) [OF assms(1)])
  ultimately show ?thesis using sk l by (simp add: AverageIntList_def dec_lawsD(1) [OF assms(1)])
qed

section \<open>Witnesses\<close>

text \<open>Decimals as rational numbers.\<close>

definition demo_dec :: "rat dec_lib" where
  "demo_dec = \<lparr>d_rat = id, NewFromInt = of_int, NewFromString = (\<lambda>_. None), d_String = (\<lambda>_. []), d_Abs = abs, d_Add = (+),
     d_Pow = (\<lambda>a b. a ^ nat \<lfloor>b\<rfloor>), DivRound = (\<lambda>a b p. of_int (round (a / b * 10 ^ nat p)) / 10 ^ nat p), d_Truncate = (\<lambda>a _. a)\<rparr>"

lemma demo_dec_laws: "dec_laws demo_dec"
proof -
  have "\<bar>of_int (round (a / b * 10 ^ n)) / 10 ^ n - a / b\<bar> \<le> 1 / (2 * 10 ^ n)" for a b :: rat and n :: nat
  proof -
    have "\<bar>of_int (round (a / b * 10 ^ n)) / 10 ^ n - a / b\<bar> * 10 ^ n = \<bar>of_int (round (a / b * 10 ^ n)) - a / b * 10 ^ n\<bar>"
      using scaled_distance [of "10 ^ n" "of_int (round (a / b * 10 ^ n)) / 10 ^ n" "a / b"] by simp
    then have "\<bar>of_int (round (a / b * 10 ^ n)) / 10 ^ n - a / b\<bar> * 10 ^ n \<le> 1 / 2" using of_int_round_abs_le [of "a / b * 10 ^ n"] by simp
    then show ?thesis by (simp add: pos_le_divide_eq mult.assoc [symmetric])
  qed
  then show ?thesis unfolding dec_laws_def by (simp add: demo_dec_def)
qed

theorem div_with_decimals_exact_witness: "DivWithDecimals demo_dec 1234567 6 = 1234567 / 10 ^ 6"
proof -
  have "d_rat demo_dec 1234567 \<in> \<int>" by (simp add: demo_dec_def)
  from div_with_decimals_exact [OF demo_dec_laws _ this, of 6] show ?thesis by (simp add: demo_dec_def)
qed

theorem average_of_list_witness: "\<bar>AverageIntList demo_dec [0, 1, 2, 2] True 2 - 5 / 3\<bar> \<le> 1 / 200"
proof -
  have w: "wrap64 0 = 0" "wrap64 1 = 1" "wrap64 2 = 2" by (simp_all add: wrap64_def)
  show ?thesis using average_of_list [OF demo_dec_laws HOL.refl, of True "[0, 1, 2, 2]" 2] by (simp add: w) (simp add: demo_dec_def)
qed

theorem btc_network_by_chance_witness:
  "\<exists>order'. mset order' = mset btc_networks \<and> CheckBTCAddressCompatibility (\<lambda>_ n. n \<noteq> ''MainNet'') order' ''m'' = (True, ''Regtest'')"
  using btc_network_by_chance [OF HOL.refl, of "\<lambda>_ n. n \<noteq> ''MainNet''" "''m''"] by (simp add: btc_networks_def)

end
