(* ===== verification/Service_Setup.thy ===== *)
theory Service_Setup
  imports Crash_Report Export_Writer
begin

text \<open>
  Starting a service and its smaller connections: the global names and the crash capture (\<^verbatim>\<open>init.go\<close>, \<^verbatim>\<open>common/appctx\<close>), the kind of a configuration file (\<^verbatim>\<open>config/parse.go\<close>), mail (\<^verbatim>\<open>provider/email\<close>), the Mongo client
  (\<^verbatim>\<open>dao/mongo/mongo.go\<close>), database arrays (\<^verbatim>\<open>dao/xormDB\<close>) and files (\<^verbatim>\<open>common/utils/file.go\<close>).  Drivers, mail and the file system are parameters.
\<close>

section \<open>Paths\<close>

text \<open>\<^verbatim>\<open>filepath.Join\<close> for two elements and the separator \<^verbatim>\<open>/\<close>, over \<^const>\<open>filepath_Clean\<close>.\<close>

definition path_Join :: "string \<Rightarrow> string \<Rightarrow> string" where
  "path_Join d n = (let es = filter (\<lambda>e. e \<noteq> []) [d, n] in if es = [] then [] else filepath_Clean (Join es ''/''))"

text \<open>The last element from its last dot on.\<close>

definition path_Ext :: "string \<Rightarrow> string" where
  "path_Ext p =
     (let b = last (SplitC p (CHR ''/''))
      in if CHR ''.'' \<in> set b then CHR ''.'' # last (SplitC b (CHR ''.'')) else [])"

section \<open>Start-up\<close>

record app_names =
  app_server :: string
  app_env :: string

definition appctx_Init :: "string \<Rightarrow> string \<Rightarrow> app_names \<Rightarrow> app_names" where
  "appctx_Init name e s = s\<lparr>app_server := name, app_env := e\<rparr>"

text \<open>\<^verbatim>\<open>strings.Map\<close> with a map that only changes ASCII works byte by byte on the text of runes.\<close>

definition forbidden_chars :: "char set" where
  "forbidden_chars = {CHR ''/'', CHR 0x5C, CHR '':'', CHR ''*'', CHR ''?'', CHR 0x22, CHR ''<'', CHR ''>'', CHR ''|''}"

definition clean_name :: "string \<Rightarrow> string" where
  "clean_name s = map (\<lambda>c. if c \<in> forbidden_chars then CHR ''_'' else c) s"

definition defaultCrashDir :: "string \<Rightarrow> string" where
  "defaultCrashDir server =
     (let name = TrimSpace server
      in if name = [] then ''./logs/crash'' else path_Join ''./logs/crash'' (clean_name name))"

text \<open>
  The state is that of the crash reporter.  The result tells whether the returned function reports or does nothing, and what is logged.
\<close>

definition BootstrapCrashCapture :: "crash_os \<Rightarrow> int \<Rightarrow> 'w uploader \<Rightarrow> app_names \<Rightarrow> 'w CrashOption list \<Rightarrow> ('w crashConfig \<times> int) option \<times> cdir \<Rightarrow>
    bool \<times> goerr option \<times> ('w crashConfig \<times> int) option \<times> cdir" where
  "BootstrapCrashCapture os now up app opts st =
     (case InitCrashReporter os now up (WithCrashDir (defaultCrashDir (app_server app)) # opts) st of
        (err, r, fs) \<Rightarrow> (err = None, err, r, fs))"

definition crash_flush :: "bool \<Rightarrow> crash_env \<Rightarrow> ('w crashConfig \<times> int) option \<Rightarrow> cdir \<times> 'w \<Rightarrow> (goerr option \<times> cdir \<times> 'w) option" where
  "crash_flush active env reporter fsw = (if active then ReportPendingCrashes env reporter fsw else Some (None, fsw))"

section \<open>Configuration files\<close>

definition config_type :: "string \<Rightarrow> string \<Rightarrow> string" where
  "config_type configPath fileType =
     (if fileType \<noteq> [] then ToLower fileType
      else let e = ToLower (path_Ext configPath); ext = (if HasPrefix e ''.'' then drop 1 e else e)
           in if ext \<noteq> [] then ext else ''yaml'')"

text \<open>\<open>read\<close> reads and parses a file of a type, \<open>unmarshal\<close> fills the structure.\<close>

definition config_Parse :: "(string \<Rightarrow> string \<Rightarrow> goerr + 'm) \<Rightarrow> ('m \<Rightarrow> 'c \<Rightarrow> goerr option \<times> 'c) \<Rightarrow> string \<Rightarrow> string \<Rightarrow> 'c \<Rightarrow> goerr option \<times> 'c" where
  "config_Parse read unmarshal configPath fileType conf =
     (case read configPath (config_type configPath fileType) of
        Inl e \<Rightarrow> (Some (ErrWrapf (''config file read err: '' @ configPath @ '': '') e), conf)
      | Inr mp \<Rightarrow>
          (case unmarshal mp conf of
             (Some e, conf1) \<Rightarrow> (Some (ErrWrapf ''config file unmarshal err: '' e), conf1)
           | (None, conf1) \<Rightarrow> (None, conf1)))"

section \<open>Mail\<close>

definition TlsModelNone :: string where "TlsModelNone = ''none''"
definition TlsModelTLS :: string where "TlsModelTLS = ''tls''"
definition TlsModelStartTLS :: string where "TlsModelStartTLS = ''starttls''"

record email_Config =
  em_Identity :: string
  em_UserName :: string
  em_Password :: string
  em_SmtpHost :: string
  em_Port :: int
  em_TlsModel :: string
  em_Insecure :: bool
  em_CertFile :: string
  em_KeyFile :: string

definition QQEmail :: "email_Config \<Rightarrow> email_Config" where "QQEmail e = e\<lparr>em_SmtpHost := ''smtp.qq.com''\<rparr>"
definition LarkEmail :: "email_Config \<Rightarrow> email_Config" where "LarkEmail e = e\<lparr>em_SmtpHost := ''smtp.larksuite.com''\<rparr>"
definition Gmail :: "email_Config \<Rightarrow> email_Config" where "Gmail e = e\<lparr>em_SmtpHost := ''smtp.gmail.com''\<rparr>"
definition TlsNone :: "email_Config \<Rightarrow> email_Config" where "TlsNone e = e\<lparr>em_TlsModel := TlsModelNone, em_Port := 25\<rparr>"
definition email_Tls :: "email_Config \<Rightarrow> email_Config" where "email_Tls e = e\<lparr>em_TlsModel := TlsModelTLS, em_Port := 465\<rparr>"
definition StartTls :: "email_Config \<Rightarrow> email_Config" where "StartTls e = e\<lparr>em_TlsModel := TlsModelStartTLS, em_Port := 587\<rparr>"

definition NewEmail :: "email_Config \<Rightarrow> email_Config" where
  "NewEmail c = (if em_SmtpHost c = [] \<or> em_Port c = 0 then email_Tls (Gmail c) else c)"

text \<open>The encryption a message is sent with: none, from the first byte, or after the greeting.  A certificate is \<open>'k\<close>.\<close>

record 'k tls_config =
  tls_insecure :: bool
  tls_server :: string
  tls_certs :: "'k list"

definition getTLSConfig :: "(string \<Rightarrow> string \<Rightarrow> goerr + 'k) \<Rightarrow> email_Config \<Rightarrow> goerr + 'k tls_config" where
  "getTLSConfig load e =
     (let t = \<lparr>tls_insecure = em_Insecure e, tls_server = em_SmtpHost e, tls_certs = []\<rparr>
      in if em_CertFile e \<noteq> [] \<and> em_KeyFile e \<noteq> [] then
           (case load (em_CertFile e) (em_KeyFile e) of Inl err \<Rightarrow> Inl err | Inr cert \<Rightarrow> Inr (t\<lparr>tls_certs := [cert]\<rparr>))
         else Inr t)"

datatype 'k mail_mode = MailPlain | MailTLS "'k tls_config" | MailStartTLS "'k tls_config"

record 'k mail_call =
  mc_address :: string
  mc_auth :: "string \<times> string \<times> string \<times> string"
  mc_from :: string
  mc_mode :: "'k mail_mode"

text \<open>\<open>deliver\<close> is the mail package; without a call nothing is sent.\<close>

definition email_Send :: "(string \<Rightarrow> string \<Rightarrow> goerr + 'k) \<Rightarrow> ('k mail_call \<Rightarrow> goerr option) \<Rightarrow> email_Config \<Rightarrow> string \<Rightarrow> goerr option \<times> 'k mail_call option" where
  "email_Send load deliver e from0 =
     (if em_SmtpHost e = [] \<or> em_Port e = 0 then (Some (ErrNew ''SMTP host or port is empty''), None)
      else
        let call = (\<lambda>m. \<lparr>mc_address = em_SmtpHost e @ '':'' @ FormatInt (em_Port e), mc_auth = (em_Identity e, em_UserName e, em_Password e, em_SmtpHost e),
              mc_from = (if from0 = [] then em_UserName e else from0), mc_mode = m\<rparr>);
            sent = (\<lambda>m. (deliver (call m), Some (call m)))
        in if em_TlsModel e = TlsModelTLS \<or> em_TlsModel e = TlsModelStartTLS then
             (case getTLSConfig load e of
                Inl err \<Rightarrow> (Some (ErrWrapf ''failed to load TLS certificate: '' err), None)
              | Inr t \<Rightarrow> if em_TlsModel e = TlsModelTLS then sent (MailTLS t) else sent (MailStartTLS t))
           else sent MailPlain)"

section \<open>Mongo\<close>

record mongo_Config =
  mg_AppName :: string
  mg_Database :: string
  mg_URI :: string
  mg_MaxConnIdleMs :: int
  mg_MaxPoolSize :: nat
  mg_MinPoolSize :: nat
  mg_ConnectTimeout :: int
  mg_EnableLog :: bool

record mongo_opts =
  mo_uri :: string
  mo_app :: "string option"
  mo_idle :: int
  mo_max :: nat
  mo_min :: nat
  mo_timeout :: int
  mo_monitor :: bool

text \<open>Durations are nanoseconds in \<^verbatim>\<open>int64\<close>, so the product wraps around.\<close>

definition milliseconds :: "int \<Rightarrow> int" where
  "milliseconds ms = wrap64 (ms * 1000000)"

definition buildClientOpts :: "mongo_Config \<Rightarrow> mongo_opts" where
  "buildClientOpts c =
     \<lparr>mo_uri = mg_URI c, mo_app = (if mg_AppName c \<noteq> [] then Some (mg_AppName c) else None),
      mo_idle = (if mg_MaxConnIdleMs c > 0 then milliseconds (mg_MaxConnIdleMs c) else 30 * 60 * 1000000000),
      mo_max = (if mg_MaxPoolSize c > 0 then mg_MaxPoolSize c else 100),
      mo_min = (if mg_MinPoolSize c > 0 then mg_MinPoolSize c else 10),
      mo_timeout = (if mg_ConnectTimeout c > 0 then milliseconds (mg_ConnectTimeout c) else 10 * 1000000000),
      mo_monitor = mg_EnableLog c\<rparr>"

text \<open>The driver: connecting gives a client; the world \<open>'w\<close> keeps what is open.\<close>

record ('c, 's, 'w) mongo_lib =
  mg_Connect :: "mongo_opts \<Rightarrow> 'w \<Rightarrow> (goerr + 'c) \<times> 'w"
  mg_Ping :: "'c \<Rightarrow> 'w \<Rightarrow> goerr option \<times> 'w"
  mg_Disconnect :: "'c \<Rightarrow> 'w \<Rightarrow> goerr option \<times> 'w"
  mg_StartSession :: "'c \<Rightarrow> 'w \<Rightarrow> (goerr + 's) \<times> 'w"
  mg_EndSession :: "'s \<Rightarrow> 'w \<Rightarrow> 'w"

definition mongo_connect :: "('c, 's, 'w) mongo_lib \<Rightarrow> mongo_Config \<Rightarrow> 'w \<Rightarrow> (goerr + 'c) \<times> 'w" where
  "mongo_connect L c w =
     (case mg_Connect L (buildClientOpts c) w of
        (Inl e, w1) \<Rightarrow> (Inl (ErrWrapf ''mongo connect: '' e), w1)
      | (Inr cl, w1) \<Rightarrow>
          (case mg_Ping L cl w1 of
             (Some e, w2) \<Rightarrow> (Inl (ErrWrapf ''mongo ping: '' e), snd (mg_Disconnect L cl w2))
           | (None, w2) \<Rightarrow> (Inr cl, w2)))"

definition mongo_NewDB :: "('c, 's, 'w) mongo_lib \<Rightarrow> mongo_Config \<Rightarrow> 'w \<Rightarrow> (goerr + (string \<times> 'c)) \<times> 'w" where
  "mongo_NewDB L c w = (case mongo_connect L c w of (Inl e, w1) \<Rightarrow> (Inl e, w1) | (Inr cl, w1) \<Rightarrow> (Inr (mg_Database c, cl), w1))"

definition mongo_NewClient :: "('c, 's, 'w) mongo_lib \<Rightarrow> mongo_Config \<Rightarrow> 'w \<Rightarrow> (goerr + (mongo_Config \<times> 'c)) \<times> 'w" where
  "mongo_NewClient L c w = (case mongo_connect L c w of (Inl e, w1) \<Rightarrow> (Inl e, w1) | (Inr cl, w1) \<Rightarrow> (Inr (c, cl), w1))"

text \<open>A panic is \<^term>\<open>None\<close>.\<close>

definition mongo_MustNewClient :: "('c, 's, 'w) mongo_lib \<Rightarrow> mongo_Config \<Rightarrow> 'w \<Rightarrow> (mongo_Config \<times> 'c) option \<times> 'w" where
  "mongo_MustNewClient L c w = (case mongo_NewClient L c w of (Inl e, w1) \<Rightarrow> (None, w1) | (Inr cl, w1) \<Rightarrow> (Some cl, w1))"

definition mongo_MustNewDB :: "('c, 's, 'w) mongo_lib \<Rightarrow> mongo_Config \<Rightarrow> 'w \<Rightarrow> (string \<times> 'c) option \<times> 'w" where
  "mongo_MustNewDB L c w = (case mongo_NewDB L c w of (Inl e, w1) \<Rightarrow> (None, w1) | (Inr d, w1) \<Rightarrow> (Some d, w1))"

definition mongo_Database :: "mongo_Config \<times> 'c \<Rightarrow> string list \<Rightarrow> string" where
  "mongo_Database cl names = (case names of n # _ \<Rightarrow> if n \<noteq> [] then n else mg_Database (fst cl) | [] \<Rightarrow> mg_Database (fst cl))"

definition mongo_Close :: "('c, 's, 'w) mongo_lib \<Rightarrow> 'c \<Rightarrow> 'w \<Rightarrow> goerr option \<times> 'w" where
  "mongo_Close L cl w = mg_Disconnect L cl w"

text \<open>\<open>withTx\<close> is \<^verbatim>\<open>session.WithTransaction\<close> with the function of the caller in it.\<close>

definition mongo_Transaction :: "('c, 's, 'w) mongo_lib \<Rightarrow> 'c \<Rightarrow> ('s \<Rightarrow> 'w \<Rightarrow> (goerr + 'a) \<times> 'w) \<Rightarrow> 'w \<Rightarrow> (goerr + 'a) \<times> 'w" where
  "mongo_Transaction L cl withTx w =
     (case mg_StartSession L cl w of
        (Inl e, w1) \<Rightarrow> (Inl (ErrWrapf ''mongo start session: '' e), w1)
      | (Inr s, w1) \<Rightarrow>
          (case withTx s w1 of
             (Inl e, w2) \<Rightarrow> (Inl (ErrWrapf ''mongo transaction: '' e), mg_EndSession L s w2)
           | (Inr r, w2) \<Rightarrow> (Inr r, mg_EndSession L s w2)))"

section \<open>Arrays in database columns\<close>

text \<open>A slice is \<^term>\<open>None\<close> if it is \<^verbatim>\<open>nil\<close>; \<open>scan\<close> and \<open>value\<close> are those of the package \<^verbatim>\<open>pq\<close>.  The same code serves texts and numbers.\<close>

definition array_FromDB :: "(string \<Rightarrow> goerr + 'a list option) \<Rightarrow> string \<Rightarrow> goerr + 'a list option" where
  "array_FromDB scan bts = (if bts = [] then Inr (Some []) else scan bts)"

definition array_ToDB :: "('a list \<Rightarrow> goerr + string option) \<Rightarrow> 'a list option \<Rightarrow> goerr + string" where
  "array_ToDB value_of s =
     (case s of
        None \<Rightarrow> Inr ''{}''
      | Some xs \<Rightarrow>
          if xs = [] then Inr ''{}''
          else (case value_of xs of Inl e \<Rightarrow> Inl e | Inr None \<Rightarrow> Inr ''{}'' | Inr (Some v) \<Rightarrow> Inr v))"

section \<open>Files\<close>

text \<open>The contents of the files by path, and the errors that the system answers with.\<close>

type_synonym files = "string \<rightharpoonup> string"

record file_os =
  f_mkdir :: "string \<Rightarrow> goerr option"
  f_open :: "string \<Rightarrow> goerr option"
  f_write :: "string \<Rightarrow> goerr option"
  f_stat :: "string \<Rightarrow> goerr option"
  f_dir :: "string \<Rightarrow> string"

definition AppendToFile :: "file_os \<Rightarrow> string \<Rightarrow> string \<Rightarrow> files \<Rightarrow> goerr option \<times> files" where
  "AppendToFile os path content fs =
     (case f_mkdir os (f_dir os path) of
        Some e \<Rightarrow> (Some e, fs)
      | None \<Rightarrow>
          (case f_open os path of
             Some e \<Rightarrow> (Some e, fs)
           | None \<Rightarrow>
               let old = (case fs path of None \<Rightarrow> [] | Some t \<Rightarrow> t)
               in case f_write os path of
                    Some e \<Rightarrow> (Some e, fs(path \<mapsto> old))
                  | None \<Rightarrow> (None, fs(path \<mapsto> old @ content @ [CHR 0x0A]))))"

definition AppendLog :: "file_os \<Rightarrow> string \<Rightarrow> string \<Rightarrow> (string \<times> string) list \<Rightarrow> files \<Rightarrow> goerr option \<times> files" where
  "AppendLog os now path data fs =
     AppendToFile os path ([CHR 0x0A] @ now @ '':'' @ [CHR 0x0A] @ concat (map (\<lambda>(k, v). k @ '': '' @ v @ [CHR 0x0A]) data)) fs"

definition AppendJsonLog :: "file_os \<Rightarrow> ('v \<Rightarrow> goerr + string) \<Rightarrow> string \<Rightarrow> 'v \<Rightarrow> files \<Rightarrow> goerr option \<times> files" where
  "AppendJsonLog os toJson path data fs = (case toJson data of Inl e \<Rightarrow> (Some e, fs) | Inr t \<Rightarrow> AppendToFile os path t fs)"

text \<open>An error of \<^verbatim>\<open>Stat\<close> other than that the file is missing counts as a file that exists.\<close>

definition PathExists :: "file_os \<Rightarrow> string \<Rightarrow> files \<Rightarrow> bool" where
  "PathExists os path fs \<longleftrightarrow> f_stat os path \<noteq> None \<or> fs path \<noteq> None"

definition EnsureFileExists :: "file_os \<Rightarrow> string \<Rightarrow> files \<Rightarrow> goerr option \<times> files" where
  "EnsureFileExists os path fs =
     (case f_mkdir os (f_dir os path) of
        Some e \<Rightarrow> (Some e, fs)
      | None \<Rightarrow>
          if \<not> PathExists os path fs then (case f_open os path of Some e \<Rightarrow> (Some e, fs) | None \<Rightarrow> (None, fs(path \<mapsto> [])))
          else (None, fs))"

section \<open>Lemmas\<close>

lemma clean_name_slash: "CHR ''/'' \<notin> set (clean_name s)"
  by (auto simp: clean_name_def forbidden_chars_def)

lemma clean_name_Nil [simp]: "clean_name s = [] \<longleftrightarrow> s = []"
  by (simp add: clean_name_def)

lemma crash_path: "CHR ''/'' \<notin> set n \<Longrightarrow> n \<noteq> [] \<Longrightarrow> path_Join ''./logs/crash'' n =
    (if n = ''.'' then ''logs/crash'' else if n = ''..'' then ''logs'' else ''logs/crash/'' @ n)"
  using SplitC_single [of "CHR ''/''" n] 
  by (simp add: path_Join_def filepath_Clean_def clean_parts_def clean_step_def filepath_IsAbs_def HasPrefix_def)

fun dir_option :: "'w CrashOption \<Rightarrow> string option" where
  "dir_option (WithCrashDir d) = (if TrimSpace d \<noteq> [] then Some d else None)"
| "dir_option _ = None"

definition chosen_dir :: "string \<Rightarrow> 'w CrashOption list \<Rightarrow> string" where
  "chosen_dir d opts = foldl (\<lambda>d opt. case dir_option opt of None \<Rightarrow> d | Some x \<Rightarrow> x) d opts"

lemma option_dir: "dir (apply_crash_option opt c) = (case dir_option opt of None \<Rightarrow> dir c | Some d \<Rightarrow> d)"
  by (cases opt) (auto split: option.splits)

lemma options_dir: "dir (foldl (\<lambda>c opt. apply_crash_option opt c) c opts) = chosen_dir (dir c) opts"
  by (induction opts arbitrary: c) (simp_all add: chosen_dir_def option_dir)

section \<open>Properties\<close>

text \<open>
  Where crashes are kept: the directory is the name of the server, without the characters that mean something in a path, below \<^verbatim>\<open>logs/crash\<close>, and that directory itself for a server without a name.  The cleaning does not cover the names of two dots and of one dot:
  the first leads out of the directory, the second to the directory that servers without a name share.
\<close>

theorem default_crash_dir:
  "defaultCrashDir server =
     (let n = clean_name (TrimSpace server)
      in if n = [] then ''./logs/crash'' else if n = ''.'' then ''logs/crash'' else if n = ''..'' then ''logs'' else ''logs/crash/'' @ n) \<and>
   CHR ''/'' \<notin> set (clean_name (TrimSpace server))"
  using crash_path [OF clean_name_slash, of "TrimSpace server"] clean_name_slash [of "TrimSpace server"]
  by (simp add: defaultCrashDir_def Let_def)

text \<open>
  The first start of the crash capture that succeeds decides: the reporter uses the last directory among the options of the caller that is not blank, and the default one without any; a later call changes nothing and reports with these settings; after a failed one the returned
  function does nothing.
\<close>

theorem bootstrap_settings:
  assumes "BootstrapCrashCapture os now up app opts (None, fs) = (active, err, r, fs1)"
  shows "case r of
      None \<Rightarrow> \<not> active \<and> err \<noteq> None \<and> crash_flush active env r fsw = Some (None, fsw)
    | Some (cfg, pid) \<Rightarrow> active \<and> err = None \<and> pid = getpid os \<and>
        dir cfg = chosen_dir (if TrimSpace (defaultCrashDir (app_server app)) = [] then ''./logs/crash'' else defaultCrashDir (app_server app)) opts \<and>
        BootstrapCrashCapture os' now' up' app' opts' (r, fs1) = (True, None, r, fs1)"
  using assms options_dir [of "apply_crash_option (WithCrashDir (defaultCrashDir (app_server app))) (defaultCrashConfig up)" opts]
  by (auto simp: BootstrapCrashCapture_def InitCrashReporter_def crash_flush_def Let_def defaultCrashConfig_def split: option.splits sum.splits if_splits)

text \<open>
  The kind of a configuration file: an explicit one counts, in lower case; otherwise what follows the last dot of the file's name, and YAML for a name without a dot or one that ends with it, whatever dots the directories have.
\<close>

theorem config_kind:
  assumes "CHR ''/'' \<notin> set b"
  shows "config_type (d @ ''/'' @ b) t =
     (if t \<noteq> [] then ToLower t
      else if CHR ''.'' \<in> set b \<and> last (SplitC b (CHR ''.'')) \<noteq> [] then ToLower (last (SplitC b (CHR ''.''))) else ''yaml'')"
proof -
  have "last (SplitC (d @ ''/'' @ b) (CHR ''/'')) = b" using SplitC_sep [of d "CHR ''/''" b] SplitC_single [OF assms] by simp
  then have "path_Ext (d @ ''/'' @ b) = (if CHR ''.'' \<in> set b then CHR ''.'' # last (SplitC b (CHR ''.'')) else [])" by (simp add: path_Ext_def)
  moreover have "lower_char (CHR ''.'') = CHR ''.''" by code_simp
  ultimately show ?thesis by (simp add: config_type_def ToLower_def HasPrefix_def)
qed

text \<open>
  Mail is encrypted exactly as the settings spell it: a message goes out with TLS or STARTTLS if and only if the model is one of these two words, and in plain for every other text, a word in capitals included.  Settings with a host and no port are replaced by those of
  Gmail, so the password of the configured host goes there.
\<close>

theorem mail_settings:
  assumes "email_Send load deliver (NewEmail c) from0 = (err, Some mcall)"
  shows "(mc_mode mcall = MailPlain \<longleftrightarrow> em_TlsModel (NewEmail c) \<notin> {TlsModelTLS, TlsModelStartTLS}) \<and>
    (em_SmtpHost c \<noteq> [] \<and> em_Port c = 0 \<longrightarrow> mc_address mcall = ''smtp.gmail.com:465'' \<and> fst (snd (snd (mc_auth mcall))) = em_Password c)"
proof -
  have p: "FormatInt 465 = ''465''" by code_simp
  show ?thesis using assms
    by (auto simp: email_Send_def Let_def NewEmail_def email_Tls_def Gmail_def TlsModelTLS_def TlsModelStartTLS_def p split: sum.splits if_splits)
qed

text \<open>
  The pool of the Mongo client: its limits are in order unless exactly one of them is configured past the default of the other one; a maximum below ten alone asks for more idle connections than there may be.
\<close>

theorem mongo_pool_limits:
  "mo_min (buildClientOpts c) \<le> mo_max (buildClientOpts c) \<longleftrightarrow>
     (if mg_MaxPoolSize c = 0 then mg_MinPoolSize c \<le> 100 else if mg_MinPoolSize c = 0 then 10 \<le> mg_MaxPoolSize c else mg_MinPoolSize c \<le> mg_MaxPoolSize c)"
  by (auto simp: buildClientOpts_def)

text \<open>
  Nothing written to a file is lost: texts that are appended without an error stand in it in order, each with a line end, behind what it had; and making sure that a file exists leaves the files as they are if it does.
\<close>

theorem file_appends:
  assumes "f_mkdir os (f_dir os path) = None" "f_open os path = None" "f_write os path = None"
  shows "snd (foldl (\<lambda>(e, fs) t. AppendToFile os path t fs) (None, fs) (t # ts)) =
      fs(path \<mapsto> (case fs path of None \<Rightarrow> [] | Some old \<Rightarrow> old) @ concat (map (\<lambda>t. t @ [CHR 0x0A]) (t # ts))) \<and>
    (fs path \<noteq> None \<longrightarrow> EnsureFileExists os path fs = (None, fs)) \<and>
    (fs path = None \<and> f_stat os path = None \<longrightarrow> EnsureFileExists os path fs = (None, fs(path \<mapsto> [])))"
proof -
  have step: "AppendToFile os path t fs = (None, fs(path \<mapsto> (case fs path of None \<Rightarrow> [] | Some old \<Rightarrow> old) @ t @ [CHR 0x0A]))" for t fs
    using assms by (simp add: AppendToFile_def Let_def)
  have "snd (foldl (\<lambda>(e, fs) t. AppendToFile os path t fs) (e, fs(path \<mapsto> old)) ts) = fs(path \<mapsto> old @ concat (map (\<lambda>t. t @ [CHR 0x0A]) ts))" for e old
    by (induction ts arbitrary: e old) (simp_all add: step)
  then show ?thesis using assms by (simp add: step EnsureFileExists_def PathExists_def)
qed

text \<open>
  Arrays survive the database, up to the difference between no slice and an empty one, if the package reads back what it writes.
\<close>

theorem array_roundtrip:
  assumes "scan ''{}'' = Inr (Some [])" "\<forall>xs v. xs \<noteq> [] \<and> value_of xs = Inr (Some v) \<longrightarrow> v \<noteq> [] \<and> scan v = Inr (Some xs)" "\<forall>xs. xs \<noteq> [] \<longrightarrow> value_of xs \<noteq> Inr None"
  shows "array_ToDB value_of s = Inr t \<Longrightarrow> array_FromDB scan t = Inr (Some (case s of None \<Rightarrow> [] | Some xs \<Rightarrow> xs))"
  using assms by (auto simp: array_ToDB_def array_FromDB_def split: option.splits if_splits sum.splits)

end
