(* ===== verification/Ws_Read.thy ===== *)
theory Ws_Read
  imports Ws_Conn Coroutines Float64
begin

text \<open>
  The reading side of the WebSockets (\<^verbatim>\<open>net/ws\<close>): the loop of a server connection with its read deadline and handlers, the one of the client, and the client's pause before it dials again.  Time is nanoseconds; what the peer sends is a list of frames with their
  arrival times.
\<close>

section \<open>A connection of the server\<close>

text \<open>
  A frame is buffered if the reader already holds it when it is asked for; other frames are read from the socket, which fails once the deadline has passed, and the read of a frame that never comes fails then, too.
\<close>

datatype frame_kind = RMsg nat string | RPing string | RPong | RError goerr

record in_frame =
  fr_at :: int
  fr_buffered :: bool
  fr_kind :: frame_kind

definition ErrTimeout :: goerr where "ErrTimeout = ErrNew ''i/o timeout''"

text \<open>
  What the loop runs in: the recovery of callbacks, the message callback on the world \<open>'s\<close> and how long it takes, whether the connection is marked closed, and the result of writing a pong.
\<close>

record ('s, 'd) read_env =
  re_stack :: stack
  re_dump :: string
  re_message :: "nat \<Rightarrow> string \<Rightarrow> 's \<Rightarrow> 'd panic_value option \<times> 's"
  re_takes :: "nat \<Rightarrow> string \<Rightarrow> int"
  re_closed :: bool
  re_pong :: "string \<Rightarrow> goerr option"

definition on_message :: "('s, 'd) read_env \<Rightarrow> Config \<Rightarrow> nat \<Rightarrow> string \<Rightarrow> 's \<times> 'd perr list \<Rightarrow> 's \<times> 'd perr list" where
  "on_message E cfg mt data w = (if OnMessage_set cfg then SafeFunc (re_stack E) (re_dump E) (re_message E mt data) w else w)"

definition ping_handler :: "('s, 'd) read_env \<Rightarrow> string \<Rightarrow> goerr option" where
  "ping_handler E app = (if re_closed E then None else re_pong E app)"

text \<open>\<open>now\<close> is when the next read is called, \<open>deadline\<close> the read deadline in force.\<close>

fun run_loop :: "('s, 'd) read_env \<Rightarrow> Config \<Rightarrow> int \<Rightarrow> int \<Rightarrow> in_frame list \<Rightarrow> 's \<times> 'd perr list \<Rightarrow> goerr \<times> 's \<times> 'd perr list" where
  "run_loop E cfg now deadline [] w = (ErrTimeout, w)"
| "run_loop E cfg now deadline (f # fs) w =
     (let t = max now (fr_at f)
      in if \<not> fr_buffered f \<and> t > deadline then (ErrTimeout, w)
         else case fr_kind f of
                RError e \<Rightarrow> (e, w)
              | RPong \<Rightarrow> run_loop E cfg t (t + ReadTimeout cfg) fs w
              | RPing app \<Rightarrow>
                  (case ping_handler E app of
                     Some e \<Rightarrow> (e, w)
                   | None \<Rightarrow> run_loop E cfg t (t + ReadTimeout cfg) fs w)
              | RMsg mt data \<Rightarrow>
                  run_loop E cfg (t + (if OnMessage_set cfg then re_takes E mt data else 0)) (t + ReadTimeout cfg) fs (on_message E cfg mt data w))"

text \<open>The error is what \<^verbatim>\<open>Close\<close> gets when the loop returns.\<close>

definition Conn_run :: "('s, 'd) read_env \<Rightarrow> Config \<Rightarrow> int \<Rightarrow> in_frame list \<Rightarrow> 's \<times> 'd perr list \<Rightarrow> goerr \<times> 's \<times> 'd perr list" where
  "Conn_run E cfg now fs w = run_loop E cfg now (now + ReadTimeout cfg) fs w"

text \<open>
  A request that is upgraded, for a connection that nobody else closes: it is registered, the upgrade callback runs without recovery and may panic, the connect callback is recovered, the loop runs, and when it returns the connection is closed, which removes it and runs the
  close callback with the error.  The result: the registered connections, whether the upgrade callback panicked, the world and the reports.
\<close>

definition ServeHTTP :: "('s, 'd) read_env \<Rightarrow> Config \<Rightarrow> goerr option \<Rightarrow> nat \<Rightarrow> ('s \<Rightarrow> bool \<times> 's) \<Rightarrow> ('s \<Rightarrow> 'd panic_value option \<times> 's) \<Rightarrow>
    (goerr \<Rightarrow> 's \<Rightarrow> 'd panic_value option \<times> 's) \<Rightarrow> int \<Rightarrow> in_frame list \<Rightarrow> nat set \<times> 's \<times> 'd perr list \<Rightarrow> nat set \<times> bool \<times> 's \<times> 'd perr list" where
  "ServeHTTP E cfg upgraded conn onUpgrade onConnect onClose now fs st =
     (case st of (conns, s, reps) \<Rightarrow>
        (case upgraded of
           Some e \<Rightarrow> (conns, False, s, reps)
         | None \<Rightarrow>
             let conns1 = addConn conn conns
             in case (if OnUpgrade_set cfg then onUpgrade s else (False, s)) of
                  (True, s1) \<Rightarrow> (conns1, True, s1, reps)
                | (False, s1) \<Rightarrow>
                    let w1 = (if OnConnect_set cfg then SafeFunc (re_stack E) (re_dump E) onConnect (s1, reps) else (s1, reps))
                    in (case Conn_run E cfg now fs w1 of (e, w2) \<Rightarrow>
                          (removeConn conn conns1, False, if OnClose_set cfg then SafeFunc (re_stack E) (re_dump E) (onClose e) w2 else w2))))"

section \<open>The client\<close>

text \<open>The client sets no deadline: without another frame, and without an end of its context (\<open>ctx\<close> before a read), it waits for ever, the result \<^term>\<open>None\<close>.\<close>

fun readLoop :: "('s, 'd) read_env \<Rightarrow> (nat \<Rightarrow> bool) \<Rightarrow> bool \<Rightarrow> nat \<Rightarrow> (goerr + nat \<times> string) list \<Rightarrow> 's \<times> 'd perr list \<Rightarrow> (goerr option \<times> 's \<times> 'd perr list) option" where
  "readLoop E ctx given i fs w =
     (if ctx i then Some (None, w)
      else case fs of
             [] \<Rightarrow> None
           | Inl e # _ \<Rightarrow> Some (Some e, w)
           | Inr (mt, data) # fs' \<Rightarrow>
               readLoop E ctx given (Suc i) fs' (if given then SafeFunc (re_stack E) (re_dump E) (re_message E mt data) w else w))"

text \<open>\<^verbatim>\<open>math.Pow(2, x)\<close> for a natural number is exact or infinite.\<close>

definition f_pow2 :: "nat \<Rightarrow> f64" where
  "f_pow2 n = (if n \<le> 1023 then Fin (2 ^ n) else PInf)"

definition ws_backoff :: "('h, 'd) Client \<Rightarrow> f64 \<Rightarrow> int \<Rightarrow> int" where
  "ws_backoff c rnd attempt =
     (let a = (if attempt < 0 then 0 else attempt);
          baseTime = f_of_int (retryBase c); maxTime = f_of_int (retryMax c);
          d0 = f_mul baseTime (f_pow2 (nat a));
          d1 = (if f_less maxTime d0 then maxTime else d0);
          jitter = f_add (Fin (1 / 2)) rnd;
          d2 = f_mul d1 jitter;
          d3 = (if f_le d2 (Fin 0) then baseTime else d2)
      in f_to_int64 d3)"

section \<open>Lemmas\<close>

definition message_of :: "in_frame \<Rightarrow> (nat \<times> string) list" where
  "message_of f = (case fr_kind f of RMsg mt data \<Rightarrow> [(mt, data)] | _ \<Rightarrow> [])"

definition messages :: "in_frame list \<Rightarrow> (nat \<times> string) list" where
  "messages fs = concat (map message_of fs)"

definition deliver_all :: "('s, 'd) read_env \<Rightarrow> Config \<Rightarrow> (nat \<times> string) list \<Rightarrow> 's \<times> 'd perr list \<Rightarrow> 's \<times> 'd perr list" where
  "deliver_all E cfg ms w = foldl (\<lambda>w (mt, data). on_message E cfg mt data w) w ms"

lemma messages_Cons: "messages (f # fs) = message_of f @ messages fs"
  by (simp add: messages_def)

lemma deliver_Cons [simp]: "deliver_all E cfg ((mt, data) # ms) w = deliver_all E cfg ms (on_message E cfg mt data w)"
  by (simp add: deliver_all_def)

lemma deliver_Nil [simp]: "deliver_all E cfg [] w = w"
  by (simp add: deliver_all_def)

text \<open>The loop ends before frame \<open>k\<close> for a reason: time, the error that the read returned, or a pong that could not be written.\<close>

definition stopped_at :: "('s, 'd) read_env \<Rightarrow> in_frame list \<Rightarrow> nat \<Rightarrow> goerr \<Rightarrow> bool" where
  "stopped_at E fs k e \<longleftrightarrow> k \<le> length fs \<and>
     (e = ErrTimeout \<or> (k < length fs \<and> (fr_kind (fs ! k) = RError e \<or> (\<exists>app. fr_kind (fs ! k) = RPing app \<and> ping_handler E app = Some e))))"

lemma stopped_later: "stopped_at E fs k e \<Longrightarrow> stopped_at E (f # fs) (Suc k) e"
  by (simp add: stopped_at_def)

lemma run_loop_prefix: "\<exists>k. stopped_at E fs k (fst (run_loop E cfg now deadline fs w)) \<and>
    snd (run_loop E cfg now deadline fs w) = deliver_all E cfg (messages (take k fs)) w"
proof (induction fs arbitrary: now deadline w)
  case Nil
  then show ?case by (simp add: messages_def stopped_at_def)
next
  case (Cons f fs)
  let ?t = "max now (fr_at f)"
  have go: ?case if "run_loop E cfg now deadline (f # fs) w = run_loop E cfg n d fs v" "deliver_all E cfg (messages (f # take k fs)) w = deliver_all E cfg (messages (take k fs)) v"
    "stopped_at E fs k (fst (run_loop E cfg n d fs v))" "snd (run_loop E cfg n d fs v) = deliver_all E cfg (messages (take k fs)) v" for n d v k
    using that stopped_later [OF that(3), of f] by (intro exI [of _ "Suc k"]) simp
  have here: ?case if "run_loop E cfg now deadline (f # fs) w = (e, w)" "stopped_at E (f # fs) 0 e" for e
    using that by (intro exI [of _ 0]) (simp add: messages_def)
  show ?case
  proof (cases "\<not> fr_buffered f \<and> ?t > deadline")
    case True
    then show ?thesis by (intro here [of ErrTimeout]) (simp_all add: Let_def stopped_at_def)
  next
    case in_time: False
    show ?thesis
    proof (cases "fr_kind f")
      case (RMsg mt data)
      show ?thesis using Cons.IH [of "?t + (if OnMessage_set cfg then re_takes E mt data else 0)" "?t + ReadTimeout cfg" "on_message E cfg mt data w"]
        by (elim exE conjE, intro go) (use RMsg in_time in \<open>auto simp: messages_Cons message_of_def Let_def\<close>)
    next
      case (RPing app)
      show ?thesis
      proof (cases "ping_handler E app")
        case None
        show ?thesis using Cons.IH [of ?t "?t + ReadTimeout cfg" w]
          by (elim exE conjE, intro go) (use RPing None in_time in \<open>auto simp: messages_Cons message_of_def Let_def\<close>)
      next
        case (Some e)
        then show ?thesis using RPing in_time by (intro here [of e]) (auto simp: Let_def stopped_at_def)
      qed
    next
      case RPong
      show ?thesis using Cons.IH [of ?t "?t + ReadTimeout cfg" w]
        by (elim exE conjE, intro go) (use RPong in_time in \<open>auto simp: messages_Cons message_of_def Let_def\<close>)
    next
      case (RError e)
      then show ?thesis using in_time by (intro here [of e]) (auto simp: Let_def stopped_at_def)
    qed
  qed
qed

text \<open>
  A peer that is prompt: from each frame to the next it takes at most the read timeout, it sends no error frame, and its pings can be answered.
\<close>

fun prompt :: "('s, 'd) read_env \<Rightarrow> Config \<Rightarrow> int \<Rightarrow> in_frame list \<Rightarrow> bool" where
  "prompt E cfg since [] \<longleftrightarrow> True"
| "prompt E cfg since (f # fs) \<longleftrightarrow> since \<le> fr_at f \<and> fr_at f \<le> since + ReadTimeout cfg \<and>
     (case fr_kind f of RError e \<Rightarrow> False | RPing app \<Rightarrow> ping_handler E app = None | _ \<Rightarrow> True) \<and> prompt E cfg (fr_at f) fs"

lemma prompt_all:
  assumes "prompt E cfg since fs" "\<forall>mt data. re_takes E mt data = 0" "deadline = since + ReadTimeout cfg"
  shows "run_loop E cfg since deadline fs w = (ErrTimeout, deliver_all E cfg (messages fs) w)"
  using assms(1,3)
proof (induction fs arbitrary: since deadline w)
  case (Cons f fs)
  then show ?case using assms(2) by (auto simp: messages_Cons message_of_def Let_def max_def split: frame_kind.splits option.splits if_splits)
qed (simp add: messages_def)

lemma fl_three_halves: "fl (3 / 2) = 3 / 2"
proof -
  have q: "quotient_of (3 / 2) = (3, 2)" by code_simp
  have b: "bitlen 3 = 2" "bitlen 2 = 2" by code_simp+
  have "flog2 (3 / 2) = 0" by (simp add: flog2_def q b)
  then have u: "ulp_exp (3 / 2) = - 52" by (simp add: ulp_exp_def)
  have e: "(3 / 2 :: rat) / 2 powi - 52 = of_int (3 * 2 ^ 51)" by (simp add: power_int_minus)
  show ?thesis unfolding fl_def u e round_even_int by (simp add: power_int_minus)
qed

lemma jitter_between:
  assumes "0 \<le> q" "q \<le> 1"
  obtains j where "f_add (Fin (1 / 2)) (Fin q) = Fin j" "1 / 2 \<le> j" "j \<le> 3 / 2"
proof -
  have "f_round (1 / 2 + q) = Fin (fl (1 / 2 + q))" using assms by (intro f_round_Fin [of _ 2]) simp_all
  moreover have "1 / 2 \<le> fl (1 / 2 + q)" using fl_mono [of "1 / 2" "1 / 2 + q"] assms(1) by (simp add: fl_half)
  moreover have "fl (1 / 2 + q) \<le> 3 / 2" using fl_mono [of "1 / 2 + q" "3 / 2"] assms(2) by (simp add: fl_three_halves)
  ultimately show thesis using that by simp
qed

lemma capped_between:
  assumes "0 < b" "b \<le> m" "m < 2 ^ 52" "d0 = f_mul (f_of_int b) (f_pow2 n)"
  obtains y where "(if f_less (f_of_int m) d0 then f_of_int m else d0) = Fin y" "of_int b \<le> y" "y \<le> of_int m"
proof -
  have fb: "f_of_int b = Fin (of_int b)" "f_of_int m = Fin (of_int m)" using assms(1-3) by (simp_all add: f_of_int_small)
  have "d0 = PInf \<or> (\<exists>y. d0 = Fin y \<and> of_int b \<le> y)"
  proof (cases "n \<le> 1023")
    case True
    have "(of_int b :: rat) * 1 \<le> of_int b * 2 ^ n" using assms(1) by (intro mult_left_mono) simp_all
    then have "of_int b \<le> fl (of_int b * 2 ^ n)" using fl_ge_int [of b] assms(1-3) by simp
    moreover have "\<not> fl (of_int b * 2 ^ n) \<le> - (2 ^ 1024)"
    proof -
      have "(0 :: rat) < of_int b" "(0 :: rat) < 2 ^ 1024" using assms(1) by simp_all
      then show ?thesis using calculation by linarith
    qed
    ultimately show ?thesis using assms(4) fb True by (auto simp: f_pow2_def f_round_def Let_def)
  next
    case False
    then show ?thesis using assms(1,4) fb by (simp add: f_pow2_def inf_of_sign_def)
  qed
  then show thesis
  proof
    assume "d0 = PInf"
    then show thesis using that [of "of_int m"] fb assms(2) by simp
  next
    assume "\<exists>y. d0 = Fin y \<and> of_int b \<le> y"
    then obtain y where y: "d0 = Fin y" "of_int b \<le> y" by blast
    then show thesis using that [of y] that [of "of_int m"] fb assms(2) by (cases "of_int m < y") simp_all
  qed
qed

section \<open>Properties\<close>

text \<open>
  The loop of a connection delivers what came in time, in order, and ends: the callback gets the messages of the frames before the first one that is late, an error, or a ping that cannot be answered, each once and in order, whatever callbacks panic; then the loop
  returns with that reason, so a peer that falls silent is dropped at the read deadline.
\<close>

theorem conn_run_delivers:
  "\<exists>k. stopped_at E fs k (fst (Conn_run E cfg now fs w)) \<and> snd (Conn_run E cfg now fs w) = deliver_all E cfg (messages (take k fs)) w"
  unfolding Conn_run_def by (rule run_loop_prefix)

text \<open>
  A connection leaves the registry when its loop ends, and the others stay; but when the upgrade callback panics, the connection stays registered for good: nobody recovers in between, and its loop, which would close it, never starts.
\<close>

theorem upgrade_panic_leaks:
  assumes "conn \<notin> conns" "ServeHTTP E cfg upgraded conn onUpgrade onConnect onClose now fs (conns, s, reps) = (conns', panicked, w)"
  shows "conns' - {conn} = conns \<and> (conn \<in> conns' \<longleftrightarrow> panicked) \<and> (panicked \<longleftrightarrow> upgraded = None \<and> OnUpgrade_set cfg \<and> fst (onUpgrade s))"
  using assms by (auto simp: ServeHTTP_def Let_def addConn_def removeConn_def split: option.splits prod.splits bool.splits if_splits)

text \<open>
  The deadline is set before the callback runs and nothing moves it meanwhile, so with a callback that takes longer than the read timeout a frame that arrived in time is lost unless it was buffered: the connection ends with a timeout.  With callbacks that take no time every
  message of a prompt peer is delivered.
\<close>

theorem slow_callback_drops:
  assumes "OnMessage_set cfg" "0 \<le> ReadTimeout cfg" "ReadTimeout cfg < re_takes E mt data"
    "fr_kind f = RMsg mt data" "fr_at f = now" "\<not> fr_buffered g" "fr_at g \<le> now + ReadTimeout cfg"
  shows "Conn_run E cfg now (f # g # fs) w = (ErrTimeout, on_message E cfg mt data w) \<and>
    (prompt E' cfg now hs \<and> (\<forall>mt data. re_takes E' mt data = 0) \<longrightarrow> snd (Conn_run E' cfg now hs w') = deliver_all E' cfg (messages hs) w')"
  using assms prompt_all [of E' cfg now hs "now + ReadTimeout cfg" w'] by (auto simp: Conn_run_def Let_def)

text \<open>
  C35. The pause before a new attempt stays in its bounds: for a base and a maximum in order and below 52 days, whatever the attempt and the random number, it is at least half the base and at most one and a half times the maximum; no power of two overflows.
\<close>

theorem ws_backoff_bounds:
  assumes "0 < retryBase c" "retryBase c \<le> retryMax c" "retryMax c < 2 ^ 52" "0 \<le> q" "q < 1"
  shows "retryBase c div 2 \<le> ws_backoff c (Fin q) attempt \<and> ws_backoff c (Fin q) attempt \<le> (3 * retryMax c + 1) div 2"
proof -
  let ?b = "retryBase c" and ?m = "retryMax c" and ?a = "nat (if attempt < 0 then 0 else attempt)"
  let ?d0 = "f_mul (f_of_int ?b) (f_pow2 ?a)"
  obtain y where y: "(if f_less (f_of_int ?m) ?d0 then f_of_int ?m else ?d0) = Fin y" "of_int ?b \<le> y" "y \<le> of_int ?m"
    by (rule capped_between [OF assms(1-3) HOL.refl])
  obtain j where j: "f_add (Fin (1 / 2)) (Fin q) = Fin j" "1 / 2 \<le> j" "j \<le> 3 / 2"
    by (rule jitter_between [of q]) (use assms(4,5) in auto)
  have b0: "(0 :: rat) < of_int ?b" using assms(1) by simp
  have "of_int ?b * (1 / 2) \<le> y * j" using y(2) j(2) b0 by (intro mult_mono) simp_all
  moreover have "2 * of_int (?b div 2) \<le> (of_int ?b :: rat)"
  proof -
    have "(of_int (2 * (?b div 2)) :: rat) \<le> of_int ?b" by (rule of_int_le_iff [THEN iffD2]) simp
    then show ?thesis by simp
  qed
  ultimately have lo: "of_int (?b div 2) \<le> y * j" by simp
  have "y * j \<le> of_int ?m * (3 / 2)" using y j b0 by (intro mult_mono) simp_all
  moreover have "3 * (of_int ?m :: rat) \<le> 2 * of_int ((3 * ?m + 1) div 2)"
  proof -
    have "(of_int (3 * ?m) :: rat) \<le> of_int (2 * ((3 * ?m + 1) div 2))" by (rule of_int_le_iff [THEN iffD2]) linarith
    then show ?thesis by simp
  qed
  ultimately have hi: "y * j \<le> of_int ((3 * ?m + 1) div 2)" by simp
  have range: "\<bar>?b div 2\<bar> < 2 ^ 53" "\<bar>(3 * ?m + 1) div 2\<bar> < 2 ^ 53" "0 \<le> ?b div 2" "(3 * ?m + 1) div 2 < 2 ^ 53" using assms(1-3) by simp_all
  obtain z where z: "f_round (y * j) = Fin z" "of_int (?b div 2) \<le> z" "z \<le> of_int ((3 * ?m + 1) div 2)"
    by (rule f_round_between [OF lo hi range(1,2)])
  have "?b div 2 \<le> f_to_int64 (if f_le (Fin z) (Fin 0) then f_of_int ?b else Fin z) \<and>
      f_to_int64 (if f_le (Fin z) (Fin 0) then f_of_int ?b else Fin z) \<le> (3 * ?m + 1) div 2"
  proof (cases "f_le (Fin z) (Fin 0)")
    case True
    have "?b div 2 \<le> ?b" "?b \<le> (3 * ?m + 1) div 2" using assms(1,2) by linarith+
    then show ?thesis using True f_to_int64_between [of "?b div 2" "of_int ?b" "(3 * ?m + 1) div 2"] range(3,4) assms(1-3)
      by (simp add: f_of_int_small del: f_to_int64.simps)
  next
    case False
    then show ?thesis using f_to_int64_between [OF z(2,3) range(3,4)] by (simp del: f_to_int64.simps)
  qed
  moreover have "ws_backoff c (Fin q) attempt = f_to_int64 (if f_le (Fin z) (Fin 0) then f_of_int ?b else Fin z)"
    unfolding ws_backoff_def Let_def y(1) j(1) f_mul.simps z(1) ..
  ultimately show ?thesis by simp
qed

section \<open>Witnesses\<close>

definition demo_read :: "(string list, unit) read_env" where
  "demo_read = \<lparr>re_stack = [], re_dump = [], re_message = (\<lambda>mt data s. (None, s @ [data])), re_takes = (\<lambda>_ _. 70), re_closed = False, re_pong = (\<lambda>_. None)\<rparr>"

definition demo_ws_cfg :: Config where
  "demo_ws_cfg = \<lparr>ReadTimeout = 60, PingInterval = 20, WriteTimeout = 5, OnUpgrade_set = False, OnMessage_set = True, OnConnect_set = False, OnClose_set = False\<rparr>"

theorem slow_callback_drops_witness:
  "fst (Conn_run demo_read demo_ws_cfg 0 [\<lparr>fr_at = 0, fr_buffered = False, fr_kind = RMsg 1 ''a''\<rparr>, \<lparr>fr_at = 30, fr_buffered = False, fr_kind = RMsg 1 ''b''\<rparr>] ([], [])) = ErrTimeout"
  using slow_callback_drops [of demo_ws_cfg demo_read 1 "''a''" "\<lparr>fr_at = 0, fr_buffered = False, fr_kind = RMsg 1 ''a''\<rparr>" 0
      "\<lparr>fr_at = 30, fr_buffered = False, fr_kind = RMsg 1 ''b''\<rparr>" "[]" "([], [])" demo_read "[]" "([], [])"]
  by (simp add: demo_ws_cfg_def demo_read_def)

theorem ws_backoff_bounds_witness:
  "10 ^ 9 div 2 \<le> ws_backoff (NewClient ''ws://h'' [] :: (unit, unit) Client) (Fin (3 / 4)) 2000"
  using ws_backoff_bounds [of "NewClient ''ws://h'' [] :: (unit, unit) Client" "3 / 4" 2000] by (simp add: NewClient_def)

end
