(* ===== verification/Http_Result.thy ===== *)
theory Http_Result
  imports Net_Http Cast Go_Errors
begin

text \<open>
  Reading the result of an HTTP request, \<^verbatim>\<open>net/http/result.go\<close>: the text at a path of the answer, converted with the utilities of \<^verbatim>\<open>common/utils\<close> to what the caller wants; and the log of a result on demand.  The JSON libraries are the parameters of the two components it
  joins.
\<close>

section \<open>Operations\<close>

definition parse_error :: "stack \<Rightarrow> 'v henv \<Rightarrow> 'v hdata \<Rightarrow> goerr \<Rightarrow> 'd perr" where
  "parse_error st env c err =
     the (Err st (Some (Opaque err)) [''response parse error, response: '' @ logJson env (BuildLogMap env c)])"

text \<open>The outer \<^term>\<open>None\<close> is a panic.  Without a target nothing is converted; the result is what is stored in the target.\<close>

datatype parse_target = NoTarget | BadTarget | TargetPtr gokind

definition ParseTo :: "stack \<Rightarrow> ('f, 'j) conv_lib \<Rightarrow> 'v henv \<Rightarrow> (string \<Rightarrow> string \<Rightarrow> string option) \<Rightarrow> 'v hdata \<Rightarrow> string \<Rightarrow> parse_target \<Rightarrow>
    ('d perr + ('f, 'j) goval option) option" where
  "ParseTo st lib env gjPath c path dest =
     (case parseJSON env gjPath c path of
        Inl e \<Rightarrow> Some (Inl (Opaque e))
      | Inr respJson \<Rightarrow>
          (case dest of
             NoTarget \<Rightarrow> Some (Inr None)
           | _ \<Rightarrow>
               (case AnyToAnyPtr lib (Any string_type (VString respJson)) (case dest of TargetPtr k \<Rightarrow> Some k | _ \<Rightarrow> None) of
                  None \<Rightarrow> None
                | Some (Inl e) \<Rightarrow> Some (Inl (parse_error st env c e))
                | Some (Inr v) \<Rightarrow> Some (Inr (Some v)))))"

definition result_Parse :: "stack \<Rightarrow> ('f, 'j) conv_lib \<Rightarrow> 'v henv \<Rightarrow> (string \<Rightarrow> string \<Rightarrow> string option) \<Rightarrow> 'v hdata \<Rightarrow> string \<Rightarrow> gotype \<Rightarrow>
    ('d perr + ('f, 'j) goval) option" where
  "result_Parse st lib env gjPath c path t =
     (case parseJSON env gjPath c path of
        Inl e \<Rightarrow> Some (Inl (Opaque e))
      | Inr respJson \<Rightarrow>
          (case AnyToAny lib (Any string_type (VString respJson)) t of
             None \<Rightarrow> None
           | Some (Inl e) \<Rightarrow> Some (Inl (parse_error st env c e))
           | Some (Inr v) \<Rightarrow> Some (Inr v)))"

text \<open>An error is a panic, too.\<close>

definition MustParse :: "('f, 'j) conv_lib \<Rightarrow> 'v henv \<Rightarrow> (string \<Rightarrow> string \<Rightarrow> string option) \<Rightarrow> 'v hdata \<Rightarrow> string \<Rightarrow> gotype \<Rightarrow> ('f, 'j) goval option" where
  "MustParse lib env gjPath c path t =
     (case (result_Parse [] lib env gjPath c path t :: (unit perr + ('f, 'j) goval) option) of Some (Inr v) \<Rightarrow> Some v | _ \<Rightarrow> None)"

definition result_Log :: "'v henv \<Rightarrow> bool \<Rightarrow> bool \<Rightarrow> 'v hdata \<Rightarrow> 'v log_event list" where
  "result_Log env sendErrorMsg hasEntry c =
     (let logMap = BuildLogMap env c
      in if hError c \<noteq> None then (if hasEntry then [LogError logMap] else []) @ (if sendErrorMsg then [Notify logMap] else [])
         else (if hasEntry then [LogInfo logMap] else []))"

section \<open>Lemmas\<close>

lemma text_ToString: "ToString lib (Any string_type (VString s)) = Some (Inr s)"
  by (simp add: ToString_def string_type_def)

lemma AnyToAny_text: "AnyToAny lib (Any string_type (VString s)) t = (if t = string_type then Some (Inr (VString s)) else StringTo lib s t)"
  by (simp add: AnyToAny_def through_string_def text_ToString)

lemma AnyToAny_text_typed: "AnyToAny lib (Any string_type (VString s)) t = Some (Inr v) \<Longrightarrow> well_typed (kind t) v"
proof -
  have e: "StringTo lib s t = StringToPtr lib s (kind t)"
    by (cases "kind t") (auto simp: StringTo_def stringToFast_def on_ok_def split: sum.splits)
  show "AnyToAny lib (Any string_type (VString s)) t = Some (Inr v) \<Longrightarrow> well_typed (kind t) v"
    unfolding AnyToAny_text e by (auto simp: StringToPtr_typed string_type_def split: if_splits)
qed

text \<open>The text that a result gives for a path, if any.\<close>

definition answer_text :: "'v henv \<Rightarrow> (string \<Rightarrow> string \<Rightarrow> string option) \<Rightarrow> 'v hdata \<Rightarrow> string \<Rightarrow> string option" where
  "answer_text env gjPath c path =
     (case hResponse c of
        Some r \<Rightarrow>
          if hError c = None \<and> 200 \<le> StatusCode r \<and> StatusCode r < 300 \<and> njValid env (RespBody r)
          then (if path = [] then Some (RespBody r) else gjPath (RespBody r) path) else None
      | None \<Rightarrow> None)"

lemma parseJSON_answer: "(\<exists>e. parseJSON env gjPath c path = Inl e) \<longleftrightarrow> answer_text env gjPath c path = None"
  "parseJSON env gjPath c path = Inr s \<longleftrightarrow> answer_text env gjPath c path = Some s"
  by (auto simp: parseJSON_def answer_text_def split: option.splits)

lemma result_Parse_iff: "result_Parse st lib env gjPath c path t = Some (Inr v) \<longleftrightarrow>
    (\<exists>s. answer_text env gjPath c path = Some s \<and> AnyToAny lib (Any string_type (VString s)) t = Some (Inr v))"
  by (auto simp: result_Parse_def parseJSON_answer(2) [symmetric] split: sum.splits option.splits)

lemma MustParse_iff: "MustParse lib env gjPath c path t = Some v \<longleftrightarrow>
    (\<exists>s. answer_text env gjPath c path = Some s \<and> AnyToAny lib (Any string_type (VString s)) t = Some (Inr v))"
proof -
  have "MustParse lib env gjPath c path t = Some v \<longleftrightarrow> (result_Parse [] lib env gjPath c path t :: (unit perr + _) option) = Some (Inr v)"
    by (auto simp: MustParse_def split: option.splits sum.splits)
  then show ?thesis by (simp only: result_Parse_iff)
qed

lemma ParseTo_iff: "ParseTo st lib env gjPath c path (TargetPtr k) = Some (Inr (Some v)) \<longleftrightarrow>
    (\<exists>s. answer_text env gjPath c path = Some s \<and> StringToPtr lib s k = Some (Inr v))"
  by (auto simp: ParseTo_def AnyToAnyPtr_def through_string_def text_ToString parseJSON_answer(2) [symmetric] split: sum.splits option.splits)

section \<open>Properties\<close>


section \<open>Witnesses\<close>

definition demo_result :: "unit hdata" where
  "demo_result = \<lparr>hRequest = \<lparr>Method = ''GET'', URL = ''u'', Query = [], ReqBody = BodyNil, Headers = None, Timeout = 0\<rparr>,
     hResponse = Some \<lparr>StatusCode = 200, Header = (\<lambda>_. None), RespBody = ''-128'', StatsOf = None\<rparr>, hError = None, hErrors = [], hvalues = Map.empty, htick = 0, hsent = [], hlogs = []\<rparr>"


end
