(* ===== verification/Spec2Isabelle.thy ===== *)
theory Spec2Isabelle
  imports Http_Transport Request_Pool Dlock Single_Run Encry App_Auth Crash_Report Coroutines Safe_Chan Gorm_Query Rabbit_Mq Ws_Conn Exporter
    Time_Range Request_Log Gin_Handlers Gorm_Exec Redis_Client Scheduler Logging Chain_Tools Service_Setup Ws_Read Http_Result
begin

text \<open>
  A verification of the Go library \<^verbatim>\<open>go-lib\<close>: infrastructure for services -- a pool of RPC nodes, an HTTP client, caches, locks,
  message queues, WebSockets, query building and the utilities these share.  All paths below are relative to \<^verbatim>\<open>src/\<close>.

  \<^bold>\<open>The parts and how they meet.\<close>  A request to a pool of nodes (\<^verbatim>\<open>provider/nodepool\<close>) is dispatched by a strategy over nodes with circuit
  breakers and throttles; its transport (\<^verbatim>\<open>httpTransport\<close>) runs it through the HTTP client (\<^verbatim>\<open>net/http\<close>), whose middlewares sign, retry,
  log and recover.  The signature is checked on the other side by the server's middleware (\<^verbatim>\<open>HTTPServer/gin/handler\<close>), which keeps its
  replay store in a cache (\<^verbatim>\<open>cache\<close>) and reads numbers with the conversions of \<^verbatim>\<open>common/utils\<close>.  Errors travel as values of \<^verbatim>\<open>err\<close> and are
  reported through \<^verbatim>\<open>notify\<close> and the senders of \<^verbatim>\<open>provider/message\<close>, which again use the cache and the HTTP client; the crash reporter sends
  its dumps the same way.  \<^verbatim>\<open>requestPool\<close>, \<^verbatim>\<open>dlock\<close>, \<^verbatim>\<open>coroutines\<close>, \<^verbatim>\<open>SingleRun\<close>, \<^verbatim>\<open>SafeChan\<close>, \<^verbatim>\<open>net/ws\<close> and \<^verbatim>\<open>dao/rabbitMQ\<close> are concurrent
  components of their own; \<^verbatim>\<open>dao/gormDB\<close> builds queries from requests, runs them in the transaction of the context and logs them, and
  \<^verbatim>\<open>provider/exporter\<close> turns answers into files.  A controller (\<^verbatim>\<open>HTTPServer/gin/handler\<close>) answers from a cache, through the exporter or with JSON; requests are
  logged through \<^verbatim>\<open>log\<close>; \<^verbatim>\<open>cmd\<close> runs jobs with the recovery of \<^verbatim>\<open>coroutines\<close>, and \<^verbatim>\<open>init.go\<close> starts the crash reporter.

  \<^bold>\<open>Theories.\<close>  State is a \<^verbatim>\<open>record\<close>, an operation a function of the same name; a method \<^verbatim>\<open>T.M\<close> whose bare name is taken is \<^verbatim>\<open>T_M\<close> or
  has the component in front.

  \<^item> \<^verbatim>\<open>Go_Prelude\<close>: \<^verbatim>\<open>int64\<close> wrap-around, error values, contexts, byte strings and \<^verbatim>\<open>strings\<close>, the oracle clock, facts on lists and maps.
    \<^verbatim>\<open>Float64\<close>: binary64 arithmetic over exact rationals.  \<^verbatim>\<open>Text_Encoding\<close>: decimal, hexadecimal and base-64 text with their round trips.
  \<^item> \<^verbatim>\<open>Nodepool_Types\<close>, \<^verbatim>\<open>Nodepool_Node\<close>, \<^verbatim>\<open>Nodepool_Strategy\<close>, \<^verbatim>\<open>Nodepool_Pool\<close>: \<^verbatim>\<open>provider/nodepool\<close>, one theory per file.  Shown: the
    circuit breaker is a function of the history of outcomes; scores are finite and in range; both strategies make a bounded number of calls, release what
    they acquire and return the answer their calls explain; the pool's invariant holds in every reachable state under any interleaving of
    membership changes, sorting and requests; \<^verbatim>\<open>DoUntilComplete\<close> returns when its context ends.
  \<^item> \<^verbatim>\<open>Http_Chain\<close>, \<^verbatim>\<open>Net_Http\<close>: \<^verbatim>\<open>net/http\<close>.  The index-driven chain refines the onion of its middlewares, and where it does not (recovered panics,
    \<^verbatim>\<open>Compose\<close>, the \<^verbatim>\<open>int8\<close> index); which requests are retried and what is logged.  \<^verbatim>\<open>Http_Transport\<close>: the transport and its classifier.
  \<^item> \<^verbatim>\<open>Request_Pool\<close>: \<^verbatim>\<open>provider/requestPool\<close> as a state machine; no request of an open group is lost or duplicated.
  \<^item> \<^verbatim>\<open>Cache\<close>: \<^verbatim>\<open>cache\<close>, with the contract of the interface as the locale \<^verbatim>\<open>cache_contract\<close>, which the three implementations interpret; the two-level
    cache refines a map.  \<^verbatim>\<open>Dlock\<close>: \<^verbatim>\<open>dlock\<close> with the locale \<^verbatim>\<open>mutex_contract\<close>; mutual exclusion for every backend.
  \<^item> \<^verbatim>\<open>Single_Run\<close>, \<^verbatim>\<open>Safe_Chan\<close>, \<^verbatim>\<open>Ordered_Map\<close>, \<^verbatim>\<open>Cast\<close>, \<^verbatim>\<open>Text_Utils\<close>, \<^verbatim>\<open>Encry\<close>: \<^verbatim>\<open>common/utils\<close>.  Exclusion and progress per key, no send on a closed
    channel, refinement of the linked map to an association list, typed conversions and their round trips, escaping, password hashes.
  \<^item> \<^verbatim>\<open>Coroutines\<close>, \<^verbatim>\<open>Crash_Report\<close>: \<^verbatim>\<open>common/coroutines\<close>.  When \<^verbatim>\<open>Retry\<close> returns, that the worker pool handles every element once and ends, that
    every crash dump is reported once.
  \<^item> \<^verbatim>\<open>Go_Errors\<close>, \<^verbatim>\<open>App_Auth\<close>, \<^verbatim>\<open>Message_Sender\<close>: \<^verbatim>\<open>err\<close> and the error answers, request authentication (a signed request passes exactly when it is
    fresh), the message senders with their duplicate suppression (locale \<^verbatim>\<open>dedup_sender\<close>) and \<^verbatim>\<open>notify\<close>.
  \<^item> \<^verbatim>\<open>Gorm_Query\<close>: \<^verbatim>\<open>dao/gormDB/query.go\<close> and \<^verbatim>\<open>filter.go\<close>.  No request value becomes SQL text, \<^verbatim>\<open>LIKE\<close> patterns match literally, pages partition
    the rows.
  \<^item> \<^verbatim>\<open>Rabbit_Mq\<close>: \<^verbatim>\<open>dao/rabbitMQ\<close>.  Publisher confirms report what is not confirmed, retries are at least once, transactions all or nothing, one
    connection at a time; where the backoff wraps and where \<^verbatim>\<open>Close\<close> leaks.
  \<^item> \<^verbatim>\<open>Ws_Conn\<close>: \<^verbatim>\<open>net/ws\<close>.  \<^verbatim>\<open>Stop\<close> leaves nothing open, a connection closes once; where a failed write deadlocks and that a stopped client
    cannot restart.  \<^verbatim>\<open>Ws_Read\<close>: the read loops; messages are delivered in order until a frame is late, a silent peer is dropped, where a slow callback loses frames; the
    pause before dialling again stays in its bounds.
  \<^item> \<^verbatim>\<open>Export_Writer\<close>, \<^verbatim>\<open>Exporter\<close>: \<^verbatim>\<open>export\<close> and \<^verbatim>\<open>provider/exporter\<close>.  CSV text reads back, accepted names stay inside the working directory, an export
    has every element across its batches (locales \<^verbatim>\<open>row_writer\<close> and \<^verbatim>\<open>export_writer\<close>, interpreted by both writers) and leaves no file behind.
  \<^item> \<^verbatim>\<open>Http_Result\<close>: \<^verbatim>\<open>net/http/result.go\<close>, the join of the HTTP client and the conversions: when \<^verbatim>\<open>Parse\<close> returns a value and that it has the type asked for.
  \<^item> \<^verbatim>\<open>Gin_Handlers\<close>, \<^verbatim>\<open>Request_Log\<close>: the other files of \<^verbatim>\<open>HTTPServer/gin\<close>.  A cached answer belongs to its request (proved in \<^verbatim>\<open>cache_contract\<close>, so for every cache), bodies can be read again,
    session values come back; a logged body is cut at a rune and stays valid UTF-8, and what is wrong with the logged response.
  \<^item> \<^verbatim>\<open>Gorm_Exec\<close>: \<^verbatim>\<open>gormDB/func.go\<close>, \<^verbatim>\<open>tx.go\<close>, \<^verbatim>\<open>driver.go\<close>, \<^verbatim>\<open>log.go\<close>.  \<^verbatim>\<open>QueryAndSave\<close> is atomic and reports what it did, transactions nest per database and keep their id, inserts are strict, errors and slow
    statements are logged; where a rolled-back insert is reported.
  \<^item> \<^verbatim>\<open>Redis_Client\<close>: \<^verbatim>\<open>dao/redis\<close>.  A key scan returns the keys of a complete iteration, also over a cluster for every interleaving of the shards, and ends only if a cursor comes back to zero.
  \<^item> \<^verbatim>\<open>Time_Range\<close>: \<^verbatim>\<open>common/community/time_range.go\<close> over the Gregorian calendar and time zones.  A range of dates or months holds exactly its days; where a day has no midnight and where an expiry check (\<^verbatim>\<open>utils/time.go\<close>) wraps.
  \<^item> \<^verbatim>\<open>Scheduler\<close>: \<^verbatim>\<open>cmd/cmd.go\<close>.  Names stand for different scheduled jobs and nothing else is scheduled; everything that goes wrong in a run is reported.
  \<^item> \<^verbatim>\<open>Logging\<close>: \<^verbatim>\<open>log\<close> and the hooks of the Redis and Mongo clients.  Both drivers log the same entries for every derived logger; hooks only watch.
  \<^item> \<^verbatim>\<open>Chain_Tools\<close>: \<^verbatim>\<open>provider/chain\<close> and the helpers on decimals: amounts are divided exactly, which addresses are accepted.  \<^verbatim>\<open>Service_Setup\<close>: \<^verbatim>\<open>init.go\<close>, \<^verbatim>\<open>config\<close>, \<^verbatim>\<open>email\<close>,
    \<^verbatim>\<open>dao/mongo\<close>, \<^verbatim>\<open>dao/xormDB\<close>, \<^verbatim>\<open>utils/file.go\<close>: the crash directory, the kind of a configuration file, how mail is sent, files that are appended to.

  \<^bold>\<open>Conventions.\<close>  A Go \<^verbatim>\<open>string\<close> is a list of bytes; \<^verbatim>\<open>int\<close> and \<^verbatim>\<open>time.Duration\<close> are \<^typ>\<open>int\<close> with \<^const>\<open>wrap64\<close> where a result may
  overflow.  An error is a value; a panic is \<^term>\<open>None\<close> or a value of its own.  Concurrent code is an inductive step relation over the shared
  state, one constructor for each stretch of code between two accesses that others can see, and theorems speak of every reachable state.  Random choices, the clock
  and the network are oracles or rules of the relation.

  \<^bold>\<open>Loops.\<close>  A loop whose end is visible recurses structurally or has a measure.  Loops that may run for ever (\<^verbatim>\<open>Retry\<close>, \<^verbatim>\<open>scanKeys\<close>, \<^verbatim>\<open>SendMessagesEvery\<close>,
  \<^verbatim>\<open>ConsumeMessages\<close>) are partial functions with not returning as a value, and \<^verbatim>\<open>Retry_terminates_iff\<close> says when \<^verbatim>\<open>Retry\<close> returns.  \<^verbatim>\<open>DoUntilComplete\<close> and the
  middleware loop \<^verbatim>\<open>Next\<close> have fuel; the theorems show that the fuel they are given is enough (for \<^verbatim>\<open>DoUntilComplete\<close> from the moment at which the context ends, for
  \<^verbatim>\<open>Next\<close> as \<^verbatim>\<open>chain_fuel\<close>, computed from the nesting of the middlewares, because every round advances the index).

  \<^bold>\<open>What is a parameter.\<close>  Third-party packages (otter, the Redis and etcd clients, redsync, singleflight, fasthttp, resty, the AMQP and WebSocket libraries, GORM,
  the cryptographic primitives, JSON, \<^verbatim>\<open>golang.org/x\<close>) are records of functions that the definitions take as arguments.  A theorem that needs their documented behaviour names it as
  a hypothesis or a locale assumption (\<^verbatim>\<open>in_order\<close>, \<^verbatim>\<open>tx_laws\<close>, \<^verbatim>\<open>conn_laws\<close>, \<^verbatim>\<open>tx_atomic\<close> for GORM transactions, \<^verbatim>\<open>gocron_laws\<close> for the scheduler, \<^verbatim>\<open>dec_laws\<close> for decimals, the laws of the caches and locks) and has a witness with a concrete instance.

  \<^bold>\<open>Not modelled.\<close>  The example service, the demonstration of a date library (\<^verbatim>\<open>utils/date.go\<close>) and the small \<^verbatim>\<open>test\<close> functions of \<^verbatim>\<open>provider/chain\<close>, which are no part of the library; adapters that only pass
  a context on (\<^verbatim>\<open>gin/exporter\<close>, \<^verbatim>\<open>wsServer.go\<close>); the set-up of the HTTP clients and generated keys (calls of the libraries); the layout of log lines; reflection that only allocates (\<^verbatim>\<open>newStruct\<close>,
  \<^verbatim>\<open>DefaultIfZeroReflect\<close>); and the status print of \<^verbatim>\<open>requestPool\<close>.  What remains of the source beyond these is comments, imports and constants.
\<close>

end
